(* ===== verification/Prelude.thy ===== *)
theory Prelude
  imports Main "HOL-Library.Word"
begin

text \<open>
  Shared vocabulary of the development: bytes and little-endian integers, C strings, decimal
  output, faults, and the sequential computations in which the C functions are written, with
  the two proof rules (invariant preservation and total return) every component uses.
\<close>

named_theorems keeps_rules \<open>preservation of a state predicate by the computations of the model\<close>
named_theorems returns_rules \<open>computations that return (no fault, no divergence)\<close>

section \<open>Bytes\<close>

lemma unat_bound: "unat (w :: 'a::len word) < 2 ^ LENGTH('a)"
  by (rule unsigned_less)

type_synonym byte = "8 word"
type_synonym c_int = "32 word"
type_synonym time_t = "64 word"

text \<open>\<open>le n x\<close>: the \<open>n\<close> low-order bytes of \<open>x\<close>, least significant first, as an x86-64 store
  writes them; \<open>unle\<close> reads them back.\<close>

fun le :: "nat \<Rightarrow> nat \<Rightarrow> byte list" where
  "le 0 x = []"
| "le (Suc n) x = word_of_nat (x mod 256) # le n (x div 256)"

fun unle :: "byte list \<Rightarrow> nat" where
  "unle [] = 0"
| "unle (b # bs) = unat b + 256 * unle bs"

lemma length_le [simp]: "length (le n x) = n"
  by (induction n arbitrary: x) auto

lemma unle_le: "unle (le n x) = x mod 256 ^ n"
proof (induction n arbitrary: x)
  case 0
  then show ?case by simp
next
  case (Suc n)
  have "unat (word_of_nat (x mod 256) :: byte) = x mod 256"
    by (simp add: unat_of_nat)
  with Suc show ?case
    by (simp add: mod_mult2_eq)
qed

lemma unle_le_small: "x < 256 ^ n \<Longrightarrow> unle (le n x) = x"
  by (simp add: unle_le)

lemma unle_bound: "unle bs < 256 ^ length bs"
proof (induction bs)
  case Nil
  then show ?case by simp
next
  case (Cons b bs)
  have "unat b < 256" using unat_bound [of b] by simp
  with Cons show ?case by simp
qed

lemma le_unle: "le (length bs) (unle bs) = bs"
proof (induction bs)
  case Nil
  then show ?case by simp
next
  case (Cons b bs)
  have "unat b < 256" using unat_bound [of b] by simp
  with Cons show ?case by simp
qed

definition le32 :: "c_int \<Rightarrow> byte list" where
  "le32 w = le 4 (unat w)"

definition rd32 :: "byte list \<Rightarrow> c_int" where
  "rd32 bs = word_of_nat (unle (take 4 bs))"

definition le64 :: "64 word \<Rightarrow> byte list" where
  "le64 w = le 8 (unat w)"

definition rd64 :: "byte list \<Rightarrow> 64 word" where
  "rd64 bs = word_of_nat (unle (take 8 bs))"

lemma length_le32 [simp]: "length (le32 w) = 4"
  by (simp add: le32_def)

lemma length_le64 [simp]: "length (le64 w) = 8"
  by (simp add: le64_def)

lemma rd32_le32 [simp]: "rd32 (le32 w @ bs) = w"
  using unat_bound [of w] by (simp add: rd32_def le32_def unle_le_small)

lemma rd32_le32' [simp]: "rd32 (le32 w) = w"
  using rd32_le32 [of w "[]"] by simp

lemma rd64_le64 [simp]: "rd64 (le64 w @ bs) = w"
  using unat_bound [of w] by (simp add: rd64_def le64_def unle_le_small)

lemma le32_rd32: "4 \<le> length bs \<Longrightarrow> le32 (rd32 bs) = take 4 bs"
proof -
  assume "4 \<le> length bs"
  then have len: "length (take 4 bs) = 4" by simp
  then have "unle (take 4 bs) < 2 ^ 32" using unle_bound [of "take 4 bs"] by simp
  then have "unat (rd32 bs) = unle (take 4 bs)"
    by (simp add: rd32_def unat_of_nat)
  then show ?thesis using le_unle [of "take 4 bs"] len by (simp add: le32_def)
qed

lemma le64_rd64: "8 \<le> length bs \<Longrightarrow> le64 (rd64 bs) = take 8 bs"
proof -
  assume "8 \<le> length bs"
  then have len: "length (take 8 bs) = 8" by simp
  then have "unle (take 8 bs) < 2 ^ 64" using unle_bound [of "take 8 bs"] by simp
  then have "unat (rd64 bs) = unle (take 8 bs)"
    by (simp add: rd64_def unat_of_nat)
  then show ?thesis using le_unle [of "take 8 bs"] len by (simp add: le64_def)
qed

lemma le32_inject [simp]: "le32 v = le32 w \<longleftrightarrow> v = w"
  by (metis rd32_le32')

lemma le64_inject [simp]: "le64 v = le64 w \<longleftrightarrow> v = w"
  by (metis append.right_neutral rd64_le64)

text \<open>\<open>overlay new old\<close>: a buffer after \<open>read\<close> or \<open>recv\<close> stored the bytes \<open>new\<close> at its start;
  whatever the call did not overwrite keeps its old contents.\<close>

definition overlay :: "byte list \<Rightarrow> byte list \<Rightarrow> byte list" where
  "overlay new old = take (length old) new @ drop (length new) old"

lemma length_overlay [simp]: "length (overlay new old) = length old"
  by (simp add: overlay_def)

lemma overlay_Nil [simp]: "overlay [] old = old"
  by (simp add: overlay_def)

lemma overlay_full: "length new = length old \<Longrightarrow> overlay new old = new"
  by (simp add: overlay_def)

text \<open>Zero padding, as \<open>bzero\<close> followed by a \<open>memcpy\<close> of a shorter object leaves it.\<close>

definition zeros :: "nat \<Rightarrow> byte list" where
  "zeros n = replicate n 0"

lemma length_zeros [simp]: "length (zeros n) = n"
  by (simp add: zeros_def)

definition pad_to :: "nat \<Rightarrow> byte list \<Rightarrow> byte list" where
  "pad_to n bs = bs @ zeros (n - length bs)"

lemma length_pad_to [simp]: "length bs \<le> n \<Longrightarrow> length (pad_to n bs) = n"
  by (simp add: pad_to_def)

lemma take_pad_to: "take (length bs) (pad_to n bs) = bs"
  by (simp add: pad_to_def)

section \<open>C strings and decimal output\<close>

definition byte_of_char :: "char \<Rightarrow> byte" where
  "byte_of_char c = word_of_nat (of_char c)"

definition bytes_of :: "string \<Rightarrow> byte list" where
  "bytes_of s = map byte_of_char s"

lemma length_bytes_of [simp]: "length (bytes_of s) = length s"
  by (simp add: bytes_of_def)

lemma unat_byte_of_char [simp]: "unat (byte_of_char c) = of_char c"
proof -
  have "(of_char c :: nat) < 256"
    using of_char_mod_256 [of c, where 'a = nat] by (metis mod_less_divisor zero_less_numeral)
  then show ?thesis by (simp add: byte_of_char_def unat_of_nat)
qed

lemma byte_of_char_inject [simp]: "byte_of_char c = byte_of_char d \<longleftrightarrow> c = d"
  by (metis char_of_char unat_byte_of_char)

lemma byte_of_char_eq_0 [simp]: "byte_of_char c = 0 \<longleftrightarrow> c = CHR 0x00"
proof -
  have "byte_of_char (CHR 0x00) = 0" by (simp add: byte_of_char_def)
  then show ?thesis by (metis byte_of_char_inject)
qed

text \<open>\<open>c_str bs\<close>: the string a C library call reads from the object with bytes \<open>bs\<close>; \<open>None\<close> when
  there is no terminating NUL in the object, so that the call reads past its end.\<close>

definition c_str :: "byte list \<Rightarrow> byte list option" where
  "c_str bs = (if 0 \<in> set bs then Some (takeWhile (\<lambda>b. b \<noteq> 0) bs) else None)"

lemma c_str_append_0: "0 \<notin> set bs \<Longrightarrow> c_str (bs @ 0 # cs) = Some bs"
  by (auto simp: c_str_def takeWhile_append)

definition digit :: "nat \<Rightarrow> char" where
  "digit d = char_of (48 + d)"

fun show_nat :: "nat \<Rightarrow> string" where
  "show_nat n = (if n < 10 then [digit n] else show_nat (n div 10) @ [digit (n mod 10)])"

declare show_nat.simps [simp del]

definition show_int :: "int \<Rightarrow> string" where
  "show_int i = (if i < 0 then CHR ''-'' # show_nat (nat (- i)) else show_nat (nat i))"

lemma of_char_digit: "d < 10 \<Longrightarrow> of_char (digit d) = 48 + d"
  by (simp add: digit_def)

definition is_digit :: "char \<Rightarrow> bool" where
  "is_digit c \<longleftrightarrow> (48 :: nat) \<le> of_char c \<and> of_char c \<le> (57 :: nat)"

definition digit_val :: "char \<Rightarrow> nat" where
  "digit_val c = of_char c - 48"

lemma is_digit_digit [simp]: "d < 10 \<Longrightarrow> is_digit (digit d)"
  by (simp add: is_digit_def of_char_digit)

lemma digit_val_digit [simp]: "d < 10 \<Longrightarrow> digit_val (digit d) = d"
  by (simp add: digit_val_def of_char_digit)

lemma show_nat_digits: "c \<in> set (show_nat n) \<Longrightarrow> is_digit c"
proof (induction n rule: show_nat.induct)
  case (1 n)
  then show ?case by (auto simp: show_nat.simps [of n] split: if_splits)
qed

lemma show_nat_not_Nil [simp]: "show_nat n \<noteq> []"
  by (simp add: show_nat.simps [of n])

text \<open>Reading a digit string back, most significant digit first.\<close>

definition digits_val :: "string \<Rightarrow> nat" where
  "digits_val s = foldl (\<lambda>acc c. acc * 10 + digit_val c) 0 s"

lemma digits_val_show_nat [simp]: "digits_val (show_nat n) = n"
proof (induction n rule: show_nat.induct)
  case (1 n)
  show ?case
  proof (cases "n < 10")
    case True
    then show ?thesis by (simp add: show_nat.simps [of n] digits_val_def)
  next
    case False
    with 1 have "digits_val (show_nat (n div 10)) = n div 10" by simp
    with False show ?thesis
      by (simp add: show_nat.simps [of n] digits_val_def)
  qed
qed

lemma length_show_nat: "n < 10 ^ k \<Longrightarrow> 0 < k \<Longrightarrow> length (show_nat n) \<le> k"
proof (induction n arbitrary: k rule: show_nat.induct)
  case (1 n)
  show ?case
  proof (cases "n < 10")
    case True
    with 1 show ?thesis by (simp add: show_nat.simps [of n])
  next
    case False
    with 1(2) obtain j where k: "k = Suc j" "0 < j"
      by (metis One_nat_def Suc_pred less_nat_zero_code nat_neq_iff neq0_conv power_one_right
          1(3))
    with 1(2) have "n div 10 < 10 ^ j" by (simp add: less_mult_imp_div_less mult.commute)
    with False 1(1) k have "length (show_nat (n div 10)) \<le> j" by simp
    with False k show ?thesis by (simp add: show_nat.simps [of n])
  qed
qed

end
