(* ===== verification/Computation.thy ===== *)
theory Computation
  imports Prelude
begin

text \<open>
  The sequential computations the C functions are written in: a function from the state of the
  process to a fault or a value with the next state. A fault stands for undefined behaviour
  (null dereference, access to freed memory, access outside an object, read of an indeterminate
  value), for \<open>exit(EXIT_FAILURE)\<close> or a failed assertion, or for a loop that never ends. Two predicates carry the
  component proofs: \<open>keeps I m\<close> (\<open>m\<close> preserves \<open>I\<close>) and \<open>returns P m\<close> (from a state with
  \<open>P\<close>, \<open>m\<close> returns a value); \<open>frames f m\<close> says that \<open>m\<close> does not touch what \<open>f\<close> reads.
\<close>

datatype fault =
    Null_deref | Freed_access | Out_of_bounds | Uninit_read | Exit_failure | Diverges | Abort

type_synonym ('s, 'a) comp = "'s \<Rightarrow> fault + ('a \<times> 's)"

definition ret :: "'a \<Rightarrow> ('s, 'a) comp" where
  "ret a = (\<lambda>s. Inr (a, s))"

definition fail :: "fault \<Rightarrow> ('s, 'a) comp" where
  "fail e = (\<lambda>s. Inl e)"

definition bnd :: "('s, 'a) comp \<Rightarrow> ('a \<Rightarrow> ('s, 'b) comp) \<Rightarrow> ('s, 'b) comp" where
  "bnd m k = (\<lambda>s. case m s of Inl e \<Rightarrow> Inl e | Inr (a, t) \<Rightarrow> k a t)"

definition seq :: "('s, 'a) comp \<Rightarrow> ('s, 'b) comp \<Rightarrow> ('s, 'b) comp" where
  "seq m k = bnd m (\<lambda>_. k)"

definition gets :: "('s \<Rightarrow> 'a) \<Rightarrow> ('s, 'a) comp" where
  "gets f = (\<lambda>s. Inr (f s, s))"

definition modify :: "('s \<Rightarrow> 's) \<Rightarrow> ('s, unit) comp" where
  "modify f = (\<lambda>s. Inr ((), f s))"

definition skip :: "('s, unit) comp" where
  "skip = ret ()"

text \<open>\<open>when_do b m\<close>: an \<open>if\<close> statement without \<open>else\<close>.\<close>

definition when_do :: "bool \<Rightarrow> ('s, unit) comp \<Rightarrow> ('s, unit) comp" where
  "when_do b m = (if b then m else skip)"

text \<open>\<open>for_each f xs\<close>: a \<open>for\<close> loop over a sequence fixed before the loop.\<close>

fun for_each :: "('x \<Rightarrow> ('s, unit) comp) \<Rightarrow> 'x list \<Rightarrow> ('s, unit) comp" where
  "for_each f [] = skip"
| "for_each f (x # xs) = seq (f x) (for_each f xs)"

lemmas comp_defs = ret_def fail_def bnd_def seq_def gets_def modify_def skip_def when_do_def

lemma bnd_Inr: "bnd m k s = Inr (b, u) \<longleftrightarrow> (\<exists>a t. m s = Inr (a, t) \<and> k a t = Inr (b, u))"
  by (auto simp: bnd_def split: sum.splits)

lemma seq_Inr: "seq m k s = Inr (b, u) \<longleftrightarrow> (\<exists>a t. m s = Inr (a, t) \<and> k t = Inr (b, u))"
  by (auto simp: seq_def bnd_Inr)

lemma ret_apply [simp]: "ret a s = Inr (a, s)"
  by (simp add: ret_def)

lemma skip_apply [simp]: "skip s = Inr ((), s)"
  by (simp add: skip_def)

lemma fail_apply [simp]: "fail e s = Inl e"
  by (simp add: fail_def)

lemma gets_apply [simp]: "gets f s = Inr (f s, s)"
  by (simp add: gets_def)

lemma modify_apply [simp]: "modify f s = Inr ((), f s)"
  by (simp add: modify_def)

lemma bnd_apply: "m s = Inr (a, t) \<Longrightarrow> bnd m k s = k a t"
  by (simp add: bnd_def)

lemma seq_apply: "m s = Inr (a, t) \<Longrightarrow> seq m k s = k t"
  by (simp add: seq_def bnd_def)

lemma bnd_gets [simp]: "bnd (gets f) k s = k (f s) s"
  by (simp add: bnd_def)

lemma bnd_ret [simp]: "bnd (ret a) k = k a"
  by (simp add: bnd_def fun_eq_iff)

lemma seq_ret [simp]: "seq (ret a) m = m"
  by (simp add: seq_def bnd_def fun_eq_iff)

lemma seq_modify [simp]: "seq (modify f) m s = m (f s)"
  by (simp add: seq_def bnd_def)

lemma seq_skip [simp]: "seq skip m = m"
  by (simp add: seq_def bnd_def fun_eq_iff)

lemma bnd_assoc: "bnd (bnd m k) l = bnd m (\<lambda>a. bnd (k a) l)"
  by (auto simp: bnd_def fun_eq_iff split: sum.splits)

lemma seq_assoc: "seq (seq m k) l = seq m (seq k l)"
  by (simp add: seq_def bnd_assoc)

section \<open>Preservation\<close>

definition keeps :: "('s \<Rightarrow> bool) \<Rightarrow> ('s, 'a) comp \<Rightarrow> bool" where
  "keeps I m \<longleftrightarrow> (\<forall>s a t. I s \<longrightarrow> m s = Inr (a, t) \<longrightarrow> I t)"

lemma keepsI: "(\<And>s a t. I s \<Longrightarrow> m s = Inr (a, t) \<Longrightarrow> I t) \<Longrightarrow> keeps I m"
  by (auto simp: keeps_def)

lemma keepsD: "keeps I m \<Longrightarrow> I s \<Longrightarrow> m s = Inr (a, t) \<Longrightarrow> I t"
  by (auto simp: keeps_def)

lemma keeps_ret [keeps_rules]: "keeps I (ret a)"
  by (simp add: keeps_def)

lemma keeps_skip [keeps_rules]: "keeps I skip"
  by (simp add: keeps_def)

lemma keeps_fail [keeps_rules]: "keeps I (fail e)"
  by (simp add: keeps_def)

lemma keeps_gets [keeps_rules]: "keeps I (gets f)"
  by (simp add: keeps_def)

lemma keeps_modify: "(\<And>s. I s \<Longrightarrow> I (f s)) \<Longrightarrow> keeps I (modify f)"
  by (simp add: keeps_def)

lemma keeps_bnd [keeps_rules]: "keeps I m \<Longrightarrow> (\<And>a. keeps I (k a)) \<Longrightarrow> keeps I (bnd m k)"
  unfolding keeps_def bnd_Inr by blast

lemma keeps_seq [keeps_rules]: "keeps I m \<Longrightarrow> keeps I k \<Longrightarrow> keeps I (seq m k)"
  by (simp add: seq_def keeps_bnd)

lemma keeps_when_do [keeps_rules]: "(b \<Longrightarrow> keeps I m) \<Longrightarrow> keeps I (when_do b m)"
  by (simp add: when_do_def keeps_skip)

lemma keeps_if [keeps_rules]:
  "(b \<Longrightarrow> keeps I m) \<Longrightarrow> (\<not> b \<Longrightarrow> keeps I n) \<Longrightarrow> keeps I (if b then m else n)"
  by simp

lemma keeps_for_each [keeps_rules]: "(\<And>x. keeps I (f x)) \<Longrightarrow> keeps I (for_each f xs)"
  by (induction xs) (auto intro: keeps_rules)

section \<open>Returning\<close>

definition returns :: "('s \<Rightarrow> bool) \<Rightarrow> ('s, 'a) comp \<Rightarrow> bool" where
  "returns P m \<longleftrightarrow> (\<forall>s. P s \<longrightarrow> (\<exists>a t. m s = Inr (a, t)))"

lemma returnsI: "(\<And>s. P s \<Longrightarrow> \<exists>a t. m s = Inr (a, t)) \<Longrightarrow> returns P m"
  by (auto simp: returns_def)

lemma returnsE:
  assumes "returns P m" and "P s"
  obtains a t where "m s = Inr (a, t)"
  using assms by (auto simp: returns_def)

lemma returns_ret [returns_rules]: "returns P (ret a)"
  by (simp add: returns_def)

lemma returns_skip [returns_rules]: "returns P skip"
  by (simp add: returns_def)

lemma returns_gets [returns_rules]: "returns P (gets f)"
  by (simp add: returns_def)

lemma returns_modify [returns_rules]: "returns P (modify f)"
  by (simp add: returns_def)

lemma returns_bnd [returns_rules]:
  "returns P m \<Longrightarrow> keeps P m \<Longrightarrow> (\<And>a. returns P (k a)) \<Longrightarrow> returns P (bnd m k)"
  unfolding returns_def keeps_def bnd_Inr by blast

lemma returns_seq [returns_rules]:
  "returns P m \<Longrightarrow> keeps P m \<Longrightarrow> returns P k \<Longrightarrow> returns P (seq m k)"
  by (simp add: seq_def returns_bnd)

lemma returns_when_do [returns_rules]: "(b \<Longrightarrow> returns P m) \<Longrightarrow> returns P (when_do b m)"
  by (simp add: when_do_def returns_skip)

lemma returns_if [returns_rules]:
  "(b \<Longrightarrow> returns P m) \<Longrightarrow> (\<not> b \<Longrightarrow> returns P n) \<Longrightarrow> returns P (if b then m else n)"
  by simp

lemma returns_for_each [returns_rules]:
  "(\<And>x. returns P (f x)) \<Longrightarrow> (\<And>x. keeps P (f x)) \<Longrightarrow> returns P (for_each f xs)"
  by (induction xs) (auto intro: returns_rules)

section \<open>Frames\<close>

definition frames :: "('s \<Rightarrow> 'v) \<Rightarrow> ('s, 'a) comp \<Rightarrow> bool" where
  "frames f m \<longleftrightarrow> (\<forall>v. keeps (\<lambda>s. f s = v) m)"

lemma framesD: "frames f m \<Longrightarrow> m s = Inr (a, t) \<Longrightarrow> f t = f s"
  by (auto simp: frames_def keeps_def)

lemma framesI: "(\<And>s a t. m s = Inr (a, t) \<Longrightarrow> f t = f s) \<Longrightarrow> frames f m"
  by (auto simp: frames_def keeps_def)

lemma frames_keeps: "frames f m \<Longrightarrow> keeps (\<lambda>s. P (f s)) m"
  by (auto simp: frames_def keeps_def)

section \<open>Runs and invariants\<close>

text \<open>A run folds a step over a list of events; it stops at the first fault.\<close>

fun run :: "('e \<Rightarrow> ('s, 'a) comp) \<Rightarrow> 'e list \<Rightarrow> ('s, unit) comp" where
  "run step [] = skip"
| "run step (e # es) = seq (step e) (run step es)"

text \<open>
  The contract shared by the event loops (server, client, file receiver): a step that preserves
  an invariant under an assumption on its event, and returns from states with the invariant. The
  clients of the contract are facts about whole runs.
\<close>

locale step_system =
  fixes step :: "'e \<Rightarrow> ('s, 'a) comp"
    and ok :: "'s \<Rightarrow> 'e \<Rightarrow> bool"
    and inv :: "'s \<Rightarrow> bool"
  assumes step_inv: "inv s \<Longrightarrow> ok s e \<Longrightarrow> step e s = Inr (a, t) \<Longrightarrow> inv t"
    and step_returns: "inv s \<Longrightarrow> ok s e \<Longrightarrow> \<exists>a t. step e s = Inr (a, t)"
begin

text \<open>A run whose every event satisfies the assumption in the state it meets.\<close>

fun run_ok :: "'s \<Rightarrow> 'e list \<Rightarrow> bool" where
  "run_ok s [] = True"
| "run_ok s (e # es) =
     (ok s e \<and> (case step e s of Inl _ \<Rightarrow> True | Inr (a, t) \<Rightarrow> run_ok t es))"

lemma run_returns_inv:
  "inv s \<Longrightarrow> run_ok s es \<Longrightarrow> \<exists>t. run step es s = Inr ((), t) \<and> inv t"
proof (induction es arbitrary: s)
  case Nil
  then show ?case by simp
next
  case (Cons e es)
  then obtain a t where st: "step e s = Inr (a, t)"
    using step_returns [of s e] by auto
  with Cons.prems have "inv t" "run_ok t es"
    using step_inv [of s e a t] by auto
  with Cons.IH [of t] st show ?case by (simp add: seq_apply)
qed

lemma run_inv: "inv s \<Longrightarrow> run_ok s es \<Longrightarrow> run step es s = Inr (u, t) \<Longrightarrow> inv t"
  using run_returns_inv [of s es] by auto

end

text \<open>When the assumption on the events is exact, a run returns if and only if its events satisfy it.\<close>

locale exact_steps = step_system +
  assumes step_faults: "inv s \<Longrightarrow> \<not> ok s e \<Longrightarrow> \<exists>f. step e s = Inl f"
begin

lemma run_returns_iff: "inv s \<Longrightarrow> (\<exists>t. run step es s = Inr ((), t)) \<longleftrightarrow> run_ok s es"
proof (induction es arbitrary: s)
  case Nil
  then show ?case by simp
next
  case (Cons e es)
  show ?case
  proof (cases "ok s e")
    case True
    then obtain a t where st: "step e s = Inr (a, t)" using step_returns Cons.prems by blast
    then have "inv t" using step_inv Cons.prems True by blast
    from Cons.IH [OF this] show ?thesis using st True by (simp add: seq_apply)
  next
    case False
    then obtain f where "step e s = Inl f" using step_faults Cons.prems by blast
    then show ?thesis using False by (simp add: seq_def bnd_def)
  qed
qed

end

end
