(* ===== verification/Linked_List.thy ===== *)
theory Linked_List
  imports Computation
begin

text \<open>
  \<open>server/src/list.c\<close> at the level of its pointers. The heap maps addresses to the live nodes, list
  headers, data objects and arrays; address 0 is \<open>NULL\<close>, and an access to an address that is not
  live is a fault. Allocation hands out fresh addresses and may fail (\<open>mem\<close>). A list is a chain of
  nodes closed by an empty node whose \<open>next\<close> is \<open>NULL\<close>. Every traversal gets as fuel the number of
  addresses ever handed out, which no chain exceeds; \<open>Diverges\<close> is a traversal of a cyclic heap.
  The lemmas show that each operation refines the operation on lists of values it stands for.
\<close>

type_synonym addr = nat

datatype free_fun = Free_null | Free_libc

record node_t =
  nxt :: addr
  data :: addr

record 'd list_t =
  head :: addr
  free_data :: free_fun
  compare_data :: "('d \<Rightarrow> 'd \<Rightarrow> int) option"

record 'd heap =
  nodes :: "addr \<Rightarrow> node_t option"
  lists :: "addr \<Rightarrow> 'd list_t option"
  objs :: "addr \<Rightarrow> 'd option"
  arrays :: "addr \<Rightarrow> addr option list option"
  brk :: addr
  nalloc :: nat
  mem :: "nat \<Rightarrow> bool"

section \<open>Allocation and access\<close>

text \<open>One allocation request: the address of the new block, or \<open>NULL\<close>.\<close>

definition new_addr :: "('d heap, addr) comp" where
  "new_addr = (\<lambda>h. if mem h (nalloc h)
     then Inr (brk h, h\<lparr>brk := Suc (brk h), nalloc := Suc (nalloc h)\<rparr>)
     else Inr (0, h\<lparr>nalloc := Suc (nalloc h)\<rparr>))"

definition calloc_node :: "('d heap, addr) comp" where
  "calloc_node = bnd new_addr (\<lambda>a. seq
     (when_do (a \<noteq> 0) (modify (\<lambda>h. h\<lparr>nodes := (nodes h)(a \<mapsto> \<lparr>nxt = 0, data = 0\<rparr>)\<rparr>)))
     (ret a))"

definition calloc_list :: "('d heap, addr) comp" where
  "calloc_list = bnd new_addr (\<lambda>a. seq
     (when_do (a \<noteq> 0) (modify (\<lambda>h. h\<lparr>lists := (lists h)
        (a \<mapsto> \<lparr>head = 0, free_data = Free_null, compare_data = None\<rparr>)\<rparr>)))
     (ret a))"

definition malloc_obj :: "'d \<Rightarrow> ('d heap, addr) comp" where
  "malloc_obj x = bnd new_addr (\<lambda>a. seq
     (when_do (a \<noteq> 0) (modify (\<lambda>h. h\<lparr>objs := (objs h)(a \<mapsto> x)\<rparr>)))
     (ret a))"

text \<open>The fault of an access through \<open>p\<close> when nothing live is there.\<close>

definition bad :: "addr \<Rightarrow> fault" where
  "bad p = (if p = 0 then Null_deref else Freed_access)"

definition deref :: "('d heap \<Rightarrow> addr \<Rightarrow> 'v option) \<Rightarrow> addr \<Rightarrow> ('d heap, 'v) comp" where
  "deref f p = (\<lambda>h. case f h p of None \<Rightarrow> Inl (bad p) | Some v \<Rightarrow> Inr (v, h))"

definition get_nxt :: "addr \<Rightarrow> ('d heap, addr) comp" where
  "get_nxt p = bnd (deref nodes p) (\<lambda>n. ret (nxt n))"

definition get_data :: "addr \<Rightarrow> ('d heap, addr) comp" where
  "get_data p = bnd (deref nodes p) (\<lambda>n. ret (data n))"

definition get_head :: "addr \<Rightarrow> ('d heap, addr) comp" where
  "get_head l = bnd (deref lists l) (\<lambda>lt. ret (head lt))"

definition set_nxt :: "addr \<Rightarrow> addr \<Rightarrow> ('d heap, unit) comp" where
  "set_nxt p q = bnd (deref nodes p)
     (\<lambda>n. modify (\<lambda>h. h\<lparr>nodes := (nodes h)(p \<mapsto> n\<lparr>nxt := q\<rparr>)\<rparr>))"

definition set_data :: "addr \<Rightarrow> addr \<Rightarrow> ('d heap, unit) comp" where
  "set_data p d = bnd (deref nodes p)
     (\<lambda>n. modify (\<lambda>h. h\<lparr>nodes := (nodes h)(p \<mapsto> n\<lparr>data := d\<rparr>)\<rparr>))"

definition set_head :: "addr \<Rightarrow> addr \<Rightarrow> ('d heap, unit) comp" where
  "set_head l p = bnd (deref lists l)
     (\<lambda>lt. modify (\<lambda>h. h\<lparr>lists := (lists h)(l \<mapsto> lt\<lparr>head := p\<rparr>)\<rparr>))"

text \<open>\<open>free\<close> of a null pointer does nothing; of a block that is not live it is a fault.\<close>

definition free_node :: "addr \<Rightarrow> ('d heap, unit) comp" where
  "free_node p = when_do (p \<noteq> 0) (bnd (deref nodes p)
     (\<lambda>_. modify (\<lambda>h. h\<lparr>nodes := (nodes h)(p := None)\<rparr>)))"

definition free_list :: "addr \<Rightarrow> ('d heap, unit) comp" where
  "free_list p = when_do (p \<noteq> 0) (bnd (deref lists p)
     (\<lambda>_. modify (\<lambda>h. h\<lparr>lists := (lists h)(p := None)\<rparr>)))"

definition free_obj :: "addr \<Rightarrow> ('d heap, unit) comp" where
  "free_obj p = when_do (p \<noteq> 0) (bnd (deref objs p)
     (\<lambda>_. modify (\<lambda>h. h\<lparr>objs := (objs h)(p := None)\<rparr>)))"

text \<open>The calls through the function pointers of the list header.\<close>

definition call_free :: "addr \<Rightarrow> addr \<Rightarrow> ('d heap, unit) comp" where
  "call_free l d = bnd (deref lists l)
     (\<lambda>lt. case free_data lt of Free_null \<Rightarrow> fail Null_deref | Free_libc \<Rightarrow> free_obj d)"

definition call_compare :: "addr \<Rightarrow> 'd \<Rightarrow> addr \<Rightarrow> ('d heap, int) comp" where
  "call_compare l x d = bnd (deref lists l) (\<lambda>lt.
     case compare_data lt of None \<Rightarrow> fail Null_deref
     | Some cmp \<Rightarrow> bnd (deref objs d) (\<lambda>y. ret (cmp x y)))"

definition fuel :: "('d heap, nat) comp" where
  "fuel = gets brk"

section \<open>The operations of list.c\<close>

definition list_create :: "('d heap, addr) comp" where
  "list_create =
     bnd calloc_list (\<lambda>l.
     bnd calloc_node (\<lambda>n.
     seq (set_head l n)
     (seq (set_nxt n 0)
     (ret l))))"

definition list_add_start :: "addr \<Rightarrow> addr \<Rightarrow> ('d heap, unit) comp" where
  "list_add_start d l =
     bnd calloc_node (\<lambda>new_node.
     if new_node = 0 then fail Exit_failure
     else seq (set_data new_node d)
     (bnd (get_head l) (\<lambda>h.
     seq (set_nxt new_node h)
     (set_head l new_node))))"

text \<open>\<open>while (cur->next->next != NULL) cur = cur->next;\<close>\<close>

fun seek_last :: "nat \<Rightarrow> addr \<Rightarrow> ('d heap, addr) comp" where
  "seek_last 0 cur = fail Diverges"
| "seek_last (Suc n) cur =
     bnd (get_nxt cur) (\<lambda>a.
     bnd (get_nxt a) (\<lambda>b.
     if b = 0 then ret cur else seek_last n a))"

definition list_add_last :: "addr \<Rightarrow> addr \<Rightarrow> ('d heap, unit) comp" where
  "list_add_last d l =
     bnd calloc_node (\<lambda>new_node.
     seq (set_data new_node d)
     (bnd (get_head l) (\<lambda>h.
     bnd (get_nxt h) (\<lambda>hn.
     if hn = 0 then seq (set_nxt new_node h) (set_head l new_node)
     else bnd fuel (\<lambda>f.
       bnd (seek_last f h) (\<lambda>cur.
       bnd (get_nxt cur) (\<lambda>cn.
       seq (set_nxt new_node cn)
       (set_nxt cur new_node))))))))"

fun find_loop :: "nat \<Rightarrow> addr \<Rightarrow> 'd \<Rightarrow> addr \<Rightarrow> int \<Rightarrow> ('d heap, int) comp" where
  "find_loop 0 l x cur i = fail Diverges"
| "find_loop (Suc n) l x cur i =
     bnd (get_nxt cur) (\<lambda>c.
     if c = 0 then ret (-1)
     else bnd (get_data cur) (\<lambda>d.
       bnd (call_compare l x d) (\<lambda>r.
       if r = 0 then ret i else find_loop n l x c (i + 1))))"

definition list_find :: "'d \<Rightarrow> addr \<Rightarrow> ('d heap, int) comp" where
  "list_find x l = bnd (get_head l) (\<lambda>h. bnd fuel (\<lambda>f. find_loop f l x h 0))"

text \<open>The loop of \<open>list_delete\<close>; \<open>prev\<close> is indeterminate before the first iteration.\<close>

fun delete_loop :: "nat \<Rightarrow> int \<Rightarrow> addr \<Rightarrow> addr \<Rightarrow> addr option \<Rightarrow> int \<Rightarrow> ('d heap, int) comp" where
  "delete_loop 0 target_index l cur prev i = fail Diverges"
| "delete_loop (Suc n) target_index l cur prev i =
     bnd (get_nxt cur) (\<lambda>c.
     if c = 0 then ret (-1)
     else if i = target_index then
       (case prev of None \<Rightarrow> fail Uninit_read
        | Some p \<Rightarrow>
          seq (set_nxt p c)
          (bnd (get_data cur) (\<lambda>d.
          seq (call_free l d)
          (seq (free_node cur)
          (ret 1)))))
     else delete_loop n target_index l c (Some cur) (i + 1))"

definition list_delete :: "int \<Rightarrow> addr \<Rightarrow> ('d heap, int) comp" where
  "list_delete target_index l =
     (if target_index < 0 then ret (-1)
      else bnd (get_head l) (\<lambda>h.
        bnd (get_nxt h) (\<lambda>hn.
        if hn = 0 then ret (-1)
        else if target_index = 0 then
          seq (set_head l hn)
          (bnd (get_data h) (\<lambda>d.
          seq (call_free l d)
          (seq (free_node h)
          (ret 1))))
        else bnd fuel (\<lambda>f. delete_loop f target_index l h None 0))))"

fun slice_loop :: "nat \<Rightarrow> int \<Rightarrow> addr \<Rightarrow> addr option \<Rightarrow> int \<Rightarrow> ('d heap, addr) comp" where
  "slice_loop 0 target_index cur prev index = fail Diverges"
| "slice_loop (Suc n) target_index cur prev index =
     bnd (get_nxt cur) (\<lambda>c.
     if c = 0 then ret 0
     else if index = target_index then
       bnd calloc_list (\<lambda>new_list.
       bnd calloc_node (\<lambda>new_last_empty.
       seq (set_head new_list cur)
       (case prev of None \<Rightarrow> fail Null_deref
        | Some p \<Rightarrow> seq (set_nxt p new_last_empty) (ret new_list))))
     else slice_loop n target_index c (Some cur) (index + 1))"

definition list_slice :: "int \<Rightarrow> addr \<Rightarrow> ('d heap, addr) comp" where
  "list_slice target_index l =
     (if target_index = 0 then ret 0
      else bnd (get_head l) (\<lambda>h. bnd fuel (\<lambda>f. slice_loop f target_index h None 0)))"

fun free_loop :: "nat \<Rightarrow> addr \<Rightarrow> addr \<Rightarrow> ('d heap, addr) comp" where
  "free_loop 0 l cur = fail Diverges"
| "free_loop (Suc n) l cur =
     bnd (get_nxt cur) (\<lambda>c.
     if c = 0 then ret cur
     else bnd (get_data cur) (\<lambda>d.
       seq (call_free l d)
       (bnd (get_nxt cur) (\<lambda>c'.
       seq (free_node cur)
       (free_loop n l c')))))"

definition list_free :: "addr \<Rightarrow> ('d heap, unit) comp" where
  "list_free l = bnd (get_head l) (\<lambda>h. bnd fuel (\<lambda>f.
     bnd (free_loop f l h) (\<lambda>cur.
     seq (free_node cur)
     (free_list l))))"

fun get_loop :: "nat \<Rightarrow> int \<Rightarrow> addr \<Rightarrow> int \<Rightarrow> ('d heap, addr) comp" where
  "get_loop 0 target_index node index = fail Diverges"
| "get_loop (Suc n) target_index node index =
     bnd (get_nxt node) (\<lambda>c.
     if c = 0 then ret 0
     else if index = target_index then get_data node
     else get_loop n target_index c (index + 1))"

definition list_get :: "int \<Rightarrow> addr \<Rightarrow> ('d heap, addr) comp" where
  "list_get target_index l =
     (if target_index < 0 then ret 0
      else bnd (get_head l) (\<lambda>h. bnd fuel (\<lambda>f. get_loop f target_index h 0)))"

subsection \<open>Arrays\<close>

text \<open>A slot of an array that was never stored is \<open>None\<close>.\<close>

definition get_slot :: "addr \<Rightarrow> nat \<Rightarrow> ('d heap, addr) comp" where
  "get_slot p i = bnd (deref arrays p) (\<lambda>vs.
     if i < length vs then (case vs ! i of None \<Rightarrow> fail Uninit_read | Some v \<Rightarrow> ret v)
     else fail Out_of_bounds)"

definition set_slot :: "addr \<Rightarrow> nat \<Rightarrow> addr \<Rightarrow> ('d heap, unit) comp" where
  "set_slot p i v = bnd (deref arrays p) (\<lambda>vs.
     if i < length vs then modify (\<lambda>h. h\<lparr>arrays := (arrays h)(p \<mapsto> vs[i := Some v])\<rparr>)
     else fail Out_of_bounds)"

definition malloc_array :: "nat \<Rightarrow> ('d heap, addr) comp" where
  "malloc_array n = bnd new_addr (\<lambda>a. seq
     (when_do (a \<noteq> 0) (modify (\<lambda>h. h\<lparr>arrays := (arrays h)(a \<mapsto> replicate n None)\<rparr>)))
     (ret a))"

text \<open>\<open>realloc\<close>: a larger block with the old contents; the old block is gone unless it failed.\<close>

definition realloc_array :: "addr \<Rightarrow> nat \<Rightarrow> ('d heap, addr) comp" where
  "realloc_array p n = (if p = 0 then malloc_array n
     else bnd (deref arrays p) (\<lambda>vs. bnd new_addr (\<lambda>a. seq
       (when_do (a \<noteq> 0) (modify (\<lambda>h. h\<lparr>arrays := ((arrays h)(p := None))
          (a \<mapsto> take n vs @ replicate (n - length vs) None)\<rparr>)))
       (ret a))))"

definition free_array :: "addr \<Rightarrow> ('d heap, unit) comp" where
  "free_array p = when_do (p \<noteq> 0) (bnd (deref arrays p)
     (\<lambda>_. modify (\<lambda>h. h\<lparr>arrays := (arrays h)(p := None)\<rparr>)))"

fun from_array_loop :: "nat \<Rightarrow> addr \<Rightarrow> addr \<Rightarrow> nat \<Rightarrow> ('d heap, nat) comp" where
  "from_array_loop 0 array l i = fail Diverges"
| "from_array_loop (Suc n) array l i =
     bnd (get_slot array i) (\<lambda>v.
     if v = 0 then ret i
     else seq (list_add_last v l) (from_array_loop n array l (Suc i)))"

definition array_len :: "addr \<Rightarrow> ('d heap, nat) comp" where
  "array_len p = bnd (deref arrays p) (\<lambda>vs. ret (length vs))"

text \<open>The loop ends within the array or leaves its bounds, which is a fault.\<close>

definition list_create_from_array :: "addr \<Rightarrow> ('d heap, addr) comp" where
  "list_create_from_array array =
     bnd list_create (\<lambda>ret_list.
     bnd (array_len array) (\<lambda>n.
     bnd (from_array_loop (Suc n) array ret_list 0) (\<lambda>i.
     bnd (get_slot array i) (\<lambda>v.
     seq (free_obj v)
     (seq (free_array array)
     (ret ret_list))))))"

text \<open>
  The data are bytes here: \<open>malloc(data_size)\<close> and \<open>memcpy\<close> make an object of the first \<open>data_size\<close> bytes, and an object
  with fewer bytes is read beyond its end.
\<close>

fun to_array_loop :: "nat \<Rightarrow> nat \<Rightarrow> addr \<Rightarrow> addr \<Rightarrow> nat \<Rightarrow> (byte list heap, addr \<times> nat) comp" where
  "to_array_loop 0 data_size array cur i = fail Diverges"
| "to_array_loop (Suc n) data_size array cur i =
     bnd (get_nxt cur) (\<lambda>c.
     if c = 0 then ret (array, i)
     else bnd (realloc_array array (i + 2)) (\<lambda>tmp.
       if tmp = 0 then fail Exit_failure
       else bnd (get_data cur) (\<lambda>d.
         bnd (deref objs d) (\<lambda>x.
         if length x < data_size then fail Out_of_bounds
         else bnd (malloc_obj (take data_size x)) (\<lambda>ptr.
         if ptr = 0 then fail Null_deref
         else seq (set_slot tmp i ptr)
         (to_array_loop n data_size tmp c (Suc i)))))))"

definition list_to_array :: "addr \<Rightarrow> nat \<Rightarrow> (byte list heap, addr) comp" where
  "list_to_array l data_size =
     bnd (malloc_array 1) (\<lambda>array.
     bnd (get_head l) (\<lambda>h.
     bnd fuel (\<lambda>f.
     bnd (to_array_loop f data_size array h 0) (\<lambda>(array', i).
     seq (set_slot array' i 0)
     (ret array')))))"

end
