(* ===== verification/List_Spec.thy ===== *)
theory List_Spec
  imports Computation
begin

text \<open>
  What \<open>list.h\<close> promises its clients: the operations as functions on HOL lists, with the indices
  and return codes of the code, and the contract of a list kept in some store as a locale. The
  pointer-level model of \<open>list.c\<close> and the lists of the server's state both interpret it.
\<close>

section \<open>The operations on values\<close>

definition l_add_start :: "'a \<Rightarrow> 'a list \<Rightarrow> 'a list" where
  "l_add_start x xs = x # xs"

definition l_add_last :: "'a \<Rightarrow> 'a list \<Rightarrow> 'a list" where
  "l_add_last x xs = xs @ [x]"

fun index_from :: "('a \<Rightarrow> bool) \<Rightarrow> 'a list \<Rightarrow> int \<Rightarrow> int" where
  "index_from P [] i = -1"
| "index_from P (x # xs) i = (if P x then i else index_from P xs (i + 1))"

text \<open>\<open>l_find P xs\<close>: the index of the first element with \<open>P\<close> (the comparison returned 0), or -1.\<close>

definition l_find :: "('a \<Rightarrow> bool) \<Rightarrow> 'a list \<Rightarrow> int" where
  "l_find P xs = index_from P xs 0"

definition l_get :: "int \<Rightarrow> 'a list \<Rightarrow> 'a option" where
  "l_get i xs = (if 0 \<le> i \<and> i < int (length xs) then Some (xs ! nat i) else None)"

definition remove_nth :: "nat \<Rightarrow> 'a list \<Rightarrow> 'a list" where
  "remove_nth k xs = take k xs @ drop (Suc k) xs"

text \<open>The list after \<open>list_delete\<close>, and its return code.\<close>

definition l_delete :: "int \<Rightarrow> 'a list \<Rightarrow> 'a list" where
  "l_delete i xs = (if 0 \<le> i \<and> i < int (length xs) then remove_nth (nat i) xs else xs)"

definition l_delete_code :: "int \<Rightarrow> 'a list \<Rightarrow> int" where
  "l_delete_code i xs = (if 0 \<le> i \<and> i < int (length xs) then 1 else -1)"

lemma index_from_ge: "index_from P xs i = -1 \<or> i \<le> index_from P xs i"
proof (induction xs arbitrary: i)
  case Nil
  then show ?case by simp
next
  case (Cons x xs)
  from Cons.IH [of "i + 1"] show ?case by auto
qed

lemma index_from_shift:
  "0 \<le> i \<Longrightarrow>
   index_from P xs i = (if index_from P xs 0 = -1 then -1 else index_from P xs 0 + i)"
proof (induction xs arbitrary: i)
  case Nil
  then show ?case by simp
next
  case (Cons x xs)
  have "index_from P xs 0 = -1 \<or> 0 \<le> index_from P xs 0" by (rule index_from_ge)
  with Cons.IH [of 1] Cons.IH [of "i + 1"] Cons.prems show ?case by auto
qed

lemma l_find_Nil [simp]: "l_find P [] = -1"
  by (simp add: l_find_def)

lemma l_find_range: "l_find P xs = -1 \<or> 0 \<le> l_find P xs \<and> l_find P xs < int (length xs)"
proof (induction xs)
  case Nil
  then show ?case by simp
next
  case (Cons x xs)
  then show ?case by (auto simp: l_find_def index_from_shift [of 1 P xs])
qed

lemma l_find_Cons:
  "l_find P (x # xs) = (if P x then 0 else if l_find P xs = -1 then -1 else l_find P xs + 1)"
  by (simp add: l_find_def index_from_shift [of 1 P xs])

lemma l_find_none: "l_find P xs = -1 \<longleftrightarrow> (\<forall>x \<in> set xs. \<not> P x)"
proof (induction xs)
  case Nil
  then show ?case by simp
next
  case (Cons x xs)
  then show ?case using l_find_range [of P xs] by (auto simp: l_find_Cons)
qed

lemma l_find_some:
  assumes "l_find P xs \<noteq> -1"
  shows "nat (l_find P xs) < length xs" and "P (xs ! nat (l_find P xs))"
    and "\<forall>j < nat (l_find P xs). \<not> P (xs ! j)"
proof -
  have "nat (l_find P xs) < length xs \<and> P (xs ! nat (l_find P xs)) \<and>
      (\<forall>j < nat (l_find P xs). \<not> P (xs ! j))"
    using assms
  proof (induction xs)
    case Nil
    then show ?case by simp
  next
    case (Cons x xs)
    show ?case
    proof (cases "P x")
      case True
      then show ?thesis by (simp add: l_find_Cons)
    next
      case False
      with Cons.prems have ne: "l_find P xs \<noteq> -1" by (auto simp: l_find_Cons split: if_splits)
      then have "0 \<le> l_find P xs" using l_find_range [of P xs] by auto
      then have "nat (l_find P (x # xs)) = Suc (nat (l_find P xs))"
        using False ne by (simp add: l_find_Cons)
      with Cons.IH [OF ne] False show ?thesis
        by (auto simp: nth_Cons split: nat.splits)
    qed
  qed
  then show "nat (l_find P xs) < length xs" and "P (xs ! nat (l_find P xs))"
    and "\<forall>j < nat (l_find P xs). \<not> P (xs ! j)"
    by auto
qed

lemma l_get_none [simp]: "l_get (-1) xs = None"
  by (simp add: l_get_def)

lemma l_get_find:
  "l_get (l_find P xs) xs = (if l_find P xs = -1 then None else Some (xs ! nat (l_find P xs)))"
  using l_find_range [of P xs] by (auto simp: l_get_def)

lemma l_delete_none [simp]: "l_delete (-1) xs = xs"
  by (simp add: l_delete_def)

lemma l_delete_nat: "k < length xs \<Longrightarrow> l_delete (int k) xs = remove_nth k xs"
  by (simp add: l_delete_def)

lemma remove_nth_0 [simp]: "remove_nth 0 (x # xs) = xs"
  by (simp add: remove_nth_def)

lemma remove_nth_Suc [simp]: "remove_nth (Suc k) (x # xs) = x # remove_nth k xs"
  by (simp add: remove_nth_def)

lemma remove_nth_append: "remove_nth (length xs) (xs @ y # ys) = xs @ ys"
  by (simp add: remove_nth_def)

lemma length_remove_nth: "k < length xs \<Longrightarrow> length (remove_nth k xs) = length xs - 1"
  by (simp add: remove_nth_def)

lemma map_remove_nth: "map f (remove_nth k xs) = remove_nth k (map f xs)"
  by (simp add: remove_nth_def take_map drop_map)

lemma set_remove_nth_subset: "set (remove_nth k xs) \<subseteq> set xs"
  by (auto simp: remove_nth_def dest: in_set_takeD in_set_dropD)

lemma set_l_delete_subset: "set (l_delete i xs) \<subseteq> set xs"
  using set_remove_nth_subset [of "nat i" xs] by (auto simp: l_delete_def)

lemma map_l_delete: "map f (l_delete i xs) = l_delete i (map f xs)"
  by (simp add: l_delete_def map_remove_nth)

lemma distinct_remove_nth: "distinct xs \<Longrightarrow> distinct (remove_nth k xs)"
  by (simp add: remove_nth_def set_take_disj_set_drop_if_distinct)

lemma distinct_l_delete: "distinct xs \<Longrightarrow> distinct (l_delete i xs)"
  by (simp add: l_delete_def distinct_remove_nth)

lemma set_remove_nth_distinct:
  "distinct xs \<Longrightarrow> k < length xs \<Longrightarrow> set (remove_nth k xs) = set xs - {xs ! k}"
proof (induction xs arbitrary: k)
  case Nil
  then show ?case by simp
next
  case (Cons x xs)
  then show ?case by (cases k) (auto simp: nth_Cons)
qed

lemma filter_remove_nth: "distinct xs \<Longrightarrow> k < length xs \<Longrightarrow> filter (\<lambda>x. x \<noteq> xs ! k) xs = remove_nth k xs"
proof (induction xs arbitrary: k)
  case Nil
  then show ?case by simp
next
  case (Cons x xs)
  show ?case
  proof (cases k)
    case 0
    then have "filter (\<lambda>y. y \<noteq> x) xs = xs" using Cons.prems by (auto intro: filter_True)
    with 0 show ?thesis by simp
  next
    case (Suc m)
    with Cons show ?thesis by (auto simp: nth_mem)
  qed
qed

text \<open>Deleting the first occurrence, as the code does with a find followed by a delete.\<close>

lemma l_delete_find: "l_delete (l_find (\<lambda>y. y = x) xs) xs = remove1 x xs"
proof (induction xs)
  case Nil
  then show ?case by simp
next
  case (Cons y ys)
  have "0 \<le> l_find (\<lambda>y. y = x) ys" "l_find (\<lambda>y. y = x) ys < int (length ys)"
    if "l_find (\<lambda>y. y = x) ys \<noteq> -1"
    using that l_find_range [of "\<lambda>y. y = x" ys] by auto
  moreover have "x \<notin> set ys" if "l_find (\<lambda>y. y = x) ys = -1"
    using that by (auto simp: l_find_none)
  ultimately show ?case
    using Cons.IH
    by (auto simp: l_find_Cons l_delete_def remove1_idem nat_add_distrib split: if_splits)
qed

section \<open>The contract\<close>

text \<open>
  \<open>rep xs\<close> holds of the stores in which the list stands for \<open>xs\<close>; \<open>same x y\<close> is the comparison the
  list was created with. The laws are total: from a store with the representation every operation
  returns.
\<close>

locale list_store =
  fixes rep :: "'a list \<Rightarrow> 's \<Rightarrow> bool"
    and same :: "'a \<Rightarrow> 'a \<Rightarrow> bool"
    and put_start :: "'a \<Rightarrow> ('s, unit) comp"
    and put_last :: "'a \<Rightarrow> ('s, unit) comp"
    and find_ix :: "'a \<Rightarrow> ('s, int) comp"
    and delete_ix :: "int \<Rightarrow> ('s, int) comp"
    and read_ix :: "int \<Rightarrow> ('s, 'a option) comp"
  assumes put_start_law:
      "rep xs s \<Longrightarrow> \<exists>t. put_start x s = Inr ((), t) \<and> rep (l_add_start x xs) t"
    and put_last_law:
      "rep xs s \<Longrightarrow> \<exists>t. put_last x s = Inr ((), t) \<and> rep (l_add_last x xs) t"
    and find_law: "rep xs s \<Longrightarrow> find_ix x s = Inr (l_find (same x) xs, s)"
    and read_law: "rep xs s \<Longrightarrow> read_ix i s = Inr (l_get i xs, s)"
    and delete_law:
      "rep xs s \<Longrightarrow> \<exists>t. delete_ix i s = Inr (l_delete_code i xs, t) \<and> rep (l_delete i xs) t"
begin

text \<open>Looking up an element that was appended to a list without an equal one finds it last.\<close>

lemma put_last_find:
  assumes "rep xs s" and "\<forall>y \<in> set xs. \<not> same x y" and "same x x"
  shows "\<exists>t. bnd (put_last x) (\<lambda>_. find_ix x) s = Inr (int (length xs), t) \<and> rep (xs @ [x]) t"
proof -
  obtain t where t: "put_last x s = Inr ((), t)" "rep (xs @ [x]) t"
    using put_last_law [OF assms(1), of x] by (auto simp: l_add_last_def)
  have "l_find (same x) (xs @ [x]) = int (length xs)"
    using assms(2,3) by (induction xs) (auto simp: l_find_Cons)
  with t find_law [OF t(2), of x] show ?thesis by (auto simp: bnd_def)
qed

text \<open>
  The subscribe and unsubscribe sequences of the server: a find guards the insertion, a find
  gives the index of the deletion. One undoes the other.
\<close>

definition subscribe :: "'a \<Rightarrow> ('s, unit) comp" where
  "subscribe x = bnd (find_ix x) (\<lambda>i. when_do (i = -1) (put_last x))"

definition unsubscribe :: "'a \<Rightarrow> ('s, unit) comp" where
  "unsubscribe x = bnd (find_ix x) (\<lambda>i. when_do (i \<noteq> -1) (seq (delete_ix i) skip))"

lemma subscribe_unsubscribe:
  assumes r: "rep xs s" and fresh: "\<forall>y \<in> set xs. \<not> same x y" and refl: "same x x"
  shows "\<exists>t. seq (subscribe x) (unsubscribe x) s = Inr ((), t) \<and> rep xs t"
proof -
  have "l_find (same x) xs = -1" using fresh by (simp add: l_find_none)
  moreover obtain t where t: "put_last x s = Inr ((), t)" "rep (xs @ [x]) t"
    using put_last_law [OF r, of x] by (auto simp: l_add_last_def)
  ultimately have sub: "subscribe x s = Inr ((), t)"
    using find_law [OF r] by (simp add: subscribe_def bnd_def when_do_def)
  have ix: "l_find (same x) (xs @ [x]) = int (length xs)"
    using fresh refl by (induction xs) (auto simp: l_find_Cons)
  have "l_delete (int (length xs)) (xs @ [x]) = xs"
    using remove_nth_append [of xs x "[]"] by (simp add: l_delete_def)
  then obtain u where u: "delete_ix (int (length xs)) t =
      Inr (l_delete_code (int (length xs)) (xs @ [x]), u)" "rep xs u"
    using delete_law [OF t(2), of "int (length xs)"] by auto
  then have "unsubscribe x t = Inr ((), u)"
    using find_law [OF t(2), of x] ix
    by (simp add: unsubscribe_def bnd_def when_do_def seq_def)
  with sub u(2) show ?thesis by (auto simp: seq_def bnd_def)
qed

lemma subscribe_idem:
  assumes r: "rep xs s" and present: "y \<in> set xs" "same x y"
  shows "subscribe x s = Inr ((), s)"
proof -
  have "l_find (same x) xs \<noteq> -1" using present by (auto simp: l_find_none)
  then show ?thesis
    using find_law [OF r, of x] by (simp add: subscribe_def bnd_def when_do_def)
qed

end

section \<open>Sequences of operations\<close>

datatype 'a list_op =
  Op_add_start 'a | Op_add_last 'a | Op_find 'a | Op_get int | Op_delete int

datatype 'a list_res = Res_none | Res_index int | Res_elem "'a option"

fun spec_op :: "('a \<Rightarrow> 'a \<Rightarrow> bool) \<Rightarrow> 'a list_op \<Rightarrow> 'a list \<Rightarrow> 'a list_res \<times> 'a list" where
  "spec_op same (Op_add_start x) xs = (Res_none, l_add_start x xs)"
| "spec_op same (Op_add_last x) xs = (Res_none, l_add_last x xs)"
| "spec_op same (Op_find x) xs = (Res_index (l_find (same x) xs), xs)"
| "spec_op same (Op_get i) xs = (Res_elem (l_get i xs), xs)"
| "spec_op same (Op_delete i) xs = (Res_index (l_delete_code i xs), l_delete i xs)"

fun spec_ops :: "('a \<Rightarrow> 'a \<Rightarrow> bool) \<Rightarrow> 'a list_op list \<Rightarrow> 'a list \<Rightarrow> 'a list_res list \<times> 'a list" where
  "spec_ops same [] xs = ([], xs)"
| "spec_ops same (p # ps) xs = (let (r, ys) = spec_op same p xs; (rs, zs) = spec_ops same ps ys
     in (r # rs, zs))"

context list_store
begin

fun do_op :: "'a list_op \<Rightarrow> ('s, 'a list_res) comp" where
  "do_op (Op_add_start x) = seq (put_start x) (ret Res_none)"
| "do_op (Op_add_last x) = seq (put_last x) (ret Res_none)"
| "do_op (Op_find x) = bnd (find_ix x) (\<lambda>i. ret (Res_index i))"
| "do_op (Op_get i) = bnd (read_ix i) (\<lambda>v. ret (Res_elem v))"
| "do_op (Op_delete i) = bnd (delete_ix i) (\<lambda>r. ret (Res_index r))"

fun do_ops :: "'a list_op list \<Rightarrow> ('s, 'a list_res list) comp" where
  "do_ops [] = ret []"
| "do_ops (p # ps) = bnd (do_op p) (\<lambda>r. bnd (do_ops ps) (\<lambda>rs. ret (r # rs)))"

lemma do_op_refines:
  assumes "rep xs s"
  shows "\<exists>t. do_op p s = Inr (fst (spec_op same p xs), t) \<and> rep (snd (spec_op same p xs)) t"
proof (cases p)
  case (Op_add_start x)
  with put_start_law [OF assms, of x] show ?thesis by (auto simp: seq_def bnd_def)
next
  case (Op_add_last x)
  with put_last_law [OF assms, of x] show ?thesis by (auto simp: seq_def bnd_def)
next
  case (Op_find x)
  with find_law [OF assms, of x] assms show ?thesis by (simp add: bnd_def)
next
  case (Op_get i)
  with read_law [OF assms, of i] assms show ?thesis by (simp add: bnd_def)
next
  case (Op_delete i)
  with delete_law [OF assms, of i] show ?thesis by (auto simp: bnd_def)
qed

lemma do_ops_refine:
  "rep xs s \<Longrightarrow> \<exists>t. do_ops ps s = Inr (fst (spec_ops same ps xs), t) \<and> rep (snd (spec_ops same ps xs)) t"
proof (induction ps arbitrary: xs s)
  case Nil
  then show ?case by simp
next
  case (Cons p ps)
  obtain t where t: "do_op p s = Inr (fst (spec_op same p xs), t)" "rep (snd (spec_op same p xs)) t"
    using do_op_refines [OF Cons.prems] by blast
  from Cons.IH [OF t(2)] t(1) show ?case by (auto simp: bnd_def Let_def split: prod.splits)
qed

end

text \<open>The lists of the server's state: the store is the list itself.\<close>

interpretation val_list: list_store
  "\<lambda>xs s. s = xs" "(=)"
  "\<lambda>x. modify (l_add_start x)" "\<lambda>x. modify (l_add_last x)"
  "\<lambda>x. gets (l_find ((=) x))"
  "\<lambda>i. bnd (gets (l_delete_code i)) (\<lambda>r. seq (modify (l_delete i)) (ret r))"
  "\<lambda>i. gets (l_get i)"
  by unfold_locales (auto simp: comp_defs)

end
