(* ===== verification/List_Refinement.thy ===== *)
theory List_Refinement
  imports Linked_List List_Spec
begin

text \<open>
  The pointer operations of \<open>list.c\<close> refine the operations on HOL lists: \<open>chain\<close> follows the nodes
  of a list to its closing empty node, \<open>lrep\<close> adds that the nodes and the data objects are live and
  distinct, and \<open>lvals\<close> reads the values. One lemma per operation gives the exact heap it leaves, so
  that freed memory, untouched memory and return codes are all visible.
\<close>

section \<open>Stepping through accesses\<close>

named_theorems access_simps \<open>accesses to live memory\<close>

lemma deref_bnd [access_simps]: "f h p = Some v \<Longrightarrow> bnd (deref f p) k h = k v h"
  by (simp add: bnd_def deref_def)

lemma get_nxt_bnd [access_simps]: "nodes h p = Some n \<Longrightarrow> bnd (get_nxt p) k h = k (nxt n) h"
  by (simp add: get_nxt_def bnd_assoc access_simps)

lemma get_data_bnd [access_simps]: "nodes h p = Some n \<Longrightarrow> bnd (get_data p) k h = k (data n) h"
  by (simp add: get_data_def bnd_assoc access_simps)

lemma get_data_apply [access_simps]: "nodes h p = Some n \<Longrightarrow> get_data p h = Inr (data n, h)"
  by (simp add: get_data_def access_simps)

lemma get_head_bnd [access_simps]: "lists h l = Some lt \<Longrightarrow> bnd (get_head l) k h = k (head lt) h"
  by (simp add: get_head_def bnd_assoc access_simps)

lemma set_nxt_apply [access_simps]:
  "nodes h p = Some n \<Longrightarrow>
   set_nxt p q h = Inr ((), h\<lparr>nodes := (nodes h)(p \<mapsto> n\<lparr>nxt := q\<rparr>)\<rparr>)"
  by (simp add: set_nxt_def access_simps)

lemma set_data_apply [access_simps]:
  "nodes h p = Some n \<Longrightarrow>
   set_data p d h = Inr ((), h\<lparr>nodes := (nodes h)(p \<mapsto> n\<lparr>data := d\<rparr>)\<rparr>)"
  by (simp add: set_data_def access_simps)

lemma set_head_apply [access_simps]:
  "lists h l = Some lt \<Longrightarrow>
   set_head l p h = Inr ((), h\<lparr>lists := (lists h)(l \<mapsto> lt\<lparr>head := p\<rparr>)\<rparr>)"
  by (simp add: set_head_def access_simps)

lemma seq_step [access_simps]: "m h = Inr ((), h') \<Longrightarrow> seq m k h = k h'"
  by (simp add: seq_apply)

lemma bnd_step: "m h = Inr p \<Longrightarrow> bnd m k h = (case p of (a, t) \<Rightarrow> k a t)"
  by (simp add: bnd_def)

lemma free_node_apply [access_simps]:
  "nodes h p = Some n \<Longrightarrow> p \<noteq> 0 \<Longrightarrow>
   free_node p h = Inr ((), h\<lparr>nodes := (nodes h)(p := None)\<rparr>)"
  by (simp add: free_node_def when_do_def access_simps)

lemma free_list_apply [access_simps]:
  "lists h p = Some n \<Longrightarrow> p \<noteq> 0 \<Longrightarrow>
   free_list p h = Inr ((), h\<lparr>lists := (lists h)(p := None)\<rparr>)"
  by (simp add: free_list_def when_do_def access_simps)

lemma call_free_apply [access_simps]:
  "lists h l = Some lt \<Longrightarrow> free_data lt = Free_libc \<Longrightarrow> objs h d = Some x \<Longrightarrow> d \<noteq> 0 \<Longrightarrow>
   call_free l d h = Inr ((), h\<lparr>objs := (objs h)(d := None)\<rparr>)"
  by (simp add: call_free_def free_obj_def when_do_def access_simps)

lemma call_compare_bnd [access_simps]:
  "lists h l = Some lt \<Longrightarrow> compare_data lt = Some cmp \<Longrightarrow> objs h d = Some y \<Longrightarrow>
   bnd (call_compare l x d) k h = k (cmp x y) h"
  by (simp add: call_compare_def bnd_assoc access_simps)

lemma fuel_bnd [access_simps]: "bnd fuel k h = k (brk h) h"
  by (simp add: fuel_def)

lemma calloc_node_bnd [access_simps]:
  "mem h (nalloc h) \<Longrightarrow> 0 < brk h \<Longrightarrow>
   bnd calloc_node k h = k (brk h) (h\<lparr>brk := Suc (brk h), nalloc := Suc (nalloc h),
     nodes := (nodes h)(brk h \<mapsto> \<lparr>nxt = 0, data = 0\<rparr>)\<rparr>)"
  by (simp add: calloc_node_def new_addr_def bnd_def seq_def when_do_def)

lemma calloc_list_bnd [access_simps]:
  "mem h (nalloc h) \<Longrightarrow> 0 < brk h \<Longrightarrow>
   bnd calloc_list k h = k (brk h) (h\<lparr>brk := Suc (brk h), nalloc := Suc (nalloc h),
     lists := (lists h)(brk h \<mapsto> \<lparr>head = 0, free_data = Free_null, compare_data = None\<rparr>)\<rparr>)"
  by (simp add: calloc_list_def new_addr_def bnd_def seq_def when_do_def)

lemma malloc_obj_bnd [access_simps]:
  "mem h (nalloc h) \<Longrightarrow> 0 < brk h \<Longrightarrow>
   bnd (malloc_obj x) k h = k (brk h) (h\<lparr>brk := Suc (brk h), nalloc := Suc (nalloc h),
     objs := (objs h)(brk h \<mapsto> x)\<rparr>)"
  by (simp add: malloc_obj_def new_addr_def bnd_def seq_def when_do_def)

section \<open>Representation\<close>

fun seg :: "(addr \<Rightarrow> node_t option) \<Rightarrow> addr \<Rightarrow> (addr \<times> addr) list \<Rightarrow> addr \<Rightarrow> bool" where
  "seg N p [] q \<longleftrightarrow> p = q"
| "seg N p ((a, d) # r) q \<longleftrightarrow>
     p = a \<and> (\<exists>n. N a = Some n \<and> data n = d \<and> seg N (nxt n) r q)"

definition chain :: "(addr \<Rightarrow> node_t option) \<Rightarrow> addr \<Rightarrow> (addr \<times> addr) list \<Rightarrow> addr \<Rightarrow> bool" where
  "chain N p ads e \<longleftrightarrow> seg N p ads e \<and> (\<exists>n. N e = Some n \<and> nxt n = 0)"

text \<open>Only addresses handed out before are live, and \<open>NULL\<close> never is.\<close>

definition heap_ok :: "'d heap \<Rightarrow> bool" where
  "heap_ok h \<longleftrightarrow> 0 < brk h \<and> dom (nodes h) \<subseteq> {0<..<brk h} \<and> dom (lists h) \<subseteq> {0<..<brk h} \<and>
     dom (objs h) \<subseteq> {0<..<brk h} \<and> dom (arrays h) \<subseteq> {0<..<brk h}"

definition lrep :: "addr \<Rightarrow> 'd list_t \<Rightarrow> (addr \<times> addr) list \<Rightarrow> addr \<Rightarrow> 'd heap \<Rightarrow> bool" where
  "lrep l lt ads e h \<longleftrightarrow> heap_ok h \<and> lists h l = Some lt \<and> chain (nodes h) (head lt) ads e \<and>
     distinct (map fst ads @ [e]) \<and> distinct (map snd ads) \<and> snd ` set ads \<subseteq> dom (objs h)"

definition lvals :: "'d heap \<Rightarrow> (addr \<times> addr) list \<Rightarrow> 'd list" where
  "lvals h ads = map (\<lambda>(a, d). the (objs h d)) ads"

lemma length_lvals [simp]: "length (lvals h ads) = length ads"
  by (simp add: lvals_def)

lemma heap_okD:
  assumes "heap_ok h"
  shows "0 < brk h" "nodes h 0 = None" "lists h 0 = None" "objs h 0 = None"
    "nodes h p = Some n \<Longrightarrow> 0 < p \<and> p < brk h" "lists h p = Some lt \<Longrightarrow> 0 < p \<and> p < brk h"
    "objs h p = Some x \<Longrightarrow> 0 < p \<and> p < brk h"
    "nodes h (brk h) = None" "lists h (brk h) = None" "objs h (brk h) = None"
    "arrays h (brk h) = None"
  using assms unfolding heap_ok_def by (auto dest: domI simp: subset_iff domIff)

lemma seg_append: "seg N p (xs @ ys) q \<longleftrightarrow> (\<exists>r. seg N p xs r \<and> seg N r ys q)"
proof (induction xs arbitrary: p)
  case Nil
  then show ?case by simp
next
  case (Cons x xs)
  then show ?case by (cases x) auto
qed

lemma seg_upd [simp]: "q \<notin> fst ` set ads \<Longrightarrow> seg (N(q := v)) p ads r = seg N p ads r"
proof (induction ads arbitrary: p)
  case Nil
  then show ?case by simp
next
  case (Cons x xs)
  then show ?case by (cases x) auto
qed

lemma seg_nodes: "seg N p ads q \<Longrightarrow> (a, d) \<in> set ads \<Longrightarrow> \<exists>n. N a = Some n \<and> data n = d"
  by (induction N p ads q rule: seg.induct) auto

lemma chain_Nil: "chain N p [] e \<longleftrightarrow> p = e \<and> (\<exists>n. N e = Some n \<and> nxt n = 0)"
  by (auto simp: chain_def)

lemma chain_Cons:
  "chain N p ((a, d) # r) e \<longleftrightarrow>
   p = a \<and> (\<exists>n. N a = Some n \<and> data n = d \<and> chain N (nxt n) r e)"
  by (auto simp: chain_def)

lemma chain_upd: "q \<notin> fst ` set ads \<Longrightarrow> q \<noteq> e \<Longrightarrow> chain (N(q := v)) p ads e = chain N p ads e"
  by (simp add: chain_def)

lemma chain_start: "chain N p ads e \<Longrightarrow> \<exists>n. N p = Some n"
  by (cases ads) (auto simp: chain_def)

lemma chain_start_nonnull: "chain N p ads e \<Longrightarrow> N 0 = None \<Longrightarrow> p \<noteq> 0"
  using chain_start by fastforce

text \<open>The test \<open>cur->next == NULL\<close> recognises the closing node.\<close>

lemma chain_next_null:
  "chain N p ads e \<Longrightarrow> N 0 = None \<Longrightarrow> N p = Some n \<Longrightarrow> nxt n = 0 \<longleftrightarrow> ads = []"
  by (cases ads) (auto simp: chain_Nil chain_Cons dest: chain_start_nonnull)

lemma chain_app: "chain N p (xs @ ys) e \<longleftrightarrow> (\<exists>r. seg N p xs r \<and> chain N r ys e)"
  by (auto simp: chain_def seg_append)

lemma chain_ends: "chain N p ads e \<Longrightarrow> \<exists>n. N e = Some n"
  by (auto simp: chain_def)

lemma chain_set_live: "chain N p ads e \<Longrightarrow> a \<in> fst ` set ads \<Longrightarrow> \<exists>n. N a = Some n"
  using seg_nodes by (fastforce simp: chain_def)

lemma lrep_length:
  assumes "lrep l lt ads e h"
  shows "Suc (length ads) < brk h"
proof -
  let ?A = "set (map fst ads @ [e])"
  have "chain (nodes h) (head lt) ads e" and hok: "heap_ok h" and
    dis: "distinct (map fst ads @ [e])"
    using assms by (auto simp: lrep_def)
  then have "?A \<subseteq> dom (nodes h)"
    using chain_ends chain_set_live by fastforce
  with hok have sub: "?A \<subseteq> {0<..<brk h}" by (auto simp: heap_ok_def)
  have "card ?A = length (map fst ads @ [e])" using dis by (rule distinct_card)
  with card_mono [OF _ sub] show ?thesis by auto
qed

section \<open>Traversals\<close>

text \<open>Each loop, started anywhere in a chain with enough fuel, computes its function of the rest.\<close>

lemma seek_last_chain:
  assumes "chain (nodes h) p ads e" and "nodes h 0 = None" and "ads \<noteq> []" and "length ads \<le> f"
  shows "seek_last f p h = Inr (fst (last ads), h)"
  using assms
proof (induction f arbitrary: p ads)
  case 0
  then show ?case by simp
next
  case (Suc f)
  then obtain a d r where ads: "ads = (a, d) # r" by (cases ads) auto
  with Suc.prems obtain n where n: "nodes h a = Some n" and p: "p = a"
    and rest: "chain (nodes h) (nxt n) r e" by (auto simp: chain_Cons)
  obtain m where m: "nodes h (nxt n) = Some m" using chain_start [OF rest] by auto
  show ?case
  proof (cases "r = []")
    case True
    then have "nxt m = 0" using chain_next_null [OF rest Suc.prems(2) m] by simp
    with True ads p n m show ?thesis by (simp add: access_simps)
  next
    case False
    then have "nxt m \<noteq> 0" using chain_next_null [OF rest Suc.prems(2) m] by simp
    with False ads p n m Suc.IH [OF rest Suc.prems(2) False] Suc.prems(4)
    show ?thesis by (simp add: access_simps)
  qed
qed

lemma find_loop_chain:
  assumes "chain (nodes h) p ads e" and "nodes h 0 = None" and "snd ` set ads \<subseteq> dom (objs h)"
    and "lists h l = Some lt" and "compare_data lt = Some cmp" and "length ads < f"
  shows "find_loop f l x p i h = Inr (index_from (\<lambda>y. cmp x y = 0) (lvals h ads) i, h)"
  using assms
proof (induction f arbitrary: p ads i)
  case 0
  then show ?case by simp
next
  case (Suc f)
  obtain n where n: "nodes h p = Some n" using chain_start [OF Suc.prems(1)] by auto
  note null = chain_next_null [OF Suc.prems(1,2) n]
  show ?case
  proof (cases ads)
    case Nil
    with n null show ?thesis by (simp add: access_simps lvals_def)
  next
    case (Cons ad r)
    obtain a d where ad: "ad = (a, d)" by (cases ad)
    from Suc.prems(1) Cons ad n have d: "data n = d" and rest: "chain (nodes h) (nxt n) r e"
      by (auto simp: chain_Cons)
    from Suc.prems(3) Cons ad obtain y where y: "objs h d = Some y" by auto
    have "snd ` set r \<subseteq> dom (objs h)" "length r < f" using Suc.prems Cons by auto
    note IH = Suc.IH [OF rest Suc.prems(2) this(1) Suc.prems(4,5) this(2)]
    show ?thesis
      using n null d y Cons ad Suc.prems(4,5) by (simp add: access_simps lvals_def IH)
  qed
qed

lemma get_loop_chain:
  assumes "chain (nodes h) p ads e" and "nodes h 0 = None" and "length ads < f" and "i \<le> k"
  shows "get_loop f k p i h =
    Inr (if nat (k - i) < length ads then snd (ads ! nat (k - i)) else 0, h)"
  using assms
proof (induction f arbitrary: p ads i)
  case 0
  then show ?case by simp
next
  case (Suc f)
  obtain n where n: "nodes h p = Some n" using chain_start [OF Suc.prems(1)] by auto
  note null = chain_next_null [OF Suc.prems(1,2) n]
  show ?case
  proof (cases ads)
    case Nil
    with n null show ?thesis by (simp add: access_simps)
  next
    case (Cons ad r)
    obtain a d where ad: "ad = (a, d)" by (cases ad)
    from Suc.prems(1) Cons ad n have d: "data n = d" and rest: "chain (nodes h) (nxt n) r e"
      by (auto simp: chain_Cons)
    show ?thesis
    proof (cases "i = k")
      case True
      with n null d Cons ad show ?thesis by (simp add: access_simps)
    next
      case False
      with Suc.prems have "i + 1 \<le> k" "length r < f" using Cons by auto
      note IH = Suc.IH [OF rest Suc.prems(2) this(2,1)]
      have "nat (k - i) = Suc (nat (k - (i + 1)))" using False Suc.prems(4) by simp
      with False n null Cons show ?thesis by (simp add: access_simps IH)
    qed
  qed
qed

section \<open>The operations\<close>

lemma list_create_spec:
  assumes ok: "heap_ok h" and m: "mem h (nalloc h)" "mem h (Suc (nalloc h))"
  shows "\<exists>h'. list_create h = Inr (brk h, h') \<and>
    lrep (brk h) \<lparr>head = Suc (brk h), free_data = Free_null, compare_data = None\<rparr> [] (Suc (brk h)) h' \<and>
    objs h' = objs h \<and> arrays h' = arrays h \<and> mem h' = mem h"
proof -
  note d = heap_okD [OF ok]
  let ?h = "h\<lparr>brk := Suc (Suc (brk h)), nalloc := Suc (Suc (nalloc h)),
    lists := (lists h)(brk h \<mapsto> \<lparr>head = Suc (brk h), free_data = Free_null, compare_data = None\<rparr>),
    nodes := (nodes h)(Suc (brk h) \<mapsto> \<lparr>nxt = 0, data = 0\<rparr>)\<rparr>"
  have "list_create h = Inr (brk h, ?h)"
    using m d(1) by (simp add: list_create_def access_simps)
  moreover have "heap_ok ?h" using ok by (auto simp: heap_ok_def subset_iff domIff)
  ultimately show ?thesis by (auto simp: lrep_def chain_Nil)
qed

lemma list_add_start_spec:
  assumes r: "lrep l lt ads e h" and m: "mem h (nalloc h)"
    and d: "d \<in> dom (objs h)" "d \<notin> snd ` set ads"
  shows "\<exists>h'. list_add_start d l h = Inr ((), h') \<and>
    lrep l (lt\<lparr>head := brk h\<rparr>) ((brk h, d) # ads) e h' \<and> objs h' = objs h \<and> mem h' = mem h"
proof -
  have ok: "heap_ok h" and lt: "lists h l = Some lt" and ch: "chain (nodes h) (head lt) ads e"
    using r by (auto simp: lrep_def)
  note o = heap_okD [OF ok]
  let ?h = "h\<lparr>brk := Suc (brk h), nalloc := Suc (nalloc h),
    nodes := (nodes h)(brk h \<mapsto> \<lparr>nxt = head lt, data = d\<rparr>),
    lists := (lists h)(l \<mapsto> lt\<lparr>head := brk h\<rparr>)\<rparr>"
  have "list_add_start d l h = Inr ((), ?h)"
    using m o(1) lt by (simp add: list_add_start_def access_simps)
  moreover have fresh: "brk h \<notin> fst ` set ads" "brk h \<noteq> e"
    using chain_set_live [OF ch] chain_ends [OF ch] o(8) by force+
  moreover have "heap_ok ?h" using ok o(6) [OF lt] by (auto simp: heap_ok_def subset_iff domIff)
  ultimately show ?thesis
    using r d ch by (auto simp: lrep_def chain_Cons chain_upd)
qed

lemma list_add_last_spec:
  assumes r: "lrep l lt ads e h" and m: "mem h (nalloc h)"
    and d: "d \<in> dom (objs h)" "d \<notin> snd ` set ads"
  shows "\<exists>h' lt'. list_add_last d l h = Inr ((), h') \<and>
    lrep l lt' (ads @ [(brk h, d)]) e h' \<and> free_data lt' = free_data lt \<and>
    compare_data lt' = compare_data lt \<and> objs h' = objs h \<and> arrays h' = arrays h \<and>
    mem h' = mem h"
proof -
  have ok: "heap_ok h" and lt: "lists h l = Some lt" and ch: "chain (nodes h) (head lt) ads e"
    and dis: "distinct (map fst ads @ [e])"
    using r by (auto simp: lrep_def)
  note o = heap_okD [OF ok]
  have fresh: "brk h \<notin> fst ` set ads" "brk h \<noteq> e"
    using chain_set_live [OF ch] chain_ends [OF ch] o(8) by force+
  obtain n where n: "nodes h (head lt) = Some n" using chain_start [OF ch] by auto
  have hd_ne: "head lt \<noteq> brk h" using n o(8) by auto
  note null = chain_next_null [OF ch o(2) n]
  obtain en where en: "nodes h e = Some en" "nxt en = 0" using ch by (auto simp: chain_def)
  show ?thesis
  proof (cases "ads = []")
    case True
    let ?h = "h\<lparr>brk := Suc (brk h), nalloc := Suc (nalloc h),
      nodes := (nodes h)(brk h \<mapsto> \<lparr>nxt = head lt, data = d\<rparr>),
      lists := (lists h)(l \<mapsto> lt\<lparr>head := brk h\<rparr>)\<rparr>"
    have "list_add_last d l h = Inr ((), ?h)"
      using m o(1) lt n null True hd_ne by (simp add: list_add_last_def access_simps)
    moreover have "heap_ok ?h" using ok o(6) [OF lt] by (auto simp: heap_ok_def subset_iff domIff)
    ultimately show ?thesis
      using r d True ch fresh by (auto simp: lrep_def chain_Cons chain_upd)
  next
    case False
    then obtain pre a b where ads: "ads = pre @ [(a, b)]"
      by (cases ads rule: rev_cases) auto
    obtain an where an: "nodes h a = Some an" "data an = b" "nxt an = e"
      and pre: "seg (nodes h) (head lt) pre a"
      using ch ads by (auto simp: chain_app chain_Cons chain_Nil)
    have a_ne: "a \<noteq> brk h" "a \<noteq> e" using an o(8) dis ads by auto
    let ?N = "(nodes h)(brk h \<mapsto> \<lparr>nxt = 0, data = d\<rparr>)"
    let ?h1 = "h\<lparr>brk := Suc (brk h), nalloc := Suc (nalloc h), nodes := ?N\<rparr>"
    have ch1: "chain (nodes ?h1) (head lt) ads e" using ch fresh by (simp add: chain_upd)
    have "nodes ?h1 0 = None" using o(1,2) by simp
    moreover have "length ads \<le> brk ?h1" using lrep_length [OF r] by simp
    ultimately have sk: "seek_last (Suc (brk h)) (head lt) ?h1 = Inr (a, ?h1)"
      using seek_last_chain [OF ch1 _ False, of "Suc (brk h)"] ads by simp
    let ?h = "?h1\<lparr>nodes := (nodes h)(brk h \<mapsto> \<lparr>nxt = e, data = d\<rparr>, a \<mapsto> an\<lparr>nxt := brk h\<rparr>)\<rparr>"
    have nn: "nxt n \<noteq> 0" using null False by simp
    have "list_add_last d l h = Inr ((), ?h)"
      using m o(1) lt n nn hd_ne an a_ne sk
      by (simp add: list_add_last_def access_simps fun_upd_twist
          bnd_step sk
          del: seek_last.simps)
    moreover have "heap_ok ?h" using ok o(5) [OF an(1)] by (auto simp: heap_ok_def subset_iff domIff)
    moreover have "chain (nodes ?h) (head lt) (ads @ [(brk h, d)]) e"
      using pre ads dis fresh a_ne an en
      by (auto simp: chain_app chain_Cons chain_Nil fun_upd_twist)
    ultimately show ?thesis
      using r d fresh lt by (auto simp: lrep_def)
  qed
qed

lemma list_find_spec:
  assumes r: "lrep l lt ads e h" and c: "compare_data lt = Some cmp"
  shows "list_find x l h = Inr (l_find (\<lambda>y. cmp x y = 0) (lvals h ads), h)"
proof -
  have "length ads < brk h" using lrep_length [OF r] by simp
  moreover from r have "chain (nodes h) (head lt) ads e" "snd ` set ads \<subseteq> dom (objs h)"
    "lists h l = Some lt" "nodes h 0 = None"
    using heap_okD(2) by (auto simp: lrep_def)
  ultimately show ?thesis
    using find_loop_chain [of h "head lt" ads e l lt cmp "brk h" x 0] c
    by (simp add: list_find_def access_simps l_find_def)
qed

lemma list_get_spec:
  assumes r: "lrep l lt ads e h"
  shows "list_get i l h = Inr (if 0 \<le> i \<and> i < int (length ads) then snd (ads ! nat i) else 0, h)"
proof -
  have "length ads < brk h" using lrep_length [OF r] by simp
  moreover from r have "chain (nodes h) (head lt) ads e"
    "lists h l = Some lt" "nodes h 0 = None"
    using heap_okD(2) by (auto simp: lrep_def)
  ultimately show ?thesis
    using get_loop_chain [of h "head lt" ads e "brk h" 0 i]
    by (auto simp: list_get_def access_simps nat_less_iff)
qed

lemma delete_loop_hit:
  assumes "chain (nodes h) p (xs @ (a, d) # ys) e" and "nodes h 0 = None"
    and "lists h l = Some lt" and "free_data lt = Free_libc" and "objs h d = Some v" and "d \<noteq> 0"
    and "nodes h a = Some na" and "nodes h (last (q # map fst xs)) = Some nw"
    and "a \<notin> fst ` set xs" and "q \<noteq> a" and "length xs < f"
  shows "delete_loop f (i + int (length xs)) l p (Some q) i h =
    Inr (1, h\<lparr>objs := (objs h)(d := None),
      nodes := ((nodes h)(last (q # map fst xs) \<mapsto> nw\<lparr>nxt := nxt na\<rparr>))(a := None)\<rparr>)"
  using assms
proof (induction xs arbitrary: p q i f)
  case Nil
  then obtain g where f: "f = Suc g" by (cases f) auto
  from Nil have p: "p = a" and d: "data na = d" by (auto simp: chain_Cons)
  have "nxt na \<noteq> 0" using chain_next_null [OF Nil(1,2), of na] Nil(7) p by simp
  moreover have "a \<noteq> 0" using Nil(2,7) by (metis option.distinct(1))
  ultimately show ?case using Nil f p d by (simp add: access_simps fun_upd_def)
next
  case (Cons x xs)
  obtain g where f: "f = Suc g" using Cons.prems(11) by (cases f) auto
  obtain b c where x: "x = (b, c)" by (cases x)
  from Cons.prems(1) x obtain n where p: "p = b" and n: "nodes h b = Some n"
    and rest: "chain (nodes h) (nxt n) (xs @ (a, d) # ys) e" by (auto simp: chain_Cons)
  have nn: "nxt n \<noteq> 0" using chain_start_nonnull [OF rest Cons.prems(2)] .
  have "nodes h (last (b # map fst xs)) = Some nw" "a \<notin> fst ` set xs" "b \<noteq> a" "length xs < g"
    using Cons.prems x f by auto
  from Cons.IH [OF rest Cons.prems(2-7) this, of "i + 1"] show ?case
    using f p n nn x by (simp add: access_simps add.assoc)
qed

lemma delete_loop_miss:
  assumes "chain (nodes h) p ads e" and "nodes h 0 = None"
    and "i + int (length ads) \<le> k" and "length ads < f"
  shows "delete_loop f k l p q i h = Inr (-1, h)"
  using assms
proof (induction ads arbitrary: p q i f)
  case Nil
  then obtain g where f: "f = Suc g" by (cases f) auto
  from Nil show ?case by (auto simp: chain_Nil f access_simps)
next
  case (Cons x xs)
  obtain g where f: "f = Suc g" using Cons.prems(4) by (cases f) auto
  obtain b c where x: "x = (b, c)" by (cases x)
  from Cons.prems(1) x obtain n where p: "p = b" and n: "nodes h b = Some n"
    and rest: "chain (nodes h) (nxt n) xs e" by (auto simp: chain_Cons)
  have nn: "nxt n \<noteq> 0" using chain_start_nonnull [OF rest Cons.prems(2)] .
  have "i + 1 + int (length xs) \<le> k" "length xs < g" using Cons.prems f by auto
  from Cons.IH [OF rest Cons.prems(2) this] show ?case
    using f p n nn Cons.prems(3) by (simp add: access_simps)
qed

text \<open>The heap a successful deletion leaves: node and object are gone, the list is relinked.\<close>

lemma list_delete_hit:
  assumes r: "lrep l lt (xs @ (a, d) # ys) e h" and fr: "free_data lt = Free_libc"
  shows "\<exists>h' lt'. list_delete (int (length xs)) l h = Inr (1, h') \<and>
    lrep l lt' (xs @ ys) e h' \<and> free_data lt' = free_data lt \<and>
    compare_data lt' = compare_data lt \<and> objs h' = (objs h)(d := None) \<and>
    nodes h' a = None \<and> brk h' = brk h \<and> mem h' = mem h"
proof -
  have ok: "heap_ok h" and lt: "lists h l = Some lt"
    and ch: "chain (nodes h) (head lt) (xs @ (a, d) # ys) e"
    and dis: "distinct (map fst (xs @ (a, d) # ys) @ [e])"
    and disd: "distinct (map snd (xs @ (a, d) # ys))"
    and objd: "snd ` set (xs @ (a, d) # ys) \<subseteq> dom (objs h)"
    using r by (auto simp: lrep_def)
  note o = heap_okD [OF ok]
  obtain na where na: "nodes h a = Some na" "data na = d" and ys: "chain (nodes h) (nxt na) ys e"
    and xs: "seg (nodes h) (head lt) xs a"
    using ch by (auto simp: chain_app chain_Cons)
  obtain v where v: "objs h d = Some v" using objd by auto
  have nz: "a \<noteq> 0" "d \<noteq> 0" "nxt na \<noteq> 0"
    using o na v chain_start_nonnull [OF ys] by auto
  obtain n where n: "nodes h (head lt) = Some n" using chain_start [OF ch] by auto
  have nn: "nxt n \<noteq> 0" using chain_next_null [OF ch o(2) n] by simp
  have objd': "snd ` set (xs @ ys) \<subseteq> dom ((objs h)(d := None))"
    using objd disd by auto
  show ?thesis
  proof (cases xs)
    case Nil
    let ?h = "h\<lparr>lists := (lists h)(l \<mapsto> lt\<lparr>head := nxt na\<rparr>), objs := (objs h)(d := None),
      nodes := (nodes h)(a := None)\<rparr>"
    have "head lt = a" using xs Nil by simp
    then have "list_delete 0 l h = Inr (1, ?h)"
      using lt na nz v fr by (simp add: list_delete_def access_simps)
    moreover have "heap_ok ?h" using ok o(6) [OF lt] by (auto simp: heap_ok_def subset_iff domIff)
    ultimately show ?thesis
      using Nil ys dis disd objd' by (auto simp: lrep_def chain_upd)
  next
    case (Cons x xs')
    obtain q c where x: "x = (q, c)" by (cases x)
    let ?w = "last (q # map fst xs')"
    have hd: "head lt = q" using xs Cons x by simp
    from Cons x have w_in: "?w \<in> fst ` set xs" by (auto simp: last_map image_iff intro: last_in_set)
    obtain nw where nw: "nodes h ?w = Some nw"
      using chain_set_live [OF ch, of ?w] w_in by auto
    obtain pre wd where pre: "xs = pre @ [(?w, wd)]"
    proof -
      have "xs \<noteq> []" using Cons by simp
      then obtain pre y where y: "xs = pre @ [y]" by (cases xs rule: rev_cases) auto
      then have "last (map fst xs) = fst y" by simp
      then have "?w = fst y" using Cons x by simp
      with y that [of pre "snd y"] show thesis by simp
    qed
    from xs pre nw have segpre: "seg (nodes h) (head lt) pre ?w" and wd: "data nw = wd" "nxt nw = a"
      by (auto simp: seg_append)
    from ch Cons x n hd have rest: "chain (nodes h) (nxt n) (xs' @ (a, d) # ys) e"
      by (auto simp: chain_Cons)
    have a_nin: "a \<notin> fst ` set xs" using dis by auto
    then have "a \<notin> fst ` set xs'" "q \<noteq> a" using Cons x by auto
    moreover obtain g where g: "brk h = Suc g" "length xs' < g"
      using lrep_length [OF r] Cons by (cases "brk h") auto
    let ?h = "h\<lparr>objs := (objs h)(d := None), nodes := ((nodes h)(?w \<mapsto> nw\<lparr>nxt := nxt na\<rparr>))(a := None)\<rparr>"
    have "delete_loop g (1 + int (length xs')) l (nxt n) (Some q) 1 h = Inr (1, ?h)"
      using delete_loop_hit [OF rest o(2) lt fr v nz(2) na(1) nw] g(2) calculation by blast
    then have "list_delete (int (length xs)) l h = Inr (1, ?h)"
      using lt n nn hd g Cons x by (simp add: list_delete_def access_simps)
    moreover have "heap_ok ?h" using ok o(5) [OF nw] by (auto simp: heap_ok_def subset_iff domIff)
    moreover have "chain (nodes ?h) (head lt) (xs @ ys) e"
    proof -
      have "?w \<notin> fst ` set pre" "a \<notin> fst ` set pre" "?w \<noteq> a" "?w \<notin> fst ` set ys" "?w \<noteq> e"
        "a \<notin> fst ` set ys" "a \<noteq> e"
        using dis pre by (auto simp: image_iff)
      with segpre ys wd show ?thesis
        by (auto simp: pre chain_app chain_Cons chain_upd intro!: exI [of _ ?w])
    qed
    ultimately show ?thesis
      using lt dis disd objd' by (auto simp: lrep_def)
  qed
qed

lemma list_delete_miss:
  assumes r: "lrep l lt ads e h" and i: "i < 0 \<or> int (length ads) \<le> i"
  shows "list_delete i l h = Inr (-1, h)"
proof (cases "i < 0")
  case True
  then show ?thesis by (simp add: list_delete_def)
next
  case False
  with i have i: "int (length ads) \<le> i" by simp
  from r have ok: "heap_ok h" and lt: "lists h l = Some lt" and ch: "chain (nodes h) (head lt) ads e"
    by (auto simp: lrep_def)
  note o = heap_okD [OF ok]
  obtain n where n: "nodes h (head lt) = Some n" using chain_start [OF ch] by auto
  note null = chain_next_null [OF ch o(2) n]
  have "length ads < brk h" using lrep_length [OF r] by simp
  with delete_loop_miss [OF ch o(2), of 0 i "brk h"] i False null show ?thesis
    by (cases ads) (auto simp: list_delete_def access_simps lt n)
qed

subsection \<open>Splitting and freeing\<close>

lemma slice_loop_hit:
  assumes "chain (nodes h) p (xs @ (a, d) # ys) e" and "heap_ok h"
    and "mem h (nalloc h)" and "mem h (Suc (nalloc h))"
    and "nodes h (last (q # map fst xs)) = Some nw" and "length xs < f"
  shows "slice_loop f (i + int (length xs)) p (Some q) i h =
    Inr (brk h, h\<lparr>brk := Suc (Suc (brk h)), nalloc := Suc (Suc (nalloc h)),
      lists := (lists h)(brk h \<mapsto> \<lparr>head = a, free_data = Free_null, compare_data = None\<rparr>),
      nodes := (nodes h)(Suc (brk h) \<mapsto> \<lparr>nxt = 0, data = 0\<rparr>,
        last (q # map fst xs) \<mapsto> nw\<lparr>nxt := Suc (brk h)\<rparr>)\<rparr>)"
  using assms
proof (induction xs arbitrary: p q i f)
  case Nil
  then obtain g where f: "f = Suc g" by (cases f) auto
  note o = heap_okD [OF Nil(2)]
  from Nil obtain na where p: "p = a" and na: "nodes h a = Some na" by (auto simp: chain_Cons)
  have "nxt na \<noteq> 0" using chain_next_null [OF Nil(1) o(2), of na] na p by simp
  moreover have "q \<noteq> Suc (brk h)" using Nil(5) o(5) by fastforce
  ultimately show ?case using Nil f p na o(1)
    by (simp add: access_simps fun_upd_def cong: if_cong)
next
  case (Cons x xs)
  obtain g where f: "f = Suc g" using Cons.prems(6) by (cases f) auto
  obtain b c where x: "x = (b, c)" by (cases x)
  from Cons.prems(1) x obtain n where p: "p = b" and n: "nodes h b = Some n"
    and rest: "chain (nodes h) (nxt n) (xs @ (a, d) # ys) e" by (auto simp: chain_Cons)
  have nn: "nxt n \<noteq> 0" using chain_start_nonnull [OF rest heap_okD(2) [OF Cons.prems(2)]] .
  have "nodes h (last (b # map fst xs)) = Some nw" "length xs < g"
    using Cons.prems x f by auto
  from Cons.IH [OF rest Cons.prems(2-4) this, of "i + 1"] show ?case
    using f p n nn x by (simp add: access_simps add.assoc)
qed

text \<open>\<open>list_slice\<close> cuts the list in two: the old header keeps the first part, closed by a new empty
  node, the new header (with no functions installed) gets the rest.\<close>

lemma list_slice_spec:
  assumes r: "lrep l lt (xs @ ys) e h" and ne: "xs \<noteq> []" "ys \<noteq> []"
    and m: "mem h (nalloc h)" "mem h (Suc (nalloc h))"
  shows "\<exists>h' lt'. list_slice (int (length xs)) l h = Inr (brk h, h') \<and>
    lrep l lt xs (Suc (brk h)) h' \<and> lrep (brk h) lt' ys e h' \<and>
    free_data lt' = Free_null \<and> compare_data lt' = None \<and> objs h' = objs h"
proof -
  have ok: "heap_ok h" and lt: "lists h l = Some lt" and ch: "chain (nodes h) (head lt) (xs @ ys) e"
    and dis: "distinct (map fst (xs @ ys) @ [e])"
    using r by (auto simp: lrep_def)
  note o = heap_okD [OF ok]
  obtain q c xs' where xs: "xs = (q, c) # xs'" using ne(1) by (metis list.exhaust surj_pair)
  obtain a d ys' where ys: "ys = (a, d) # ys'" using ne(2) by (metis list.exhaust surj_pair)
  obtain pre w wd where pre: "xs = pre @ [(w, wd)]" using ne(1) by (metis rev_exhaust surj_pair)
  have w: "last (q # map fst xs') = w" using xs pre by (metis fst_conv last_map last_snoc list.simps(9) list.discI)
  from ch pre obtain nw where nw: "nodes h w = Some nw" "data nw = wd"
    and segpre: "seg (nodes h) (head lt) pre w" and chys: "chain (nodes h) a ys e"
    unfolding ys by (auto simp: chain_app chain_Cons)
  from ch xs obtain n where n: "nodes h (head lt) = Some n" "head lt = q"
    and rest: "chain (nodes h) (nxt n) (xs' @ (a, d) # ys') e"
    unfolding ys by (auto simp: chain_Cons)
  have nn: "nxt n \<noteq> 0" using chain_start_nonnull [OF rest o(2)] .
  obtain g where g: "brk h = Suc g" "length xs' < g"
    using lrep_length [OF r] xs by (cases "brk h") auto
  have w': "nodes h (last (q # map fst xs')) = Some nw" using w nw by simp
  let ?h = "h\<lparr>brk := Suc (Suc (brk h)), nalloc := Suc (Suc (nalloc h)),
      lists := (lists h)(brk h \<mapsto> \<lparr>head = a, free_data = Free_null, compare_data = None\<rparr>),
      nodes := (nodes h)(Suc (brk h) \<mapsto> \<lparr>nxt = 0, data = 0\<rparr>, w \<mapsto> nw\<lparr>nxt := Suc (brk h)\<rparr>)\<rparr>"
  have run: "list_slice (int (length xs)) l h = Inr (brk h, ?h)"
    using slice_loop_hit [OF rest ok m w' g(2), of 1] lt n nn g(1) xs w
    by (simp add: list_slice_def access_simps)
  have ok': "heap_ok ?h"
    using ok o(5) [OF nw(1)] by (auto simp: heap_ok_def subset_iff domIff)
  have live: "Suc (brk h) \<notin> fst ` set (xs @ ys)" "Suc (brk h) \<noteq> e" "l \<noteq> brk h"
  proof -
    show "Suc (brk h) \<notin> fst ` set (xs @ ys)"
      using chain_set_live [OF ch] o(5) by fastforce
    show "Suc (brk h) \<noteq> e" using chain_ends [OF ch] o(5) by fastforce
    show "l \<noteq> brk h" using lt o(9) by auto
  qed
  have "chain (nodes ?h) (head lt) xs (Suc (brk h))"
    using segpre pre dis live nw by (auto simp: chain_app chain_Cons chain_Nil image_Un)
  then have "lrep l lt xs (Suc (brk h)) ?h"
    using r ok' live lt dis by (auto simp: lrep_def image_Un)
  moreover have "chain (nodes ?h) a ys e"
    using chys live dis pre by (auto simp: chain_upd image_Un)
  then have "lrep (brk h) \<lparr>head = a, free_data = Free_null, compare_data = None\<rparr> ys e ?h"
    using r ok' dis by (auto simp: lrep_def image_Un)
  ultimately show ?thesis using run by auto
qed

lemma free_loop_chain:
  assumes "chain (nodes h) p ads e" and "heap_ok h" and "lists h l = Some lt"
    and "free_data lt = Free_libc" and "distinct (map fst ads @ [e])" and "distinct (map snd ads)"
    and "snd ` set ads \<subseteq> dom (objs h)" and "length ads < f"
  shows "free_loop f l p h = Inr (e, h\<lparr>objs := objs h |` (- snd ` set ads),
    nodes := nodes h |` (- fst ` set ads)\<rparr>)"
  using assms
proof (induction f arbitrary: p ads h)
  case 0
  then show ?case by simp
next
  case (Suc f)
  note o = heap_okD [OF Suc.prems(2)]
  obtain n where n: "nodes h p = Some n" using chain_start [OF Suc.prems(1)] by auto
  note null = chain_next_null [OF Suc.prems(1) o(2) n]
  show ?case
  proof (cases ads)
    case Nil
    with n null Suc.prems(1) show ?thesis by (simp add: access_simps chain_Nil restrict_map_def)
  next
    case (Cons ad r)
    obtain a d where ad: "ad = (a, d)" by (cases ad)
    from Suc.prems(1) Cons ad n have p: "p = a" and d: "data n = d"
      and rest: "chain (nodes h) (nxt n) r e" by (auto simp: chain_Cons)
    from Suc.prems(7) Cons ad obtain v where v: "objs h d = Some v" by auto
    have nz: "a \<noteq> 0" "d \<noteq> 0" using o n v p by auto
    let ?h = "h\<lparr>objs := (objs h)(d := None), nodes := (nodes h)(a := None)\<rparr>"
    have c: "chain (nodes ?h) (nxt n) r e"
      using rest Suc.prems(5) Cons ad by (simp add: chain_upd)
    have k: "heap_ok ?h" using Suc.prems(2) by (auto simp: heap_ok_def)
    have s: "snd ` set r \<subseteq> dom (objs ?h)" using Suc.prems(6,7) Cons ad by auto
    have "lists ?h l = Some lt" "distinct (map fst r @ [e])" "distinct (map snd r)" "length r < f"
      using Suc.prems Cons by auto
    note IH = Suc.IH [OF c k this(1) Suc.prems(4) this(2,3) s this(4)]
    have eq: "?h\<lparr>objs := objs ?h |` (- snd ` set r), nodes := nodes ?h |` (- fst ` set r)\<rparr> =
        h\<lparr>objs := objs h |` (- snd ` set ads), nodes := nodes h |` (- fst ` set ads)\<rparr>"
      using Cons ad by (intro heap.equality) (auto simp: restrict_map_def fun_eq_iff)
    show ?thesis
      using n null p d v nz Cons Suc.prems(3,4) IH [unfolded eq] by (simp add: access_simps)
  qed
qed

text \<open>\<open>list_free\<close> releases exactly the header, the nodes with the closing one, and the data.\<close>

lemma list_free_spec:
  assumes r: "lrep l lt ads e h" and fr: "free_data lt = Free_libc"
  shows "list_free l h = Inr ((), h\<lparr>objs := objs h |` (- snd ` set ads),
    nodes := nodes h |` (- insert e (fst ` set ads)), lists := (lists h)(l := None)\<rparr>)"
proof -
  have ok: "heap_ok h" and lt: "lists h l = Some lt" and ch: "chain (nodes h) (head lt) ads e"
    and dis: "distinct (map fst ads @ [e])" "distinct (map snd ads)"
      "snd ` set ads \<subseteq> dom (objs h)"
    using r by (auto simp: lrep_def)
  note o = heap_okD [OF ok]
  have "length ads < brk h" using lrep_length [OF r] by simp
  note fl = free_loop_chain [OF ch ok lt fr dis this]
  obtain en where en: "nodes h e = Some en" using chain_ends [OF ch] by auto
  let ?h = "h\<lparr>objs := objs h |` (- snd ` set ads), nodes := nodes h |` (- fst ` set ads)\<rparr>"
  have e: "nodes ?h e = Some en" "e \<noteq> 0" "l \<noteq> 0" using en dis(1) o lt by auto
  have "(nodes h |` (- fst ` set ads))(e := None) = nodes h |` (- insert e (fst ` set ads))"
    by (auto simp: restrict_map_def fun_eq_iff)
  with fl e lt show ?thesis
    by (simp add: list_free_def access_simps
        bnd_step fl)
qed

section \<open>Walking a list while deleting from it\<close>

text \<open>
  The loop of both garbage collectors of the server: \<open>iter\<close> walks the nodes, \<open>index\<close> counts those
  kept, and \<open>iter\<close> moves on before \<open>list_delete\<close> frees the node it stood on.
\<close>

fun gc_walk :: "nat \<Rightarrow> ('d \<Rightarrow> bool) \<Rightarrow> addr \<Rightarrow> addr \<Rightarrow> int \<Rightarrow> ('d heap, unit) comp" where
  "gc_walk 0 old l iter index = fail Diverges"
| "gc_walk (Suc n) old l iter index =
     bnd (get_nxt iter) (\<lambda>c.
     if c = 0 then skip
     else bnd (get_data iter) (\<lambda>d.
       bnd (deref objs d) (\<lambda>x.
       if old x then
         bnd (get_nxt iter) (\<lambda>c'.
         bnd (list_delete index l) (\<lambda>_.
         gc_walk n old l c' index))
       else gc_walk n old l c (index + 1))))"

definition gc_list :: "('d \<Rightarrow> bool) \<Rightarrow> addr \<Rightarrow> ('d heap, unit) comp" where
  "gc_list old l = bnd (get_head l) (\<lambda>h. bnd fuel (\<lambda>f. gc_walk f old l h 0))"

definition start_of :: "(addr \<times> addr) list \<Rightarrow> addr \<Rightarrow> addr" where
  "start_of ads e = (case ads of [] \<Rightarrow> e | (a, _) # _ \<Rightarrow> a)"

lemma chain_start_of: "chain N p ads e \<Longrightarrow> p = start_of ads e"
  by (cases ads) (auto simp: start_of_def chain_Nil chain_Cons split: prod.splits)

lemma gc_walk_chain:
  assumes "lrep l lt (xs @ ys) e h" and "free_data lt = Free_libc" and "length ys < f"
  shows "\<exists>h' lt'. gc_walk f old l (start_of ys e) (int (length xs)) h = Inr ((), h') \<and>
    lrep l lt' (xs @ filter (\<lambda>(a, d). \<not> old (the (objs h d))) ys) e h' \<and>
    free_data lt' = Free_libc \<and> compare_data lt' = compare_data lt \<and> mem h' = mem h \<and>
    objs h' = objs h |` (- snd ` set (filter (\<lambda>(a, d). old (the (objs h d))) ys))"
  using assms
proof (induction f arbitrary: xs ys h lt)
  case 0
  then show ?case by simp
next
  case (Suc f)
  have ok: "heap_ok h" and lt: "lists h l = Some lt" and ch: "chain (nodes h) (head lt) (xs @ ys) e"
    using Suc.prems(1) by (auto simp: lrep_def)
  note o = heap_okD [OF ok]
  obtain p where chys: "chain (nodes h) p ys e" using ch by (auto simp: chain_app)
  have p: "p = start_of ys e" using chain_start_of [OF chys] .
  obtain n where n: "nodes h p = Some n" using chain_start [OF chys] by auto
  note null = chain_next_null [OF chys o(2) n]
  show ?case
  proof (cases ys)
    case Nil
    with n null p Suc.prems show ?thesis by (auto simp: access_simps restrict_map_def)
  next
    case (Cons ad r)
    obtain a d where ad: "ad = (a, d)" by (cases ad)
    have d: "data n = d" and rest: "chain (nodes h) (nxt n) r e"
      using chys Cons ad n by (auto simp: chain_Cons)
    have next_r: "nxt n = start_of r e" using chain_start_of [OF rest] .
    have disd: "distinct (map snd (xs @ ys))" using Suc.prems(1) by (simp add: lrep_def)
    obtain v where v: "objs h d = Some v" using Suc.prems(1) Cons ad by (auto simp: lrep_def)
    show ?thesis
    proof (cases "old v")
      case True
      have r1: "lrep l lt (xs @ (a, d) # r) e h" using Suc.prems(1) Cons ad by simp
      obtain h1 lt1 where del: "list_delete (int (length xs)) l h = Inr (1, h1)"
        and h1: "lrep l lt1 (xs @ r) e h1" "free_data lt1 = Free_libc"
          "compare_data lt1 = compare_data lt" "objs h1 = (objs h)(d := None)" "mem h1 = mem h"
        using list_delete_hit [OF r1 Suc.prems(2)] Suc.prems(2) by auto
      obtain h' lt' where w: "gc_walk f old l (start_of r e) (int (length xs)) h1 = Inr ((), h')"
        and h': "lrep l lt' (xs @ filter (\<lambda>(a, d). \<not> old (the (objs h1 d))) r) e h'"
          "free_data lt' = Free_libc" "compare_data lt' = compare_data lt1" "mem h' = mem h1"
          "objs h' = objs h1 |` (- snd ` set (filter (\<lambda>(a, d). old (the (objs h1 d))) r))"
        using Suc.IH [OF h1(1,2)] Suc.prems(3) Cons by auto
      have dr: "d' \<noteq> d" if "(a', d') \<in> set r" for a' d'
        using that disd Cons ad by force
      then have flt: "filter (\<lambda>(a, d). \<not> old (the (objs h1 d))) r =
          filter (\<lambda>(a, d). \<not> old (the (objs h d))) r"
        "filter (\<lambda>(a, d). old (the (objs h1 d))) r = filter (\<lambda>(a, d). old (the (objs h d))) r"
        using h1(4) by (auto intro!: filter_cong)
      have "gc_walk (Suc f) old l (start_of ys e) (int (length xs)) h = Inr ((), h')"
        using n null p Cons d v True w next_r
        by (simp add: access_simps bnd_step del flip: p)
      moreover have "objs h' = objs h |` (- snd ` set (filter (\<lambda>(a, d). old (the (objs h d))) ys))"
        using h'(5) flt(2) h1(4) Cons ad v True by (auto simp: restrict_map_def fun_eq_iff)
      ultimately show ?thesis using h' h1 flt(1) Cons ad v True by auto
    next
      case False
      have r1: "lrep l lt ((xs @ [(a, d)]) @ r) e h" using Suc.prems(1) Cons ad by simp
      obtain h' lt' where w: "gc_walk f old l (start_of r e) (int (length (xs @ [(a, d)]))) h = Inr ((), h')"
        and h': "lrep l lt' ((xs @ [(a, d)]) @ filter (\<lambda>(a, d). \<not> old (the (objs h d))) r) e h'"
          "free_data lt' = Free_libc" "compare_data lt' = compare_data lt" "mem h' = mem h"
          "objs h' = objs h |` (- snd ` set (filter (\<lambda>(a, d). old (the (objs h d))) r))"
        using Suc.IH [OF r1 Suc.prems(2)] Suc.prems(3) Cons by auto
      have "gc_walk (Suc f) old l (start_of ys e) (int (length xs)) h = Inr ((), h')"
        using n null p Cons d v False w next_r
        by (simp add: access_simps add.commute flip: p)
      then show ?thesis using h' Cons ad v False by auto
    qed
  qed
qed

lemma gc_list_spec:
  assumes r: "lrep l lt ads e h" and fr: "free_data lt = Free_libc"
  shows "\<exists>h' lt' ads'. gc_list old l h = Inr ((), h') \<and> lrep l lt' ads' e h' \<and>
    free_data lt' = Free_libc \<and> compare_data lt' = compare_data lt \<and> mem h' = mem h \<and>
    lvals h' ads' = filter (\<lambda>x. \<not> old x) (lvals h ads) \<and>
    objs h' = objs h |` (- snd ` set (filter (\<lambda>(a, d). old (the (objs h d))) ads))"
proof -
  have lt: "lists h l = Some lt" and ch: "chain (nodes h) (head lt) ads e"
    and disd: "distinct (map snd ads)"
    using r by (auto simp: lrep_def)
  have st: "head lt = start_of ads e" using chain_start_of [OF ch] .
  have "length ads < brk h" using lrep_length [OF r] by simp
  then obtain h' lt' where w: "gc_walk (brk h) old l (start_of ads e) 0 h = Inr ((), h')"
    and h': "lrep l lt' (filter (\<lambda>(a, d). \<not> old (the (objs h d))) ads) e h'"
      "free_data lt' = Free_libc" "compare_data lt' = compare_data lt" "mem h' = mem h"
      "objs h' = objs h |` (- snd ` set (filter (\<lambda>(a, d). old (the (objs h d))) ads))"
    using gc_walk_chain [of l lt "[]" ads e h "brk h" old] r fr by auto
  have kept: "objs h' d = objs h d" if "(a, d) \<in> set ads" "\<not> old (the (objs h d))" for a d
    using that h'(5) by (auto simp: restrict_map_def)
  have "lvals h' (filter (\<lambda>(a, d). \<not> old (the (objs h d))) ads) =
      map (\<lambda>(a, d). the (objs h d)) (filter (\<lambda>(a, d). \<not> old (the (objs h d))) ads)"
    unfolding lvals_def using kept by (intro map_cong) auto
  also have "\<dots> = filter (\<lambda>x. \<not> old x) (lvals h ads)"
    by (simp add: lvals_def filter_map o_def case_prod_unfold)
  finally show ?thesis
    using w lt st h' by (auto simp: gc_list_def access_simps)
qed

section \<open>Arrays\<close>

lemma get_slot_bnd [access_simps]:
  "arrays h p = Some vs \<Longrightarrow> i < length vs \<Longrightarrow> vs ! i = Some v \<Longrightarrow>
   bnd (get_slot p i) k h = k v h"
  by (simp add: get_slot_def bnd_assoc access_simps)

lemma set_slot_apply [access_simps]:
  "arrays h p = Some vs \<Longrightarrow> i < length vs \<Longrightarrow>
   set_slot p i v h = Inr ((), h\<lparr>arrays := (arrays h)(p \<mapsto> vs[i := Some v])\<rparr>)"
  by (simp add: set_slot_def access_simps)

lemma realloc_array_bnd [access_simps]:
  "arrays h p = Some vs \<Longrightarrow> p \<noteq> 0 \<Longrightarrow> mem h (nalloc h) \<Longrightarrow> 0 < brk h \<Longrightarrow>
   bnd (realloc_array p n) k h = k (brk h) (h\<lparr>brk := Suc (brk h), nalloc := Suc (nalloc h),
     arrays := ((arrays h)(p := None))(brk h \<mapsto> take n vs @ replicate (n - length vs) None)\<rparr>)"
  by (simp add: realloc_array_def bnd_assoc access_simps new_addr_def bnd_def seq_def when_do_def
      deref_def)

lemma malloc_array_bnd [access_simps]:
  "mem h (nalloc h) \<Longrightarrow> 0 < brk h \<Longrightarrow>
   bnd (malloc_array n) k h = k (brk h) (h\<lparr>brk := Suc (brk h), nalloc := Suc (nalloc h),
     arrays := (arrays h)(brk h \<mapsto> replicate n None)\<rparr>)"
  by (simp add: malloc_array_def new_addr_def bnd_def seq_def when_do_def)

lemma to_array_loop_chain:
  assumes "chain (nodes h) p ads e" and "heap_ok h" and "\<forall>k. mem h k"
    and "snd ` set ads \<subseteq> dom (objs h)" and "arrays h arr = Some (map Some ptrs @ [z])"
    and "length ads < f" and "\<forall>(a, d) \<in> set ads. n \<le> length (the (objs h d))"
  shows "\<exists>h' arr' ptrs' z'. to_array_loop f n arr p (length ptrs) h =
      Inr ((arr', length ptrs + length ads), h') \<and> heap_ok h' \<and>
    arrays h' arr' = Some (map Some (ptrs @ ptrs') @ [z']) \<and> length ptrs' = length ads \<and>
    map (objs h') ptrs' = map (\<lambda>(a, d). map_option (take n) (objs h d)) ads \<and> nodes h' = nodes h \<and>
    lists h' = lists h \<and> objs h \<subseteq>\<^sub>m objs h' \<and> distinct ptrs' \<and> set ptrs' \<inter> dom (objs h) = {} \<and>
    set ptrs' \<subseteq> dom (objs h') \<and> (\<forall>k. mem h' k)"
  using assms
proof (induction f arbitrary: p ads h arr ptrs z)
  case 0
  then show ?case by simp
next
  case (Suc f)
  note o = heap_okD [OF Suc.prems(2)]
  obtain nd where n: "nodes h p = Some nd" using chain_start [OF Suc.prems(1)] by auto
  note null = chain_next_null [OF Suc.prems(1) o(2) n]
  show ?case
  proof (cases ads)
    case Nil
    with n null Suc.prems show ?thesis
      by (auto simp: access_simps intro!: exI [of _ "[]"])
  next
    case (Cons ad r)
    obtain a d where ad: "ad = (a, d)" by (cases ad)
    from Suc.prems(1) Cons ad n have d: "data nd = d" and rest: "chain (nodes h) (nxt nd) r e"
      by (auto simp: chain_Cons)
    from Suc.prems(4) Cons ad obtain v where v: "objs h d = Some v" by auto
    have size: "\<not> length v < n" using Suc.prems(7) Cons ad v by auto
    have arr: "0 < arr" "arr < brk h"
      using Suc.prems(2,5) by (auto simp: heap_ok_def subset_iff domIff)
    let ?b = "brk h" and ?i = "length ptrs"
    let ?h = "h\<lparr>brk := Suc (Suc ?b), nalloc := Suc (Suc (nalloc h)), objs := (objs h)(Suc ?b \<mapsto> take n v),
      arrays := ((arrays h)(arr := None))(?b \<mapsto> map Some (ptrs @ [Suc ?b]) @ [None])\<rparr>"
    have fresh: "objs h (Suc ?b) = None" using o(7) by fastforce
    have "(map Some ptrs @ [z, None])[?i := Some (Suc ?b)] = map Some (ptrs @ [Suc ?b]) @ [None]"
      by (simp add: list_update_append)
    then have unfold: "to_array_loop (Suc f) n arr p ?i h = to_array_loop f n ?b (nxt nd) (Suc ?i) ?h"
      using n null Cons Suc.prems(3,5) o(1) arr d v size
      by (simp add: access_simps fun_upd_def cong: if_cong)
    have c: "chain (nodes ?h) (nxt nd) r e" using rest by simp
    have k: "heap_ok ?h" using Suc.prems(2) by (auto simp: heap_ok_def subset_iff domIff)
    have s: "snd ` set r \<subseteq> dom (objs ?h)" using Suc.prems(4) Cons by auto
    have "\<forall>k. mem ?h k" "arrays ?h ?b = Some (map Some (ptrs @ [Suc ?b]) @ [None])" "length r < f"
      using Suc.prems(3,6) Cons by auto
    moreover have "\<forall>(a, d) \<in> set r. n \<le> length (the (objs ?h d))"
      using Suc.prems(4,7) Cons fresh by fastforce
    ultimately have "\<forall>k. mem ?h k" "arrays ?h ?b = Some (map Some (ptrs @ [Suc ?b]) @ [None])" "length r < f"
      "\<forall>(a, d) \<in> set r. n \<le> length (the (objs ?h d))" by blast+
    from Suc.IH [OF c k this(1) s this(2-4)]
    obtain h' arr' ptrs' z' where run: "to_array_loop f n ?b (nxt nd) (length (ptrs @ [Suc ?b])) ?h =
        Inr ((arr', length (ptrs @ [Suc ?b]) + length r), h')"
      and h': "heap_ok h'" "arrays h' arr' = Some (map Some ((ptrs @ [Suc ?b]) @ ptrs') @ [z'])"
        "length ptrs' = length r" "map (objs h') ptrs' = map (\<lambda>(a, d). map_option (take n) (objs ?h d)) r"
        "nodes h' = nodes ?h" "lists h' = lists ?h" "objs ?h \<subseteq>\<^sub>m objs h'" "distinct ptrs'"
        "set ptrs' \<inter> dom (objs ?h) = {}" "set ptrs' \<subseteq> dom (objs h')" "\<forall>k. mem h' k"
      by blast
    have new: "objs h' (Suc ?b) = Some (take n v)" using h'(7) by (auto simp: map_le_def)
    have same: "map (\<lambda>(a, d). map_option (take n) (objs ?h d)) r = map (\<lambda>(a, d). map_option (take n) (objs h d)) r"
    proof (intro map_cong refl)
      fix x assume "x \<in> set r"
      then have "snd x \<in> dom (objs h)" using Suc.prems(4) Cons by auto
      then show "(case x of (a, d) \<Rightarrow> map_option (take n) (objs ?h d)) = (case x of (a, d) \<Rightarrow> map_option (take n) (objs h d))"
        using fresh by (auto split: prod.splits)
    qed
    have le: "objs h \<subseteq>\<^sub>m objs h'"
    proof -
      have "objs h \<subseteq>\<^sub>m objs ?h" using fresh by (auto simp: map_le_def)
      then show ?thesis using h'(7) by (rule map_le_trans)
    qed
    show ?thesis
      unfolding unfold
      by (rule exI [of _ h'], rule exI [of _ arr'], rule exI [of _ "Suc ?b # ptrs'"], rule exI [of _ z'])
        (use run h' new same le v Cons ad fresh in \<open>auto simp: domIff\<close>)
  qed
qed

text \<open>The array is the copies of the values, in order, and a closing \<open>NULL\<close>; the list is untouched.\<close>

lemma list_to_array_spec:
  assumes r: "lrep l lt ads e h" and m: "\<forall>k. mem h k" and size: "\<forall>x \<in> set (lvals h ads). n \<le> length x"
  shows "\<exists>h' arr ptrs. list_to_array l n h = Inr (arr, h') \<and> lrep l lt ads e h' \<and>
    arrays h' arr = Some (map Some ptrs @ [Some 0]) \<and> map (objs h') ptrs = map Some (map (take n) (lvals h ads)) \<and>
    lvals h' ads = lvals h ads \<and> distinct ptrs \<and> set ptrs \<inter> dom (objs h) = {} \<and>
    (\<forall>k. mem h' k)"
proof -
  have ok: "heap_ok h" and lt: "lists h l = Some lt" and ch: "chain (nodes h) (head lt) ads e"
    and ob: "snd ` set ads \<subseteq> dom (objs h)"
    using r by (auto simp: lrep_def)
  note o = heap_okD [OF ok]
  let ?h = "h\<lparr>brk := Suc (brk h), nalloc := Suc (nalloc h),
    arrays := (arrays h)(brk h \<mapsto> map Some [] @ [None])\<rparr>"
  have c: "chain (nodes ?h) (head lt) ads e" using ch by simp
  have k: "heap_ok ?h" using ok by (auto simp: heap_ok_def subset_iff domIff)
  have "\<forall>k. mem ?h k" "snd ` set ads \<subseteq> dom (objs ?h)"
    "arrays ?h (brk h) = Some (map Some [] @ [None])" "length ads < brk ?h"
    "\<forall>(a, d) \<in> set ads. n \<le> length (the (objs ?h d))"
    using m ob lrep_length [OF r] size by (auto simp: lvals_def)
  from to_array_loop_chain [OF c k this]
  obtain h' arr ptrs z where run: "to_array_loop (brk ?h) n (brk h) (head lt) 0 ?h =
        Inr ((arr, length ads), h')"
    and h': "heap_ok h'" "arrays h' arr = Some (map Some ptrs @ [z])" "length ptrs = length ads"
      "map (objs h') ptrs = map (\<lambda>(a, d). map_option (take n) (objs h d)) ads" "nodes h' = nodes h" "lists h' = lists h"
      "objs h \<subseteq>\<^sub>m objs h'" "distinct ptrs" "set ptrs \<inter> dom (objs h) = {}" "\<forall>k. mem h' k"
    by auto
  let ?h' = "h'\<lparr>arrays := (arrays h')(arr \<mapsto> map Some ptrs @ [Some 0])\<rparr>"
  have "(map Some ptrs @ [z])[length ads := Some 0] = map Some ptrs @ [Some 0]"
    using h'(3) by (metis length_map list_update_length)
  then have "list_to_array l n h = Inr (arr, ?h')"
    using m lt o(1) run h'(2,3) by (simp add: list_to_array_def access_simps bnd_step)
  moreover have "heap_ok ?h'" using h'(1,2) by (auto simp: heap_ok_def subset_iff domIff)
  then have "lrep l lt ads e ?h'"
    using r h' by (auto simp: lrep_def map_le_def dom_def)
  moreover have vals: "objs h d = Some (the (objs h d))" if "(a, d) \<in> set ads" for a d
    using that ob by fastforce
  then have "map (\<lambda>(a, d). map_option (take n) (objs h d)) ads = map Some (map (take n) (lvals h ads))"
    by (auto simp: lvals_def)
  moreover have le_objs: "objs h d = Some x \<Longrightarrow> objs h' d = Some x" for d x
    using h'(7) by (metis domI map_le_def)
  moreover have "lvals ?h' ads = lvals h ads"
    unfolding lvals_def
  proof (intro map_cong refl)
    fix x assume "x \<in> set ads"
    then have "snd x \<in> dom (objs h)" using ob by auto
    then show "(case x of (a, d) \<Rightarrow> the (objs ?h' d)) = (case x of (a, d) \<Rightarrow> the (objs h d))"
      using le_objs by (auto split: prod.splits)
  qed
  ultimately show ?thesis using h' by auto
qed

lemma from_array_loop_spec:
  assumes "lrep l lt ads e h" and "\<forall>k. mem h k"
    and "arrays h arr = Some (map Some ds @ [Some 0])" and "distinct ds" and "set ds \<subseteq> dom (objs h)"
    and "snd ` set ads \<inter> set (drop i ds) = {}" and "i \<le> length ds" and "length ds - i < f"
  shows "\<exists>h' lt' ads'. from_array_loop f arr l i h = Inr (length ds, h') \<and>
    lrep l lt' ads' e h' \<and> map snd ads' = map snd ads @ drop i ds \<and> objs h' = objs h \<and>
    arrays h' = arrays h \<and> free_data lt' = free_data lt \<and> compare_data lt' = compare_data lt \<and>
    mem h' = mem h"
  using assms
proof (induction f arbitrary: lt ads h i)
  case 0
  then show ?case by simp
next
  case (Suc f)
  show ?case
  proof (cases "i < length ds")
    case False
    then have "i = length ds" using Suc.prems by simp
    then show ?thesis using Suc.prems by (auto simp: access_simps nth_append)
  next
    case True
    let ?d = "ds ! i"
    have dr: "drop i ds = ?d # drop (Suc i) ds" using True by (simp add: Cons_nth_drop_Suc)
    have "?d \<in> set ds" using True by simp
    then have d: "?d \<in> dom (objs h)" "?d \<notin> snd ` set ads" using Suc.prems(5,6) dr by auto
    moreover have "?d \<noteq> 0"
      using d(1) Suc.prems(1) heap_okD(4) [of h] by (metis domIff lrep_def)
    moreover obtain h1 lt1 where a: "list_add_last ?d l h = Inr ((), h1)"
      and h1: "lrep l lt1 (ads @ [(brk h, ?d)]) e h1" "free_data lt1 = free_data lt"
        "compare_data lt1 = compare_data lt" "objs h1 = objs h" "arrays h1 = arrays h" "mem h1 = mem h"
      using list_add_last_spec [OF Suc.prems(1) _ d] Suc.prems(2) by blast
    moreover have "?d \<notin> set (drop (Suc i) ds)"
      using Suc.prems(4) dr by (metis distinct.simps(2) distinct_drop)
    then have "snd ` set (ads @ [(brk h, ?d)]) \<inter> set (drop (Suc i) ds) = {}"
      using Suc.prems(6) dr by auto
    moreover note Suc.IH [OF h1(1), of "Suc i"]
    ultimately show ?thesis
      using Suc.prems True dr by (auto simp: access_simps nth_append)
  qed
qed

text \<open>The list built from an array holds the array's pointers themselves, and the array is freed.\<close>

lemma list_create_from_array_spec:
  assumes ok: "heap_ok h" and m: "\<forall>k. mem h k"
    and arr: "arrays h arr = Some (map Some ds @ [Some 0])" and ds: "distinct ds" "set ds \<subseteq> dom (objs h)"
  shows "\<exists>h' l lt ads e. list_create_from_array arr h = Inr (l, h') \<and> lrep l lt ads e h' \<and>
    map snd ads = ds \<and> objs h' = objs h \<and> arrays h' arr = None"
proof -
  obtain h1 where cr: "list_create h = Inr (brk h, h1)"
    and h1: "lrep (brk h) \<lparr>head = Suc (brk h), free_data = Free_null, compare_data = None\<rparr> []
        (Suc (brk h)) h1" "objs h1 = objs h" "arrays h1 = arrays h" "mem h1 = mem h"
    using list_create_spec [OF ok] m by blast
  obtain h2 lt ads where lp: "from_array_loop (Suc (Suc (length ds))) arr (brk h) 0 h1 = Inr (length ds, h2)"
    and h2: "lrep (brk h) lt ads (Suc (brk h)) h2" "map snd ads = ds" "objs h2 = objs h"
      "arrays h2 = arrays h"
    using from_array_loop_spec [OF h1(1), of arr ds 0 "Suc (Suc (length ds))"] m arr ds h1(2-4)
    by (auto simp del: from_array_loop.simps)
  have "arr \<noteq> 0" using ok arr by (auto simp: heap_ok_def)
  then have run: "list_create_from_array arr h = Inr (brk h, h2\<lparr>arrays := (arrays h2)(arr := None)\<rparr>)"
    using cr lp arr h1(3) h2(4)
    by (simp add: list_create_from_array_def bnd_step array_len_def free_array_def free_obj_def
        access_simps when_do_def nth_append bnd_assoc del: from_array_loop.simps)
  moreover have "heap_ok (h2\<lparr>arrays := (arrays h2)(arr := None)\<rparr>)"
    using h2(1) by (auto simp: lrep_def heap_ok_def)
  then have "lrep (brk h) lt ads (Suc (brk h)) (h2\<lparr>arrays := (arrays h2)(arr := None)\<rparr>)"
    using h2(1) by (auto simp: lrep_def)
  ultimately show ?thesis using h2 by auto
qed

section \<open>The contract of list.h holds of the pointer model\<close>

text \<open>
  A list at address \<open>l\<close> that the server set up (\<open>free_data\<close> is \<open>free\<close>, \<open>compare_data\<close> is \<open>cmp\<close>), with
  memory available. An element is inserted by allocating it and passing its address.
\<close>

definition list_at :: "addr \<Rightarrow> ('d \<Rightarrow> 'd \<Rightarrow> int) \<Rightarrow> 'd list \<Rightarrow> 'd heap \<Rightarrow> bool" where
  "list_at l cmp xs h \<longleftrightarrow> (\<exists>lt ads e. lrep l lt ads e h \<and> free_data lt = Free_libc \<and>
     compare_data lt = Some cmp \<and> lvals h ads = xs \<and> (\<forall>k. mem h k))"

definition insert_start :: "addr \<Rightarrow> 'd \<Rightarrow> ('d heap, unit) comp" where
  "insert_start l x = bnd (malloc_obj x) (\<lambda>d. list_add_start d l)"

definition insert_last :: "addr \<Rightarrow> 'd \<Rightarrow> ('d heap, unit) comp" where
  "insert_last l x = bnd (malloc_obj x) (\<lambda>d. list_add_last d l)"

definition read_at :: "addr \<Rightarrow> int \<Rightarrow> ('d heap, 'd option) comp" where
  "read_at l i = bnd (list_get i l)
     (\<lambda>p. if p = 0 then ret None else bnd (deref objs p) (\<lambda>x. ret (Some x)))"

text \<open>A freshly allocated object leaves the list as it was and is not one of its elements.\<close>

lemma malloc_obj_frame:
  assumes "lrep l lt ads e h" and "mem h (nalloc h)"
  shows "\<exists>h'. malloc_obj x h = Inr (brk h, h') \<and> lrep l lt ads e h' \<and> lvals h' ads = lvals h ads \<and>
    objs h' (brk h) = Some x \<and> brk h \<notin> snd ` set ads \<and> mem h' = mem h"
proof -
  have ok: "heap_ok h" and ob: "snd ` set ads \<subseteq> dom (objs h)" using assms(1) by (auto simp: lrep_def)
  note o = heap_okD [OF ok]
  let ?h = "h\<lparr>brk := Suc (brk h), nalloc := Suc (nalloc h), objs := (objs h)(brk h \<mapsto> x)\<rparr>"
  have "malloc_obj x h = Inr (brk h, ?h)"
    using assms(2) o(1) by (simp add: malloc_obj_def new_addr_def bnd_def seq_def when_do_def)
  moreover have nin: "brk h \<notin> snd ` set ads" using ob o(10) by auto
  moreover have "heap_ok ?h" using ok by (auto simp: heap_ok_def subset_iff domIff)
  then have "lrep l lt ads e ?h" using assms(1) by (auto simp: lrep_def)
  moreover have "lvals ?h ads = lvals h ads"
    using nin by (auto simp: lvals_def image_iff)
  ultimately show ?thesis by auto
qed

lemma lvals_cong: "objs h' = objs h \<Longrightarrow> lvals h' ads = lvals h ads"
  by (simp add: lvals_def)

lemma lvals_upd: "objs h' = (objs h)(d := v) \<Longrightarrow> d \<notin> snd ` set ads \<Longrightarrow> lvals h' ads = lvals h ads"
  by (induction ads) (auto simp: lvals_def)

lemma lvals_Cons: "lvals h ((a, d) # ads) = the (objs h d) # lvals h ads"
  by (simp add: lvals_def)

lemma lvals_append: "lvals h (xs @ ys) = lvals h xs @ lvals h ys"
  by (simp add: lvals_def)

lemma insert_start_list_at:
  assumes "list_at l cmp xs h"
  shows "\<exists>h'. insert_start l x h = Inr ((), h') \<and> list_at l cmp (l_add_start x xs) h'"
proof -
  obtain lt ads e where r: "lrep l lt ads e h" and f: "free_data lt = Free_libc"
      "compare_data lt = Some cmp" "lvals h ads = xs" "\<forall>k. mem h k"
    using assms by (auto simp: list_at_def)
  obtain h1 where h1: "malloc_obj x h = Inr (brk h, h1)" "lrep l lt ads e h1"
      "lvals h1 ads = xs" "objs h1 (brk h) = Some x" "brk h \<notin> snd ` set ads" "mem h1 = mem h"
    using malloc_obj_frame [OF r] f by blast
  then obtain h2 where "list_add_start (brk h) l h1 = Inr ((), h2)"
      "lrep l (lt\<lparr>head := brk h1\<rparr>) ((brk h1, brk h) # ads) e h2" "objs h2 = objs h1" "mem h2 = mem h1"
    using list_add_start_spec [OF h1(2), of "brk h"] f by auto
  then show ?thesis
    using h1 f lvals_cong [of h2 h1]
    by (auto simp: list_at_def insert_start_def bnd_step lvals_Cons l_add_start_def
        intro!: exI [of _ "lt\<lparr>head := brk h1\<rparr>"] exI [of _ "(brk h1, brk h) # ads"])
qed

lemma insert_last_list_at:
  assumes "list_at l cmp xs h"
  shows "\<exists>h'. insert_last l x h = Inr ((), h') \<and> list_at l cmp (l_add_last x xs) h'"
proof -
  obtain lt ads e where r: "lrep l lt ads e h" and f: "free_data lt = Free_libc"
      "compare_data lt = Some cmp" "lvals h ads = xs" "\<forall>k. mem h k"
    using assms by (auto simp: list_at_def)
  obtain h1 where h1: "malloc_obj x h = Inr (brk h, h1)" "lrep l lt ads e h1"
      "lvals h1 ads = xs" "objs h1 (brk h) = Some x" "brk h \<notin> snd ` set ads" "mem h1 = mem h"
    using malloc_obj_frame [OF r] f by blast
  then obtain h2 lt2 where "list_add_last (brk h) l h1 = Inr ((), h2)"
      "lrep l lt2 (ads @ [(brk h1, brk h)]) e h2" "objs h2 = objs h1" "mem h2 = mem h1"
      "free_data lt2 = free_data lt" "compare_data lt2 = compare_data lt"
    using list_add_last_spec [OF h1(2), of "brk h"] f by auto
  then show ?thesis
    using h1 f lvals_cong [of h2 h1]
    by (auto simp: list_at_def insert_last_def bnd_step lvals_Cons lvals_append l_add_last_def
        intro!: exI [of _ lt2] exI [of _ "ads @ [(brk h1, brk h)]"]) (simp add: lvals_def)
qed

lemma list_find_list_at:
  "list_at l cmp xs h \<Longrightarrow> list_find x l h = Inr (l_find (\<lambda>y. cmp x y = 0) xs, h)"
  by (auto simp: list_at_def list_find_spec)

lemma read_at_list_at:
  assumes "list_at l cmp xs h"
  shows "read_at l i h = Inr (l_get i xs, h)"
proof -
  obtain lt ads e where r: "lrep l lt ads e h" and xs: "lvals h ads = xs"
    using assms by (auto simp: list_at_def)
  show ?thesis
  proof (cases "0 \<le> i \<and> i < int (length ads)")
    case True
    then have "ads ! nat i \<in> set ads" by (simp add: nat_less_iff)
    then have "snd (ads ! nat i) \<in> dom (objs h)" using r by (auto simp: lrep_def)
    then obtain y where y: "objs h (snd (ads ! nat i)) = Some y" by auto
    moreover have "snd (ads ! nat i) \<noteq> 0"
      using y r heap_okD(4) [of h] by (metis lrep_def option.distinct(1))
    moreover have "xs ! nat i = y"
      using xs True y by (auto simp: lvals_def nat_less_iff case_prod_unfold)
    ultimately show ?thesis
      using list_get_spec [OF r, of i] True xs
      by (auto simp: read_at_def bnd_step access_simps l_get_def)
  next
    case False
    with list_get_spec [OF r, of i] xs show ?thesis
      by (auto simp: read_at_def bnd_step l_get_def)
  qed
qed

lemma list_delete_list_at:
  assumes "list_at l cmp xs h"
  shows "\<exists>h'. list_delete i l h = Inr (l_delete_code i xs, h') \<and> list_at l cmp (l_delete i xs) h'"
proof -
  obtain lt ads e where r: "lrep l lt ads e h" and f: "free_data lt = Free_libc"
      "compare_data lt = Some cmp" "lvals h ads = xs" "\<forall>k. mem h k"
    using assms by (auto simp: list_at_def)
  show ?thesis
  proof (cases "0 \<le> i \<and> i < int (length ads)")
    case True
    then have k: "nat i < length ads" "int (nat i) = i" by auto
    obtain a d where ad: "ads ! nat i = (a, d)" by (cases "ads ! nat i")
    have split: "ads = take (nat i) ads @ (a, d) # drop (Suc (nat i)) ads"
      using k(1) ad by (metis id_take_nth_drop)
    have len: "int (length (take (nat i) ads)) = i" using k by simp
    obtain h' lt' where h': "list_delete i l h = Inr (1, h')"
        "lrep l lt' (take (nat i) ads @ drop (Suc (nat i)) ads) e h'"
        "free_data lt' = Free_libc" "compare_data lt' = Some cmp"
        "objs h' = (objs h)(d := None)" "mem h' = mem h"
      using list_delete_hit [of l lt "take (nat i) ads" a d "drop (Suc (nat i)) ads" e h]
        r split f len by auto
    have "distinct (map snd (take (nat i) ads @ (a, d) # drop (Suc (nat i)) ads))"
      using r split by (simp add: lrep_def)
    then have "d \<notin> snd ` set (take (nat i) ads @ drop (Suc (nat i)) ads)" by auto
    then have "lvals h' (take (nat i) ads @ drop (Suc (nat i)) ads) =
        lvals h (remove_nth (nat i) ads)"
      using lvals_upd [OF h'(5)] by (simp add: remove_nth_def)
    also have "\<dots> = remove_nth (nat i) xs" using f(3) by (auto simp: lvals_def map_remove_nth)
    finally show ?thesis
      using h' f True by (auto simp: list_at_def l_delete_def l_delete_code_def)
  next
    case False
    then show ?thesis
      using list_delete_miss [OF r, of i] assms f(3)
      by (auto simp: l_delete_def l_delete_code_def)
  qed
qed

interpretation heap_list: list_store
  "list_at l cmp" "\<lambda>x y. cmp x y = 0" "insert_start l" "insert_last l" "\<lambda>x. list_find x l"
  "\<lambda>i. list_delete i l" "read_at l"
  for l :: addr and cmp :: "'d \<Rightarrow> 'd \<Rightarrow> int"
  by unfold_locales
    (simp_all add: insert_start_list_at insert_last_list_at list_find_list_at read_at_list_at
      list_delete_list_at)

end
