(* ===== verification/OS.thy ===== *)
theory OS
  imports Computation "HOL-Library.While_Combinator"
begin

text \<open>
  What the processes see of the operating system. The environment answers the calls whose result
  the code reads: \<open>clk\<close> is the sequence of results of \<open>time\<close>, \<open>io_err\<close> says whether the n-th
  \<open>write\<close>, \<open>send\<close>, \<open>close\<close> or \<open>epoll_ctl\<close> fails and with which \<open>errno\<close>, \<open>rnd\<close> is the sequence of
  results of \<open>rand\<close>, \<open>fmt_time\<close> is \<open>strftime\<close> of \<open>localtime\<close> under the format of the log, and \<open>md5\<close>
  is the digest of openssl, which is not part of the repository. The process keeps how many of
  these answers it has consumed and the list of its visible actions, oldest first.
\<close>

datatype errno = EPIPE | EAGAIN | EBADF | EOTHER

record env =
  md5 :: "byte list \<Rightarrow> byte list"
  clk :: "nat \<Rightarrow> time_t"
  io_err :: "nat \<Rightarrow> errno option"
  rnd :: "nat \<Rightarrow> c_int"
  fmt_time :: "time_t \<Rightarrow> string"

datatype log_file = Log_clientes | Log_productores

datatype action =
    Write int "byte list"
  | Send int "byte list"
  | Close int
  | Epoll_add int int
  | Epoll_del int int
  | Set_non_blocking int
  | Log log_file string
  | Perror string
  | Stdout string
  | Stderr string
  | Thread_log_request int
  | Thread_recv_file "16 word"
  | Mq_send int "byte list"
  | Fclose string

record proc =
  ntime :: nat
  nio :: nat
  nrand :: nat
  actions :: "action list"

text \<open>Accented letters of the messages, in UTF-8.\<close>

definition o_acute :: string where "o_acute = [CHR 0xC3, CHR 0xB3]"
definition i_acute :: string where "i_acute = [CHR 0xC3, CHR 0xAD]"
definition a_acute :: string where "a_acute = [CHR 0xC3, CHR 0xA1]"
definition n_tilde :: string where "n_tilde = [CHR 0xC3, CHR 0xB1]"

text \<open>What an observer sees of the actions: the bytes written and sent, and the closed descriptors.\<close>

definition writes :: "action list \<Rightarrow> (int \<times> byte list) list" where
  "writes xs = concat (map (\<lambda>x. case x of Write fd bs \<Rightarrow> [(fd, bs)] | _ \<Rightarrow> []) xs)"

definition sends :: "action list \<Rightarrow> (int \<times> byte list) list" where
  "sends xs = concat (map (\<lambda>x. case x of Send fd bs \<Rightarrow> [(fd, bs)] | _ \<Rightarrow> []) xs)"

definition closes :: "action list \<Rightarrow> int list" where
  "closes xs = concat (map (\<lambda>x. case x of Close fd \<Rightarrow> [fd] | _ \<Rightarrow> []) xs)"

lemma observe_append [simp]:
  "writes (xs @ ys) = writes xs @ writes ys" "sends (xs @ ys) = sends xs @ sends ys"
  "closes (xs @ ys) = closes xs @ closes ys"
  by (simp_all add: writes_def sends_def closes_def)

lemma observe_Nil [simp]: "writes [] = []" "sends [] = []" "closes [] = []"
  by (simp_all add: writes_def sends_def closes_def)

lemma observe_Cons [simp]:
  "writes (x # xs) = (case x of Write fd bs \<Rightarrow> [(fd, bs)] | _ \<Rightarrow> []) @ writes xs"
  "sends (x # xs) = (case x of Send fd bs \<Rightarrow> [(fd, bs)] | _ \<Rightarrow> []) @ sends xs"
  "closes (x # xs) = (case x of Close fd \<Rightarrow> [fd] | _ \<Rightarrow> []) @ closes xs"
  by (simp_all add: writes_def sends_def closes_def)

text \<open>What a handler may consume or emit without touching the data of its component.\<close>

definition emit :: "action \<Rightarrow> ('z proc_scheme, unit) comp" where
  "emit x = modify (\<lambda>s. s\<lparr>actions := actions s @ [x]\<rparr>)"

definition sys_time :: "env \<Rightarrow> ('z proc_scheme, time_t) comp" where
  "sys_time E = (\<lambda>s. Inr (clk E (ntime s), s\<lparr>ntime := Suc (ntime s)\<rparr>))"

definition sys_rand :: "env \<Rightarrow> ('z proc_scheme, c_int) comp" where
  "sys_rand E = (\<lambda>s. Inr (rnd E (nrand s), s\<lparr>nrand := Suc (nrand s)\<rparr>))"

text \<open>\<open>attempt E x\<close>: perform the call \<open>x\<close>; the result is its \<open>errno\<close>, or \<open>None\<close> on success.\<close>

definition attempt :: "env \<Rightarrow> action \<Rightarrow> ('z proc_scheme, errno option) comp" where
  "attempt E x = (\<lambda>s. Inr (io_err E (nio s), s\<lparr>nio := Suc (nio s), actions := actions s @ [x]\<rparr>))"

text \<open>\<open>attempt_perror E x msg\<close>: the frequent \<open>if (call == -1) perror(msg);\<close>.\<close>

definition attempt_perror :: "env \<Rightarrow> action \<Rightarrow> string \<Rightarrow> ('z proc_scheme, unit) comp" where
  "attempt_perror E x msg = bnd (attempt E x) (\<lambda>r. when_do (r \<noteq> None) (emit (Perror msg)))"

text \<open>The loop \<open>while (time(&t) == -1) perror("time ");\<close>, and the value it leaves in \<open>t\<close>.\<close>

definition time_retry :: "env \<Rightarrow> ('z proc_scheme, time_t) comp" where
  "time_retry E = (\<lambda>s.
     case while_option (\<lambda>s. clk E (ntime s) = -1)
            (\<lambda>s. s\<lparr>ntime := Suc (ntime s), actions := actions s @ [Perror ''time '']\<rparr>) s of
       None \<Rightarrow> Inl Diverges
     | Some t \<Rightarrow> sys_time E t)"

definition clock_ok :: "env \<Rightarrow> bool" where
  "clock_ok E \<longleftrightarrow> (\<forall>n. clk E n \<noteq> -1)"

lemma time_retry_clock_ok: "clk E (ntime s) \<noteq> -1 \<Longrightarrow> time_retry E s = sys_time E s"
  by (simp add: time_retry_def while_option_unfold)

lemma time_retry_Inr:
  assumes "time_retry E s = Inr (v, t)"
  shows "v \<noteq> -1"
proof -
  from assms obtain u where "while_option (\<lambda>s. clk E (ntime s) = -1)
      (\<lambda>s. s\<lparr>ntime := Suc (ntime s), actions := actions s @ [Perror ''time '']\<rparr>) s = Some u"
    and "sys_time E u = Inr (v, t)"
    by (auto simp: time_retry_def split: option.splits)
  then show ?thesis
    using while_option_stop by (fastforce simp: sys_time_def)
qed

text \<open>
  The retry loop returns as soon as one later reading of the clock succeeds, with that reading
  and one \<open>perror\<close> for each failed one.
\<close>

lemma time_retry_eventually:
  assumes "clk E (ntime s + k) \<noteq> -1" and "\<forall>j<k. clk E (ntime s + j) = -1"
  shows "time_retry E s = Inr (clk E (ntime s + k),
    s\<lparr>ntime := Suc (ntime s + k), actions := actions s @ replicate k (Perror ''time '')\<rparr>)"
  using assms
proof (induction k arbitrary: s)
  case 0
  then show ?case by (simp add: time_retry_clock_ok sys_time_def)
next
  case (Suc k)
  let ?s = "s\<lparr>ntime := Suc (ntime s), actions := actions s @ [Perror ''time '']\<rparr>"
  have fst_fails: "clk E (ntime s) = -1" using Suc.prems(2) by force
  then have step: "time_retry E s = time_retry E ?s"
    by (simp add: time_retry_def while_option_unfold [of _ _ s])
  have "time_retry E ?s = Inr (clk E (ntime ?s + k),
    ?s\<lparr>ntime := Suc (ntime ?s + k), actions := actions ?s @ replicate k (Perror ''time '')\<rparr>)"
    using Suc.prems by (intro Suc.IH) auto
  then show ?case by (simp add: step)
qed

subsection \<open>The primitives leave the data of the component alone\<close>

text \<open>\<open>quiet m\<close>: \<open>m\<close> changes only the fields of \<open>proc\<close>; every later component extends \<open>proc\<close>.\<close>

definition quiet :: "('z proc_scheme, 'a) comp \<Rightarrow> bool" where
  "quiet m \<longleftrightarrow> frames proc.more m"

named_theorems quiet_rules \<open>computations that only consume answers and emit actions\<close>

lemma quietD: "quiet m \<Longrightarrow> m s = Inr (a, t) \<Longrightarrow> proc.more t = proc.more s"
  by (auto simp: quiet_def dest: framesD)

lemma quiet_ret [quiet_rules]: "quiet (ret a)"
  by (auto simp: quiet_def intro: framesI)

lemma quiet_skip [quiet_rules]: "quiet skip"
  by (auto simp: quiet_def intro: framesI)

lemma quiet_fail [quiet_rules]: "quiet (fail e)"
  by (auto simp: quiet_def intro: framesI)

lemma quiet_fault [quiet_rules]: "quiet (\<lambda>s. Inl e)"
  by (auto simp: quiet_def intro: framesI)

lemma quiet_pure [quiet_rules]: "quiet (\<lambda>s. Inr (a, s))"
  by (auto simp: quiet_def intro: framesI)

lemma quiet_gets [quiet_rules]: "quiet (gets f)"
  by (auto simp: quiet_def intro: framesI)

lemma quiet_bnd [quiet_rules]: "quiet m \<Longrightarrow> (\<And>a. quiet (k a)) \<Longrightarrow> quiet (bnd m k)"
  by (auto simp: quiet_def frames_def intro: keeps_bnd)

lemma quiet_seq [quiet_rules]: "quiet m \<Longrightarrow> quiet k \<Longrightarrow> quiet (seq m k)"
  by (simp add: seq_def quiet_bnd)

lemma quiet_when_do [quiet_rules]: "(b \<Longrightarrow> quiet m) \<Longrightarrow> quiet (when_do b m)"
  by (simp add: when_do_def quiet_skip)

lemma quiet_if [quiet_rules]:
  "(b \<Longrightarrow> quiet m) \<Longrightarrow> (\<not> b \<Longrightarrow> quiet n) \<Longrightarrow> quiet (if b then m else n)"
  by simp

lemma quiet_for_each [quiet_rules]: "(\<And>x. quiet (f x)) \<Longrightarrow> quiet (for_each f xs)"
  by (induction xs) (auto intro: quiet_rules)

lemma quiet_emit [quiet_rules]: "quiet (emit x)"
  by (auto simp: quiet_def emit_def intro: framesI)

lemma quiet_sys_time [quiet_rules]: "quiet (sys_time E)"
  by (auto simp: quiet_def sys_time_def intro: framesI)

lemma quiet_sys_rand [quiet_rules]: "quiet (sys_rand E)"
  by (auto simp: quiet_def sys_rand_def intro: framesI)

lemma quiet_attempt [quiet_rules]: "quiet (attempt E x)"
  by (auto simp: quiet_def attempt_def intro: framesI)

lemma quiet_attempt_perror [quiet_rules]: "quiet (attempt_perror E x msg)"
  unfolding attempt_perror_def by (intro quiet_rules)

lemma quiet_time_retry [quiet_rules]: "quiet (time_retry E)"
proof -
  have "proc.more u = proc.more s"
    if "while_option (\<lambda>s. clk E (ntime s) = -1)
      (\<lambda>s. s\<lparr>ntime := Suc (ntime s), actions := actions s @ [Perror ''time '']\<rparr>) s = Some u"
    for s u :: "'a proc_scheme"
    by (rule while_option_rule [OF _ that]) auto
  then show ?thesis
    unfolding quiet_def
    by (intro framesI) (auto simp: time_retry_def sys_time_def split: option.splits)
qed

text \<open>With a clock that answers, the primitives return.\<close>

lemma returns_emit [returns_rules]: "returns P (emit x)"
  by (simp add: emit_def returns_def)

lemma returns_sys_time [returns_rules]: "returns P (sys_time E)"
  by (simp add: sys_time_def returns_def)

lemma returns_sys_rand [returns_rules]: "returns P (sys_rand E)"
  by (simp add: sys_rand_def returns_def)

lemma returns_attempt [returns_rules]: "returns P (attempt E x)"
  by (simp add: attempt_def returns_def)

lemma keeps_True: "keeps (\<lambda>_. True) m"
  by (simp add: keeps_def)

lemma returns_attempt_perror [returns_rules]: "returns P (attempt_perror E x msg)"
  by (auto simp: attempt_perror_def attempt_def emit_def when_do_def returns_def bnd_def)

lemma returns_time_retry: "clock_ok E \<Longrightarrow> returns P (time_retry E)"
  by (auto simp: clock_ok_def returns_def time_retry_clock_ok sys_time_def)

section \<open>A concrete environment\<close>

text \<open>The environment of the examples: a digest that sums the bytes, a clock that stands still, no call that
  fails.\<close>

definition env0 :: env where
  "env0 = \<lparr>md5 = (\<lambda>bs. replicate 15 0 @ [sum_list bs]), clk = (\<lambda>_. 100), io_err = (\<lambda>_. None),
     rnd = of_nat, fmt_time = (\<lambda>_. ''12:00'')\<rparr>"

lemma env0_simps [simp]: "md5 env0 bs = replicate 15 0 @ [sum_list bs]" "clk env0 n = 100"
  "io_err env0 n = None" "rnd env0 n = of_nat n" "fmt_time env0 t = ''12:00''"
  by (simp_all add: env0_def)

lemma clock_ok_env0 [simp]: "clock_ok env0"
  by (simp add: clock_ok_def)

definition proc0 :: proc where
  "proc0 = \<lparr>ntime = 0, nio = 0, nrand = 0, actions = []\<rparr>"

lemma proc0_simps [simp]: "ntime proc0 = 0" "nio proc0 = 0" "actions proc0 = []"
  by (simp_all add: proc0_def)

end
