(* ===== verification/Protocol.thy ===== *)
theory Protocol
  imports OS
begin

text \<open>
  \<open>common/include/protocol.h\<close> and \<open>common/src/protocol.c\<close>: the packet exchanged between server and
  clients, its layout in memory (which is what travels), its construction and its check, the
  digest of a file, and the hexadecimal dump. MD5 itself is openssl's and stays a parameter;
  the one documented fact used about it is that a digest has 16 bytes (\<open>md5_ok\<close>).
\<close>

section \<open>Constants and layout\<close>

abbreviation (input) PAYLOAD_SIZE :: nat where "PAYLOAD_SIZE \<equiv> 84"
abbreviation (input) FT_PAYLOAD_SIZE :: nat where "FT_PAYLOAD_SIZE \<equiv> 256"
abbreviation (input) MD5_DIGEST_LENGTH :: nat where "MD5_DIGEST_LENGTH \<equiv> 16"

abbreviation (input) M_TYPE_ACK :: c_int where "M_TYPE_ACK \<equiv> 1"
abbreviation (input) M_TYPE_FIN :: c_int where "M_TYPE_FIN \<equiv> 2"
abbreviation (input) M_TYPE_DATA :: c_int where "M_TYPE_DATA \<equiv> 3"
abbreviation (input) M_TYPE_CLI_ACCEPTED :: c_int where "M_TYPE_CLI_ACCEPTED \<equiv> 4"
abbreviation (input) M_TYPE_CONN_ACCEPTED :: c_int where "M_TYPE_CONN_ACCEPTED \<equiv> 5"
abbreviation (input) M_TYPE_AUTH :: c_int where "M_TYPE_AUTH \<equiv> 6"
abbreviation (input) M_TYPE_FT_SETUP :: c_int where "M_TYPE_FT_SETUP \<equiv> 7"
abbreviation (input) M_TYPE_FT_BEGIN :: c_int where "M_TYPE_FT_BEGIN \<equiv> 8"
abbreviation (input) M_TYPE_FT_DATA :: c_int where "M_TYPE_FT_DATA \<equiv> 9"
abbreviation (input) M_TYPE_FT_FIN :: c_int where "M_TYPE_FT_FIN \<equiv> 10"

record packet_t =
  p_timestamp :: time_t
  p_mtype :: c_int
  p_payload :: "byte list"
  p_hash :: "byte list"

text \<open>The arrays of the structure have their declared sizes.\<close>

definition packet_wf :: "packet_t \<Rightarrow> bool" where
  "packet_wf p \<longleftrightarrow> length (p_payload p) = PAYLOAD_SIZE \<and> length (p_hash p) = MD5_DIGEST_LENGTH"

text \<open>
  The memory of the structure: \<open>time_t\<close> in 8 bytes, \<open>int\<close> in 4, the payload, the hash. There is no
  padding, \<open>sizeof(packet_t)\<close> is 112, and the digest covers the first 96 bytes.
\<close>

definition packet_body :: "packet_t \<Rightarrow> byte list" where
  "packet_body p = le64 (p_timestamp p) @ le32 (p_mtype p) @ p_payload p"

definition packet_bytes :: "packet_t \<Rightarrow> byte list" where
  "packet_bytes p = packet_body p @ p_hash p"

definition packet_of :: "byte list \<Rightarrow> packet_t" where
  "packet_of bs = \<lparr>p_timestamp = rd64 bs, p_mtype = rd32 (drop 8 bs),
     p_payload = take 84 (drop 12 bs), p_hash = take 16 (drop 96 bs)\<rparr>"

record ft_packet_t =
  ft_mtype :: c_int
  ft_fsize :: "64 word"
  ft_nbytes :: "64 word"
  ft_payload :: "byte list"

section \<open>protocol.c\<close>

text \<open>
  \<open>payload\<close> is the object the argument points to; \<open>memcpy\<close> reads \<open>payload_len\<close> bytes of it. The
  result is the return value and the packet as it was left.
\<close>

definition gen_packet ::
  "env \<Rightarrow> c_int \<Rightarrow> byte list \<Rightarrow> nat \<Rightarrow> ('z proc_scheme, int \<times> packet_t) comp" where
  "gen_packet E type payload payload_len =
     bnd (time_retry E) (\<lambda>t.
     let p = \<lparr>p_timestamp = t, p_mtype = type, p_payload = zeros PAYLOAD_SIZE,
              p_hash = zeros MD5_DIGEST_LENGTH\<rparr>
     in if payload_len > PAYLOAD_SIZE then
          seq (emit (Stderr ''No se permiten payloads mayores a 84 bytes''))
          (ret (-1, p))
        else if length payload < payload_len then fail Out_of_bounds
        else let p' = p\<lparr>p_payload := pad_to PAYLOAD_SIZE (take payload_len payload)\<rparr>
             in ret (0, p'\<lparr>p_hash := md5 E (packet_body p')\<rparr>))"

definition check_packet_MD5 :: "env \<Rightarrow> packet_t \<Rightarrow> int" where
  "check_packet_MD5 E inc_packet =
     (if take MD5_DIGEST_LENGTH (md5 E (packet_body inc_packet)) =
         take MD5_DIGEST_LENGTH (p_hash inc_packet) then 1 else 0)"

text \<open>
  The results of successive \<open>read\<close> calls on a descriptor; an empty list of answers is a \<open>read\<close>
  that blocks for ever. The context of the digest is the bytes given to it so far.
\<close>

datatype read_res = R_err errno | R_ok "byte list"

fun md5_file_loop ::
  "env \<Rightarrow> byte list \<Rightarrow> read_res list \<Rightarrow> ('z proc_scheme, int \<times> byte list option) comp" where
  "md5_file_loop E c [] = fail Diverges"
| "md5_file_loop E c (R_err err # rs) = seq (emit (Perror ''Read file'')) (ret (-1, None))"
| "md5_file_loop E c (R_ok buf # rs) =
     (if buf = [] then ret (0, Some (md5 E c)) else md5_file_loop E (c @ buf) rs)"

text \<open>The return value, and what was stored in \<open>out\<close>.\<close>

definition get_file_MD5 ::
  "env \<Rightarrow> read_res list \<Rightarrow> ('z proc_scheme, int \<times> byte list option) comp" where
  "get_file_MD5 E rs = md5_file_loop E [] rs"

definition hex_digit :: "nat \<Rightarrow> char" where
  "hex_digit n = (if n < 10 then char_of (48 + n) else char_of (87 + n))"

text \<open>\<open>printf("%02x ", b)\<close>\<close>

definition hex_byte :: "byte \<Rightarrow> string" where
  "hex_byte b = [hex_digit (unat b div 16), hex_digit (unat b mod 16), CHR '' '']"

definition dump_packet :: "packet_t \<Rightarrow> ('z proc_scheme, unit) comp" where
  "dump_packet p = emit (Stdout (concat (map hex_byte (packet_bytes p)) @ [CHR 0x0A]))"

section \<open>Layout lemmas\<close>

definition md5_ok :: "env \<Rightarrow> bool" where
  "md5_ok E \<longleftrightarrow> (\<forall>bs. length (md5 E bs) = MD5_DIGEST_LENGTH)"

lemma length_packet_body: "packet_wf p \<Longrightarrow> length (packet_body p) = 96"
  by (simp add: packet_wf_def packet_body_def)

lemma md5_ok_env0 [simp]: "md5_ok env0"
  by (simp add: md5_ok_def)

lemma length_packet_bytes: "packet_wf p \<Longrightarrow> length (packet_bytes p) = 112"
  by (simp add: packet_bytes_def length_packet_body) (simp add: packet_wf_def)

lemma packet_of_bytes: "packet_wf p \<Longrightarrow> packet_of (packet_bytes p) = p"
  by (simp add: packet_wf_def packet_of_def packet_bytes_def packet_body_def)

lemma packet_of_wf: "length bs = 112 \<Longrightarrow> packet_wf (packet_of bs)"
  by (simp add: packet_wf_def packet_of_def)

lemma packet_bytes_of:
  assumes "length bs = 112"
  shows "packet_bytes (packet_of bs) = bs"
proof -
  have "packet_bytes (packet_of bs) =
      take 8 bs @ take 4 (drop 8 bs) @ take 84 (drop 12 bs) @ take 16 (drop 96 bs)"
    using assms by (simp add: packet_bytes_def packet_body_def packet_of_def le64_rd64 le32_rd32)
  also have "take 16 (drop 96 bs) = drop 96 bs" using assms by simp
  also have "take 84 (drop 12 bs) @ drop 96 bs = drop 12 bs"
    using append_take_drop_id [of 84 "drop 12 bs"] by simp
  also have "take 4 (drop 8 bs) @ drop 12 bs = drop 8 bs"
    using append_take_drop_id [of 4 "drop 8 bs"] by simp
  finally show ?thesis by simp
qed

lemma packet_bytes_inject:
  "packet_wf p \<Longrightarrow> packet_wf q \<Longrightarrow> packet_bytes p = packet_bytes q \<longleftrightarrow> p = q"
  by (metis packet_of_bytes)

text \<open>What the code reads back from a payload: \<open>*((int *)payload)\<close> and the next \<open>int\<close>.\<close>

definition payload_int :: "packet_t \<Rightarrow> c_int" where
  "payload_int p = rd32 (p_payload p)"

definition payload_int2 :: "packet_t \<Rightarrow> c_int" where
  "payload_int2 p = rd32 (drop 4 (p_payload p))"

section \<open>Construction and check\<close>

text \<open>The packet a successful \<open>gen_packet\<close> builds: padded payload, digest over everything else.\<close>

definition sealed :: "env \<Rightarrow> time_t \<Rightarrow> c_int \<Rightarrow> byte list \<Rightarrow> packet_t" where
  "sealed E t type payload =
     (let p = \<lparr>p_timestamp = t, p_mtype = type, p_payload = pad_to PAYLOAD_SIZE payload,
               p_hash = []\<rparr>
      in p\<lparr>p_hash := md5 E (packet_body p)\<rparr>)"

lemma sealed_fields [simp]:
  "p_timestamp (sealed E t ty pl) = t" "p_mtype (sealed E t ty pl) = ty"
  "p_payload (sealed E t ty pl) = pad_to PAYLOAD_SIZE pl"
  by (simp_all add: sealed_def Let_def)

lemma packet_body_hash [simp]: "packet_body (p\<lparr>p_hash := x\<rparr>) = packet_body p"
  by (simp add: packet_body_def)

lemma sealed_hash: "p_hash (sealed E t ty pl) = md5 E (packet_body (sealed E t ty pl))"
  by (simp add: sealed_def Let_def packet_body_def)

lemma sealed_wf: "md5_ok E \<Longrightarrow> length pl \<le> PAYLOAD_SIZE \<Longrightarrow> packet_wf (sealed E t ty pl)"
  by (simp add: packet_wf_def sealed_hash md5_ok_def)

lemma gen_packet_run:
  "gen_packet E ty pl n s = (case time_retry E s of Inl f \<Rightarrow> Inl f | Inr (t, s') \<Rightarrow>
     if n > PAYLOAD_SIZE then
       Inr ((-1, \<lparr>p_timestamp = t, p_mtype = ty, p_payload = zeros PAYLOAD_SIZE,
                  p_hash = zeros MD5_DIGEST_LENGTH\<rparr>),
            s'\<lparr>actions := actions s' @ [Stderr ''No se permiten payloads mayores a 84 bytes'']\<rparr>)
     else if length pl < n then Inl Out_of_bounds
     else Inr ((0, sealed E t ty (take n pl)), s'))"
  by (simp add: gen_packet_def bnd_def seq_def emit_def Let_def sealed_def packet_body_def
      split: sum.splits)

text \<open>The usual call: the whole of a small enough object, with a clock that answers.\<close>

lemma gen_packet_ok:
  "clk E (ntime s) \<noteq> -1 \<Longrightarrow> length pl \<le> PAYLOAD_SIZE \<Longrightarrow>
   gen_packet E ty pl (length pl) s =
     Inr ((0, sealed E (clk E (ntime s)) ty pl), s\<lparr>ntime := Suc (ntime s)\<rparr>)"
  by (simp add: gen_packet_run time_retry_clock_ok sys_time_def)

lemma gen_packet_sealed:
  assumes "gen_packet E ty pl n s = Inr ((r, p), s')" and "n \<le> PAYLOAD_SIZE"
  shows "r = 0 \<and> p = sealed E (p_timestamp p) ty (take n pl)"
  using assms by (auto simp: gen_packet_run split: sum.splits if_splits)

lemma quiet_gen_packet [quiet_rules]: "quiet (gen_packet E ty pl n)"
  unfolding gen_packet_def Let_def by (intro quiet_rules)

lemma returns_gen_packet:
  "clock_ok E \<Longrightarrow> n \<le> length pl \<Longrightarrow> returns P (gen_packet E ty pl n)"
  by (auto simp: returns_def gen_packet_run time_retry_clock_ok clock_ok_def sys_time_def)

lemma check_packet_values: "check_packet_MD5 E p = 0 \<or> check_packet_MD5 E p = 1"
  by (simp add: check_packet_MD5_def)

lemma check_sealed [simp]: "check_packet_MD5 E (sealed E t ty pl) = 1"
  by (simp add: check_packet_MD5_def sealed_hash)

lemma check_packet_iff:
  "md5_ok E \<Longrightarrow> packet_wf p \<Longrightarrow> check_packet_MD5 E p = 1 \<longleftrightarrow> md5 E (packet_body p) = p_hash p"
  by (simp add: check_packet_MD5_def md5_ok_def packet_wf_def)

text \<open>Tokens survive the payload.\<close>

lemma payload_int_sealed: "payload_int (sealed E t ty (le32 tok)) = tok"
  by (simp add: payload_int_def pad_to_def)

lemma payload_ints_sealed:
  "payload_int (sealed E t ty (le32 a @ le32 b)) = a"
  "payload_int2 (sealed E t ty (le32 a @ le32 b)) = b"
  by (simp_all add: payload_int_def payload_int2_def pad_to_def)

section \<open>Digest of a file\<close>

text \<open>How \<open>read\<close> with a buffer of \<open>n\<close> bytes hands out a regular file.\<close>

function chunks :: "nat \<Rightarrow> 'a list \<Rightarrow> 'a list list" where
  "chunks n xs = (if n = 0 \<or> xs = [] then [] else take n xs # chunks n (drop n xs))"
  by pat_completeness auto
termination
  by (relation "measure (\<lambda>(n, xs). length xs)") auto

declare chunks.simps [simp del]

lemma chunks_Nil [simp]: "chunks n [] = []"
  by (simp add: chunks.simps)

lemma concat_chunks: "0 < n \<Longrightarrow> concat (chunks n xs) = xs"
proof (induction n xs rule: chunks.induct)
  case (1 n xs)
  then show ?case by (simp add: chunks.simps [of n xs])
qed

lemma chunks_nonempty: "c \<in> set (chunks n xs) \<Longrightarrow> c \<noteq> [] \<and> length c \<le> n"
proof (induction n xs rule: chunks.induct)
  case (1 n xs)
  then show ?case by (auto simp: chunks.simps [of n xs] split: if_splits)
qed

lemma md5_file_loop_chunks:
  "[] \<notin> set cs \<Longrightarrow>
   md5_file_loop E c (map R_ok cs @ R_ok [] # rest) s = Inr ((0, Some (md5 E (c @ concat cs))), s)"
  by (induction cs arbitrary: c) auto

lemma md5_file_loop_error:
  "[] \<notin> set cs \<Longrightarrow>
   md5_file_loop E c (map R_ok cs @ R_err err # rest) s =
     Inr ((-1, None), s\<lparr>actions := actions s @ [Perror ''Read file'']\<rparr>)"
  by (induction cs arbitrary: c) (auto simp: seq_def bnd_def emit_def)

lemma quiet_md5_file_loop [quiet_rules]: "quiet (md5_file_loop E c rs)"
  by (induction E c rs rule: md5_file_loop.induct) (auto intro: quiet_rules)

lemma quiet_get_file_MD5 [quiet_rules]: "quiet (get_file_MD5 E rs)"
  unfolding get_file_MD5_def by (rule quiet_rules)

section \<open>Hexadecimal dump\<close>

definition hex_val :: "char \<Rightarrow> nat" where
  "hex_val c = (let n = of_char c in if n < 58 then n - 48 else n - 87)"

lemma hex_val_digit: "n < 16 \<Longrightarrow> hex_val (hex_digit n) = n"
  by (simp add: hex_val_def hex_digit_def Let_def)

fun parse_hex :: "string \<Rightarrow> byte list" where
  "parse_hex (a # b # c # r) = word_of_nat (16 * hex_val a + hex_val b) # parse_hex r"
| "parse_hex _ = []"

lemma parse_hex_dump: "parse_hex (concat (map hex_byte bs) @ [CHR 0x0A]) = bs"
proof (induction bs)
  case Nil
  then show ?case by simp
next
  case (Cons b bs)
  have "unat b < 256" using unat_bound [of b] by simp
  then have "hex_val (hex_digit (unat b div 16)) = unat b div 16"
    "hex_val (hex_digit (unat b mod 16)) = unat b mod 16"
    by (simp_all add: hex_val_digit)
  then have "16 * hex_val (hex_digit (unat b div 16)) + hex_val (hex_digit (unat b mod 16)) = unat b"
    by simp
  with Cons show ?case by (simp add: hex_byte_def)
qed

end
