(* ===== verification/Server_Util.thy ===== *)
theory Server_Util
  imports Protocol List_Refinement
begin

text \<open>
  \<open>server/src/srv_util.c\<close> (but for the file transfer thread, which has its own theory): the state of
  the delivery manager, logging, broadcasting, and the two garbage collectors. The lists of the
  state are lists of values: \<open>connections\<close> and \<open>buffer_packets\<close> hold the structures the nodes point
  to, a room holds descriptors. The room of producer \<open>i\<close> is \<open>susc_room s i\<close>, for \<open>i < 3\<close>.
\<close>

abbreviation (input) NO_PRODUCTORES :: nat where "NO_PRODUCTORES \<equiv> 3"
abbreviation (input) CONN_TIMEOUT :: int where "CONN_TIMEOUT \<equiv> 5"
abbreviation (input) BUFFER_CLEANUP_PERIOD :: int where "BUFFER_CLEANUP_PERIOD \<equiv> 30"
abbreviation (input) TAM :: nat where "TAM \<equiv> 256"

record connection_t =
  timestamp :: time_t
  susc_counter :: int
  sockfd :: int
  token :: c_int

record srv = proc +
  listenfd :: int
  epollfd :: int
  connections :: "connection_t list"
  susc_room :: "nat \<Rightarrow> int list"
  buffer_packets :: "packet_t list"
  last_time_cleanup :: time_t
  last_gc_time :: time_t

section \<open>Logging\<close>

text \<open>The return value and, when it is defined, the string left in the buffer of \<open>max_len\<close> bytes.\<close>

definition get_datetime :: "env \<Rightarrow> nat \<Rightarrow> ('z proc_scheme, int \<times> string option) comp" where
  "get_datetime E max_len =
     bnd (sys_time E) (\<lambda>now.
     if now = -1 then ret (-1, None)
     else ret (0, if length (fmt_time E now) < max_len then Some (fmt_time E now) else None))"

text \<open>
  \<open>vsnprintf\<close> keeps 127 characters of the formatted message; \<open>strncat\<close> then appends them, with a NUL,
  to \<open>datetime[200]\<close>, and must not run over its end.
\<close>

definition log_event :: "env \<Rightarrow> log_file \<Rightarrow> string \<Rightarrow> ('z proc_scheme, int) comp" where
  "log_event E log event =
     bnd (get_datetime E 50) (\<lambda>(r, dt).
     if r = -1 then ret (-1)
     else case dt of
       None \<Rightarrow> fail Uninit_read
     | Some datetime \<Rightarrow>
         let string_to_print = take 127 event in
         if 200 < length datetime + min 200 (length string_to_print) + 1 then fail Out_of_bounds
         else seq (emit (Log log (datetime @ take 200 string_to_print))) (ret 0))"

text \<open>The callers ignore the return value.\<close>

definition log_line :: "env \<Rightarrow> log_file \<Rightarrow> string \<Rightarrow> ('z proc_scheme, unit) comp" where
  "log_line E log event = bnd (log_event E log event) (\<lambda>_. skip)"

definition nl :: string where
  "nl = [CHR 0x0A]"

definition dm :: string where
  "dm = ''[Delivery manager] ''"

text \<open>\<open>%d\<close> of an \<open>int\<close>\<close>

definition show_c_int :: "c_int \<Rightarrow> string" where
  "show_c_int w = show_int (sint w)"

section \<open>Sockets\<close>

definition set_non_blocking :: "env \<Rightarrow> int \<Rightarrow> ('z proc_scheme, unit) comp" where
  "set_non_blocking E fd = emit (Set_non_blocking fd)"

definition add_fd :: "env \<Rightarrow> int \<Rightarrow> int \<Rightarrow> ('z proc_scheme, unit) comp" where
  "add_fd E epfd fd = bnd (attempt E (Epoll_add epfd fd)) (\<lambda>_. set_non_blocking E fd)"

definition conn_compare :: "connection_t \<Rightarrow> connection_t \<Rightarrow> int" where
  "conn_compare con1 con2 = (if token con1 = token con2 then 0 else -1)"

definition compare_fd :: "int \<Rightarrow> int \<Rightarrow> int" where
  "compare_fd fd1 fd2 = (if fd1 = fd2 then 0 else -1)"

text \<open>The result of \<open>socket\<close> and the address filled in: the port in network byte order.\<close>

definition htons :: "16 word \<Rightarrow> 16 word" where
  "htons p = word_of_nat (unat p mod 256 * 256 + unat p div 256)"

definition setup_tcpsocket :: "int \<Rightarrow> 16 word \<Rightarrow> ('z proc_scheme, int \<times> 16 word option) comp" where
  "setup_tcpsocket sock port =
     (if sock = -1 then seq (emit (Perror ''socket: '')) (ret (-1, None))
      else ret (sock, Some (htons port)))"

definition broadcast_room :: "env \<Rightarrow> int list \<Rightarrow> packet_t \<Rightarrow> ('z proc_scheme, unit) comp" where
  "broadcast_room E room msg =
     for_each (\<lambda>fd. bnd (attempt E (Send fd (packet_bytes msg))) (\<lambda>n.
       case n of None \<Rightarrow> skip
       | Some err \<Rightarrow> if err = EPIPE then skip else emit (Perror ''write broadcast''))) room"

definition send_fin :: "env \<Rightarrow> int \<Rightarrow> ('z proc_scheme, unit) comp" where
  "send_fin E fd =
     bnd (gen_packet E M_TYPE_FIN [] 0) (\<lambda>(_, packet).
     bnd (attempt E (Write fd (packet_bytes packet))) (\<lambda>_. skip))"

fun find_by_socket :: "int \<Rightarrow> connection_t list \<Rightarrow> connection_t option" where
  "find_by_socket fd [] = None"
| "find_by_socket fd (conn # iter) = (if sockfd conn = fd then Some conn else find_by_socket fd iter)"

text \<open>Searching with the comparison functions the lists of the server carry.\<close>

definition find_token :: "c_int \<Rightarrow> connection_t list \<Rightarrow> int" where
  "find_token tok cs =
     l_find (\<lambda>c. conn_compare \<lparr>timestamp = 0, susc_counter = 0, sockfd = 0, token = tok\<rparr> c = 0) cs"

definition find_fd :: "int \<Rightarrow> int list \<Rightarrow> int" where
  "find_fd fd room = l_find (\<lambda>d. compare_fd fd d = 0) room"

definition set_room :: "nat \<Rightarrow> int list \<Rightarrow> ('z srv_scheme, unit) comp" where
  "set_room i room = modify (\<lambda>s. s\<lparr>susc_room := (susc_room s)(i := room)\<rparr>)"

section \<open>Garbage collection\<close>

text \<open>
  Both loops walk the list with \<open>iter\<close> and count the kept nodes in \<open>index\<close>; the packets and
  connections \<open>iter\<close> still has to visit are the argument.
\<close>

fun gc_packets_loop :: "env \<Rightarrow> time_t \<Rightarrow> int \<Rightarrow> packet_t list \<Rightarrow> ('z srv_scheme, unit) comp" where
  "gc_packets_loop E time_actual index [] = skip"
| "gc_packets_loop E time_actual index (packet # iter) =
     (if sint time_actual - sint (p_timestamp packet) > CONN_TIMEOUT then
        seq (log_line E Log_productores (dm @ ''Packet con timestamp eliminado: '' @
               show_int (sint (p_timestamp packet)) @ nl))
        (seq (modify (\<lambda>s. s\<lparr>buffer_packets := l_delete index (buffer_packets s)\<rparr>))
        (gc_packets_loop E time_actual index iter))
      else gc_packets_loop E time_actual (index + 1) iter)"

definition garb_collec_old_packets :: "env \<Rightarrow> int \<Rightarrow> ('z srv_scheme, unit) comp" where
  "garb_collec_old_packets E period =
     bnd (sys_time E) (\<lambda>time_actual.
     bnd (gets last_gc_time) (\<lambda>last_gc.
     if sint time_actual - sint last_gc < period then skip
     else bnd (gets buffer_packets) (\<lambda>buffered_packets.
       seq (log_line E Log_productores (dm @ ''Timestamp al limpiar buffer: '' @
              show_int (sint time_actual) @ nl))
       (seq (gc_packets_loop E time_actual 0 buffered_packets)
       (modify (\<lambda>s. s\<lparr>last_gc_time := time_actual\<rparr>))))))"

text \<open>The subscriber leaves every room it is in; \<open>list_delete\<close> of index -1 does nothing.\<close>

definition leave_room :: "int \<Rightarrow> nat \<Rightarrow> ('z srv_scheme, unit) comp" where
  "leave_room fd i =
     bnd (gets (\<lambda>s. susc_room s i)) (\<lambda>room. set_room i (l_delete (find_fd fd room) room))"

definition leave_rooms :: "int \<Rightarrow> ('z srv_scheme, unit) comp" where
  "leave_rooms fd = for_each (leave_room fd) [0, 1, 2]"

definition expired :: "time_t \<Rightarrow> connection_t \<Rightarrow> bool" where
  "expired time_actual conn \<longleftrightarrow>
     sint time_actual - sint (timestamp conn) > CONN_TIMEOUT \<and> susc_counter conn > 0"

definition report_close :: "errno option \<Rightarrow> ('z proc_scheme, unit) comp" where
  "report_close r = (case r of None \<Rightarrow> skip
     | Some err \<Rightarrow> if err = EBADF then emit (Stderr ''Close fd de conexion inactiva'')
                   else emit (Perror ''close ''))"

definition report_delete :: "int \<Rightarrow> int \<Rightarrow> int \<Rightarrow> ('z proc_scheme, unit) comp" where
  "report_delete code index fd = when_do (code = -1)
     (emit (Stderr (''Error al eliminar conexion, index = '' @ show_int index @
        '', connection.fd = '' @ show_int fd @ nl)))"

fun gc_conn_loop :: "env \<Rightarrow> time_t \<Rightarrow> int \<Rightarrow> connection_t list \<Rightarrow> ('z srv_scheme, unit) comp" where
  "gc_conn_loop E time_actual index [] = skip"
| "gc_conn_loop E time_actual index (conn # iter) =
     (if expired time_actual conn then
        seq (log_line E Log_clientes (dm @ ''Conexion con cliente con token: '' @
               show_c_int (token conn) @ '' y socket: '' @ show_int (sockfd conn) @ '' cerrada'' @ nl))
        (seq (send_fin E (sockfd conn))
        (bnd (gets epollfd) (\<lambda>epfd.
        bnd (attempt E (Epoll_del epfd (sockfd conn))) (\<lambda>_.  \<comment> \<open>\<open>if (EBADF)\<close> is always true: no \<open>perror\<close>\<close>
        seq (leave_rooms (sockfd conn))
        (bnd (attempt E (Close (sockfd conn))) (\<lambda>r.
        seq (report_close r)
        (bnd (gets (\<lambda>s. l_delete_code index (connections s))) (\<lambda>code.
        seq (modify (\<lambda>s. s\<lparr>connections := l_delete index (connections s)\<rparr>))
        (seq (report_delete code index (sockfd conn))
        (gc_conn_loop E time_actual index iter))))))))))
      else gc_conn_loop E time_actual (index + 1) iter)"

text \<open>\<open>last_gc\<close> points to \<open>last_time_cleanup\<close>, which the function reads and never writes.\<close>

definition garb_collec_old_conn :: "env \<Rightarrow> int \<Rightarrow> ('z srv_scheme, unit) comp" where
  "garb_collec_old_conn E period =
     bnd (sys_time E) (\<lambda>time_actual.
     bnd (gets last_time_cleanup) (\<lambda>last_gc.
     if sint time_actual - sint last_gc < period then skip
     else bnd (gets connections) (\<lambda>conns. gc_conn_loop E time_actual 0 conns)))"

section \<open>Exit\<close>

text \<open>The \<open>on_exit\<close> handler on the heap of list.c; \<open>mq_close\<close> touches no list.\<close>

definition srv_on_exit :: "addr \<Rightarrow> addr \<Rightarrow> addr list \<Rightarrow> ('d heap, unit) comp" where
  "srv_on_exit buffer conns rooms =
     seq (list_free buffer)
     (seq (list_free conns)
     (for_each list_free rooms))"

end
