(* ===== verification/List_Properties.thy ===== *)
theory List_Properties
  imports List_Refinement Server_Util
begin

text \<open>
  The properties of \<open>list.c\<close> on the heap: any sequence of its operations behaves like the operations
  on values, cutting and freeing touch exactly what they should, and the loops of the server that
  delete while they walk stay within live memory.
\<close>

section \<open>Several lists\<close>

text \<open>A list with its representation, and what it occupies.\<close>

record 'd owned =
  o_list :: addr
  o_hdr :: "'d list_t"
  o_nodes :: "(addr \<times> addr) list"
  o_end :: addr

definition owns :: "'d heap \<Rightarrow> 'd owned \<Rightarrow> bool" where
  "owns h r \<longleftrightarrow> lrep (o_list r) (o_hdr r) (o_nodes r) (o_end r) h \<and> free_data (o_hdr r) = Free_libc"

definition node_addrs :: "'d owned \<Rightarrow> addr set" where
  "node_addrs r = insert (o_end r) (fst ` set (o_nodes r))"

definition data_addrs :: "'d owned \<Rightarrow> addr set" where
  "data_addrs r = snd ` set (o_nodes r)"

text \<open>No two of the lists share a header, a node or a datum.\<close>

fun disjoint_lists :: "'d owned list \<Rightarrow> bool" where
  "disjoint_lists [] = True"
| "disjoint_lists (r # rs) = ((\<forall>q \<in> set rs. o_list r \<noteq> o_list q \<and>
     node_addrs r \<inter> node_addrs q = {} \<and> data_addrs r \<inter> data_addrs q = {}) \<and> disjoint_lists rs)"

definition without_lists :: "'d owned list \<Rightarrow> 'd heap \<Rightarrow> 'd heap" where
  "without_lists rs h = h\<lparr>objs := objs h |` (- \<Union> (data_addrs ` set rs)),
     nodes := nodes h |` (- \<Union> (node_addrs ` set rs)), lists := lists h |` (- o_list ` set rs)\<rparr>"

lemma seg_restrict: "fst ` set ads \<inter> A = {} \<Longrightarrow> seg (N |` (- A)) p ads q = seg N p ads q"
  by (induction ads arbitrary: p) auto

lemma chain_restrict:
  "insert e (fst ` set ads) \<inter> A = {} \<Longrightarrow> chain (N |` (- A)) p ads e = chain N p ads e"
  by (auto simp: chain_def seg_restrict)

lemma heap_ok_restrict:
  "heap_ok h \<Longrightarrow> heap_ok (h\<lparr>objs := objs h |` A, nodes := nodes h |` B, lists := lists h |` C\<rparr>)"
  by (auto simp: heap_ok_def)

lemma owns_without:
  assumes "owns h q" and "o_list r \<noteq> o_list q" and "node_addrs r \<inter> node_addrs q = {}"
    and "data_addrs r \<inter> data_addrs q = {}"
  shows "owns (without_lists [r] h) q"
proof -
  have "insert (o_end q) (fst ` set (o_nodes q)) \<inter> node_addrs r = {}"
    using assms(3) by (auto simp: node_addrs_def [of q])
  from chain_restrict [OF this] assms(1)
  have "chain (nodes h |` (- node_addrs r)) (head (o_hdr q)) (o_nodes q) (o_end q)"
    by (simp add: owns_def lrep_def)
  moreover have "snd ` set (o_nodes q) \<subseteq> dom (objs h |` (- data_addrs r))"
    using assms(1,4) by (auto simp: owns_def lrep_def data_addrs_def)
  ultimately show ?thesis
    using assms(1,2) heap_ok_restrict
    by (auto simp: owns_def lrep_def without_lists_def)
qed

lemma list_free_owned:
  assumes "owns h r"
  shows "list_free (o_list r) h = Inr ((), without_lists [r] h)"
proof -
  have "(lists h)(o_list r := None) = lists h |` (- {o_list r})"
    by (auto simp: fun_eq_iff restrict_map_def)
  with assms list_free_spec [of "o_list r" "o_hdr r" "o_nodes r" "o_end r" h] show ?thesis
    by (simp add: owns_def without_lists_def data_addrs_def node_addrs_def)
qed

lemma without_lists_Cons: "without_lists rs (without_lists [r] h) = without_lists (r # rs) h"
  by (simp add: without_lists_def restrict_map_def fun_eq_iff Int_commute)

lemma list_free_all:
  "\<forall>r \<in> set rs. owns h r \<Longrightarrow> disjoint_lists rs \<Longrightarrow>
   for_each list_free (map o_list rs) h = Inr ((), without_lists rs h)"
proof (induction rs arbitrary: h)
  case Nil
  then show ?case by (simp add: without_lists_def restrict_map_def)
next
  case (Cons r rs)
  have "\<forall>q \<in> set rs. owns (without_lists [r] h) q" using Cons.prems by (auto intro!: owns_without)
  with Cons.IH Cons.prems list_free_owned [of h r] without_lists_Cons [of rs r h] show ?case
    by (simp add: seq_apply)
qed

section \<open>A concrete heap\<close>

text \<open>Five lists: the first holds two data, the others are empty.\<close>

definition cmp0 :: "nat \<Rightarrow> nat \<Rightarrow> int" where
  "cmp0 x y = (if x = y then 0 else 1)"

definition hdr0 :: "addr \<Rightarrow> nat list_t" where
  "hdr0 p = \<lparr>head = p, free_data = Free_libc, compare_data = Some cmp0\<rparr>"

definition heap0 :: "nat heap" where
  "heap0 = \<lparr>nodes = [2 \<mapsto> \<lparr>nxt = 3, data = 5\<rparr>, 3 \<mapsto> \<lparr>nxt = 4, data = 6\<rparr>, 4 \<mapsto> \<lparr>nxt = 0, data = 0\<rparr>,
       8 \<mapsto> \<lparr>nxt = 0, data = 0\<rparr>, 10 \<mapsto> \<lparr>nxt = 0, data = 0\<rparr>, 12 \<mapsto> \<lparr>nxt = 0, data = 0\<rparr>, 14 \<mapsto> \<lparr>nxt = 0, data = 0\<rparr>],
     lists = [1 \<mapsto> hdr0 2, 7 \<mapsto> hdr0 8, 9 \<mapsto> hdr0 10, 11 \<mapsto> hdr0 12, 13 \<mapsto> hdr0 14],
     objs = [5 \<mapsto> 70, 6 \<mapsto> 80], arrays = Map.empty, brk = 15, nalloc = 14, mem = (\<lambda>_. True)\<rparr>"

lemma heap0_simps [simp]: "mem heap0 = (\<lambda>_. True)" "brk heap0 = 15"
  by (simp_all add: heap0_def)

lemma heap_ok_heap0: "heap_ok heap0"
  by (auto simp: heap_ok_def heap0_def)

lemma lrep_heap0: "lrep 1 (hdr0 2) [(2, 5), (3, 6)] 4 heap0"
  using heap_ok_heap0 by (auto simp: lrep_def chain_def hdr0_def) (auto simp: heap0_def hdr0_def)

lemma lrep_empty0:
  "(p, e) \<in> {(7, 8), (9, 10), (11, 12), (13, 14)} \<Longrightarrow> lrep p (hdr0 e) [] e heap0"
  using heap_ok_heap0 by (auto simp: lrep_def chain_def) (auto simp: heap0_def hdr0_def)

lemma lvals_heap0 [simp]: "lvals heap0 [(2, 5), (3, 6)] = [70, 80]"
  by (simp add: lvals_def heap0_def)

definition empty0 :: "addr \<Rightarrow> nat owned" where
  "empty0 p = \<lparr>o_list = p, o_hdr = hdr0 (Suc p), o_nodes = [], o_end = Suc p\<rparr>"

section \<open>Properties\<close>

text \<open>The operations on the heap, as a sequence: elements are allocated before they are inserted.\<close>

definition heap_ops :: "addr \<Rightarrow> 'd list_op list \<Rightarrow> ('d heap, 'd list_res list) comp" where
  "heap_ops l = heap_list.do_ops l"

text \<open>C2. Any sequence of insertions at either end, searches, reads and deletions on a list in the heap
  returns what the operations on values return, and leaves the list standing for their result: no
  dangling node, no leak of the data, no fault, whatever the indices.\<close>

theorem list_operations_refine:
  assumes "list_at l cmp xs h"
  shows "\<exists>h'. heap_ops l ps h = Inr (fst (spec_ops (\<lambda>x y. cmp x y = 0) ps xs), h') \<and>
    list_at l cmp (snd (spec_ops (\<lambda>x y. cmp x y = 0) ps xs)) h'"
  unfolding heap_ops_def using assms by (rule heap_list.do_ops_refine)

theorem list_operations_refine_witness:
  "\<exists>h' rs. heap_ops 1 [Op_add_last 90, Op_delete 0, Op_find 90] heap0 = Inr (rs, h') \<and> list_at 1 cmp0 [80, 90] h'"
proof -
  have "list_at 1 cmp0 [70, 80] heap0"
    unfolding list_at_def using lrep_heap0 
    by (intro exI [of _ "hdr0 2"] exI [of _ "[(2, 5), (3, 6)]"] exI [of _ 4]) (simp add: hdr0_def)
  from list_operations_refine [OF this, of "[Op_add_last 90, Op_delete 0, Op_find 90]"] show ?thesis
    by (auto simp: l_add_last_def l_delete_def)
qed

text \<open>C29. \<open>list_slice\<close> at an index inside the list cuts it into two well-formed lists, the first elements
  and the rest, and moves no data. The header of the new list is zeroed, so freeing it
  calls a null \<open>free_data\<close>.\<close>

theorem list_slice_cuts:
  assumes "lrep l lt (xs @ ys) e h" and "xs \<noteq> []" and "ys \<noteq> []"
    and "mem h (nalloc h)" and "mem h (Suc (nalloc h))"
  shows "\<exists>h' m lm. list_slice (int (length xs)) l h = Inr (m, h') \<and>
    lrep l lt xs (Suc (brk h)) h' \<and> lrep m lm ys e h' \<and> objs h' = objs h \<and>
    list_free m h' = Inl Null_deref"
proof -
  obtain h' lm where h': "list_slice (int (length xs)) l h = Inr (brk h, h')"
    "lrep l lt xs (Suc (brk h)) h'" "lrep (brk h) lm ys e h'" "free_data lm = Free_null" "objs h' = objs h"
    using list_slice_spec [OF assms] by blast
  obtain a d zs where ys: "ys = (a, d) # zs" using assms(3) by (cases ys) auto
  have ok: "heap_ok h'" and lm: "lists h' (brk h) = Some lm"
    and ch: "chain (nodes h') (head lm) ((a, d) # zs) e"
    using h'(3) ys by (auto simp: lrep_def)
  obtain n where n: "nodes h' (head lm) = Some n" using chain_start [OF ch] by auto
  have nz: "nxt n \<noteq> 0" using chain_next_null [OF ch heap_okD(2) [OF ok] n] by simp
  have "0 < brk h'" by (rule heap_okD(1) [OF ok])
  then obtain f where "brk h' = Suc f" by (cases "brk h'") auto
  then have "list_free (brk h) h' = Inl Null_deref"
    using lm n nz h'(4)
    by (simp add: list_free_def access_simps call_free_def bnd_def seq_def deref_def get_head_def
        get_nxt_def get_data_def fuel_def)
  with h' show ?thesis by blast
qed

theorem list_slice_cuts_witness:
  "\<exists>h' m lm. list_slice 1 1 heap0 = Inr (m, h') \<and> lrep 1 (hdr0 2) [(2, 5)] 16 h' \<and>
    lrep m lm [(3, 6)] 4 h' \<and> list_free m h' = Inl Null_deref"
  using list_slice_cuts [of 1 "hdr0 2" "[(2, 5)]" "[(3, 6)]" 4 heap0] lrep_heap0 by auto

text \<open>C27. The handler the server registers with \<open>on_exit\<close> frees its five lists completely: nothing of
  them stays allocated and nothing else is released.\<close>

theorem on_exit_frees_everything:
  assumes "\<forall>r \<in> set (b # c # rooms). owns h r" and "disjoint_lists (b # c # rooms)"
  shows "srv_on_exit (o_list b) (o_list c) (map o_list rooms) h =
    Inr ((), without_lists (b # c # rooms) h)"
  using list_free_all [OF assms] by (simp add: srv_on_exit_def)

theorem on_exit_frees_everything_witness:
  "\<exists>h'. srv_on_exit 1 7 [9, 11, 13] heap0 = Inr ((), h') \<and> objs h' = Map.empty \<and> lists h' = Map.empty"
proof -
  let ?b = "\<lparr>o_list = 1, o_hdr = hdr0 2, o_nodes = [(2, 5), (3, 6)], o_end = 4\<rparr>"
  let ?rs = "?b # empty0 7 # map empty0 [9, 11, 13]"
  have "owns heap0 (empty0 p)" if "p \<in> {7, 9, 11, 13}" for p
    using lrep_empty0 [of p "Suc p"] that by (auto simp: owns_def empty0_def hdr0_def)
  moreover have "owns heap0 ?b" using lrep_heap0 by (simp add: owns_def hdr0_def)
  ultimately have o: "\<forall>r \<in> set ?rs. owns heap0 r" by auto
  have d: "disjoint_lists ?rs" by (auto simp: empty0_def node_addrs_def data_addrs_def)
  have e: "objs (without_lists ?rs heap0) = Map.empty" "lists (without_lists ?rs heap0) = Map.empty"
    by (auto simp: without_lists_def heap0_def data_addrs_def empty0_def restrict_map_def fun_eq_iff)
  show ?thesis using on_exit_frees_everything [OF o d] e by (simp add: empty0_def)
qed

text \<open>C28. The garbage collectors walk a list and delete from it as they go, reading the next node before
  the current one is freed: the walk ends, touches no freed node, keeps exactly the elements that are
  not old, in order, and frees the data of the others.\<close>

theorem collecting_walk_is_safe:
  assumes "lrep l lt ads e h" and "free_data lt = Free_libc"
  shows "\<exists>h' lt' ads'. gc_list old l h = Inr ((), h') \<and> lrep l lt' ads' e h' \<and>
    lvals h' ads' = filter (\<lambda>x. \<not> old x) (lvals h ads) \<and>
    objs h' = objs h |` (- snd ` set (filter (\<lambda>(a, d). old (the (objs h d))) ads))"
  using gc_list_spec [OF assms] by blast

theorem collecting_walk_is_safe_witness:
  "\<exists>h' lt' ads'. gc_list (\<lambda>x. x < 75) 1 heap0 = Inr ((), h') \<and> lrep 1 lt' ads' 4 h' \<and>
    lvals h' ads' = [80]"
proof -
  have "free_data (hdr0 2) = Free_libc" by (simp add: hdr0_def)
  from collecting_walk_is_safe [OF lrep_heap0 this, of "\<lambda>x. x < 75"] show ?thesis by auto
qed

lemma map_same: "map f xs = xs \<longleftrightarrow> (\<forall>x \<in> set xs. f x = x)"
  by (induction xs) auto

text \<open>C30. If no allocation fails and no object is shorter than \<open>data_size\<close>, \<open>list_to_array\<close> copies the first \<open>data_size\<close> bytes
  of every object into fresh objects behind a null-terminated array and leaves the list as it was, and
  \<open>list_create_from_array\<close> turns that array into a list of the copies, in order; they are the whole objects exactly when all
  have \<open>data_size\<close> bytes.\<close>

theorem array_roundtrip:
  assumes r: "lrep l lt ads e h" and m: "\<forall>k. mem h k" and size: "\<forall>x \<in> set (lvals h ads). data_size \<le> length x"
  shows "\<exists>h' l' lt' ads' e'. bnd (list_to_array l data_size) list_create_from_array h = Inr (l', h') \<and>
    lrep l' lt' ads' e' h' \<and> lvals h' ads' = map (take data_size) (lvals h ads) \<and>
    (lvals h' ads' = lvals h ads \<longleftrightarrow> (\<forall>x \<in> set (lvals h ads). length x = data_size))"
proof -
  obtain h1 arr ptrs where h1: "list_to_array l data_size h = Inr (arr, h1)" "lrep l lt ads e h1"
    "arrays h1 arr = Some (map Some ptrs @ [Some 0])" "map (objs h1) ptrs = map Some (map (take data_size) (lvals h ads))"
    "distinct ptrs" "\<forall>k. mem h1 k"
    using list_to_array_spec [OF r m size] by blast
  have ok: "heap_ok h1" using h1(2) by (simp add: lrep_def)
  have sub: "set ptrs \<subseteq> dom (objs h1)"
  proof
    fix p assume "p \<in> set ptrs"
    then have "objs h1 p \<in> set (map (objs h1) ptrs)" by simp
    then show "p \<in> dom (objs h1)" unfolding h1(4) by auto
  qed
  obtain h2 l' lt' ads' e' where h2: "list_create_from_array arr h1 = Inr (l', h2)"
    "lrep l' lt' ads' e' h2" "map snd ads' = ptrs" "objs h2 = objs h1"
    using list_create_from_array_spec [OF ok h1(6,3,5) sub] by blast
  have "lvals h2 ads' = map (\<lambda>p. the (objs h1 p)) (map snd ads')"
    using h2(4) by (simp add: lvals_def comp_def case_prod_unfold)
  also have "\<dots> = map the (map (objs h1) ptrs)" using h2(3) by simp
  also have "\<dots> = map (take data_size) (lvals h ads)" unfolding h1(4) by (simp add: comp_def)
  finally have vals: "lvals h2 ads' = map (take data_size) (lvals h ads)" .
  moreover have "map (take data_size) (lvals h ads) = lvals h ads \<longleftrightarrow> (\<forall>x \<in> set (lvals h ads). length x = data_size)"
    using size by (auto simp: map_same take_all_iff intro: le_antisym)
  ultimately have "lvals h2 ads' = map (take data_size) (lvals h ads) \<and>
    (lvals h2 ads' = lvals h ads \<longleftrightarrow> (\<forall>x \<in> set (lvals h ads). length x = data_size))" by simp
  moreover have "bnd (list_to_array l data_size) list_create_from_array h = Inr (l', h2)"
    using h1(1) h2(1) by (simp add: bnd_apply)
  ultimately show ?thesis using h2(2) by blast
qed

definition bytes_hdr0 :: "byte list list_t" where
  "bytes_hdr0 = \<lparr>head = 2, free_data = Free_libc, compare_data = None\<rparr>"

definition bytes_heap0 :: "byte list heap" where
  "bytes_heap0 = \<lparr>nodes = [2 \<mapsto> \<lparr>nxt = 3, data = 5\<rparr>, 3 \<mapsto> \<lparr>nxt = 4, data = 6\<rparr>, 4 \<mapsto> \<lparr>nxt = 0, data = 0\<rparr>],
     lists = [1 \<mapsto> bytes_hdr0], objs = [5 \<mapsto> [70, 71, 72], 6 \<mapsto> [80, 81, 82]], arrays = Map.empty, brk = 7, nalloc = 6,
     mem = (\<lambda>_. True)\<rparr>"

theorem array_roundtrip_witness:
  "\<exists>h' l' lt' ads' e'. bnd (list_to_array 1 2) list_create_from_array bytes_heap0 = Inr (l', h') \<and>
    lrep l' lt' ads' e' h' \<and> lvals h' ads' = [[70, 71], [80, 81]]"
proof -
  have "heap_ok bytes_heap0" by (auto simp: heap_ok_def bytes_heap0_def)
  then have "lrep 1 bytes_hdr0 [(2, 5), (3, 6)] 4 bytes_heap0"
    by (auto simp: lrep_def chain_def bytes_hdr0_def) (auto simp: bytes_heap0_def bytes_hdr0_def)
  moreover have "lvals bytes_heap0 [(2, 5), (3, 6)] = [[70, 71, 72], [80, 81, 82]]" "\<forall>k. mem bytes_heap0 k"
    by (simp_all add: lvals_def bytes_heap0_def)
  ultimately show ?thesis using array_roundtrip [of 1 bytes_hdr0 "[(2, 5), (3, 6)]" 4 bytes_heap0 2] by simp blast
qed

end
