(* ===== verification/CLI.thy ===== *)
theory CLI
  imports OS
begin

text \<open>
  \<open>server/src/cli.c\<close>: the command line that reads a line, parses it into a \<open>command_t\<close> and writes the
  structure to the FIFO of the delivery manager. \<open>strtok\<close>, \<open>atoi\<close> and \<open>fgets\<close> are the library's, as
  glibc implements them.
\<close>

section \<open>The library calls\<close>

text \<open>\<open>strtok(s, " ")\<close>: the first token and the string the next call continues on.\<close>

definition strtok :: "string \<Rightarrow> (string \<times> string) option" where
  "strtok s = (let t = dropWhile (\<lambda>c. c = CHR '' '') s in
     if t = [] then None
     else Some (takeWhile (\<lambda>c. c \<noteq> CHR '' '') t, drop 1 (dropWhile (\<lambda>c. c \<noteq> CHR '' '') t)))"

definition isspace :: "char \<Rightarrow> bool" where
  "isspace c \<longleftrightarrow> c \<in> {CHR '' '', CHR 0x09, CHR 0x0A, CHR 0x0B, CHR 0x0C, CHR 0x0D}"

text \<open>\<open>(int) strtol(s, NULL, 10)\<close>: saturates at the range of \<open>long\<close>, then keeps the low 32 bits.\<close>

definition atoi :: "string \<Rightarrow> c_int" where
  "atoi s = (let t = dropWhile isspace s;
       neg = (t \<noteq> [] \<and> hd t = CHR ''-'');
       u = (if t \<noteq> [] \<and> (hd t = CHR ''-'' \<or> hd t = CHR ''+'') then tl t else t);
       n = int (digits_val (takeWhile is_digit u))
     in word_of_int (if neg then max (- (2 ^ 63)) (- n) else min (2 ^ 63 - 1) n))"

text \<open>\<open>fgets(buf, n, stdin)\<close> on the characters still to come: the line stored, if any, and the rest.\<close>

definition fgets :: "nat \<Rightarrow> string \<Rightarrow> string option \<times> string" where
  "fgets n inp = (if inp = [] then (None, [])
     else let l = takeWhile (\<lambda>c. c \<noteq> CHR 0x0A) inp;
              line = (if length l < length inp then l @ [CHR 0x0A] else l)
          in (Some (take (n - 1) line), drop (min (n - 1) (length line)) inp))"

section \<open>Commands\<close>

abbreviation (input) CMD_ADD :: c_int where "CMD_ADD \<equiv> 1"
abbreviation (input) CMD_DEL :: c_int where "CMD_DEL \<equiv> 2"
abbreviation (input) CMD_LOG :: c_int where "CMD_LOG \<equiv> 3"

record command_t =
  ctype :: c_int
  socket :: c_int
  productor :: c_int

definition command_bytes :: "command_t \<Rightarrow> byte list" where
  "command_bytes c = le32 (ctype c) @ le32 (socket c) @ le32 (productor c)"

definition command_of :: "byte list \<Rightarrow> command_t" where
  "command_of bs = \<lparr>ctype = rd32 bs, socket = rd32 (drop 4 bs), productor = rd32 (drop 8 bs)\<rparr>"

lemma strtok_shorter: "strtok s = Some (tok, rest) \<Longrightarrow> length rest < length s"
proof -
  assume "strtok s = Some (tok, rest)"
  then have ne: "dropWhile (\<lambda>c. c = CHR '' '') s \<noteq> []"
    and r: "rest = drop 1 (dropWhile (\<lambda>c. c \<noteq> CHR '' '') (dropWhile (\<lambda>c. c = CHR '' '') s))"
    by (auto simp: strtok_def Let_def split: if_splits)
  have "length rest \<le> length (dropWhile (\<lambda>c. c = CHR '' '') s) - 1"
  proof -
    let ?t = "dropWhile (\<lambda>c. c = CHR '' '') s"
    have "length (dropWhile (\<lambda>c. c \<noteq> CHR '' '') ?t) \<le> length ?t" by (rule length_dropWhile_le)
    with r show ?thesis by simp
  qed
  moreover have "length (dropWhile (\<lambda>c. c = CHR '' '') s) \<le> length s" by (rule length_dropWhile_le)
  moreover have "0 < length (dropWhile (\<lambda>c. c = CHR '' '') s)" using ne by simp
  ultimately show ?thesis by linarith
qed

text \<open>
  The loop that stores the tokens after the first: \<open>i\<close> tokens are stored so far, a fourth one makes
  the function return -1 (\<open>None\<close>).
\<close>

function token_loop :: "nat \<Rightarrow> string \<Rightarrow> string list \<Rightarrow> (nat \<times> string list) option" where
  "token_loop i rest tokens =
     (case strtok rest of
        None \<Rightarrow> Some (i, tokens)
      | Some (token, rest') \<Rightarrow>
          if i = 3 then None else token_loop (i + 1) rest' (tokens @ [token]))"
  by pat_completeness auto
termination
  by (relation "measure (\<lambda>(i, rest, tokens). length rest)") (auto dest: strtok_shorter)

declare token_loop.simps [simp del]

text \<open>The return code, and the structure the pointer \<open>command\<close> refers to after the call.\<close>

definition parse_command :: "string \<Rightarrow> command_t \<Rightarrow> int \<times> command_t" where
  "parse_command s command =
     (case strtok s of
        None \<Rightarrow> (-1, command)
      | Some (token, rest) \<Rightarrow>
        (case token_loop 1 rest [token] of
           None \<Rightarrow> (-1, command)
         | Some (i, tokens) \<Rightarrow>
             if i = 1 then (-1, command)
             else if tokens ! 0 = ''add'' \<and> i = 3 then
               (0, command\<lparr>ctype := CMD_ADD, socket := atoi (tokens ! 1),
                           productor := atoi (tokens ! 2)\<rparr>)
             else if tokens ! 0 = ''delete'' \<and> i = 3 then
               (0, command\<lparr>ctype := CMD_DEL, socket := atoi (tokens ! 1),
                           productor := atoi (tokens ! 2)\<rparr>)
             else if tokens ! 0 = ''log'' \<and> i = 2 then
               (0, command\<lparr>ctype := CMD_LOG, socket := atoi (tokens ! 1)\<rparr>)
             else (-1, command)))"

section \<open>The loop of the CLI\<close>

text \<open>The input still unread, and the descriptors the process has open on the FIFO.\<close>

record cli = proc +
  stdin_left :: string
  fifo_fds :: "int list"

text \<open>
  One iteration: \<open>open\<close> answered \<open>fd\<close> (-1 when it failed), and \<open>command\<close>, a local of the iteration,
  held \<open>junk\<close>. The bytes of \<open>buf\<close> up to its first NUL are what \<open>parse_command\<close> sees.
\<close>

definition cli_iteration :: "env \<Rightarrow> int \<Rightarrow> command_t \<Rightarrow> (cli, unit) comp" where
  "cli_iteration E fd junk =
     seq (when_do (fd \<noteq> -1) (modify (\<lambda>s. s\<lparr>fifo_fds := fd # fifo_fds s\<rparr>)))
     (bnd (gets (\<lambda>s. fgets 80 (stdin_left s))) (\<lambda>(line, rest).
     seq (modify (\<lambda>s. s\<lparr>stdin_left := rest\<rparr>))
     (let buf = (case line of None \<Rightarrow> [] | Some l \<Rightarrow> takeWhile (\<lambda>c. c \<noteq> CHR 0x00) l);
          (code, command) = parse_command buf junk
      in if code = -1 then emit (Stdout (''Mal uso de la CLI'' @ [CHR 0x0A]))
         else bnd (attempt E (Write fd (command_bytes command))) (\<lambda>_.
              bnd (attempt E (Close fd)) (\<lambda>_.
              modify (\<lambda>s. s\<lparr>fifo_fds := remove1 fd (fifo_fds s)\<rparr>))))))"

section \<open>Tokens\<close>

text \<open>All the tokens of a string.\<close>

function split_tokens :: "string \<Rightarrow> string list" where
  "split_tokens s = (case strtok s of None \<Rightarrow> [] | Some (tok, rest) \<Rightarrow> tok # split_tokens rest)"
  by pat_completeness auto
termination
  by (relation "measure length") (auto dest: strtok_shorter)

declare split_tokens.simps [simp del]

lemma token_loop_split:
  assumes "i \<le> 3"
  shows "token_loop i rest tokens =
    (if i + length (split_tokens rest) \<le> 3
     then Some (i + length (split_tokens rest), tokens @ split_tokens rest) else None)"
  using assms
proof (induction i rest tokens rule: token_loop.induct)
  case (1 i rest tokens)
  show ?case
  proof (cases "strtok rest")
    case None
    with 1 show ?thesis by (simp add: token_loop.simps [of i] split_tokens.simps [of rest])
  next
    case (Some p)
    obtain tok rest' where p: "p = (tok, rest')" by (cases p)
    show ?thesis
    proof (cases "i = 3")
      case True
      with Some p show ?thesis
        by (subst token_loop.simps) (simp add: split_tokens.simps [of rest])
    next
      case False
      with 1 Some p have "token_loop (i + 1) rest' (tokens @ [tok]) =
        (if i + 1 + length (split_tokens rest') \<le> 3
         then Some (i + 1 + length (split_tokens rest'), (tokens @ [tok]) @ split_tokens rest')
         else None)" by simp
      with Some p False show ?thesis
        by (simp add: token_loop.simps [of i] split_tokens.simps [of rest])
    qed
  qed
qed

lemma parse_command_tokens:
  "parse_command s c = (case split_tokens s of
     [a, b] \<Rightarrow> if a = ''log'' then (0, c\<lparr>ctype := CMD_LOG, socket := atoi b\<rparr>) else (-1, c)
   | [a, b, d] \<Rightarrow>
       if a = ''add'' then (0, c\<lparr>ctype := CMD_ADD, socket := atoi b, productor := atoi d\<rparr>)
       else if a = ''delete'' then (0, c\<lparr>ctype := CMD_DEL, socket := atoi b, productor := atoi d\<rparr>)
       else (-1, c)
   | _ \<Rightarrow> (-1, c))"
proof (cases "strtok s")
  case None
  then show ?thesis by (simp add: parse_command_def split_tokens.simps [of s])
next
  case (Some p)
  obtain tok rest where p: "p = (tok, rest)" by (cases p)
  show ?thesis
    by (cases "split_tokens rest"; cases "tl (split_tokens rest)"; cases "tl (tl (split_tokens rest))")
      (auto simp: parse_command_def split_tokens.simps [of s] Some p token_loop_split
        split: list.splits)
qed

definition no_space :: "string \<Rightarrow> bool" where
  "no_space w \<longleftrightarrow> w \<noteq> [] \<and> CHR '' '' \<notin> set w"

lemma takeWhile_nonspace: "CHR '' '' \<notin> set w \<Longrightarrow> takeWhile (\<lambda>c. c \<noteq> CHR '' '') w = w"
  by (induction w) auto

lemma no_space_split:
  assumes "no_space w"
  shows "dropWhile (\<lambda>c. c = CHR '' '') (w @ r) = w @ r"
    and "takeWhile (\<lambda>c. c \<noteq> CHR '' '') (w @ CHR '' '' # r) = w"
    and "dropWhile (\<lambda>c. c \<noteq> CHR '' '') (w @ CHR '' '' # r) = CHR '' '' # r"
    and "dropWhile (\<lambda>c. c \<noteq> CHR '' '') w = []"
proof -
  have ns: "\<And>c. c \<in> set w \<Longrightarrow> c \<noteq> CHR '' ''" using assms by (auto simp: no_space_def)
  show "dropWhile (\<lambda>c. c = CHR '' '') (w @ r) = w @ r"
    using assms ns by (cases w) (auto simp: no_space_def)
  show "takeWhile (\<lambda>c. c \<noteq> CHR '' '') (w @ CHR '' '' # r) = w"
    using ns takeWhile_append2 [of w "\<lambda>c. c \<noteq> CHR '' ''" "CHR '' '' # r"] by simp
  show "dropWhile (\<lambda>c. c \<noteq> CHR '' '') (w @ CHR '' '' # r) = CHR '' '' # r"
    using ns dropWhile_append2 [of w "\<lambda>c. c \<noteq> CHR '' ''" "CHR '' '' # r"] by simp
  show "dropWhile (\<lambda>c. c \<noteq> CHR '' '') w = []"
    using ns by (simp add: dropWhile_eq_Nil_conv)
qed

lemma strtok_word:
  assumes "no_space w"
  shows "strtok (w @ CHR '' '' # r) = Some (w, r)"
  using assms by (simp add: strtok_def no_space_split)

lemma strtok_last:
  assumes "no_space w"
  shows "strtok w = Some (w, [])"
proof -
  have "dropWhile (\<lambda>c. c = CHR '' '') w = w" using no_space_split(1) [OF assms, of "[]"] by simp
  moreover have "w \<noteq> []" "takeWhile (\<lambda>c. c \<noteq> CHR '' '') w = w"
    using assms takeWhile_nonspace by (auto simp: no_space_def)
  ultimately show ?thesis using assms by (simp add: strtok_def no_space_split)
qed

lemma strtok_Nil [simp]: "strtok [] = None"
  by (simp add: strtok_def)

lemma split_tokens_word: "no_space w \<Longrightarrow> split_tokens (w @ CHR '' '' # r) = w # split_tokens r"
  by (simp add: split_tokens.simps [of "w @ _"] strtok_word)

lemma split_tokens_last: "no_space w \<Longrightarrow> split_tokens w = [w]"
  by (simp add: split_tokens.simps [of w] strtok_last split_tokens.simps [of "[]"])

section \<open>Numbers\<close>

lemma is_digit_no_space: "is_digit c \<Longrightarrow> \<not> isspace c \<and> c \<noteq> CHR ''-'' \<and> c \<noteq> CHR ''+'' \<and> c \<noteq> CHR '' ''"
  by (auto simp: is_digit_def isspace_def)

lemma show_nat_no_space: "no_space (show_nat n)"
  using show_nat_digits [of _ n] is_digit_no_space by (auto simp: no_space_def)

lemma show_int_no_space: "no_space (show_int i)"
  using show_nat_no_space by (auto simp: show_int_def no_space_def)

lemma takeWhile_digits: "takeWhile is_digit (show_nat n @ [CHR 0x0A]) = show_nat n"
  "takeWhile is_digit (show_nat n) = show_nat n"
proof -
  have "\<forall>c \<in> set (show_nat n). is_digit c" using show_nat_digits by blast
  moreover have "\<not> is_digit (CHR 0x0A)" by (simp add: is_digit_def)
  ultimately show "takeWhile is_digit (show_nat n @ [CHR 0x0A]) = show_nat n"
    "takeWhile is_digit (show_nat n) = show_nat n"
    by (simp_all add: takeWhile_append takeWhile_eq_all_conv)
qed

lemma atoi_show_int:
  assumes "- (2 ^ 63) \<le> i" and "i < 2 ^ 63" and "r = [] \<or> r = [CHR 0x0A]"
  shows "atoi (show_int i @ r) = word_of_int i"
proof -
  have hd: "is_digit (hd (show_nat n))" for n
    using show_nat_digits [of "hd (show_nat n)" n] by simp
  have nsp: "\<not> isspace (hd (show_nat n @ r))" "hd (show_nat n @ r) \<noteq> CHR ''-''"
    "hd (show_nat n @ r) \<noteq> CHR ''+''" for n
    using is_digit_no_space [OF hd [of n]] by auto
  have dw: "dropWhile isspace (show_nat n @ r) = show_nat n @ r" for n
    using nsp(1) [of n] by (cases "show_nat n") auto
  have ns: "\<not> isspace (CHR ''-'')" by (simp add: isspace_def)
  have tw: "takeWhile is_digit (show_nat n @ r) = show_nat n" for n
    using assms(3) takeWhile_digits by auto
  show ?thesis
    using assms(1,2) nsp dw ns tw
    by (cases "i < 0") (simp_all add: atoi_def show_int_def Let_def)
qed

lemma command_of_bytes: "command_of (command_bytes c @ r) = c"
  by (simp add: command_of_def command_bytes_def)

lemma length_command_bytes [simp]: "length (command_bytes c) = 12"
  by (simp add: command_bytes_def)

end
