(* ===== verification/Wire_Properties.thy ===== *)
theory Wire_Properties
  imports Protocol CLI
begin

text \<open>
  The properties of the packets of \<open>protocol.c\<close> and of the command line: what is built arrives, what
  is typed is parsed, and what happens when it cannot be.
\<close>

section \<open>A concrete command line\<close>

definition cmd0 :: command_t where
  "cmd0 = \<lparr>ctype = 0, socket = 0, productor = 0\<rparr>"

definition cli0 :: cli where
  "cli0 = \<lparr>ntime = 0, nio = 0, nrand = 0, actions = [], stdin_left = ''quit'' @ [CHR 0x0A], fifo_fds = []\<rparr>"

section \<open>Packets\<close>

text \<open>C31. A packet built from a payload that fits travels as 112 bytes; read back it is the same packet, it
  passes the digest check, and it carries its type and its payload.\<close>

theorem packet_travels:
  assumes "clk E (ntime s) \<noteq> -1" and "md5_ok E" and "length pl \<le> PAYLOAD_SIZE"
  shows "\<exists>p t. gen_packet E ty pl (length pl) s = Inr ((0, p), t) \<and> length (packet_bytes p) = 112 \<and>
    packet_of (packet_bytes p) = p \<and> check_packet_MD5 E (packet_of (packet_bytes p)) = 1 \<and>
    p_mtype p = ty \<and> p_timestamp p = clk E (ntime s) \<and> take (length pl) (p_payload p) = pl"
  using gen_packet_ok [OF assms(1,3), of ty] sealed_wf [OF assms(2,3)]
  by (simp add: packet_of_bytes length_packet_bytes take_pad_to)

theorem packet_travels_witness:
  "\<exists>p t. gen_packet env0 M_TYPE_AUTH [1, 2] (length [1, 2 :: byte]) proc0 = Inr ((0, p), t) \<and>
    packet_of (packet_bytes p) = p \<and> p_timestamp p = 100 \<and> take (length [1, 2 :: byte]) (p_payload p) = [1, 2]"
  using packet_travels [of env0 proc0 "[1, 2]" M_TYPE_AUTH] by auto

text \<open>A payload that is too long is refused with -1 and a message; the packet is left with its type and
  time, an empty payload and no digest.\<close>

theorem oversized_payload_refused:
  assumes "clk E (ntime s) \<noteq> -1" and "PAYLOAD_SIZE < n"
  shows "\<exists>p t. gen_packet E ty pl n s = Inr ((-1, p), t) \<and> p_mtype p = ty \<and>
    p_payload p = zeros PAYLOAD_SIZE \<and> p_hash p = zeros MD5_DIGEST_LENGTH \<and>
    actions t = actions s @ [Stderr ''No se permiten payloads mayores a 84 bytes'']"
  using assms by (simp add: gen_packet_run time_retry_clock_ok sys_time_def)

theorem oversized_payload_refused_witness:
  "\<exists>p t. gen_packet env0 M_TYPE_DATA (replicate 85 65) 85 proc0 = Inr ((-1, p), t) \<and>
    p_payload p = zeros PAYLOAD_SIZE"
  using oversized_payload_refused [of env0 proc0 85 M_TYPE_DATA "replicate 85 65"] by auto

text \<open>While the clock fails \<open>gen_packet\<close> asks again, complaining once per failure; it returns as soon as
  one reading succeeds, and stamps the packet with that reading.\<close>

theorem gen_packet_waits_for_clock:
  assumes "clk E (ntime s + k) \<noteq> -1" and "\<forall>j<k. clk E (ntime s + j) = -1"
    and "length pl \<le> PAYLOAD_SIZE"
  shows "\<exists>p t. gen_packet E ty pl (length pl) s = Inr ((0, p), t) \<and>
    p_timestamp p = clk E (ntime s + k) \<and>
    actions t = actions s @ replicate k (Perror ''time '')"
  using time_retry_eventually [OF assms(1,2)] assms(3) by (simp add: gen_packet_run)

text \<open>\<open>get_file_MD5\<close> gives the digest of the contents however \<open>read\<close> splits them; when a \<open>read\<close> fails
  it returns -1 and stores nothing.\<close>

theorem file_digest_ignores_chunking:
  assumes "[] \<notin> set blocks"
  shows "get_file_MD5 E (map R_ok blocks @ R_ok [] # rest) s = Inr ((0, Some (md5 E (concat blocks))), s) \<and>
    (\<exists>t. get_file_MD5 E (map R_ok blocks @ R_err err # rest) s = Inr ((-1, None), t))"
  by (simp add: get_file_MD5_def md5_file_loop_chunks [OF assms] md5_file_loop_error [OF assms])

theorem file_digest_ignores_chunking_witness:
  "get_file_MD5 env0 [R_ok [1, 2], R_ok [3], R_ok []] proc0 = Inr ((0, Some (md5 env0 [1, 2, 3])), proc0)"
  using file_digest_ignores_chunking [of "[[1, 2], [3]]" env0 "[]" proc0] by simp

text \<open>The hexadecimal dump of a packet determines its bytes.\<close>

theorem dump_is_faithful:
  "\<exists>out. dump_packet p s = Inr ((), s\<lparr>actions := actions s @ [Stdout out]\<rparr>) \<and>
    parse_hex out = packet_bytes p"
  unfolding dump_packet_def emit_def modify_apply
  by (rule exI [of _ "concat (map hex_byte (packet_bytes p)) @ [CHR 0x0A]"]) (simp only: parse_hex_dump)

section \<open>The command line\<close>

text \<open>\<open>parse_command\<close> accepts exactly \<open>add\<close> and \<open>delete\<close> with two arguments and \<open>log\<close> with one, and
  does not touch the structure otherwise.\<close>

theorem parse_command_accepts_iff:
  "(fst (parse_command s c) = 0 \<longleftrightarrow>
     (\<exists>a b. split_tokens s = [''add'', a, b] \<or> split_tokens s = [''delete'', a, b] \<or>
        split_tokens s = [''log'', a])) \<and>
   (fst (parse_command s c) \<noteq> 0 \<longrightarrow> parse_command s c = (-1, c))"
  unfolding parse_command_tokens by (auto split: list.splits)

theorem parse_command_accepts_iff_witness: "parse_command ''add 1'' cmd0 = (-1, cmd0)"
proof -
  have "split_tokens ''add 1'' = [''add'', ''1'']" by code_simp
  then show ?thesis using parse_command_accepts_iff [of "''add 1''" cmd0] by simp
qed

text \<open>A bad line leaves the descriptor opened for it open, so every mistake leaks one; a good line writes
  the command and closes it.\<close>

theorem bad_line_leaks_descriptor:
  assumes fd: "fd \<noteq> -1" and line: "stdin_left s = line @ CHR 0x0A # rest"
    and plain: "CHR 0x0A \<notin> set line" "CHR 0x00 \<notin> set line" "length line < 79"
  shows "\<exists>t. cli_iteration E fd junk s = Inr ((), t) \<and> stdin_left t = rest \<and>
    (if fst (parse_command (line @ [CHR 0x0A]) junk) = -1
     then fifo_fds t = fd # fifo_fds s \<and> writes (actions t) = writes (actions s)
     else fifo_fds t = fifo_fds s \<and> writes (actions t) = writes (actions s) @
       [(fd, command_bytes (snd (parse_command (line @ [CHR 0x0A]) junk)))])"
proof -
  have tw: "takeWhile (\<lambda>c. c \<noteq> CHR 0x0A) (line @ CHR 0x0A # rest) = line"
    using plain(1) by (subst takeWhile_append2) auto
  have f: "fgets 80 (line @ CHR 0x0A # rest) = (Some (line @ [CHR 0x0A]), rest)"
    using plain(3) by (simp add: fgets_def tw Let_def)
  have z: "takeWhile (\<lambda>c. c \<noteq> CHR 0x00) (line @ [CHR 0x0A]) = line @ [CHR 0x0A]"
    using plain(2) by (auto simp: takeWhile_eq_all_conv)
  obtain code cmd where p: "parse_command (line @ [CHR 0x0A]) junk = (code, cmd)" by fastforce
  show ?thesis
    using fd by (auto simp: cli_iteration_def when_do_def seq_def bnd_def f line z p emit_def attempt_def)
qed

theorem bad_line_leaks_descriptor_witness:
  "\<exists>t. cli_iteration env0 5 cmd0 cli0 = Inr ((), t) \<and> fifo_fds t = [5] \<and> writes (actions t) = []"
proof -
  have p: "fst (parse_command (''quit'' @ [CHR 0x0A]) cmd0) = -1" by code_simp
  have l: "stdin_left cli0 = ''quit'' @ CHR 0x0A # []" by (simp add: cli0_def)
  from bad_line_leaks_descriptor [OF _ l, of 5 env0 cmd0] p show ?thesis by (auto simp: cli0_def)
qed

end
