(* ===== verification/Mq_Util.thy ===== *)
theory Mq_Util
  imports Protocol
begin

text \<open>
  \<open>common/include/mq_util.h\<close> and \<open>common/src/mq_util.c\<close>: the message the producers put into the POSIX
  queue, joining the queue, and the signal handler that leaves it. \<open>data\<close> is a union of a \<open>float\<close>, a
  40-byte array and an \<open>unsigned int\<close>, so it is kept as its 40 bytes.
\<close>

abbreviation (input) RANDOM_MSG_LEN :: nat where "RANDOM_MSG_LEN \<equiv> 40"

record msg_producer_t =
  mp_id :: c_int
  mp_timestamp :: time_t
  mp_data :: "byte list"

definition msg_wf :: "msg_producer_t \<Rightarrow> bool" where
  "msg_wf m \<longleftrightarrow> length (mp_data m) = RANDOM_MSG_LEN"

text \<open>Reading a member of the union: its first bytes. Storing one: the bytes after it stay.\<close>

definition free_mem :: "msg_producer_t \<Rightarrow> c_int" where
  "free_mem m = rd32 (mp_data m)"

definition sysload :: "msg_producer_t \<Rightarrow> 32 word" where
  "sysload m = rd32 (mp_data m)"

definition random_msg :: "msg_producer_t \<Rightarrow> byte list" where
  "random_msg m = mp_data m"

definition set_union :: "byte list \<Rightarrow> msg_producer_t \<Rightarrow> msg_producer_t" where
  "set_union bs m = m\<lparr>mp_data := overlay bs (mp_data m)\<rparr>"

text \<open>The message after \<open>memset(&msg, '\\0', sizeof(msg))\<close>.\<close>

definition msg_zero :: msg_producer_t where
  "msg_zero = \<lparr>mp_id = 0, mp_timestamp = 0, mp_data = zeros RANDOM_MSG_LEN\<rparr>"

lemma free_mem_set [simp]: "msg_wf m \<Longrightarrow> free_mem (set_union (le32 w) m) = w"
  by (simp add: free_mem_def set_union_def overlay_def msg_wf_def)

lemma sysload_set [simp]: "msg_wf m \<Longrightarrow> sysload (set_union (le32 w) m) = w"
  by (simp add: sysload_def set_union_def overlay_def msg_wf_def)

lemma random_msg_set [simp]:
  "msg_wf m \<Longrightarrow> length bs = RANDOM_MSG_LEN \<Longrightarrow> random_msg (set_union bs m) = bs"
  by (simp add: random_msg_def set_union_def overlay_def msg_wf_def)

lemma msg_wf_set [simp]: "msg_wf (set_union bs m) = msg_wf m"
  by (simp add: msg_wf_def set_union_def)

lemma msg_wf_zero [simp]: "msg_wf msg_zero"
  by (simp add: msg_wf_def msg_zero_def)

text \<open>The structure in memory, which is what the queue carries: four bytes of padding after \<open>id\<close>.\<close>

definition msg_bytes :: "msg_producer_t \<Rightarrow> byte list" where
  "msg_bytes m = le32 (mp_id m) @ zeros 4 @ le64 (mp_timestamp m) @ mp_data m"

definition msg_of :: "byte list \<Rightarrow> msg_producer_t" where
  "msg_of bs = \<lparr>mp_id = rd32 bs, mp_timestamp = rd64 (drop 8 bs), mp_data = take 40 (drop 16 bs)\<rparr>"

lemma msg_of_bytes: "msg_wf m \<Longrightarrow> msg_of (msg_bytes m) = m"
  by (simp add: msg_wf_def msg_of_def msg_bytes_def)

lemma length_msg_bytes: "msg_wf m \<Longrightarrow> length (msg_bytes m) = 56"
  by (simp add: msg_wf_def msg_bytes_def)

section \<open>mq_util.c\<close>

text \<open>
  \<open>join_existing_mq\<close> retries until \<open>mq_open\<close> gives a descriptor: \<open>opens k\<close> is the result of the k-th
  attempt. A negative result other than -1 would end the loop, as in the code.
\<close>

definition join_existing_mq :: "(nat \<Rightarrow> int) \<Rightarrow> ('z proc_scheme, int) comp" where
  "join_existing_mq opens = (\<lambda>s.
     case while_option (\<lambda>(k, s). opens k = -1)
            (\<lambda>(k, s). (Suc k, s\<lparr>actions := actions s @ [Perror ''mq_open: '']\<rparr>)) (0, s) of
       None \<Rightarrow> Inl Diverges
     | Some (k, t) \<Rightarrow>
         seq (when_do (opens k < 0) (emit (Perror ''mq_open: '')))
         (seq (emit (Stdout (''[PUBLISHER]: Queue opened, queue descriptor: '' @
                             show_int (opens k) @ [CHR 0x0A])))
         (ret (opens k))) t)"

text \<open>\<open>write(STDOUT_FILENO, notif, sizeof(notif))\<close> writes the terminating NUL as well.\<close>

definition handle_SIGTERM :: "env \<Rightarrow> int \<Rightarrow> ('z proc_scheme, unit) comp" where
  "handle_SIGTERM E mq =
     bnd (attempt E (Write 1 (bytes_of ''Cerrando mqueue'' @ [10, 0]))) (\<lambda>_.
     attempt_perror E (Close mq) ''mq_close: '')"

lemma join_existing_mq_loop:
  assumes "opens (j + k) \<noteq> -1" and "\<forall>i<k. opens (j + i) = -1"
  shows "while_option (\<lambda>(k, s). opens k = -1)
      (\<lambda>(k, s). (Suc k, s\<lparr>actions := actions s @ [Perror ''mq_open: '']\<rparr>)) (j, s) =
    Some (j + k, s\<lparr>actions := actions s @ replicate k (Perror ''mq_open: '')\<rparr>)"
  using assms
proof (induction k arbitrary: j s)
  case 0
  then show ?case by (simp add: while_option_unfold)
next
  case (Suc k)
  have first: "opens j = -1" using Suc.prems(2) by force
  have "while_option (\<lambda>(k, s). opens k = -1)
      (\<lambda>(k, s). (Suc k, s\<lparr>actions := actions s @ [Perror ''mq_open: '']\<rparr>))
      (Suc j, s\<lparr>actions := actions s @ [Perror ''mq_open: '']\<rparr>) =
    Some (Suc j + k, s\<lparr>actions := actions s @ [Perror ''mq_open: '']\<rparr>
      \<lparr>actions := actions (s\<lparr>actions := actions s @ [Perror ''mq_open: '']\<rparr>) @
        replicate k (Perror ''mq_open: '')\<rparr>)"
    using Suc.prems by (intro Suc.IH) auto
  with first show ?case by (simp add: while_option_unfold [of _ _ "(j, s)"])
qed

end
