(* ===== verification/Format.thy ===== *)
theory Format
  imports Prelude
begin

text \<open>
  \<open>printf\<close>'s \<open>%f\<close> for a \<open>float\<close>: the exact binary value, rounded to six decimals, ties to even, as
  the C library prints it; infinities and NaNs by name. The server formats the load average so.
\<close>

definition f_sign :: "32 word \<Rightarrow> nat" where
  "f_sign w = unat w div 2 ^ 31"

definition f_exp :: "32 word \<Rightarrow> nat" where
  "f_exp w = unat w div 2 ^ 23 mod 256"

definition f_frac :: "32 word \<Rightarrow> nat" where
  "f_frac w = unat w mod 2 ^ 23"

text \<open>\<open>n\<close> divided by \<open>2 ^ k\<close>, rounded to the nearest integer, ties to even.\<close>

definition round_shift :: "nat \<Rightarrow> nat \<Rightarrow> nat" where
  "round_shift n k = (let q = n div 2 ^ k; r = 2 * (n mod 2 ^ k) in
     if r < 2 ^ k \<or> (r = 2 ^ k \<and> even q) then q else Suc q)"

text \<open>The absolute value in millionths: mantissa times \<open>2 ^ (e - 150)\<close>, where 150 is the bias plus 23.\<close>

definition f_millionths :: "32 word \<Rightarrow> nat" where
  "f_millionths w = (let e = f_exp w; m = (if e = 0 then f_frac w else f_frac w + 2 ^ 23);
       e' = (if e = 0 then 1 else e)
     in if 150 \<le> e' then m * 10 ^ 6 * 2 ^ (e' - 150) else round_shift (m * 10 ^ 6) (150 - e'))"

definition pad6 :: "nat \<Rightarrow> string" where
  "pad6 n = map (\<lambda>k. digit (n div 10 ^ k mod 10)) [5, 4, 3, 2, 1, 0]"

definition fmt_float :: "32 word \<Rightarrow> string" where
  "fmt_float w = (if f_sign w = 1 then ''-'' else []) @
     (if f_exp w = 255 then (if f_frac w = 0 then ''inf'' else ''nan'')
      else show_nat (f_millionths w div 10 ^ 6) @ ''.'' @ pad6 (f_millionths w mod 10 ^ 6))"

lemma length_pad6 [simp]: "length (pad6 n) = 6"
  by (simp add: pad6_def)

lemma round_shift_le: "round_shift n k \<le> Suc (n div 2 ^ k)"
  by (simp add: round_shift_def Let_def)

lemma f_millionths_bound: "f_exp w < 255 \<Longrightarrow> f_millionths w < 10 ^ 45"
proof -
  assume e: "f_exp w < 255"
  let ?m = "if f_exp w = 0 then f_frac w else f_frac w + 2 ^ 23"
  have "f_frac w < 2 ^ 23" by (simp add: f_frac_def)
  then have m: "?m < 2 ^ 24" by auto
  let ?e = "if f_exp w = 0 then 1 else f_exp w"
  show ?thesis
  proof (cases "150 \<le> ?e")
    case True
    then have ne: "f_exp w \<noteq> 0" by (auto split: if_splits)
    have "(2::nat) ^ (f_exp w - 150) \<le> 2 ^ 104"
      using e by (intro power_increasing) auto
    moreover have "(f_frac w + 2 ^ 23) * 10 ^ 6 \<le> 2 ^ 24 * 10 ^ 6" using m ne by simp
    ultimately have "(f_frac w + 2 ^ 23) * 10 ^ 6 * 2 ^ (f_exp w - 150) \<le> 2 ^ 24 * 10 ^ 6 * 2 ^ 104"
      by (intro mult_mono) auto
    also have "\<dots> < (10::nat) ^ 45" by simp
    finally show ?thesis using True ne by (simp add: f_millionths_def Let_def)
  next
    case False
    have "?m * 10 ^ 6 div 2 ^ (150 - ?e) \<le> ?m * 10 ^ 6" by simp
    also have "\<dots> < 2 ^ 24 * 10 ^ 6" using m by simp
    finally have "round_shift (?m * 10 ^ 6) (150 - ?e) \<le> 2 ^ 24 * 10 ^ 6"
      using round_shift_le [of "?m * 10 ^ 6" "150 - ?e"] by linarith
    then show ?thesis using False by (simp add: f_millionths_def Let_def split: if_splits)
  qed
qed

text \<open>At most a sign, 39 digits, the point and 6 digits.\<close>

lemma length_fmt_float: "length (fmt_float w) \<le> 47"
proof (cases "f_exp w = 255")
  case True
  then show ?thesis by (simp add: fmt_float_def)
next
  case False
  have "f_exp w < 256" by (simp add: f_exp_def)
  with False have "f_exp w < 255" by simp
  then have "f_millionths w div 10 ^ 6 < 10 ^ 39"
    using f_millionths_bound [of w] by (simp add: less_mult_imp_div_less)
  then have "length (show_nat (f_millionths w div 10 ^ 6)) \<le> 39"
    by (rule length_show_nat) simp
  then show ?thesis using False by (simp add: fmt_float_def)
qed

end
