(* ===== verification/Server.thy ===== *)
theory Server
  imports Server_Util Mq_Util CLI Format
begin

text \<open>
  \<open>server/src/srv.c\<close>: the delivery manager. Each branch of the event loop is a computation over the
  server's state, one iteration of the loop is their composition, and \<open>srv_setup\<close> is the part of
  \<open>main\<close> before the loop. What \<open>epoll_wait\<close>, \<open>accept\<close>, \<open>read\<close> and \<open>mq_receive\<close> answer is the input of an
  iteration. A \<open>read\<close> into a local structure overwrites as many bytes as it got; the others keep the
  indeterminate contents (\<open>junk\<close>) of the stack.
\<close>

section \<open>Clients\<close>

definition msg_aceptado :: "int \<Rightarrow> c_int \<Rightarrow> string" where
  "msg_aceptado fd tok = dm @ ''Cliente aceptado, socket: '' @ show_int fd @ '', token = '' @
     show_c_int tok @ nl"

text \<open>The branch \<open>sockfd == listenfd\<close>; \<open>connfd\<close> is what \<open>accept\<close> returned.\<close>

definition new_connection :: "env \<Rightarrow> int \<Rightarrow> ('z srv_scheme, unit) comp" where
  "new_connection E connfd =
     seq (when_do (connfd = -1) (emit (Perror (dm @ ''accept: ''))))
     (bnd (gets epollfd) (\<lambda>epfd.
     seq (add_fd E epfd connfd)
     (bnd (sys_rand E) (\<lambda>tok.
     bnd (gen_packet E M_TYPE_CONN_ACCEPTED (le32 tok) 4) (\<lambda>(_, packet).
     seq (attempt_perror E (Write connfd (packet_bytes packet)) ''write CLI_CONNECTED: '')
     (seq (log_line E Log_clientes (msg_aceptado connfd tok))
     (bnd (sys_time E) (\<lambda>now.
     modify (\<lambda>s. s\<lparr>connections := l_add_last
       \<lparr>timestamp = now, susc_counter = 0, sockfd = connfd, token = tok\<rparr> (connections s)\<rparr>)))))))))"

text \<open>The branch \<open>EPOLLHUP\<close>.\<close>

definition hang_up :: "env \<Rightarrow> int \<Rightarrow> ('z srv_scheme, unit) comp" where
  "hang_up E fd =
     bnd (gets epollfd) (\<lambda>epfd.
     bnd (attempt E (Epoll_del epfd fd)) (\<lambda>_.
     bnd (gets (\<lambda>s. find_by_socket fd (connections s))) (\<lambda>conn.
     case conn of None \<Rightarrow> skip
     | Some c \<Rightarrow> log_line E Log_clientes (dm @ ''Se desconecto un cliente, socket: '' @
         show_int (sockfd c) @ '' y token: '' @ show_c_int (token c) @ nl))))"

definition upd_conn :: "nat \<Rightarrow> (connection_t \<Rightarrow> connection_t) \<Rightarrow> ('z srv_scheme, unit) comp" where
  "upd_conn i f = modify (\<lambda>s. s\<lparr>connections := (connections s)[i := f (connections s ! i)]\<rparr>)"

text \<open>
  An ACK. For an unknown token \<open>list_get\<close> gives \<open>NULL\<close>, and \<open>&(connection->timestamp)\<close> is then the null
  pointer itself, \<open>timestamp\<close> being the first member: the call is \<open>time(NULL)\<close> and stores nothing.
\<close>

definition handle_ack :: "env \<Rightarrow> packet_t \<Rightarrow> ('z srv_scheme, unit) comp" where
  "handle_ack E packet =
     bnd (gets connections) (\<lambda>conns.
     let index = find_token (payload_int packet) conns in
     bnd (sys_time E) (\<lambda>now.
     case l_get index conns of None \<Rightarrow> skip
     | Some _ \<Rightarrow> upd_conn (nat index) (\<lambda>c. c\<lparr>timestamp := now\<rparr>)))"

text \<open>Moving the subscriptions of a session to its new descriptor: the first entry of each room.\<close>

definition move_fd :: "int \<Rightarrow> int \<Rightarrow> nat \<Rightarrow> ('z srv_scheme, unit) comp" where
  "move_fd old_fd fd i =
     bnd (gets (\<lambda>s. susc_room s i)) (\<lambda>room.
     let index_susc = find_fd old_fd room in
     if index_susc = -1 then skip else set_room i (room[nat index_susc := fd]))"

definition move_fds :: "int \<Rightarrow> int \<Rightarrow> ('z srv_scheme, unit) comp" where
  "move_fds old_fd fd = for_each (move_fd old_fd fd) [0, 1, 2]"

text \<open>The loop over the buffer; it reads the clock once per packet and ignores the reading.\<close>

fun resend_loop :: "env \<Rightarrow> int \<Rightarrow> time_t \<Rightarrow> packet_t list \<Rightarrow> ('z proc_scheme, unit) comp" where
  "resend_loop E fd since [] = skip"
| "resend_loop E fd since (packet_to_resend # iter) =
     bnd (sys_time E) (\<lambda>_.
     if sint since > sint (p_timestamp packet_to_resend) then resend_loop E fd since iter
     else seq (attempt_perror E (Send fd (packet_bytes packet_to_resend))
                (''send reenv'' @ i_acute @ ''o ''))
       (resend_loop E fd since iter))"

definition msg_fallo :: string where
  "msg_fallo = dm @ ''Fallo en la autenticaci'' @ o_acute @ ''n'' @ nl"

text \<open>
  An AUTH: the payload is the token of the session to resume, then the token of the session the
  client just got. The new session is deleted first, then the old one is looked up.
\<close>

definition handle_auth :: "env \<Rightarrow> int \<Rightarrow> packet_t \<Rightarrow> ('z srv_scheme, unit) comp" where
  "handle_auth E fd packet =
     (let token_old = payload_int packet; token_new = payload_int2 packet in
     bnd (gets (\<lambda>s. find_token token_new (connections s))) (\<lambda>index.
     if index = -1 then
       seq (log_line E Log_clientes (''list_find conexion con token nuevo'' @ nl))
       (seq (log_line E Log_clientes msg_fallo)
       (send_fin E fd))
     else seq (modify (\<lambda>s. s\<lparr>connections := l_delete index (connections s)\<rparr>))
     (bnd (gets connections) (\<lambda>conns.
     let index = find_token token_old conns in
     case l_get index conns of
       None \<Rightarrow>
         seq (log_line E Log_clientes msg_fallo)
         (seq (log_line E Log_clientes (''list_find conexion con token viejo'' @ nl))
         (send_fin E fd))
     | Some orig_conn \<Rightarrow>
         seq (move_fds (sockfd orig_conn) fd)
         (seq (attempt_perror E (Close (sockfd orig_conn)) ''close conexion vieja: '')
         (seq (upd_conn (nat index) (\<lambda>c. c\<lparr>sockfd := fd\<rparr>))
         (bnd (gets buffer_packets) (\<lambda>packets.
         seq (resend_loop E fd (timestamp orig_conn) packets)
         (log_line E Log_clientes (dm @ ''Cliente reconectado con socket: '' @ show_int fd @
            '' y token: '' @ show_c_int (token orig_conn) @ nl))))))))))"

text \<open>The branch \<open>EPOLLIN\<close>: \<open>rd\<close> is the result of \<open>read\<close>, of which only -1 is tested.\<close>

definition receive_packet ::
  "env \<Rightarrow> int \<Rightarrow> read_res \<Rightarrow> byte list \<Rightarrow> ('z srv_scheme, unit) comp" where
  "receive_packet E fd rd junk =
     (case rd of
        R_err err \<Rightarrow> emit (Perror ''read: '')
      | R_ok bs \<Rightarrow>
          let packet = packet_of (overlay bs junk) in
          if check_packet_MD5 E packet = 0 then skip
          else if p_mtype packet = M_TYPE_ACK then handle_ack E packet
          else if p_mtype packet = M_TYPE_AUTH then handle_auth E fd packet
          else skip)"

record client_event =
  ev_fd :: int
  ev_hup :: bool
  ev_in :: bool
  ev_accept :: int
  ev_read :: read_res
  ev_junk :: "byte list"

definition handle_client_event :: "env \<Rightarrow> client_event \<Rightarrow> ('z srv_scheme, unit) comp" where
  "handle_client_event E ev =
     bnd (gets listenfd) (\<lambda>lfd.
     if ev_fd ev = lfd then new_connection E (ev_accept ev)
     else if ev_hup ev then hang_up E (ev_fd ev)
     else if ev_in ev then receive_packet E (ev_fd ev) (ev_read ev) (ev_junk ev)
     else skip)"

section \<open>Commands\<close>

definition bad_productor :: "c_int \<Rightarrow> bool" where
  "bad_productor p \<longleftrightarrow> sint p > int NO_PRODUCTORES - 1 \<or> sint p < 0"

definition msg_invalido :: string where
  "msg_invalido = ''Comando inv'' @ a_acute @ ''lido'' @ nl"

text \<open>\<open>conn\<close> is the connection at index \<open>ix\<close>; the result says whether the code reached the update of
  the timestamp, which a \<open>continue\<close> skips.\<close>

definition cmd_add ::
  "env \<Rightarrow> command_t \<Rightarrow> nat \<Rightarrow> connection_t \<Rightarrow> ('z srv_scheme, bool) comp" where
  "cmd_add E command ix conn =
     (let i = nat (sint (productor command)) in
     bnd (gets (\<lambda>s. susc_room s i)) (\<lambda>room.
     if bad_productor (productor command) \<or> find_fd (sockfd conn) room \<noteq> -1 then
       seq (emit (Stdout msg_invalido)) (ret False)
     else
       seq (set_room i (l_add_last (sockfd conn) room))
       (seq (upd_conn ix (\<lambda>c. c\<lparr>susc_counter := susc_counter c + 1\<rparr>))
       (bnd (gen_packet E M_TYPE_CLI_ACCEPTED [] 0) (\<lambda>(_, packet).
       seq (attempt_perror E (Send (sockfd conn) (packet_bytes packet)) ''write CMD_ADD: '')
       (seq (log_line E Log_clientes (dm @ ''Agregado cliente con socket: '' @
          show_int (sockfd conn) @ '' y token: '' @ show_c_int (token conn) @
          '' a lista del productor '' @ show_c_int (productor command) @ nl))
       (ret True)))))))"

definition cmd_del ::
  "env \<Rightarrow> command_t \<Rightarrow> nat \<Rightarrow> connection_t \<Rightarrow> ('z srv_scheme, bool) comp" where
  "cmd_del E command ix conn =
     (let i = nat (sint (productor command)) in
     bnd (gets (\<lambda>s. susc_room s i)) (\<lambda>room.
     if bad_productor (productor command) \<or> find_fd (sockfd conn) room = -1 then
       seq (emit (Stdout msg_invalido)) (ret False)
     else
       let index = find_fd (sockfd conn) room in
       if index = -1 then
         seq (emit (Stderr (''Error al eliminar socket '' @ show_c_int (socket command) @
           '' de lista '' @ show_c_int (productor command) @ nl))) (ret False)
       else
       seq (set_room i (l_delete index room))
       (seq (upd_conn ix (\<lambda>c. c\<lparr>susc_counter := susc_counter c - 1\<rparr>))
       (seq (log_line E Log_clientes (dm @ ''Eliminado cliente con socket: '' @
          show_int (sockfd conn) @ '' y token: '' @ show_c_int (token conn) @
          '' de la lista del productor '' @ show_c_int (productor command) @ nl))
       (ret True)))))"

definition cmd_log :: "env \<Rightarrow> connection_t \<Rightarrow> ('z srv_scheme, bool) comp" where
  "cmd_log E conn =
     bnd (gets (\<lambda>s. find_by_socket (sockfd conn) (connections s))) (\<lambda>c.
     if c = None then ret False
     else seq (emit (Thread_log_request (sockfd conn))) (ret True))"

definition do_command :: "env \<Rightarrow> command_t \<Rightarrow> ('z srv_scheme, unit) comp" where
  "do_command E command =
     bnd (gets connections) (\<lambda>conns.
     let target_ind = find_token (socket command) conns in
     case l_get target_ind conns of
       None \<Rightarrow> skip
     | Some conn \<Rightarrow>
         bnd (if ctype command = CMD_ADD then cmd_add E command (nat target_ind) conn
              else if ctype command = CMD_DEL then cmd_del E command (nat target_ind) conn
              else if ctype command = CMD_LOG then cmd_log E conn
              else ret True)
         (\<lambda>reached. when_do reached
            (bnd (sys_time E) (\<lambda>now.
             upd_conn (nat target_ind) (\<lambda>c. c\<lparr>timestamp := now\<rparr>)))))"

record cli_event =
  cev_in :: bool
  cev_read :: read_res
  cev_junk :: "byte list"

definition handle_cli_event :: "env \<Rightarrow> cli_event \<Rightarrow> ('z srv_scheme, unit) comp" where
  "handle_cli_event E ev =
     (if cev_in ev then
        (case cev_read ev of
           R_err err \<Rightarrow> if err = EAGAIN then skip else emit (Perror ''read CLI: '')
         | R_ok bs \<Rightarrow> do_command E (command_of (overlay bs (cev_junk ev))))
      else skip)"

section \<open>Producers\<close>

text \<open>
  The text \<open>sprintf\<close> stores in \<open>buffer_productores\<close>: \<open>%s\<close> of the 40-byte member reads past the message
  when there is no NUL in it. An unknown identifier leaves the zeroed buffer.
\<close>

definition msg_text :: "msg_producer_t \<Rightarrow> fault + byte list" where
  "msg_text m =
     (if mp_id m = 0 then
        Inr (bytes_of (''Memoria disponible del sistema: '' @ show_nat (unat (free_mem m)) @ '' kB''))
      else if mp_id m = 1 then
        (case c_str (random_msg m) of None \<Rightarrow> Inl Out_of_bounds | Some s \<Rightarrow> Inr s)
      else if mp_id m = 2 then
        Inr (bytes_of (''Carga del sistema normalizada: '' @ fmt_float (sysload m)))
      else Inr [])"

text \<open>The timestamp of the producer replaces the one \<open>gen_packet\<close> hashed.\<close>

definition handle_producer_msg :: "env \<Rightarrow> msg_producer_t \<Rightarrow> ('z srv_scheme, unit) comp" where
  "handle_producer_msg E msg =
     seq (log_line E Log_productores (dm @ ''Mensaje de productor: '' @ show_c_int (mp_id msg) @
        '' con timestamp = '' @ show_nat (unat (mp_timestamp msg)) @ '' recibido'' @ nl))
     (case msg_text msg of
        Inl f \<Rightarrow> fail f
      | Inr text \<Rightarrow>
          bnd (gen_packet E M_TYPE_DATA text (length text)) (\<lambda>(_, p).
          let packet = p\<lparr>p_timestamp := mp_timestamp msg\<rparr> in
          if bad_productor (mp_id msg) then fail Out_of_bounds
          else
            bnd (gets (\<lambda>s. susc_room s (nat (sint (mp_id msg))))) (\<lambda>room.
            seq (broadcast_room E room packet)
            (modify (\<lambda>s. s\<lparr>buffer_packets := l_add_start packet (buffer_packets s)\<rparr>)))))"

datatype mq_res = Mq_msg msg_producer_t | Mq_err errno

definition handle_mq :: "env \<Rightarrow> mq_res \<Rightarrow> ('z srv_scheme, unit) comp" where
  "handle_mq E r =
     (case r of
        Mq_msg msg \<Rightarrow> handle_producer_msg E msg
      | Mq_err err \<Rightarrow> if err = EAGAIN then skip else emit (Perror ''mq_receive ''))"

section \<open>The loop\<close>

text \<open>The answers an iteration gets: \<open>None\<close> is a failed \<open>epoll_wait\<close>, after which the code starts over.\<close>

record iter_input =
  in_clients :: "client_event list option"
  in_cli :: "cli_event list option"
  in_mq :: mq_res

definition srv_iteration :: "env \<Rightarrow> iter_input \<Rightarrow> ('z srv_scheme, unit) comp" where
  "srv_iteration E inp =
     (case in_clients inp of
        None \<Rightarrow> emit (Perror ''epoll '')
      | Some events \<Rightarrow>
          seq (for_each (handle_client_event E) events)
          (case in_cli inp of
             None \<Rightarrow> emit (Perror ''epoll CLI'')
           | Some events_CLI \<Rightarrow>
               seq (for_each (handle_cli_event E) events_CLI)
               (seq (handle_mq E (in_mq inp))
               (seq (garb_collec_old_conn E CONN_TIMEOUT)
               (garb_collec_old_packets E BUFFER_CLEANUP_PERIOD)))))"

section \<open>Before the loop\<close>

text \<open>What the calls of the set-up answer: results are those of C (-1 for failure, and so on).\<close>

record setup_answers =
  r_setrlimit :: int
  r_fopen :: bool
  r_args :: "string list"
  r_socket :: int
  r_bind :: int
  r_pid :: int
  r_listen :: int
  r_epoll :: int
  r_cli_fd :: int
  r_epoll_cli :: int
  r_mq :: int

definition die :: "string \<Rightarrow> ('z proc_scheme, 'a) comp" where
  "die msg = seq (emit (Perror msg)) (fail Exit_failure)"

text \<open>The state when \<open>main\<close> starts: the lists do not exist yet, which is modelled as empty.\<close>

definition srv_start :: srv where
  "srv_start = \<lparr>ntime = 0, nio = 0, nrand = 0, actions = [], listenfd = -1, epollfd = -1,
     connections = [], susc_room = (\<lambda>_. []), buffer_packets = [], last_time_cleanup = 0,
     last_gc_time = 0\<rparr>"

text \<open>
  \<open>main\<close> up to the loop, in its order: \<open>bind\<close> is called before the socket is tested. \<open>CHECK(listen(..))\<close>
  returns from \<open>main\<close> with the failing value, which ends the process like the \<open>exit\<close>s.
\<close>

definition srv_setup :: "env \<Rightarrow> setup_answers \<Rightarrow> (srv, unit) comp" where
  "srv_setup E a =
     (if r_setrlimit a = -1 then die ''setrlimit: ''
      else if \<not> r_fopen a then die ''fopen log''
      else if length (r_args a) < 2 then seq (emit (Stderr ''Uso: '')) (fail Exit_failure)
      else
        bnd (setup_tcpsocket (r_socket a) (ucast (atoi (r_args a ! 1)))) (\<lambda>(lfd, sin_port).
        if r_bind a < 0 then die ''ligadura''
        else if lfd = -1 then seq (emit (Stderr ''fallo setup del socket'')) (fail Exit_failure)
        else
          seq (log_line E Log_clientes (dm @ ''Proceso: '' @ show_int (r_pid a) @
            '' - socket disponible: '' @
            (case sin_port of None \<Rightarrow> [] | Some p \<Rightarrow> show_nat (unat (htons p))) @ nl))
          (if r_listen a \<noteq> 0 then seq (emit (Stderr ''Runtime error'')) (fail Exit_failure)
           else if r_epoll a = -1 then die ''epoll ''
           else
             seq (add_fd E (r_epoll a) lfd)
             (bnd (sys_time E) (\<lambda>t1.
             bnd (sys_time E) (\<lambda>t2.
             if r_epoll_cli a = -1 then die ''epoll ''
             else
               seq (add_fd E (r_epoll_cli a) (r_cli_fd a))
               (if r_mq a < 0 then die ''mq_open failed ''
                else modify (\<lambda>s. s\<lparr>listenfd := lfd, epollfd := r_epoll a, connections := [],
                  susc_room := (\<lambda>_. []), buffer_packets := [], last_time_cleanup := t1,
                  last_gc_time := t2\<rparr>))))))))"

text \<open>\<open>main\<close>: the set-up, then one iteration after the other.\<close>

definition srv_main :: "env \<Rightarrow> setup_answers \<Rightarrow> iter_input list \<Rightarrow> (srv, unit) comp" where
  "srv_main E a inputs = seq (srv_setup E a) (run (srv_iteration E) inputs)"

end
