(* ===== verification/Server_Facts.thy ===== *)
theory Server_Facts
  imports Server
begin

text \<open>
  What each handler of the server does to the lists of its state, as equations between the state
  before and after (\<open>core_dests\<close> for the calls that touch none of them), and when a handler
  returns. The invariant and the properties rest on these.
\<close>

section \<open>Calls that leave the lists alone\<close>

lemma quiet_get_datetime [quiet_rules]: "quiet (get_datetime E n)"
  unfolding get_datetime_def by (intro quiet_rules)

lemma quiet_log_event [quiet_rules]: "quiet (log_event E f x)"
  unfolding log_event_def Let_def
  by (auto intro!: quiet_rules split: prod.splits option.splits)

lemma quiet_log_line [quiet_rules]: "quiet (log_line E f x)"
  unfolding log_line_def by (intro quiet_rules)

lemma quiet_set_non_blocking [quiet_rules]: "quiet (set_non_blocking E fd)"
  unfolding set_non_blocking_def by (intro quiet_rules)

lemma quiet_add_fd [quiet_rules]: "quiet (add_fd E epfd fd)"
  unfolding add_fd_def by (intro quiet_rules)

lemma quiet_broadcast_room [quiet_rules]: "quiet (broadcast_room E room msg)"
  unfolding broadcast_room_def by (auto intro!: quiet_rules split: option.splits)

lemma quiet_send_fin [quiet_rules]: "quiet (send_fin E fd)"
  unfolding send_fin_def by (auto intro!: quiet_rules split: prod.splits)

lemma quiet_resend_loop [quiet_rules]: "quiet (resend_loop E fd since ps)"
  by (induction ps) (auto intro!: quiet_rules)

lemma quiet_report_close [quiet_rules]: "quiet (report_close r)"
  unfolding report_close_def by (auto intro!: quiet_rules split: option.splits)

lemma quiet_report_delete [quiet_rules]: "quiet (report_delete code i fd)"
  unfolding report_delete_def by (intro quiet_rules)

text \<open>The fields of the server outside \<open>proc\<close>.\<close>

definition same_core :: "'z srv_scheme \<Rightarrow> 'z srv_scheme \<Rightarrow> bool" where
  "same_core s t \<longleftrightarrow> connections t = connections s \<and> susc_room t = susc_room s \<and>
     buffer_packets t = buffer_packets s \<and> last_time_cleanup t = last_time_cleanup s \<and>
     last_gc_time t = last_gc_time s \<and> listenfd t = listenfd s \<and> epollfd t = epollfd s"

lemma more_same_core: "proc.more t = proc.more s \<Longrightarrow> same_core s t"
  by (cases s; cases t) (simp add: same_core_def)

lemma quiet_same_core: "quiet m \<Longrightarrow> m s = Inr (a, t) \<Longrightarrow> same_core s t"
  by (rule more_same_core) (rule quietD)

lemma same_core_refl [simp]: "same_core s s"
  by (simp add: same_core_def)

lemma same_core_trans: "same_core s t \<Longrightarrow> same_core t u \<Longrightarrow> same_core s u"
  by (simp add: same_core_def)

lemmas core_dests =
  quiet_same_core [OF quiet_log_line] quiet_same_core [OF quiet_add_fd]
  quiet_same_core [OF quiet_broadcast_room] quiet_same_core [OF quiet_send_fin]
  quiet_same_core [OF quiet_resend_loop] quiet_same_core [OF quiet_gen_packet]
  quiet_same_core [OF quiet_report_close] quiet_same_core [OF quiet_report_delete]
  quiet_same_core [OF quiet_attempt] quiet_same_core [OF quiet_attempt_perror]
  quiet_same_core [OF quiet_emit] quiet_same_core [OF quiet_sys_time]
  quiet_same_core [OF quiet_sys_rand]

lemmas comp_inv = bnd_Inr seq_Inr

section \<open>Handlers\<close>

lemma new_connection_effect:
  assumes "new_connection E connfd s = Inr (u, t)"
  shows "\<exists>now. connections t = connections s @
      [\<lparr>timestamp = now, susc_counter = 0, sockfd = connfd, token = rnd E (nrand s)\<rparr>] \<and>
    susc_room t = susc_room s \<and> buffer_packets t = buffer_packets s \<and>
    last_time_cleanup t = last_time_cleanup s \<and> last_gc_time t = last_gc_time s \<and>
    listenfd t = listenfd s \<and> epollfd t = epollfd s"
  using assms
  by (auto simp: new_connection_def comp_inv add_fd_def set_non_blocking_def emit_def when_do_def
      attempt_def sys_rand_def l_add_last_def dest!: core_dests split: if_splits)
    (auto simp: same_core_def)

lemma hang_up_effect: "hang_up E fd s = Inr (u, t) \<Longrightarrow> same_core s t"
  by (auto simp: hang_up_def comp_inv dest!: core_dests split: option.splits)
    (auto simp: same_core_def)

lemma upd_conn_apply: "upd_conn i f s =
    Inr ((), s\<lparr>connections := (connections s)[i := f (connections s ! i)]\<rparr>)"
  by (simp add: upd_conn_def)

lemma set_room_apply: "set_room i room s = Inr ((), s\<lparr>susc_room := (susc_room s)(i := room)\<rparr>)"
  by (simp add: set_room_def)

lemma find_token_iff: "find_token tok cs = -1 \<longleftrightarrow> tok \<notin> token ` set cs"
  by (auto simp: find_token_def l_find_none conn_compare_def)

lemma find_token_some:
  assumes "find_token tok cs \<noteq> -1"
  shows "nat (find_token tok cs) < length cs" and "token (cs ! nat (find_token tok cs)) = tok"
    and "0 \<le> find_token tok cs" and "l_get (find_token tok cs) cs = Some (cs ! nat (find_token tok cs))"
proof -
  note f = l_find_some [OF assms [unfolded find_token_def]]
  show "nat (find_token tok cs) < length cs" using f(1) by (simp add: find_token_def)
  show "token (cs ! nat (find_token tok cs)) = tok"
    using f(2) by (simp add: find_token_def conn_compare_def split: if_splits)
  show "0 \<le> find_token tok cs"
    using l_find_range assms by (metis find_token_def)
  show "l_get (find_token tok cs) cs = Some (cs ! nat (find_token tok cs))"
    using assms by (simp add: find_token_def l_get_find)
qed

lemma find_fd_iff: "find_fd fd room = -1 \<longleftrightarrow> fd \<notin> set room"
  by (auto simp: find_fd_def l_find_none compare_fd_def)

lemma find_fd_some:
  assumes "find_fd fd room \<noteq> -1"
  shows "nat (find_fd fd room) < length room" and "room ! nat (find_fd fd room) = fd"
proof -
  note f = l_find_some [OF assms [unfolded find_fd_def]]
  show "nat (find_fd fd room) < length room" using f(1) by (simp add: find_fd_def)
  show "room ! nat (find_fd fd room) = fd"
    using f(2) by (simp add: find_fd_def compare_fd_def split: if_splits)
qed

lemma delete_find_fd: "l_delete (find_fd fd room) room = remove1 fd room"
proof -
  have "(\<lambda>d. compare_fd fd d = 0) = (\<lambda>d. d = fd)" by (auto simp: compare_fd_def)
  then show ?thesis by (simp add: find_fd_def l_delete_find)
qed

text \<open>With distinct tokens, the index found is the only one.\<close>

lemma find_token_unique:
  assumes "distinct (map token cs)" and "i < length cs"
  shows "find_token (token (cs ! i)) cs = int i"
proof -
  let ?k = "find_token (token (cs ! i)) cs"
  have ne: "?k \<noteq> -1" using assms(2) by (auto simp: find_token_iff)
  note f = find_token_some [OF ne]
  have "map token cs ! nat ?k = map token cs ! i" using f(1,2) assms(2) by simp
  then have "nat ?k = i"
    using assms f(1) by (metis length_map nth_eq_iff_index_eq)
  then show ?thesis using f(3) by simp
qed

lemma handle_ack_effect:
  assumes "handle_ack E p s = Inr (u, t)"
  shows "\<exists>now. connections t =
      (let i = find_token (payload_int p) (connections s) in
       if i = -1 then connections s
       else (connections s)[nat i := (connections s ! nat i)\<lparr>timestamp := now\<rparr>]) \<and>
    susc_room t = susc_room s \<and> buffer_packets t = buffer_packets s \<and>
    last_time_cleanup t = last_time_cleanup s \<and> last_gc_time t = last_gc_time s \<and>
    listenfd t = listenfd s \<and> epollfd t = epollfd s"
proof (cases "find_token (payload_int p) (connections s) = -1")
  case True
  with assms show ?thesis
    by (auto simp: handle_ack_def comp_inv Let_def dest!: core_dests) (auto simp: same_core_def)
next
  case False
  with assms find_token_some(4) [OF False] show ?thesis
    by (auto simp: handle_ack_def comp_inv Let_def upd_conn_apply sys_time_def)
qed

lemma move_fd_effect:
  "move_fd old fd i s = Inr ((), s\<lparr>susc_room := (susc_room s)(i :=
     (let k = find_fd old (susc_room s i) in
      if k = -1 then susc_room s i else (susc_room s i)[nat k := fd]))\<rparr>)"
  by (auto simp: move_fd_def Let_def set_room_def)

text \<open>The entry of \<open>old\<close> in a room becomes \<open>fd\<close>.\<close>

definition renamed :: "int \<Rightarrow> int \<Rightarrow> int list \<Rightarrow> int list" where
  "renamed old fd room = (let k = find_fd old room in if k = -1 then room else room[nat k := fd])"

lemma renamed_absent: "old \<notin> set room \<Longrightarrow> renamed old fd room = room"
  by (simp add: renamed_def find_fd_iff)

lemma set_renamed:
  assumes "distinct room"
  shows "set (renamed old fd room) =
    (if old \<in> set room then insert fd (set room - {old}) else set room)"
proof (cases "old \<in> set room")
  case True
  then have ne: "find_fd old room \<noteq> -1" by (simp add: find_fd_iff)
  with find_fd_some [OF ne] assms True show ?thesis
    by (simp add: renamed_def Let_def set_update_distinct)
next
  case False
  then show ?thesis by (simp add: renamed_absent)
qed

lemma distinct_renamed: "distinct room \<Longrightarrow> fd \<notin> set room \<Longrightarrow> distinct (renamed old fd room)"
  by (simp add: renamed_def Let_def distinct_list_update)

lemma move_all_effect:
  "move_fds old fd s =
     Inr ((), s\<lparr>susc_room := (\<lambda>i. if i < 3 then renamed old fd (susc_room s i) else susc_room s i)\<rparr>)"
proof -
  have "(\<lambda>i. if i < 3 then renamed old fd (susc_room s i) else susc_room s i) =
      (susc_room s)(0 := renamed old fd (susc_room s 0), 1 := renamed old fd (susc_room s 1),
        2 := renamed old fd (susc_room s 2))"
    by (auto simp: fun_eq_iff less_Suc_eq numeral_3_eq_3 numeral_2_eq_2)
  then show ?thesis
    by (simp add: move_fds_def seq_def bnd_def move_fd_effect renamed_def [symmetric] Let_def
        renamed_def [unfolded Let_def, symmetric])
qed

lemma leave_all_effect:
  "leave_rooms fd s =
     Inr ((), s\<lparr>susc_room := (\<lambda>i. if i < 3 then remove1 fd (susc_room s i) else susc_room s i)\<rparr>)"
proof -
  have "(\<lambda>i. if i < 3 then remove1 fd (susc_room s i) else susc_room s i) =
      (susc_room s)(0 := remove1 fd (susc_room s 0), 1 := remove1 fd (susc_room s 1),
        2 := remove1 fd (susc_room s 2))"
    by (auto simp: fun_eq_iff less_Suc_eq numeral_3_eq_3 numeral_2_eq_2)
  then show ?thesis
    by (simp add: leave_rooms_def seq_def bnd_def leave_room_def set_room_def delete_find_fd)
qed

text \<open>Everything but the connections and the rooms.\<close>

definition same_rest :: "'z srv_scheme \<Rightarrow> 'z srv_scheme \<Rightarrow> bool" where
  "same_rest s t \<longleftrightarrow> buffer_packets t = buffer_packets s \<and>
     last_time_cleanup t = last_time_cleanup s \<and> last_gc_time t = last_gc_time s \<and>
     listenfd t = listenfd s \<and> epollfd t = epollfd s"

lemma same_rest_refl [simp]: "same_rest s s"
  by (simp add: same_rest_def)

lemma same_rest_trans: "same_rest s t \<Longrightarrow> same_rest t u \<Longrightarrow> same_rest s u"
  by (simp add: same_rest_def)

lemma same_core_rest: "same_core s t \<longleftrightarrow>
  connections t = connections s \<and> susc_room t = susc_room s \<and> same_rest s t"
  by (auto simp: same_core_def same_rest_def)

section \<open>Authentication\<close>

definition without :: "c_int \<Rightarrow> connection_t list \<Rightarrow> connection_t list" where
  "without tok cs = l_delete (find_token tok cs) cs"

lemma handle_auth_unknown_new:
  assumes "handle_auth E fd p s = Inr (u, t)" and "payload_int2 p \<notin> token ` set (connections s)"
  shows "same_core s t"
proof -
  have "find_token (payload_int2 p) (connections s) = -1" using assms(2) by (simp add: find_token_iff)
  with assms(1) show ?thesis
    by (auto simp: handle_auth_def comp_inv Let_def dest!: core_dests) (auto simp: same_core_def)
qed

lemma handle_auth_unknown_old:
  assumes "handle_auth E fd p s = Inr (u, t)" and "payload_int2 p \<in> token ` set (connections s)"
    and "payload_int p \<notin> token ` set (without (payload_int2 p) (connections s))"
  shows "connections t = without (payload_int2 p) (connections s) \<and> susc_room t = susc_room s \<and>
    same_rest s t"
proof -
  have "find_token (payload_int2 p) (connections s) \<noteq> -1" using assms(2) by (simp add: find_token_iff)
  moreover have "find_token (payload_int p) (without (payload_int2 p) (connections s)) = -1"
    using assms(3) by (simp add: find_token_iff)
  ultimately show ?thesis using assms(1)
    by (auto simp: handle_auth_def comp_inv Let_def without_def [symmetric] dest!: core_dests)
      (auto simp: same_core_def same_rest_def)
qed

lemma handle_auth_success:
  assumes "handle_auth E fd p s = Inr (u, t)" and "payload_int2 p \<in> token ` set (connections s)"
    and "payload_int p \<in> token ` set (without (payload_int2 p) (connections s))"
  shows "\<exists>k cs. cs = without (payload_int2 p) (connections s) \<and> k = nat (find_token (payload_int p) cs) \<and>
    k < length cs \<and> token (cs ! k) = payload_int p \<and>
    connections t = cs[k := (cs ! k)\<lparr>sockfd := fd\<rparr>] \<and>
    susc_room t = (\<lambda>i. if i < 3 then renamed (sockfd (cs ! k)) fd (susc_room s i) else susc_room s i) \<and>
    same_rest s t"
proof -
  let ?cs = "without (payload_int2 p) (connections s)"
  let ?k = "nat (find_token (payload_int p) ?cs)"
  have n: "find_token (payload_int2 p) (connections s) \<noteq> -1" using assms(2) by (simp add: find_token_iff)
  have o: "find_token (payload_int p) ?cs \<noteq> -1" using assms(3) by (simp add: find_token_iff)
  note f = find_token_some [OF o]
  have "connections t = ?cs[?k := (?cs ! ?k)\<lparr>sockfd := fd\<rparr>] \<and>
    susc_room t = (\<lambda>i. if i < 3 then renamed (sockfd (?cs ! ?k)) fd (susc_room s i) else susc_room s i) \<and>
    same_rest s t"
    using assms(1) n f(4)
    by (auto simp: handle_auth_def comp_inv Let_def without_def [symmetric] move_all_effect
        upd_conn_apply dest!: core_dests)
      (auto simp: same_core_def same_rest_def)
  with f show ?thesis by blast
qed

section \<open>Commands\<close>

lemma cmd_add_effect:
  assumes "cmd_add E c ix conn s = Inr (r, t)"
  shows "if bad_productor (productor c) \<or> sockfd conn \<in> set (susc_room s (nat (sint (productor c))))
    then \<not> r \<and> same_core s t
    else r \<and> connections t = (connections s)[ix := (connections s ! ix)
          \<lparr>susc_counter := susc_counter (connections s ! ix) + 1\<rparr>] \<and>
      susc_room t = (susc_room s)(nat (sint (productor c)) :=
          susc_room s (nat (sint (productor c))) @ [sockfd conn]) \<and> same_rest s t"
  using assms
  by (auto simp: cmd_add_def comp_inv Let_def find_fd_iff set_room_apply upd_conn_apply
      l_add_last_def dest!: core_dests split: if_splits)
    (auto simp: same_core_def same_rest_def)

lemma cmd_del_effect:
  assumes "cmd_del E c ix conn s = Inr (r, t)"
  shows "if bad_productor (productor c) \<or> sockfd conn \<notin> set (susc_room s (nat (sint (productor c))))
    then \<not> r \<and> same_core s t
    else r \<and> connections t = (connections s)[ix := (connections s ! ix)
          \<lparr>susc_counter := susc_counter (connections s ! ix) - 1\<rparr>] \<and>
      susc_room t = (susc_room s)(nat (sint (productor c)) :=
          remove1 (sockfd conn) (susc_room s (nat (sint (productor c))))) \<and> same_rest s t"
  using assms
  by (auto simp: cmd_del_def comp_inv Let_def find_fd_iff set_room_apply upd_conn_apply
      delete_find_fd dest!: core_dests split: if_splits)
    (auto simp: same_core_def same_rest_def)

lemma cmd_log_effect: "cmd_log E conn s = Inr (r, t) \<Longrightarrow> same_core s t"
  by (auto simp: cmd_log_def comp_inv dest!: core_dests split: if_splits)

lemma do_command_unknown:
  "socket c \<notin> token ` set (connections s) \<Longrightarrow> do_command E c s = Inr ((), s)"
  by (simp add: do_command_def find_token_iff [symmetric] Let_def)

section \<open>Garbage collection\<close>

definition old_packet :: "time_t \<Rightarrow> packet_t \<Rightarrow> bool" where
  "old_packet now p \<longleftrightarrow> sint now - sint (p_timestamp p) > CONN_TIMEOUT"

lemma gc_packets_loop_effect:
  assumes "gc_packets_loop E now (int (length xs)) iter s = Inr (u, t)"
    and "buffer_packets s = xs @ iter"
  shows "buffer_packets t = xs @ filter (\<lambda>p. \<not> old_packet now p) iter \<and>
    connections t = connections s \<and> susc_room t = susc_room s \<and>
    last_time_cleanup t = last_time_cleanup s \<and> last_gc_time t = last_gc_time s \<and>
    listenfd t = listenfd s \<and> epollfd t = epollfd s"
  using assms
proof (induction iter arbitrary: xs s)
  case Nil
  then show ?case by simp
next
  case (Cons p iter)
  show ?case
  proof (cases "old_packet now p")
    case True
    then obtain s1 where "same_core s s1"
      and loop: "gc_packets_loop E now (int (length xs)) iter
        (s1\<lparr>buffer_packets := l_delete (int (length xs)) (buffer_packets s1)\<rparr>) = Inr (u, t)"
      using Cons.prems(1) by (auto simp: comp_inv old_packet_def dest!: core_dests)
    moreover have "l_delete (int (length xs)) (xs @ p # iter) = xs @ iter"
      by (simp add: l_delete_def remove_nth_append)
    ultimately show ?thesis
      using Cons.IH [OF loop] Cons.prems(2) True by (simp add: same_core_def)
  next
    case False
    then have "gc_packets_loop E now (int (length (xs @ [p]))) iter s = Inr (u, t)"
      using Cons.prems(1) by (simp add: old_packet_def add.commute)
    from Cons.IH [OF this] Cons.prems(2) False show ?thesis by simp
  qed
qed

lemma garb_collec_old_packets_effect:
  assumes "garb_collec_old_packets E period s = Inr (u, t)"
  shows "let now = clk E (ntime s) in
    buffer_packets t = (if sint now - sint (last_gc_time s) < period then buffer_packets s
      else filter (\<lambda>p. \<not> old_packet now p) (buffer_packets s)) \<and>
    last_gc_time t = (if sint now - sint (last_gc_time s) < period then last_gc_time s else now) \<and>
    connections t = connections s \<and> susc_room t = susc_room s \<and>
    last_time_cleanup t = last_time_cleanup s \<and> listenfd t = listenfd s \<and> epollfd t = epollfd s"
proof (cases "sint (clk E (ntime s)) - sint (last_gc_time s) < period")
  case True
  with assms show ?thesis
    by (auto simp: garb_collec_old_packets_def comp_inv sys_time_def Let_def)
next
  case False
  let ?s = "s\<lparr>ntime := Suc (ntime s)\<rparr>" and ?now = "clk E (ntime s)"
  from assms False obtain s1 s2 where "same_core ?s s1"
    and loop: "gc_packets_loop E ?now (int (length ([] :: packet_t list))) (buffer_packets s) s1 = Inr ((), s2)"
    and t: "t = s2\<lparr>last_gc_time := ?now\<rparr>"
    by (auto simp: garb_collec_old_packets_def comp_inv sys_time_def dest!: core_dests)
  then have b: "buffer_packets s1 = [] @ buffer_packets s" and c: "connections s1 = connections s"
    "susc_room s1 = susc_room s" "last_time_cleanup s1 = last_time_cleanup s"
    "listenfd s1 = listenfd s" "epollfd s1 = epollfd s"
    by (auto simp: same_core_def)
  from gc_packets_loop_effect [OF loop b] c False t show ?thesis by (simp add: Let_def)
qed

lemma fold_remove1_distinct:
  "distinct room \<Longrightarrow> fold remove1 fds room = filter (\<lambda>d. d \<notin> set fds) room"
proof (induction fds arbitrary: room)
  case Nil
  then show ?case by simp
next
  case (Cons fd fds)
  then show ?case by (auto simp: distinct_remove1_removeAll removeAll_filter_not_eq intro!: filter_cong)
qed

lemma gc_conn_loop_effect:
  assumes "gc_conn_loop E now (int (length xs)) iter s = Inr (u, t)"
    and "connections s = xs @ iter"
  shows "connections t = xs @ filter (\<lambda>c. \<not> expired now c) iter \<and>
    susc_room t = (\<lambda>i. if i < 3 then fold remove1 (map sockfd (filter (expired now) iter)) (susc_room s i)
      else susc_room s i) \<and> same_rest s t"
  using assms
proof (induction iter arbitrary: xs s)
  case Nil
  then show ?case by (auto simp: fun_eq_iff)
next
  case (Cons c iter)
  show ?case
  proof (cases "expired now c")
    case True
    let ?left = "\<lambda>i. if i < 3 then remove1 (sockfd c) (susc_room s i) else susc_room s i"
    from True Cons.prems(1) obtain s1 where s1: "connections s1 = l_delete (int (length xs)) (connections s)"
        "susc_room s1 = ?left" "same_rest s s1"
      and loop: "gc_conn_loop E now (int (length xs)) iter s1 = Inr (u, t)"
      by (auto simp: comp_inv leave_all_effect dest!: core_dests)
        (auto simp: same_core_def same_rest_def cong: if_cong)
    moreover have "l_delete (int (length xs)) (xs @ c # iter) = xs @ iter"
      by (simp add: l_delete_def remove_nth_append)
    ultimately have "connections s1 = xs @ iter" using Cons.prems(2) by simp
    from Cons.IH [OF loop this] s1 True show ?thesis
      by (auto simp: fun_eq_iff same_rest_def)
  next
    case False
    then have "gc_conn_loop E now (int (length (xs @ [c]))) iter s = Inr (u, t)"
      using Cons.prems(1) by (simp add: add.commute)
    from Cons.IH [OF this] Cons.prems(2) False show ?thesis by (simp cong: if_cong)
  qed
qed

lemma garb_collec_old_conn_effect:
  assumes "garb_collec_old_conn E period s = Inr (u, t)"
  shows "let now = clk E (ntime s) in
    (if sint now - sint (last_time_cleanup s) < period then same_core s t
     else connections t = filter (\<lambda>c. \<not> expired now c) (connections s) \<and>
       susc_room t = (\<lambda>i. if i < 3
         then fold remove1 (map sockfd (filter (expired now) (connections s))) (susc_room s i)
         else susc_room s i) \<and> same_rest s t)"
proof (cases "sint (clk E (ntime s)) - sint (last_time_cleanup s) < period")
  case True
  with assms show ?thesis
    by (auto simp: garb_collec_old_conn_def comp_inv sys_time_def Let_def same_core_def)
next
  case False
  let ?s = "s\<lparr>ntime := Suc (ntime s)\<rparr>" and ?now = "clk E (ntime s)"
  from assms False have "gc_conn_loop E ?now (int (length ([] :: connection_t list))) (connections s) ?s = Inr (u, t)"
    by (auto simp: garb_collec_old_conn_def comp_inv sys_time_def)
  from gc_conn_loop_effect [OF this] False show ?thesis
    by (simp add: Let_def same_rest_def cong: if_cong)
qed

end
