(* ===== verification/Server_Invariant.thy ===== *)
theory Server_Invariant
  imports Server_Facts
begin

text \<open>
  The invariant of the delivery manager: tokens and descriptors identify sessions, rooms hold
  descriptors of live sessions without repetition, every session counts its subscriptions, and
  the buffer holds well-formed data packets. It is kept by every event under the assumptions the
  code makes on its peers (\<open>event_ok\<close>), and every event returns.
\<close>

section \<open>Sessions and rooms\<close>

text \<open>How many of the three rooms hold \<open>fd\<close>.\<close>

definition subs :: "(nat \<Rightarrow> int list) \<Rightarrow> int \<Rightarrow> nat" where
  "subs rooms fd = length (filter (\<lambda>i. fd \<in> set (rooms i)) [0, 1, 2])"

definition sess_inv :: "connection_t list \<Rightarrow> (nat \<Rightarrow> int list) \<Rightarrow> bool" where
  "sess_inv cs rooms \<longleftrightarrow> distinct (map token cs) \<and> distinct (map sockfd cs) \<and>
     (\<forall>i<3. distinct (rooms i) \<and> set (rooms i) \<subseteq> sockfd ` set cs) \<and>
     (\<forall>c \<in> set cs. susc_counter c = int (subs rooms (sockfd c)))"

lemma less_3_cases: "i < (3::nat) \<longleftrightarrow> i = 0 \<or> i = 1 \<or> i = 2"
  by auto

lemma subs_le: "subs rooms fd \<le> 3"
  unfolding subs_def by (rule le_trans [OF length_filter_le]) simp

lemma subs_0: "subs rooms fd = 0 \<longleftrightarrow> (\<forall>i<3. fd \<notin> set (rooms i))"
  by (auto simp: subs_def filter_empty_conv less_3_cases)

lemma subs_sum: "subs rooms fd = of_bool (fd \<in> set (rooms 0)) + of_bool (fd \<in> set (rooms 1)) +
    of_bool (fd \<in> set (rooms 2))"
  by (simp add: subs_def)

lemma subs_cong: "(\<And>i. i < 3 \<Longrightarrow> fd \<in> set (rooms i) \<longleftrightarrow> fd' \<in> set (rooms' i)) \<Longrightarrow>
    subs rooms fd = subs rooms' fd'"
  by (simp add: subs_sum)

text \<open>The invariant in terms of three columns, which is how updates of a single session act on it.\<close>

lemma sess_inv_alt: "sess_inv cs rooms \<longleftrightarrow> distinct (map token cs) \<and> distinct (map sockfd cs) \<and>
    (\<forall>i<3. distinct (rooms i) \<and> set (rooms i) \<subseteq> set (map sockfd cs)) \<and>
    map susc_counter cs = map (\<lambda>fd. int (subs rooms fd)) (map sockfd cs)"
  by (auto simp: sess_inv_def)

lemma sess_inv_rooms:
  "sess_inv cs rooms \<Longrightarrow> i < 3 \<Longrightarrow> fd \<in> set (rooms i) \<Longrightarrow> \<exists>c \<in> set cs. fd = sockfd c"
  unfolding sess_inv_def by blast

lemma sess_inv_keys:
  assumes "map token ds = map token cs" "map sockfd ds = map sockfd cs"
    "map susc_counter ds = map susc_counter cs" and "sess_inv cs rooms"
  shows "sess_inv ds rooms"
  using assms unfolding sess_inv_alt by simp

lemma sess_inv_touch:
  "sess_inv cs rooms \<Longrightarrow> sess_inv (cs[i := (cs ! i)\<lparr>timestamp := now\<rparr>]) rooms"
proof (rule sess_inv_keys)
  have same: "(map f cs)[i := f (cs ! i)] = map f cs" for f :: "connection_t \<Rightarrow> 'b"
    by (cases "i < length cs") (simp_all add: map_update [symmetric])
  show "map token (cs[i := (cs ! i)\<lparr>timestamp := now\<rparr>]) = map token cs"
    "map sockfd (cs[i := (cs ! i)\<lparr>timestamp := now\<rparr>]) = map sockfd cs"
    "map susc_counter (cs[i := (cs ! i)\<lparr>timestamp := now\<rparr>]) = map susc_counter cs"
    using same [of token] same [of sockfd] same [of susc_counter] by (simp_all add: map_update)
qed

lemma sess_inv_init: "sess_inv [] (\<lambda>_. [])"
  by (simp add: sess_inv_def)

lemma sess_inv_add:
  assumes "sess_inv cs rooms" and "tok \<notin> token ` set cs" and "fd \<notin> sockfd ` set cs"
  shows "sess_inv (cs @ [\<lparr>timestamp = now, susc_counter = 0, sockfd = fd, token = tok\<rparr>]) rooms"
proof -
  have "subs rooms fd = 0" using assms by (force simp: subs_0 sess_inv_def)
  with assms show ?thesis by (auto simp: sess_inv_def)
qed

text \<open>Subscribing session \<open>k\<close> to room \<open>i\<close>, and unsubscribing it.\<close>

lemma subs_insert:
  assumes "i < 3" and "fd \<notin> set (rooms i)"
  shows "subs (rooms(i := rooms i @ [fd])) fd' =
    (if fd' = fd then Suc (subs rooms fd) else subs rooms fd')"
  using assms by (auto simp: subs_sum less_3_cases)

lemma subs_remove:
  assumes "i < 3" and "fd \<in> set (rooms i)" and "distinct (rooms i)"
  shows "subs (rooms(i := remove1 fd (rooms i))) fd' =
    (if fd' = fd then subs rooms fd - 1 else subs rooms fd')" and "0 < subs rooms fd"
  using assms by (auto simp: subs_sum less_3_cases)

lemma sess_inv_recount:
  assumes inv: "sess_inv cs rooms" and k: "k < length cs"
    and rooms': "\<forall>i<3. distinct (rooms' i) \<and> set (rooms' i) \<subseteq> sockfd ` set cs"
    and others: "\<And>fd. fd \<noteq> sockfd (cs ! k) \<Longrightarrow> subs rooms' fd = subs rooms fd"
    and this_one: "int (subs rooms' (sockfd (cs ! k))) = n"
  shows "sess_inv (cs[k := (cs ! k)\<lparr>susc_counter := n\<rparr>]) rooms'"
proof -
  let ?cs = "cs[k := (cs ! k)\<lparr>susc_counter := n\<rparr>]"
  have cols: "map token ?cs = map token cs" "map sockfd ?cs = map sockfd cs"
    using k by (simp_all add: map_update list_update_same_conv)
  have "susc_counter c = int (subs rooms' (sockfd c))" if "c \<in> set ?cs" for c
  proof -
    from that obtain j where j: "j < length cs" "c = ?cs ! j" by (auto simp: in_set_conv_nth)
    have "sockfd (cs ! j) = sockfd (cs ! k) \<longleftrightarrow> j = k"
      using inv j(1) k nth_eq_iff_index_eq [of "map sockfd cs" j k] by (simp add: sess_inv_def)
    then show ?thesis
      using inv j k others this_one by (auto simp: sess_inv_def nth_list_update)
  qed
  moreover have "sockfd ` set ?cs = sockfd ` set cs" using cols(2) by (metis list.set_map)
  ultimately show ?thesis using inv rooms' cols by (auto simp: sess_inv_def)
qed

lemma sess_inv_subscribe:
  assumes inv: "sess_inv cs rooms" and k: "k < length cs" and i: "i < 3"
    and new: "sockfd (cs ! k) \<notin> set (rooms i)"
  shows "sess_inv (cs[k := (cs ! k)\<lparr>susc_counter := susc_counter (cs ! k) + 1\<rparr>])
    (rooms(i := rooms i @ [sockfd (cs ! k)]))"
proof (rule sess_inv_recount [OF inv k])
  note subs' = subs_insert [of i "sockfd (cs ! k)" rooms, OF i new]
  show "\<forall>j<3. distinct ((rooms(i := rooms i @ [sockfd (cs ! k)])) j) \<and>
      set ((rooms(i := rooms i @ [sockfd (cs ! k)])) j) \<subseteq> sockfd ` set cs"
    using inv k new by (auto simp: sess_inv_def)
  show "subs (rooms(i := rooms i @ [sockfd (cs ! k)])) fd = subs rooms fd"
    if "fd \<noteq> sockfd (cs ! k)" for fd
    using that subs' by simp
  show "int (subs (rooms(i := rooms i @ [sockfd (cs ! k)])) (sockfd (cs ! k))) =
      susc_counter (cs ! k) + 1"
    using inv k subs' by (simp add: sess_inv_def)
qed

lemma sess_inv_unsubscribe:
  assumes inv: "sess_inv cs rooms" and k: "k < length cs" and i: "i < 3"
    and old: "sockfd (cs ! k) \<in> set (rooms i)"
  shows "sess_inv (cs[k := (cs ! k)\<lparr>susc_counter := susc_counter (cs ! k) - 1\<rparr>])
    (rooms(i := remove1 (sockfd (cs ! k)) (rooms i)))"
proof (rule sess_inv_recount [OF inv k])
  have dis: "distinct (rooms i)" using inv i by (simp add: sess_inv_def)
  note subs' = subs_remove [of i "sockfd (cs ! k)" rooms, OF i old dis]
  show "\<forall>j<3. distinct ((rooms(i := remove1 (sockfd (cs ! k)) (rooms i))) j) \<and>
      set ((rooms(i := remove1 (sockfd (cs ! k)) (rooms i))) j) \<subseteq> sockfd ` set cs"
    using inv by (auto simp: sess_inv_def dest: notin_set_remove1)
  show "subs (rooms(i := remove1 (sockfd (cs ! k)) (rooms i))) fd = subs rooms fd"
    if "fd \<noteq> sockfd (cs ! k)" for fd
    using that subs' by simp
  show "int (subs (rooms(i := remove1 (sockfd (cs ! k)) (rooms i))) (sockfd (cs ! k))) =
      susc_counter (cs ! k) - 1"
    using inv k subs' by (simp add: sess_inv_def)
qed

text \<open>Dropping the sessions with \<open>P\<close> together with all their subscriptions.\<close>

lemma sess_inv_drop:
  assumes inv: "sess_inv cs rooms"
    and rooms': "\<And>i. i < 3 \<Longrightarrow> rooms' i = filter (\<lambda>fd. fd \<notin> sockfd ` {c \<in> set cs. P c}) (rooms i)"
  shows "sess_inv (filter (\<lambda>c. \<not> P c) cs) rooms'"
proof -
  have inj: "c = d" if "c \<in> set cs" "d \<in> set cs" "sockfd c = sockfd d" for c d
    using inv that by (auto simp: sess_inv_def distinct_map dest: inj_onD)
  have "susc_counter c = int (subs rooms' (sockfd c))" if "c \<in> set cs" "\<not> P c" for c
  proof -
    have "sockfd c \<notin> sockfd ` {c \<in> set cs. P c}" using inj that by auto
    then have "subs rooms' (sockfd c) = subs rooms (sockfd c)"
      using rooms' by (intro subs_cong) auto
    then show ?thesis using inv that by (simp add: sess_inv_def)
  qed
  moreover have "set (rooms' i) \<subseteq> sockfd ` {c \<in> set cs. \<not> P c}" if "i < 3" for i
  proof
    fix fd assume "fd \<in> set (rooms' i)"
    then have fd: "fd \<in> set (rooms i)" "fd \<notin> sockfd ` {c \<in> set cs. P c}" using rooms' that by auto
    then obtain c where "c \<in> set cs" "fd = sockfd c"
      using sess_inv_rooms [OF inv \<open>i < 3\<close>] by blast
    with fd(2) show "fd \<in> sockfd ` {c \<in> set cs. \<not> P c}" by blast
  qed
  ultimately show ?thesis
    using inv rooms' by (auto simp: sess_inv_def distinct_map_filter)
qed

text \<open>
  Resuming session \<open>tok\<close> on the descriptor of a session \<open>j\<close> that had no subscriptions and is gone.
\<close>

lemma sess_inv_resume:
  assumes inv: "sess_inv cs rooms" and j: "j < length cs" "susc_counter (cs ! j) = 0"
    and cs1: "cs1 = remove_nth j cs" and k: "k < length cs1"
    and rooms': "\<And>i. i < 3 \<Longrightarrow> rooms' i = renamed (sockfd (cs1 ! k)) (sockfd (cs ! j)) (rooms i)"
  shows "sess_inv (cs1[k := (cs1 ! k)\<lparr>sockfd := sockfd (cs ! j)\<rparr>]) rooms'"
proof -
  let ?old = "sockfd (cs1 ! k)" and ?new = "sockfd (cs ! j)"
  let ?cs = "cs1[k := (cs1 ! k)\<lparr>sockfd := ?new\<rparr>]"
  have dt: "distinct (map token cs1)" and ds: "distinct (map sockfd cs1)"
    using inv cs1 by (simp_all add: sess_inv_def map_remove_nth distinct_remove_nth)
  have fds1: "set (map sockfd cs1) = set (map sockfd cs) - {?new}"
    using inv cs1 j set_remove_nth_distinct [of "map sockfd cs" j]
    by (simp add: sess_inv_def map_remove_nth)
  then have new_nin: "?new \<notin> set (map sockfd cs1)" by simp
  have "subs rooms ?new = 0" using inv j by (simp add: sess_inv_def)
  then have new_rooms: "?new \<notin> set (rooms i)" if "i < 3" for i using that by (simp add: subs_0)
  have rd: "distinct (rooms i)" "set (rooms i) \<subseteq> set (map sockfd cs1)" if "i < 3" for i
    using inv that new_rooms [OF that] fds1 by (auto simp: sess_inv_def)
  have toks: "map token ?cs = map token cs1" using k by (simp add: map_update list_update_same_conv)
  have fds: "map sockfd ?cs = (map sockfd cs1)[k := ?new]" by (simp add: map_update)
  have fdset: "set (map sockfd ?cs) = insert ?new (set (map sockfd cs1) - {?old})"
    using k ds by (simp add: fds set_update_distinct del: set_map)
  have rs: "set (rooms' i) = (if ?old \<in> set (rooms i) then insert ?new (set (rooms i) - {?old})
      else set (rooms i))" if "i < 3" for i
    using that rooms' set_renamed rd(1) by simp
  have "susc_counter c = int (subs rooms' (sockfd c))" if "c \<in> set ?cs" for c
  proof -
    from that obtain m where m: "m < length cs1" "c = ?cs ! m" by (auto simp: in_set_conv_nth)
    then have "cs1 ! m \<in> set cs" using cs1 set_remove_nth_subset [of j cs] by auto
    then have cnt: "susc_counter (cs1 ! m) = int (subs rooms (sockfd (cs1 ! m)))"
      using inv by (simp add: sess_inv_def)
    show ?thesis
    proof (cases "m = k")
      case True
      have "subs rooms ?old = subs rooms' ?new"
        using rs new_rooms by (intro subs_cong) auto
      with True m cnt k show ?thesis by simp
    next
      case False
      then have "sockfd (cs1 ! m) \<noteq> ?old"
        using ds m(1) k nth_eq_iff_index_eq [of "map sockfd cs1" m k] by simp
      moreover have "sockfd (cs1 ! m) \<in> set (map sockfd cs1)" using m(1) by simp
      then have "sockfd (cs1 ! m) \<noteq> ?new" using new_nin by metis
      ultimately have "subs rooms (sockfd (cs1 ! m)) = subs rooms' (sockfd (cs1 ! m))"
        using rs by (intro subs_cong) auto
      with False m cnt show ?thesis by simp
    qed
  qed
  moreover have "distinct (rooms' i)" if "i < 3" for i
    using that rooms' rd(1) new_rooms distinct_renamed by simp
  moreover have "set (rooms' i) \<subseteq> sockfd ` set ?cs" if "i < 3" for i
    using rs [OF that] rd(2) [OF that] fdset by (auto split: if_splits)
  moreover have "distinct (map sockfd ?cs)" using ds new_nin by (simp add: fds distinct_list_update)
  ultimately show ?thesis using dt toks by (auto simp: sess_inv_def)
qed

section \<open>The invariant of the server\<close>

definition srv_inv :: "'z srv_scheme \<Rightarrow> bool" where
  "srv_inv s \<longleftrightarrow> sess_inv (connections s) (susc_room s) \<and>
     (\<forall>p \<in> set (buffer_packets s). p_mtype p = M_TYPE_DATA \<and> packet_wf p)"

lemma srv_inv_same_core: "same_core s t \<Longrightarrow> srv_inv s \<Longrightarrow> srv_inv t"
  by (simp add: srv_inv_def same_core_def)

lemma srv_inv_rest:
  "same_rest s t \<Longrightarrow> srv_inv s \<Longrightarrow> sess_inv (connections t) (susc_room t) \<Longrightarrow> srv_inv t"
  by (simp add: srv_inv_def same_rest_def)

text \<open>
  What an event of the loop is: one ready client socket, one readable command, one answer of the
  queue, one of the two collections that end an iteration,
  or a failed \<open>epoll_wait\<close>, which ends it early.
\<close>

datatype srv_event =
    Ev_client client_event | Ev_cli cli_event | Ev_mq mq_res | Ev_gc_conn | Ev_gc_packets
  | Ev_poll_failed string

fun srv_step :: "env \<Rightarrow> srv_event \<Rightarrow> ('z srv_scheme, unit) comp" where
  "srv_step E (Ev_client ev) = handle_client_event E ev"
| "srv_step E (Ev_cli ev) = handle_cli_event E ev"
| "srv_step E (Ev_mq r) = handle_mq E r"
| "srv_step E Ev_gc_conn = garb_collec_old_conn E CONN_TIMEOUT"
| "srv_step E Ev_gc_packets = garb_collec_old_packets E BUFFER_CLEANUP_PERIOD"
| "srv_step E (Ev_poll_failed msg) = emit (Perror msg)"

text \<open>
  The assumptions on the peers. The kernel returns a descriptor that no session holds; \<open>rand\<close> gives a
  token not in use (the README owns up to collisions); a client authenticates on the socket of the
  new session it names, which nobody subscribed yet; the queue carries well-formed messages of the
  three producers, and the random text is terminated.
\<close>

definition received :: "client_event \<Rightarrow> packet_t option" where
  "received ev = (case ev_read ev of R_err _ \<Rightarrow> None
     | R_ok bs \<Rightarrow> Some (packet_of (overlay bs (ev_junk ev))))"

definition auth_ok :: "connection_t list \<Rightarrow> int \<Rightarrow> packet_t \<Rightarrow> bool" where
  "auth_ok cs fd p \<longleftrightarrow>
     (\<forall>c \<in> set cs. token c = payload_int2 p \<longrightarrow> sockfd c = fd \<and> susc_counter c = 0)"

definition client_ok :: "env \<Rightarrow> 'z srv_scheme \<Rightarrow> client_event \<Rightarrow> bool" where
  "client_ok E s ev \<longleftrightarrow>
     (if ev_fd ev = listenfd s then
        ev_accept ev \<notin> sockfd ` set (connections s) \<and> rnd E (nrand s) \<notin> token ` set (connections s)
      else case received ev of None \<Rightarrow> True
        | Some p \<Rightarrow> p_mtype p = M_TYPE_AUTH \<longrightarrow> auth_ok (connections s) (ev_fd ev) p)"

definition mq_ok :: "mq_res \<Rightarrow> bool" where
  "mq_ok r = (case r of Mq_err _ \<Rightarrow> True
     | Mq_msg m \<Rightarrow> msg_wf m \<and> \<not> bad_productor (mp_id m) \<and> (mp_id m = 1 \<longrightarrow> 0 \<in> set (mp_data m)))"

definition event_ok :: "env \<Rightarrow> 'z srv_scheme \<Rightarrow> srv_event \<Rightarrow> bool" where
  "event_ok E s e = (case e of Ev_client ev \<Rightarrow> client_ok E s ev | Ev_mq r \<Rightarrow> mq_ok r | _ \<Rightarrow> True)"

text \<open>The environment: a clock that answers, dates of sane length, digests of 16 bytes.\<close>

definition log_ok :: "env \<Rightarrow> bool" where
  "log_ok E \<longleftrightarrow> (\<forall>t. length (fmt_time E t) < 50)"

definition env_ok :: "env \<Rightarrow> bool" where
  "env_ok E \<longleftrightarrow> clock_ok E \<and> log_ok E \<and> md5_ok E"

lemma env_ok_env0 [simp]: "env_ok env0"
  by (simp add: env_ok_def log_ok_def)

subsection \<open>Text of the messages\<close>

lemma c_str_length: "c_str bs = Some t \<Longrightarrow> length t < length bs"
proof -
  assume "c_str bs = Some t"
  then have z: "0 \<in> set bs" and t: "t = takeWhile (\<lambda>b. b \<noteq> 0) bs"
    by (auto simp: c_str_def split: if_splits)
  have "takeWhile (\<lambda>b. b \<noteq> 0) bs \<noteq> bs" using z by (auto simp: takeWhile_eq_all_conv)
  then show ?thesis
    using t length_takeWhile_le [of "\<lambda>b. b \<noteq> 0" bs] takeWhile_eq_take [of "\<lambda>b. b \<noteq> 0" bs]
    by (metis le_neq_implies_less take_all order_refl)
qed

lemma msg_text_length:
  assumes "msg_wf m" and "msg_text m = Inr body"
  shows "length body < PAYLOAD_SIZE"
proof -
  have "unat (free_mem m) < 10 ^ 10" using unat_bound [of "free_mem m"] by simp
  then have "length (show_nat (unat (free_mem m))) \<le> 10" by (rule length_show_nat) simp
  moreover have "length (fmt_float (sysload m)) \<le> 47" by (rule length_fmt_float)
  moreover have "length t < 40" if "c_str (mp_data m) = Some t" for t
    using c_str_length [OF that] assms(1) by (simp add: msg_wf_def)
  ultimately show ?thesis
    using assms(2)
    by (fastforce simp: msg_text_def random_msg_def split: if_splits option.splits)
qed

subsection \<open>Preservation\<close>

lemma new_connection_inv:
  assumes "srv_inv s" and "connfd \<notin> sockfd ` set (connections s)"
    and "rnd E (nrand s) \<notin> token ` set (connections s)"
    and "new_connection E connfd s = Inr (u, t)"
  shows "srv_inv t"
proof -
  obtain now where "connections t = connections s @
      [\<lparr>timestamp = now, susc_counter = 0, sockfd = connfd, token = rnd E (nrand s)\<rparr>]"
    and "susc_room t = susc_room s" "buffer_packets t = buffer_packets s"
    using new_connection_effect [OF assms(4)] by blast
  then show ?thesis using sess_inv_add assms(1-3) by (simp add: srv_inv_def)
qed

lemma handle_ack_inv:
  assumes "srv_inv s" and "handle_ack E p s = Inr (u, t)"
  shows "srv_inv t"
  using handle_ack_effect [OF assms(2)] assms(1) sess_inv_touch
  by (auto simp: srv_inv_def Let_def split: if_splits)

lemma handle_auth_inv:
  assumes inv: "srv_inv s" and ok: "auth_ok (connections s) fd p"
    and run: "handle_auth E fd p s = Inr (u, t)"
  shows "srv_inv t"
proof (cases "payload_int2 p \<in> token ` set (connections s)")
  case False
  then show ?thesis using handle_auth_unknown_new [OF run] inv srv_inv_same_core by blast
next
  case True
  let ?cs = "connections s" and ?j = "nat (find_token (payload_int2 p) (connections s))"
  let ?cs1 = "without (payload_int2 p) (connections s)"
  have ne: "find_token (payload_int2 p) ?cs \<noteq> -1" using True by (simp add: find_token_iff)
  note f = find_token_some [OF ne]
  have j: "?j < length ?cs" by (rule f(1))
  then have "?cs ! ?j \<in> set ?cs" by simp
  then have new: "sockfd (?cs ! ?j) = fd" "susc_counter (?cs ! ?j) = 0"
    using ok f(2) by (auto simp: auth_ok_def)
  have "find_token (payload_int2 p) ?cs < int (length ?cs)" using f(1,3) by linarith
  then have cs1: "?cs1 = remove_nth ?j ?cs" using f(3) by (simp add: without_def l_delete_def)
  have sinv: "sess_inv ?cs (susc_room s)" using inv by (simp add: srv_inv_def)
  show ?thesis
  proof (cases "payload_int p \<in> token ` set ?cs1")
    case False
    note eff = handle_auth_unknown_old [OF run True False]
    have "c = ?cs ! ?j" if "c \<in> set ?cs" "token c = payload_int2 p" for c
      using that f(2) \<open>?cs ! ?j \<in> set ?cs\<close> sinv
      by (metis sess_inv_def distinct_map inj_onD)
    then have P: "token c = payload_int2 p \<longleftrightarrow> c = ?cs ! ?j" if "c \<in> set ?cs" for c
      using that f(2) by auto
    have dis: "distinct ?cs" using sinv by (auto simp: sess_inv_def distinct_map)
    have "?cs1 = filter (\<lambda>c. c \<noteq> ?cs ! ?j) ?cs"
      using dis j cs1 by (simp add: filter_remove_nth)
    also have "\<dots> = filter (\<lambda>c. \<not> token c = payload_int2 p) ?cs" using P by (auto intro: filter_cong)
    finally have flt: "?cs1 = filter (\<lambda>c. \<not> token c = payload_int2 p) ?cs" .
    have "subs (susc_room s) fd = 0" using sinv new \<open>?cs ! ?j \<in> set ?cs\<close> by (auto simp: sess_inv_def)
    then have "fd \<notin> set (susc_room s i)" if "i < 3" for i using that by (simp add: subs_0)
    moreover have "sockfd ` {c \<in> set ?cs. token c = payload_int2 p} = {fd}"
      using P new \<open>?cs ! ?j \<in> set ?cs\<close> by force
    ultimately have "susc_room s i =
        filter (\<lambda>d. d \<notin> sockfd ` {c \<in> set ?cs. token c = payload_int2 p}) (susc_room s i)"
      if "i < 3" for i
      using that by (auto intro!: filter_True [symmetric])
    from sess_inv_drop [where rooms' = "susc_room s", OF sinv this] flt
    have "sess_inv ?cs1 (susc_room s)" by simp
    with eff inv show ?thesis by (auto intro: srv_inv_rest)
  next
    case old: True
    obtain k where k: "k < length ?cs1" "connections t = ?cs1[k := (?cs1 ! k)\<lparr>sockfd := fd\<rparr>]"
        "susc_room t = (\<lambda>i. if i < 3 then renamed (sockfd (?cs1 ! k)) fd (susc_room s i)
          else susc_room s i)" "same_rest s t"
      using handle_auth_success [OF run True old] by blast
    have "sess_inv (?cs1[k := (?cs1 ! k)\<lparr>sockfd := sockfd (?cs ! ?j)\<rparr>]) (susc_room t)"
      using sess_inv_resume [OF sinv j new(2) cs1 k(1)] k(3) new(1) by simp
    with k new(1) inv show ?thesis by (auto intro: srv_inv_rest)
  qed
qed

lemma receive_packet_inv:
  assumes "srv_inv s"
    and "\<And>bs. rd = R_ok bs \<Longrightarrow> p_mtype (packet_of (overlay bs junk)) = M_TYPE_AUTH \<Longrightarrow>
      auth_ok (connections s) fd (packet_of (overlay bs junk))"
    and "receive_packet E fd rd junk s = Inr (u, t)"
  shows "srv_inv t"
proof (cases rd)
  case (R_err err)
  with assms(1,3) show ?thesis
    by (auto simp: receive_packet_def dest!: core_dests intro: srv_inv_same_core)
next
  case (R_ok bs')
  let ?p = "packet_of (overlay bs' junk)"
  consider "t = s" | "handle_ack E ?p s = Inr (u, t)"
    | "p_mtype ?p = M_TYPE_AUTH" "handle_auth E fd ?p s = Inr (u, t)"
    using assms(3) R_ok by (auto simp: receive_packet_def Let_def split: if_splits)
  then show ?thesis
    using assms(1) assms(2) [of bs'] R_ok handle_ack_inv handle_auth_inv by cases auto
qed

lemma handle_client_event_inv:
  assumes "srv_inv s" and "client_ok E s ev" and "handle_client_event E ev s = Inr (u, t)"
  shows "srv_inv t"
proof -
  consider "ev_fd ev = listenfd s" "new_connection E (ev_accept ev) s = Inr (u, t)"
    | "hang_up E (ev_fd ev) s = Inr (u, t)"
    | "ev_fd ev \<noteq> listenfd s" "receive_packet E (ev_fd ev) (ev_read ev) (ev_junk ev) s = Inr (u, t)"
    | "t = s"
    using assms(3) by (auto simp: handle_client_event_def split: if_splits)
  then show ?thesis
  proof cases
    case 1
    with assms(1,2) show ?thesis by (auto simp: client_ok_def intro: new_connection_inv)
  next
    case 2
    with assms(1) show ?thesis using hang_up_effect srv_inv_same_core by blast
  next
    case 3
    with assms(1,2) show ?thesis
      by (auto simp: client_ok_def received_def intro!: receive_packet_inv [OF assms(1) _ 3(2)])
  next
    case 4
    with assms(1) show ?thesis by simp
  qed
qed

lemma cmd_add_inv:
  assumes "srv_inv s" and "k < length (connections s)"
    and "cmd_add E c k (connections s ! k) s = Inr (r, t)"
  shows "srv_inv t"
proof (cases "bad_productor (productor c) \<or>
    sockfd (connections s ! k) \<in> set (susc_room s (nat (sint (productor c))))")
  case True
  with cmd_add_effect [OF assms(3)] assms(1) show ?thesis using srv_inv_same_core by auto
next
  case False
  then have i: "nat (sint (productor c)) < 3" by (auto simp: bad_productor_def)
  have "sess_inv (connections s) (susc_room s)" using assms(1) by (simp add: srv_inv_def)
  from sess_inv_subscribe [OF this assms(2) i] False cmd_add_effect [OF assms(3)] assms(1)
  show ?thesis by (auto intro: srv_inv_rest)
qed

lemma cmd_del_inv:
  assumes "srv_inv s" and "k < length (connections s)"
    and "cmd_del E c k (connections s ! k) s = Inr (r, t)"
  shows "srv_inv t"
proof (cases "bad_productor (productor c) \<or>
    sockfd (connections s ! k) \<notin> set (susc_room s (nat (sint (productor c))))")
  case True
  with cmd_del_effect [OF assms(3)] assms(1) show ?thesis using srv_inv_same_core by auto
next
  case False
  then have i: "nat (sint (productor c)) < 3" by (auto simp: bad_productor_def)
  have "sess_inv (connections s) (susc_room s)" using assms(1) by (simp add: srv_inv_def)
  from sess_inv_unsubscribe [OF this assms(2) i] False cmd_del_effect [OF assms(3)] assms(1)
  show ?thesis by (auto intro: srv_inv_rest)
qed

lemma srv_inv_touch:
  "srv_inv s \<Longrightarrow> srv_inv (s\<lparr>ntime := n, connections :=
     (connections s)[k := (connections s ! k)\<lparr>timestamp := now\<rparr>]\<rparr>)"
  by (simp add: srv_inv_def sess_inv_touch)

lemma do_command_inv:
  assumes "srv_inv s" and "do_command E c s = Inr (u, t)"
  shows "srv_inv t"
proof (cases "socket c \<in> token ` set (connections s)")
  case False
  with do_command_unknown [OF False] assms show ?thesis by auto
next
  case True
  then have ne: "find_token (socket c) (connections s) \<noteq> -1" by (simp add: find_token_iff)
  note f = find_token_some [OF ne]
  let ?k = "nat (find_token (socket c) (connections s))"
  let ?conn = "connections s ! ?k"
  let ?m = "if ctype c = CMD_ADD then cmd_add E c ?k ?conn
    else if ctype c = CMD_DEL then cmd_del E c ?k ?conn
    else if ctype c = CMD_LOG then cmd_log E ?conn else ret True"
  from assms(2) f(4) obtain r s1 where m: "?m s = Inr (r, s1)"
    and t: "when_do r (bnd (sys_time E) (\<lambda>now. upd_conn ?k (\<lambda>c. c\<lparr>timestamp := now\<rparr>))) s1 = Inr (u, t)"
    by (auto simp: do_command_def Let_def bnd_Inr)
  have "srv_inv s1"
    using m assms(1) f(1)
    by (auto intro: cmd_add_inv cmd_del_inv srv_inv_same_core [OF cmd_log_effect] split: if_splits)
  then show ?thesis
    using t srv_inv_touch
    by (auto simp: when_do_def bnd_Inr sys_time_def upd_conn_apply split: if_splits)
qed

lemma handle_cli_event_inv:
  assumes "srv_inv s" and "handle_cli_event E ev s = Inr (u, t)"
  shows "srv_inv t"
  using assms do_command_inv
  by (auto simp: handle_cli_event_def dest!: core_dests intro: srv_inv_same_core
      split: if_splits read_res.splits)

text \<open>A producer's message leaves one more packet at the head of the buffer.\<close>

lemma handle_producer_msg_effect:
  fixes s :: "'z srv_scheme"
  assumes "handle_producer_msg E m s = Inr (u, t)"
  shows "\<exists>body rc q (t0 :: 'z srv_scheme) t1. msg_text m = Inr body \<and> \<not> bad_productor (mp_id m) \<and>
    gen_packet E M_TYPE_DATA body (length body) t0 = Inr ((rc, q), t1) \<and>
    buffer_packets t = q\<lparr>p_timestamp := mp_timestamp m\<rparr> # buffer_packets s \<and>
    connections t = connections s \<and> susc_room t = susc_room s \<and>
    last_time_cleanup t = last_time_cleanup s \<and> last_gc_time t = last_gc_time s \<and>
    listenfd t = listenfd s \<and> epollfd t = epollfd s"
proof (cases "msg_text m")
  case (Inl f)
  with assms show ?thesis by (auto simp: handle_producer_msg_def comp_inv)
next
  case (Inr body)
  from assms Inr obtain s1 p s2 s3 where s1: "same_core s s1" and nb: "\<not> bad_productor (mp_id m)"
    and g: "gen_packet E M_TYPE_DATA body (length body) s1 = Inr (p, s2)"
    and s3: "same_core s2 s3"
    and t: "t = s3\<lparr>buffer_packets := l_add_start ((snd p)\<lparr>p_timestamp := mp_timestamp m\<rparr>) (buffer_packets s3)\<rparr>"
    by (auto simp: handle_producer_msg_def comp_inv Let_def
        dest!: quiet_same_core [OF quiet_log_line] quiet_same_core [OF quiet_broadcast_room]
        split: if_splits)
  have "same_core s s3" using s1 s3 quiet_same_core [OF quiet_gen_packet g] by (simp add: same_core_def)
  with Inr nb g t show ?thesis
    by (intro exI [of _ body] exI [of _ "fst p"] exI [of _ "snd p"] exI [of _ s1] exI [of _ s2])
      (simp add: same_core_def l_add_start_def)
qed

lemma handle_mq_inv:
  fixes s :: "'z srv_scheme"
  assumes inv: "srv_inv s" and ok: "mq_ok r" and md5: "md5_ok E" and run: "handle_mq E r s = Inr (u, t)"
  shows "srv_inv t"
proof (cases r)
  case (Mq_err err)
  with run inv show ?thesis
    by (auto simp: handle_mq_def dest!: core_dests intro: srv_inv_same_core split: if_splits)
next
  case (Mq_msg m)
  with run have "handle_producer_msg E m s = Inr (u, t)" by (simp add: handle_mq_def)
  then obtain body rc q and t0 t1 :: "'z srv_scheme" where body: "msg_text m = Inr body"
    and g: "gen_packet E M_TYPE_DATA body (length body) t0 = Inr ((rc, q), t1)"
    and t: "buffer_packets t = q\<lparr>p_timestamp := mp_timestamp m\<rparr> # buffer_packets s"
      "connections t = connections s" "susc_room t = susc_room s"
    using handle_producer_msg_effect by blast
  have len: "length body \<le> PAYLOAD_SIZE"
    using msg_text_length [OF _ body] ok Mq_msg by (simp add: mq_ok_def)
  have "q = sealed E (p_timestamp q) M_TYPE_DATA body"
    using gen_packet_sealed [OF g len] by simp
  then have "p_mtype q = M_TYPE_DATA \<and> packet_wf q"
    using sealed_wf [OF md5 len] sealed_fields(2) by metis
  then show ?thesis using inv t by (simp add: srv_inv_def packet_wf_def)
qed

lemma garb_collec_old_conn_inv:
  assumes "srv_inv s" and "garb_collec_old_conn E period s = Inr (u, t)"
  shows "srv_inv t"
proof (cases "sint (clk E (ntime s)) - sint (last_time_cleanup s) < period")
  case True
  with garb_collec_old_conn_effect [OF assms(2)] assms(1) show ?thesis
    using srv_inv_same_core by (simp add: Let_def)
next
  case False
  let ?now = "clk E (ntime s)"
  have eff: "connections t = filter (\<lambda>c. \<not> expired ?now c) (connections s)"
    "susc_room t = (\<lambda>i. if i < 3
       then fold remove1 (map sockfd (filter (expired ?now) (connections s))) (susc_room s i)
       else susc_room s i)" "same_rest s t"
    using garb_collec_old_conn_effect [OF assms(2)] False by (simp_all add: Let_def)
  have inv: "sess_inv (connections s) (susc_room s)" using assms(1) by (simp add: srv_inv_def)
  have "susc_room t i = filter (\<lambda>fd. fd \<notin> sockfd ` {c \<in> set (connections s). expired ?now c}) (susc_room s i)"
    if "i < 3" for i
    using eff inv that by (simp add: fold_remove1_distinct sess_inv_def)
  from sess_inv_drop [OF inv this] eff assms(1) show ?thesis by (auto intro: srv_inv_rest)
qed

lemma garb_collec_old_packets_inv:
  assumes "srv_inv s" and "garb_collec_old_packets E period s = Inr (u, t)"
  shows "srv_inv t"
  using garb_collec_old_packets_effect [OF assms(2)] assms(1)
  by (auto simp: srv_inv_def Let_def split: if_splits)

lemma srv_step_inv:
  assumes "md5_ok E" and "srv_inv s" and "event_ok E s e" and "srv_step E e s = Inr (u, t)"
  shows "srv_inv t"
  using assms
  by (cases e) (auto simp: event_ok_def intro: handle_client_event_inv handle_cli_event_inv
      handle_mq_inv garb_collec_old_conn_inv garb_collec_old_packets_inv
      srv_inv_same_core [OF quiet_same_core [OF quiet_emit]])

end
