(* ===== verification/Server_Runs.thy ===== *)
theory Server_Runs
  imports Server_Invariant
begin

text \<open>
  Runs of the delivery manager: every handler returns when the environment is sane, so the events
  of the loop form a \<open>step_system\<close>, an iteration is the run of its events, and the invariant of
  \<open>Server_Invariant\<close> holds along every run that starts from the set-up.
\<close>

section \<open>Every handler returns\<close>

lemma returns_option [returns_rules]:
  "(x = None \<Longrightarrow> returns P m) \<Longrightarrow> (\<And>y. x = Some y \<Longrightarrow> returns P (k y)) \<Longrightarrow>
    returns P (case x of None \<Rightarrow> m | Some y \<Rightarrow> k y)"
  by (cases x) simp_all

lemma returns_prod [returns_rules]:
  "(\<And>a b. x = (a, b) \<Longrightarrow> returns P (k a b)) \<Longrightarrow> returns P (case x of (a, b) \<Rightarrow> k a b)"
  by (cases x) simp

lemma returns_pure [returns_rules]: "returns P (\<lambda>s. Inr (a, s))"
  by (simp add: returns_def)

declare keeps_True [returns_rules]

lemma returns_log_line:
  assumes "log_ok E"
  shows "returns P (log_line E f x)"
proof (rule returnsI)
  fix s :: "'a proc_scheme"
  have "length (fmt_time E (clk E (ntime s))) < 50" using assms by (simp add: log_ok_def)
  then show "\<exists>a t. log_line E f x s = Inr (a, t)"
    by (simp add: log_line_def log_event_def get_datetime_def sys_time_def emit_def comp_defs
        Let_def min_def)
qed

lemma returns_add_fd [returns_rules]: "returns (\<lambda>_. True) (add_fd E epfd fd)"
  unfolding add_fd_def set_non_blocking_def by (intro returns_rules)

lemma returns_broadcast_room [returns_rules]: "returns (\<lambda>_. True) (broadcast_room E room msg)"
  unfolding broadcast_room_def by (intro returns_rules)

lemma returns_report_close [returns_rules]: "returns (\<lambda>_. True) (report_close r)"
  unfolding report_close_def by (intro returns_rules)

lemma returns_report_delete [returns_rules]: "returns (\<lambda>_. True) (report_delete c i fd)"
  unfolding report_delete_def by (intro returns_rules)

lemma returns_upd_conn [returns_rules]: "returns (\<lambda>_. True) (upd_conn i f)"
  unfolding upd_conn_def by (intro returns_rules)

lemma returns_set_room [returns_rules]: "returns (\<lambda>_. True) (set_room i room)"
  unfolding set_room_def by (intro returns_rules)

lemma returns_resend_loop [returns_rules]: "returns (\<lambda>_. True) (resend_loop E fd since ps)"
  by (induction ps) (auto intro!: returns_rules)

lemma returns_move_fds [returns_rules]: "returns (\<lambda>_. True) (move_fds old fd)"
  by (simp add: returns_def move_all_effect)

lemma returns_leave_rooms [returns_rules]: "returns (\<lambda>_. True) (leave_rooms fd)"
  by (simp add: returns_def leave_all_effect)

lemma env_ok_returns:
  assumes "env_ok E"
  shows "returns P (log_line E f x)"
    and "n \<le> length pl \<Longrightarrow> returns (\<lambda>_. True) (gen_packet E ty pl n)"
    and "returns (\<lambda>_. True) (send_fin E fd)"
proof -
  show "returns P (log_line E f x)" using assms by (simp add: env_ok_def returns_log_line)
  show g: "n \<le> length pl \<Longrightarrow> returns (\<lambda>_. True) (gen_packet E ty pl n)" for ty pl n
    using assms by (auto simp: env_ok_def intro: returns_gen_packet)
  show "returns (\<lambda>_. True) (send_fin E fd)"
    unfolding send_fin_def by (intro returns_rules g) simp
qed

lemma returns_new_connection: "env_ok E \<Longrightarrow> returns (\<lambda>_. True) (new_connection E connfd)"
  unfolding new_connection_def by (intro returns_rules env_ok_returns) simp_all

lemma returns_hang_up: "env_ok E \<Longrightarrow> returns (\<lambda>_. True) (hang_up E fd)"
  unfolding hang_up_def by (intro returns_rules env_ok_returns) simp_all

lemma returns_handle_ack: "returns (\<lambda>_. True) (handle_ack E p)"
  unfolding handle_ack_def Let_def by (intro returns_rules)

lemma returns_handle_auth: "env_ok E \<Longrightarrow> returns (\<lambda>_. True) (handle_auth E fd p)"
  unfolding handle_auth_def Let_def by (intro returns_rules env_ok_returns) simp_all

lemma returns_receive_packet: "env_ok E \<Longrightarrow> returns (\<lambda>_. True) (receive_packet E fd rd junk)"
  unfolding receive_packet_def Let_def
  by (cases rd) (auto intro!: returns_rules returns_handle_ack returns_handle_auth)

lemma returns_handle_client_event: "env_ok E \<Longrightarrow> returns (\<lambda>_. True) (handle_client_event E ev)"
  unfolding handle_client_event_def
  by (intro returns_rules returns_new_connection returns_hang_up returns_receive_packet)

lemma returns_do_command: "env_ok E \<Longrightarrow> returns (\<lambda>_. True) (do_command E c)"
  unfolding do_command_def cmd_add_def cmd_del_def cmd_log_def Let_def
  by (intro returns_rules env_ok_returns) simp_all

lemma returns_handle_cli_event: "env_ok E \<Longrightarrow> returns (\<lambda>_. True) (handle_cli_event E ev)"
  unfolding handle_cli_event_def
  by (cases "cev_read ev") (auto intro!: returns_rules returns_do_command)

lemma msg_text_ok: "mq_ok (Mq_msg m) \<Longrightarrow> \<exists>body. msg_text m = Inr body"
  by (auto simp: mq_ok_def msg_text_def random_msg_def c_str_def)

lemma returns_handle_mq:
  assumes "env_ok E" and "mq_ok r"
  shows "returns (\<lambda>_. True) (handle_mq E r)"
proof (cases r)
  case (Mq_err err)
  then show ?thesis by (auto simp: handle_mq_def intro!: returns_rules)
next
  case (Mq_msg m)
  with assms(2) obtain body where "msg_text m = Inr body" using msg_text_ok by blast
  moreover have "\<not> bad_productor (mp_id m)" using assms(2) Mq_msg by (simp add: mq_ok_def)
  ultimately show ?thesis
    using Mq_msg by (auto simp: handle_mq_def handle_producer_msg_def Let_def
        intro!: returns_rules env_ok_returns [OF assms(1)])
qed

lemma returns_gc_packets_loop:
  "env_ok E \<Longrightarrow> returns (\<lambda>_. True) (gc_packets_loop E now i ps)"
  by (induction ps arbitrary: i) (auto intro!: returns_rules env_ok_returns)

lemma returns_garb_collec_old_packets:
  "env_ok E \<Longrightarrow> returns (\<lambda>_. True) (garb_collec_old_packets E period)"
  unfolding garb_collec_old_packets_def
  by (intro returns_rules env_ok_returns returns_gc_packets_loop)

lemma returns_gc_conn_loop: "env_ok E \<Longrightarrow> returns (\<lambda>_. True) (gc_conn_loop E now i cs)"
  by (induction cs arbitrary: i) (auto intro!: returns_rules env_ok_returns)

lemma returns_garb_collec_old_conn:
  "env_ok E \<Longrightarrow> returns (\<lambda>_. True) (garb_collec_old_conn E period)"
  unfolding garb_collec_old_conn_def by (intro returns_rules returns_gc_conn_loop)

lemma srv_step_returns:
  assumes "env_ok E" and "event_ok E s e"
  shows "\<exists>u t. srv_step E e s = Inr (u, t)"
proof -
  have "returns (\<lambda>_. True) (srv_step E e)"
    using assms by (cases e) (auto simp: event_ok_def returns_handle_client_event
        returns_handle_cli_event returns_handle_mq returns_garb_collec_old_conn
        returns_garb_collec_old_packets returns_emit)
  then show ?thesis by (auto simp: returns_def)
qed

section \<open>The loop as a run of events\<close>

definition sane_inv :: "env \<Rightarrow> 'z srv_scheme \<Rightarrow> bool" where
  "sane_inv E s \<longleftrightarrow> env_ok E \<and> srv_inv s"

interpretation srv_loop: step_system "srv_step E" "event_ok E" "sane_inv E"
proof unfold_locales
  fix s e a and t :: "'z srv_scheme"
  assume "sane_inv E s" "event_ok E s e" "srv_step E e s = Inr (a, t)"
  then show "sane_inv E t" by (auto simp: sane_inv_def env_ok_def intro: srv_step_inv)
next
  fix s :: "'z srv_scheme" and e
  assume "sane_inv E s" "event_ok E s e"
  then show "\<exists>a t. srv_step E e s = Inr (a, t)" by (metis sane_inv_def srv_step_returns)
qed

text \<open>The events of an iteration, in the order the code handles them.\<close>

definition events_of :: "iter_input \<Rightarrow> srv_event list" where
  "events_of inp = (case in_clients inp of
      None \<Rightarrow> [Ev_poll_failed ''epoll '']
    | Some evs \<Rightarrow> map Ev_client evs @ (case in_cli inp of
          None \<Rightarrow> [Ev_poll_failed ''epoll CLI'']
        | Some cevs \<Rightarrow> map Ev_cli cevs @ [Ev_mq (in_mq inp), Ev_gc_conn, Ev_gc_packets]))"

text \<open>Every event satisfies the assumptions on the peers in the state that meets it.\<close>

fun events_ok :: "env \<Rightarrow> 'z srv_scheme \<Rightarrow> srv_event list \<Rightarrow> bool" where
  "events_ok E s [] = True"
| "events_ok E s (e # es) = (event_ok E s e \<and>
     (case srv_step E e s of Inl _ \<Rightarrow> True | Inr (_, t) \<Rightarrow> events_ok E t es))"

lemma events_ok_run_ok: "events_ok E s es = srv_loop.run_ok E s es"
  by (induction es arbitrary: s) (simp_all split: sum.splits)

lemma run_append: "run step (es @ fs) = seq (run step es) (run step fs)"
  by (induction es) (simp_all add: seq_assoc, simp add: seq_def bnd_def)

lemma run_map: "run step (map f xs) = for_each (\<lambda>x. step (f x)) xs"
  by (induction xs) simp_all

lemma seq_skip_right: "seq m skip = (m :: ('s, unit) comp)"
  by (auto simp: seq_def bnd_def fun_eq_iff split: sum.splits)

lemma srv_iteration_run: "srv_iteration E inp = run (srv_step E) (events_of inp)"
  by (auto simp: srv_iteration_def events_of_def run_append run_map seq_skip_right
      split: option.splits)

lemma run_concat: "run (\<lambda>x. run step (f x)) xs = run step (concat (map f xs))"
  by (induction xs) (simp_all add: run_append)

lemma run_iterations:
  "run (srv_iteration E) inputs = run (srv_step E) (concat (map events_of inputs))"
  by (simp add: srv_iteration_run [abs_def] run_concat)

lemma iterations_return_inv:
  assumes "env_ok E" and "srv_inv s" and "events_ok E s (concat (map events_of inputs))"
  shows "\<exists>t. run (srv_iteration E) inputs s = Inr ((), t) \<and> srv_inv t"
  using srv_loop.run_returns_inv [of E s "concat (map events_of inputs)"] assms
  by (simp add: sane_inv_def run_iterations events_ok_run_ok)

section \<open>The set-up\<close>

lemma srv_setup_inv:
  assumes "srv_setup E a s = Inr (u, t)"
  shows "srv_inv t" and "connections t = []" and "buffer_packets t = []" and "susc_room t = (\<lambda>_. [])"
proof -
  show c: "connections t = []" "buffer_packets t = []" "susc_room t = (\<lambda>_. [])"
    using assms by (auto simp: srv_setup_def die_def setup_tcpsocket_def comp_inv split: if_splits)
  show "srv_inv t" by (simp add: srv_inv_def c sess_inv_init)
qed

end
