(* ===== verification/Server_Actions.thy ===== *)
theory Server_Actions
  imports Server_Runs
begin

text \<open>
  What the handlers of the server put on the wire: the bytes they send and write, and the
  descriptors they close, next to their effect on the state. A handler here returns as well, the
  environment being sane.
\<close>

section \<open>The calls the handlers share\<close>

lemma log_line_run:
  assumes "log_ok E"
  shows "\<exists>t. log_line E f x s = Inr ((), t) \<and> writes (actions t) = writes (actions s) \<and>
    sends (actions t) = sends (actions s) \<and> closes (actions t) = closes (actions s) \<and>
    proc.more t = proc.more s \<and> ntime t = Suc (ntime s)"
proof -
  have "length (fmt_time E (clk E (ntime s))) < 50" using assms by (simp add: log_ok_def)
  then show ?thesis
    by (simp add: log_line_def log_event_def get_datetime_def sys_time_def emit_def comp_defs
        Let_def min_def)
qed

lemma env_ok_log_line:
  "env_ok E \<Longrightarrow> \<exists>t. log_line E f x s = Inr ((), t) \<and> writes (actions t) = writes (actions s) \<and>
    sends (actions t) = sends (actions s) \<and> closes (actions t) = closes (actions s) \<and>
    proc.more t = proc.more s \<and> ntime t = Suc (ntime s)"
  by (simp add: env_ok_def log_line_run)

lemma env_ok_gen_packet:
  "env_ok E \<Longrightarrow> length pl \<le> PAYLOAD_SIZE \<Longrightarrow> n = length pl \<Longrightarrow> gen_packet E ty pl n s =
     Inr ((0, sealed E (clk E (ntime s)) ty pl), s\<lparr>ntime := Suc (ntime s)\<rparr>)"
  by (simp add: gen_packet_ok env_ok_def clock_ok_def)

lemma send_run:
  "\<exists>t. attempt_perror E (Send fd bs) msg s = Inr ((), t) \<and> proc.more t = proc.more s \<and>
    sends (actions t) = sends (actions s) @ [(fd, bs)] \<and>
    writes (actions t) = writes (actions s) \<and> closes (actions t) = closes (actions s)"
  by (auto simp: attempt_perror_def bnd_def attempt_def emit_def when_do_def split: option.splits)

lemma write_run:
  "\<exists>t. attempt_perror E (Write fd bs) msg s = Inr ((), t) \<and> proc.more t = proc.more s \<and>
    ntime t = ntime s \<and> writes (actions t) = writes (actions s) @ [(fd, bs)] \<and>
    sends (actions t) = sends (actions s) \<and> closes (actions t) = closes (actions s)"
  by (auto simp: attempt_perror_def bnd_def attempt_def emit_def when_do_def split: option.splits)

lemma broadcast_one_run:
  "\<exists>t. bnd (attempt E (Send fd bs)) (\<lambda>n. case n of None \<Rightarrow> skip
      | Some err \<Rightarrow> if err = EPIPE then skip else emit (Perror ''write broadcast'')) s = Inr ((), t) \<and>
    proc.more t = proc.more s \<and> sends (actions t) = sends (actions s) @ [(fd, bs)] \<and>
    writes (actions t) = writes (actions s) \<and> closes (actions t) = closes (actions s)"
  by (auto simp: bnd_def attempt_def emit_def split: option.splits)

lemma broadcast_room_run:
  "\<exists>t. broadcast_room E room msg s = Inr ((), t) \<and> proc.more t = proc.more s \<and>
    sends (actions t) = sends (actions s) @ map (\<lambda>fd. (fd, packet_bytes msg)) room \<and>
    writes (actions t) = writes (actions s) \<and> closes (actions t) = closes (actions s)"
proof (induction room arbitrary: s)
  case Nil
  then show ?case by (simp add: broadcast_room_def)
next
  case (Cons fd room)
  from broadcast_one_run [of E fd "packet_bytes msg" s] obtain u where
    u: "bnd (attempt E (Send fd (packet_bytes msg))) (\<lambda>n. case n of None \<Rightarrow> skip
      | Some err \<Rightarrow> if err = EPIPE then skip else emit (Perror ''write broadcast'')) s = Inr ((), u)"
    "proc.more u = proc.more s" "sends (actions u) = sends (actions s) @ [(fd, packet_bytes msg)]"
    "writes (actions u) = writes (actions s)" "closes (actions u) = closes (actions s)"
    by blast
  have "broadcast_room E (fd # room) msg s = broadcast_room E room msg u"
    unfolding broadcast_room_def for_each.simps using u(1) by (rule seq_apply)
  with Cons.IH [of u] u(2-) show ?case by auto
qed

text \<open>The packets sent again to a client that comes back: those not older than its last sign of life.\<close>

lemma resend_loop_run:
  "\<exists>t. resend_loop E fd since ps s = Inr ((), t) \<and> proc.more t = proc.more s \<and>
    sends (actions t) = sends (actions s) @
      map (\<lambda>p. (fd, packet_bytes p)) (filter (\<lambda>p. sint since \<le> sint (p_timestamp p)) ps) \<and>
    writes (actions t) = writes (actions s) \<and> closes (actions t) = closes (actions s)"
proof (induction ps arbitrary: s)
  case Nil
  then show ?case by simp
next
  case (Cons p ps)
  show ?case
  proof (cases "sint since > sint (p_timestamp p)")
    case True
    with Cons.IH [of "s\<lparr>ntime := Suc (ntime s)\<rparr>"] show ?thesis
      by (auto simp: bnd_def sys_time_def)
  next
    case False
    let ?s = "s\<lparr>ntime := Suc (ntime s)\<rparr>" and ?msg = "''send reenv'' @ i_acute @ ''o ''"
    from send_run [of E fd "packet_bytes p" ?msg ?s] obtain u where
      u: "attempt_perror E (Send fd (packet_bytes p)) ?msg ?s = Inr ((), u)"
      "proc.more u = proc.more s" "sends (actions u) = sends (actions s) @ [(fd, packet_bytes p)]"
      "writes (actions u) = writes (actions s)" "closes (actions u) = closes (actions s)"
      by auto
    have "resend_loop E fd since (p # ps) s = resend_loop E fd since ps u"
      using False u(1) by (simp add: bnd_def sys_time_def seq_def)
    with Cons.IH [of u] False u(2-) show ?thesis by auto
  qed
qed

lemma send_fin_run:
  assumes "env_ok E"
  shows "\<exists>t. send_fin E fd s = Inr ((), t) \<and> proc.more t = proc.more s \<and>
    writes (actions t) = writes (actions s) @ [(fd, packet_bytes (sealed E (clk E (ntime s)) M_TYPE_FIN []))] \<and>
    sends (actions t) = sends (actions s) \<and> closes (actions t) = closes (actions s)"
  by (simp add: send_fin_def bnd_def env_ok_gen_packet [OF assms] attempt_def)

lemma close_run:
  "\<exists>t. attempt_perror E (Close fd) msg s = Inr ((), t) \<and> proc.more t = proc.more s \<and>
    closes (actions t) = closes (actions s) @ [fd] \<and>
    sends (actions t) = sends (actions s) \<and> writes (actions t) = writes (actions s)"
  by (auto simp: attempt_perror_def bnd_def attempt_def emit_def when_do_def split: option.splits)

section \<open>Connections\<close>

lemma new_connection_run:
  assumes E: "env_ok E"
  shows "\<exists>t now. new_connection E connfd s = Inr ((), t) \<and>
    writes (actions t) = writes (actions s) @
      [(connfd, packet_bytes (sealed E now M_TYPE_CONN_ACCEPTED (le32 (rnd E (nrand s)))))]"
proof -
  let ?tok = "rnd E (nrand s)"
  obtain s1 where s1: "when_do (connfd = -1) (emit (Perror (dm @ ''accept: ''))) s = Inr ((), s1)"
    "writes (actions s1) = writes (actions s)" "nrand s1 = nrand s" "proc.more s1 = proc.more s"
    by (cases "connfd = -1") (simp_all add: when_do_def emit_def)
  obtain s2 where s2: "add_fd E (epollfd s1) connfd s1 = Inr ((), s2)"
    "writes (actions s2) = writes (actions s)" "nrand s2 = nrand s"
    using s1 by (simp add: add_fd_def bnd_def attempt_def set_non_blocking_def emit_def)
  let ?s3 = "s2\<lparr>nrand := Suc (nrand s2)\<rparr>"
  let ?p = "sealed E (clk E (ntime ?s3)) M_TYPE_CONN_ACCEPTED (le32 ?tok)"
  let ?s4 = "?s3\<lparr>ntime := Suc (ntime ?s3)\<rparr>"
  have g: "gen_packet E M_TYPE_CONN_ACCEPTED (le32 ?tok) 4 ?s3 = Inr ((0, ?p), ?s4)"
    by (rule env_ok_gen_packet [OF E]) simp_all
  have r: "sys_rand E s2 = Inr (?tok, ?s3)" using s2(3) by (simp add: sys_rand_def)
  from write_run [of E connfd "packet_bytes ?p" "''write CLI_CONNECTED: ''" ?s4] obtain s5 where
    s5: "attempt_perror E (Write connfd (packet_bytes ?p)) ''write CLI_CONNECTED: '' ?s4 = Inr ((), s5)"
    "writes (actions s5) = writes (actions ?s4) @ [(connfd, packet_bytes ?p)]" by blast
  from env_ok_log_line [OF E, of Log_clientes "msg_aceptado connfd ?tok" s5] obtain s6 where
    s6: "log_line E Log_clientes (msg_aceptado connfd ?tok) s5 = Inr ((), s6)"
    "writes (actions s6) = writes (actions s5)" by blast
  have "\<exists>t. new_connection E connfd s = Inr ((), t) \<and> writes (actions t) = writes (actions s6)"
    using s5(1) s6(1) g by (simp add: new_connection_def seq_def bnd_def s1(1) s2(1) r sys_time_def)
  with s2(2) s5(2) s6(2) show ?thesis by auto
qed

section \<open>Messages of the producers\<close>

lemma handle_producer_msg_run:
  assumes E: "env_ok E" and body: "msg_text m = Inr body" "length body \<le> PAYLOAD_SIZE"
    and id: "\<not> bad_productor (mp_id m)"
  shows "\<exists>t now q. handle_producer_msg E m s = Inr ((), t) \<and> now = clk E (Suc (ntime s)) \<and>
    q = (sealed E now M_TYPE_DATA body)\<lparr>p_timestamp := mp_timestamp m\<rparr> \<and>
    sends (actions t) = sends (actions s) @
      map (\<lambda>fd. (fd, packet_bytes q)) (susc_room s (nat (sint (mp_id m)))) \<and>
    writes (actions t) = writes (actions s) \<and> closes (actions t) = closes (actions s) \<and>
    buffer_packets t = q # buffer_packets s \<and> connections t = connections s \<and>
    susc_room t = susc_room s"
proof -
  let ?x = "dm @ ''Mensaje de productor: '' @ show_c_int (mp_id m) @ '' con timestamp = '' @
    show_nat (unat (mp_timestamp m)) @ '' recibido'' @ nl"
  obtain s1 where s1: "log_line E Log_productores ?x s = Inr ((), s1)" "proc.more s1 = proc.more s"
    "writes (actions s1) = writes (actions s)" "sends (actions s1) = sends (actions s)"
    "closes (actions s1) = closes (actions s)" "ntime s1 = Suc (ntime s)"
    using env_ok_log_line [OF E] by blast
  let ?now = "clk E (ntime s1)"
  let ?q = "(sealed E ?now M_TYPE_DATA body)\<lparr>p_timestamp := mp_timestamp m\<rparr>"
  let ?s2 = "s1\<lparr>ntime := Suc (ntime s1)\<rparr>" and ?room = "susc_room s (nat (sint (mp_id m)))"
  have g: "gen_packet E M_TYPE_DATA body (length body) s1 = Inr ((0, sealed E ?now M_TYPE_DATA body), ?s2)"
    by (rule env_ok_gen_packet [OF E body(2) refl])
  note c1 = more_same_core [OF s1(2)]
  obtain s3 where s3: "broadcast_room E ?room ?q ?s2 = Inr ((), s3)" "proc.more s3 = proc.more ?s2"
    "sends (actions s3) = sends (actions ?s2) @ map (\<lambda>fd. (fd, packet_bytes ?q)) ?room"
    "writes (actions s3) = writes (actions ?s2)" "closes (actions s3) = closes (actions ?s2)"
    using broadcast_room_run by blast
  have "proc.more s3 = proc.more s" using s1(2) s3(2) by simp
  note c3 = more_same_core [OF this]
  have "handle_producer_msg E m s =
      Inr ((), s3\<lparr>buffer_packets := l_add_start ?q (buffer_packets s3)\<rparr>)"
    using s1(1) g s3(1) body(1) id c1
    by (simp add: handle_producer_msg_def seq_def bnd_def Let_def same_core_def)
  then show ?thesis
    using s1 s3 c3
    by (intro exI [of _ "s3\<lparr>buffer_packets := l_add_start ?q (buffer_packets s3)\<rparr>"]
        exI [of _ ?now] exI [of _ ?q]) (simp add: same_core_def l_add_start_def)
qed

section \<open>Authentication\<close>

text \<open>
  A successful AUTH: the session \<open>old\<close> found at index \<open>k\<close> among the others gets the descriptor \<open>fd\<close>,
  its former descriptor is closed, and the buffered packets it may have missed are sent to \<open>fd\<close>.
\<close>

lemma handle_auth_run:
  assumes E: "env_ok E" and new: "payload_int2 p \<in> token ` set (connections s)"
    and cs: "cs = without (payload_int2 p) (connections s)" and old: "payload_int p \<in> token ` set cs"
    and k: "k = nat (find_token (payload_int p) cs)" and c: "c = cs ! k"
  shows "\<exists>t. handle_auth E fd p s = Inr ((), t) \<and> connections t = cs[k := c\<lparr>sockfd := fd\<rparr>] \<and>
    susc_room t = (\<lambda>i. if i < 3 then renamed (sockfd c) fd (susc_room s i) else susc_room s i) \<and>
    buffer_packets t = buffer_packets s \<and>
    sends (actions t) = sends (actions s) @ map (\<lambda>q. (fd, packet_bytes q))
      (filter (\<lambda>q. sint (timestamp c) \<le> sint (p_timestamp q)) (buffer_packets s)) \<and>
    writes (actions t) = writes (actions s) \<and> closes (actions t) = closes (actions s) @ [sockfd c]"
proof -
  have n: "find_token (payload_int2 p) (connections s) \<noteq> -1" using new by (simp add: find_token_iff)
  have o: "find_token (payload_int p) cs \<noteq> -1" using old by (simp add: find_token_iff)
  note f = find_token_some [OF o]
  let ?rooms = "\<lambda>i. if i < 3 then renamed (sockfd c) fd (susc_room s i) else susc_room s i"
  let ?s1 = "s\<lparr>connections := cs\<rparr>"
  let ?s2 = "?s1\<lparr>susc_room := ?rooms\<rparr>"
  have mv: "move_fds (sockfd c) fd ?s1 = Inr ((), ?s2)" by (simp add: move_all_effect cong: if_cong)
  from close_run [of E "sockfd c" "''close conexion vieja: ''" ?s2] obtain s3 where
    s3: "attempt_perror E (Close (sockfd c)) ''close conexion vieja: '' ?s2 = Inr ((), s3)"
    "proc.more s3 = proc.more ?s2" "closes (actions s3) = closes (actions s) @ [sockfd c]"
    "sends (actions s3) = sends (actions s)" "writes (actions s3) = writes (actions s)"
    by auto
  let ?s4 = "s3\<lparr>connections := (connections s3)[k := (connections s3 ! k)\<lparr>sockfd := fd\<rparr>]\<rparr>"
  have up: "upd_conn k (\<lambda>c. c\<lparr>sockfd := fd\<rparr>) s3 = Inr ((), ?s4)" by (simp add: upd_conn_apply)
  note c3 = more_same_core [OF s3(2), unfolded same_core_def]
  from resend_loop_run [of E fd "timestamp c" "buffer_packets s" ?s4] obtain s5 where
    s5: "resend_loop E fd (timestamp c) (buffer_packets s) ?s4 = Inr ((), s5)"
    "proc.more s5 = proc.more ?s4" "sends (actions s5) = sends (actions ?s4) @ map (\<lambda>q. (fd, packet_bytes q))
      (filter (\<lambda>q. sint (timestamp c) \<le> sint (p_timestamp q)) (buffer_packets s))"
    "writes (actions s5) = writes (actions ?s4)" "closes (actions s5) = closes (actions ?s4)"
    by blast
  let ?x = "dm @ ''Cliente reconectado con socket: '' @ show_int fd @ '' y token: '' @ show_c_int (token c) @ nl"
  from env_ok_log_line [OF E, of Log_clientes ?x s5] obtain t where
    t: "log_line E Log_clientes ?x s5 = Inr ((), t)" "writes (actions t) = writes (actions s5)"
    "sends (actions t) = sends (actions s5)" "closes (actions t) = closes (actions s5)"
    "proc.more t = proc.more s5" by blast
  have "handle_auth E fd p s = Inr ((), t)"
    using n f(4) mv s3(1) up s5(1) t(1) c3 unfolding k [symmetric] c [symmetric]
    by (simp add: handle_auth_def Let_def seq_def bnd_def without_def [symmetric] cs [symmetric] k [symmetric])
  moreover have "proc.more t = proc.more ?s4" using t(5) s5(2) by simp
  note c5 = more_same_core [OF this, unfolded same_core_def]
  ultimately show ?thesis
    using t s5 s3 c3 c5 c by (intro exI [of _ t]) simp
qed

section \<open>Idle connections\<close>

definition fin_write :: "env \<Rightarrow> int \<times> byte list \<Rightarrow> bool" where
  "fin_write E w \<longleftrightarrow> (\<exists>now. snd w = packet_bytes (sealed E now M_TYPE_FIN []))"

lemma report_close_run:
  "\<exists>t. report_close r s = Inr ((), t) \<and> proc.more t = proc.more s \<and>
    writes (actions t) = writes (actions s) \<and> sends (actions t) = sends (actions s) \<and>
    closes (actions t) = closes (actions s)"
  by (auto simp: report_close_def emit_def split: option.splits)

lemma report_delete_run:
  "\<exists>t. report_delete code i fd s = Inr ((), t) \<and> proc.more t = proc.more s \<and>
    writes (actions t) = writes (actions s) \<and> sends (actions t) = sends (actions s) \<and>
    closes (actions t) = closes (actions s)"
  by (simp add: report_delete_def when_do_def emit_def)

text \<open>Evicting one connection, up to the removal of its node.\<close>

lemma evict_run:
  assumes E: "env_ok E" and ex: "expired now c"
  shows "\<exists>u w. gc_conn_loop E now i (c # iter) s = gc_conn_loop E now i iter u \<and>
    connections u = l_delete i (connections s) \<and> fin_write E (sockfd c, w) \<and>
    writes (actions u) = writes (actions s) @ [(sockfd c, w)] \<and>
    closes (actions u) = closes (actions s) @ [sockfd c] \<and> sends (actions u) = sends (actions s)"
proof -
  let ?x = "dm @ ''Conexion con cliente con token: '' @ show_c_int (token c) @ '' y socket: '' @
    show_int (sockfd c) @ '' cerrada'' @ nl"
  let ?fd = "sockfd c"
  from env_ok_log_line [OF E, of Log_clientes ?x s] obtain s1 where
    s1: "log_line E Log_clientes ?x s = Inr ((), s1)" "writes (actions s1) = writes (actions s)"
    "sends (actions s1) = sends (actions s)" "closes (actions s1) = closes (actions s)"
    "proc.more s1 = proc.more s" by blast
  let ?w = "packet_bytes (sealed E (clk E (ntime s1)) M_TYPE_FIN [])"
  from send_fin_run [OF E, of ?fd s1] obtain s2 where
    s2: "send_fin E ?fd s1 = Inr ((), s2)" "proc.more s2 = proc.more s1"
    "writes (actions s2) = writes (actions s1) @ [(?fd, ?w)]"
    "sends (actions s2) = sends (actions s1)" "closes (actions s2) = closes (actions s1)" by blast
  let ?rooms = "\<lambda>j. if j < 3 then remove1 ?fd (susc_room s2 j) else susc_room s2 j"
  let ?sa = "s2\<lparr>nio := Suc (nio s2), actions := actions s2 @ [Epoll_del (epollfd s2) ?fd]\<rparr>"
  let ?sb = "?sa\<lparr>susc_room := ?rooms\<rparr>"
  let ?s3 = "?sb\<lparr>nio := Suc (nio ?sb), actions := actions ?sb @ [Close ?fd]\<rparr>"
  have a: "attempt E (Epoll_del (epollfd s2) ?fd) s2 = Inr (io_err E (nio s2), ?sa)"
    and b: "leave_rooms ?fd ?sa = Inr ((), ?sb)"
    and cl: "attempt E (Close ?fd) ?sb = Inr (io_err E (Suc (nio s2)), ?s3)"
    by (simp_all add: attempt_def leave_all_effect cong: if_cong)
  from report_close_run [of "io_err E (Suc (nio s2))" ?s3] obtain s4 where
    s4: "report_close (io_err E (Suc (nio s2))) ?s3 = Inr ((), s4)" "proc.more s4 = proc.more ?s3"
    "writes (actions s4) = writes (actions ?s3)" "sends (actions s4) = sends (actions ?s3)"
    "closes (actions s4) = closes (actions ?s3)" by blast
  let ?s5 = "s4\<lparr>connections := l_delete i (connections s4)\<rparr>"
  from report_delete_run [of "l_delete_code i (connections s4)" i ?fd ?s5] obtain u where
    u: "report_delete (l_delete_code i (connections s4)) i ?fd ?s5 = Inr ((), u)"
    "proc.more u = proc.more ?s5" "writes (actions u) = writes (actions ?s5)"
    "sends (actions u) = sends (actions ?s5)" "closes (actions u) = closes (actions ?s5)" by blast
  have "gc_conn_loop E now i (c # iter) s = gc_conn_loop E now i iter u"
    using ex s1(1)
    by (simp only: gc_conn_loop.simps if_True seq_def bnd_apply s2(1) gets_apply a b cl s4(1) u(1)
        bnd_gets modify_apply)
  moreover have "connections u = l_delete i (connections s)"
    using more_same_core [OF u(2)] more_same_core [OF s4(2)] more_same_core [OF s2(2)]
      more_same_core [OF s1(5)] by (simp add: same_core_def)
  ultimately show ?thesis
    using s1 s2 s4 u by (intro exI [of _ u] exI [of _ ?w]) (auto simp: fin_write_def)
qed

lemma gc_conn_loop_run:
  assumes E: "env_ok E"
  shows "\<exists>t ws. gc_conn_loop E now i iter s = Inr ((), t) \<and>
    writes (actions t) = writes (actions s) @ ws \<and>
    map fst ws = map sockfd (filter (expired now) iter) \<and> (\<forall>w \<in> set ws. fin_write E w) \<and>
    closes (actions t) = closes (actions s) @ map sockfd (filter (expired now) iter) \<and>
    sends (actions t) = sends (actions s)"
proof (induction iter arbitrary: i s)
  case Nil
  then show ?case by simp
next
  case (Cons c iter)
  show ?case
  proof (cases "expired now c")
    case True
    from evict_run [OF E True, of i iter s] obtain u w where
      u: "gc_conn_loop E now i (c # iter) s = gc_conn_loop E now i iter u" "fin_write E (sockfd c, w)"
      "writes (actions u) = writes (actions s) @ [(sockfd c, w)]"
      "closes (actions u) = closes (actions s) @ [sockfd c]" "sends (actions u) = sends (actions s)"
      by blast
    from Cons.IH [of i u] obtain t ws where "gc_conn_loop E now i iter u = Inr ((), t)"
      "writes (actions t) = writes (actions u) @ ws" "map fst ws = map sockfd (filter (expired now) iter)"
      "\<forall>w \<in> set ws. fin_write E w" "sends (actions t) = sends (actions u)"
      "closes (actions t) = closes (actions u) @ map sockfd (filter (expired now) iter)" by blast
    with u True show ?thesis
      by (intro exI [of _ t] exI [of _ "(sockfd c, w) # ws"]) simp
  next
    case False
    with Cons.IH [of "i + 1" s] show ?thesis by simp
  qed
qed

section \<open>Refusals and commands\<close>

lemma two_logs_fin_run:
  assumes E: "env_ok E"
  shows "\<exists>t now. seq (log_line E f x) (seq (log_line E g y) (send_fin E fd)) s = Inr ((), t) \<and>
    proc.more t = proc.more s \<and>
    writes (actions t) = writes (actions s) @ [(fd, packet_bytes (sealed E now M_TYPE_FIN []))] \<and>
    sends (actions t) = sends (actions s) \<and> closes (actions t) = closes (actions s)"
proof -
  from env_ok_log_line [OF E, of f x s] obtain s1 where
    s1: "log_line E f x s = Inr ((), s1)" "writes (actions s1) = writes (actions s)"
    "sends (actions s1) = sends (actions s)" "closes (actions s1) = closes (actions s)"
    "proc.more s1 = proc.more s" by blast
  from env_ok_log_line [OF E, of g y s1] obtain s2 where
    s2: "log_line E g y s1 = Inr ((), s2)" "writes (actions s2) = writes (actions s1)"
    "sends (actions s2) = sends (actions s1)" "closes (actions s2) = closes (actions s1)"
    "proc.more s2 = proc.more s1" by blast
  from send_fin_run [OF E, of fd s2] s1 s2 show ?thesis by (auto simp: seq_def bnd_def)
qed

lemma handle_auth_refused:
  assumes E: "env_ok E"
    and refused: "payload_int2 p \<notin> token ` set (connections s) \<or>
      payload_int p \<notin> token ` set (without (payload_int2 p) (connections s))"
  shows "\<exists>t now. handle_auth E fd p s = Inr ((), t) \<and>
    writes (actions t) = writes (actions s) @ [(fd, packet_bytes (sealed E now M_TYPE_FIN []))] \<and>
    sends (actions t) = sends (actions s) \<and> closes (actions t) = closes (actions s)"
proof (cases "payload_int2 p \<in> token ` set (connections s)")
  case False
  then have "handle_auth E fd p s = seq (log_line E Log_clientes (''list_find conexion con token nuevo'' @ nl))
      (seq (log_line E Log_clientes msg_fallo) (send_fin E fd)) s"
    by (simp add: handle_auth_def Let_def find_token_iff [symmetric])
  with two_logs_fin_run [OF E] show ?thesis by metis
next
  case True
  let ?s = "s\<lparr>connections := without (payload_int2 p) (connections s)\<rparr>"
  have n: "find_token (payload_int2 p) (connections s) \<noteq> -1" using True by (simp add: find_token_iff)
  have o: "find_token (payload_int p) (without (payload_int2 p) (connections s)) = -1"
    using True refused by (simp add: find_token_iff)
  have "handle_auth E fd p s = seq (log_line E Log_clientes msg_fallo)
      (seq (log_line E Log_clientes (''list_find conexion con token viejo'' @ nl)) (send_fin E fd)) ?s"
    using n o by (simp add: handle_auth_def Let_def without_def [symmetric])
  moreover obtain t now where
    "seq (log_line E Log_clientes msg_fallo)
      (seq (log_line E Log_clientes (''list_find conexion con token viejo'' @ nl)) (send_fin E fd)) ?s = Inr ((), t)"
    "writes (actions t) = writes (actions ?s) @ [(fd, packet_bytes (sealed E now M_TYPE_FIN []))]"
    "sends (actions t) = sends (actions ?s)" "closes (actions t) = closes (actions ?s)"
    using two_logs_fin_run [OF E] by metis
  ultimately show ?thesis by auto
qed

text \<open>The state after a subscription of session \<open>k\<close> to room \<open>i\<close> at time \<open>now\<close>, but for the actions.\<close>

lemma cmd_add_run:
  assumes E: "env_ok E" and ok: "\<not> bad_productor (productor c)"
    and new: "sockfd conn \<notin> set (susc_room s (nat (sint (productor c))))"
  shows "\<exists>t now. cmd_add E c ix conn s = Inr (True, t) \<and>
    sends (actions t) = sends (actions s) @
      [(sockfd conn, packet_bytes (sealed E now M_TYPE_CLI_ACCEPTED []))]"
proof -
  let ?i = "nat (sint (productor c))"
  let ?s1 = "s\<lparr>susc_room := (susc_room s)(?i := l_add_last (sockfd conn) (susc_room s ?i))\<rparr>"
  let ?s2 = "?s1\<lparr>connections := (connections s)[ix := (connections s ! ix)
    \<lparr>susc_counter := susc_counter (connections s ! ix) + 1\<rparr>]\<rparr>"
  let ?p = "sealed E (clk E (ntime ?s2)) M_TYPE_CLI_ACCEPTED []"
  let ?s3 = "?s2\<lparr>ntime := Suc (ntime ?s2)\<rparr>"
  from send_run [of E "sockfd conn" "packet_bytes ?p" "''write CMD_ADD: ''" ?s3] obtain s4 where
    s4: "attempt_perror E (Send (sockfd conn) (packet_bytes ?p)) ''write CMD_ADD: '' ?s3 = Inr ((), s4)"
    "sends (actions s4) = sends (actions ?s3) @ [(sockfd conn, packet_bytes ?p)]" by blast
  let ?x = "dm @ ''Agregado cliente con socket: '' @ show_int (sockfd conn) @ '' y token: '' @
    show_c_int (token conn) @ '' a lista del productor '' @ show_c_int (productor c) @ nl"
  from env_ok_log_line [OF E, of Log_clientes ?x s4] obtain s5 where
    s5: "log_line E Log_clientes ?x s4 = Inr ((), s5)" "sends (actions s5) = sends (actions s4)" by blast
  have ff: "find_fd (sockfd conn) (susc_room s ?i) = -1" using new by (simp add: find_fd_iff)
  have a: "set_room ?i (l_add_last (sockfd conn) (susc_room s ?i)) s = Inr ((), ?s1)"
    and b: "upd_conn ix (\<lambda>c. c\<lparr>susc_counter := susc_counter c + 1\<rparr>) ?s1 = Inr ((), ?s2)"
    and g: "gen_packet E M_TYPE_CLI_ACCEPTED [] 0 ?s2 = Inr ((0, ?p), ?s3)"
    by (simp_all add: set_room_apply upd_conn_apply env_ok_gen_packet [OF E])
  have "cmd_add E c ix conn s = Inr (True, s5)"
    using ok by (simp only: cmd_add_def Let_def bnd_gets ff simp_thms if_False seq_def
        bnd_apply a b g s4(1) s5(1) prod.case ret_apply)
  with s4 s5 show ?thesis by auto
qed

end
