(* ===== verification/Server_Properties.thy ===== *)
theory Server_Properties
  imports Server_Actions
begin

text \<open>
  The properties of the delivery manager: runs, the garbage collectors, authentication, commands
  and broadcasting. Each rests on the effect, invariant and action lemmas of the theories below.
\<close>

section \<open>A concrete state\<close>

definition old0 :: connection_t where
  "old0 = \<lparr>timestamp = 90, susc_counter = 1, sockfd = 5, token = 11\<rparr>"

definition new0 :: connection_t where
  "new0 = \<lparr>timestamp = 99, susc_counter = 0, sockfd = 6, token = 12\<rparr>"

definition data0 :: packet_t where
  "data0 = sealed env0 95 M_TYPE_DATA [65, 0]"

definition srv0 :: srv where
  "srv0 = srv_start\<lparr>listenfd := 3, epollfd := 4, connections := [old0, new0],
     susc_room := (\<lambda>_. [])(0 := [5]), buffer_packets := [data0], last_time_cleanup := 80\<rparr>"

lemma srv0_simps [simp]: "connections srv0 = [old0, new0]" "susc_room srv0 = (\<lambda>_. [])(0 := [5])"
  "buffer_packets srv0 = [data0]" "last_time_cleanup srv0 = 80" "last_gc_time srv0 = 0"
  "actions srv0 = []" "listenfd srv0 = 3" "nrand srv0 = 0"
  by (simp_all add: srv0_def srv_start_def)

lemma data0_simps [simp]: "p_mtype data0 = M_TYPE_DATA" "p_timestamp data0 = 95" "packet_wf data0"
  by (simp_all add: data0_def sealed_wf)

lemma srv_inv_srv0 [simp]: "srv_inv srv0"
  by (auto simp: srv_inv_def sess_inv_def subs_sum old0_def new0_def)

definition add0 :: command_t where
  "add0 = \<lparr>ctype = CMD_ADD, socket = 12, productor = 0\<rparr>"

definition report0 :: msg_producer_t where
  "report0 = \<lparr>mp_id = 0, mp_timestamp = 99, mp_data = replicate 40 0\<rparr>"

lemma mq_ok_Mq_err [simp]: "mq_ok (Mq_err e)"
  by (simp add: mq_ok_def)

lemma mq_ok_report0 [simp]: "mq_ok (Mq_msg report0)"
  by (simp add: mq_ok_def msg_wf_def report0_def bad_productor_def)

lemma returns_unit: "returns (\<lambda>_. True) m \<Longrightarrow> \<exists>t. m s = Inr ((), t)"
  by (simp add: returns_def)

lemma without_srv0 [simp]: "without 12 (connections srv0) = [old0]"
  unfolding srv0_simps old0_def new0_def by code_simp

definition setup0 :: setup_answers where
  "setup0 = \<lparr>r_setrlimit = 0, r_fopen = True, r_args = [''DeliveryManager'', ''5001''], r_socket = 3,
     r_bind = 0, r_pid = 42, r_listen = 0, r_epoll = 4, r_cli_fd = 5, r_epoll_cli = 6, r_mq = 7\<rparr>"

text \<open>A client connects, is subscribed to producer 0 by a command, and a message of that producer
  arrives.\<close>

definition inputs0 :: "iter_input list" where
  "inputs0 =
     [\<lparr>in_clients = Some [\<lparr>ev_fd = 3, ev_hup = False, ev_in = True, ev_accept = 8, ev_read = R_ok [],
        ev_junk = []\<rparr>], in_cli = Some [], in_mq = Mq_err EAGAIN\<rparr>,
      \<lparr>in_clients = Some [], in_cli = Some [\<lparr>cev_in = True, cev_read = R_ok (command_bytes
        \<lparr>ctype = CMD_ADD, socket = 0, productor = 0\<rparr>), cev_junk = replicate 12 0\<rparr>],
        in_mq = Mq_msg report0\<rparr>]"

lemma events_ok_anywhere:
  fixes s :: "'z srv_scheme"
  shows "(\<And>e (s :: 'z srv_scheme). e \<in> set es \<Longrightarrow> event_ok E s e) \<Longrightarrow> events_ok E s es"
proof (induction es arbitrary: s)
  case (Cons e es)
  have "event_ok E s e" by (rule Cons.prems) simp
  moreover have "events_ok E t es" for t :: "'z srv_scheme" by (rule Cons.IH) (rule Cons.prems, simp)
  ultimately show ?case by (simp split: sum.splits)
qed simp

definition failed_accept0 :: client_event where
  "failed_accept0 = \<lparr>ev_fd = 3, ev_hup = False, ev_in = True, ev_accept = -1, ev_read = R_ok [], ev_junk = []\<rparr>"

section \<open>Frames of the whole loop\<close>

lemma quiet_keeps: "quiet m \<Longrightarrow> keeps (\<lambda>s. last_time_cleanup s = v) m"
  by (rule keepsI) (auto dest: quiet_same_core simp: same_core_def)

lemma keeps_option [keeps_rules]:
  "(\<And>y. x = Some y \<Longrightarrow> keeps P (k y)) \<Longrightarrow> (x = None \<Longrightarrow> keeps P m) \<Longrightarrow>
    keeps P (case x of None \<Rightarrow> m | Some y \<Rightarrow> k y)"
  by (cases x) simp_all

lemma keeps_prod [keeps_rules]:
  "(\<And>a b. x = (a, b) \<Longrightarrow> keeps P (k a b)) \<Longrightarrow> keeps P (case x of (a, b) \<Rightarrow> k a b)"
  by (cases x) simp

lemma keeps_cleanup_modify [keeps_rules]:
  "keeps (\<lambda>s. last_time_cleanup s = v) (upd_conn i f)"
  "keeps (\<lambda>s. last_time_cleanup s = v) (set_room i room)"
  "keeps (\<lambda>s. last_time_cleanup s = v) (modify (\<lambda>s. s\<lparr>connections := f1 s\<rparr>))"
  "keeps (\<lambda>s. last_time_cleanup s = v) (modify (\<lambda>s. s\<lparr>buffer_packets := f2 s\<rparr>))"
  "keeps (\<lambda>s. last_time_cleanup s = v) (modify (\<lambda>s. s\<lparr>last_gc_time := g\<rparr>))"
  by (simp_all add: keeps_def upd_conn_def set_room_def)

lemmas cleanup_rules = keeps_rules quiet_keeps [OF quiet_log_line] quiet_keeps [OF quiet_add_fd]
  quiet_keeps [OF quiet_send_fin] quiet_keeps [OF quiet_gen_packet] quiet_keeps [OF quiet_attempt]
  quiet_keeps [OF quiet_attempt_perror] quiet_keeps [OF quiet_emit] quiet_keeps [OF quiet_sys_time]
  quiet_keeps [OF quiet_sys_rand] quiet_keeps [OF quiet_resend_loop]
  quiet_keeps [OF quiet_broadcast_room] quiet_keeps [OF quiet_report_close]
  quiet_keeps [OF quiet_report_delete]

lemma keeps_gc_conn_loop: "keeps (\<lambda>s. last_time_cleanup s = v) (gc_conn_loop E now i cs)"
  by (induction cs arbitrary: i) (auto simp: leave_rooms_def leave_room_def intro!: cleanup_rules)

lemma keeps_gc_packets_loop: "keeps (\<lambda>s. last_time_cleanup s = v) (gc_packets_loop E now i ps)"
  by (induction ps arbitrary: i) (auto intro!: cleanup_rules)

lemma keeps_handle_auth: "keeps (\<lambda>s. last_time_cleanup s = v) (handle_auth E fd p)"
  unfolding handle_auth_def move_fds_def move_fd_def Let_def by (intro cleanup_rules)

lemma keeps_receive_packet: "keeps (\<lambda>s. last_time_cleanup s = v) (receive_packet E fd rd junk)"
  unfolding receive_packet_def handle_ack_def Let_def
  by (cases rd) (auto intro!: cleanup_rules keeps_handle_auth)

lemma keeps_handle_client_event: "keeps (\<lambda>s. last_time_cleanup s = v) (handle_client_event E ev)"
  unfolding handle_client_event_def new_connection_def hang_up_def
  by (intro cleanup_rules keeps_receive_packet)

lemma keeps_handle_cli_event: "keeps (\<lambda>s. last_time_cleanup s = v) (handle_cli_event E ev)"
  unfolding handle_cli_event_def do_command_def cmd_add_def cmd_del_def cmd_log_def Let_def
  by (cases "cev_read ev") (auto intro!: cleanup_rules)

lemma keeps_handle_mq: "keeps (\<lambda>s. last_time_cleanup s = v) (handle_mq E r)"
  unfolding handle_mq_def handle_producer_msg_def Let_def
  by (auto intro!: cleanup_rules split: mq_res.split sum.split)

lemma keeps_srv_step: "keeps (\<lambda>s. last_time_cleanup s = v) (srv_step E e)"
proof (cases e)
  case Ev_gc_conn
  then show ?thesis
    by (auto simp: garb_collec_old_conn_def intro!: cleanup_rules keeps_gc_conn_loop)
next
  case Ev_gc_packets
  then show ?thesis
    by (auto simp: garb_collec_old_packets_def intro!: cleanup_rules keeps_gc_packets_loop)
qed (auto intro!: keeps_handle_client_event keeps_handle_cli_event keeps_handle_mq cleanup_rules)

lemma keeps_run: "(\<And>e. keeps P (step e)) \<Longrightarrow> keeps P (run step es)"
  by (induction es) (auto intro!: keeps_rules)

section \<open>Runs\<close>

text \<open>C1. From the set-up on, every sequence of iterations whose events satisfy the assumptions on the
  peers (fresh descriptors and tokens, authentication on the own new session, well-formed messages)
  runs to its end without a fault, and leaves sessions, rooms and buffer consistent: tokens and
  descriptors identify sessions, rooms hold live descriptors once, \<open>susc_counter\<close> counts the rooms.\<close>

theorem server_runs:
  assumes "env_ok E" and "srv_setup E a srv_start = Inr ((), s)"
    and "events_ok E s (concat (map events_of inputs))"
  shows "\<exists>t. srv_main E a inputs srv_start = Inr ((), t) \<and> srv_inv t"
proof -
  obtain t where "run (srv_iteration E) inputs s = Inr ((), t)" "srv_inv t"
    using iterations_return_inv [OF assms(1) srv_setup_inv(1) [OF assms(2)] assms(3)] by blast
  with assms(2) show ?thesis by (simp add: srv_main_def seq_apply)
qed

theorem server_runs_witness:
  "\<exists>t. srv_main env0 setup0 inputs0 srv_start = Inr ((), t) \<and> srv_inv t"
proof -
  obtain s where s: "srv_setup env0 setup0 srv_start = Inr ((), s)"
    using env_ok_log_line [OF env_ok_env0, of Log_clientes _ srv_start]
    by (auto simp: setup0_def srv_setup_def setup_tcpsocket_def comp_inv add_fd_def
        set_non_blocking_def attempt_def emit_def sys_time_def) blast
  let ?es = "concat (map events_of inputs0)"
  obtain e where l: "?es = Ev_client e # tl ?es" by (simp add: inputs0_def events_of_def)
  have es: "event_ok env0 u f" if "f \<in> set (tl ?es)" for f and u :: srv
    using that by (auto simp: inputs0_def events_of_def event_ok_def)
  have "client_ok env0 s e"
    using srv_setup_inv(2) [OF s] by (auto simp: client_ok_def auth_ok_def split: option.split)
  then have "events_ok env0 s ?es"
    using events_ok_anywhere [of "tl ?es" env0, OF es]
    by (subst l) (simp add: event_ok_def split: sum.split)
  with s show ?thesis by (intro server_runs [OF env_ok_env0])
qed

text \<open>The set-up returns exactly when every call it tests succeeds and a port was given; otherwise
  the process ends.\<close>

theorem srv_setup_returns_iff:
  assumes "env_ok E"
  shows "(\<exists>t. srv_setup E a s = Inr ((), t)) \<longleftrightarrow>
    r_setrlimit a \<noteq> -1 \<and> r_fopen a \<and> 2 \<le> length (r_args a) \<and> 0 \<le> r_bind a \<and> r_socket a \<noteq> -1 \<and>
    r_listen a = 0 \<and> r_epoll a \<noteq> -1 \<and> r_epoll_cli a \<noteq> -1 \<and> 0 \<le> r_mq a"
proof -
  have log: "\<exists>t. log_line E f x s = Inr ((), t)" for f x and s :: srv
    using env_ok_log_line [OF assms] by blast
  show ?thesis
    using log [of Log_clientes _ s]
    by (auto simp: srv_setup_def die_def setup_tcpsocket_def comp_inv add_fd_def set_non_blocking_def
        attempt_def emit_def sys_time_def split: if_splits)
qed

theorem srv_setup_returns_iff_witness: "\<exists>t. srv_setup env0 setup0 srv_start = Inr ((), t)"
  using srv_setup_returns_iff [OF env_ok_env0, of setup0 srv_start] by (simp add: setup0_def)

section \<open>Idle connections\<close>

text \<open>C5. When the period has passed, the collector removes exactly the subscribed sessions that gave
  no sign of life for more than five seconds, takes their descriptors out of every room, sends each a
  FIN and closes its socket, in the order of the list.\<close>

theorem idle_sessions_evicted:
  assumes E: "env_ok E" and inv: "srv_inv s"
    and period: "period \<le> sint (clk E (ntime s)) - sint (last_time_cleanup s)"
  shows "\<exists>t ws. garb_collec_old_conn E period s = Inr ((), t) \<and>
    (let idle = filter (expired (clk E (ntime s))) (connections s) in
     connections t = filter (\<lambda>c. \<not> expired (clk E (ntime s)) c) (connections s) \<and>
     (\<forall>i<3. susc_room t i = filter (\<lambda>fd. fd \<notin> sockfd ` set idle) (susc_room s i)) \<and>
     writes (actions t) = writes (actions s) @ ws \<and> map fst ws = map sockfd idle \<and>
     (\<forall>w \<in> set ws. fin_write E w) \<and> closes (actions t) = closes (actions s) @ map sockfd idle)"
proof -
  let ?now = "clk E (ntime s)" and ?s = "s\<lparr>ntime := Suc (ntime s)\<rparr>"
  obtain t ws where t: "gc_conn_loop E ?now 0 (connections s) ?s = Inr ((), t)"
    "writes (actions t) = writes (actions ?s) @ ws" "\<forall>w \<in> set ws. fin_write E w"
    "map fst ws = map sockfd (filter (expired ?now) (connections s))"
    "closes (actions t) = closes (actions ?s) @ map sockfd (filter (expired ?now) (connections s))"
    using gc_conn_loop_run [OF E] by blast
  then have run: "garb_collec_old_conn E period s = Inr ((), t)"
    using period by (simp add: garb_collec_old_conn_def bnd_def sys_time_def)
  have "\<forall>i<3. distinct (susc_room s i)" using inv by (simp add: srv_inv_def sess_inv_def)
  with garb_collec_old_conn_effect [OF run] run t period show ?thesis
    by (intro exI [of _ t] exI [of _ ws]) (simp add: Let_def fold_remove1_distinct)
qed

theorem idle_sessions_evicted_witness:
  "\<exists>t ws. garb_collec_old_conn env0 5 srv0 = Inr ((), t) \<and> connections t = [new0] \<and>
    susc_room t 0 = [] \<and> writes (actions t) = ws \<and> map fst ws = [5] \<and> closes (actions t) = [5]"
  using idle_sessions_evicted [of env0 srv0 5]
  by (auto simp: Let_def expired_def old0_def new0_def)

text \<open>C35. \<open>garb_collec_old_conn\<close> is given the time of the last cleanup by reference and never updates it:
  along any run that time stays what the set-up read, so once five seconds have passed since the
  start the interval throttles nothing and every single call walks the connections.\<close>

theorem cleanup_time_never_moves:
  assumes "run (srv_step E) es s = Inr (u, t)"
    and "garb_collec_old_conn E CONN_TIMEOUT t = Inr (v, t')"
    and "sint (last_time_cleanup s) + CONN_TIMEOUT \<le> sint (clk E (ntime t))"
  shows "last_time_cleanup t' = last_time_cleanup s \<and>
    connections t' = filter (\<lambda>c. \<not> expired (clk E (ntime t)) c) (connections t)"
proof -
  have "last_time_cleanup t = last_time_cleanup s"
    using keepsD [OF keeps_run [OF keeps_srv_step] refl assms(1)] by simp
  with garb_collec_old_conn_effect [OF assms(2)] assms(3) show ?thesis
    by (simp add: Let_def same_rest_def)
qed

theorem cleanup_time_never_moves_witness:
  "\<exists>t'. garb_collec_old_conn env0 CONN_TIMEOUT srv0 = Inr ((), t') \<and> last_time_cleanup t' = 80 \<and>
    connections t' = [new0]"
proof -
  obtain t' where t': "garb_collec_old_conn env0 CONN_TIMEOUT srv0 = Inr ((), t')"
    using gc_conn_loop_run [of env0 100 0 "connections srv0" "srv0\<lparr>ntime := Suc (ntime srv0)\<rparr>"]
    by (auto simp: garb_collec_old_conn_def bnd_def sys_time_def)
  then show ?thesis
    using cleanup_time_never_moves [of env0 "[]" srv0 "()" srv0 "()" t']
    by (auto simp: skip_def ret_def expired_def old0_def new0_def)
qed

text \<open>C36. An ACK refreshes the session with its token and no other, and for the next five seconds that
  session is not evicted.\<close>

theorem ack_keeps_session_alive:
  assumes "srv_inv s" and "k < length (connections s)" and "payload_int p = token (connections s ! k)"
  shows "\<exists>t c. handle_ack E p s = Inr ((), t) \<and> connections t = (connections s)[k := c] \<and>
    token c = token (connections s ! k) \<and> sockfd c = sockfd (connections s ! k) \<and>
    timestamp c = clk E (ntime s) \<and>
    (\<forall>now. sint now \<le> sint (clk E (ntime s)) + 5 \<longrightarrow> \<not> expired now c)"
proof -
  have "find_token (payload_int p) (connections s) = int k"
    using assms find_token_unique [of "connections s" k] by (simp add: srv_inv_def sess_inv_def)
  then show ?thesis
    using assms(2)
    by (intro exI [of _ "s\<lparr>ntime := Suc (ntime s), connections :=
          (connections s)[k := (connections s ! k)\<lparr>timestamp := clk E (ntime s)\<rparr>]\<rparr>"]
        exI [of _ "(connections s ! k)\<lparr>timestamp := clk E (ntime s)\<rparr>"])
      (simp add: handle_ack_def Let_def bnd_def sys_time_def l_get_def upd_conn_def expired_def)
qed

theorem ack_keeps_session_alive_witness:
  "\<exists>t c. handle_ack env0 (sealed env0 100 M_TYPE_ACK (le32 11)) srv0 = Inr ((), t) \<and>
    connections t = [c, new0] \<and> timestamp c = 100 \<and> \<not> expired 105 c"
  using ack_keeps_session_alive [of srv0 0 "sealed env0 100 M_TYPE_ACK (le32 11)" env0]
  by (auto simp: payload_int_sealed old0_def)

section \<open>Authentication\<close>

text \<open>C6. A successful AUTH drops the new session, moves the old one to the new descriptor in every room
  it was in, closes its former socket, and resends every buffered packet that is not older than the
  session's last sign of life - those of every producer, in the order of the buffer.\<close>

theorem auth_resumes_session:
  assumes E: "env_ok E" and inv: "srv_inv s"
    and new: "payload_int2 p \<in> token ` set (connections s)"
    and old: "k < length (without (payload_int2 p) (connections s))"
      "token (without (payload_int2 p) (connections s) ! k) = payload_int p"
  shows "\<exists>t. handle_auth E fd p s = Inr ((), t) \<and>
    (let cs = without (payload_int2 p) (connections s); c = cs ! k in
     connections t = cs[k := c\<lparr>sockfd := fd\<rparr>] \<and>
     (\<forall>i<3. susc_room t i = map (\<lambda>d. if d = sockfd c then fd else d) (susc_room s i)) \<and>
     closes (actions t) = closes (actions s) @ [sockfd c] \<and>
     sends (actions t) = sends (actions s) @ map (\<lambda>q. (fd, packet_bytes q))
       (filter (\<lambda>q. sint (timestamp c) \<le> sint (p_timestamp q)) (buffer_packets s)))"
proof -
  let ?cs = "without (payload_int2 p) (connections s)"
  have dis: "distinct (map token ?cs)"
    using inv by (auto simp: without_def l_delete_def srv_inv_def sess_inv_def map_remove_nth distinct_remove_nth)
  have mem: "payload_int p \<in> token ` set ?cs" using old by (metis image_eqI nth_mem)
  have k: "k = nat (find_token (payload_int p) ?cs)"
    using find_token_unique [OF dis old(1)] old(2) by simp
  have "renamed d fd room = map (\<lambda>e. if e = d then fd else e) room" if "distinct room" for d room
  proof (cases "d \<in> set room")
    case True
    then have ne: "find_fd d room \<noteq> -1" by (simp add: find_fd_iff)
    note f = find_fd_some [OF ne]
    show ?thesis
      using that f ne by (auto simp: renamed_def Let_def list_eq_iff_nth_eq nth_list_update nth_eq_iff_index_eq)
  next
    case False
    then show ?thesis by (auto simp: renamed_absent intro: map_idI [symmetric])
  qed
  moreover have "\<forall>i<3. distinct (susc_room s i)" using inv by (simp add: srv_inv_def sess_inv_def)
  ultimately show ?thesis
    using handle_auth_run [OF E new refl mem k refl, of fd] by (auto simp: Let_def)
qed

theorem auth_resumes_session_witness:
  "\<exists>t. handle_auth env0 6 (sealed env0 100 M_TYPE_AUTH (le32 11 @ le32 12)) srv0 = Inr ((), t) \<and>
    connections t = [old0\<lparr>sockfd := 6\<rparr>] \<and> susc_room t 0 = [6] \<and> closes (actions t) = [5] \<and>
    sends (actions t) = [(6, packet_bytes data0)]"
  using auth_resumes_session [of env0 srv0 "sealed env0 100 M_TYPE_AUTH (le32 11 @ le32 12)" 0 6] without_srv0
  by (auto simp: payload_ints_sealed Let_def old0_def new0_def)

text \<open>C39. An AUTH that names an unknown session is refused with a FIN, resends nothing and closes nothing;
  when only the old token is unknown the new session is already gone from the list.\<close>

theorem auth_refused:
  assumes E: "env_ok E"
    and refused: "payload_int2 p \<notin> token ` set (connections s) \<or>
      payload_int p \<notin> token ` set (without (payload_int2 p) (connections s))"
  shows "\<exists>t now. handle_auth E fd p s = Inr ((), t) \<and> susc_room t = susc_room s \<and>
    connections t = (if payload_int2 p \<in> token ` set (connections s)
      then without (payload_int2 p) (connections s) else connections s) \<and>
    writes (actions t) = writes (actions s) @ [(fd, packet_bytes (sealed E now M_TYPE_FIN []))] \<and>
    sends (actions t) = sends (actions s) \<and> closes (actions t) = closes (actions s)"
proof -
  obtain t now where t: "handle_auth E fd p s = Inr ((), t)"
    "writes (actions t) = writes (actions s) @ [(fd, packet_bytes (sealed E now M_TYPE_FIN []))]"
    "sends (actions t) = sends (actions s)" "closes (actions t) = closes (actions s)"
    using handle_auth_refused [OF E refused] by blast
  with handle_auth_unknown_new [OF t(1)] handle_auth_unknown_old [OF t(1)] refused show ?thesis
    by (intro exI [of _ t] exI [of _ now]) (auto simp: same_core_def)
qed

theorem auth_refused_witness:
  "\<exists>t now. handle_auth env0 6 (sealed env0 100 M_TYPE_AUTH (le32 77 @ le32 12)) srv0 = Inr ((), t) \<and>
    connections t = [old0] \<and> writes (actions t) = [(6, packet_bytes (sealed env0 now M_TYPE_FIN []))]"
  using auth_refused [of env0 "sealed env0 100 M_TYPE_AUTH (le32 77 @ le32 12)" srv0 6] without_srv0
  by (auto simp: payload_ints_sealed old0_def new0_def)

section \<open>Commands\<close>

lemma do_command_known:
  assumes "sess_inv (connections s) (susc_room s)" and "k < length (connections s)"
    and "socket c = token (connections s ! k)"
  shows "do_command E c s = bnd (if ctype c = CMD_ADD then cmd_add E c k (connections s ! k)
      else if ctype c = CMD_DEL then cmd_del E c k (connections s ! k)
      else if ctype c = CMD_LOG then cmd_log E (connections s ! k) else ret True)
    (\<lambda>reached. when_do reached (bnd (sys_time E) (\<lambda>now. upd_conn k (\<lambda>c. c\<lparr>timestamp := now\<rparr>)))) s"
  using assms find_token_unique [of "connections s" k]
  by (simp add: do_command_def Let_def sess_inv_def l_get_def)

lemma do_command_result:
  assumes "sess_inv (connections s) (susc_room s)" and "k < length (connections s)"
    and "socket c = token (connections s ! k)" and "do_command E c s = Inr ((), u)"
  shows "\<exists>r s1 now. (if ctype c = CMD_ADD then cmd_add E c k (connections s ! k)
      else if ctype c = CMD_DEL then cmd_del E c k (connections s ! k)
      else if ctype c = CMD_LOG then cmd_log E (connections s ! k) else ret True) s = Inr (r, s1) \<and>
    u = (if r then s1\<lparr>ntime := Suc (ntime s1), connections :=
        (connections s1)[k := (connections s1 ! k)\<lparr>timestamp := now\<rparr>]\<rparr> else s1)"
proof -
  let ?touch = "\<lambda>r. when_do r (bnd (sys_time E) (\<lambda>now. upd_conn k (\<lambda>c. c\<lparr>timestamp := now\<rparr>)))"
  have "u = (if r then s1\<lparr>ntime := Suc (ntime s1), connections :=
      (connections s1)[k := (connections s1 ! k)\<lparr>timestamp := clk E (ntime s1)\<rparr>]\<rparr> else s1)"
    if "?touch r s1 = Inr ((), u)" for r s1
    using that by (cases r) (simp_all add: when_do_def sys_time_def upd_conn_def bnd_def)
  with assms(4) show ?thesis unfolding do_command_known [OF assms(1-3)] bnd_Inr by blast
qed

text \<open>C7. A subscription takes effect for the next message: after \<open>add\<close>, the client has been sent a
  CLI_ACCEPTED and is in the room, and a message of that producer is sent to everyone who was in the
  room before and then to the client.\<close>

theorem subscribed_client_is_served:
  assumes E: "env_ok E" and inv: "srv_inv s" and k: "k < length (connections s)"
    and c: "ctype c = CMD_ADD" "socket c = token (connections s ! k)" "\<not> bad_productor (productor c)"
    and new: "sockfd (connections s ! k) \<notin> set (susc_room s (nat (sint (productor c))))"
    and m: "mp_id m = productor c" "msg_text m = Inr body" "length body \<le> PAYLOAD_SIZE"
  shows "\<exists>t u q accepted. do_command E c s = Inr ((), t) \<and> handle_producer_msg E m t = Inr ((), u) \<and>
    sends (actions t) = sends (actions s) @ [(sockfd (connections s ! k), packet_bytes accepted)] \<and>
    p_mtype accepted = M_TYPE_CLI_ACCEPTED \<and>
    p_mtype q = M_TYPE_DATA \<and> take (length body) (p_payload q) = body \<and>
    sends (actions u) = sends (actions t) @ map (\<lambda>fd. (fd, packet_bytes q))
      (susc_room s (nat (sint (productor c))) @ [sockfd (connections s ! k)])"
proof -
  let ?conn = "connections s ! k" and ?i = "nat (sint (productor c))"
  have sinv: "sess_inv (connections s) (susc_room s)" using inv by (simp add: srv_inv_def)
  obtain s1 now where s1: "cmd_add E c k ?conn s = Inr (True, s1)" "sends (actions s1) = sends (actions s) @
      [(sockfd ?conn, packet_bytes (sealed E now M_TYPE_CLI_ACCEPTED []))]"
    using cmd_add_run [OF E c(3) new] by blast
  let ?t = "s1\<lparr>ntime := Suc (ntime s1), connections :=
    (connections s1)[k := (connections s1 ! k)\<lparr>timestamp := clk E (ntime s1)\<rparr>]\<rparr>"
  have t: "do_command E c s = Inr ((), ?t)"
    using do_command_known [OF sinv k c(2), of E] c(1) s1(1)
    by (simp add: bnd_def when_do_def sys_time_def upd_conn_def)
  have rooms: "susc_room ?t ?i = susc_room s ?i @ [sockfd ?conn]"
    using cmd_add_effect [OF s1(1)] c(3) new by simp
  have "\<not> bad_productor (mp_id m)" using c(3) m(1) by simp
  from handle_producer_msg_run [OF E m(2,3) this, of ?t] obtain u q and now2 :: time_t where
    u: "handle_producer_msg E m ?t = Inr ((), u)"
    "q = (sealed E now2 M_TYPE_DATA body)\<lparr>p_timestamp := mp_timestamp m\<rparr>"
    "sends (actions u) = sends (actions ?t) @ map (\<lambda>fd. (fd, packet_bytes q)) (susc_room ?t (nat (sint (mp_id m))))"
    by blast
  have "take (length body) (p_payload q) = body" using u(2) take_pad_to [of body PAYLOAD_SIZE] by simp
  then show ?thesis
    using t u s1(2) rooms m(1)
    by (intro exI [of _ ?t] exI [of _ u] exI [of _ q] exI [of _ "sealed E now M_TYPE_CLI_ACCEPTED []"]) simp
qed

theorem subscribed_client_is_served_witness:
  "\<exists>t u q accepted. do_command env0 add0 srv0 = Inr ((), t) \<and>
    handle_producer_msg env0 report0 t = Inr ((), u) \<and>
    sends (actions t) = [(6, packet_bytes accepted)] \<and> p_mtype accepted = M_TYPE_CLI_ACCEPTED \<and>
    sends (actions u) = sends (actions t) @ [(5, packet_bytes q), (6, packet_bytes q)]"
proof -
  obtain body where body: "msg_text report0 = Inr body" using msg_text_ok [OF mq_ok_report0] by blast
  have "length body \<le> PAYLOAD_SIZE"
    using msg_text_length [OF _ body] mq_ok_report0 by (simp add: mq_ok_def)
  then show ?thesis
    using subscribed_client_is_served [of env0 srv0 1 add0 report0 body] body
    by (auto simp: add0_def report0_def old0_def new0_def bad_productor_def)
qed

text \<open>C32. \<open>delete\<close> undoes \<open>add\<close>: rooms, counters and buffer are those of before; of the session only
  the time of its last sign of life moved.\<close>

theorem delete_undoes_add:
  assumes inv: "srv_inv s" and k: "k < length (connections s)"
    and c: "ctype c = CMD_ADD" "socket c = token (connections s ! k)" "\<not> bad_productor (productor c)"
    and new: "sockfd (connections s ! k) \<notin> set (susc_room s (nat (sint (productor c))))"
    and add: "do_command E c s = Inr ((), t)"
    and del: "do_command E (c\<lparr>ctype := CMD_DEL\<rparr>) t = Inr ((), u)"
  shows "susc_room u = susc_room s \<and> buffer_packets u = buffer_packets s \<and>
    (\<exists>now. connections u = (connections s)[k := (connections s ! k)\<lparr>timestamp := now\<rparr>])"
proof -
  let ?conn = "connections s ! k" and ?i = "nat (sint (productor c))"
  have sinv: "sess_inv (connections s) (susc_room s)" using inv by (simp add: srv_inv_def)
  from do_command_result [OF sinv k c(2) add] c(1) obtain r s1 now where
    r: "cmd_add E c k ?conn s = Inr (r, s1)"
    and t: "t = (if r then s1\<lparr>ntime := Suc (ntime s1), connections :=
      (connections s1)[k := (connections s1 ! k)\<lparr>timestamp := now\<rparr>]\<rparr> else s1)"
    by auto
  note a = cmd_add_effect [OF r]
  have s1: "cmd_add E c k ?conn s = Inr (True, s1)"
    "t = s1\<lparr>ntime := Suc (ntime s1), connections := (connections s1)[k := (connections s1 ! k)\<lparr>timestamp := now\<rparr>]\<rparr>"
    using r t a c(3) new by simp_all
  have kt: "k < length (connections t)" using a c(3) new k s1(2) by simp
  have ct: "connections t ! k = ?conn\<lparr>susc_counter := susc_counter ?conn + 1, timestamp := now\<rparr>"
    and rt: "susc_room t ?i = susc_room s ?i @ [sockfd ?conn]"
    using a c(3) new k s1(2) by simp_all
  have tinv: "sess_inv (connections t) (susc_room t)"
    using do_command_inv [OF inv add] by (simp add: srv_inv_def)
  have "socket (c\<lparr>ctype := CMD_DEL\<rparr>) = token (connections t ! k)" using c(2) ct by simp
  from do_command_result [OF tinv kt this del] obtain r' t1 now2 where
    r': "cmd_del E (c\<lparr>ctype := CMD_DEL\<rparr>) k (connections t ! k) t = Inr (r', t1)"
    and u: "u = (if r' then t1\<lparr>ntime := Suc (ntime t1), connections :=
      (connections t1)[k := (connections t1 ! k)\<lparr>timestamp := now2\<rparr>]\<rparr> else t1)"
    by auto
  note d = cmd_del_effect [OF r']
  have t1: "u = t1\<lparr>ntime := Suc (ntime t1), connections :=
      (connections t1)[k := (connections t1 ! k)\<lparr>timestamp := now2\<rparr>]\<rparr>" and r'
    using u d c(3) rt ct by simp_all
  have "susc_room u = susc_room s"
    using d t1 a s1(2) c(3) new ct \<open>r'\<close> by (auto simp: fun_eq_iff remove1_append)
  moreover have "connections u = (connections s)[k := ?conn\<lparr>timestamp := now2\<rparr>]"
    using d t1 a s1(2) c(3) new ct k \<open>r'\<close> by simp
  moreover have "buffer_packets u = buffer_packets s"
    using d t1 a s1(2) c(3) new ct \<open>r'\<close> by (simp add: same_rest_def)
  ultimately show ?thesis by blast
qed

theorem delete_undoes_add_witness:
  "\<exists>t u. do_command env0 add0 srv0 = Inr ((), t) \<and>
    do_command env0 (add0\<lparr>ctype := CMD_DEL\<rparr>) t = Inr ((), u) \<and>
    susc_room u = susc_room srv0 \<and> buffer_packets u = [data0] \<and> map token (connections u) = [11, 12]"
proof -
  obtain t u where tu: "do_command env0 add0 srv0 = Inr ((), t)"
    "do_command env0 (add0\<lparr>ctype := CMD_DEL\<rparr>) t = Inr ((), u)"
    using returns_unit [OF returns_do_command [OF env_ok_env0]] by meson
  then show ?thesis
    using delete_undoes_add [of srv0 1 add0 env0 t u]
    by (auto simp: add0_def old0_def new0_def bad_productor_def)
qed

text \<open>C33. A command for an unknown token, for a producer that does not exist, for a second subscription
  or for a cancellation of none changes no list, and does not count as a sign of life.\<close>

theorem bad_command_changes_nothing:
  assumes inv: "srv_inv s" and run: "do_command E c s = Inr ((), t)"
    and bad: "socket c \<notin> token ` set (connections s) \<or>
      k < length (connections s) \<and> socket c = token (connections s ! k) \<and>
      (let room = susc_room s (nat (sint (productor c))) in
       ctype c = CMD_ADD \<and> (bad_productor (productor c) \<or> sockfd (connections s ! k) \<in> set room) \<or>
       ctype c = CMD_DEL \<and> (bad_productor (productor c) \<or> sockfd (connections s ! k) \<notin> set room))"
  shows "connections t = connections s \<and> susc_room t = susc_room s \<and>
    buffer_packets t = buffer_packets s"
proof (cases "socket c \<in> token ` set (connections s)")
  case False
  with do_command_unknown [OF False, of E] run show ?thesis by simp
next
  case True
  have sinv: "sess_inv (connections s) (susc_room s)" using inv by (simp add: srv_inv_def)
  from True bad have k: "k < length (connections s)" "socket c = token (connections s ! k)" by auto
  from do_command_result [OF sinv k run] obtain r s1 now where
    r: "(if ctype c = CMD_ADD then cmd_add E c k (connections s ! k)
      else if ctype c = CMD_DEL then cmd_del E c k (connections s ! k)
      else if ctype c = CMD_LOG then cmd_log E (connections s ! k) else ret True) s = Inr (r, s1)"
    and t: "t = (if r then s1\<lparr>ntime := Suc (ntime s1), connections :=
        (connections s1)[k := (connections s1 ! k)\<lparr>timestamp := now\<rparr>]\<rparr> else s1)" by blast
  have "\<not> r \<and> same_core s s1"
  proof (cases "ctype c = CMD_ADD")
    case True
    with bad True r cmd_add_effect [of E c k "connections s ! k" s r s1] \<open>socket c \<in> _\<close>
    show ?thesis by (auto simp: Let_def)
  next
    case False
    with bad r \<open>socket c \<in> _\<close> cmd_del_effect [of E c k "connections s ! k" s r s1]
    show ?thesis by (auto simp: Let_def)
  qed
  then show ?thesis using t by (simp add: same_core_def)
qed

theorem bad_command_changes_nothing_witness:
  "\<exists>t. do_command env0 (add0\<lparr>productor := 3\<rparr>) srv0 = Inr ((), t) \<and> connections t = connections srv0 \<and>
    susc_room t = susc_room srv0"
proof -
  obtain t where t: "do_command env0 (add0\<lparr>productor := 3\<rparr>) srv0 = Inr ((), t)"
    using returns_unit [OF returns_do_command [OF env_ok_env0]] by meson
  then show ?thesis
    using bad_command_changes_nothing [OF srv_inv_srv0 t, of 1]
    by (auto simp: add0_def new0_def bad_productor_def Let_def)
qed

lemma good_productor: "\<not> bad_productor p \<longleftrightarrow> p = 0 \<or> p = 1 \<or> p = 2"
proof
  assume "\<not> bad_productor p"
  then have "sint p = 0 \<or> sint p = 1 \<or> sint p = 2" by (auto simp: bad_productor_def)
  moreover have "of_int (sint p) = p" by simp
  ultimately show "p = 0 \<or> p = 1 \<or> p = 2" by (metis of_int_0 of_int_1 of_int_numeral)
qed (auto simp: bad_productor_def)

section \<open>Messages\<close>

text \<open>C8. A well-formed message of a producer is sent, as one and the same data packet carrying its text
  and its timestamp, to the members of that producer's room in order and to nobody else, and the
  packet is put at the head of the buffer.\<close>

theorem producer_message_broadcast:
  assumes E: "env_ok E" and ok: "mq_ok (Mq_msg m)"
  shows "\<exists>t q body. handle_mq E (Mq_msg m) s = Inr ((), t) \<and> msg_text m = Inr body \<and>
    length body \<le> PAYLOAD_SIZE \<and> p_mtype q = M_TYPE_DATA \<and> p_timestamp q = mp_timestamp m \<and>
    p_payload q = pad_to PAYLOAD_SIZE body \<and>
    sends (actions t) = sends (actions s) @
      map (\<lambda>fd. (fd, packet_bytes q)) (susc_room s (nat (sint (mp_id m)))) \<and>
    writes (actions t) = writes (actions s) \<and> buffer_packets t = q # buffer_packets s \<and>
    connections t = connections s \<and> susc_room t = susc_room s"
proof -
  obtain body where body: "msg_text m = Inr body" using msg_text_ok [OF ok] by blast
  have len: "length body \<le> PAYLOAD_SIZE" using msg_text_length [OF _ body] ok by (simp add: mq_ok_def)
  have "\<not> bad_productor (mp_id m)" using ok by (simp add: mq_ok_def)
  from handle_producer_msg_run [OF E body len this, of s] body len show ?thesis
    by (auto simp: handle_mq_def)
qed

theorem producer_message_broadcast_witness:
  "\<exists>t q. handle_mq env0 (Mq_msg report0) srv0 = Inr ((), t) \<and> p_timestamp q = 99 \<and>
    sends (actions t) = [(5, packet_bytes q)] \<and> buffer_packets t = [q, data0]"
  using producer_message_broadcast [OF env_ok_env0 mq_ok_report0, of srv0]
  by (auto simp: report0_def)

text \<open>C34. The digest of the packet that is broadcast was computed with the server's time and the packet
  then got the producer's: the check the client makes holds only if both give the same digest. With a
  digest that tells the two apart, a message that waited a second in the queue is dropped.\<close>

theorem broadcast_digest_is_stale:
  assumes E: "env_ok E" and ok: "mq_ok (Mq_msg m)" and run: "handle_mq E (Mq_msg m) s = Inr ((), t)"
  shows "check_packet_MD5 E (hd (buffer_packets t)) = 1 \<longleftrightarrow>
    md5 E (packet_body (hd (buffer_packets t))) =
    md5 E (packet_body ((hd (buffer_packets t))\<lparr>p_timestamp := clk E (Suc (ntime s))\<rparr>))"
proof -
  obtain body where body: "msg_text m = Inr body" using msg_text_ok [OF ok] by blast
  have len: "length body \<le> PAYLOAD_SIZE" using msg_text_length [OF _ body] ok by (simp add: mq_ok_def)
  have "\<not> bad_productor (mp_id m)" using ok by (simp add: mq_ok_def)
  from handle_producer_msg_run [OF E body len this, of s] run
  have hd: "hd (buffer_packets t) = (sealed E (clk E (Suc (ntime s))) M_TYPE_DATA body)\<lparr>p_timestamp := mp_timestamp m\<rparr>"
    by (auto simp: handle_mq_def)
  have "md5_ok E" using E by (simp add: env_ok_def)
  moreover have "packet_wf (hd (buffer_packets t))"
    using sealed_wf [OF calculation len] hd by (simp add: packet_wf_def)
  moreover have "p_hash (hd (buffer_packets t)) =
      md5 E (packet_body ((hd (buffer_packets t))\<lparr>p_timestamp := clk E (Suc (ntime s))\<rparr>))"
    by (simp add: hd sealed_hash packet_body_def)
  ultimately show ?thesis by (simp add: check_packet_iff)
qed

theorem broadcast_digest_is_stale_witness:
  "\<exists>t. handle_mq env0 (Mq_msg report0) srv0 = Inr ((), t) \<and> check_packet_MD5 env0 (hd (buffer_packets t)) \<noteq> 1"
proof -
  obtain body where body: "msg_text report0 = Inr body" using msg_text_ok [OF mq_ok_report0] by blast
  have "length body \<le> PAYLOAD_SIZE"
    using msg_text_length [OF _ body] mq_ok_report0 by (simp add: mq_ok_def)
  moreover have "\<not> bad_productor (mp_id report0)" by (simp add: report0_def bad_productor_def)
  ultimately obtain t where t: "handle_mq env0 (Mq_msg report0) srv0 = Inr ((), t)"
    "hd (buffer_packets t) = (sealed env0 100 M_TYPE_DATA body)\<lparr>p_timestamp := 99\<rparr>"
    using handle_producer_msg_run [OF env_ok_env0 body, of srv0] by (auto simp: handle_mq_def report0_def)
  have "sum_list (le64 (99 :: time_t)) \<noteq> sum_list (le64 (100 :: time_t))" by code_simp
  then show ?thesis
    using broadcast_digest_is_stale [OF env_ok_env0 mq_ok_report0 t(1)] t
    by (auto simp: packet_body_def)
qed

text \<open>The identifier of a message indexes \<open>susc_room\<close> unchecked: one outside 0, 1, 2 reads outside the
  array.\<close>

theorem bad_producer_id_faults:
  assumes "env_ok E" and "mp_id m \<noteq> 0" and "mp_id m \<noteq> 1" and "mp_id m \<noteq> 2"
  shows "handle_mq E (Mq_msg m) s = Inl Out_of_bounds"
proof -
  have "bad_productor (mp_id m)" using assms(2-4) good_productor by blast
  moreover have "msg_text m = Inr []" using assms(2-4) by (simp add: msg_text_def)
  moreover from env_ok_log_line [OF assms(1)] obtain s1 where s1:
    "log_line E Log_productores (dm @ ''Mensaje de productor: '' @ show_c_int (mp_id m) @
      '' con timestamp = '' @ show_nat (unat (mp_timestamp m)) @ '' recibido'' @ nl) s = Inr ((), s1)" by blast
  moreover have "gen_packet E M_TYPE_DATA [] 0 s1 =
      Inr ((0, sealed E (clk E (ntime s1)) M_TYPE_DATA []), s1\<lparr>ntime := Suc (ntime s1)\<rparr>)"
    by (rule env_ok_gen_packet [OF assms(1)]) simp_all
  ultimately show ?thesis
    by (simp add: handle_mq_def handle_producer_msg_def seq_def bnd_def Let_def)
qed

theorem bad_producer_id_faults_witness:
  "handle_mq env0 (Mq_msg (report0\<lparr>mp_id := 3\<rparr>)) srv0 = Inl Out_of_bounds"
  by (rule bad_producer_id_faults) (simp_all add: report0_def)

text \<open>When the period has passed, the collector leaves exactly the packets of the last five seconds,
  in their order, and remembers the time.\<close>

theorem old_packets_dropped:
  assumes "env_ok E" and "period \<le> sint (clk E (ntime s)) - sint (last_gc_time s)"
  shows "\<exists>t. garb_collec_old_packets E period s = Inr ((), t) \<and>
    buffer_packets t = filter (\<lambda>p. sint (clk E (ntime s)) \<le> sint (p_timestamp p) + CONN_TIMEOUT) (buffer_packets s) \<and>
    last_gc_time t = clk E (ntime s) \<and> connections t = connections s \<and> susc_room t = susc_room s"
proof -
  obtain t where t: "garb_collec_old_packets E period s = Inr ((), t)"
    using returns_garb_collec_old_packets [OF assms(1), of period]
    unfolding returns_def by (metis (mono_tags) old.unit.exhaust)
  have "(\<lambda>p. \<not> old_packet (clk E (ntime s)) p) =
      (\<lambda>p. sint (clk E (ntime s)) \<le> sint (p_timestamp p) + CONN_TIMEOUT)"
    by (auto simp: old_packet_def)
  with garb_collec_old_packets_effect [OF t] t assms(2) show ?thesis by (auto simp: Let_def)
qed

theorem old_packets_dropped_witness:
  "\<exists>t. garb_collec_old_packets env0 5 srv0 = Inr ((), t) \<and> buffer_packets t = [data0] \<and> last_gc_time t = 100"
  using old_packets_dropped [of env0 5 srv0] by auto

text \<open>A new connection becomes the last session, with no subscriptions and a token from \<open>rand\<close>, and
  is sent a CONN_ACCEPTED that carries this token.\<close>

theorem connection_gets_token:
  assumes E: "env_ok E"
  shows "\<exists>t c p. new_connection E connfd s = Inr ((), t) \<and> connections t = connections s @ [c] \<and>
    sockfd c = connfd \<and> susc_counter c = 0 \<and> token c = rnd E (nrand s) \<and>
    writes (actions t) = writes (actions s) @ [(connfd, packet_bytes p)] \<and>
    check_packet_MD5 E p = 1 \<and> p_mtype p = M_TYPE_CONN_ACCEPTED \<and> payload_int p = token c"
proof -
  obtain t now where t: "new_connection E connfd s = Inr ((), t)" "writes (actions t) = writes (actions s) @
      [(connfd, packet_bytes (sealed E now M_TYPE_CONN_ACCEPTED (le32 (rnd E (nrand s)))))]"
    using new_connection_run [OF E] by blast
  from new_connection_effect [OF t(1)] obtain now2 where "connections t = connections s @
      [\<lparr>timestamp = now2, susc_counter = 0, sockfd = connfd, token = rnd E (nrand s)\<rparr>]" by blast
  with t show ?thesis
    by (intro exI [of _ t] exI [of _ "\<lparr>timestamp = now2, susc_counter = 0, sockfd = connfd, token = rnd E (nrand s)\<rparr>"]
        exI [of _ "sealed E now M_TYPE_CONN_ACCEPTED (le32 (rnd E (nrand s)))"])
      (simp add: payload_int_sealed)
qed

theorem connection_gets_token_witness:
  "\<exists>t c. new_connection env0 8 srv0 = Inr ((), t) \<and> connections t = [old0, new0, c] \<and> token c = 0"
  using connection_gets_token [of env0 8 srv0] by auto

text \<open>A failed \<open>accept\<close> is reported and then treated as a connection with descriptor -1: after two of
  them two sessions share a descriptor, which breaks the invariant.\<close>

theorem failed_accepts_are_registered:
  assumes E: "env_ok E" and ev: "ev_fd ev = listenfd s" "ev_accept ev = -1"
    and run: "run (srv_step E) [Ev_client ev, Ev_client ev] s = Inr ((), t)"
  shows "map sockfd (connections t) = map sockfd (connections s) @ [-1, -1] \<and> \<not> srv_inv t"
proof -
  from run obtain s1 where s1: "handle_client_event E ev s = Inr ((), s1)"
    and t: "handle_client_event E ev s1 = Inr ((), t)"
    by (auto simp: seq_Inr)
  have "new_connection E (-1) s = Inr ((), s1)" using s1 ev by (simp add: handle_client_event_def)
  from new_connection_effect [OF this] have c1: "map sockfd (connections s1) = map sockfd (connections s) @ [-1]"
    and l: "listenfd s1 = listenfd s" by auto
  have "new_connection E (-1) s1 = Inr ((), t)" using t ev l by (simp add: handle_client_event_def)
  from new_connection_effect [OF this] have "map sockfd (connections t) = map sockfd (connections s) @ [-1, -1]"
    using c1 by auto
  then show ?thesis by (simp add: srv_inv_def sess_inv_def)
qed

theorem failed_accepts_are_registered_witness:
  "\<exists>t. run (srv_step env0) [Ev_client failed_accept0, Ev_client failed_accept0] srv0 = Inr ((), t) \<and>
    map sockfd (connections t) = [5, 6, -1, -1] \<and> \<not> srv_inv t"
proof -
  obtain t where t: "run (srv_step env0) [Ev_client failed_accept0, Ev_client failed_accept0] srv0 = Inr ((), t)"
    using returns_unit [OF returns_handle_client_event [OF env_ok_env0]]
    by (auto simp: seq_Inr) blast
  then show ?thesis
    using failed_accepts_are_registered [OF env_ok_env0 _ _ t]
    by (auto simp: failed_accept0_def old0_def new0_def)
qed

end
