(* ===== verification/Client.thy ===== *)
theory Client
  imports Protocol CLI
begin

text \<open>
  \<open>client/src/cliente.c\<close> but for the thread that receives a file: the set-up of \<open>main\<close> and its loop,
  one iteration per \<open>recv\<close>. The receive buffer lives across iterations, so a \<open>recv\<close> that fails or
  finds the end of the stream leaves the previous packet in it. The \<open>token\<close> is indeterminate
  (\<open>None\<close>) until \<open>-t\<close> or a CONN_ACCEPTED sets it. The text printed is that of a build without \<open>TEST\<close>.
\<close>

record client = proc +
  csock :: int
  cpid :: int
  tflag :: bool
  ctoken :: "c_int option"
  rcv_buf :: "byte list"
  c_term :: bool

definition the_token :: "('z client_scheme, c_int) comp" where
  "the_token = bnd (gets ctoken) (\<lambda>t. case t of None \<Rightarrow> fail Uninit_read | Some tok \<Rightarrow> ret tok)"

definition show_tok :: "c_int \<Rightarrow> string" where
  "show_tok w = show_int (sint w)"

definition send_ack :: "env \<Rightarrow> int \<Rightarrow> c_int \<Rightarrow> ('z proc_scheme, unit) comp" where
  "send_ack E fd_sock tok =
     bnd (gen_packet E M_TYPE_ACK (le32 tok) 4) (\<lambda>(_, packet_ack).
     bnd (attempt E (Write fd_sock (packet_bytes packet_ack))) (\<lambda>r.
     case r of None \<Rightarrow> skip
     | Some err \<Rightarrow> if err = EAGAIN then skip else emit (Perror ''write ack: '')))"

definition bars :: "time_t \<Rightarrow> string" where
  "bars t = '' ||| timestamp: '' @ show_int (sint t) @ [CHR 0x0A]"

definition on_conn_accepted :: "env \<Rightarrow> packet_t \<Rightarrow> ('z client_scheme, unit) comp" where
  "on_conn_accepted E p =
     bnd (gets csock) (\<lambda>sockfd.
     bnd (gets cpid) (\<lambda>pid.
     seq (emit (Stdout (''Conexi'' @ o_acute @ ''n aceptada, pid = '' @ show_int pid @ '' '')))
     (bnd (gets tflag) (\<lambda>flag.
      if flag then
        bnd the_token (\<lambda>tok.
        bnd (gen_packet E M_TYPE_AUTH (le32 tok @ le32 (payload_int p)) 8) (\<lambda>(_, packet).
        seq (attempt_perror E (Write sockfd (packet_bytes packet)) ''write CONN_ACCEPTED: '')
        (bnd (sys_time E) (\<lambda>now.
        seq (emit (Stdout (''reconectando'' @ bars now)))
        (send_ack E sockfd tok)))))
      else
        seq (modify (\<lambda>s. s\<lparr>ctoken := Some (payload_int p)\<rparr>))
        (seq (emit (Stdout (''y token = '' @ show_tok (payload_int p) @ bars (p_timestamp p))))
        (send_ack E sockfd (payload_int p)))))))"

definition on_cli_accepted :: "env \<Rightarrow> packet_t \<Rightarrow> ('z client_scheme, unit) comp" where
  "on_cli_accepted E p =
     seq (emit (Stdout (''Me aceptaron en una sala'' @ bars (p_timestamp p))))
     (bnd (gets csock) (\<lambda>sockfd. bnd the_token (\<lambda>tok. send_ack E sockfd tok)))"

text \<open>\<open>printf("%s", payload)\<close> stops at the first NUL of the payload, or leaves the array.\<close>

definition string_of :: "byte list \<Rightarrow> string" where
  "string_of bs = map (\<lambda>b. char_of (unat b)) bs"

definition on_data :: "env \<Rightarrow> packet_t \<Rightarrow> ('z client_scheme, unit) comp" where
  "on_data E p =
     (case c_str (p_payload p) of
        None \<Rightarrow> fail Out_of_bounds
      | Some body \<Rightarrow>
          seq (emit (Stdout (''Mensaje recibido '' @ i_acute @ ''ntegramente: '' @
            string_of body @ bars (p_timestamp p))))
          (bnd (gets csock) (\<lambda>sockfd. bnd the_token (\<lambda>tok. send_ack E sockfd tok))))"

definition on_fin :: "env \<Rightarrow> packet_t \<Rightarrow> ('z client_scheme, unit) comp" where
  "on_fin E p =
     seq (emit (Stdout (''Server cerr'' @ o_acute @ '' la conexion, terminando proceso'' @
       bars (p_timestamp p))))
     (bnd (gets csock) (\<lambda>sockfd.
      bnd (attempt E (Close sockfd)) (\<lambda>_. modify (\<lambda>s. s\<lparr>c_term := True\<rparr>))))"

text \<open>The port travels in network byte order and is handed to the thread as it is.\<close>

definition payload_short :: "packet_t \<Rightarrow> 16 word" where
  "payload_short p = word_of_nat (unle (take 2 (p_payload p)))"

definition on_ft_setup :: "packet_t \<Rightarrow> ('z proc_scheme, unit) comp" where
  "on_ft_setup p = emit (Thread_recv_file (payload_short p))"

definition client_iteration :: "env \<Rightarrow> read_res \<Rightarrow> ('z client_scheme, unit) comp" where
  "client_iteration E r =
     seq (case r of
            R_err err \<Rightarrow> if err = EAGAIN then skip else emit (Perror ''recv: '')
          | R_ok bs \<Rightarrow> modify (\<lambda>s. s\<lparr>rcv_buf := overlay bs (rcv_buf s)\<rparr>))
     (bnd (gets rcv_buf) (\<lambda>buf.
      let p = packet_of buf in
      if check_packet_MD5 E p = 0 then skip
      else if p_mtype p = M_TYPE_CONN_ACCEPTED then on_conn_accepted E p
      else if p_mtype p = M_TYPE_CLI_ACCEPTED then on_cli_accepted E p
      else if p_mtype p = M_TYPE_DATA then on_data E p
      else if p_mtype p = M_TYPE_FIN then on_fin E p
      else if p_mtype p = M_TYPE_FT_SETUP then on_ft_setup p
      else skip))"

text \<open>\<open>while (!term)\<close>, for as long as \<open>recv\<close> has answers.\<close>

fun client_loop :: "env \<Rightarrow> read_res list \<Rightarrow> ('z client_scheme, unit) comp" where
  "client_loop E [] = skip"
| "client_loop E (r # rs) =
     bnd (gets c_term) (\<lambda>t. if t then skip else seq (client_iteration E r) (client_loop E rs))"

text \<open>
  The set-up: \<open>argv\<close> without the program's name, what \<open>getopt\<close> finds for \<open>-t\<close>, whether the name
  resolves, the results of \<open>socket\<close> and \<open>connect\<close>, and the bytes in the receive buffer.
\<close>

record client_answers =
  c_args :: "string list"
  c_optarg :: "string option"
  c_host :: bool
  c_socket :: int
  c_connect :: int
  c_pid :: int
  c_stack :: "byte list"

definition client_setup :: "client_answers \<Rightarrow> fault + client" where
  "client_setup a =
     (let s = \<lparr>ntime = 0, nio = 0, nrand = 0,
        actions = (case c_optarg a of None \<Rightarrow> []
          | Some t \<Rightarrow> [Stdout (''token = '' @ show_tok (atoi t) @ [CHR 0x0A])]),
        csock = c_socket a, cpid = c_pid a, tflag = (c_optarg a \<noteq> None),
        ctoken = map_option atoi (c_optarg a), rcv_buf = c_stack a, c_term = False\<rparr>
      in if length (c_args a) < 2 then Inl Null_deref
         else if \<not> c_host a then Inl Null_deref
         else if c_connect a < 0 then Inl Exit_failure
         else Inr s)"

definition client_main :: "env \<Rightarrow> client_answers \<Rightarrow> read_res list \<Rightarrow> fault + (unit \<times> client)" where
  "client_main E a rs = (case client_setup a of Inl f \<Rightarrow> Inl f | Inr s \<Rightarrow> client_loop E rs s)"

end
