(* ===== verification/Client_Facts.thy ===== *)
theory Client_Facts
  imports Client
begin

text \<open>
  What the client does on each packet, and its invariant: everything it writes goes to the server's
  socket and is a packet that passes the digest check, an ACK or an AUTH.
\<close>

section \<open>Effects\<close>

lemma more_client: "proc.more t = proc.more s \<Longrightarrow>
  csock t = csock s \<and> cpid t = cpid s \<and> tflag t = tflag s \<and> ctoken t = ctoken s \<and>
  rcv_buf t = rcv_buf s \<and> c_term t = c_term s"
  by (cases s; cases t) simp

lemma send_ack_run:
  assumes "clock_ok E"
  shows "\<exists>t. send_ack E fd tok s = Inr ((), t) \<and> proc.more t = proc.more s \<and>
    writes (actions t) = writes (actions s) @
      [(fd, packet_bytes (sealed E (clk E (ntime s)) M_TYPE_ACK (le32 tok)))] \<and>
    closes (actions t) = closes (actions s)"
proof -
  have c: "clk E (ntime s) \<noteq> -1" using assms by (simp add: clock_ok_def)
  have g: "gen_packet E M_TYPE_ACK (le32 tok) 4 s =
      Inr ((0, sealed E (clk E (ntime s)) M_TYPE_ACK (le32 tok)), s\<lparr>ntime := Suc (ntime s)\<rparr>)"
    using gen_packet_ok [of E s "le32 tok" M_TYPE_ACK] c by simp
  show ?thesis
    by (simp add: send_ack_def bnd_def g attempt_def emit_def split: option.splits)
qed

lemma client_write_run:
  "\<exists>t. attempt_perror E (Write fd bs) msg s = Inr ((), t) \<and> proc.more t = proc.more s \<and>
    ntime t = ntime s \<and> writes (actions t) = writes (actions s) @ [(fd, bs)] \<and>
    closes (actions t) = closes (actions s)"
  by (simp add: attempt_perror_def bnd_def attempt_def emit_def when_do_def split: option.splits)

text \<open>The packet in the buffer after a \<open>recv\<close>.\<close>

definition buffer_after :: "read_res \<Rightarrow> byte list \<Rightarrow> byte list" where
  "buffer_after r buf = (case r of R_err _ \<Rightarrow> buf | R_ok bs \<Rightarrow> overlay bs buf)"

definition dispatch :: "env \<Rightarrow> packet_t \<Rightarrow> ('z client_scheme, unit) comp" where
  "dispatch E p =
     (if check_packet_MD5 E p = 0 then skip
      else if p_mtype p = M_TYPE_CONN_ACCEPTED then on_conn_accepted E p
      else if p_mtype p = M_TYPE_CLI_ACCEPTED then on_cli_accepted E p
      else if p_mtype p = M_TYPE_DATA then on_data E p
      else if p_mtype p = M_TYPE_FIN then on_fin E p
      else if p_mtype p = M_TYPE_FT_SETUP then on_ft_setup p
      else skip)"

text \<open>The state in which the iteration looks at its buffer.\<close>

definition after_recv :: "read_res \<Rightarrow> 'z client_scheme \<Rightarrow> 'z client_scheme" where
  "after_recv r s = s\<lparr>rcv_buf := buffer_after r (rcv_buf s),
     actions := actions s @ (case r of R_err err \<Rightarrow> if err = EAGAIN then [] else [Perror ''recv: '']
       | R_ok _ \<Rightarrow> [])\<rparr>"

lemma client_iteration_dispatch:
  "client_iteration E r s = dispatch E (packet_of (buffer_after r (rcv_buf s))) (after_recv r s)"
  by (cases r) (auto simp: client_iteration_def dispatch_def after_recv_def buffer_after_def emit_def
      seq_def bnd_def Let_def)

lemma after_recv_simps [simp]:
  "csock (after_recv r s) = csock s" "tflag (after_recv r s) = tflag s"
  "ctoken (after_recv r s) = ctoken s" "c_term (after_recv r s) = c_term s"
  "rcv_buf (after_recv r s) = buffer_after r (rcv_buf s)" "ntime (after_recv r s) = ntime s"
  "writes (actions (after_recv r s)) = writes (actions s)"
  "closes (actions (after_recv r s)) = closes (actions s)"
  by (cases r; simp add: after_recv_def)+

lemma on_conn_accepted_first:
  assumes "clock_ok E" and "\<not> tflag s"
  shows "\<exists>t. on_conn_accepted E p s = Inr ((), t) \<and> ctoken t = Some (payload_int p) \<and>
    csock t = csock s \<and> tflag t = tflag s \<and> rcv_buf t = rcv_buf s \<and> c_term t = c_term s \<and>
    writes (actions t) = writes (actions s) @ [(csock s,
      packet_bytes (sealed E (clk E (ntime s)) M_TYPE_ACK (le32 (payload_int p))))]"
proof -
  define s' where "s' = s\<lparr>ctoken := Some (payload_int p), actions := actions s @
    [Stdout (''Conexi'' @ o_acute @ ''n aceptada, pid = '' @ show_int (cpid s) @ '' ''),
     Stdout (''y token = '' @ show_tok (payload_int p) @ bars (p_timestamp p))]\<rparr>"
  have "on_conn_accepted E p s = send_ack E (csock s) (payload_int p) s'"
    using assms(2) by (simp add: on_conn_accepted_def emit_def s'_def)
  moreover obtain t where "send_ack E (csock s) (payload_int p) s' = Inr ((), t)"
    "proc.more t = proc.more s'" "writes (actions t) = writes (actions s') @ [(csock s,
      packet_bytes (sealed E (clk E (ntime s')) M_TYPE_ACK (le32 (payload_int p))))]"
    using send_ack_run [OF assms(1)] by blast
  ultimately show ?thesis
    using more_client [of t s'] by (intro exI [of _ t]) (simp add: s'_def)
qed

text \<open>With \<open>-t\<close>: an AUTH with the old and the new token, then an ACK of the old one.\<close>

lemma on_conn_accepted_again:
  assumes "clock_ok E" and "tflag s" and "ctoken s = Some old"
  shows "\<exists>t now1 now2. on_conn_accepted E p s = Inr ((), t) \<and> ctoken t = Some old \<and>
    csock t = csock s \<and> tflag t = tflag s \<and> rcv_buf t = rcv_buf s \<and> c_term t = c_term s \<and>
    writes (actions t) = writes (actions s) @
      [(csock s, packet_bytes (sealed E now1 M_TYPE_AUTH (le32 old @ le32 (payload_int p)))),
       (csock s, packet_bytes (sealed E now2 M_TYPE_ACK (le32 old)))]"
proof -
  let ?out = "Stdout (''Conexi'' @ o_acute @ ''n aceptada, pid = '' @ show_int (cpid s) @ '' '')"
  let ?pl = "le32 old @ le32 (payload_int p)"
  define s1 where "s1 = s\<lparr>actions := actions s @ [?out]\<rparr>"
  define s2 where "s2 = s1\<lparr>ntime := Suc (ntime s)\<rparr>"
  have c: "clk E (ntime s1) \<noteq> -1" using assms(1) by (simp add: clock_ok_def)
  have g: "gen_packet E M_TYPE_AUTH ?pl 8 s1 = Inr ((0, sealed E (clk E (ntime s)) M_TYPE_AUTH ?pl), s2)"
    using gen_packet_ok [of E s1 ?pl M_TYPE_AUTH] c by (simp add: s1_def s2_def)
  let ?b = "packet_bytes (sealed E (clk E (ntime s)) M_TYPE_AUTH ?pl)"
  obtain s3 where w: "attempt_perror E (Write (csock s) ?b) ''write CONN_ACCEPTED: '' s2 = Inr ((), s3)"
    "proc.more s3 = proc.more s2" "writes (actions s3) = writes (actions s2) @ [(csock s, ?b)]"
    using client_write_run by blast
  define s4 where "s4 = s3\<lparr>ntime := Suc (ntime s3),
    actions := actions s3 @ [Stdout (''reconectando'' @ bars (clk E (ntime s3)))]\<rparr>"
  have "on_conn_accepted E p s = send_ack E (csock s) old s4"
    using assms(2,3) g w(1) unfolding s4_def
    by (simp add: on_conn_accepted_def emit_def the_token_def bnd_def seq_def sys_time_def s1_def)
  moreover obtain t where "send_ack E (csock s) old s4 = Inr ((), t)" "proc.more t = proc.more s4"
    "writes (actions t) = writes (actions s4) @ [(csock s,
      packet_bytes (sealed E (clk E (ntime s4)) M_TYPE_ACK (le32 old)))]"
    using send_ack_run [OF assms(1)] by blast
  moreover have "proc.more s4 = proc.more s" using w(2) by (simp add: s4_def s2_def s1_def)
  ultimately show ?thesis
    using more_client [of t s] w(3) assms(3)
    by (intro exI [of _ t] exI [of _ "clk E (ntime s)"] exI [of _ "clk E (ntime s4)"])
      (simp add: s4_def s2_def s1_def)
qed

text \<open>A packet of data or the acceptance in a room is acknowledged with the token held.\<close>

lemma on_cli_accepted_run:
  assumes "clock_ok E" and "ctoken s = Some tok"
  shows "\<exists>t. on_cli_accepted E p s = Inr ((), t) \<and> proc.more t = proc.more s \<and>
    writes (actions t) = writes (actions s) @ [(csock s,
      packet_bytes (sealed E (clk E (ntime s)) M_TYPE_ACK (le32 tok)))]"
proof -
  let ?s = "s\<lparr>actions := actions s @ [Stdout (''Me aceptaron en una sala'' @ bars (p_timestamp p))]\<rparr>"
  have "on_cli_accepted E p s = send_ack E (csock s) tok ?s"
    using assms(2) by (simp add: on_cli_accepted_def emit_def the_token_def bnd_def)
  then show ?thesis
    using send_ack_run [OF assms(1), of "csock s" tok ?s] by auto
qed

lemma on_data_run:
  assumes "clock_ok E" and "ctoken s = Some tok" and "c_str (p_payload p) = Some body"
  shows "\<exists>t. on_data E p s = Inr ((), t) \<and> proc.more t = proc.more s \<and>
    writes (actions t) = writes (actions s) @ [(csock s,
      packet_bytes (sealed E (clk E (ntime s)) M_TYPE_ACK (le32 tok)))]"
proof -
  let ?s = "s\<lparr>actions := actions s @ [Stdout (''Mensaje recibido '' @ i_acute @
    ''ntegramente: '' @ string_of body @ bars (p_timestamp p))]\<rparr>"
  have "on_data E p s = send_ack E (csock s) tok ?s"
    using assms(2,3) by (simp add: on_data_def emit_def the_token_def bnd_def)
  then show ?thesis
    using send_ack_run [OF assms(1), of "csock s" tok ?s] by auto
qed

lemma on_fin_run:
  "\<exists>t. on_fin E p s = Inr ((), t) \<and> c_term t \<and> csock t = csock s \<and> tflag t = tflag s \<and>
    ctoken t = ctoken s \<and> rcv_buf t = rcv_buf s \<and> writes (actions t) = writes (actions s) \<and>
    closes (actions t) = closes (actions s) @ [csock s]"
  by (simp add: on_fin_def emit_def bnd_def seq_def attempt_def)

section \<open>Invariant\<close>

definition client_packet :: "env \<Rightarrow> int \<Rightarrow> int \<times> byte list \<Rightarrow> bool" where
  "client_packet E sock w \<longleftrightarrow> fst w = sock \<and> length (snd w) = 112 \<and>
     check_packet_MD5 E (packet_of (snd w)) = 1 \<and>
     p_mtype (packet_of (snd w)) \<in> {M_TYPE_ACK, M_TYPE_AUTH}"

definition client_inv :: "env \<Rightarrow> 'z client_scheme \<Rightarrow> bool" where
  "client_inv E s \<longleftrightarrow> clock_ok E \<and> md5_ok E \<and> length (rcv_buf s) = 112 \<and>
     (tflag s \<longrightarrow> ctoken s \<noteq> None) \<and> (\<forall>w \<in> set (writes (actions s)). client_packet E (csock s) w)"

text \<open>
  What the client assumes of the server: no data and no acceptance in a room before it has a token,
  and a NUL in the text of the data.
\<close>

definition recv_ok :: "env \<Rightarrow> 'z client_scheme \<Rightarrow> read_res \<Rightarrow> bool" where
  "recv_ok E s r \<longleftrightarrow> (let p = packet_of (buffer_after r (rcv_buf s)) in
     c_term s \<or> check_packet_MD5 E p = 0 \<or>
     ((p_mtype p = M_TYPE_CLI_ACCEPTED \<or> p_mtype p = M_TYPE_DATA \<longrightarrow> ctoken s \<noteq> None) \<and>
      (p_mtype p = M_TYPE_DATA \<longrightarrow> 0 \<in> set (p_payload p))))"

definition client_step :: "env \<Rightarrow> read_res \<Rightarrow> ('z client_scheme, unit) comp" where
  "client_step E r = bnd (gets c_term) (\<lambda>t. if t then skip else client_iteration E r)"

lemma sealed_client_packet:
  assumes "md5_ok E" and "length pl \<le> PAYLOAD_SIZE" and "ty = M_TYPE_ACK \<or> ty = M_TYPE_AUTH"
  shows "client_packet E fd (fd, packet_bytes (sealed E now ty pl))"
  using assms sealed_wf [OF assms(1,2)]
  by (auto simp: client_packet_def packet_of_bytes length_packet_bytes)

lemma length_buffer_after [simp]: "length (buffer_after r buf) = length buf"
  by (simp add: buffer_after_def split: read_res.split)

text \<open>A step that keeps buffer and token and writes one ACK keeps the invariant.\<close>

lemma client_inv_more:
  assumes "client_inv E s" and "proc.more t = proc.more s"
    and "writes (actions t) = writes (actions s) @ [(csock s, packet_bytes (sealed E now M_TYPE_ACK (le32 tok)))]"
  shows "client_inv E t"
  using assms more_client [OF assms(2)] sealed_client_packet [of E "le32 tok" M_TYPE_ACK "csock s" now]
  by (auto simp: client_inv_def)

lemma on_conn_accepted_inv:
  assumes inv: "client_inv E s"
  shows "\<exists>t. on_conn_accepted E p s = Inr ((), t) \<and> client_inv E t"
proof (cases "tflag s")
  case True
  have c: "clock_ok E" and m: "md5_ok E" using inv by (auto simp: client_inv_def)
  obtain old where "ctoken s = Some old" using True inv by (auto simp: client_inv_def)
  from on_conn_accepted_again [OF c True this] obtain t now1 now2 where
    "on_conn_accepted E p s = Inr ((), t)" "ctoken t = Some old" "csock t = csock s" "rcv_buf t = rcv_buf s"
    "writes (actions t) = writes (actions s) @
      [(csock s, packet_bytes (sealed E now1 M_TYPE_AUTH (le32 old @ le32 (payload_int p)))),
       (csock s, packet_bytes (sealed E now2 M_TYPE_ACK (le32 old)))]" by blast
  then show ?thesis
    using inv sealed_client_packet [OF m, of "le32 old @ le32 (payload_int p)" M_TYPE_AUTH "csock s" now1]
      sealed_client_packet [OF m, of "le32 old" M_TYPE_ACK "csock s" now2]
    by (auto simp: client_inv_def)
next
  case False
  have c: "clock_ok E" and m: "md5_ok E" using inv by (auto simp: client_inv_def)
  from on_conn_accepted_first [OF c False] inv
    sealed_client_packet [OF m, of "le32 (payload_int p)" M_TYPE_ACK "csock s" "clk E (ntime s)"]
  show ?thesis by (fastforce simp: client_inv_def)
qed

lemma dispatch_inv:
  assumes inv: "client_inv E s" and pre: "check_packet_MD5 E p = 1 \<Longrightarrow>
    (p_mtype p = M_TYPE_CLI_ACCEPTED \<or> p_mtype p = M_TYPE_DATA \<longrightarrow> ctoken s \<noteq> None) \<and>
    (p_mtype p = M_TYPE_DATA \<longrightarrow> 0 \<in> set (p_payload p))"
  shows "\<exists>t. dispatch E p s = Inr ((), t) \<and> client_inv E t"
proof (cases "check_packet_MD5 E p = 0")
  case True
  with inv show ?thesis by (simp add: dispatch_def)
next
  case False
  then have chk: "check_packet_MD5 E p = 1" using check_packet_values by metis
  have c: "clock_ok E" using inv by (simp add: client_inv_def)
  consider "p_mtype p = M_TYPE_CONN_ACCEPTED" | "p_mtype p = M_TYPE_CLI_ACCEPTED"
    | "p_mtype p = M_TYPE_DATA" | "p_mtype p = M_TYPE_FIN" | "p_mtype p = M_TYPE_FT_SETUP"
    | "p_mtype p \<notin> {5, 4, 3, 2, 7}" by blast
  then show ?thesis
  proof cases
    case 1
    with chk on_conn_accepted_inv [OF inv] show ?thesis by (simp add: dispatch_def)
  next
    case 2
    with pre [OF chk] obtain tok where "ctoken s = Some tok" by auto
    from on_cli_accepted_run [OF c this, of p] client_inv_more [OF inv] 2 chk
    show ?thesis by (auto simp: dispatch_def)
  next
    case 3
    with pre [OF chk] obtain tok where tok: "ctoken s = Some tok" by auto
    from 3 pre [OF chk] obtain body where "c_str (p_payload p) = Some body" by (auto simp: c_str_def)
    from on_data_run [OF c tok this] client_inv_more [OF inv] 3 chk
    show ?thesis by (auto simp: dispatch_def)
  next
    case 4
    from on_fin_run [of E p s] inv 4 chk show ?thesis by (auto simp: dispatch_def client_inv_def)
  next
    case 5
    with chk inv show ?thesis by (simp add: dispatch_def on_ft_setup_def emit_def client_inv_def)
  next
    case 6
    with chk inv show ?thesis by (simp add: dispatch_def)
  qed
qed

lemma client_step_inv:
  assumes inv: "client_inv E s" and ok: "recv_ok E s r"
  shows "\<exists>t. client_step E r s = Inr ((), t) \<and> client_inv E t"
proof (cases "c_term s")
  case True
  with inv show ?thesis by (simp add: client_step_def)
next
  case False
  have "client_inv E (after_recv r s)" using inv by (simp add: client_inv_def)
  moreover have "client_step E r s = dispatch E (packet_of (buffer_after r (rcv_buf s))) (after_recv r s)"
    using False by (simp add: client_step_def client_iteration_dispatch)
  ultimately show ?thesis
    using ok False dispatch_inv [of E "after_recv r s" "packet_of (buffer_after r (rcv_buf s))"]
    by (auto simp: recv_ok_def Let_def)
qed

text \<open>The assumption is exact: every other packet is a fault.\<close>

lemma client_step_fault:
  assumes "\<not> recv_ok E s r"
  shows "\<exists>f. client_step E r s = Inl f"
proof -
  let ?p = "packet_of (buffer_after r (rcv_buf s))"
  have p: "\<not> c_term s" "check_packet_MD5 E ?p \<noteq> 0"
    "(p_mtype ?p = M_TYPE_CLI_ACCEPTED \<or> p_mtype ?p = M_TYPE_DATA) \<and> ctoken s = None \<or>
     p_mtype ?p = M_TYPE_DATA \<and> 0 \<notin> set (p_payload ?p)"
    using assms by (auto simp: recv_ok_def Let_def)
  have "client_step E r s = dispatch E ?p (after_recv r s)"
    using p(1) by (simp add: client_step_def client_iteration_dispatch)
  moreover have "\<exists>f. on_cli_accepted E ?p (after_recv r s) = Inl f" if "ctoken s = None"
    using that by (simp add: on_cli_accepted_def the_token_def seq_def bnd_def emit_def)
  moreover have "\<exists>f. on_data E ?p (after_recv r s) = Inl f" if "ctoken s = None \<or> 0 \<notin> set (p_payload ?p)"
    using that by (auto simp: on_data_def the_token_def seq_def bnd_def emit_def c_str_def split: option.split)
  ultimately show ?thesis using p(2,3) by (auto simp: dispatch_def)
qed

interpretation client_events: exact_steps "client_step E" "recv_ok E" "client_inv E"
  by unfold_locales (use client_step_inv client_step_fault in fastforce)+

lemma client_loop_stopped: "c_term s \<Longrightarrow> client_loop E rs s = Inr ((), s)"
  by (cases rs) simp_all

lemma client_loop_run:
  fixes s :: "'z client_scheme"
  shows "client_loop E rs s = run (client_step E) rs s"
proof (induction rs arbitrary: s)
  case Nil
  then show ?case by simp
next
  case (Cons r rs)
  have loop: "client_loop E rs = (run (client_step E) rs :: ('z client_scheme, unit) comp)"
    using Cons.IH by (rule ext)
  show ?case
  proof (cases "c_term s")
    case True
    then have "client_step E r s = Inr ((), s)" by (simp add: client_step_def)
    then have "run (client_step E) (r # rs) s = client_loop E rs s"
      by (simp add: seq_apply loop del: client_loop.simps)
    with True show ?thesis by (simp only: client_loop_stopped)
  next
    case False
    then have "client_step E r s = client_iteration E r s" by (simp add: client_step_def)
    with False show ?thesis by (simp add: seq_def bnd_def loop)
  qed
qed

text \<open>The answers to \<open>recv\<close> satisfy the assumptions in the states that meet them.\<close>

fun recvs_ok :: "env \<Rightarrow> 'z client_scheme \<Rightarrow> read_res list \<Rightarrow> bool" where
  "recvs_ok E s [] = True"
| "recvs_ok E s (r # rs) = (recv_ok E s r \<and>
     (case client_step E r s of Inl _ \<Rightarrow> True | Inr (_, t) \<Rightarrow> recvs_ok E t rs))"

lemma recvs_ok_run_ok: "recvs_ok E s rs = client_events.run_ok E s rs"
  by (induction rs arbitrary: s) (simp_all split: sum.splits)

lemma client_loop_inv:
  assumes "client_inv E s" and "recvs_ok E s rs"
  shows "\<exists>t. client_loop E rs s = Inr ((), t) \<and> client_inv E t"
  using client_events.run_returns_inv [of E s rs] assms
  by (simp add: client_loop_run recvs_ok_run_ok)

lemma client_loop_returns: "client_inv E s \<Longrightarrow> (\<exists>t. client_loop E rs s = Inr ((), t)) \<longleftrightarrow> recvs_ok E s rs"
  using client_events.run_returns_iff [of E s rs] by (simp add: client_loop_run recvs_ok_run_ok)

lemma client_setup_inv:
  assumes "client_setup a = Inr s" and "clock_ok E" and "md5_ok E" and "length (c_stack a) = 112"
  shows "client_inv E s"
  using assms by (auto simp: client_setup_def client_inv_def Let_def split: if_splits option.splits)

end
