(* ===== verification/Zip_Names.thy ===== *)
theory Zip_Names
  imports Prelude
begin

text \<open>
  The part of \<open>server/src/zip.c\<close> that works on strings: the table of error messages, and the
  names of the entries.
\<close>

section \<open>Error messages\<close>

abbreviation (input) nul :: string where "nul \<equiv> [CHR 0x00]"

text \<open>The initialisers of the table; three of them have no comma behind and run together.\<close>

definition zip_errlist :: "string option list" where
  "zip_errlist = [None,
     Some (''not initialized'' @ nul), Some (''invalid entry name'' @ nul),
     Some (''entry not found'' @ nul), Some (''invalid zip mode'' @ nul),
     Some (''invalid compression level'' @ nul), Some (''no zip 64 support'' @ nul),
     Some (''memset error'' @ nul), Some (''cannot write data to entry'' @ nul),
     Some (''cannot initialize tdefl compressor'' @ nul), Some (''invalid index'' @ nul),
     Some (''header not found'' @ nul), Some (''cannot flush tdefl buffer'' @ nul),
     Some (''cannot write entry header'' @ nul), Some (''cannot create entry header'' @ nul),
     Some (''cannot write to central dir'' @ nul), Some (''cannot open file'' @ nul),
     Some (''invalid entry type'' @ nul),
     Some (''extracting data using no memory allocation'' @ nul),
     Some (''file not found'' @ nul), Some (''no permission'' @ nul),
     Some (''out of memory'' @ nul), Some (''invalid zip archive name'' @ nul),
     Some (''make dir error'' @ nul @ ''symlink error'' @ nul @ ''close archive error'' @ nul @
       ''capacity size too small'' @ nul),
     Some (''fseek error'' @ nul), Some (''fread error'' @ nul), Some (''fwrite error'' @ nul),
     None, None, None]"

text \<open>The string a caller reads from the result.\<close>

definition zip_strerror :: "int \<Rightarrow> string option" where
  "zip_strerror errnum0 = (let errnum = - errnum0 in
     if errnum \<le> 0 \<or> errnum \<ge> 30 then None
     else map_option (takeWhile (\<lambda>c. c \<noteq> CHR 0x00)) (zip_errlist ! nat errnum))"

text \<open>\<open>fprintf\<close> of a null pointer for \<open>%s\<close>.\<close>

definition show_str :: "string option \<Rightarrow> string" where
  "show_str s = (case s of None \<Rightarrow> ''(null)'' | Some t \<Rightarrow> t)"

text \<open>What \<open>zip.h\<close> documents for the codes -1 to -29.\<close>

definition zip_doc :: "int \<Rightarrow> string option" where
  "zip_doc errnum = (if -29 \<le> errnum \<and> errnum \<le> -1 then Some ([''not initialized'', ''invalid entry name'', ''entry not found'',
     ''invalid zip mode'', ''invalid compression level'', ''no zip 64 support'',
     ''memset error'', ''cannot write data to entry'', ''cannot initialize tdefl compressor'',
     ''invalid index'', ''header not found'', ''cannot flush tdefl buffer'',
     ''cannot create entry header'', ''cannot write entry header'', ''cannot write to central dir'',
     ''cannot open file'', ''invalid entry type'', ''extracting data using no memory allocation'',
     ''file not found'', ''no permission'', ''out of memory'',
     ''invalid zip archive name'', ''make dir error'', ''symlink error'',
     ''close archive error'', ''capacity size too small'', ''fseek error'',
     ''fread error'', ''fwrite error''] ! nat (- errnum - 1)) else None)"

text \<open>The table of messages does not follow \<open>zip.h\<close>: two messages are swapped, and behind the three
  missing commas every code from -24 on gets another code's message or none at all.\<close>

theorem zip_messages_displaced:
  "filter (\<lambda>e. zip_strerror e \<noteq> zip_doc e) (map (\<lambda>n. - int n) [1..<30]) =
     [-13, -14, -24, -25, -26, -27, -28, -29] \<and>
   zip_strerror (-28) = None \<and> zip_strerror (-24) = Some ''fseek error''"
  by code_simp

end
