(* ===== verification/File_Transfer.thy ===== *)
theory File_Transfer
  imports Server_Util Client Zip_Names
begin

text \<open>
  The two threads of the file transfer: \<open>handle_loq_req\<close> of \<open>server/src/srv_util.c\<close>, which compresses
  the log and sends it, and \<open>recv_file\<close> of \<open>client/src/cliente.c\<close>. The zip library and the kernel
  answer the calls; the packets are the 280 bytes of \<open>ft_packet_t\<close>. A \<open>goto terminate\<close> jumps over
  initialisations: the descriptor it closes is then indeterminate (\<open>None\<close>) and the packet it sends
  is whatever the stack holds.
\<close>

section \<open>Packets of the transfer\<close>

text \<open>\<open>int mtype\<close>, four bytes of padding, \<open>ssize_t fsize\<close>, \<open>size_t nbytes\<close>, the payload.\<close>

definition ft_bytes :: "ft_packet_t \<Rightarrow> byte list" where
  "ft_bytes p = le32 (ft_mtype p) @ zeros 4 @ le64 (ft_fsize p) @ le64 (ft_nbytes p) @ ft_payload p"

definition ft_of :: "byte list \<Rightarrow> ft_packet_t" where
  "ft_of bs = \<lparr>ft_mtype = rd32 bs, ft_fsize = rd64 (drop 8 bs), ft_nbytes = rd64 (drop 16 bs),
     ft_payload = take FT_PAYLOAD_SIZE (drop 24 bs)\<rparr>"

abbreviation (input) FT_SIZE :: nat where "FT_SIZE \<equiv> 280"

definition le16 :: "16 word \<Rightarrow> byte list" where
  "le16 w = le 2 (unat w)"

abbreviation (input) FT_PORT :: "16 word" where "FT_PORT \<equiv> 12345"

section \<open>The sender\<close>

record ft_answers =
  a_socket :: int
  a_setsockopt :: int
  a_bind :: int
  a_listen :: int
  a_accept :: int
  a_zip_open :: bool
  a_entry_open :: int
  a_entry_fwrite :: int
  a_entry_close :: int
  a_stat :: "64 word option"
  a_md5_reads :: "read_res list"
  a_open :: int
  a_reads :: "read_res list"
  a_stack :: "byte list"

text \<open>The label: the type of the packet becomes FT_FIN, it is written, and two descriptors are closed.\<close>

definition terminate :: "env \<Rightarrow> int option \<Rightarrow> int \<Rightarrow> byte list \<Rightarrow> ('z proc_scheme, unit) comp" where
  "terminate E fd_file_transfer sock ft_packet =
     (case fd_file_transfer of
        None \<Rightarrow> fail Uninit_read
      | Some fd \<Rightarrow>
          bnd (attempt E (Write fd (overlay (le32 M_TYPE_FT_FIN) ft_packet))) (\<lambda>_.
          bnd (attempt E (Close fd)) (\<lambda>_.
          bnd (attempt E (Close sock)) (\<lambda>_. skip))))"

definition perror_goto ::
  "env \<Rightarrow> string \<Rightarrow> int option \<Rightarrow> int \<Rightarrow> byte list \<Rightarrow> ('z proc_scheme, unit) comp" where
  "perror_goto E msg fd sock ft_packet = seq (emit (Perror msg)) (terminate E fd sock ft_packet)"

definition stderr_goto ::
  "env \<Rightarrow> string \<Rightarrow> int option \<Rightarrow> int \<Rightarrow> byte list \<Rightarrow> ('z proc_scheme, unit) comp" where
  "stderr_goto E msg fd sock ft_packet = seq (emit (Stderr msg)) (terminate E fd sock ft_packet)"

definition data_packet :: "byte list \<Rightarrow> ft_packet_t" where
  "data_packet bs = \<lparr>ft_mtype = M_TYPE_FT_DATA, ft_fsize = 0, ft_nbytes = of_nat (length bs),
     ft_payload = overlay bs (zeros FT_PAYLOAD_SIZE)\<rparr>"

text \<open>The loop over the bytes of the archive; it leaves a zeroed packet unless a \<open>write\<close> failed.\<close>

fun send_loop :: "env \<Rightarrow> int \<Rightarrow> int \<Rightarrow> read_res list \<Rightarrow> ('z proc_scheme, unit) comp" where
  "send_loop E fd sock [] = fail Diverges"
| "send_loop E fd sock (R_err err # rs) = terminate E (Some fd) sock (zeros FT_SIZE)"
| "send_loop E fd sock (R_ok bs # rs) =
     (if bs = [] then terminate E (Some fd) sock (zeros FT_SIZE)
      else bnd (attempt E (Write fd (ft_bytes (data_packet bs)))) (\<lambda>r.
        if r \<noteq> None then perror_goto E ''write fd_file_transfer'' (Some fd) sock (ft_bytes (data_packet bs))
        else send_loop E fd sock rs))"

definition begin_packet :: "64 word \<Rightarrow> byte list \<Rightarrow> ft_packet_t" where
  "begin_packet fsize payload =
     \<lparr>ft_mtype = M_TYPE_FT_BEGIN, ft_fsize = fsize, ft_nbytes = 0, ft_payload = payload\<rparr>"

text \<open>From the archive on: \<open>st_size\<close> is the size of the log, the digest that of the archive.\<close>

definition send_archive :: "env \<Rightarrow> ft_answers \<Rightarrow> int \<Rightarrow> int \<Rightarrow> ('z proc_scheme, unit) comp" where
  "send_archive E a fd sock =
     (case a_stat a of
        None \<Rightarrow> perror_goto E ''stat'' (Some fd) sock (a_stack a)
      | Some st_size \<Rightarrow>
          bnd (get_file_MD5 E (a_md5_reads a)) (\<lambda>(r, hash).
          case hash of
            None \<Rightarrow> stderr_goto E (''get_file_MD5 fall'' @ o_acute @ nl) (Some fd) sock
                (ft_bytes (begin_packet st_size (zeros FT_PAYLOAD_SIZE)))
          | Some h \<Rightarrow>
              let p = ft_bytes (begin_packet st_size
                        (overlay (take MD5_DIGEST_LENGTH h) (zeros FT_PAYLOAD_SIZE))) in
              seq (log_line E Log_clientes (''Tama'' @ n_tilde @ ''o del archivo a mandar: '' @
                show_int (sint st_size) @ nl))
              (bnd (attempt E (Write fd p)) (\<lambda>w.
              if w \<noteq> None then perror_goto E ''write file_transfer'' (Some fd) sock p
              else if a_open a = -1 then perror_goto E ''fd_log'' (Some fd) sock p
              else send_loop E fd sock (a_reads a)))))"

definition handle_loq_req :: "env \<Rightarrow> ft_answers \<Rightarrow> int \<Rightarrow> ('z proc_scheme, unit) comp" where
  "handle_loq_req E a sock_req =
     bnd (setup_tcpsocket (a_socket a) FT_PORT) (\<lambda>(sock, sin_port).
     let junk = a_stack a in
     if a_setsockopt a < 0 then perror_goto E (''setsockopt(SO_RESUSEADDR) fall'' @ o_acute @ nl) None sock junk
     else if a_bind a < 0 then perror_goto E ''ligadura'' None sock junk
     else case sin_port of
       None \<Rightarrow> perror_goto E ''socket_pasivo_ft'' None sock junk
     | Some port \<Rightarrow>
         bnd (gen_packet E M_TYPE_FT_SETUP (le16 port) 2) (\<lambda>(_, packet).
         if a_listen a = -1 then perror_goto E ''listen ft'' None sock junk
         else bnd (attempt E (Write sock_req (packet_bytes packet))) (\<lambda>w.
         if w \<noteq> None then perror_goto E (''Env'' @ i_acute @ ''o de M_TYPE_FT_SETUP'' @ nl) None sock junk
         else
           seq (log_line E Log_clientes (''Enviado M_TYPE_FT_SETUP, escuchando con socket '' @
             show_int sock @ '' en puerto '' @ show_nat (unat (htons port)) @ nl))
           (if a_accept a = -1 then perror_goto E ''fd_file_transfer'' (Some (-1)) sock junk
            else
              seq (log_line E Log_clientes (''Cliente aceptado para enviar archivo en fd: '' @
                show_int (a_accept a) @ nl))
              (if \<not> a_zip_open a then
                 stderr_goto E (''Error al crear log comprimido'' @ nl) (Some (a_accept a)) sock junk
               else if a_entry_open a < 0 then
                 stderr_goto E (''zip_entry_open: '' @ show_str (zip_strerror (a_entry_open a))) (Some (a_accept a)) sock junk
               else if a_entry_fwrite a < 0 then
                 stderr_goto E (''zip_entry_write: '' @ show_str (zip_strerror (a_entry_fwrite a))) (Some (a_accept a)) sock junk
               else if a_entry_close a = -1 then
                 stderr_goto E (''zip_entry_close: '' @ show_str (zip_strerror (a_entry_close a))) (Some (a_accept a)) sock junk
               else send_archive E a (a_accept a) sock)))))"

section \<open>The receiver\<close>

record receiver = proc +
  r_packet :: "byte list"
  r_ctx :: "byte list option"
  r_server_hash :: "byte list option"
  r_end :: bool

definition recv_begin :: "ft_packet_t \<Rightarrow> ('z receiver_scheme, unit) comp" where
  "recv_begin p =
     seq (modify (\<lambda>s. s\<lparr>r_server_hash := Some (take MD5_DIGEST_LENGTH (ft_payload p)), r_ctx := Some []\<rparr>))
     (emit (Stdout (''Tama'' @ n_tilde @ ''o del archivo: '' @ show_int (sint (ft_fsize p)) @ nl)))"

text \<open>\<open>nbytes\<close> is the peer's: beyond the payload, \<open>write\<close> and \<open>MD5_Update\<close> read past the array.\<close>

definition recv_data :: "env \<Rightarrow> int \<Rightarrow> ft_packet_t \<Rightarrow> ('z receiver_scheme, unit) comp" where
  "recv_data E fd p =
     (if FT_PAYLOAD_SIZE < unat (ft_nbytes p) then fail Out_of_bounds
      else let bs = take (unat (ft_nbytes p)) (ft_payload p) in
        bnd (attempt E (Write fd bs)) (\<lambda>w.
        seq (when_do (w \<noteq> None)
              (seq (emit (Perror ''Write archivo nuevo, archivo corrupto''))
                   (modify (\<lambda>s. s\<lparr>r_end := True\<rparr>))))
        (bnd (gets r_ctx) (\<lambda>c. case c of None \<Rightarrow> fail Uninit_read
          | Some old \<Rightarrow> modify (\<lambda>s. s\<lparr>r_ctx := Some (old @ bs)\<rparr>)))))"

definition llego :: string where
  "llego = ''El archivo lleg'' @ o_acute @ '' ''"

definition recv_fin :: "env \<Rightarrow> ('z receiver_scheme, unit) comp" where
  "recv_fin E =
     seq (modify (\<lambda>s. s\<lparr>r_end := True\<rparr>))
     (bnd (gets r_ctx) (\<lambda>c. bnd (gets r_server_hash) (\<lambda>h.
      case (c, h) of
        (Some old, Some server_hash) \<Rightarrow>
          if take MD5_DIGEST_LENGTH (md5 E old) = server_hash
          then emit (Stdout (llego @ ''correctamente'' @ nl))
          else emit (Stdout (llego @ ''da'' @ n_tilde @ ''ado'' @ nl))
      | _ \<Rightarrow> fail Uninit_read)))"

definition recv_iteration :: "env \<Rightarrow> int \<Rightarrow> read_res \<Rightarrow> ('z receiver_scheme, unit) comp" where
  "recv_iteration E fd r =
     (case r of
        R_err err \<Rightarrow> seq (emit (Perror ''recv_bytes'')) (modify (\<lambda>s. s\<lparr>r_end := True\<rparr>))
      | R_ok bs \<Rightarrow>
          seq (modify (\<lambda>s. s\<lparr>r_packet := overlay bs (r_packet s)\<rparr>))
          (bnd (gets (\<lambda>s. ft_of (r_packet s))) (\<lambda>p.
           if ft_mtype p = M_TYPE_FT_BEGIN then recv_begin p
           else if ft_mtype p = M_TYPE_FT_DATA then recv_data E fd p
           else if ft_mtype p = M_TYPE_FT_FIN then recv_fin E
           else skip)))"

text \<open>\<open>while (!end)\<close>; without an answer \<open>recv\<close> blocks for ever.\<close>

fun recv_loop :: "env \<Rightarrow> int \<Rightarrow> read_res list \<Rightarrow> ('z receiver_scheme, unit) comp" where
  "recv_loop E fd [] = bnd (gets r_end) (\<lambda>e. if e then skip else fail Diverges)"
| "recv_loop E fd (r # rs) = bnd (gets r_end) (\<lambda>e.
     if e then skip else seq (recv_iteration E fd r) (recv_loop E fd rs))"

record recv_answers =
  f_socket :: int
  f_connect :: int
  f_open :: int
  f_recvs :: "read_res list"
  f_stack :: "byte list"

definition recv_terminate :: "env \<Rightarrow> int \<Rightarrow> int option \<Rightarrow> ('z proc_scheme, unit) comp" where
  "recv_terminate E new_sock file =
     bnd (attempt E (Close new_sock)) (\<lambda>_.
     case file of None \<Rightarrow> fail Uninit_read
     | Some fd \<Rightarrow> bnd (attempt E (Close fd)) (\<lambda>_. skip))"

definition recv_file :: "env \<Rightarrow> recv_answers \<Rightarrow> 16 word \<Rightarrow> ('z receiver_scheme, unit) comp" where
  "recv_file E a sin_port =
     (let new_sock = f_socket a in
      if new_sock = -1 then
        seq (emit (Perror ''Fallo al abrir nuevo socket para recibir archivo''))
          (recv_terminate E new_sock None)
      else
        seq (emit (Stdout (''Intentando conectarme al puerto: '' @ show_nat (unat (htons sin_port)) @ nl)))
        (if f_connect a < 0 then
           seq (emit (Perror ''Conexion a ft_server'')) (recv_terminate E new_sock None)
         else
           seq (emit (Stdout (''Me pude conectar al puerto: '' @ show_nat (unat (htons sin_port)) @ nl)))
           (if f_open a = -1 then
              seq (emit (Perror ''rcv_file.zip'')) (recv_terminate E new_sock (Some (-1)))
            else
              seq (modify (\<lambda>s. s\<lparr>r_packet := f_stack a, r_ctx := None, r_server_hash := None, r_end := False\<rparr>))
              (seq (recv_loop E (f_open a) (f_recvs a))
              (recv_terminate E new_sock (Some (f_open a)))))))"

end
