(* ===== verification/File_Transfer_Facts.thy ===== *)
theory File_Transfer_Facts
  imports File_Transfer Server_Actions
begin

text \<open>
  The transfer of the log: layout of its packets, what the sending thread writes on each path, what
  the receiving thread stores, and both ends together.
\<close>

section \<open>Layout\<close>

lemma length_le16 [simp]: "length (le16 w) = 2"
  by (simp add: le16_def)

lemma unle_le16 [simp]: "unle (le16 w) = unat w"
  using unat_bound [of w] by (simp add: le16_def unle_le_small)

lemma htons_htons: "htons (htons p) = p"
proof -
  have b: "unat p div 256 < 256" "unat p mod 256 < 256" using unat_bound [of p] by simp_all
  then have "unat p mod 256 * 256 + unat p div 256 < 65536" by linarith
  then have "unat (htons p) = unat p mod 256 * 256 + unat p div 256"
    unfolding htons_def unat_of_nat by simp
  then show ?thesis using b by (simp add: htons_def)
qed

lemma payload_short_sealed: "payload_short (sealed E t ty (le16 w)) = w"
proof -
  have "take 2 (pad_to 84 (le16 w)) = le16 w" using take_pad_to [of "le16 w" 84] by simp
  then show ?thesis by (simp add: payload_short_def)
qed

lemma length_ft_bytes: "length (ft_payload p) = FT_PAYLOAD_SIZE \<Longrightarrow> length (ft_bytes p) = FT_SIZE"
  by (simp add: ft_bytes_def)

lemma ft_of_bytes: "length (ft_payload p) = FT_PAYLOAD_SIZE \<Longrightarrow> ft_of (ft_bytes p) = p"
  by (simp add: ft_of_def ft_bytes_def)

lemma length_data_packet [simp]: "length (ft_payload (data_packet bs)) = FT_PAYLOAD_SIZE"
  by (simp add: data_packet_def)

lemma data_packet_bytes:
  "length bs \<le> FT_PAYLOAD_SIZE \<Longrightarrow>
   unat (ft_nbytes (data_packet bs)) = length bs \<and> take (length bs) (ft_payload (data_packet bs)) = bs"
  by (simp add: data_packet_def unat_of_nat overlay_def)

section \<open>The sender\<close>

definition io_ok :: "env \<Rightarrow> bool" where
  "io_ok E \<longleftrightarrow> (\<forall>n. io_err E n = None)"

lemma attempt_ok: "io_ok E \<Longrightarrow> attempt E x s = Inr (None, s\<lparr>nio := Suc (nio s), actions := actions s @ [x]\<rparr>)"
  by (simp add: attempt_def io_ok_def)

definition fin_bytes :: "byte list \<Rightarrow> byte list" where
  "fin_bytes pkt = overlay (le32 M_TYPE_FT_FIN) pkt"

lemma terminate_run:
  "\<exists>t. terminate E (Some fd) sock pkt s = Inr ((), t) \<and>
    actions t = actions s @ [Write fd (fin_bytes pkt), Close fd, Close sock]"
  by (simp add: terminate_def bnd_def attempt_def fin_bytes_def)

lemma send_loop_run:
  assumes "io_ok E" and "[] \<notin> set cs"
  shows "\<exists>t. send_loop E fd sock (map R_ok cs @ R_ok [] # rest) s = Inr ((), t) \<and>
    actions t = actions s @ map (\<lambda>c. Write fd (ft_bytes (data_packet c))) cs @
      [Write fd (fin_bytes (zeros FT_SIZE)), Close fd, Close sock]"
  using assms(2)
proof (induction cs arbitrary: s)
  case Nil
  then show ?case using terminate_run [of E fd sock "zeros 280" s] by simp
next
  case (Cons c cs)
  let ?s = "s\<lparr>nio := Suc (nio s), actions := actions s @ [Write fd (ft_bytes (data_packet c))]\<rparr>"
  obtain t where "send_loop E fd sock (map R_ok cs @ R_ok [] # rest) ?s = Inr ((), t)"
    "actions t = actions ?s @ map (\<lambda>c. Write fd (ft_bytes (data_packet c))) cs @
      [Write fd (fin_bytes (zeros FT_SIZE)), Close fd, Close sock]"
    using Cons by force
  moreover have "c \<noteq> []" using Cons.prems by auto
  ultimately show ?case by (simp add: bnd_def attempt_ok [OF assms(1)])
qed

text \<open>The answers of a request that meets no error, for an archive whose bytes are \<open>arch\<close>.\<close>

definition transfer_ok :: "ft_answers \<Rightarrow> 64 word \<Rightarrow> byte list \<Rightarrow> bool" where
  "transfer_ok a st_size arch \<longleftrightarrow> a_socket a \<noteq> -1 \<and> 0 \<le> a_setsockopt a \<and> 0 \<le> a_bind a \<and>
     a_listen a \<noteq> -1 \<and> a_accept a \<noteq> -1 \<and> a_zip_open a \<and> 0 \<le> a_entry_open a \<and>
     0 \<le> a_entry_fwrite a \<and> a_entry_close a \<noteq> -1 \<and> a_stat a = Some st_size \<and>
     a_md5_reads a = map R_ok (chunks 512 arch) @ [R_ok []] \<and> a_open a \<noteq> -1 \<and>
     a_reads a = map R_ok (chunks FT_PAYLOAD_SIZE arch) @ [R_ok []]"

definition archive_packets :: "env \<Rightarrow> 64 word \<Rightarrow> byte list \<Rightarrow> byte list list" where
  "archive_packets E st_size arch =
     ft_bytes (begin_packet st_size (overlay (take MD5_DIGEST_LENGTH (md5 E arch)) (zeros FT_PAYLOAD_SIZE))) #
     map (\<lambda>c. ft_bytes (data_packet c)) (chunks FT_PAYLOAD_SIZE arch) @ [fin_bytes (zeros FT_SIZE)]"

lemma chunks_no_Nil: "0 < n \<Longrightarrow> [] \<notin> set (chunks n xs)"
  using chunks_nonempty [of "[]" n xs] by blast

lemma writes_map: "writes (map (\<lambda>c. Write fd (f c)) cs) = map (\<lambda>c. (fd, f c)) cs"
  by (induction cs) simp_all

lemma closes_map: "closes (map (\<lambda>c. Write fd (f c)) cs) = []"
  by (induction cs) simp_all

lemma send_archive_run:
  assumes io: "io_ok E" and log: "log_ok E" and ok: "transfer_ok a st_size arch"
  shows "\<exists>t. send_archive E a fd sock s = Inr ((), t) \<and>
    writes (actions t) = writes (actions s) @ map (Pair fd) (archive_packets E st_size arch) \<and>
    closes (actions t) = closes (actions s) @ [fd, sock]"
proof -
  have md5: "get_file_MD5 E (map R_ok (chunks 512 arch) @ [R_ok []]) s = Inr ((0, Some (md5 E arch)), s)"
    using md5_file_loop_chunks [OF chunks_no_Nil, of 512 E "[]" arch "[]" s] concat_chunks [of 512 arch]
    by (simp add: get_file_MD5_def)
  let ?msg = "''Tama'' @ n_tilde @ ''o del archivo a mandar: '' @ show_int (sint st_size) @ nl"
  obtain s1 where s1: "log_line E Log_clientes ?msg s = Inr ((), s1)"
    "writes (actions s1) = writes (actions s)" "closes (actions s1) = closes (actions s)"
    using log_line_run [OF log] by blast
  let ?p = "ft_bytes (begin_packet st_size
    (overlay (take MD5_DIGEST_LENGTH (md5 E arch)) (zeros FT_PAYLOAD_SIZE)))"
  let ?s2 = "s1\<lparr>nio := Suc (nio s1), actions := actions s1 @ [Write fd ?p]\<rparr>"
  obtain t where t: "send_loop E fd sock (a_reads a) ?s2 = Inr ((), t)"
    "actions t = actions ?s2 @ map (\<lambda>c. Write fd (ft_bytes (data_packet c))) (chunks FT_PAYLOAD_SIZE arch) @
      [Write fd (fin_bytes (zeros FT_SIZE)), Close fd, Close sock]"
    using send_loop_run [OF io chunks_no_Nil, of FT_PAYLOAD_SIZE fd sock arch "[]" ?s2] ok
    by (auto simp: transfer_ok_def)
  have "send_archive E a fd sock s = send_loop E fd sock (a_reads a) ?s2"
    using ok s1(1) by (simp add: send_archive_def transfer_ok_def bnd_def seq_def md5
        attempt_ok [OF io] Let_def)
  with t s1 show ?thesis
    by (simp add: archive_packets_def writes_map closes_map)
qed

text \<open>A request without errors: the port on the client's socket, then the archive on the new one.\<close>

lemma handle_loq_req_run:
  assumes io: "io_ok E" and clock: "clock_ok E" and log: "log_ok E" and ok: "transfer_ok a st_size arch"
  shows "\<exists>t now. handle_loq_req E a sock_req s = Inr ((), t) \<and>
    writes (actions t) = writes (actions s) @
      (sock_req, packet_bytes (sealed E now M_TYPE_FT_SETUP (le16 (htons FT_PORT)))) #
      map (Pair (a_accept a)) (archive_packets E st_size arch) \<and>
    closes (actions t) = closes (actions s) @ [a_accept a, a_socket a]"
proof -
  let ?now = "clk E (ntime s)" and ?port = "htons FT_PORT"
  let ?pkt = "sealed E ?now M_TYPE_FT_SETUP (le16 ?port)"
  let ?s1 = "s\<lparr>ntime := Suc (ntime s)\<rparr>"
  let ?s2 = "?s1\<lparr>nio := Suc (nio s), actions := actions s @ [Write sock_req (packet_bytes ?pkt)]\<rparr>"
  have sock: "setup_tcpsocket (a_socket a) FT_PORT s = Inr ((a_socket a, Some ?port), s)"
    using ok by (simp add: setup_tcpsocket_def transfer_ok_def)
  have "?now \<noteq> -1" using clock by (simp add: clock_ok_def)
  then have g: "gen_packet E M_TYPE_FT_SETUP (le16 ?port) 2 s = Inr ((0, ?pkt), ?s1)"
    using gen_packet_ok [of E s "le16 ?port" M_TYPE_FT_SETUP] by simp
  let ?m1 = "''Enviado M_TYPE_FT_SETUP, escuchando con socket '' @ show_int (a_socket a) @
    '' en puerto '' @ show_nat (unat (htons ?port)) @ nl"
  let ?m2 = "''Cliente aceptado para enviar archivo en fd: '' @ show_int (a_accept a) @ nl"
  obtain s3 where s3: "log_line E Log_clientes ?m1 ?s2 = Inr ((), s3)"
    "writes (actions s3) = writes (actions ?s2)" "closes (actions s3) = closes (actions ?s2)"
    using log_line_run [OF log] by blast
  obtain s4 where s4: "log_line E Log_clientes ?m2 s3 = Inr ((), s4)"
    "writes (actions s4) = writes (actions s3)" "closes (actions s4) = closes (actions s3)"
    using log_line_run [OF log] by blast
  obtain t where t: "send_archive E a (a_accept a) (a_socket a) s4 = Inr ((), t)"
    "writes (actions t) = writes (actions s4) @ map (Pair (a_accept a)) (archive_packets E st_size arch)"
    "closes (actions t) = closes (actions s4) @ [a_accept a, a_socket a]"
    using send_archive_run [OF io log ok] by blast
  have "handle_loq_req E a sock_req s = send_archive E a (a_accept a) (a_socket a) s4"
    using ok s3(1) s4(1) by (simp add: handle_loq_req_def transfer_ok_def bnd_def seq_def sock g
        attempt_ok [OF io] Let_def)
  with t s3 s4 show ?thesis by (intro exI [of _ t] exI [of _ ?now]) simp
qed

section \<open>The receiver\<close>

text \<open>The blocks written to a descriptor; for the receiver, the contents of its file.\<close>

definition sent_on :: "int \<Rightarrow> action list \<Rightarrow> byte list list" where
  "sent_on fd xs = map snd (filter (\<lambda>w. fst w = fd) (writes xs))"

lemma sent_on_append [simp]: "sent_on fd (xs @ ys) = sent_on fd xs @ sent_on fd ys"
  by (simp add: sent_on_def)

lemma sent_on_Nil [simp]: "sent_on fd [] = []"
  by (simp add: sent_on_def)

lemma sent_on_Cons [simp]: "sent_on fd (x # xs) =
    (case x of Write d bs \<Rightarrow> if d = fd then [bs] else [] | _ \<Rightarrow> []) @ sent_on fd xs"
  by (simp add: sent_on_def split: action.split)

definition recv_step :: "env \<Rightarrow> int \<Rightarrow> read_res \<Rightarrow> ('z receiver_scheme, unit) comp" where
  "recv_step E fd r = bnd (gets r_end) (\<lambda>e. if e then skip else recv_iteration E fd r)"

text \<open>The digest context holds the end of what the file holds, and exists together with the server's digest.\<close>

definition recv_inv :: "int \<Rightarrow> 'z receiver_scheme \<Rightarrow> bool" where
  "recv_inv fd s \<longleftrightarrow> length (r_packet s) = FT_SIZE \<and> (r_ctx s = None \<longleftrightarrow> r_server_hash s = None) \<and>
     (\<forall>c. r_ctx s = Some c \<longrightarrow> (\<exists>pre. concat (sent_on fd (actions s)) = pre @ c))"

text \<open>What the receiver assumes of the sender: FT_BEGIN comes first, and sizes fit the payload.\<close>

definition ft_event_ok :: "'z receiver_scheme \<Rightarrow> read_res \<Rightarrow> bool" where
  "ft_event_ok s r \<longleftrightarrow> r_end s \<or> (case r of R_err _ \<Rightarrow> True
     | R_ok bs \<Rightarrow> let p = ft_of (overlay bs (r_packet s)) in
         (ft_mtype p = M_TYPE_FT_DATA \<longrightarrow> unat (ft_nbytes p) \<le> FT_PAYLOAD_SIZE \<and> r_ctx s \<noteq> None) \<and>
         (ft_mtype p = M_TYPE_FT_FIN \<longrightarrow> r_ctx s \<noteq> None))"

lemma recv_data_run:
  assumes "unat (ft_nbytes p) \<le> FT_PAYLOAD_SIZE" and "r_ctx s = Some c"
  shows "\<exists>t. recv_data E fd p s = Inr ((), t) \<and>
    r_ctx t = Some (c @ take (unat (ft_nbytes p)) (ft_payload p)) \<and>
    concat (sent_on fd (actions t)) = concat (sent_on fd (actions s)) @ take (unat (ft_nbytes p)) (ft_payload p) \<and>
    r_server_hash t = r_server_hash s \<and> r_packet t = r_packet s"
  using assms
  by (cases "io_err E (nio s) = None")
    (simp_all add: recv_data_def Let_def bnd_def attempt_def when_do_def seq_def emit_def)

lemma recv_step_inv:
  assumes inv: "recv_inv fd s" and ok: "ft_event_ok s r"
  shows "\<exists>t. recv_step E fd r s = Inr ((), t) \<and> recv_inv fd t"
proof (cases "r_end s")
  case True
  with inv show ?thesis by (simp add: recv_step_def)
next
  case False
  show ?thesis
  proof (cases r)
    case (R_err err)
    with False inv show ?thesis
      by (simp add: recv_step_def recv_iteration_def seq_def bnd_def emit_def recv_inv_def)
  next
    case (R_ok bs)
    let ?s = "s\<lparr>r_packet := overlay bs (r_packet s)\<rparr>"
    let ?p = "ft_of (overlay bs (r_packet s))"
    have step: "recv_step E fd r s = (if ft_mtype ?p = M_TYPE_FT_BEGIN then recv_begin ?p
        else if ft_mtype ?p = M_TYPE_FT_DATA then recv_data E fd ?p
        else if ft_mtype ?p = M_TYPE_FT_FIN then recv_fin E else skip) ?s"
      using False R_ok by (simp add: recv_step_def recv_iteration_def seq_def bnd_def)
    have inv': "recv_inv fd ?s" using inv by (simp add: recv_inv_def)
    consider "ft_mtype ?p = M_TYPE_FT_BEGIN" | "ft_mtype ?p = M_TYPE_FT_DATA"
      | "ft_mtype ?p = M_TYPE_FT_FIN" | "ft_mtype ?p \<notin> {8, 9, 10}" by blast
    then show ?thesis
    proof cases
      case 1
      with step inv' show ?thesis by (simp add: recv_begin_def emit_def recv_inv_def)
    next
      case 2
      with ok False R_ok obtain c where c: "r_ctx ?s = Some c" and n: "unat (ft_nbytes ?p) \<le> 256"
        by (auto simp: ft_event_ok_def Let_def)
      from recv_data_run [OF n c, of E fd] step 2 inv' c show ?thesis
        by (auto simp: recv_inv_def)
    next
      case 3
      with ok False R_ok obtain c where "r_ctx ?s = Some c" by (auto simp: ft_event_ok_def Let_def)
      with step 3 inv' show ?thesis
        by (auto simp: recv_fin_def emit_def recv_inv_def)
    next
      case 4
      with step inv' show ?thesis by simp
    qed
  qed
qed

text \<open>The assumption is exact: anything else is a fault.\<close>

lemma recv_step_fault:
  assumes "recv_inv fd s" and "\<not> ft_event_ok s r"
  shows "\<exists>f. recv_step E fd r s = Inl f"
proof -
  obtain bs where r: "r = R_ok bs" "\<not> r_end s" using assms(2) by (cases r) (auto simp: ft_event_ok_def)
  let ?s = "s\<lparr>r_packet := overlay bs (r_packet s)\<rparr>" and ?p = "ft_of (overlay bs (r_packet s))"
  have ok: "ft_mtype ?p = M_TYPE_FT_DATA \<and> (unat (ft_nbytes ?p) > FT_PAYLOAD_SIZE \<or> r_ctx s = None) \<or>
      ft_mtype ?p = M_TYPE_FT_FIN \<and> r_ctx s = None"
    using assms(2) r by (auto simp: ft_event_ok_def Let_def)
  have "recv_step E fd r s = (if ft_mtype ?p = M_TYPE_FT_BEGIN then recv_begin ?p
      else if ft_mtype ?p = M_TYPE_FT_DATA then recv_data E fd ?p
      else if ft_mtype ?p = M_TYPE_FT_FIN then recv_fin E else skip) ?s"
    using r by (simp add: recv_step_def recv_iteration_def seq_def bnd_def)
  moreover have "\<exists>f. recv_data E fd ?p ?s = Inl f" if "unat (ft_nbytes ?p) > FT_PAYLOAD_SIZE \<or> r_ctx s = None"
    using that by (cases "io_err E (nio s) = None")
      (auto simp: recv_data_def Let_def bnd_def attempt_def when_do_def seq_def emit_def)
  moreover have "\<exists>f. recv_fin E ?s = Inl f" if "r_ctx s = None"
    using that assms(1) by (simp add: recv_fin_def recv_inv_def seq_def bnd_def)
  ultimately show ?thesis using ok by auto
qed

interpretation receiver_events: exact_steps "recv_step E fd" ft_event_ok "recv_inv fd"
proof unfold_locales
  fix s :: "'z receiver_scheme" and e a t
  assume "recv_inv fd s" "ft_event_ok s e"
  from recv_step_inv [OF this, of E] obtain u where u: "recv_step E fd e s = Inr ((), u)" "recv_inv fd u"
    by blast
  then show "\<exists>a t. recv_step E fd e s = Inr (a, t)" by blast
  show "recv_inv fd t" if "recv_step E fd e s = Inr (a, t)" using u that by simp
next
  show "recv_inv fd s \<Longrightarrow> \<not> ft_event_ok s e \<Longrightarrow> \<exists>f. recv_step E fd e s = Inl f" for s :: "'z receiver_scheme" and e
    by (rule recv_step_fault)
qed

lemma recv_loop_stopped: "r_end s \<Longrightarrow> recv_loop E fd rs s = Inr ((), s)"
  by (cases rs) simp_all

text \<open>The loop is the run of its steps, provided the answers make it end.\<close>

lemma recv_loop_run:
  fixes s :: "'z receiver_scheme"
  assumes "run (recv_step E fd) rs s = Inr ((), t)" and "r_end t"
  shows "recv_loop E fd rs s = Inr ((), t)"
  using assms(1)
proof (induction rs arbitrary: s)
  case Nil
  with assms(2) show ?case by simp
next
  case (Cons r rs)
  then obtain u where u: "recv_step E fd r s = Inr ((), u)" "run (recv_step E fd) rs u = Inr ((), t)"
    by (auto simp: seq_Inr)
  then have rest: "recv_loop E fd rs u = Inr ((), t)" by (intro Cons.IH)
  show ?case
  proof (cases "r_end s")
    case True
    with u(1) have "u = s" by (simp add: recv_step_def)
    with rest True show ?thesis by (simp add: recv_loop_stopped)
  next
    case False
    then have "recv_iteration E fd r s = Inr ((), u)" using u(1) by (simp add: recv_step_def)
    with False rest show ?thesis by (simp add: seq_apply)
  qed
qed

section \<open>Both ends\<close>

lemma recv_begin_step:
  assumes "\<not> r_end s" and "length (r_packet s) = FT_SIZE" and "length h = MD5_DIGEST_LENGTH"
  shows "\<exists>t. recv_step E fd (R_ok (ft_bytes (begin_packet n (overlay h (zeros FT_PAYLOAD_SIZE))))) s = Inr ((), t) \<and>
    r_ctx t = Some [] \<and> r_server_hash t = Some h \<and> \<not> r_end t \<and> length (r_packet t) = FT_SIZE \<and>
    sent_on d (actions t) = sent_on d (actions s) \<and> closes (actions t) = closes (actions s) \<and>
    r_packet t = ft_bytes (begin_packet n (overlay h (zeros FT_PAYLOAD_SIZE)))"
proof -
  let ?p = "begin_packet n (overlay h (zeros 256))"
  have l: "length (ft_payload ?p) = 256" by (simp add: begin_packet_def)
  have "overlay (ft_bytes ?p) (r_packet s) = ft_bytes ?p"
    using assms(2) length_ft_bytes [OF l] by (simp add: overlay_full)
  moreover have "take 16 (overlay h (zeros 256)) = h" using assms(3) by (simp add: overlay_def)
  ultimately show ?thesis
    using assms(1) length_ft_bytes [OF l] ft_of_bytes [OF l]
    by (simp add: recv_step_def recv_iteration_def recv_begin_def seq_def bnd_def emit_def)
      (simp add: begin_packet_def)
qed

lemma recv_data_step:
  assumes "\<not> r_end s" and "length (r_packet s) = FT_SIZE" and "length bs \<le> FT_PAYLOAD_SIZE"
    and "r_ctx s = Some c" and "io_ok E"
  shows "\<exists>t. recv_step E fd (R_ok (ft_bytes (data_packet bs))) s = Inr ((), t) \<and>
    r_ctx t = Some (c @ bs) \<and> r_server_hash t = r_server_hash s \<and> \<not> r_end t \<and>
    length (r_packet t) = FT_SIZE \<and> sent_on fd (actions t) = sent_on fd (actions s) @ [bs] \<and>
    closes (actions t) = closes (actions s)"
proof -
  note l = length_data_packet [of bs]
  have "overlay (ft_bytes (data_packet bs)) (r_packet s) = ft_bytes (data_packet bs)"
    using assms(2) length_ft_bytes [OF l] by (simp add: overlay_full)
  then show ?thesis
    using assms(1,3,4) length_ft_bytes [OF l] ft_of_bytes [OF l] data_packet_bytes [OF assms(3)]
    by (simp add: recv_step_def recv_iteration_def recv_data_def Let_def seq_def bnd_def
        attempt_ok [OF assms(5)] when_do_def)
      (simp add: data_packet_def)
qed

lemma recv_data_steps:
  assumes "io_ok E"
  shows "\<not> r_end s \<Longrightarrow> length (r_packet s) = FT_SIZE \<Longrightarrow> r_ctx s = Some c \<Longrightarrow>
    \<forall>bs \<in> set cs. length bs \<le> FT_PAYLOAD_SIZE \<Longrightarrow>
    \<exists>t. run (recv_step E fd) (map (\<lambda>bs. R_ok (ft_bytes (data_packet bs))) cs) s = Inr ((), t) \<and>
      r_ctx t = Some (c @ concat cs) \<and> r_server_hash t = r_server_hash s \<and> \<not> r_end t \<and>
      length (r_packet t) = FT_SIZE \<and> sent_on fd (actions t) = sent_on fd (actions s) @ cs \<and>
      closes (actions t) = closes (actions s)"
proof (induction cs arbitrary: s c)
  case Nil
  then show ?case by simp
next
  case (Cons bs cs)
  have "length bs \<le> 256" using Cons.prems(4) by simp
  from recv_data_step [OF Cons.prems(1,2) this Cons.prems(3) assms, of fd]
  obtain u where u: "recv_step E fd (R_ok (ft_bytes (data_packet bs))) s = Inr ((), u)"
    "r_ctx u = Some (c @ bs)" "r_server_hash u = r_server_hash s" "\<not> r_end u"
    "length (r_packet u) = 280" "sent_on fd (actions u) = sent_on fd (actions s) @ [bs]"
    "closes (actions u) = closes (actions s)"
    by blast
  from Cons.IH [OF u(4,5,2)] Cons.prems(4) u(1,3,6,7) show ?case by (auto simp: seq_apply)
qed

definition msg_correct :: string where
  "msg_correct = llego @ ''correctamente'' @ nl"

lemma fin_fields: "ft_mtype (ft_of (fin_bytes (zeros FT_SIZE))) = M_TYPE_FT_FIN"
  "length (fin_bytes (zeros FT_SIZE)) = FT_SIZE"
  by (simp_all add: ft_of_def fin_bytes_def overlay_def)

lemma recv_fin_step:
  assumes "\<not> r_end s" and "length (r_packet s) = FT_SIZE" and "r_ctx s = Some c"
    and "r_server_hash s = Some (take MD5_DIGEST_LENGTH (md5 E c))"
  shows "\<exists>t. recv_step E fd (R_ok (fin_bytes (zeros FT_SIZE))) s = Inr ((), t) \<and> r_end t \<and>
    actions t = actions s @ [Stdout msg_correct]"
proof -
  have "overlay (fin_bytes (zeros 280)) (r_packet s) = fin_bytes (zeros 280)"
    using assms(2) fin_fields(2) by (simp add: overlay_full)
  with assms show ?thesis
    by (simp add: recv_step_def recv_iteration_def seq_def bnd_def fin_fields(1) recv_fin_def emit_def
        msg_correct_def)
qed

text \<open>Receiving the packets of an archive stores the archive and finds the digest right.\<close>

lemma recv_archive:
  assumes io: "io_ok E" and md5: "md5_ok E" and s: "\<not> r_end s" "length (r_packet s) = FT_SIZE"
  shows "\<exists>t. recv_loop E fd (map R_ok (archive_packets E n arch)) s = Inr ((), t) \<and>
    concat (sent_on fd (actions t)) = concat (sent_on fd (actions s)) @ arch \<and>
    Stdout msg_correct \<in> set (actions t) \<and> closes (actions t) = closes (actions s)"
proof -
  let ?h = "take 16 (md5 E arch)"
  have h: "length ?h = 16" using md5 by (simp add: md5_ok_def)
  obtain s1 where s1: "recv_step E fd (R_ok (ft_bytes (begin_packet n (overlay ?h (zeros 256))))) s = Inr ((), s1)"
    "r_ctx s1 = Some []" "r_server_hash s1 = Some ?h" "\<not> r_end s1" "length (r_packet s1) = 280"
    "sent_on fd (actions s1) = sent_on fd (actions s)" "closes (actions s1) = closes (actions s)"
    using recv_begin_step [OF s h] by blast
  have "\<forall>bs \<in> set (chunks 256 arch). length bs \<le> 256" using chunks_nonempty by blast
  from recv_data_steps [OF io s1(4,5,2) this, of fd]
  obtain s2 where s2: "run (recv_step E fd) (map (\<lambda>bs. R_ok (ft_bytes (data_packet bs))) (chunks 256 arch)) s1 = Inr ((), s2)"
    "r_ctx s2 = Some arch" "r_server_hash s2 = Some ?h" "\<not> r_end s2" "length (r_packet s2) = 280"
    "sent_on fd (actions s2) = sent_on fd (actions s) @ chunks 256 arch"
    "closes (actions s2) = closes (actions s)"
    using concat_chunks [of 256 arch] s1(3,6,7) by auto
  obtain t where t: "recv_step E fd (R_ok (fin_bytes (zeros 280))) s2 = Inr ((), t)" "r_end t"
    "actions t = actions s2 @ [Stdout msg_correct]"
    using recv_fin_step [OF s2(4,5,2,3)] by blast
  have "run (recv_step E fd) (map R_ok (archive_packets E n arch)) s = Inr ((), t)"
    using s1(1) s2(1) t(1)
    by (simp add: archive_packets_def run_append seq_def bnd_def comp_def)
  from recv_loop_run [OF this t(2)] s2(6,7) t(3) show ?thesis
    by (simp add: concat_chunks)
qed

text \<open>
  \<open>recv\<close> may cut a packet in two. When it does so behind the type of the first data packet, the receiver looks at a data packet
  that still has the size 0 of FT_BEGIN, and then at a packet whose type is the padding: the block is lost.
\<close>

definition cut_second :: "byte list list \<Rightarrow> byte list list" where
  "cut_second ps = (case ps of p # q # qs \<Rightarrow> p # take 4 q # drop 4 q # qs | _ \<Rightarrow> ps)"

lemma recv_cut_head:
  assumes "\<not> r_end s" and "r_packet s = ft_bytes (begin_packet n pl)" and "length pl = FT_PAYLOAD_SIZE" and "r_ctx s = Some c" and "io_ok E"
  shows "\<exists>t. recv_step E fd (R_ok (take 4 (ft_bytes (data_packet bs)))) s = Inr ((), t) \<and> r_ctx t = Some c \<and>
    r_server_hash t = r_server_hash s \<and> \<not> r_end t \<and> length (r_packet t) = FT_SIZE \<and>
    concat (sent_on fd (actions t)) = concat (sent_on fd (actions s)) \<and> closes (actions t) = closes (actions s)"
proof -
  let ?q = "(begin_packet n pl)\<lparr>ft_mtype := M_TYPE_FT_DATA\<rparr>"
  have l: "length (ft_payload ?q) = FT_PAYLOAD_SIZE" using assms(3) by (simp add: begin_packet_def)
  have "overlay (take 4 (ft_bytes (data_packet bs))) (r_packet s) = ft_bytes ?q"
    unfolding assms(2) by (simp add: ft_bytes_def overlay_def data_packet_def begin_packet_def)
  then show ?thesis
    using assms(1,4) length_ft_bytes [OF l] ft_of_bytes [OF l]
    by (simp add: recv_step_def recv_iteration_def recv_data_def Let_def seq_def bnd_def attempt_ok [OF assms(5)] when_do_def)
      (simp add: begin_packet_def)
qed

lemma recv_cut_tail:
  assumes "\<not> r_end s" and "length (r_packet s) = FT_SIZE" and "length bs \<le> FT_PAYLOAD_SIZE"
  shows "\<exists>t. recv_step E fd (R_ok (drop 4 (ft_bytes (data_packet bs)))) s = Inr ((), t) \<and> r_ctx t = r_ctx s \<and>
    r_server_hash t = r_server_hash s \<and> \<not> r_end t \<and> length (r_packet t) = FT_SIZE \<and> actions t = actions s"
proof -
  have "length (drop 4 (ft_bytes (data_packet bs))) = 276" using length_ft_bytes [OF length_data_packet [of bs]] by simp
  then have l: "length (overlay (drop 4 (ft_bytes (data_packet bs))) (r_packet s)) = FT_SIZE" using assms(2) by (simp add: overlay_def)
  have "take 4 (drop 4 (ft_bytes (data_packet bs))) = zeros 4" by (simp add: ft_bytes_def)
  then have "take 4 (overlay (drop 4 (ft_bytes (data_packet bs))) (r_packet s)) = zeros 4" 
    using length_ft_bytes [OF length_data_packet [of bs]] assms(2) by (simp add: overlay_def)
  then have "ft_mtype (ft_of (overlay (drop 4 (ft_bytes (data_packet bs))) (r_packet s))) = 0"
    by (simp add: ft_of_def rd32_def zeros_def eval_nat_numeral)
  then show ?thesis
    using assms(1) l by (simp add: recv_step_def recv_iteration_def seq_def bnd_def)
qed

lemma recv_fin_any:
  assumes "\<not> r_end s" and "length (r_packet s) = FT_SIZE" and "r_ctx s = Some c" and "r_server_hash s = Some h"
  shows "\<exists>t msg. recv_step E fd (R_ok (fin_bytes (zeros FT_SIZE))) s = Inr ((), t) \<and> r_end t \<and>
    actions t = actions s @ [Stdout msg]"
proof -
  have "overlay (fin_bytes (zeros 280)) (r_packet s) = fin_bytes (zeros 280)"
    using assms(2) fin_fields(2) by (simp add: overlay_full)
  with assms show ?thesis
    by (simp add: recv_step_def recv_iteration_def seq_def bnd_def fin_fields(1) recv_fin_def emit_def)
qed

lemma recv_cut_archive:
  assumes io: "io_ok E" and md5: "md5_ok E" and s: "\<not> r_end s" "length (r_packet s) = FT_SIZE" and ne: "arch \<noteq> []"
  shows "\<exists>t. recv_loop E fd (map R_ok (cut_second (archive_packets E n arch))) s = Inr ((), t) \<and>
    concat (sent_on fd (actions t)) = concat (sent_on fd (actions s)) @ drop FT_PAYLOAD_SIZE arch"
proof -
  let ?h = "take 16 (md5 E arch)" and ?b = "take 256 arch"
  have h: "length ?h = 16" using md5 by (simp add: md5_ok_def)
  have ch: "chunks 256 arch = ?b # chunks 256 (drop 256 arch)" using ne by (subst chunks.simps) simp
  obtain s1 where s1: "recv_step E fd (R_ok (ft_bytes (begin_packet n (overlay ?h (zeros 256))))) s = Inr ((), s1)"
    "r_ctx s1 = Some []" "r_server_hash s1 = Some ?h" "\<not> r_end s1"
    "r_packet s1 = ft_bytes (begin_packet n (overlay ?h (zeros 256)))"
    "sent_on fd (actions s1) = sent_on fd (actions s)"
    using recv_begin_step [OF s h] by blast
  have "length (overlay ?h (zeros 256)) = 256" using h by (simp add: overlay_def)
  from recv_cut_head [OF s1(4,5) this s1(2) io, of fd ?b]
  obtain s2 where s2: "recv_step E fd (R_ok (take 4 (ft_bytes (data_packet ?b)))) s1 = Inr ((), s2)" "r_ctx s2 = Some []"
    "r_server_hash s2 = Some ?h" "\<not> r_end s2" "length (r_packet s2) = 280"
    "concat (sent_on fd (actions s2)) = concat (sent_on fd (actions s1))"
    using s1(3) by auto
  have "length ?b \<le> 256" by simp
  from recv_cut_tail [OF s2(4,5) this, of E fd]
  obtain s3 where s3: "recv_step E fd (R_ok (drop 4 (ft_bytes (data_packet ?b)))) s2 = Inr ((), s3)" "r_ctx s3 = Some []"
    "r_server_hash s3 = Some ?h" "\<not> r_end s3" "length (r_packet s3) = 280" "actions s3 = actions s2"
    using s2(2,3) by auto
  have "\<forall>bs \<in> set (chunks 256 (drop 256 arch)). length bs \<le> 256" using chunks_nonempty by blast
  from recv_data_steps [OF io s3(4,5,2) this, of fd]
  obtain s4 where s4: "run (recv_step E fd) (map (\<lambda>bs. R_ok (ft_bytes (data_packet bs))) (chunks 256 (drop 256 arch))) s3 = Inr ((), s4)"
    "r_ctx s4 = Some (drop 256 arch)" "r_server_hash s4 = Some ?h" "\<not> r_end s4" "length (r_packet s4) = 280"
    "sent_on fd (actions s4) = sent_on fd (actions s3) @ chunks 256 (drop 256 arch)"
    using concat_chunks [of 256 "drop 256 arch"] s3(3) by auto
  obtain t msg where t: "recv_step E fd (R_ok (fin_bytes (zeros 280))) s4 = Inr ((), t)" "r_end t"
    "actions t = actions s4 @ [Stdout msg]"
    using recv_fin_any [OF s4(4,5,2,3)] by blast
  have "run (recv_step E fd) (map R_ok (cut_second (archive_packets E n arch))) s = Inr ((), t)"
    using s1(1) s2(1) s3(1) s4(1) t(1)
    by (simp add: archive_packets_def cut_second_def ch run_append seq_def bnd_def comp_def)
  from recv_loop_run [OF this t(2)] s4(6) s3(6) s2(6) s1(6) t(3) show ?thesis
    by (simp add: concat_chunks)
qed

end
