(* ===== verification/Producers.thy ===== *)
theory Producers
  imports Mq_Util CLI "HOL-Library.Log_Nat"
begin

text \<open>
  \<open>productores/src\<close>: the three processes that feed the queue. Each is an iteration over what the
  kernel answers (the contents of its file in \<open>/proc\<close>, the clock, \<open>mq_send\<close>); \<open>fscanf\<close> is written
  out for the directives the code uses. \<open>sleep\<close> leaves no trace.
\<close>

record producer = proc +
  pmq :: int
  msg_count :: c_int

section \<open>fscanf\<close>

datatype directive = Skip_word | Skip_uint | Read_uint

text \<open>\<open>%u\<close>: \<open>strtoul\<close>, which saturates, cut to 32 bits; the rest of the input is what it did not use.\<close>

definition scan_uint :: "string \<Rightarrow> (c_int \<times> string) option" where
  "scan_uint s = (let t = dropWhile isspace s;
       neg = (t \<noteq> [] \<and> hd t = CHR ''-'');
       u = (if t \<noteq> [] \<and> (hd t = CHR ''-'' \<or> hd t = CHR ''+'') then tl t else t);
       ds = takeWhile is_digit u;
       n = min (2 ^ 64 - 1) (int (digits_val ds))
     in if ds = [] then None
        else Some (word_of_int (if neg \<and> n < 2 ^ 64 - 1 then - n else n), dropWhile is_digit u))"

definition scan_word :: "string \<Rightarrow> string option" where
  "scan_word s = (let t = dropWhile isspace s in
     if t = [] then None else Some (dropWhile (\<lambda>c. \<not> isspace c) t))"

text \<open>The value a format with one assignment stores, or \<open>None\<close> when \<open>fscanf\<close> does not return 1.\<close>

fun fscanf :: "directive list \<Rightarrow> string \<Rightarrow> c_int option" where
  "fscanf [] s = None"
| "fscanf (Skip_word # ds) s = (case scan_word s of None \<Rightarrow> None | Some r \<Rightarrow> fscanf ds r)"
| "fscanf (Skip_uint # ds) s = (case scan_uint s of None \<Rightarrow> None | Some (_, r) \<Rightarrow> fscanf ds r)"
| "fscanf (Read_uint # ds) s = (case scan_uint s of None \<Rightarrow> None | Some (v, _) \<Rightarrow> Some v)"

section \<open>Free memory\<close>

text \<open>\<open>"%*s %*u %*s %*s %*u %*s %*s %u"\<close>\<close>

definition meminfo_format :: "directive list" where
  "meminfo_format =
     [Skip_word, Skip_uint, Skip_word, Skip_word, Skip_uint, Skip_word, Skip_word, Read_uint]"

text \<open>
  \<open>file\<close> is what \<open>fopen\<close> finds. A failed \<open>fclose\<close> has released the stream all the same, so the
  retry is a use of a closed stream.
\<close>

definition get_free_mem :: "env \<Rightarrow> string option \<Rightarrow> ('z proc_scheme, c_int) comp" where
  "get_free_mem E file =
     (case file of
        None \<Rightarrow> seq (emit (Perror ''fopen: '')) (ret 0)
      | Some contents \<Rightarrow>
          (case fscanf meminfo_format contents of
             None \<Rightarrow>
               seq (emit (Stderr ''Fallo el fscanf de /proc/meminfo''))
               (bnd (attempt E (Fclose ''/proc/meminfo'')) (\<lambda>_. ret 0))
           | Some mem_free \<Rightarrow>
               bnd (attempt E (Fclose ''/proc/meminfo'')) (\<lambda>r.
               if r = None then ret mem_free
               else seq (emit (Perror ''fclose: '')) (fail Freed_access))))"

text \<open>\<open>mq_send\<close> and what follows it, the same in the three producers.\<close>

definition publish :: "env \<Rightarrow> msg_producer_t \<Rightarrow> ('z producer_scheme, unit) comp" where
  "publish E msg =
     bnd (gets pmq) (\<lambda>mqd.
     bnd (attempt E (Mq_send mqd (msg_bytes msg))) (\<lambda>r.
     if r \<noteq> None then emit (Perror ''mq_send: '')
     else bnd (gets msg_count) (\<lambda>count.
       seq (emit (Stdout (''[PUBLISHER]: Sending message '' @ show_int (sint count) @ [CHR 0x0A])))
       (modify (\<lambda>s. s\<lparr>msg_count := count + 1\<rparr>)))))"

definition free_mem_iteration :: "env \<Rightarrow> string option \<Rightarrow> ('z producer_scheme, unit) comp" where
  "free_mem_iteration E file =
     bnd (sys_time E) (\<lambda>now.
     if now = -1 then skip
     else let msg = msg_zero\<lparr>mp_timestamp := now, mp_id := 0\<rparr> in
       bnd (get_free_mem E file) (\<lambda>mem.
       let msg = set_union (le32 mem) msg in
       if free_mem msg = 0 then skip else publish E msg))"

section \<open>Random messages\<close>

definition char1 :: string where
  "char1 = ''abcdefghijklmnopqrstuvwxyzABCDEFGHIJKLMNOPQRSTUVWXYZ0123456789/,.-+=~`<>:''"

text \<open>The buffer is filled to its last byte. \<open>rnd\<close> is the sequence of results of \<open>rand\<close>, whatever the seed.\<close>

fun rand_chars :: "env \<Rightarrow> nat \<Rightarrow> ('z proc_scheme, byte list) comp" where
  "rand_chars E 0 = ret []"
| "rand_chars E (Suc n) =
     bnd (sys_rand E) (\<lambda>r.
     bnd (rand_chars E n) (\<lambda>rest.
     ret (byte_of_char (char1 ! (unat (scast r :: 64 word) mod length char1)) # rest)))"

definition gen_rand_msg :: "env \<Rightarrow> nat \<Rightarrow> ('z proc_scheme, byte list option) comp" where
  "gen_rand_msg E buf_len =
     bnd (sys_time E) (\<lambda>my_seed.
     if my_seed = -1 then seq (emit (Perror ''time: '')) (ret None)
     else bnd (rand_chars E buf_len) (\<lambda>buff. ret (Some buff)))"

definition rand_msg_iteration :: "env \<Rightarrow> ('z producer_scheme, unit) comp" where
  "rand_msg_iteration E =
     bnd (sys_time E) (\<lambda>now.
     if now = -1 then skip
     else let msg = msg_zero\<lparr>mp_timestamp := now, mp_id := 1\<rparr> in
       bnd (gen_rand_msg E RANDOM_MSG_LEN) (\<lambda>r.
       case r of None \<Rightarrow> skip
       | Some buff \<Rightarrow> publish E (set_union buff msg)))"

section \<open>System load\<close>

text \<open>
  \<open>%f\<close> on decimal text: sign, digits with an optional fraction, an optional exponent; the value is
  the rational \<open>n / d\<close>, rounded to the nearest single-precision number, ties to even.
\<close>

definition round_half_even :: "nat \<Rightarrow> nat \<Rightarrow> nat" where
  "round_half_even n d = (let q = n div d; r = n mod d in
     if d < 2 * r \<or> (2 * r = d \<and> odd q) then q + 1 else q)"

definition floor_log2 :: "nat \<Rightarrow> nat \<Rightarrow> int" where
  "floor_log2 n d = (if d \<le> n then int (floorlog 2 (n div d)) - 1
     else - int (floorlog 2 ((d - 1) div n)))"

definition float_bits :: "nat \<Rightarrow> nat \<Rightarrow> nat" where
  "float_bits n d = (if n = 0 then 0 else
     let e = max (- 149) (floor_log2 n d - 23);
         m = (if 0 \<le> e then round_half_even n (d * 2 ^ nat e)
              else round_half_even (n * 2 ^ nat (- e)) d)
     in min 0x7F800000 (nat (e + 149) * 2 ^ 23 + m))"

definition scan_float :: "string \<Rightarrow> 32 word option" where
  "scan_float s = (let t = dropWhile isspace s;
       neg = (t \<noteq> [] \<and> hd t = CHR ''-'');
       u = (if t \<noteq> [] \<and> (hd t = CHR ''-'' \<or> hd t = CHR ''+'') then tl t else t);
       ip = takeWhile is_digit u; v = dropWhile is_digit u;
       fp = (if v \<noteq> [] \<and> hd v = CHR ''.'' then takeWhile is_digit (tl v) else []);
       w = (if v \<noteq> [] \<and> hd v = CHR ''.'' then dropWhile is_digit (tl v) else v);
       exp = (if w \<noteq> [] \<and> (hd w = CHR ''e'' \<or> hd w = CHR ''E'') then tl w else []);
       eneg = (exp \<noteq> [] \<and> hd exp = CHR ''-'');
       x = (if exp \<noteq> [] \<and> (hd exp = CHR ''-'' \<or> hd exp = CHR ''+'') then tl exp else exp);
       k = digits_val (takeWhile is_digit x);
       n = digits_val (ip @ fp); d = 10 ^ length fp
     in if ip @ fp = [] then None
        else Some (of_nat ((if neg then 2 ^ 31 else 0) +
          (if eneg then float_bits n (d * 10 ^ k) else float_bits (n * 10 ^ k) d))))"

definition get_sys_load :: "env \<Rightarrow> string option \<Rightarrow> ('z proc_scheme, 32 word option) comp" where
  "get_sys_load E file =
     (case file of
        None \<Rightarrow> seq (emit (Stderr (''Fall'' @ o_acute @ '' al abrir /proc/loadavg''))) (ret None)
      | Some contents \<Rightarrow>
          bnd (attempt E (Fclose ''/proc/loadavg'')) (\<lambda>_.
          case scan_float contents of
            None \<Rightarrow> seq (emit (Stderr ''fallo al buscar system load'')) (ret None)
          | Some x \<Rightarrow> ret (Some x)))"

definition sys_load_iteration :: "env \<Rightarrow> string option \<Rightarrow> ('z producer_scheme, unit) comp" where
  "sys_load_iteration E file =
     bnd (sys_time E) (\<lambda>now.
     if now = -1 then skip
     else let msg = msg_zero\<lparr>mp_timestamp := now, mp_id := 2\<rparr> in
       bnd (get_sys_load E file) (\<lambda>r.
       case r of None \<Rightarrow> skip
       | Some load \<Rightarrow> publish E (set_union (le32 load) msg)))"

section \<open>main\<close>

text \<open>The three \<open>main\<close>s begin alike; the message comes from \<open>join_existing_mq\<close> and once more from \<open>main\<close>.\<close>

definition producer_setup :: "(nat \<Rightarrow> int) \<Rightarrow> ('z producer_scheme, unit) comp" where
  "producer_setup opens =
     bnd (join_existing_mq opens) (\<lambda>mqd.
     seq (emit (Stdout (''[PUBLISHER]: Queue opened, queue descriptor: '' @ show_int mqd @ [CHR 0x0A])))
     (modify (\<lambda>s. s\<lparr>pmq := mqd, msg_count := 1\<rparr>)))"

definition prod_free_mem :: "env \<Rightarrow> (nat \<Rightarrow> int) \<Rightarrow> string option list \<Rightarrow> ('z producer_scheme, unit) comp" where
  "prod_free_mem E opens files = seq (producer_setup opens) (run (free_mem_iteration E) files)"

definition prod_rand_msg :: "env \<Rightarrow> (nat \<Rightarrow> int) \<Rightarrow> nat \<Rightarrow> ('z producer_scheme, unit) comp" where
  "prod_rand_msg E opens n = seq (producer_setup opens) (run (\<lambda>_. rand_msg_iteration E) (replicate n ()))"

definition prod_sys_load :: "env \<Rightarrow> (nat \<Rightarrow> int) \<Rightarrow> string option list \<Rightarrow> ('z producer_scheme, unit) comp" where
  "prod_sys_load E opens files = seq (producer_setup opens) (run (sys_load_iteration E) files)"

end
