(* ===== verification/Peer_Properties.thy ===== *)
theory Peer_Properties
  imports Client_Facts File_Transfer_Facts Producers
begin

text \<open>
  The properties of the processes around the server: the client, both ends of the file transfer, and
  the producers.
\<close>

section \<open>A concrete client\<close>

definition answers0 :: client_answers where
  "answers0 = \<lparr>c_args = [''cliente'', ''localhost'', ''5001''], c_optarg = None, c_host = True,
     c_socket = 3, c_connect = 0, c_pid = 9, c_stack = replicate 112 0\<rparr>"

definition accepted0 :: packet_t where
  "accepted0 = sealed env0 100 M_TYPE_CONN_ACCEPTED (le32 7)"

definition client0 :: client where
  "client0 = \<lparr>ntime = 0, nio = 0, nrand = 0, actions = [], csock = 3, cpid = 9, tflag = True,
     ctoken = Some 11, rcv_buf = replicate 112 0, c_term = False\<rparr>"

lemma client0_simps [simp]: "actions client0 = []" "csock client0 = 3" "tflag client0"
  "ctoken client0 = Some 11" "rcv_buf client0 = replicate 112 0" "\<not> c_term client0" "ntime client0 = 0"
  by (simp_all add: client0_def)

section \<open>A concrete transfer\<close>

definition transfer0 :: ft_answers where
  "transfer0 = \<lparr>a_socket = 7, a_setsockopt = 0, a_bind = 0, a_listen = 0, a_accept = 8, a_zip_open = True,
     a_entry_open = 0, a_entry_fwrite = 0, a_entry_close = 0, a_stat = Some 3,
     a_md5_reads = map R_ok (chunks 512 [80, 75, 3]) @ [R_ok []], a_open = 9,
     a_reads = map R_ok (chunks FT_PAYLOAD_SIZE [80, 75, 3]) @ [R_ok []], a_stack = replicate FT_SIZE 1\<rparr>"

definition receiver0 :: receiver where
  "receiver0 = \<lparr>ntime = 0, nio = 0, nrand = 0, actions = [], r_packet = replicate FT_SIZE 0, r_ctx = None,
     r_server_hash = None, r_end = False\<rparr>"

lemma io_ok_env0 [simp]: "io_ok env0" and log_ok_env0 [simp]: "log_ok env0"
  by (simp_all add: io_ok_def log_ok_def)

lemma transfer_ok0 [simp]: "transfer_ok transfer0 3 [80, 75, 3]"
  by (simp add: transfer_ok_def transfer0_def)


section \<open>The client\<close>

text \<open>C9. For any sequence of answers to \<open>recv\<close>, the connected client runs without a fault if and only if no packet that
  passes the digest check is data or the acceptance in a room before the client holds a token, or data whose payload has no
  NUL; and whenever it runs, everything it has written is a packet of 112 bytes on the server's socket that passes the digest
  check and is an ACK or an AUTH.\<close>

theorem client_speaks_protocol:
  assumes "clock_ok E" and "md5_ok E" and "client_setup a = Inr s" and "length (c_stack a) = 112"
  shows "((\<exists>t. client_main E a rs = Inr ((), t)) \<longleftrightarrow> recvs_ok E s rs) \<and>
    (\<forall>t. client_main E a rs = Inr ((), t) \<longrightarrow> (\<forall>w \<in> set (writes (actions t)). client_packet E (csock t) w))"
proof -
  have main: "client_main E a rs = client_loop E rs s" using assms(3) by (simp add: client_main_def)
  have inv: "client_inv E s" by (rule client_setup_inv [OF assms(3,1,2,4)])
  have "client_packet E (csock t) w" if t: "client_loop E rs s = Inr ((), t)" and w: "w \<in> set (writes (actions t))" for t w
  proof -
    have "recvs_ok E s rs" using client_loop_returns [OF inv] t by blast
    from client_loop_inv [OF inv this] t w show ?thesis by (auto simp: client_inv_def)
  qed
  then show ?thesis unfolding main using client_loop_returns [OF inv] by blast
qed

theorem client_speaks_protocol_witness:
  "\<exists>t. client_main env0 answers0 [R_ok (packet_bytes accepted0)] = Inr ((), t) \<and>
    (\<forall>w \<in> set (writes (actions t)). client_packet env0 (csock t) w)"
proof -
  obtain s where s: "client_setup answers0 = Inr s" by (simp add: client_setup_def answers0_def Let_def)
  then have b: "length (rcv_buf s) = 112" by (auto simp: client_setup_def answers0_def Let_def)
  have wf: "packet_wf accepted0" by (simp add: accepted0_def sealed_wf)
  have "packet_of (buffer_after (R_ok (packet_bytes accepted0)) (rcv_buf s)) = accepted0"
    using b packet_of_bytes [OF wf] length_packet_bytes [OF wf] by (simp add: buffer_after_def overlay_full)
  then have "recvs_ok env0 s [R_ok (packet_bytes accepted0)]"
    by (simp add: recv_ok_def accepted0_def split: sum.split)
  moreover have "length (c_stack answers0) = 112" by (simp add: answers0_def)
  ultimately show ?thesis
    using client_speaks_protocol [OF clock_ok_env0 md5_ok_env0 s, of "[R_ok (packet_bytes accepted0)]"] by blast
qed

lemma after_packet:
  assumes "packet_wf p" and "length (rcv_buf s) = 112"
  shows "client_iteration E (R_ok (packet_bytes p)) s =
    dispatch E p (after_recv (R_ok (packet_bytes p)) s)"
  using assms length_packet_bytes [OF assms(1)]
  by (simp add: client_iteration_dispatch buffer_after_def overlay_full packet_of_bytes)

text \<open>Started with \<open>-t old\<close>, the client answers CONN_ACCEPTED with an AUTH that names the old token and
  then the one it was just given, followed by an ACK of the old token, which it keeps.\<close>

theorem client_reconnects:
  assumes "clock_ok E" and "md5_ok E" and "tflag s" and "ctoken s = Some old"
    and "length (rcv_buf s) = 112"
    and p: "p = sealed E now M_TYPE_CONN_ACCEPTED (le32 new)"
  shows "\<exists>t auth ack. client_iteration E (R_ok (packet_bytes p)) s = Inr ((), t) \<and> ctoken t = Some old \<and>
    writes (actions t) = writes (actions s) @
      [(csock s, packet_bytes auth), (csock s, packet_bytes ack)] \<and>
    p_mtype auth = M_TYPE_AUTH \<and> payload_int auth = old \<and> payload_int2 auth = new \<and>
    p_mtype ack = M_TYPE_ACK \<and> payload_int ack = old"
proof -
  have wf: "packet_wf p" using p sealed_wf [OF assms(2), of "le32 new"] by simp
  let ?s = "after_recv (R_ok (packet_bytes p)) s"
  have "client_iteration E (R_ok (packet_bytes p)) s = on_conn_accepted E p ?s"
    using after_packet [OF wf assms(5)] p by (simp add: dispatch_def)
  moreover have "tflag ?s" "ctoken ?s = Some old" using assms(3,4) by simp_all
  moreover have "payload_int p = new" by (simp add: p payload_int_sealed)
  ultimately obtain t now1 now2 where
    t: "client_iteration E (R_ok (packet_bytes p)) s = Inr ((), t)" "ctoken t = Some old"
    "writes (actions t) = writes (actions s) @
      [(csock s, packet_bytes (sealed E now1 M_TYPE_AUTH (le32 old @ le32 new))),
       (csock s, packet_bytes (sealed E now2 M_TYPE_ACK (le32 old)))]"
    using on_conn_accepted_again [OF assms(1), of ?s old p] by auto
  then show ?thesis
    by (intro exI [of _ t] exI [of _ "sealed E now1 M_TYPE_AUTH (le32 old @ le32 new)"]
        exI [of _ "sealed E now2 M_TYPE_ACK (le32 old)"])
      (simp add: payload_int_sealed payload_ints_sealed)
qed

text \<open>C37. A \<open>recv\<close> that fails or finds the stream closed leaves the last packet in the buffer, and the loop
  goes on as if it had just arrived: a data packet is acknowledged again, once per failed call.\<close>

theorem stale_packet_is_acknowledged_again:
  assumes "clock_ok E" and "check_packet_MD5 E p = 1" and "p_mtype p = M_TYPE_DATA"
    and "c_str (p_payload p) = Some body"
    and "packet_of (rcv_buf s) = p" and "ctoken s = Some tok" and "\<not> c_term s"
    and "\<forall>r \<in> set rs. r = R_ok [] \<or> (\<exists>e. r = R_err e)"
  shows "\<exists>t ws. client_loop E rs s = Inr ((), t) \<and> writes (actions t) = writes (actions s) @ ws \<and>
    length ws = length rs \<and>
    (\<forall>w \<in> set ws. \<exists>now. w = (csock s, packet_bytes (sealed E now M_TYPE_ACK (le32 tok))))"
  using assms(5-8)
proof (induction rs arbitrary: s)
  case Nil
  then show ?case by simp
next
  case (Cons r rs)
  let ?s = "after_recv r s"
  have buf: "buffer_after r (rcv_buf s) = rcv_buf s"
    using Cons.prems(4) by (auto simp: buffer_after_def)
  have tok: "ctoken ?s = Some tok" using Cons.prems(2) by simp
  obtain u where u: "on_data E p ?s = Inr ((), u)" "proc.more u = proc.more ?s"
    "writes (actions u) = writes (actions ?s) @
      [(csock ?s, packet_bytes (sealed E (clk E (ntime ?s)) M_TYPE_ACK (le32 tok)))]"
    using on_data_run [OF assms(1) tok assms(4)] by blast
  have it: "client_iteration E r s = Inr ((), u)"
    using client_iteration_dispatch [of E r s] u(1) assms(2,3) Cons.prems(1) buf
    by (simp add: dispatch_def)
  note c = more_client [OF u(2)]
  have "packet_of (rcv_buf u) = p" "ctoken u = Some tok" "\<not> c_term u"
    "\<forall>r \<in> set rs. r = R_ok [] \<or> (\<exists>e. r = R_err e)"
    using c buf Cons.prems by simp_all
  from Cons.IH [OF this] obtain t ws where "client_loop E rs u = Inr ((), t)"
    "writes (actions t) = writes (actions u) @ ws" "length ws = length rs"
    "\<forall>w \<in> set ws. \<exists>now. w = (csock u, packet_bytes (sealed E now M_TYPE_ACK (le32 tok)))"
    by blast
  with it u(3) c Cons.prems(3) show ?case
    by (intro exI [of _ t] exI [of _ "(csock s, packet_bytes (sealed E (clk E (ntime s)) M_TYPE_ACK (le32 tok))) # ws"])
      (auto simp: seq_apply)
qed

theorem stale_packet_is_acknowledged_again_witness:
  "\<exists>t ws. client_loop env0 [R_ok [], R_err EOTHER] (client0\<lparr>rcv_buf := packet_bytes
      (sealed env0 100 M_TYPE_DATA [72, 0])\<rparr>) = Inr ((), t) \<and> writes (actions t) = ws \<and> length ws = 2 \<and>
    (\<forall>w \<in> set ws. \<exists>now. w = (3, packet_bytes (sealed env0 now M_TYPE_ACK (le32 11))))"
proof -
  let ?p = "sealed env0 100 M_TYPE_DATA [72, 0]"
  have wf: "packet_wf ?p" by (simp add: sealed_wf)
  have "c_str (p_payload ?p) = Some [72]" by (simp add: c_str_def pad_to_def)
  then show ?thesis
    using stale_packet_is_acknowledged_again [of env0 ?p "[72]" "client0\<lparr>rcv_buf := packet_bytes ?p\<rparr>" 11
        "[R_ok [], R_err EOTHER]"] packet_of_bytes [OF wf]
    by (auto simp: numeral_2_eq_2)
qed

section \<open>The file transfer\<close>

text \<open>C3. End to end, when no system or library call of the two sides fails: if each \<open>recv\<close> of \<open>recv_file\<close> returns one of the
  packets that \<open>handle_loq_req\<close> writes on the transfer socket, the new file holds exactly the bytes of the archive and the
  client finds the digest right. The loop of the client relies on that: when \<open>recv\<close> delivers the same bytes but cuts the first
  data packet of an archive behind its type, the file lacks the first 256 bytes of the archive.\<close>

theorem log_transfer_end_to_end:
  assumes io: "io_ok E" and clock: "clock_ok E" and log: "log_ok E" and md5: "md5_ok E"
    and ok: "transfer_ok a st_size arch" and fds: "sock_req \<noteq> a_accept a"
    and clean: "actions s = []" "actions r = []"
    and rcv: "f_socket b \<noteq> -1" "0 \<le> f_connect b" "f_open b \<noteq> -1" "length (f_stack b) = FT_SIZE"
    and sent: "handle_loq_req E a sock_req s = Inr ((), t)"
  shows "(f_recvs b = map R_ok (sent_on (a_accept a) (actions t)) \<longrightarrow>
      (\<exists>u. recv_file E b port r = Inr ((), u) \<and> concat (sent_on (f_open b) (actions u)) = arch \<and>
        Stdout msg_correct \<in> set (actions u) \<and> closes (actions u) = [f_socket b, f_open b])) \<and>
    (f_recvs b = map R_ok (cut_second (sent_on (a_accept a) (actions t))) \<and> arch \<noteq> [] \<longrightarrow>
      (\<exists>u. recv_file E b port r = Inr ((), u) \<and> concat (sent_on (f_open b) (actions u)) = drop FT_PAYLOAD_SIZE arch))"
proof -
  obtain now where "writes (actions t) =
      (sock_req, packet_bytes (sealed E now M_TYPE_FT_SETUP (le16 (htons FT_PORT)))) #
      map (Pair (a_accept a)) (archive_packets E st_size arch)"
    using handle_loq_req_run [OF io clock log ok, of sock_req s] sent clean(1) by auto
  then have pk: "sent_on (a_accept a) (actions t) = archive_packets E st_size arch"
    using fds by (simp add: sent_on_def filter_map comp_def)
  let ?r1 = "r\<lparr>actions := [Stdout (''Intentando conectarme al puerto: '' @ show_nat (unat (htons port)) @ nl)]\<rparr>"
  let ?r2 = "?r1\<lparr>actions := actions ?r1 @
    [Stdout (''Me pude conectar al puerto: '' @ show_nat (unat (htons port)) @ nl)],
    r_packet := f_stack b, r_ctx := None, r_server_hash := None, r_end := False\<rparr>"
  have r2: "\<not> r_end ?r2" "length (r_packet ?r2) = FT_SIZE" using rcv(4) by simp_all
  have fin: "\<exists>v. recv_file E b port r = Inr ((), v) \<and> actions v = actions u @ [Close (f_socket b), Close (f_open b)]"
    if u: "recv_loop E (f_open b) (f_recvs b) ?r2 = Inr ((), u)" for u
  proof -
    obtain v where v: "recv_terminate E (f_socket b) (Some (f_open b)) u = Inr ((), v)"
      "actions v = actions u @ [Close (f_socket b), Close (f_open b)]"
      by (simp add: recv_terminate_def bnd_def attempt_def)
    have "recv_file E b port r = Inr ((), v)"
      using rcv clean(2) u v(1) by (simp add: recv_file_def Let_def seq_def bnd_def emit_def)
    with v(2) show ?thesis by blast
  qed
  show ?thesis
  proof (intro conjI impI)
    assume f: "f_recvs b = map R_ok (sent_on (a_accept a) (actions t))"
    from recv_archive [OF io md5 r2, of "f_open b" st_size arch] obtain u where
      u: "recv_loop E (f_open b) (f_recvs b) ?r2 = Inr ((), u)" "concat (sent_on (f_open b) (actions u)) = arch"
      "Stdout msg_correct \<in> set (actions u)" "closes (actions u) = []" unfolding f pk by auto
    from fin [OF u(1)] u(2-) show "\<exists>u. recv_file E b port r = Inr ((), u) \<and> concat (sent_on (f_open b) (actions u)) = arch \<and>
        Stdout msg_correct \<in> set (actions u) \<and> closes (actions u) = [f_socket b, f_open b]" by auto
  next
    assume f: "f_recvs b = map R_ok (cut_second (sent_on (a_accept a) (actions t))) \<and> arch \<noteq> []"
    then have "arch \<noteq> []" by blast
    from recv_cut_archive [OF io md5 r2 this, of "f_open b" st_size] f obtain u where
      u: "recv_loop E (f_open b) (f_recvs b) ?r2 = Inr ((), u)"
      "concat (sent_on (f_open b) (actions u)) = drop FT_PAYLOAD_SIZE arch" unfolding pk by auto
    from fin [OF u(1)] u(2) show "\<exists>u. recv_file E b port r = Inr ((), u) \<and>
        concat (sent_on (f_open b) (actions u)) = drop FT_PAYLOAD_SIZE arch" by auto
  qed
qed

theorem log_transfer_end_to_end_witness:
  "\<exists>t u v. handle_loq_req env0 transfer0 6 proc0 = Inr ((), t) \<and>
    recv_file env0 \<lparr>f_socket = 4, f_connect = 0, f_open = 5,
      f_recvs = map R_ok (sent_on 8 (actions t)), f_stack = replicate FT_SIZE 2\<rparr> FT_PORT receiver0 =
      Inr ((), u) \<and> concat (sent_on 5 (actions u)) = [80, 75, 3] \<and>
    recv_file env0 \<lparr>f_socket = 4, f_connect = 0, f_open = 5,
      f_recvs = map R_ok (cut_second (sent_on 8 (actions t))), f_stack = replicate FT_SIZE 2\<rparr> FT_PORT receiver0 =
      Inr ((), v) \<and> concat (sent_on 5 (actions v)) = []"
proof -
  obtain t where t: "handle_loq_req env0 transfer0 6 proc0 = Inr ((), t)"
    using handle_loq_req_run [OF io_ok_env0 clock_ok_env0 log_ok_env0 transfer_ok0, of 6 proc0] by blast
  note end_to_end = log_transfer_end_to_end [OF io_ok_env0 clock_ok_env0 log_ok_env0 md5_ok_env0 transfer_ok0 _ _ _ _ _ _ _ t,
    of receiver0 _ FT_PORT]
  show ?thesis
    using end_to_end [of "\<lparr>f_socket = 4, f_connect = 0, f_open = 5,
          f_recvs = map R_ok (sent_on 8 (actions t)), f_stack = replicate FT_SIZE 2\<rparr>"]
      end_to_end [of "\<lparr>f_socket = 4, f_connect = 0, f_open = 5,
          f_recvs = map R_ok (cut_second (sent_on 8 (actions t))), f_stack = replicate FT_SIZE 2\<rparr>"] t
    by (auto simp: transfer0_def receiver0_def)
qed

text \<open>When the socket of the transfer cannot be set up, the thread jumps to its end past the declaration
  of \<open>fd_file_transfer\<close> and writes to whatever that variable holds.\<close>

theorem failed_transfer_setup_uses_garbage:
  assumes "clock_ok E" and "a_setsockopt a < 0 \<or> a_bind a < 0 \<or> a_socket a = -1 \<or> a_listen a = -1"
  shows "handle_loq_req E a sock_req s = Inl Uninit_read"
proof -
  have "clk E (ntime s) \<noteq> -1" using assms(1) by (simp add: clock_ok_def)
  then have g: "gen_packet E M_TYPE_FT_SETUP (le16 (htons FT_PORT)) 2 s =
      Inr ((0, sealed E (clk E (ntime s)) M_TYPE_FT_SETUP (le16 (htons FT_PORT))), s\<lparr>ntime := Suc (ntime s)\<rparr>)"
    using gen_packet_ok [of E s "le16 (htons FT_PORT)" M_TYPE_FT_SETUP] by simp
  show ?thesis
    using assms(2) g
    by (auto simp: handle_loq_req_def setup_tcpsocket_def perror_goto_def terminate_def seq_def
        bnd_def emit_def Let_def)
qed

text \<open>C38. When the archive cannot be created, the client is sent 280 bytes of the server's stack: the packet
  was never initialised, only its type is set.\<close>

theorem failed_archive_leaks_stack:
  assumes io: "io_ok E" and clock: "clock_ok E" and log: "log_ok E"
    and net: "a_socket a \<noteq> -1" "0 \<le> a_setsockopt a" "0 \<le> a_bind a" "a_listen a \<noteq> -1" "a_accept a \<noteq> -1"
    and zip: "\<not> a_zip_open a" and stack: "length (a_stack a) = FT_SIZE"
  shows "\<exists>t setup. handle_loq_req E a sock_req s = Inr ((), t) \<and>
    writes (actions t) = writes (actions s) @
      [(sock_req, packet_bytes setup), (a_accept a, le32 M_TYPE_FT_FIN @ drop 4 (a_stack a))]"
proof -
  let ?now = "clk E (ntime s)" and ?port = "htons FT_PORT"
  let ?pkt = "sealed E ?now M_TYPE_FT_SETUP (le16 ?port)"
  let ?s1 = "s\<lparr>ntime := Suc (ntime s)\<rparr>"
  let ?s2 = "?s1\<lparr>nio := Suc (nio s), actions := actions s @ [Write sock_req (packet_bytes ?pkt)]\<rparr>"
  have sock: "setup_tcpsocket (a_socket a) FT_PORT s = Inr ((a_socket a, Some ?port), s)"
    using net by (simp add: setup_tcpsocket_def)
  have "?now \<noteq> -1" using clock by (simp add: clock_ok_def)
  then have g: "gen_packet E M_TYPE_FT_SETUP (le16 ?port) 2 s = Inr ((0, ?pkt), ?s1)"
    using gen_packet_ok [of E s "le16 ?port" M_TYPE_FT_SETUP] by simp
  let ?m1 = "''Enviado M_TYPE_FT_SETUP, escuchando con socket '' @ show_int (a_socket a) @
    '' en puerto '' @ show_nat (unat (htons ?port)) @ nl"
  let ?m2 = "''Cliente aceptado para enviar archivo en fd: '' @ show_int (a_accept a) @ nl"
  obtain s3 where s3: "log_line E Log_clientes ?m1 ?s2 = Inr ((), s3)"
    "writes (actions s3) = writes (actions ?s2)"
    using log_line_run [OF log] by blast
  obtain s4 where s4: "log_line E Log_clientes ?m2 s3 = Inr ((), s4)"
    "writes (actions s4) = writes (actions s3)"
    using log_line_run [OF log] by blast
  let ?s5 = "s4\<lparr>actions := actions s4 @ [Stderr (''Error al crear log comprimido'' @ nl)]\<rparr>"
  obtain t where t: "terminate E (Some (a_accept a)) (a_socket a) (a_stack a) ?s5 = Inr ((), t)"
    "actions t = actions ?s5 @ [Write (a_accept a) (fin_bytes (a_stack a)), Close (a_accept a), Close (a_socket a)]"
    using terminate_run by blast
  have "handle_loq_req E a sock_req s = Inr ((), t)"
    using net zip s3(1) s4(1) t(1) by (simp add: handle_loq_req_def bnd_def seq_def sock g
        attempt_ok [OF io] Let_def stderr_goto_def emit_def)
  moreover have "fin_bytes (a_stack a) = le32 M_TYPE_FT_FIN @ drop 4 (a_stack a)"
    using stack by (simp add: fin_bytes_def overlay_def)
  ultimately show ?thesis using t(2) s3(2) s4(2) by (intro exI [of _ t] exI [of _ ?pkt]) simp
qed

theorem failed_archive_leaks_stack_witness:
  "\<exists>t setup. handle_loq_req env0 (transfer0\<lparr>a_zip_open := False\<rparr>) 6 proc0 = Inr ((), t) \<and>
    writes (actions t) = [(6, packet_bytes setup), (8, le32 M_TYPE_FT_FIN @ replicate 276 1)]"
  using failed_archive_leaks_stack [OF io_ok_env0 clock_ok_env0 log_ok_env0, of "transfer0\<lparr>a_zip_open := False\<rparr>" 6 proc0]
  by (auto simp: transfer0_def)





text \<open>When the server goes away in the middle of a transfer, each further \<open>recv\<close> returns 0 and the client
  writes the block it got last once more: the file grows by it every time round, for ever.\<close>

theorem lost_server_repeats_last_block:
  assumes "io_ok E" and "\<not> r_end s" and "r_ctx s = Some c"
    and "ft_of (r_packet s) = p" and "ft_mtype p = M_TYPE_FT_DATA" and "unat (ft_nbytes p) \<le> FT_PAYLOAD_SIZE"
  shows "\<exists>t. run (recv_step E fd) (replicate n (R_ok [])) s = Inr ((), t) \<and> \<not> r_end t \<and>
    sent_on fd (actions t) = sent_on fd (actions s) @
      replicate n (take (unat (ft_nbytes p)) (ft_payload p))"
  using assms(2-4)
proof (induction n arbitrary: s c)
  case 0
  then show ?case by simp
next
  case (Suc n)
  let ?bs = "take (unat (ft_nbytes p)) (ft_payload p)"
  let ?t = "s\<lparr>nio := Suc (nio s), actions := actions s @ [Write fd ?bs], r_ctx := Some (c @ ?bs)\<rparr>"
  have step: "recv_step E fd (R_ok []) s = Inr ((), ?t)"
    using Suc.prems assms(5,6)
    by (simp add: recv_step_def recv_iteration_def recv_data_def Let_def seq_def bnd_def
        attempt_ok [OF assms(1)] when_do_def)
  have "\<not> r_end ?t" "r_ctx ?t = Some (c @ ?bs)" "ft_of (r_packet ?t) = p" using Suc.prems by simp_all
  from Suc.IH [OF this] obtain u where
    u: "run (recv_step E fd) (replicate n (R_ok [])) ?t = Inr ((), u)" "\<not> r_end u"
    "sent_on fd (actions u) = sent_on fd (actions ?t) @ replicate n ?bs" by blast
  have "run (recv_step E fd) (replicate (Suc n) (R_ok [])) s = Inr ((), u)"
    using step u(1) by (simp add: seq_apply)
  with u(2,3) show ?case by (intro exI [of _ u]) simp
qed

theorem lost_server_repeats_last_block_witness:
  "\<exists>t. run (recv_step env0 5) (replicate 4 (R_ok []))
      (receiver0\<lparr>r_ctx := Some [], r_packet := ft_bytes (data_packet [80, 75])\<rparr>) = Inr ((), t) \<and>
    sent_on 5 (actions t) = replicate 4 [80, 75]"
proof -
  have p: "ft_of (ft_bytes (data_packet [80, 75])) = data_packet [80, 75]"
    by (rule ft_of_bytes) simp
  show ?thesis
    using lost_server_repeats_last_block [of env0
        "receiver0\<lparr>r_ctx := Some [], r_packet := ft_bytes (data_packet [80, 75])\<rparr>" "[]" "data_packet [80, 75]" 5 4] p
    by (auto simp: receiver0_def data_packet_def overlay_def)
qed

end
