(* ===== verification/Producer_Properties.thy ===== *)
theory Producer_Properties
  imports Producers Server_Properties
begin

text \<open>
  The producers and the server that reads their queue: what \<open>fscanf\<close> finds in \<open>/proc/meminfo\<close>, what
  the messages contain, and what the server makes of them.
\<close>

section \<open>Scanning\<close>

definition blank :: "string \<Rightarrow> bool" where
  "blank w \<longleftrightarrow> w \<noteq> [] \<and> (\<forall>c \<in> set w. isspace c)"

definition plain_word :: "string \<Rightarrow> bool" where
  "plain_word w \<longleftrightarrow> w \<noteq> [] \<and> (\<forall>c \<in> set w. \<not> isspace c)"

lemma blank_hd: "blank b \<Longrightarrow> isspace (hd (b @ r))"
  by (cases b) (auto simp: blank_def)

lemma dropWhile_blank: "\<forall>c \<in> set b. isspace c \<Longrightarrow> w \<noteq> [] \<Longrightarrow> \<not> isspace (hd w) \<Longrightarrow>
    dropWhile isspace (b @ w) = w"
  by (induction b) (auto simp: dropWhile_eq_self_iff)

lemma dropWhile_until:
  "\<forall>c \<in> set w. P c \<Longrightarrow> r = [] \<or> \<not> P (hd r) \<Longrightarrow> dropWhile P (w @ r) = r"
  by (induction w) (auto simp: dropWhile_eq_self_iff)

lemma takeWhile_until:
  "\<forall>c \<in> set w. P c \<Longrightarrow> r = [] \<or> \<not> P (hd r) \<Longrightarrow> takeWhile P (w @ r) = w"
  by (induction w) (auto simp: takeWhile_eq_Nil_iff)

lemma scan_word_blank:
  assumes "\<forall>c \<in> set b. isspace c" and "plain_word w" and "r = [] \<or> isspace (hd r)"
  shows "scan_word (b @ w @ r) = Some r"
proof -
  have w: "w \<noteq> []" "\<not> isspace (hd (w @ r))" "\<forall>c \<in> set w. \<not> isspace c"
    using assms(2) by (auto simp: plain_word_def)
  have "dropWhile isspace (b @ w @ r) = w @ r" using dropWhile_blank [OF assms(1)] w by simp
  moreover have "dropWhile (\<lambda>c. \<not> isspace c) (w @ r) = r"
    using w(3) assms(3) by (intro dropWhile_until) auto
  ultimately show ?thesis using w(1) by (simp add: scan_word_def)
qed

lemma scan_uint_blank:
  assumes b: "\<forall>c \<in> set b. isspace c" and n: "n < 2 ^ 64" and r: "r = [] \<or> \<not> is_digit (hd r)"
  shows "scan_uint (b @ show_nat n @ r) = Some (of_nat n, r)"
proof -
  have dig: "\<forall>c \<in> set (show_nat n). is_digit c" using show_nat_digits by blast
  then have hd: "is_digit (hd (show_nat n @ r))" by simp
  note nsp = is_digit_no_space [OF hd]
  have "dropWhile isspace (b @ show_nat n @ r) = show_nat n @ r"
    using dropWhile_blank [OF b] nsp by simp
  moreover have "takeWhile is_digit (show_nat n @ r) = show_nat n"
    and "dropWhile is_digit (show_nat n @ r) = r"
    using takeWhile_until [OF dig r] dropWhile_until [OF dig r] by simp_all
  moreover have "min (2 ^ 64 - 1) (int n) = int n" using n by simp
  ultimately show ?thesis using nsp by (simp add: scan_uint_def Let_def)
qed

text \<open>
  \<open>/proc/meminfo\<close>: every line has a label, blanks, a number and a unit; the label and the blanks differ from line to line.
  The rest of the file is arbitrary.
\<close>

definition meminfo_line :: "string \<times> string \<times> nat \<Rightarrow> string" where
  "meminfo_line l = (case l of (label, pad, n) \<Rightarrow> label @ pad @ show_nat n @ '' kB'' @ [CHR 0x0A])"

definition meminfo :: "string \<times> string \<times> nat \<Rightarrow> string \<times> string \<times> nat \<Rightarrow> string \<times> string \<times> nat \<Rightarrow> string \<Rightarrow> string" where
  "meminfo l1 l2 l3 rest = meminfo_line l1 @ meminfo_line l2 @ meminfo_line l3 @ rest"

lemma blank_not_digit: "blank b \<Longrightarrow> \<not> is_digit (hd (b @ r))"
  using blank_hd is_digit_no_space by metis

definition line_ok :: "string \<times> string \<times> nat \<Rightarrow> bool" where
  "line_ok l \<longleftrightarrow> (case l of (label, pad, n) \<Rightarrow> plain_word label \<and> blank pad \<and> n < 2 ^ 64)"

lemma scan_line:
  assumes "line_ok (label, pad, n)" and "\<forall>c \<in> set b. isspace c"
  shows "scan_word (b @ meminfo_line (label, pad, n) @ x) = Some (pad @ show_nat n @ '' kB'' @ [CHR 0x0A] @ x)"
    "scan_uint (pad @ show_nat n @ '' kB'' @ [CHR 0x0A] @ x) = Some (of_nat n, '' kB'' @ [CHR 0x0A] @ x)"
    "scan_word ('' kB'' @ [CHR 0x0A] @ x) = Some ([CHR 0x0A] @ x)"
proof -
  have l: "plain_word label" "blank pad" "n < 2 ^ 64" using assms(1) by (simp_all add: line_ok_def)
  show "scan_word (b @ meminfo_line (label, pad, n) @ x) = Some (pad @ show_nat n @ '' kB'' @ [CHR 0x0A] @ x)"
    using scan_word_blank [OF assms(2) l(1), of "pad @ show_nat n @ '' kB'' @ [CHR 0x0A] @ x"] blank_hd [OF l(2)]
    by (simp add: meminfo_line_def)
  have "\<forall>c \<in> set pad. isspace c" using l(2) by (simp add: blank_def)
  then show "scan_uint (pad @ show_nat n @ '' kB'' @ [CHR 0x0A] @ x) = Some (of_nat n, '' kB'' @ [CHR 0x0A] @ x)"
    using scan_uint_blank [OF _ l(3), of pad "'' kB'' @ [CHR 0x0A] @ x"] by (simp add: is_digit_def)
  have "plain_word ''kB''" by (simp add: plain_word_def isspace_def)
  from scan_word_blank [OF _ this, of "'' ''" "[CHR 0x0A] @ x"]
  show "scan_word ('' kB'' @ [CHR 0x0A] @ x) = Some ([CHR 0x0A] @ x)" by (simp add: isspace_def)
qed

lemma fscanf_meminfo:
  assumes "line_ok (l1, p1, mtotal)" and "line_ok (l2, p2, mfree)" and "line_ok (l3, p3, avail)"
  shows "fscanf meminfo_format (meminfo (l1, p1, mtotal) (l2, p2, mfree) (l3, p3, avail) rest) = Some (of_nat avail)"
proof -
  have b: "\<forall>c \<in> set [CHR 0x0A]. isspace c" by (simp add: isspace_def)
  note s1 = scan_line [OF assms(1), of "[]", simplified]
  note s2 = scan_line [OF assms(2) b, simplified] and s3 = scan_line [OF assms(3) b, simplified]
  show ?thesis by (simp add: meminfo_def meminfo_format_def s1 s2 s3)
qed

section \<open>A concrete producer\<close>

definition producer0 :: producer where
  "producer0 = \<lparr>ntime = 0, nio = 0, nrand = 0, actions = [], pmq = 4, msg_count = 1\<rparr>"

section \<open>Messages\<close>

lemma publish_run:
  "\<exists>t. publish E msg s = Inr ((), t) \<and> Mq_send (pmq s) (msg_bytes msg) \<in> set (actions t)"
  by (cases "io_err E (nio s)") (auto simp: publish_def bnd_def attempt_def emit_def seq_def)

text \<open>C25. The memory report travels: from a \<open>/proc/meminfo\<close> that starts with three lines of a label, a number and \<open>kB\<close>
  the producer takes the third number, and the server turns the message it puts into the queue into the text with that number,
  if the number is not 0 and fits into an \<open>unsigned int\<close> and neither \<open>time\<close> nor \<open>fclose\<close> fails.\<close>

theorem memory_report_travels:
  assumes "line_ok (l1, p1, mtotal)" and "line_ok (l2, p2, mfree)" and "line_ok (l3, p3, avail)"
    and "0 < avail" and "avail < 2 ^ 32" and "clk E (ntime s) \<noteq> -1" and "io_err E (nio s) = None"
  shows "\<exists>t bs. free_mem_iteration E (Some (meminfo (l1, p1, mtotal) (l2, p2, mfree) (l3, p3, avail) rest)) s = Inr ((), t) \<and>
    Mq_send (pmq s) bs \<in> set (actions t) \<and> length bs = 56 \<and> mq_ok (Mq_msg (msg_of bs)) \<and>
    msg_text (msg_of bs) =
      Inr (bytes_of (''Memoria disponible del sistema: '' @ show_nat avail @ '' kB''))"
proof -
  let ?m = "set_union (le32 (of_nat avail)) (msg_zero\<lparr>mp_timestamp := clk E (ntime s), mp_id := 0\<rparr>)"
  have wf0: "msg_wf (msg_zero\<lparr>mp_timestamp := clk E (ntime s), mp_id := 0\<rparr>)"
    using msg_wf_zero by (simp add: msg_wf_def)
  then have wf: "msg_wf ?m" by (simp only: msg_wf_set)
  have av: "unat (of_nat avail :: c_int) = avail" using assms(5) by (simp add: unat_of_nat)
  then have nz: "(of_nat avail :: c_int) \<noteq> 0" using assms(4) by (metis unat_0 less_irrefl)
  have fm: "free_mem ?m = of_nat avail" by (rule free_mem_set [OF wf0])
  note scan = fscanf_meminfo [OF assms(1-3), of rest]
  let ?s = "s\<lparr>ntime := Suc (ntime s), nio := Suc (nio s), actions := actions s @ [Fclose ''/proc/meminfo'']\<rparr>"
  from publish_run [of E ?m ?s] obtain t where
    t: "publish E ?m ?s = Inr ((), t)" "Mq_send (pmq s) (msg_bytes ?m) \<in> set (actions t)" by auto
  have "free_mem_iteration E (Some (meminfo (l1, p1, mtotal) (l2, p2, mfree) (l3, p3, avail) rest)) s = publish E ?m ?s"
    using assms(6,7) fm nz
    by (simp add: free_mem_iteration_def get_free_mem_def bnd_def sys_time_def attempt_def scan Let_def)
  moreover have id: "mp_id ?m = 0" by (simp add: set_union_def)
  moreover have "msg_text ?m = Inr (bytes_of (''Memoria disponible del sistema: '' @ show_nat avail @ '' kB''))"
    using id fm av by (simp add: msg_text_def)
  moreover have "mq_ok (Mq_msg ?m)" using wf id by (simp add: mq_ok_def good_productor)
  ultimately show ?thesis
    using t wf by (intro exI [of _ t] exI [of _ "msg_bytes ?m"]) (simp add: msg_of_bytes length_msg_bytes)
qed

theorem memory_report_travels_witness:
  "\<exists>t bs. free_mem_iteration env0 (Some (''MemTotal:       16318124 kB'' @ [CHR 0x0A] @ ''MemFree:          982364 kB'' @ [CHR 0x0A] @
      ''MemAvailable:    8104720 kB'' @ [CHR 0x0A] @ ''Buffers:          412880 kB'' @ [CHR 0x0A])) producer0 = Inr ((), t) \<and>
    Mq_send 4 bs \<in> set (actions t) \<and>
    msg_text (msg_of bs) = Inr (bytes_of (''Memoria disponible del sistema: '' @ show_nat 8104720 @ '' kB''))"
proof -
  have l: "line_ok (''MemTotal:'', ''       '', 16318124)" "line_ok (''MemFree:'', ''          '', 982364)"
    "line_ok (''MemAvailable:'', ''    '', 8104720)"
    by (simp_all add: line_ok_def plain_word_def blank_def isspace_def)
  have n: "show_nat 16318124 = ''16318124''" "show_nat 982364 = ''982364''" "show_nat 8104720 = ''8104720''"
    by (simp_all add: show_nat.simps digit_def char_of_def bit_iff_odd)
  show ?thesis
    using memory_report_travels [OF l, of env0 producer0 "''Buffers:          412880 kB'' @ [CHR 0x0A]"] n
    by (auto simp: producer0_def meminfo_def meminfo_line_def)
qed



lemma char1_facts: "length char1 = 73" "CHR 0x00 \<notin> set char1"
  by (simp_all add: char1_def)

lemma rand_chars_run:
  "\<exists>bs. rand_chars E n s = Inr (bs, s\<lparr>nrand := nrand s + n\<rparr>) \<and> length bs = n \<and> 0 \<notin> set bs"
proof (induction n arbitrary: s)
  case 0
  then show ?case by simp
next
  case (Suc n)
  from Suc.IH [of "s\<lparr>nrand := Suc (nrand s)\<rparr>"] obtain bs where
    bs: "rand_chars E n (s\<lparr>nrand := Suc (nrand s)\<rparr>) = Inr (bs, s\<lparr>nrand := nrand s + Suc n\<rparr>)"
    "length bs = n" "0 \<notin> set bs" by auto
  let ?c = "char1 ! (unat (scast (rnd E (nrand s)) :: 64 word) mod length char1)"
  have "?c \<in> set char1" using char1_facts(1) by (intro nth_mem mod_less_divisor) simp
  then have "?c \<noteq> CHR 0x00" using char1_facts(2) by metis
  then have "0 \<noteq> byte_of_char ?c" using byte_of_char_eq_0 by metis
  with bs show ?case by (simp add: bnd_def sys_rand_def)
qed

text \<open>C24. The random message fills its forty bytes without a terminating NUL, whatever \<open>rand\<close> gives, and
  the server formats it with \<open>%s\<close>: every such message makes it read past the end of the structure.\<close>

theorem random_message_overruns:
  assumes E: "env_ok E" and clock: "clk P (ntime s) \<noteq> -1" "clk P (Suc (ntime s)) \<noteq> -1"
  shows "\<exists>t bs. rand_msg_iteration P s = Inr ((), t) \<and> Mq_send (pmq s) bs \<in> set (actions t) \<and>
    0 \<notin> set (random_msg (msg_of bs)) \<and> handle_mq E (Mq_msg (msg_of bs)) srv = Inl Out_of_bounds"
proof -
  let ?s2 = "s\<lparr>ntime := Suc (Suc (ntime s))\<rparr>"
  from rand_chars_run [of P 40 ?s2] obtain buf where
    buf: "rand_chars P 40 ?s2 = Inr (buf, ?s2\<lparr>nrand := nrand s + 40\<rparr>)" "length buf = 40" "0 \<notin> set buf"
    by auto
  let ?blank = "msg_zero\<lparr>mp_timestamp := clk P (ntime s), mp_id := 1\<rparr>"
  let ?m = "set_union buf ?blank"
  have wf0: "msg_wf ?blank" using msg_wf_zero by (simp add: msg_wf_def)
  then have wf: "msg_wf ?m" by (simp only: msg_wf_set)
  have rm: "random_msg ?m = buf" by (rule random_msg_set [OF wf0 buf(2)])
  from publish_run [of P ?m "?s2\<lparr>nrand := nrand s + 40\<rparr>"] obtain t where
    t: "publish P ?m (?s2\<lparr>nrand := nrand s + 40\<rparr>) = Inr ((), t)"
    "Mq_send (pmq s) (msg_bytes ?m) \<in> set (actions t)" by auto
  have it: "rand_msg_iteration P s = Inr ((), t)"
    using clock buf(1) t(1)
    by (simp add: rand_msg_iteration_def gen_rand_msg_def bnd_def sys_time_def Let_def)
  have id: "mp_id ?m = 1" by (simp add: set_union_def)
  then have "msg_text ?m = Inl Out_of_bounds" using rm buf(3) by (simp add: msg_text_def c_str_def)
  moreover from env_ok_log_line [OF E] obtain s1 where
    "log_line E Log_productores (dm @ ''Mensaje de productor: '' @ show_c_int (mp_id ?m) @
      '' con timestamp = '' @ show_nat (unat (mp_timestamp ?m)) @ '' recibido'' @ nl) srv = Inr ((), s1)" by blast
  ultimately have "handle_mq E (Mq_msg ?m) srv = Inl Out_of_bounds"
    by (simp add: handle_mq_def handle_producer_msg_def seq_def bnd_def)
  with it t(2) rm buf(3) wf show ?thesis
    by (intro exI [of _ t] exI [of _ "msg_bytes ?m"]) (simp add: msg_of_bytes)
qed

theorem random_message_overruns_witness:
  "\<exists>t bs. rand_msg_iteration env0 producer0 = Inr ((), t) \<and> Mq_send 4 bs \<in> set (actions t) \<and>
    handle_mq env0 (Mq_msg (msg_of bs)) srv_start = Inl Out_of_bounds"
  using random_message_overruns [of env0 env0 producer0 srv_start] by (auto simp: producer0_def)

text \<open>C40. A producer that starts before the server waits: \<open>mq_open\<close> is tried until it succeeds, with one
  complaint per failure, and the descriptor of the first success is kept.\<close>

theorem producer_waits_for_queue:
  assumes "0 \<le> opens k" and "\<forall>i<k. opens i = -1"
  shows "\<exists>t. producer_setup opens s = Inr ((), t) \<and> pmq t = opens k \<and> msg_count t = 1 \<and>
    (\<exists>out. actions t = actions s @ replicate k (Perror ''mq_open: '') @ [Stdout out, Stdout out])"
proof -
  have "opens (0 + k) \<noteq> -1" "\<forall>i<k. opens (0 + i) = -1" using assms by auto
  note loop = join_existing_mq_loop [OF this, of s]
  let ?out = "''[PUBLISHER]: Queue opened, queue descriptor: '' @ show_int (opens k) @ [CHR 0x0A]"
  have "join_existing_mq opens s = Inr (opens k, s\<lparr>actions :=
      actions s @ replicate k (Perror ''mq_open: '') @ [Stdout ?out]\<rparr>)"
    using loop assms(1) by (simp add: join_existing_mq_def when_do_def emit_def)
  then show ?thesis by (simp add: producer_setup_def bnd_def emit_def)
qed

theorem producer_waits_for_queue_witness:
  "\<exists>t. producer_setup (\<lambda>i. if i < 2 then -1 else 6) producer0 = Inr ((), t) \<and> pmq t = 6"
  using producer_waits_for_queue [of "\<lambda>i. if i < 2 then -1 else 6" 2 producer0] by auto

end
