(* ===== verification/Miniz_Checksum.thy ===== *)
theory Miniz_Checksum
  imports Prelude
begin

text \<open>
  The two checksums of \<open>server/include/miniz.h\<close>. \<open>mz_crc32\<close> works on half bytes with a table of sixteen
  words; it is shown to be the CRC of the polynomial 0xEDB88320 taken bit by bit, to be computable
  piece by piece, and to notice any change of a single byte. \<open>mz_adler32\<close> defers the reduction
  modulo 65521 to the end of a block of 5552 bytes; it is shown that the 32-bit sums never wrap.
\<close>

unbundle bit_operations_syntax

section \<open>CRC-32\<close>

definition s_crc32 :: "32 word list" where
  "s_crc32 = [0, 0x1db71064, 0x3b6e20c8, 0x26d930ac, 0x76dc4190, 0x6b6b51f4, 0x4db26158, 0x5005713c,
     0xedb88320, 0xf00f9344, 0xd6d6a3e8, 0xcb61b38c, 0x9b64c2b0, 0x86d3d2d4, 0xa00ae278, 0xbdbdf21c]"

definition crc_byte :: "32 word \<Rightarrow> byte \<Rightarrow> 32 word" where
  "crc_byte crcu32 b =
     (let c = drop_bit 4 crcu32 XOR s_crc32 ! unat ((crcu32 AND 0xF) XOR (ucast b AND 0xF))
      in drop_bit 4 c XOR s_crc32 ! unat ((c AND 0xF) XOR ucast (drop_bit 4 b)))"

text \<open>\<open>None\<close> is a null pointer.\<close>

definition mz_crc32 :: "32 word \<Rightarrow> byte list option \<Rightarrow> 32 word" where
  "mz_crc32 crc ptr = (case ptr of None \<Rightarrow> 0 | Some bs \<Rightarrow> NOT (fold (\<lambda>b c. crc_byte c b) bs (NOT crc)))"

text \<open>The reference: one bit at a time.\<close>

definition crc_bit :: "32 word \<Rightarrow> 32 word" where
  "crc_bit c = drop_bit 1 c XOR (if bit c 0 then 0xEDB88320 else 0)"

definition crc_spec :: "32 word \<Rightarrow> byte list \<Rightarrow> 32 word" where
  "crc_spec crc bs = NOT (fold (\<lambda>b c. (crc_bit ^^ 8) (c XOR ucast b)) bs (NOT crc))"

lemma crc_bit_xor: "crc_bit (a XOR b) = crc_bit a XOR crc_bit b"
  by (auto simp: crc_bit_def bit_xor_iff intro!: bit_word_eqI)

lemma crc_bits_xor: "(crc_bit ^^ n) (a XOR b) = (crc_bit ^^ n) a XOR (crc_bit ^^ n) b"
  by (induction n) (simp_all add: crc_bit_xor)

lemma crc_bits_high: "(\<And>i. i < n \<Longrightarrow> \<not> bit c i) \<Longrightarrow> (crc_bit ^^ n) c = drop_bit n c"
proof (induction n arbitrary: c)
  case (Suc n)
  have "crc_bit c = drop_bit 1 c" using Suc.prems [of 0] by (simp add: crc_bit_def)
  moreover have "\<not> bit (drop_bit 1 c) i" if "i < n" for i
    using Suc.prems [of "Suc i"] that by (simp add: bit_drop_bit_eq)
  ultimately show ?case
    using Suc.IH [of "drop_bit 1 c"] by (simp add: funpow_swap1 drop_bit_drop_bit ac_simps)
qed simp

lemma crc_bits_nibble: "x < 16 \<Longrightarrow> (crc_bit ^^ 4) (of_nat x) = s_crc32 ! x"
proof -
  have "\<forall>x \<in> set [0..<16]. (crc_bit ^^ 4) (of_nat x) = s_crc32 ! x" by code_simp
  then show "x < 16 \<Longrightarrow> ?thesis" by simp
qed

text \<open>Four bits at once: the table holds what the low half byte contributes.\<close>

lemma crc_table_step: "(crc_bit ^^ 4) c = drop_bit 4 c XOR s_crc32 ! unat (c AND 0xF)"
proof -
  let ?lo = "c AND 0xF" and ?hi = "c AND NOT (mask 4)"
  have m: "(0xF :: 32 word) = mask 4" by (simp add: mask_eq_exp_minus_1)
  have split: "c = ?hi XOR ?lo"
    unfolding m by (auto intro!: bit_word_eqI simp: bit_and_iff bit_xor_iff bit_not_iff)
  have "\<not> bit ?hi i" if "i < 4" for i
    using that by (simp add: m bit_and_iff bit_not_iff bit_mask_iff)
  then have "(crc_bit ^^ 4) ?hi = drop_bit 4 ?hi" by (rule crc_bits_high)
  also have "\<dots> = drop_bit 4 c"
  proof (rule bit_word_eqI)
    show "bit (drop_bit 4 ?hi) n = bit (drop_bit 4 c) n" for n
      using bit_imp_le_length [of c "4 + n"]
      by (auto simp: bit_and_iff bit_not_iff bit_mask_iff bit_drop_bit_eq)
  qed
  finally have hi: "(crc_bit ^^ 4) ?hi = drop_bit 4 c" .
  have "unat ?lo < 16"
    using and_mask_less' [of 4 c] unfolding m by (simp add: word_less_nat_alt)
  then have "(crc_bit ^^ 4) ?lo = s_crc32 ! unat ?lo" using crc_bits_nibble [of "unat ?lo"] by simp
  with hi split show ?thesis by (metis crc_bits_xor)
qed

lemma nibbles: "ucast b = push_bit 4 (ucast (drop_bit 4 b)) XOR (ucast b AND 0xF :: 32 word)" for b :: byte
proof -
  have m: "(0xF :: 32 word) = mask 4" by (simp add: mask_eq_exp_minus_1)
  show ?thesis
    by (rule bit_word_eqI)
      (auto simp: m bit_simps dest: bit_imp_le_length)
qed

lemma crc_byte_bits: "crc_byte c b = (crc_bit ^^ 8) (c XOR ucast b)"
proof -
  let ?lo = "ucast b AND 0xF :: 32 word" and ?hi = "ucast (drop_bit 4 b) :: 32 word"
  have m: "(0xF :: 32 word) = mask 4" by (simp add: mask_eq_exp_minus_1)
  have step: "drop_bit 4 c XOR s_crc32 ! unat ((c AND 0xF) XOR x) = (crc_bit ^^ 4) (c XOR x)"
    if "x AND 0xF = x" for c x
  proof -
    have "drop_bit 4 x = 0"
      by (subst that [symmetric]) (auto intro!: bit_word_eqI simp: m bit_simps)
    moreover have "(c XOR x) AND 0xF = (c AND 0xF) XOR x"
      unfolding bit.conj_xor_distrib2 that by simp
    ultimately show ?thesis by (simp add: crc_table_step drop_bit_xor)
  qed
  have lo: "?lo AND 0xF = ?lo" by (simp add: and.assoc)
  have hi: "?hi AND 0xF = ?hi"
    by (rule bit_word_eqI) (auto simp: m bit_simps dest: bit_imp_le_length)
  have sh: "(crc_bit ^^ 4) (push_bit 4 ?hi) = ?hi"
  proof -
    have "\<not> bit (push_bit 4 ?hi) i" if "i < 4" for i using that by (simp add: bit_push_bit_iff)
    then have "(crc_bit ^^ 4) (push_bit 4 ?hi) = drop_bit 4 (push_bit 4 ?hi)" by (rule crc_bits_high)
    also have "\<dots> = ?hi"
      by (rule bit_word_eqI) (auto simp: bit_simps dest: bit_imp_le_length)
    finally show ?thesis .
  qed
  have "crc_byte c b = (crc_bit ^^ 4) ((crc_bit ^^ 4) (c XOR ?lo) XOR ?hi)"
    unfolding crc_byte_def Let_def using step [OF lo, of c] step [OF hi] by simp
  also have "\<dots> = (crc_bit ^^ 4) ((crc_bit ^^ 4) ((c XOR ?lo) XOR push_bit 4 ?hi))"
    by (simp add: crc_bits_xor sh)
  also have "(c XOR ?lo) XOR push_bit 4 ?hi = c XOR ucast b"
    by (subst (2) nibbles [of b]) (simp add: ac_simps)
  finally show ?thesis
    using funpow_add [of 4 4 crc_bit] by (simp add: comp_def)
qed

text \<open>C18. The table-driven routine computes the CRC that is defined bit by bit.\<close>
theorem crc_table_is_polynomial: "mz_crc32 crc (Some bs) = crc_spec crc bs"
  by (simp add: mz_crc32_def crc_spec_def crc_byte_bits)

lemma mz_crc32_Nil [simp]: "mz_crc32 c (Some []) = c"
  by (simp add: mz_crc32_def)

lemma mz_crc32_append: "mz_crc32 (mz_crc32 c (Some xs)) (Some ys) = mz_crc32 c (Some (xs @ ys))"
  by (simp add: mz_crc32_def)

text \<open>No two registers lead to the same one, so a changed byte is never forgotten.\<close>

lemma crc_bit_0: "crc_bit c = 0 \<Longrightarrow> c = 0"
proof -
  assume z: "crc_bit c = 0"
  have low: "\<not> bit c 0"
  proof
    assume "bit c 0"
    with z have "bit (drop_bit 1 c XOR 0xEDB88320) 31 = bit (0 :: 32 word) 31" by (simp add: crc_bit_def)
    moreover have "bit (0xEDB88320 :: 32 word) 31" by code_simp
    moreover have "\<not> bit c 32" using bit_imp_le_length [of c 32] by auto
    ultimately show False by (simp add: bit_xor_iff bit_drop_bit_eq)
  qed
  with z have d: "drop_bit 1 c = 0" by (simp add: crc_bit_def)
  show "c = 0"
  proof (rule bit_word_eqI)
    fix n
    show "bit c n = bit 0 n"
    proof (cases n)
      case 0 with low show ?thesis by simp
    next
      case (Suc k)
      have "bit (drop_bit 1 c) k = bit (0 :: 32 word) k" using d by simp
      with Suc show ?thesis by (simp add: bit_drop_bit_eq)
    qed
  qed
qed

lemma xor_eq_0: "(a :: 32 word) XOR b = 0 \<longleftrightarrow> a = b"
  by (metis bit.xor_self bit.xor_left_self xor.right_neutral)

lemma crc_bits_inject: "(crc_bit ^^ n) a = (crc_bit ^^ n) b \<longleftrightarrow> a = b"
proof (induction n)
  case (Suc n)
  have "crc_bit x = crc_bit y \<longleftrightarrow> x = y" for x y
    using crc_bit_0 [of "x XOR y"] crc_bit_xor [of x y] by (auto simp: xor_eq_0)
  with Suc show ?case by simp
qed simp

lemma crc_byte_inject_left: "crc_byte c b = crc_byte d b \<longleftrightarrow> c = d"
  by (simp add: crc_byte_bits crc_bits_inject) (metis bit.xor_left_self xor.commute)

lemma unat_ucast_byte [simp]: "unat (ucast (b :: byte) :: 32 word) = unat b"
  using unat_bound [of b] by (simp add: unsigned_ucast_eq take_bit_nat_eq_self)

lemma crc_byte_inject_right: "crc_byte c a = crc_byte c b \<longleftrightarrow> a = b"
proof -
  have "c XOR ucast a = c XOR ucast b \<longleftrightarrow> (ucast a :: 32 word) = ucast b"
    by (metis bit.xor_left_self)
  also have "\<dots> \<longleftrightarrow> a = b" by (metis unat_ucast_byte word_unat_eq_iff)
  finally show ?thesis by (simp add: crc_byte_bits crc_bits_inject)
qed

lemma crc_fold_inject: "fold (\<lambda>b c. crc_byte c b) bs c = fold (\<lambda>b c. crc_byte c b) bs d \<longleftrightarrow> c = d"
  by (induction bs arbitrary: c d) (simp_all add: crc_byte_inject_left)

text \<open>A checksum tells any two texts apart that differ in exactly one byte.\<close>

theorem crc_notices_changed_byte:
  "mz_crc32 crc (Some (xs @ a # ys)) = mz_crc32 crc (Some (xs @ b # ys)) \<longleftrightarrow> a = b"
  by (simp add: mz_crc32_def crc_fold_inject crc_byte_inject_right)

section \<open>Adler-32\<close>

text \<open>
  The two inner loops, eight bytes at a time and then the rest, add the bytes of a block in their
  order; both are the fold of \<open>adler_add\<close>. The block that is reduced first is the short one.
\<close>

definition adler_add :: "byte \<Rightarrow> 32 word \<times> 32 word \<Rightarrow> 32 word \<times> 32 word" where
  "adler_add b = (\<lambda>(s1, s2). (s1 + ucast b, s2 + (s1 + ucast b)))"

definition adler_block :: "byte list \<Rightarrow> 32 word \<times> 32 word \<Rightarrow> 32 word \<times> 32 word" where
  "adler_block bs s = (let (s1, s2) = fold adler_add bs s in (s1 mod 65521, s2 mod 65521))"

function adler_loop :: "nat \<Rightarrow> byte list \<Rightarrow> 32 word \<times> 32 word \<Rightarrow> 32 word \<times> 32 word" where
  "adler_loop block_len bs s =
     (if bs = [] then s
      else adler_loop 5552 (drop block_len bs) (adler_block (take block_len bs) s))"
  by pat_completeness auto
termination
  by (relation "measure (\<lambda>(n, bs, s). 2 * length bs + (if n = 0 then 1 else 0))") auto

declare adler_loop.simps [simp del]

definition mz_adler32 :: "32 word \<Rightarrow> byte list option \<Rightarrow> 32 word" where
  "mz_adler32 adler ptr =
     (case ptr of None \<Rightarrow> 1
      | Some bs \<Rightarrow>
          let (s1, s2) = adler_loop (length bs mod 5552) bs (adler AND 0xFFFF, drop_bit 16 adler)
          in push_bit 16 s2 + s1)"

text \<open>The specification: sums of naturals, reduced at the end.\<close>

definition adler_spec :: "byte list \<Rightarrow> nat \<times> nat \<Rightarrow> nat \<times> nat" where
  "adler_spec = fold (\<lambda>b (s1, s2). (s1 + unat b, s2 + (s1 + unat b)))"

lemma adler_spec_simps [simp]: "adler_spec [] s = s"
  "adler_spec (b # bs) (s1, s2) = adler_spec bs (s1 + unat b, s2 + (s1 + unat b))"
  by (simp_all add: adler_spec_def)

lemma adler_spec_append: "adler_spec (xs @ ys) s = adler_spec ys (adler_spec xs s)"
  by (simp add: adler_spec_def)

lemma adler_spec_bound:
  assumes "adler_spec bs (s1, s2) = (t1, t2)"
  shows "t1 \<le> s1 + 255 * length bs"
    and "2 * t2 \<le> 2 * s2 + 2 * length bs * s1 + 255 * length bs * (length bs + 1)"
proof -
  have "t1 \<le> s1 + 255 * length bs \<and>
      2 * t2 \<le> 2 * s2 + 2 * length bs * s1 + 255 * length bs * (length bs + 1)"
    using assms
  proof (induction bs arbitrary: s1 s2)
    case (Cons b bs)
    have "unat b \<le> 255" using unat_bound [of b] by simp
    with Cons.IH [of "s1 + unat b" "s2 + (s1 + unat b)"] Cons.prems
    have t: "t1 \<le> s1 + unat b + 255 * length bs"
      "2 * t2 \<le> 2 * (s2 + (s1 + unat b)) + 2 * length bs * (s1 + unat b) + 255 * length bs * (length bs + 1)"
      by simp_all
    obtain k where k: "k = length bs * unat b" "k \<le> 255 * length bs" using \<open>unat b \<le> 255\<close> by simp
    have "2 * t2 \<le> 2 * s2 + 2 * s1 + 2 * unat b + 2 * (length bs * s1) + 2 * k +
        255 * length bs + 255 * (length bs * length bs)"
      using t(2) by (simp add: k(1) algebra_simps)
    with t(1) k(2) \<open>unat b \<le> 255\<close> show ?case by (simp add: algebra_simps)
  qed simp
  then show "t1 \<le> s1 + 255 * length bs"
    "2 * t2 \<le> 2 * s2 + 2 * length bs * s1 + 255 * length bs * (length bs + 1)" by simp_all
qed

lemma adler_spec_mono:
  "adler_spec bs (s1, s2) = (t1, t2) \<Longrightarrow> s1 \<le> t1 \<and> s2 \<le> t2"
  by (induction bs arbitrary: s1 s2) force+

text \<open>As long as the exact sums fit into 32 bits, the machine computes them.\<close>

lemma adler_words:
  "adler_spec bs (unat s1, unat s2) = (t1, t2) \<Longrightarrow> t1 < 2 ^ 32 \<Longrightarrow> t2 < 2 ^ 32 \<Longrightarrow>
   fold adler_add bs (s1, s2) = (of_nat t1, of_nat t2)"
proof (induction bs arbitrary: s1 s2)
  case (Cons b bs)
  let ?u1 = "unat s1 + unat b" and ?u2 = "unat s2 + (unat s1 + unat b)"
  have m: "?u1 \<le> t1" "?u2 \<le> t2" using adler_spec_mono [of bs ?u1 ?u2 t1 t2] Cons.prems(1) by simp_all
  have u1: "unat (s1 + ucast b) = ?u1"
    using m(1) Cons.prems(2) by (simp add: unat_word_ariths)
  have "unat (s2 + (s1 + ucast b)) = ?u2"
    using m(2) Cons.prems(3) u1 by (simp add: unat_word_ariths(1) [of s2])
  with u1 Cons show ?case by (simp add: adler_add_def)
qed auto

lemma unat_of_nat_16: "n < 2 ^ 16 \<Longrightarrow> unat (of_nat n :: 32 word) = n"
  by (simp add: unat_of_nat)

lemma of_nat_mod_65521: "t < 2 ^ 32 \<Longrightarrow> (of_nat t :: 32 word) mod 65521 = of_nat (t mod 65521)"
proof -
  assume "t < 2 ^ 32"
  then have "unat ((of_nat t :: 32 word) mod 65521) = t mod 65521"
    by (simp add: unat_mod_distrib unat_of_nat)
  moreover have "t mod 65521 < 65521" by simp
  ultimately show ?thesis using unat_of_nat_16 [of "t mod 65521"] by (simp add: word_unat_eq_iff)
qed

lemma adler_block_spec:
  assumes "length bs \<le> 5552" and "unat s1 < 2 ^ 16" and "unat s2 < 2 ^ 16"
    and "adler_spec bs (unat s1, unat s2) = (t1, t2)"
  shows "adler_block bs (s1, s2) = (of_nat (t1 mod 65521), of_nat (t2 mod 65521))"
proof -
  let ?n = "length bs"
  note b = adler_spec_bound [OF assms(4)]
  have s: "unat s1 \<le> 65535" "unat s2 \<le> 65535" using assms(2,3) by simp_all
  have t1: "t1 < 2 ^ 32" using b(1) assms(1) s by simp
  have "2 * ?n * unat s1 \<le> 2 * 5552 * 65535" by (intro mult_mono s assms(1)) simp_all
  moreover have "255 * ?n * (?n + 1) \<le> 255 * 5552 * 5553" by (intro mult_mono) (use assms(1) in simp_all)
  ultimately have t2: "t2 < 2 ^ 32" using b(2) s by simp
  have "fold adler_add bs (s1, s2) = (of_nat t1, of_nat t2)" by (rule adler_words [OF assms(4) t1 t2])
  then show ?thesis using t1 t2 by (simp add: adler_block_def of_nat_mod_65521)
qed

definition adler_equiv :: "nat \<times> nat \<Rightarrow> nat \<times> nat \<Rightarrow> bool" where
  "adler_equiv s t \<longleftrightarrow> fst s mod 65521 = fst t mod 65521 \<and> snd s mod 65521 = snd t mod 65521"

lemma adler_spec_equiv: "adler_equiv s t \<Longrightarrow> adler_equiv (adler_spec bs s) (adler_spec bs t)"
proof (induction bs arbitrary: s t)
  case (Cons b bs)
  obtain s1 s2 t1 t2 where st: "s = (s1, s2)" "t = (t1, t2)" by fastforce
  have e: "s1 mod 65521 = t1 mod 65521" "s2 mod 65521 = t2 mod 65521"
    using Cons.prems by (simp_all add: adler_equiv_def st)
  have "adler_equiv (s1 + unat b, s2 + (s1 + unat b)) (t1 + unat b, t2 + (t1 + unat b))"
    unfolding adler_equiv_def fst_conv snd_conv by (intro conjI mod_add_cong e refl)
  from Cons.IH [OF this] show ?case by (simp add: st)
qed simp

lemma adler_loop_spec:
  assumes "n \<le> 5552" and "unat s1 < 2 ^ 16" and "unat s2 < 2 ^ 16"
  shows "\<exists>t1 t2. adler_loop n bs (s1, s2) = (of_nat t1, of_nat t2) \<and> t1 < 2 ^ 16 \<and> t2 < 2 ^ 16 \<and>
    (bs \<noteq> [] \<longrightarrow> t1 < 65521 \<and> t2 < 65521) \<and>
    adler_equiv (t1, t2) (adler_spec bs (unat s1, unat s2))"
  using assms
proof (induction n bs "(s1, s2)" arbitrary: s1 s2 rule: adler_loop.induct)
  case (1 n bs)
  show ?case
  proof (cases "bs = []")
    case True
    with 1 show ?thesis
      by (intro exI [of _ "unat s1"] exI [of _ "unat s2"]) (simp add: adler_loop.simps adler_equiv_def)
  next
    case False
    obtain t1 t2 where t: "adler_spec (take n bs) (unat s1, unat s2) = (t1, t2)" by fastforce
    let ?w1 = "of_nat (t1 mod 65521) :: 32 word" and ?w2 = "of_nat (t2 mod 65521) :: 32 word"
    have blk: "adler_block (take n bs) (s1, s2) = (?w1, ?w2)"
      using 1(2-4) t by (intro adler_block_spec) simp_all
    have small: "t1 mod 65521 < 65521" "t2 mod 65521 < 65521" by simp_all
    have u1: "unat ?w1 = t1 mod 65521" by (rule unat_of_nat_16) (use small(1) in simp)
    have u2: "unat ?w2 = t2 mod 65521" by (rule unat_of_nat_16) (use small(2) in simp)
    note u = u1 u2
    have "unat ?w1 < 2 ^ 16" "unat ?w2 < 2 ^ 16" using small unfolding u by simp_all
    from 1(1) [OF False blk order_refl this] obtain v1 v2 where
      v: "adler_loop 5552 (drop n bs) (?w1, ?w2) = (of_nat v1, of_nat v2)" "v1 < 2 ^ 16" "v2 < 2 ^ 16"
      "drop n bs \<noteq> [] \<longrightarrow> v1 < 65521 \<and> v2 < 65521"
      "adler_equiv (v1, v2) (adler_spec (drop n bs) (unat ?w1, unat ?w2))" by blast
    have "adler_equiv (unat ?w1, unat ?w2) (t1, t2)" unfolding u by (simp add: adler_equiv_def)
    from adler_spec_equiv [OF this, of "drop n bs"] v(5)
    have e: "adler_equiv (v1, v2) (adler_spec (drop n bs) (t1, t2))" by (simp add: adler_equiv_def)
    have "adler_spec (drop n bs) (t1, t2) = adler_spec bs (unat s1, unat s2)"
      using adler_spec_append [of "take n bs" "drop n bs"] t by simp
    with e have e': "adler_equiv (v1, v2) (adler_spec bs (unat s1, unat s2))" by simp
    show ?thesis
    proof (cases "drop n bs = []")
      case True
      then have "adler_loop n bs (s1, s2) = (?w1, ?w2)"
        using False blk by (simp add: adler_loop.simps [of n bs] adler_loop.simps [of 5552 "[]"])
      moreover have "adler_equiv (t1 mod 65521, t2 mod 65521) (adler_spec bs (unat s1, unat s2))"
        using True t \<open>adler_spec (drop n bs) (t1, t2) = _\<close> by (simp add: adler_equiv_def)
      ultimately show ?thesis
        using small by (intro exI [of _ "t1 mod 65521"] exI [of _ "t2 mod 65521"]) (auto simp: less_imp_le)
    next
      case ne: False
      then have "adler_loop n bs (s1, s2) = (of_nat v1, of_nat v2)"
        using False blk v(1) by (simp add: adler_loop.simps [of n bs])
      with v ne e' show ?thesis by blast
    qed
  qed
qed

lemma unat_high_half: "unat (drop_bit 16 (w :: 32 word)) < 2 ^ 16"
proof -
  have "unat w < 2 ^ 32" using unat_bound [of w] by simp
  then have "unat w div 2 ^ 16 < 2 ^ 16" by (simp add: div_less_iff_less_mult)
  then show ?thesis by (metis drop_bit_eq_div unat_drop_bit_eq)
qed

lemma unat_low_half: "unat ((w :: 32 word) AND 0xFFFF) < 2 ^ 16"
  using and_mask_less' [of 16 w] by (simp add: mask_eq_exp_minus_1 word_less_nat_alt)

text \<open>Deferring the reduction is sound: the routine returns the two sums modulo 65521.\<close>

theorem adler_sums_mod:
  assumes "bs \<noteq> []"
    and "adler_spec bs (unat (adler AND 0xFFFF), unat (drop_bit 16 adler)) = (t1, t2)"
  shows "mz_adler32 adler (Some bs) = push_bit 16 (of_nat (t2 mod 65521)) + of_nat (t1 mod 65521)"
proof -
  have n: "length bs mod 5552 \<le> 5552" by (simp add: less_imp_le)
  obtain v1 v2 where v: "adler_loop (length bs mod 5552) bs (adler AND 0xFFFF, drop_bit 16 adler) =
      (of_nat v1, of_nat v2)" "v1 < 65521" "v2 < 65521" "adler_equiv (v1, v2) (t1, t2)"
    using adler_loop_spec [OF n unat_low_half unat_high_half, of bs adler adler] assms by auto
  then have "v1 = t1 mod 65521" "v2 = t2 mod 65521" by (simp_all add: adler_equiv_def)
  with v(1) show ?thesis by (simp add: mz_adler32_def)
qed

end
