(* ===== verification/Weakest_Pre.thy ===== *)
theory Weakest_Pre
  imports Computation
begin

text \<open>
  Total-correctness weakest preconditions for the computations of the model: \<open>wp m Q s\<close> says that \<open>m\<close>, started in
  \<open>s\<close>, returns without a fault and that its result and final state satisfy \<open>Q\<close>. The equations for
  the combinators are simplification rules, so that straight-line code is unfolded by \<open>simp\<close>, and a called
  function enters through its specification and \<open>wp_mono\<close>.
\<close>

declare ret_apply [simp del] skip_apply [simp del] fail_apply [simp del] gets_apply [simp del]
  modify_apply [simp del] bnd_gets [simp del] seq_modify [simp del]

named_theorems wp_specs \<open>specifications of the functions of the model\<close>

definition wp :: "('s, 'a) comp \<Rightarrow> ('a \<Rightarrow> 's \<Rightarrow> bool) \<Rightarrow> 's \<Rightarrow> bool" where
  "wp m Q s = (case m s of Inl e \<Rightarrow> False | Inr (a, t) \<Rightarrow> Q a t)"

lemma wpI: "m s = Inr (a, t) \<Longrightarrow> Q a t \<Longrightarrow> wp m Q s"
  by (simp add: wp_def comp_defs)

lemma wpE:
  assumes "wp m Q s"
  obtains a t where "m s = Inr (a, t)" and "Q a t"
  using assms by (auto simp: wp_def split: sum.splits)

lemma wp_iff: "wp m Q s \<longleftrightarrow> (\<exists>a t. m s = Inr (a, t) \<and> Q a t)"
  by (auto simp: wp_def split: sum.splits)

lemma wp_mono: "wp m P s \<Longrightarrow> (\<And>a t. P a t \<Longrightarrow> Q a t) \<Longrightarrow> wp m Q s"
  by (auto simp: wp_iff)

lemma wp_bndI: "wp m P s \<Longrightarrow> (\<And>a t. P a t \<Longrightarrow> wp (k a) Q t) \<Longrightarrow> wp (bnd m k) Q s"
  by (auto simp: wp_iff bnd_Inr)

lemma wp_bnd_gets: "wp (bnd (gets f) k) Q s = wp (k (f s)) Q s"
  by (simp add: wp_def bnd_def gets_def)

lemma wp_conj: "wp m P s \<Longrightarrow> wp m Q s \<Longrightarrow> wp m (\<lambda>a t. P a t \<and> Q a t) s"
  by (auto simp: wp_iff)

lemma wp_ret [simp]: "wp (ret a) Q s = Q a s"
  by (simp add: wp_def comp_defs)

lemma wp_Inr [simp]: "wp (\<lambda>s. Inr (f s, g s)) Q s = Q (f s) (g s)"
  by (simp add: wp_def comp_defs)

lemma wp_skip [simp]: "wp skip Q s = Q () s"
  by (simp add: wp_def comp_defs)

lemma wp_fail [simp]: "\<not> wp (fail e) Q s"
  by (simp add: wp_def comp_defs)

lemma wp_gets [simp]: "wp (gets f) Q s = Q (f s) s"
  by (simp add: wp_def comp_defs)

lemma wp_modify [simp]: "wp (modify f) Q s = Q () (f s)"
  by (simp add: wp_def comp_defs)

lemma wp_bnd [simp]: "wp (bnd m k) Q s = wp m (\<lambda>a t. wp (k a) Q t) s"
  by (auto simp: wp_def bnd_def split: sum.splits)

lemma wp_seq [simp]: "wp (seq m k) Q s = wp m (\<lambda>a t. wp k Q t) s"
  by (simp add: seq_def)

lemma wp_if [simp]: "wp (if b then m else n) Q s = (if b then wp m Q s else wp n Q s)"
  by simp

lemma wp_when_do [simp]: "wp (when_do b m) Q s = (if b then wp m Q s else Q () s)"
  by (simp add: when_do_def)

lemma wp_case_option [simp]:
  "wp (case x of None \<Rightarrow> m | Some a \<Rightarrow> k a) Q s = (case x of None \<Rightarrow> wp m Q s | Some a \<Rightarrow> wp (k a) Q s)"
  by (cases x) simp_all

lemma wp_case_prod [simp]: "wp (case p of (a, b) \<Rightarrow> k a b) Q s = (case p of (a, b) \<Rightarrow> wp (k a b) Q s)"
  by (cases p) simp

text \<open>A loop over a sequence fixed before it starts.\<close>

lemma wp_for_each:
  assumes "\<And>ys x zs s. xs = ys @ x # zs \<Longrightarrow> I ys s \<Longrightarrow> wp (f x) (\<lambda>_. I (ys @ [x])) s"
    and "I [] s"
  shows "wp (for_each f xs) (\<lambda>_. I xs) s"
proof -
  have "xs = ys @ zs \<Longrightarrow> I ys s \<Longrightarrow> wp (for_each f zs) (\<lambda>_. I xs) s" for ys zs s
  proof (induction zs arbitrary: ys s)
    case (Cons z zs)
    from Cons.prems have "wp (f z) (\<lambda>_. I (ys @ [z])) s" by (intro assms(1)) auto
    then have "wp (f z) (\<lambda>_. wp (for_each f zs) (\<lambda>_. I xs)) s"
      by (rule wp_mono) (rule Cons.IH, use Cons.prems(1) in simp_all)
    then show ?case by simp
  qed simp
  from this [of "[]"] assms(2) show ?thesis by simp
qed

end
