(* ===== verification/Zip_World.thy ===== *)
theory Zip_World
  imports Weakest_Pre
begin

text \<open>
  What \<open>server/src/zip.c\<close> and \<open>server/include/miniz.h\<close> see of the C library: memory requests, stdio streams,
  the disk, clock and calendar. The environment answers what the code cannot compute: whether the n-th memory request
  succeeds, how the n-th library call ends, what \<open>stat\<close>, \<open>time\<close>, \<open>localtime\<close> and \<open>mktime\<close>
  return. The state counts the answers consumed and holds the contents of the files; calls that change
  only names or attributes of files are recorded in the order they were made. Streams are modelled without a
  buffer, and \<open>ftell\<close> does not fail.
\<close>

type_synonym path = "byte list"

record tm =
  tm_sec :: int
  tm_min :: int
  tm_hour :: int
  tm_mday :: int
  tm_mon :: int
  tm_year :: int

text \<open>
  \<open>lib_res E n\<close> is \<open>None\<close> when the n-th call succeeds; \<open>Some k\<close> means that it fails, or that it
  transfers at most \<open>k\<close> bytes where it is \<open>fread\<close> or \<open>fwrite\<close>. \<open>stale\<close> stands for the contents of
  memory that \<open>malloc\<close> or \<open>realloc\<close> has handed out and nobody has written.
\<close>

record zenv =
  alloc_ok :: "nat \<Rightarrow> bool"
  lib_res :: "nat \<Rightarrow> nat option"
  stale :: nat
  localtime :: "int \<Rightarrow> tm"
  mktime :: "tm \<Rightarrow> int"
  unix_time :: "nat \<Rightarrow> int"
  file_stat :: "path \<Rightarrow> (nat \<times> int) option"

datatype fs_event =
    Mkdir path
  | Symlink path path
  | Chmod path nat
  | Utime path int
  | Remove_file path

record world =
  nalloc :: nat
  ncall :: nat
  disk :: "path \<Rightarrow> byte list option"
  fs_events :: "fs_event list"

text \<open>A stream: the name and position of the file behind it. \<open>sopen\<close> is false after \<open>fclose\<close>.\<close>

record stream =
  spath :: path
  spos :: nat
  swritable :: bool
  sopen :: bool

section \<open>Machine arithmetic\<close>

text \<open>\<open>size_t\<close> and \<open>mz_uint64\<close> are naturals below \<open>2 ^ 64\<close>, \<open>mz_uint32\<close> and \<open>mz_uint\<close> below
  \<open>2 ^ 32\<close>; where an operation can leave the range, it is reduced as the machine does.\<close>

definition u64 :: "nat \<Rightarrow> nat" where "u64 n = n mod 2 ^ 64"
definition u32 :: "nat \<Rightarrow> nat" where "u32 n = n mod 2 ^ 32"
definition u16 :: "nat \<Rightarrow> nat" where "u16 n = n mod 2 ^ 16"

definition sub64 :: "nat \<Rightarrow> nat \<Rightarrow> nat" where "sub64 a b = u64 (a + (2 ^ 64 - u64 b))"
definition sub32 :: "nat \<Rightarrow> nat \<Rightarrow> nat" where "sub32 a b = u32 (a + (2 ^ 32 - u32 b))"

text \<open>Conversion to \<open>mz_int64\<close> and to \<open>int\<close>, in two's complement.\<close>

definition s64 :: "nat \<Rightarrow> int" where
  "s64 n = (let m = u64 n in if m < 2 ^ 63 then int m else int m - 2 ^ 64)"

definition s32 :: "int \<Rightarrow> int" where
  "s32 i = (i + 2 ^ 31) mod 2 ^ 32 - 2 ^ 31"

text \<open>\<open>flag_set w k\<close>: the bit of weight \<open>k\<close> in \<open>w\<close>.\<close>

definition flag_set :: "nat \<Rightarrow> nat \<Rightarrow> bool" where
  "flag_set w k \<longleftrightarrow> w div k mod 2 = 1"

lemma u64_small [simp]: "n < 2 ^ 64 \<Longrightarrow> u64 n = n"
  by (simp add: u64_def)

lemma u32_small [simp]: "n < 2 ^ 32 \<Longrightarrow> u32 n = n"
  by (simp add: u32_def)

lemma u16_small [simp]: "n < 2 ^ 16 \<Longrightarrow> u16 n = n"
  by (simp add: u16_def)

lemma sub64_le: "b \<le> a \<Longrightarrow> a < 2 ^ 64 \<Longrightarrow> sub64 a b = a - b"
proof -
  assume ba: "b \<le> a" "a < 2 ^ 64"
  then have "a + (2 ^ 64 - u64 b) = (a - b) + 2 ^ 64" by simp
  then have "sub64 a b = ((a - b) + 2 ^ 64) mod 2 ^ 64" by (simp only: sub64_def u64_def)
  also have "\<dots> = (a - b) mod 2 ^ 64" by (rule mod_add_self2)
  also have "\<dots> = a - b" using ba by (intro mod_less) simp
  finally show ?thesis .
qed

lemma sub32_le: "b \<le> a \<Longrightarrow> a < 2 ^ 32 \<Longrightarrow> sub32 a b = a - b"
proof -
  assume ba: "b \<le> a" "a < 2 ^ 32"
  then have "a + (2 ^ 32 - u32 b) = (a - b) + 2 ^ 32" by simp
  then have "sub32 a b = ((a - b) + 2 ^ 32) mod 2 ^ 32" by (simp only: sub32_def u32_def)
  also have "\<dots> = (a - b) mod 2 ^ 32" by (rule mod_add_self2)
  also have "\<dots> = a - b" using ba by (intro mod_less) simp
  finally show ?thesis .
qed

lemma s64_small [simp]: "n < 2 ^ 63 \<Longrightarrow> s64 n = int n"
  by (simp add: s64_def)

lemma s32_small [simp]: "- (2 ^ 31) \<le> i \<Longrightarrow> i < 2 ^ 31 \<Longrightarrow> s32 i = i"
  by (simp add: s32_def)

section \<open>Memory\<close>

definition alloc :: "zenv \<Rightarrow> ('z world_scheme, bool) comp" where
  "alloc E = (\<lambda>s. Inr (alloc_ok E (nalloc s), s\<lparr>nalloc := Suc (nalloc s)\<rparr>))"

text \<open>\<open>load n blk ofs\<close> reads a little-endian integer of \<open>n\<close> bytes inside the block \<open>blk\<close>, \<open>peek n blk ofs\<close>
  copies \<open>n\<close> bytes, and \<open>poke blk ofs bs\<close> stores bytes; all three fault outside the block.\<close>

definition field :: "nat \<Rightarrow> byte list \<Rightarrow> nat \<Rightarrow> nat" where
  "field n blk ofs = unle (take n (drop ofs blk))"

definition load :: "nat \<Rightarrow> byte list \<Rightarrow> nat \<Rightarrow> ('s, nat) comp" where
  "load n blk ofs = (if ofs + n \<le> length blk then ret (field n blk ofs) else fail Out_of_bounds)"

definition peek :: "nat \<Rightarrow> byte list \<Rightarrow> nat \<Rightarrow> ('s, byte list) comp" where
  "peek n blk ofs = (if ofs + n \<le> length blk then ret (take n (drop ofs blk)) else fail Out_of_bounds)"

definition overwrite :: "'a list \<Rightarrow> nat \<Rightarrow> 'a list \<Rightarrow> 'a list" where
  "overwrite blk ofs xs = take ofs blk @ xs @ drop (ofs + length xs) blk"

definition poke :: "'a list \<Rightarrow> nat \<Rightarrow> 'a list \<Rightarrow> ('s, 'a list) comp" where
  "poke blk ofs xs = (if ofs + length xs \<le> length blk then ret (overwrite blk ofs xs) else fail Out_of_bounds)"

text \<open>\<open>elem blk i\<close>: the element of an array.\<close>

definition elem :: "'a list \<Rightarrow> nat \<Rightarrow> ('s, 'a) comp" where
  "elem blk i = (if i < length blk then ret (blk ! i) else fail Out_of_bounds)"

definition put_elem :: "'a list \<Rightarrow> nat \<Rightarrow> 'a \<Rightarrow> ('s, 'a list) comp" where
  "put_elem blk i x = (if i < length blk then ret (blk[i := x]) else fail Out_of_bounds)"

lemma load_ok [simp]: "ofs + n \<le> length blk \<Longrightarrow> load n blk ofs = ret (field n blk ofs)"
  by (simp add: load_def)

lemma peek_ok [simp]: "ofs + n \<le> length blk \<Longrightarrow> peek n blk ofs = ret (take n (drop ofs blk))"
  by (simp add: peek_def)

lemma poke_ok [simp]: "ofs + length xs \<le> length blk \<Longrightarrow> poke blk ofs xs = ret (overwrite blk ofs xs)"
  by (simp add: poke_def)

lemma elem_ok [simp]: "i < length blk \<Longrightarrow> elem blk i = ret (blk ! i)"
  by (simp add: elem_def)

lemma put_elem_ok [simp]: "i < length blk \<Longrightarrow> put_elem blk i x = ret (blk[i := x])"
  by (simp add: put_elem_def)

lemma length_overwrite [simp]: "ofs + length xs \<le> length blk \<Longrightarrow> length (overwrite blk ofs xs) = length blk"
  by (simp add: overwrite_def)

lemma field_bound: "field n blk ofs < 256 ^ n"
proof -
  have "field n blk ofs < 256 ^ length (take n (drop ofs blk))" unfolding field_def by (rule unle_bound)
  also have "\<dots> \<le> 256 ^ n" by (intro power_increasing) auto
  finally show ?thesis .
qed

lemma field2_bound: "field 2 blk ofs < 65536"
  using field_bound [of 2 blk ofs] by simp

lemma field4_bound: "field 4 blk ofs < 2 ^ 32"
  using field_bound [of 4 blk ofs] by simp

lemma field8_bound: "field 8 blk ofs < 2 ^ 64"
  using field_bound [of 8 blk ofs] by simp

section \<open>Library calls\<close>

definition lib_call :: "zenv \<Rightarrow> ('z world_scheme, nat option) comp" where
  "lib_call E = (\<lambda>s. Inr (lib_res E (ncall s), s\<lparr>ncall := Suc (ncall s)\<rparr>))"

text \<open>A call that only changes names or attributes on disk; the result says whether it succeeded.\<close>

definition fs_call :: "zenv \<Rightarrow> fs_event \<Rightarrow> ('z world_scheme, bool) comp" where
  "fs_call E x = bnd (lib_call E) (\<lambda>r.
     if r = None then seq (modify (\<lambda>s. s\<lparr>fs_events := fs_events s @ [x]\<rparr>)) (ret True) else ret False)"

definition lib_time :: "zenv \<Rightarrow> ('z world_scheme, int) comp" where
  "lib_time E = (\<lambda>s. Inr (unix_time E (ncall s), s\<lparr>ncall := Suc (ncall s)\<rparr>))"

definition live :: "stream \<Rightarrow> ('s, unit) comp" where
  "live f = (if sopen f then skip else fail Freed_access)"

definition fopen_rb :: "zenv \<Rightarrow> path \<Rightarrow> ('z world_scheme, stream option) comp" where
  "fopen_rb E name = bnd (lib_call E) (\<lambda>r. bnd (gets disk) (\<lambda>d.
     ret (if r = None \<and> d name \<noteq> None
          then Some \<lparr>spath = name, spos = 0, swritable = False, sopen = True\<rparr> else None)))"

definition fopen_wb :: "zenv \<Rightarrow> path \<Rightarrow> ('z world_scheme, stream option) comp" where
  "fopen_wb E name = bnd (lib_call E) (\<lambda>r.
     if r = None
     then seq (modify (\<lambda>s. s\<lparr>disk := (disk s)(name := Some [])\<rparr>))
            (ret (Some \<lparr>spath = name, spos = 0, swritable = True, sopen = True\<rparr>))
     else ret None)"

text \<open>\<open>freopen\<close> with mode \<open>r+b\<close> closes the stream whether or not it can open the file again.\<close>

definition freopen_rw :: "zenv \<Rightarrow> path \<Rightarrow> stream \<Rightarrow> ('z world_scheme, stream option) comp" where
  "freopen_rw E name f = seq (live f) (bnd (lib_call E) (\<lambda>r. bnd (gets disk) (\<lambda>d.
     ret (if r = None \<and> d name \<noteq> None
          then Some \<lparr>spath = name, spos = 0, swritable = True, sopen = True\<rparr> else None))))"

definition file_data :: "stream \<Rightarrow> ('z world_scheme, byte list) comp" where
  "file_data f = gets (\<lambda>s. case disk s (spath f) of None \<Rightarrow> [] | Some bs \<Rightarrow> bs)"

definition fseek_set :: "zenv \<Rightarrow> stream \<Rightarrow> nat \<Rightarrow> ('z world_scheme, bool \<times> stream) comp" where
  "fseek_set E f ofs = seq (live f) (bnd (lib_call E) (\<lambda>r.
     ret (if r = None then (True, f\<lparr>spos := ofs\<rparr>) else (False, f))))"

definition fseek_end :: "zenv \<Rightarrow> stream \<Rightarrow> ('z world_scheme, bool \<times> stream) comp" where
  "fseek_end E f = seq (live f) (bnd (lib_call E) (\<lambda>r. bnd (file_data f) (\<lambda>bs.
     ret (if r = None then (True, f\<lparr>spos := length bs\<rparr>) else (False, f)))))"

definition fread :: "zenv \<Rightarrow> stream \<Rightarrow> nat \<Rightarrow> ('z world_scheme, byte list \<times> stream) comp" where
  "fread E f n = seq (live f) (bnd (lib_call E) (\<lambda>r. bnd (file_data f) (\<lambda>bs.
     let got = take (case r of None \<Rightarrow> n | Some k \<Rightarrow> min k n) (drop (spos f) bs)
     in ret (got, f\<lparr>spos := spos f + length got\<rparr>))))"

text \<open>Writing behind the end of a file fills the gap with zeros.\<close>

definition write_at :: "nat \<Rightarrow> byte list \<Rightarrow> byte list \<Rightarrow> byte list" where
  "write_at pos new old = take pos (pad_to pos old) @ new @ drop (pos + length new) old"

definition fwrite :: "zenv \<Rightarrow> stream \<Rightarrow> byte list \<Rightarrow> ('z world_scheme, nat \<times> stream) comp" where
  "fwrite E f bs = seq (live f) (bnd (lib_call E) (\<lambda>r.
     let n = (if swritable f then (case r of None \<Rightarrow> length bs | Some k \<Rightarrow> min k (length bs)) else 0) in
     if n = 0 then ret (0, f)
     else bnd (file_data f) (\<lambda>old.
       seq (modify (\<lambda>s. s\<lparr>disk := (disk s)(spath f := Some (write_at (spos f) (take n bs) old))\<rparr>))
         (ret (n, f\<lparr>spos := spos f + n\<rparr>)))))"

definition fclose :: "zenv \<Rightarrow> stream \<Rightarrow> ('z world_scheme, bool \<times> stream) comp" where
  "fclose E f = seq (live f) (bnd (lib_call E) (\<lambda>r. ret (r = None, f\<lparr>sopen := False\<rparr>)))"

definition fflush :: "zenv \<Rightarrow> stream \<Rightarrow> ('z world_scheme, bool) comp" where
  "fflush E f = seq (live f) (bnd (lib_call E) (\<lambda>r. ret (r = None)))"

text \<open>\<open>ftruncate\<close> cuts the file or fills it with zeros.\<close>

definition ftruncate :: "zenv \<Rightarrow> stream \<Rightarrow> nat \<Rightarrow> ('z world_scheme, bool) comp" where
  "ftruncate E f n = seq (live f) (bnd (lib_call E) (\<lambda>r.
     if r = None \<and> swritable f
     then bnd (file_data f) (\<lambda>old.
       seq (modify (\<lambda>s. s\<lparr>disk := (disk s)(spath f := Some (take n (pad_to n old)))\<rparr>)) (ret True))
     else ret False))"

subsection \<open>Weakest preconditions of the library calls\<close>

lemma wp_alloc [simp]:
  "wp (alloc E) Q s = Q (alloc_ok E (nalloc s)) (s\<lparr>nalloc := Suc (nalloc s)\<rparr>)"
  by (simp add: alloc_def wp_def)

lemma wp_lib_call [simp]: "wp (lib_call E) Q s = Q (lib_res E (ncall s)) (s\<lparr>ncall := Suc (ncall s)\<rparr>)"
  by (simp add: lib_call_def wp_def)

lemma wp_lib_time [simp]: "wp (lib_time E) Q s = Q (unix_time E (ncall s)) (s\<lparr>ncall := Suc (ncall s)\<rparr>)"
  by (simp add: lib_time_def wp_def)

lemma wp_live [simp]: "wp (live f) Q s \<longleftrightarrow> sopen f \<and> Q () s"
  by (simp add: live_def)

lemma wp_file_data [simp]:
  "wp (file_data f) Q s = Q (case disk s (spath f) of None \<Rightarrow> [] | Some bs \<Rightarrow> bs) s"
  by (simp add: file_data_def)

lemma wp_load [simp]: "wp (load n blk ofs) Q s \<longleftrightarrow> ofs + n \<le> length blk \<and> Q (field n blk ofs) s"
  by (simp add: load_def)

lemma wp_peek [simp]: "wp (peek n blk ofs) Q s \<longleftrightarrow> ofs + n \<le> length blk \<and> Q (take n (drop ofs blk)) s"
  by (simp add: peek_def)

lemma wp_poke [simp]: "wp (poke blk ofs xs) Q s \<longleftrightarrow> ofs + length xs \<le> length blk \<and> Q (overwrite blk ofs xs) s"
  by (simp add: poke_def)

lemma wp_elem [simp]: "wp (elem blk i) Q s \<longleftrightarrow> i < length blk \<and> Q (blk ! i) s"
  by (simp add: elem_def)

lemma wp_put_elem [simp]: "wp (put_elem blk i x) Q s \<longleftrightarrow> i < length blk \<and> Q (blk[i := x]) s"
  by (simp add: put_elem_def)

section \<open>An environment for examples\<close>

definition calm :: zenv where
  "calm = \<lparr>alloc_ok = (\<lambda>_. True), lib_res = (\<lambda>_. None), stale = 0,
     localtime = (\<lambda>t. \<lparr>tm_sec = t mod 60, tm_min = 0, tm_hour = 0, tm_mday = 1, tm_mon = 0, tm_year = 100\<rparr>),
     mktime = tm_sec, unix_time = (\<lambda>_. 0), file_stat = (\<lambda>_. None)\<rparr>"

lemma calm_simps [simp]: "alloc_ok calm n" "lib_res calm n = None" "stale calm = 0" "mktime calm tm = tm_sec tm"
  "localtime calm t = \<lparr>tm_sec = t mod 60, tm_min = 0, tm_hour = 0, tm_mday = 1, tm_mon = 0, tm_year = 100\<rparr>"
  "unix_time calm n = 0" "file_stat calm p = None"
  by (simp_all add: calm_def)

end
