(* ===== verification/Zip_Format.thy ===== *)
theory Zip_Format
  imports Main
begin

text \<open>
  The constants of the ZIP format as \<open>server/include/miniz.h\<close> lists them (signatures, record sizes, field offsets, flag
  bits) and the error codes of \<open>server/include/zip.h\<close>, under the names of the source.
\<close>

section \<open>Records of the archive format\<close>

abbreviation (input) MZ_ZIP_END_OF_CENTRAL_DIR_HEADER_SIG :: nat
  where "MZ_ZIP_END_OF_CENTRAL_DIR_HEADER_SIG \<equiv> 0x06054b50"
abbreviation (input) MZ_ZIP_CENTRAL_DIR_HEADER_SIG :: nat where "MZ_ZIP_CENTRAL_DIR_HEADER_SIG \<equiv> 0x02014b50"
abbreviation (input) MZ_ZIP_LOCAL_DIR_HEADER_SIG :: nat where "MZ_ZIP_LOCAL_DIR_HEADER_SIG \<equiv> 0x04034b50"
abbreviation (input) MZ_ZIP_LOCAL_DIR_HEADER_SIZE :: nat where "MZ_ZIP_LOCAL_DIR_HEADER_SIZE \<equiv> 30"
abbreviation (input) MZ_ZIP_CENTRAL_DIR_HEADER_SIZE :: nat where "MZ_ZIP_CENTRAL_DIR_HEADER_SIZE \<equiv> 46"
abbreviation (input) MZ_ZIP_END_OF_CENTRAL_DIR_HEADER_SIZE :: nat
  where "MZ_ZIP_END_OF_CENTRAL_DIR_HEADER_SIZE \<equiv> 22"
abbreviation (input) MZ_ZIP64_END_OF_CENTRAL_DIR_HEADER_SIG :: nat
  where "MZ_ZIP64_END_OF_CENTRAL_DIR_HEADER_SIG \<equiv> 0x06064b50"
abbreviation (input) MZ_ZIP64_END_OF_CENTRAL_DIR_LOCATOR_SIG :: nat
  where "MZ_ZIP64_END_OF_CENTRAL_DIR_LOCATOR_SIG \<equiv> 0x07064b50"
abbreviation (input) MZ_ZIP64_END_OF_CENTRAL_DIR_HEADER_SIZE :: nat
  where "MZ_ZIP64_END_OF_CENTRAL_DIR_HEADER_SIZE \<equiv> 56"
abbreviation (input) MZ_ZIP64_END_OF_CENTRAL_DIR_LOCATOR_SIZE :: nat
  where "MZ_ZIP64_END_OF_CENTRAL_DIR_LOCATOR_SIZE \<equiv> 20"
abbreviation (input) MZ_ZIP64_EXTENDED_INFORMATION_FIELD_HEADER_ID :: nat
  where "MZ_ZIP64_EXTENDED_INFORMATION_FIELD_HEADER_ID \<equiv> 0x0001"
abbreviation (input) MZ_ZIP_CDH_SIG_OFS :: nat where "MZ_ZIP_CDH_SIG_OFS \<equiv> 0"
abbreviation (input) MZ_ZIP_CDH_VERSION_MADE_BY_OFS :: nat where "MZ_ZIP_CDH_VERSION_MADE_BY_OFS \<equiv> 4"
abbreviation (input) MZ_ZIP_CDH_VERSION_NEEDED_OFS :: nat where "MZ_ZIP_CDH_VERSION_NEEDED_OFS \<equiv> 6"
abbreviation (input) MZ_ZIP_CDH_BIT_FLAG_OFS :: nat where "MZ_ZIP_CDH_BIT_FLAG_OFS \<equiv> 8"
abbreviation (input) MZ_ZIP_CDH_METHOD_OFS :: nat where "MZ_ZIP_CDH_METHOD_OFS \<equiv> 10"
abbreviation (input) MZ_ZIP_CDH_FILE_TIME_OFS :: nat where "MZ_ZIP_CDH_FILE_TIME_OFS \<equiv> 12"
abbreviation (input) MZ_ZIP_CDH_FILE_DATE_OFS :: nat where "MZ_ZIP_CDH_FILE_DATE_OFS \<equiv> 14"
abbreviation (input) MZ_ZIP_CDH_CRC32_OFS :: nat where "MZ_ZIP_CDH_CRC32_OFS \<equiv> 16"
abbreviation (input) MZ_ZIP_CDH_COMPRESSED_SIZE_OFS :: nat where "MZ_ZIP_CDH_COMPRESSED_SIZE_OFS \<equiv> 20"
abbreviation (input) MZ_ZIP_CDH_DECOMPRESSED_SIZE_OFS :: nat where "MZ_ZIP_CDH_DECOMPRESSED_SIZE_OFS \<equiv> 24"
abbreviation (input) MZ_ZIP_CDH_FILENAME_LEN_OFS :: nat where "MZ_ZIP_CDH_FILENAME_LEN_OFS \<equiv> 28"
abbreviation (input) MZ_ZIP_CDH_EXTRA_LEN_OFS :: nat where "MZ_ZIP_CDH_EXTRA_LEN_OFS \<equiv> 30"
abbreviation (input) MZ_ZIP_CDH_COMMENT_LEN_OFS :: nat where "MZ_ZIP_CDH_COMMENT_LEN_OFS \<equiv> 32"
abbreviation (input) MZ_ZIP_CDH_DISK_START_OFS :: nat where "MZ_ZIP_CDH_DISK_START_OFS \<equiv> 34"
abbreviation (input) MZ_ZIP_CDH_INTERNAL_ATTR_OFS :: nat where "MZ_ZIP_CDH_INTERNAL_ATTR_OFS \<equiv> 36"
abbreviation (input) MZ_ZIP_CDH_EXTERNAL_ATTR_OFS :: nat where "MZ_ZIP_CDH_EXTERNAL_ATTR_OFS \<equiv> 38"
abbreviation (input) MZ_ZIP_CDH_LOCAL_HEADER_OFS :: nat where "MZ_ZIP_CDH_LOCAL_HEADER_OFS \<equiv> 42"
abbreviation (input) MZ_ZIP_LDH_SIG_OFS :: nat where "MZ_ZIP_LDH_SIG_OFS \<equiv> 0"
abbreviation (input) MZ_ZIP_LDH_VERSION_NEEDED_OFS :: nat where "MZ_ZIP_LDH_VERSION_NEEDED_OFS \<equiv> 4"
abbreviation (input) MZ_ZIP_LDH_BIT_FLAG_OFS :: nat where "MZ_ZIP_LDH_BIT_FLAG_OFS \<equiv> 6"
abbreviation (input) MZ_ZIP_LDH_METHOD_OFS :: nat where "MZ_ZIP_LDH_METHOD_OFS \<equiv> 8"
abbreviation (input) MZ_ZIP_LDH_FILE_TIME_OFS :: nat where "MZ_ZIP_LDH_FILE_TIME_OFS \<equiv> 10"
abbreviation (input) MZ_ZIP_LDH_FILE_DATE_OFS :: nat where "MZ_ZIP_LDH_FILE_DATE_OFS \<equiv> 12"
abbreviation (input) MZ_ZIP_LDH_CRC32_OFS :: nat where "MZ_ZIP_LDH_CRC32_OFS \<equiv> 14"
abbreviation (input) MZ_ZIP_LDH_COMPRESSED_SIZE_OFS :: nat where "MZ_ZIP_LDH_COMPRESSED_SIZE_OFS \<equiv> 18"
abbreviation (input) MZ_ZIP_LDH_DECOMPRESSED_SIZE_OFS :: nat where "MZ_ZIP_LDH_DECOMPRESSED_SIZE_OFS \<equiv> 22"
abbreviation (input) MZ_ZIP_LDH_FILENAME_LEN_OFS :: nat where "MZ_ZIP_LDH_FILENAME_LEN_OFS \<equiv> 26"
abbreviation (input) MZ_ZIP_LDH_EXTRA_LEN_OFS :: nat where "MZ_ZIP_LDH_EXTRA_LEN_OFS \<equiv> 28"
abbreviation (input) MZ_ZIP_ECDH_SIG_OFS :: nat where "MZ_ZIP_ECDH_SIG_OFS \<equiv> 0"
abbreviation (input) MZ_ZIP_ECDH_NUM_THIS_DISK_OFS :: nat where "MZ_ZIP_ECDH_NUM_THIS_DISK_OFS \<equiv> 4"
abbreviation (input) MZ_ZIP_ECDH_NUM_DISK_CDIR_OFS :: nat where "MZ_ZIP_ECDH_NUM_DISK_CDIR_OFS \<equiv> 6"
abbreviation (input) MZ_ZIP_ECDH_CDIR_NUM_ENTRIES_ON_DISK_OFS :: nat
  where "MZ_ZIP_ECDH_CDIR_NUM_ENTRIES_ON_DISK_OFS \<equiv> 8"
abbreviation (input) MZ_ZIP_ECDH_CDIR_TOTAL_ENTRIES_OFS :: nat where "MZ_ZIP_ECDH_CDIR_TOTAL_ENTRIES_OFS \<equiv> 10"
abbreviation (input) MZ_ZIP_ECDH_CDIR_SIZE_OFS :: nat where "MZ_ZIP_ECDH_CDIR_SIZE_OFS \<equiv> 12"
abbreviation (input) MZ_ZIP_ECDH_CDIR_OFS_OFS :: nat where "MZ_ZIP_ECDH_CDIR_OFS_OFS \<equiv> 16"
abbreviation (input) MZ_ZIP_ECDH_COMMENT_SIZE_OFS :: nat where "MZ_ZIP_ECDH_COMMENT_SIZE_OFS \<equiv> 20"
abbreviation (input) MZ_ZIP64_ECDL_SIG_OFS :: nat where "MZ_ZIP64_ECDL_SIG_OFS \<equiv> 0"
abbreviation (input) MZ_ZIP64_ECDL_NUM_DISK_CDIR_OFS :: nat where "MZ_ZIP64_ECDL_NUM_DISK_CDIR_OFS \<equiv> 4"
abbreviation (input) MZ_ZIP64_ECDL_REL_OFS_TO_ZIP64_ECDR_OFS :: nat
  where "MZ_ZIP64_ECDL_REL_OFS_TO_ZIP64_ECDR_OFS \<equiv> 8"
abbreviation (input) MZ_ZIP64_ECDL_TOTAL_NUMBER_OF_DISKS_OFS :: nat
  where "MZ_ZIP64_ECDL_TOTAL_NUMBER_OF_DISKS_OFS \<equiv> 16"
abbreviation (input) MZ_ZIP64_ECDH_SIG_OFS :: nat where "MZ_ZIP64_ECDH_SIG_OFS \<equiv> 0"
abbreviation (input) MZ_ZIP64_ECDH_SIZE_OF_RECORD_OFS :: nat where "MZ_ZIP64_ECDH_SIZE_OF_RECORD_OFS \<equiv> 4"
abbreviation (input) MZ_ZIP64_ECDH_VERSION_MADE_BY_OFS :: nat where "MZ_ZIP64_ECDH_VERSION_MADE_BY_OFS \<equiv> 12"
abbreviation (input) MZ_ZIP64_ECDH_VERSION_NEEDED_OFS :: nat where "MZ_ZIP64_ECDH_VERSION_NEEDED_OFS \<equiv> 14"
abbreviation (input) MZ_ZIP64_ECDH_NUM_THIS_DISK_OFS :: nat where "MZ_ZIP64_ECDH_NUM_THIS_DISK_OFS \<equiv> 16"
abbreviation (input) MZ_ZIP64_ECDH_NUM_DISK_CDIR_OFS :: nat where "MZ_ZIP64_ECDH_NUM_DISK_CDIR_OFS \<equiv> 20"
abbreviation (input) MZ_ZIP64_ECDH_CDIR_NUM_ENTRIES_ON_DISK_OFS :: nat
  where "MZ_ZIP64_ECDH_CDIR_NUM_ENTRIES_ON_DISK_OFS \<equiv> 24"
abbreviation (input) MZ_ZIP64_ECDH_CDIR_TOTAL_ENTRIES_OFS :: nat
  where "MZ_ZIP64_ECDH_CDIR_TOTAL_ENTRIES_OFS \<equiv> 32"
abbreviation (input) MZ_ZIP64_ECDH_CDIR_SIZE_OFS :: nat where "MZ_ZIP64_ECDH_CDIR_SIZE_OFS \<equiv> 40"
abbreviation (input) MZ_ZIP64_ECDH_CDIR_OFS_OFS :: nat where "MZ_ZIP64_ECDH_CDIR_OFS_OFS \<equiv> 48"
abbreviation (input) MZ_ZIP_VERSION_MADE_BY_DOS_FILESYSTEM_ID :: nat
  where "MZ_ZIP_VERSION_MADE_BY_DOS_FILESYSTEM_ID \<equiv> 0"
abbreviation (input) MZ_ZIP_DOS_DIR_ATTRIBUTE_BITFLAG :: nat where "MZ_ZIP_DOS_DIR_ATTRIBUTE_BITFLAG \<equiv> 0x10"
abbreviation (input) MZ_ZIP_GENERAL_PURPOSE_BIT_FLAG_IS_ENCRYPTED :: nat
  where "MZ_ZIP_GENERAL_PURPOSE_BIT_FLAG_IS_ENCRYPTED \<equiv> 1"
abbreviation (input) MZ_ZIP_GENERAL_PURPOSE_BIT_FLAG_COMPRESSED_PATCH_FLAG :: nat
  where "MZ_ZIP_GENERAL_PURPOSE_BIT_FLAG_COMPRESSED_PATCH_FLAG \<equiv> 32"
abbreviation (input) MZ_ZIP_GENERAL_PURPOSE_BIT_FLAG_USES_STRONG_ENCRYPTION :: nat
  where "MZ_ZIP_GENERAL_PURPOSE_BIT_FLAG_USES_STRONG_ENCRYPTION \<equiv> 64"
abbreviation (input) MZ_ZIP_GENERAL_PURPOSE_BIT_FLAG_LOCAL_DIR_IS_MASKED :: nat
  where "MZ_ZIP_GENERAL_PURPOSE_BIT_FLAG_LOCAL_DIR_IS_MASKED \<equiv> 8192"
abbreviation (input) MZ_ZIP_GENERAL_PURPOSE_BIT_FLAG_UTF8 :: nat
  where "MZ_ZIP_GENERAL_PURPOSE_BIT_FLAG_UTF8 \<equiv> 2048"

section \<open>Flags, levels and sizes\<close>

abbreviation (input) MZ_ZIP_MAX_IO_BUF_SIZE :: nat where "MZ_ZIP_MAX_IO_BUF_SIZE \<equiv> 65536"
abbreviation (input) MZ_ZIP_MAX_ARCHIVE_FILENAME_SIZE :: nat where "MZ_ZIP_MAX_ARCHIVE_FILENAME_SIZE \<equiv> 260"
abbreviation (input) MZ_ZIP_MAX_ARCHIVE_FILE_COMMENT_SIZE :: nat
  where "MZ_ZIP_MAX_ARCHIVE_FILE_COMMENT_SIZE \<equiv> 256"
abbreviation (input) MZ_ZIP_FLAG_CASE_SENSITIVE :: nat where "MZ_ZIP_FLAG_CASE_SENSITIVE \<equiv> 0x0100"
abbreviation (input) MZ_ZIP_FLAG_IGNORE_PATH :: nat where "MZ_ZIP_FLAG_IGNORE_PATH \<equiv> 0x0200"
abbreviation (input) MZ_ZIP_FLAG_COMPRESSED_DATA :: nat where "MZ_ZIP_FLAG_COMPRESSED_DATA \<equiv> 0x0400"
abbreviation (input) MZ_ZIP_FLAG_DO_NOT_SORT_CENTRAL_DIRECTORY :: nat
  where "MZ_ZIP_FLAG_DO_NOT_SORT_CENTRAL_DIRECTORY \<equiv> 0x0800"
abbreviation (input) MZ_DEFLATED :: nat where "MZ_DEFLATED \<equiv> 8"
abbreviation (input) MZ_UBER_COMPRESSION :: nat where "MZ_UBER_COMPRESSION \<equiv> 10"
abbreviation (input) MZ_DEFAULT_LEVEL :: int where "MZ_DEFAULT_LEVEL \<equiv> 6"
abbreviation (input) MZ_UINT16_MAX :: nat where "MZ_UINT16_MAX \<equiv> 0xFFFF"
abbreviation (input) MZ_UINT32_MAX :: nat where "MZ_UINT32_MAX \<equiv> 0xFFFFFFFF"
abbreviation (input) MZ_VER_MAJOR :: nat where "MZ_VER_MAJOR \<equiv> 9"
abbreviation (input) MZ_VER_MINOR :: nat where "MZ_VER_MINOR \<equiv> 1"
abbreviation (input) MZ_PLATFORM :: nat where "MZ_PLATFORM \<equiv> 3"
abbreviation (input) MAX_PATH :: nat where "MAX_PATH \<equiv> 32767"
abbreviation (input) ZIP_DEFAULT_COMPRESSION_LEVEL :: int where "ZIP_DEFAULT_COMPRESSION_LEVEL \<equiv> 6"

section \<open>Error codes\<close>

abbreviation (input) ZIP_ENOINIT :: int where "ZIP_ENOINIT \<equiv> -1"
abbreviation (input) ZIP_EINVENTNAME :: int where "ZIP_EINVENTNAME \<equiv> -2"
abbreviation (input) ZIP_ENOENT :: int where "ZIP_ENOENT \<equiv> -3"
abbreviation (input) ZIP_EINVMODE :: int where "ZIP_EINVMODE \<equiv> -4"
abbreviation (input) ZIP_EINVLVL :: int where "ZIP_EINVLVL \<equiv> -5"
abbreviation (input) ZIP_ENOSUP64 :: int where "ZIP_ENOSUP64 \<equiv> -6"
abbreviation (input) ZIP_EMEMSET :: int where "ZIP_EMEMSET \<equiv> -7"
abbreviation (input) ZIP_EWRTENT :: int where "ZIP_EWRTENT \<equiv> -8"
abbreviation (input) ZIP_ETDEFLINIT :: int where "ZIP_ETDEFLINIT \<equiv> -9"
abbreviation (input) ZIP_EINVIDX :: int where "ZIP_EINVIDX \<equiv> -10"
abbreviation (input) ZIP_ENOHDR :: int where "ZIP_ENOHDR \<equiv> -11"
abbreviation (input) ZIP_ETDEFLBUF :: int where "ZIP_ETDEFLBUF \<equiv> -12"
abbreviation (input) ZIP_ECRTHDR :: int where "ZIP_ECRTHDR \<equiv> -13"
abbreviation (input) ZIP_EWRTHDR :: int where "ZIP_EWRTHDR \<equiv> -14"
abbreviation (input) ZIP_EWRTDIR :: int where "ZIP_EWRTDIR \<equiv> -15"
abbreviation (input) ZIP_EOPNFILE :: int where "ZIP_EOPNFILE \<equiv> -16"
abbreviation (input) ZIP_EINVENTTYPE :: int where "ZIP_EINVENTTYPE \<equiv> -17"
abbreviation (input) ZIP_EMEMNOALLOC :: int where "ZIP_EMEMNOALLOC \<equiv> -18"
abbreviation (input) ZIP_ENOFILE :: int where "ZIP_ENOFILE \<equiv> -19"
abbreviation (input) ZIP_ENOPERM :: int where "ZIP_ENOPERM \<equiv> -20"
abbreviation (input) ZIP_EOOMEM :: int where "ZIP_EOOMEM \<equiv> -21"
abbreviation (input) ZIP_EINVZIPNAME :: int where "ZIP_EINVZIPNAME \<equiv> -22"
abbreviation (input) ZIP_EMKDIR :: int where "ZIP_EMKDIR \<equiv> -23"
abbreviation (input) ZIP_ESYMLINK :: int where "ZIP_ESYMLINK \<equiv> -24"
abbreviation (input) ZIP_ECLSZIP :: int where "ZIP_ECLSZIP \<equiv> -25"
abbreviation (input) ZIP_ECAPSIZE :: int where "ZIP_ECAPSIZE \<equiv> -26"
abbreviation (input) ZIP_EFSEEK :: int where "ZIP_EFSEEK \<equiv> -27"
abbreviation (input) ZIP_EFREAD :: int where "ZIP_EFREAD \<equiv> -28"
abbreviation (input) ZIP_EFWRITE :: int where "ZIP_EFWRITE \<equiv> -29"

end
