(* ===== verification/Miniz_Archive.thy ===== *)
theory Miniz_Archive
  imports Zip_World Zip_Format
begin

text \<open>
  The archive object of \<open>server/include/miniz.h\<close>: its structures, the growable arrays that hold the central directory,
  the read and write functions for memory, heap and file archives, and the DOS calendar. A function
  pointer is a value of an enumeration of the functions the source stores there; the opaque pointers
  always denote the archive itself, and the allocator is the default one.
\<close>

section \<open>Structures\<close>

datatype mz_zip_mode =
    MZ_ZIP_MODE_INVALID
  | MZ_ZIP_MODE_READING
  | MZ_ZIP_MODE_WRITING
  | MZ_ZIP_MODE_WRITING_HAS_BEEN_FINALIZED

datatype mz_zip_error =
    MZ_ZIP_NO_ERROR
  | MZ_ZIP_UNDEFINED_ERROR
  | MZ_ZIP_TOO_MANY_FILES
  | MZ_ZIP_FILE_TOO_LARGE
  | MZ_ZIP_UNSUPPORTED_METHOD
  | MZ_ZIP_UNSUPPORTED_ENCRYPTION
  | MZ_ZIP_UNSUPPORTED_FEATURE
  | MZ_ZIP_FAILED_FINDING_CENTRAL_DIR
  | MZ_ZIP_NOT_AN_ARCHIVE
  | MZ_ZIP_INVALID_HEADER_OR_CORRUPTED
  | MZ_ZIP_UNSUPPORTED_MULTIDISK
  | MZ_ZIP_DECOMPRESSION_FAILED
  | MZ_ZIP_COMPRESSION_FAILED
  | MZ_ZIP_UNEXPECTED_DECOMPRESSED_SIZE
  | MZ_ZIP_CRC_CHECK_FAILED
  | MZ_ZIP_UNSUPPORTED_CDIR_SIZE
  | MZ_ZIP_ALLOC_FAILED
  | MZ_ZIP_FILE_OPEN_FAILED
  | MZ_ZIP_FILE_CREATE_FAILED
  | MZ_ZIP_FILE_WRITE_FAILED
  | MZ_ZIP_FILE_READ_FAILED
  | MZ_ZIP_FILE_CLOSE_FAILED
  | MZ_ZIP_FILE_SEEK_FAILED
  | MZ_ZIP_FILE_STAT_FAILED
  | MZ_ZIP_INVALID_PARAMETER
  | MZ_ZIP_INVALID_FILENAME
  | MZ_ZIP_BUF_TOO_SMALL
  | MZ_ZIP_INTERNAL_ERROR
  | MZ_ZIP_FILE_NOT_FOUND
  | MZ_ZIP_ARCHIVE_TOO_LARGE
  | MZ_ZIP_VALIDATION_FAILED
  | MZ_ZIP_WRITE_CALLBACK_FAILED
  | MZ_ZIP_TOTAL_ERRORS

datatype mz_file_read_func = Mem_read_func | File_read_func

datatype mz_file_write_func = Heap_write_func | File_write_func

text \<open>\<open>m_p\<close> is the block behind the array; \<open>m_capacity\<close> is what the code believes its length to be.\<close>

record 'a mz_zip_array =
  m_p :: "'a list"
  m_size :: nat
  m_capacity :: nat

record mz_zip_internal_state =
  m_central_dir :: "byte mz_zip_array"
  m_central_dir_offsets :: "nat mz_zip_array"
  m_sorted_central_dir_offsets :: "nat mz_zip_array"
  m_zip64 :: bool
  m_zip64_has_extended_info_fields :: bool
  m_pFile :: "stream option"
  m_pMem :: "byte list option"
  m_mem_size :: nat
  m_mem_capacity :: nat

record mz_zip_archive =
  m_archive_size :: nat
  m_central_directory_file_ofs :: nat
  m_total_files :: nat
  m_zip_mode :: mz_zip_mode
  m_last_error :: mz_zip_error
  m_file_offset_alignment :: nat
  m_pRead :: "mz_file_read_func option"
  m_pWrite :: "mz_file_write_func option"
  m_pState :: "mz_zip_internal_state option"

record zst = world +
  arch :: mz_zip_archive

definition empty_array :: "'a mz_zip_array" where
  "empty_array = \<lparr>m_p = [], m_size = 0, m_capacity = 0\<rparr>"

definition empty_state :: mz_zip_internal_state where
  "empty_state = \<lparr>m_central_dir = empty_array, m_central_dir_offsets = empty_array,
     m_sorted_central_dir_offsets = empty_array, m_zip64 = False, m_zip64_has_extended_info_fields = False,
     m_pFile = None, m_pMem = None, m_mem_size = 0, m_mem_capacity = 0\<rparr>"

text \<open>\<open>memset(&zip_archive, 0, sizeof)\<close>.\<close>

definition clear_archive :: mz_zip_archive where
  "clear_archive = \<lparr>m_archive_size = 0, m_central_directory_file_ofs = 0, m_total_files = 0,
     m_zip_mode = MZ_ZIP_MODE_INVALID, m_last_error = MZ_ZIP_NO_ERROR, m_file_offset_alignment = 0,
     m_pRead = None, m_pWrite = None, m_pState = None\<rparr>"

lemmas empty_defs = empty_array_def empty_state_def clear_archive_def

section \<open>Access to the archive and its state\<close>

definition upd_arch :: "(mz_zip_archive \<Rightarrow> mz_zip_archive) \<Rightarrow> ('z zst_scheme, unit) comp" where
  "upd_arch f = modify (\<lambda>s. s\<lparr>arch := f (arch s)\<rparr>)"

text \<open>\<open>pZip->m_pState\<close> dereferenced, and a store through it.\<close>

definition get_state :: "('z zst_scheme, mz_zip_internal_state) comp" where
  "get_state = bnd (gets (\<lambda>s. m_pState (arch s))) (\<lambda>p. case p of None \<Rightarrow> fail Null_deref | Some st \<Rightarrow> ret st)"

definition put_state :: "mz_zip_internal_state \<Rightarrow> ('z zst_scheme, unit) comp" where
  "put_state st = upd_arch (\<lambda>a. a\<lparr>m_pState := Some st\<rparr>)"

definition upd_state :: "(mz_zip_internal_state \<Rightarrow> mz_zip_internal_state) \<Rightarrow> ('z zst_scheme, unit) comp" where
  "upd_state f = bnd get_state (\<lambda>st. put_state (f st))"

definition mz_zip_set_error :: "mz_zip_error \<Rightarrow> ('z zst_scheme, bool) comp" where
  "mz_zip_set_error e = seq (upd_arch (\<lambda>a. a\<lparr>m_last_error := e\<rparr>)) (ret False)"

lemma wp_upd_arch [simp]: "wp (upd_arch f) Q s = Q () (s\<lparr>arch := f (arch s)\<rparr>)"
  by (simp add: upd_arch_def)

lemma wp_get_state [simp]:
  "wp get_state Q s \<longleftrightarrow> (case m_pState (arch s) of None \<Rightarrow> False | Some st \<Rightarrow> Q st s)"
  by (simp add: get_state_def split: option.splits)

lemma wp_bnd_get_state: "m_pState (arch s) = Some st \<Longrightarrow> wp (bnd get_state k) Q s = wp (k st) Q s"
  by simp

lemma wp_put_state [simp]: "wp (put_state st) Q s = Q () (s\<lparr>arch := (arch s)\<lparr>m_pState := Some st\<rparr>\<rparr>)"
  by (simp add: put_state_def)

lemma wp_upd_state [simp]:
  "wp (upd_state f) Q s \<longleftrightarrow>
     (case m_pState (arch s) of None \<Rightarrow> False
      | Some st \<Rightarrow> Q () (s\<lparr>arch := (arch s)\<lparr>m_pState := Some (f st)\<rparr>\<rparr>))"
  by (simp add: upd_state_def split: option.splits)

lemma wp_set_error [simp]:
  "wp (mz_zip_set_error e) Q s = Q False (s\<lparr>arch := (arch s)\<lparr>m_last_error := e\<rparr>\<rparr>)"
  by (simp add: mz_zip_set_error_def)

section \<open>Growable arrays\<close>

function grow_capacity :: "nat \<Rightarrow> nat \<Rightarrow> nat" where
  "grow_capacity new_capacity min_new_capacity =
     (if 0 < new_capacity \<and> new_capacity < min_new_capacity
      then grow_capacity (new_capacity * 2) min_new_capacity else new_capacity)"
  by pat_completeness auto
termination
  by (relation "measure (\<lambda>(c, m). m - c)") auto

declare grow_capacity.simps [simp del]

lemma grow_capacity_ge: "0 < c \<Longrightarrow> m \<le> grow_capacity c m"
  by (induction c m rule: grow_capacity.induct) (subst grow_capacity.simps, auto)

lemma grow_capacity_bound: "0 < c \<Longrightarrow> grow_capacity c m \<le> max c (2 * m)"
proof (induction c m rule: grow_capacity.induct)
  case (1 c m)
  then show ?case by (subst grow_capacity.simps) (auto simp: max_def split: if_splits)
qed

text \<open>\<open>fresh x n xs\<close>: the block \<open>xs\<close> after \<open>realloc\<close> to \<open>n\<close> elements, new ones being \<open>x\<close>.\<close>

definition fresh :: "'a \<Rightarrow> nat \<Rightarrow> 'a list \<Rightarrow> 'a list" where
  "fresh x n xs = take n xs @ replicate (n - length xs) x"

lemma length_fresh [simp]: "length (fresh x n xs) = n"
  by (simp add: fresh_def)

lemma take_fresh: "length xs \<le> n \<Longrightarrow> take (length xs) (fresh x n xs) = xs"
  by (simp add: fresh_def)

definition mz_zip_array_ensure_capacity ::
    "zenv \<Rightarrow> 'a \<Rightarrow> 'a mz_zip_array \<Rightarrow> nat \<Rightarrow> bool \<Rightarrow> ('z world_scheme, bool \<times> 'a mz_zip_array) comp" where
  "mz_zip_array_ensure_capacity E x a min_new_capacity growing =
     (if m_capacity a \<ge> min_new_capacity then ret (True, a)
      else
        let new_capacity = (if growing then grow_capacity (max 1 (m_capacity a)) min_new_capacity
                            else min_new_capacity)
        in bnd (alloc E) (\<lambda>ok.
          ret (if ok then (True, a\<lparr>m_p := fresh x new_capacity (m_p a), m_capacity := new_capacity\<rparr>)
               else (False, a))))"

definition mz_zip_array_reserve ::
    "zenv \<Rightarrow> 'a \<Rightarrow> 'a mz_zip_array \<Rightarrow> nat \<Rightarrow> bool \<Rightarrow> ('z world_scheme, bool \<times> 'a mz_zip_array) comp" where
  "mz_zip_array_reserve E x a new_capacity growing =
     (if new_capacity > m_capacity a then mz_zip_array_ensure_capacity E x a new_capacity growing
      else ret (True, a))"

definition mz_zip_array_resize ::
    "zenv \<Rightarrow> 'a \<Rightarrow> 'a mz_zip_array \<Rightarrow> nat \<Rightarrow> bool \<Rightarrow> ('z world_scheme, bool \<times> 'a mz_zip_array) comp" where
  "mz_zip_array_resize E x a new_size growing =
     bnd (if new_size > m_capacity a then mz_zip_array_ensure_capacity E x a new_size growing else ret (True, a))
       (\<lambda>(ok, a). ret (if ok then (True, a\<lparr>m_size := new_size\<rparr>) else (False, a)))"

definition mz_zip_array_ensure_room ::
    "zenv \<Rightarrow> 'a \<Rightarrow> 'a mz_zip_array \<Rightarrow> nat \<Rightarrow> ('z world_scheme, bool \<times> 'a mz_zip_array) comp" where
  "mz_zip_array_ensure_room E x a n = mz_zip_array_reserve E x a (m_size a + n) True"

text \<open>\<open>None\<close> is a null pointer to the elements.\<close>

definition mz_zip_array_push_back ::
    "zenv \<Rightarrow> 'a \<Rightarrow> 'a mz_zip_array \<Rightarrow> 'a list option \<Rightarrow> nat \<Rightarrow> ('z world_scheme, bool \<times> 'a mz_zip_array) comp"
  where
  "mz_zip_array_push_back E x a pElements n =
     (if n = 0 then ret (True, a)
      else case pElements of
        None \<Rightarrow> ret (False, a)
      | Some xs \<Rightarrow>
          bnd (mz_zip_array_resize E x a (m_size a + n) True) (\<lambda>(ok, b).
            if \<not> ok then ret (False, b)
            else if length xs < n then fail Out_of_bounds
            else bnd (poke (m_p b) (m_size a) (take n xs)) (\<lambda>blk. ret (True, b\<lparr>m_p := blk\<rparr>))))"

text \<open>Well-formed: the block is as long as the code believes, and holds the elements.\<close>

definition array_ok :: "'a mz_zip_array \<Rightarrow> bool" where
  "array_ok a \<longleftrightarrow> length (m_p a) = m_capacity a \<and> m_size a \<le> m_capacity a"

definition contents :: "'a mz_zip_array \<Rightarrow> 'a list" where
  "contents a = take (m_size a) (m_p a)"

lemma array_ok_empty [simp]: "array_ok empty_array" "contents empty_array = []"
  by (simp_all add: array_ok_def contents_def empty_array_def)

lemma wp_resize:
  assumes "array_ok a"
    and "\<And>b t. array_ok b \<Longrightarrow> m_size b = n \<Longrightarrow> (m_capacity a = 0 \<Longrightarrow> \<not> g \<Longrightarrow> m_capacity b = n) \<Longrightarrow>
      take (min n (m_size a)) (m_p b) = take (min n (m_size a)) (m_p a) \<Longrightarrow>
      t = s \<or> t = s\<lparr>nalloc := Suc (nalloc s)\<rparr> \<and> alloc_ok E (nalloc s) \<Longrightarrow> Q (True, b) t"
    and "\<not> alloc_ok E (nalloc s) \<Longrightarrow> Q (False, a) (s\<lparr>nalloc := Suc (nalloc s)\<rparr>)"
  shows "wp (mz_zip_array_resize E x a n g) Q s"
proof -
  have len: "length (m_p a) = m_capacity a" "m_size a \<le> m_capacity a" using assms(1) by (simp_all add: array_ok_def)
  show ?thesis
  proof (cases "n > m_capacity a")
    case True
    define c where "c = (if g then grow_capacity (max 1 (m_capacity a)) n else n)"
    have c: "n \<le> c" using grow_capacity_ge [of "max 1 (m_capacity a)" n] by (simp add: c_def)
    show ?thesis
    proof (cases "alloc_ok E (nalloc s)")
      case ok: True
      let ?b = "a\<lparr>m_p := fresh x c (m_p a), m_capacity := c, m_size := n\<rparr>"
      have "Q (True, ?b) (s\<lparr>nalloc := Suc (nalloc s)\<rparr>)"
        by (rule assms(2)) (use len c True ok in \<open>simp_all add: array_ok_def fresh_def c_def\<close>)
      with True ok show ?thesis
        by (simp add: mz_zip_array_resize_def mz_zip_array_ensure_capacity_def c_def Let_def)
    next
      case False
      with True show ?thesis
        by (simp add: mz_zip_array_resize_def mz_zip_array_ensure_capacity_def Let_def assms(3))
    qed
  next
    case False
    have "Q (True, a\<lparr>m_size := n\<rparr>) s"
      by (rule assms(2)) (use len False in \<open>simp_all add: array_ok_def\<close>)
    with False show ?thesis by (simp add: mz_zip_array_resize_def del: bnd_ret)
  qed
qed

lemma wp_push_back:
  fixes a :: "'a mz_zip_array"
  assumes "array_ok a" and "length xs = n"
    and "\<And>b t. array_ok b \<Longrightarrow> contents b = contents a @ xs \<Longrightarrow> m_size b = m_size a + n \<Longrightarrow>
      t = s \<or> t = s\<lparr>nalloc := Suc (nalloc s)\<rparr> \<and> alloc_ok E (nalloc s) \<Longrightarrow> Q (True, b) t"
    and "\<not> alloc_ok E (nalloc s) \<Longrightarrow> Q (False, a) (s\<lparr>nalloc := Suc (nalloc s)\<rparr>)"
  shows "wp (mz_zip_array_push_back E x a (Some xs) n :: ('c world_scheme, bool \<times> 'a mz_zip_array) comp) Q s"
proof (cases "n = 0")
  case True
  with assms(1,2) show ?thesis
    by (simp add: mz_zip_array_push_back_def assms(3))
next
  case False
  define k where "k = (\<lambda>(ok, b). if \<not> ok then ret (False, b)
      else if length xs < n then fail Out_of_bounds
      else bnd (poke (m_p b) (m_size a) (take n xs)) (\<lambda>blk. ret (True, b\<lparr>m_p := blk\<rparr>)) :: ('c world_scheme, bool \<times> 'a mz_zip_array) comp)"
  have "wp (mz_zip_array_resize E x a (m_size a + n) True) (\<lambda>r. wp (k r) Q) s"
  proof (rule wp_resize [OF assms(1)])
    fix b t
    assume b: "array_ok b" "m_size b = m_size a + n"
      "take (min (m_size a + n) (m_size a)) (m_p b) = take (min (m_size a + n) (m_size a)) (m_p a)"
      and t: "t = s \<or> t = s\<lparr>nalloc := Suc (nalloc s)\<rparr> \<and> alloc_ok E (nalloc s)"
    have len: "m_size a + n \<le> length (m_p b)" using b(1,2) by (simp add: array_ok_def)
    let ?b = "b\<lparr>m_p := overwrite (m_p b) (m_size a) xs\<rparr>"
    have "contents ?b = take (m_size a) (m_p b) @ xs"
      using len b(2) assms(2) by (simp add: contents_def overwrite_def)
    also have "take (m_size a) (m_p b) = contents a"
      using b(3) by (simp add: contents_def)
    finally have "Q (True, ?b) t"
      using b(1,2) len assms(2) t by (intro assms(3)) (simp_all add: array_ok_def)
    then show "wp (k (True, b)) Q t" using len assms(2) by (simp add: k_def)
  qed (simp add: assms(4) k_def)
  moreover have "mz_zip_array_push_back E x a (Some xs) n = bnd (mz_zip_array_resize E x a (m_size a + n) True) k"
    using False by (simp add: mz_zip_array_push_back_def k_def)
  ultimately show ?thesis by (simp only: wp_bnd)
qed

text \<open>An array operation on one of the arrays of the state, \<open>f(pZip, &pZip->m_pState->m_central_dir, ...)\<close>.\<close>

definition on_central_dir ::
    "(byte mz_zip_array \<Rightarrow> ('z zst_scheme, bool \<times> byte mz_zip_array) comp) \<Rightarrow> ('z zst_scheme, bool) comp" where
  "on_central_dir f = bnd get_state (\<lambda>st. bnd (f (m_central_dir st)) (\<lambda>(ok, a).
     seq (put_state (st\<lparr>m_central_dir := a\<rparr>)) (ret ok)))"

definition on_offsets ::
    "(nat mz_zip_array \<Rightarrow> ('z zst_scheme, bool \<times> nat mz_zip_array) comp) \<Rightarrow> ('z zst_scheme, bool) comp" where
  "on_offsets f = bnd get_state (\<lambda>st. bnd (f (m_central_dir_offsets st)) (\<lambda>(ok, a).
     seq (put_state (st\<lparr>m_central_dir_offsets := a\<rparr>)) (ret ok)))"

definition on_sorted_offsets ::
    "(nat mz_zip_array \<Rightarrow> ('z zst_scheme, bool \<times> nat mz_zip_array) comp) \<Rightarrow> ('z zst_scheme, bool) comp" where
  "on_sorted_offsets f = bnd get_state (\<lambda>st. bnd (f (m_sorted_central_dir_offsets st)) (\<lambda>(ok, a).
     seq (put_state (st\<lparr>m_sorted_central_dir_offsets := a\<rparr>)) (ret ok)))"

section \<open>Calendar\<close>

definition mz_zip_dos_to_time_t :: "zenv \<Rightarrow> nat \<Rightarrow> nat \<Rightarrow> int" where
  "mz_zip_dos_to_time_t E dos_time dos_date =
     mktime E \<lparr>tm_sec = int (2 * (dos_time mod 32)),
       tm_min = int (dos_time div 32 mod 64),
       tm_hour = int (dos_time div 2048 mod 32),
       tm_mday = int (dos_date mod 32),
       tm_mon = int (dos_date div 32 mod 16) - 1,
       tm_year = int (dos_date div 512 mod 128) + 1980 - 1900\<rparr>"

text \<open>The two stores of \<open>mz_zip_time_t_to_dos_time\<close>: time and date.\<close>

definition mz_zip_time_t_to_dos_time :: "zenv \<Rightarrow> int \<Rightarrow> nat \<times> nat" where
  "mz_zip_time_t_to_dos_time E time = (let tm = localtime E time in
     (nat ((tm_hour tm * 2048 + tm_min tm * 32 + tm_sec tm div 2) mod 65536),
      nat (((tm_year tm + 1900 - 1980) * 512 + (tm_mon tm + 1) * 32 + tm_mday tm) mod 65536)))"

text \<open>What a calendar can show and the two half words can hold.\<close>

definition dos_range :: "tm \<Rightarrow> bool" where
  "dos_range tm \<longleftrightarrow> 0 \<le> tm_sec tm \<and> tm_sec tm < 60 \<and> 0 \<le> tm_min tm \<and> tm_min tm < 60 \<and>
     0 \<le> tm_hour tm \<and> tm_hour tm < 24 \<and> 1 \<le> tm_mday tm \<and> tm_mday tm \<le> 31 \<and>
     0 \<le> tm_mon tm \<and> tm_mon tm < 12 \<and> 80 \<le> tm_year tm \<and> tm_year tm \<le> 207"

section \<open>Reading and writing the archive\<close>

definition mz_zip_mem_read_func :: "nat \<Rightarrow> nat \<Rightarrow> ('z zst_scheme, byte list) comp" where
  "mz_zip_mem_read_func file_ofs n = bnd (gets arch) (\<lambda>z. bnd get_state (\<lambda>st.
     let k = (if file_ofs \<ge> m_archive_size z then 0 else min (m_archive_size z - file_ofs) n) in
     if k = 0 then ret []
     else case m_pMem st of None \<Rightarrow> fail Null_deref | Some mem \<Rightarrow> peek k mem file_ofs))"

definition stream_of_state :: "('z zst_scheme, stream) comp" where
  "stream_of_state = bnd get_state (\<lambda>st. case m_pFile st of None \<Rightarrow> fail Null_deref | Some f \<Rightarrow> ret f)"

definition put_stream :: "stream \<Rightarrow> ('z zst_scheme, unit) comp" where
  "put_stream f = upd_state (\<lambda>st. st\<lparr>m_pFile := Some f\<rparr>)"

text \<open>\<open>ftell\<close>, the check of the sign and the \<open>fseek\<close> that both file functions begin with.\<close>

definition file_position :: "zenv \<Rightarrow> nat \<Rightarrow> ('z zst_scheme, bool) comp" where
  "file_position E file_ofs = bnd stream_of_state (\<lambda>f. seq (live f)
     (if s64 file_ofs < 0 then ret False
      else if int (spos f) \<noteq> s64 file_ofs
      then bnd (fseek_set E f file_ofs) (\<lambda>(ok, f). seq (put_stream f) (ret ok))
      else ret True))"

definition mz_zip_file_read_func :: "zenv \<Rightarrow> nat \<Rightarrow> nat \<Rightarrow> ('z zst_scheme, byte list) comp" where
  "mz_zip_file_read_func E file_ofs n = bnd (file_position E file_ofs) (\<lambda>ok.
     if \<not> ok then ret []
     else bnd stream_of_state (\<lambda>f. bnd (fread E f n) (\<lambda>(bs, f). seq (put_stream f) (ret bs))))"

definition mz_zip_heap_write_func :: "zenv \<Rightarrow> nat \<Rightarrow> byte list \<Rightarrow> ('z zst_scheme, nat) comp" where
  "mz_zip_heap_write_func E file_ofs bs = bnd get_state (\<lambda>st.
     let n = length bs; new_size = max (u64 (file_ofs + n)) (m_mem_size st) in
     if n = 0 then ret 0
     else
       bnd (if new_size > m_mem_capacity st
            then let new_capacity = grow_capacity (max 64 (m_mem_capacity st)) new_size
              in bnd (alloc E) (\<lambda>ok. ret (if ok
                then Some (fresh (of_nat (stale E)) new_capacity (case m_pMem st of None \<Rightarrow> [] | Some mem \<Rightarrow> mem),
                  new_capacity)
                else None))
            else case m_pMem st of None \<Rightarrow> fail Null_deref | Some mem \<Rightarrow> ret (Some (mem, m_mem_capacity st)))
       (\<lambda>r. case r of None \<Rightarrow> ret 0
        | Some (mem, cap) \<Rightarrow> bnd (poke mem file_ofs bs) (\<lambda>mem.
            seq (put_state (st\<lparr>m_pMem := Some mem, m_mem_capacity := cap, m_mem_size := new_size\<rparr>)) (ret n))))"

definition mz_zip_file_write_func :: "zenv \<Rightarrow> nat \<Rightarrow> byte list \<Rightarrow> ('z zst_scheme, nat) comp" where
  "mz_zip_file_write_func E file_ofs bs = bnd (file_position E file_ofs) (\<lambda>ok.
     if \<not> ok then ret 0
     else bnd stream_of_state (\<lambda>f. bnd (fwrite E f bs) (\<lambda>(n, f). seq (put_stream f) (ret n))))"

text \<open>The calls through the function pointers; the length of the result of \<open>pRead\<close> is the C result.\<close>

definition pRead :: "zenv \<Rightarrow> nat \<Rightarrow> nat \<Rightarrow> ('z zst_scheme, byte list) comp" where
  "pRead E file_ofs n = bnd (gets arch) (\<lambda>z. case m_pRead z of
     None \<Rightarrow> fail Null_deref
   | Some Mem_read_func \<Rightarrow> mz_zip_mem_read_func file_ofs n
   | Some File_read_func \<Rightarrow> mz_zip_file_read_func E file_ofs n)"

definition pWrite :: "zenv \<Rightarrow> nat \<Rightarrow> byte list \<Rightarrow> ('z zst_scheme, nat) comp" where
  "pWrite E file_ofs bs = bnd (gets arch) (\<lambda>z. case m_pWrite z of
     None \<Rightarrow> fail Null_deref
   | Some Heap_write_func \<Rightarrow> mz_zip_heap_write_func E file_ofs bs
   | Some File_write_func \<Rightarrow> mz_zip_file_write_func E file_ofs bs)"

section \<open>A state for examples\<close>

text \<open>No archive is open, and the disk holds the files of \<open>d\<close>.\<close>

definition no_archive :: "(path \<Rightarrow> byte list option) \<Rightarrow> zst" where
  "no_archive d = \<lparr>nalloc = 0, ncall = 0, disk = d, fs_events = [], arch = clear_archive\<rparr>"

lemma no_archive_simps [simp]: "arch (no_archive d) = clear_archive" "disk (no_archive d) = d"
  "nalloc (no_archive d) = 0" "ncall (no_archive d) = 0" "fs_events (no_archive d) = []"
  by (simp_all add: no_archive_def)

end
