(* ===== verification/Miniz_Reader.thy ===== *)
theory Miniz_Reader
  imports Miniz_Archive
begin

text \<open>
  The reader of \<open>server/include/miniz.h\<close>: locating the end-of-central-directory record, parsing the central directory
  with its ZIP64 variants, the heap sort of the entries by name, and the queries on an opened archive.
  Every access to the directory is an access inside the block that holds it, or a fault.
\<close>

section \<open>Names\<close>

text \<open>\<open>MZ_TOLOWER\<close>.\<close>

definition tolower :: "byte \<Rightarrow> byte" where
  "tolower c = (if 65 \<le> c \<and> c \<le> 90 then c - 65 + 97 else c)"

text \<open>The loop of \<open>mz_zip_reader_filename_less\<close>; \<open>None\<close> when it reaches the end of the shorter name.\<close>

fun name_loop :: "byte list \<Rightarrow> nat \<Rightarrow> byte list \<Rightarrow> nat \<Rightarrow> nat \<Rightarrow> ('s, (byte \<times> byte) option) comp" where
  "name_loop L pL R pR 0 = ret None"
| "name_loop L pL R pR (Suc n) = bnd (elem L pL) (\<lambda>l. bnd (elem R pR) (\<lambda>r.
     if tolower l \<noteq> tolower r then ret (Some (tolower l, tolower r))
     else name_loop L (pL + 1) R (pR + 1) n))"

definition mz_zip_reader_filename_less ::
    "byte list \<Rightarrow> nat list \<Rightarrow> nat \<Rightarrow> nat \<Rightarrow> ('s, bool) comp" where
  "mz_zip_reader_filename_less cd offs l_index r_index =
     bnd (elem offs l_index) (\<lambda>pL. bnd (elem offs r_index) (\<lambda>pR.
     bnd (load 2 cd (pL + MZ_ZIP_CDH_FILENAME_LEN_OFS)) (\<lambda>l_len.
     bnd (load 2 cd (pR + MZ_ZIP_CDH_FILENAME_LEN_OFS)) (\<lambda>r_len.
     bnd (name_loop cd (pL + MZ_ZIP_CENTRAL_DIR_HEADER_SIZE) cd (pR + MZ_ZIP_CENTRAL_DIR_HEADER_SIZE)
            (min l_len r_len)) (\<lambda>d.
     ret (case d of None \<Rightarrow> l_len < r_len | Some (l, r) \<Rightarrow> l < r))))))"

section \<open>Heap sort\<close>

text \<open>The inner loop of both phases: move the element at \<open>root\<close> down in the heap of the first \<open>sz\<close> indices.\<close>

function sift :: "(nat \<Rightarrow> nat \<Rightarrow> ('s, bool) comp) \<Rightarrow> nat \<Rightarrow> nat list \<Rightarrow> nat \<Rightarrow> ('s, nat list) comp" where
  "sift lower sz pIndices root =
     (let child = 2 * root + 1 in
      if child \<ge> sz then ret pIndices
      else bnd (if child + 1 < sz
                then bnd (elem pIndices child) (\<lambda>a. bnd (elem pIndices (child + 1)) (\<lambda>b. lower a b))
                else ret False) (\<lambda>g.
        let child = child + (if g then 1 else 0) in
        bnd (elem pIndices root) (\<lambda>x. bnd (elem pIndices child) (\<lambda>y. bnd (lower x y) (\<lambda>lt.
          if \<not> lt then ret pIndices else sift lower sz (pIndices[root := y, child := x]) child)))))"
  by pat_completeness auto
termination
  by (relation "measure (\<lambda>(lower, sz, ixs, root). sz - root)") (auto simp: Let_def)

declare sift.simps [simp del]

text \<open>\<open>while (start >= 0)\<close>; the last argument is \<open>start + 1\<close>.\<close>

fun build_heap :: "(nat \<Rightarrow> nat \<Rightarrow> ('s, bool) comp) \<Rightarrow> nat \<Rightarrow> nat list \<Rightarrow> nat \<Rightarrow> ('s, nat list) comp" where
  "build_heap lower sz pIndices 0 = ret pIndices"
| "build_heap lower sz pIndices (Suc start) =
     bnd (sift lower sz pIndices start) (\<lambda>pIndices. build_heap lower sz pIndices start)"

text \<open>\<open>while (end > 0)\<close>.\<close>

fun drain_heap :: "(nat \<Rightarrow> nat \<Rightarrow> ('s, bool) comp) \<Rightarrow> nat list \<Rightarrow> nat \<Rightarrow> ('s, nat list) comp" where
  "drain_heap lower pIndices 0 = ret pIndices"
| "drain_heap lower pIndices (Suc e) =
     bnd (elem pIndices (Suc e)) (\<lambda>x. bnd (elem pIndices 0) (\<lambda>y.
     bnd (sift lower (Suc e) (pIndices[Suc e := y, 0 := x]) 0) (\<lambda>pIndices. drain_heap lower pIndices e)))"

definition heap_sort :: "(nat \<Rightarrow> nat \<Rightarrow> ('s, bool) comp) \<Rightarrow> nat \<Rightarrow> nat list \<Rightarrow> ('s, nat list) comp" where
  "heap_sort lower sz pIndices =
     bnd (build_heap lower sz pIndices (sz div 2)) (\<lambda>pIndices. drain_heap lower pIndices (sz - 1))"

definition mz_zip_reader_sort_central_dir_offsets_by_filename :: "('z zst_scheme, unit) comp" where
  "mz_zip_reader_sort_central_dir_offsets_by_filename = bnd get_state (\<lambda>st. bnd (gets arch) (\<lambda>z.
     bnd (heap_sort (mz_zip_reader_filename_less (m_p (m_central_dir st)) (m_p (m_central_dir_offsets st)))
            (m_total_files z) (m_p (m_sorted_central_dir_offsets st))) (\<lambda>ixs.
     upd_state (\<lambda>st. st\<lparr>m_sorted_central_dir_offsets := (m_sorted_central_dir_offsets st)\<lparr>m_p := ixs\<rparr>\<rparr>))))"

section \<open>Opening and closing\<close>

definition mz_zip_reader_init_internal :: "zenv \<Rightarrow> ('z zst_scheme, bool) comp" where
  "mz_zip_reader_init_internal E = bnd (gets arch) (\<lambda>z.
     if m_pState z \<noteq> None \<or> m_zip_mode z \<noteq> MZ_ZIP_MODE_INVALID then ret False
     else
       seq (upd_arch (\<lambda>a. a\<lparr>m_zip_mode := MZ_ZIP_MODE_READING, m_archive_size := 0,
              m_central_directory_file_ofs := 0, m_total_files := 0\<rparr>))
       (bnd (alloc E) (\<lambda>ok.
          if \<not> ok then ret False
          else seq (upd_arch (\<lambda>a. a\<lparr>m_pState := Some empty_state\<rparr>)) (ret True))))"

definition mz_zip_reader_end :: "zenv \<Rightarrow> ('z zst_scheme, bool) comp" where
  "mz_zip_reader_end E = bnd (gets arch) (\<lambda>z.
     case m_pState z of None \<Rightarrow> ret False
     | Some st \<Rightarrow>
         if m_zip_mode z \<noteq> MZ_ZIP_MODE_READING then ret False
         else
           seq (upd_arch (\<lambda>a. a\<lparr>m_pState := None\<rparr>))
           (seq (case m_pFile st of None \<Rightarrow> skip | Some f \<Rightarrow> bnd (fclose E f) (\<lambda>_. skip))
           (seq (upd_arch (\<lambda>a. a\<lparr>m_zip_mode := MZ_ZIP_MODE_INVALID\<rparr>))
             (ret True))))"

section \<open>The end of the central directory\<close>

text \<open>\<open>scan_back P n\<close>: the greatest \<open>i < n\<close> with \<open>P i\<close>, as a loop that counts down finds it.\<close>

fun scan_back :: "(nat \<Rightarrow> bool) \<Rightarrow> nat \<Rightarrow> nat option" where
  "scan_back P 0 = None"
| "scan_back P (Suc i) = (if P i then Some i else scan_back P i)"

text \<open>
  The loop of \<open>mz_zip_reader_locate_header_sig\<close>. \<open>cur_file_ofs\<close> is an \<open>mz_int64\<close>; it is kept as the unsigned number
  with the same bits, the form in which the source adds and subtracts it. The first argument bounds
  the number of rounds.
\<close>

fun locate_loop :: "nat \<Rightarrow> zenv \<Rightarrow> nat \<Rightarrow> nat \<Rightarrow> nat \<Rightarrow> ('z zst_scheme, nat option) comp" where
  "locate_loop 0 E record_sig record_size cur_file_ofs = fail Diverges"
| "locate_loop (Suc fuel) E record_sig record_size cur_file_ofs = bnd (gets (\<lambda>s. m_archive_size (arch s))) (\<lambda>sz.
     let n = min 4096 (sub64 sz cur_file_ofs) in
     bnd (pRead E cur_file_ofs n) (\<lambda>pBuf.
       if length pBuf \<noteq> n then ret None
       else case scan_back (\<lambda>i. field 4 pBuf i = record_sig \<and> sub64 sz (u64 (cur_file_ofs + i)) \<ge> record_size)
                 (n - 3) of
         Some i \<Rightarrow> ret (Some (u64 (cur_file_ofs + i)))
       | None \<Rightarrow>
           if cur_file_ofs = 0 \<or> sub64 sz cur_file_ofs \<ge> MZ_UINT16_MAX + record_size then ret None
           else locate_loop fuel E record_sig record_size (sub64 cur_file_ofs (4096 - 3))))"

definition mz_zip_reader_locate_header_sig :: "zenv \<Rightarrow> nat \<Rightarrow> nat \<Rightarrow> ('z zst_scheme, nat option) comp" where
  "mz_zip_reader_locate_header_sig E record_sig record_size = bnd (gets (\<lambda>s. m_archive_size (arch s))) (\<lambda>sz.
     if sz < record_size then ret None
     else locate_loop 18 E record_sig record_size (nat (max (s64 sz - 4096) 0)))"

text \<open>\<open>None\<close>: the function has set \<open>m_last_error\<close> and returns \<open>MZ_FALSE\<close>.\<close>

definition zip_err :: "mz_zip_error \<Rightarrow> ('z zst_scheme, 'a option) comp" where
  "zip_err e = bnd (mz_zip_set_error e) (\<lambda>_. ret None)"

lemma wp_zip_err [simp]: "wp (zip_err e) Q s = Q None (s\<lparr>arch := (arch s)\<lparr>m_last_error := e\<rparr>\<rparr>)"
  by (simp add: zip_err_def)

text \<open>
  First part of \<open>mz_zip_reader_read_central_dir\<close>: the end record and, where both are there, the ZIP64 locator
  and the ZIP64 end record.
\<close>

definition read_end_records ::
    "zenv \<Rightarrow> ('z zst_scheme, (byte list \<times> (byte list \<times> byte list) option) option) comp" where
  "read_end_records E = bnd (gets (\<lambda>s. m_archive_size (arch s))) (\<lambda>sz.
     if sz < MZ_ZIP_END_OF_CENTRAL_DIR_HEADER_SIZE then zip_err MZ_ZIP_NOT_AN_ARCHIVE
     else bnd (mz_zip_reader_locate_header_sig E MZ_ZIP_END_OF_CENTRAL_DIR_HEADER_SIG
                 MZ_ZIP_END_OF_CENTRAL_DIR_HEADER_SIZE) (\<lambda>r.
       case r of None \<Rightarrow> zip_err MZ_ZIP_FAILED_FINDING_CENTRAL_DIR
       | Some cur_file_ofs \<Rightarrow> bnd (pRead E cur_file_ofs MZ_ZIP_END_OF_CENTRAL_DIR_HEADER_SIZE) (\<lambda>pBuf.
           if length pBuf \<noteq> MZ_ZIP_END_OF_CENTRAL_DIR_HEADER_SIZE then zip_err MZ_ZIP_FILE_READ_FAILED
           else if field 4 pBuf MZ_ZIP_ECDH_SIG_OFS \<noteq> MZ_ZIP_END_OF_CENTRAL_DIR_HEADER_SIG
           then zip_err MZ_ZIP_NOT_AN_ARCHIVE
           else if s64 cur_file_ofs < int (MZ_ZIP64_END_OF_CENTRAL_DIR_LOCATOR_SIZE +
                     MZ_ZIP64_END_OF_CENTRAL_DIR_HEADER_SIZE)
           then ret (Some (pBuf, None))
           else bnd (pRead E (cur_file_ofs - MZ_ZIP64_END_OF_CENTRAL_DIR_LOCATOR_SIZE)
                       MZ_ZIP64_END_OF_CENTRAL_DIR_LOCATOR_SIZE) (\<lambda>locator.
             if length locator \<noteq> MZ_ZIP64_END_OF_CENTRAL_DIR_LOCATOR_SIZE \<or>
                field 4 locator MZ_ZIP64_ECDL_SIG_OFS \<noteq> MZ_ZIP64_END_OF_CENTRAL_DIR_LOCATOR_SIG
             then ret (Some (pBuf, None))
             else
               let zip64_ofs = field 8 locator MZ_ZIP64_ECDL_REL_OFS_TO_ZIP64_ECDR_OFS in
               if zip64_ofs > sub64 sz MZ_ZIP64_END_OF_CENTRAL_DIR_HEADER_SIZE then zip_err MZ_ZIP_NOT_AN_ARCHIVE
               else bnd (pRead E zip64_ofs MZ_ZIP64_END_OF_CENTRAL_DIR_HEADER_SIZE) (\<lambda>hdr.
                 if length hdr = MZ_ZIP64_END_OF_CENTRAL_DIR_HEADER_SIZE \<and>
                    field 4 hdr MZ_ZIP64_ECDH_SIG_OFS = MZ_ZIP64_END_OF_CENTRAL_DIR_HEADER_SIG
                 then seq (upd_state (\<lambda>st. st\<lparr>m_zip64 := True\<rparr>)) (ret (Some (pBuf, Some (locator, hdr))))
                 else ret (Some (pBuf, None)))))))"

text \<open>Second part: the fields of the records, and the limits the library sets to those of ZIP64.\<close>

record dir_info =
  cdir_entries_on_this_disk :: nat
  num_this_disk :: nat
  cdir_disk_index :: nat
  cdir_size :: nat
  cdir_ofs :: nat

definition end_record_info :: "byte list \<Rightarrow> dir_info" where
  "end_record_info pBuf =
     \<lparr>cdir_entries_on_this_disk = field 2 pBuf MZ_ZIP_ECDH_CDIR_NUM_ENTRIES_ON_DISK_OFS,
      num_this_disk = field 2 pBuf MZ_ZIP_ECDH_NUM_THIS_DISK_OFS,
      cdir_disk_index = field 2 pBuf MZ_ZIP_ECDH_NUM_DISK_CDIR_OFS,
      cdir_size = field 4 pBuf MZ_ZIP_ECDH_CDIR_SIZE_OFS,
      cdir_ofs = field 4 pBuf MZ_ZIP_ECDH_CDIR_OFS_OFS\<rparr>"

definition zip64_info :: "byte list \<Rightarrow> byte list \<Rightarrow> dir_info \<Rightarrow> ('z zst_scheme, dir_info option) comp" where
  "zip64_info locator hdr d =
     (let zip64_total_num_of_disks = field 4 locator MZ_ZIP64_ECDL_TOTAL_NUMBER_OF_DISKS_OFS;
          zip64_cdir_total_entries = field 8 hdr MZ_ZIP64_ECDH_CDIR_TOTAL_ENTRIES_OFS;
          zip64_cdir_total_entries_on_this_disk = field 8 hdr MZ_ZIP64_ECDH_CDIR_NUM_ENTRIES_ON_DISK_OFS;
          zip64_size_of_end_of_central_dir_record = field 8 hdr MZ_ZIP64_ECDH_SIZE_OF_RECORD_OFS;
          zip64_size_of_central_directory = field 8 hdr MZ_ZIP64_ECDH_CDIR_SIZE_OFS
      in
      if zip64_size_of_end_of_central_dir_record < MZ_ZIP64_END_OF_CENTRAL_DIR_HEADER_SIZE - 12
      then zip_err MZ_ZIP_INVALID_HEADER_OR_CORRUPTED
      else if zip64_total_num_of_disks \<noteq> 1 then zip_err MZ_ZIP_UNSUPPORTED_MULTIDISK
      else if zip64_cdir_total_entries > MZ_UINT32_MAX then zip_err MZ_ZIP_TOO_MANY_FILES
      else
        seq (upd_arch (\<lambda>a. a\<lparr>m_total_files := zip64_cdir_total_entries\<rparr>))
        (if zip64_cdir_total_entries_on_this_disk > MZ_UINT32_MAX then zip_err MZ_ZIP_TOO_MANY_FILES
         else if zip64_size_of_central_directory > MZ_UINT32_MAX then zip_err MZ_ZIP_UNSUPPORTED_CDIR_SIZE
         else ret (Some
           \<lparr>cdir_entries_on_this_disk = zip64_cdir_total_entries_on_this_disk,
            num_this_disk = field 4 hdr MZ_ZIP64_ECDH_NUM_THIS_DISK_OFS,
            cdir_disk_index = field 4 hdr MZ_ZIP64_ECDH_NUM_DISK_CDIR_OFS,
            cdir_size = zip64_size_of_central_directory,
            cdir_ofs = field 8 hdr MZ_ZIP64_ECDH_CDIR_OFS_OFS\<rparr>)))"

definition directory_info ::
    "byte list \<Rightarrow> (byte list \<times> byte list) option \<Rightarrow> ('z zst_scheme, dir_info option) comp" where
  "directory_info pBuf z64 =
     seq (upd_arch (\<lambda>a. a\<lparr>m_total_files := field 2 pBuf MZ_ZIP_ECDH_CDIR_TOTAL_ENTRIES_OFS\<rparr>))
     (case z64 of None \<Rightarrow> ret (Some (end_record_info pBuf))
      | Some (locator, hdr) \<Rightarrow> zip64_info locator hdr (end_record_info pBuf))"

section \<open>The records of the central directory\<close>

text \<open>The search of the extra data for the ZIP64 field; \<open>None\<close> when the data is malformed.\<close>

function scan_extra :: "byte list \<Rightarrow> nat \<Rightarrow> nat \<Rightarrow> ('s, bool option) comp" where
  "scan_extra blk pExtra_data extra_size_remaining =
     (if extra_size_remaining < 4 then ret None
      else bnd (load 2 blk pExtra_data) (\<lambda>field_id. bnd (load 2 blk (pExtra_data + 2)) (\<lambda>field_data_size.
        if field_data_size + 4 > extra_size_remaining then ret None
        else if field_id = MZ_ZIP64_EXTENDED_INFORMATION_FIELD_HEADER_ID then ret (Some True)
        else if extra_size_remaining - 4 - field_data_size = 0 then ret (Some False)
        else scan_extra blk (pExtra_data + 4 + field_data_size) (extra_size_remaining - 4 - field_data_size))))"
  by pat_completeness auto
termination
  by (relation "measure (\<lambda>(blk, p, n). n)") auto

declare scan_extra.simps [simp del]

text \<open>
  What the loop does with the ZIP64 extra data of the record at \<open>p\<close>; the result is false when the
  function has to return \<open>MZ_FALSE\<close>. \<open>n\<close> is the number of bytes left from \<open>p\<close> on.
\<close>

definition check_extra :: "zenv \<Rightarrow> nat \<Rightarrow> nat \<Rightarrow> nat \<Rightarrow> nat \<Rightarrow> nat \<Rightarrow> ('z zst_scheme, bool) comp" where
  "check_extra E ofs n p filename_size ext_data_size = bnd get_state (\<lambda>st.
     bnd (if MZ_ZIP_CENTRAL_DIR_HEADER_SIZE + filename_size + ext_data_size > n
          then bnd (alloc E) (\<lambda>ok.
            if \<not> ok then zip_err MZ_ZIP_ALLOC_FAILED
            else bnd (pRead E (u64 (ofs + MZ_ZIP_CENTRAL_DIR_HEADER_SIZE + filename_size)) ext_data_size) (\<lambda>buf.
              if length buf \<noteq> ext_data_size then zip_err MZ_ZIP_FILE_READ_FAILED else ret (Some (buf, 0))))
          else ret (Some (m_p (m_central_dir st), p + MZ_ZIP_CENTRAL_DIR_HEADER_SIZE + filename_size))) (\<lambda>r.
     case r of None \<Rightarrow> ret False
     | Some (blk, pos) \<Rightarrow> bnd (scan_extra blk pos ext_data_size) (\<lambda>found.
         case found of None \<Rightarrow> mz_zip_set_error MZ_ZIP_INVALID_HEADER_OR_CORRUPTED
         | Some True \<Rightarrow>
             seq (upd_state (\<lambda>st. st\<lparr>m_zip64 := True, m_zip64_has_extended_info_fields := True\<rparr>)) (ret True)
         | Some False \<Rightarrow> ret True)))"

text \<open>The sanity checks on the record at \<open>p\<close>; the result is the size of the record.\<close>

definition check_record :: "nat \<Rightarrow> nat \<Rightarrow> nat \<Rightarrow> ('z zst_scheme, nat option) comp" where
  "check_record this_disk n p = bnd get_state (\<lambda>st. bnd (gets (\<lambda>s. m_archive_size (arch s))) (\<lambda>sz.
     let cd = m_p (m_central_dir st) in
     bnd (load 4 cd (p + MZ_ZIP_CDH_COMPRESSED_SIZE_OFS)) (\<lambda>comp_size.
     bnd (load 4 cd (p + MZ_ZIP_CDH_DECOMPRESSED_SIZE_OFS)) (\<lambda>decomp_size.
     bnd (load 4 cd (p + MZ_ZIP_CDH_METHOD_OFS)) (\<lambda>method_and_time.
     bnd (load 2 cd (p + MZ_ZIP_CDH_DISK_START_OFS)) (\<lambda>disk_index.
     bnd (load 4 cd (p + MZ_ZIP_CDH_LOCAL_HEADER_OFS)) (\<lambda>local_header_ofs.
     bnd (load 2 cd (p + MZ_ZIP_CDH_BIT_FLAG_OFS)) (\<lambda>bit_flags.
     bnd (load 2 cd (p + MZ_ZIP_CDH_FILENAME_LEN_OFS)) (\<lambda>filename_len.
     bnd (load 2 cd (p + MZ_ZIP_CDH_EXTRA_LEN_OFS)) (\<lambda>extra_len.
     bnd (load 2 cd (p + MZ_ZIP_CDH_COMMENT_LEN_OFS)) (\<lambda>comment_len.
       let total_header_size = MZ_ZIP_CENTRAL_DIR_HEADER_SIZE + filename_len + extra_len + comment_len in
       if comp_size \<noteq> MZ_UINT32_MAX \<and> decomp_size \<noteq> MZ_UINT32_MAX \<and>
          (method_and_time = 0 \<and> decomp_size \<noteq> comp_size \<or> decomp_size \<noteq> 0 \<and> comp_size = 0)
       then zip_err MZ_ZIP_INVALID_HEADER_OR_CORRUPTED
       else if disk_index = MZ_UINT16_MAX \<or> disk_index \<noteq> this_disk \<and> disk_index \<noteq> 1
       then zip_err MZ_ZIP_UNSUPPORTED_MULTIDISK
       else if comp_size \<noteq> MZ_UINT32_MAX \<and> local_header_ofs + MZ_ZIP_LOCAL_DIR_HEADER_SIZE + comp_size > sz
       then zip_err MZ_ZIP_INVALID_HEADER_OR_CORRUPTED
       else if flag_set bit_flags MZ_ZIP_GENERAL_PURPOSE_BIT_FLAG_LOCAL_DIR_IS_MASKED
       then zip_err MZ_ZIP_UNSUPPORTED_ENCRYPTION
       else if total_header_size > n then zip_err MZ_ZIP_INVALID_HEADER_OR_CORRUPTED
       else ret (Some total_header_size))))))))))))"

text \<open>The test that leads to the search of the extra data.\<close>

definition check_zip64 :: "zenv \<Rightarrow> nat \<Rightarrow> nat \<Rightarrow> nat \<Rightarrow> ('z zst_scheme, bool) comp" where
  "check_zip64 E ofs n p = bnd get_state (\<lambda>st.
     let cd = m_p (m_central_dir st) in
     bnd (load 4 cd (p + MZ_ZIP_CDH_COMPRESSED_SIZE_OFS)) (\<lambda>comp_size.
     bnd (load 4 cd (p + MZ_ZIP_CDH_DECOMPRESSED_SIZE_OFS)) (\<lambda>decomp_size.
     bnd (load 4 cd (p + MZ_ZIP_CDH_LOCAL_HEADER_OFS)) (\<lambda>local_header_ofs.
     bnd (load 2 cd (p + MZ_ZIP_CDH_FILENAME_LEN_OFS)) (\<lambda>filename_size.
     bnd (load 2 cd (p + MZ_ZIP_CDH_EXTRA_LEN_OFS)) (\<lambda>ext_data_size.
     if \<not> m_zip64_has_extended_info_fields st \<and> ext_data_size \<noteq> 0 \<and>
        max (max comp_size decomp_size) local_header_ofs = MZ_UINT32_MAX
     then check_extra E ofs n p filename_size ext_data_size
     else ret True))))))"

text \<open>The entries of the two indices for the record at \<open>p\<close>.\<close>

definition index_record :: "bool \<Rightarrow> nat \<Rightarrow> nat \<Rightarrow> ('z zst_scheme, unit) comp" where
  "index_record sort_central_dir i p = bnd get_state (\<lambda>st.
     bnd (put_elem (m_p (m_central_dir_offsets st)) i (u32 p)) (\<lambda>offs.
     bnd (if sort_central_dir then put_elem (m_p (m_sorted_central_dir_offsets st)) i i
          else ret (m_p (m_sorted_central_dir_offsets st))) (\<lambda>sorted.
     put_state (st\<lparr>m_central_dir_offsets := (m_central_dir_offsets st)\<lparr>m_p := offs\<rparr>,
       m_sorted_central_dir_offsets := (m_sorted_central_dir_offsets st)\<lparr>m_p := sorted\<rparr>\<rparr>))))"

text \<open>The loop over the records; the fourth argument counts the records that are left.\<close>

fun cdir_loop :: "zenv \<Rightarrow> bool \<Rightarrow> dir_info \<Rightarrow> nat \<Rightarrow> nat \<Rightarrow> nat \<Rightarrow> nat \<Rightarrow> ('z zst_scheme, bool) comp" where
  "cdir_loop E sort_central_dir d 0 i n p = ret True"
| "cdir_loop E sort_central_dir d (Suc k) i n p = bnd get_state (\<lambda>st.
     if n < MZ_ZIP_CENTRAL_DIR_HEADER_SIZE then mz_zip_set_error MZ_ZIP_INVALID_HEADER_OR_CORRUPTED
     else bnd (load 4 (m_p (m_central_dir st)) p) (\<lambda>sig.
     if sig \<noteq> MZ_ZIP_CENTRAL_DIR_HEADER_SIG then mz_zip_set_error MZ_ZIP_INVALID_HEADER_OR_CORRUPTED
     else seq (index_record sort_central_dir i p)
     (bnd (check_zip64 E (cdir_ofs d) n p) (\<lambda>ok.
     if \<not> ok then ret False
     else bnd (check_record (num_this_disk d) n p) (\<lambda>r.
       case r of None \<Rightarrow> ret False
       | Some total_header_size \<Rightarrow>
           cdir_loop E sort_central_dir d k (i + 1) (n - total_header_size) (p + total_header_size))))))"

text \<open>Third part of \<open>mz_zip_reader_read_central_dir\<close>: the block for the directory and the two arrays.\<close>

definition resize_arrays :: "zenv \<Rightarrow> bool \<Rightarrow> nat \<Rightarrow> nat \<Rightarrow> ('z zst_scheme, bool) comp" where
  "resize_arrays E sort_central_dir sz files =
     bnd (on_central_dir (\<lambda>a. mz_zip_array_resize E (of_nat (stale E)) a sz False)) (\<lambda>ok.
     if \<not> ok then mz_zip_set_error MZ_ZIP_ALLOC_FAILED
     else bnd (on_offsets (\<lambda>a. mz_zip_array_resize E (stale E) a files False)) (\<lambda>ok.
     if \<not> ok then mz_zip_set_error MZ_ZIP_ALLOC_FAILED
     else if \<not> sort_central_dir then ret True
     else bnd (on_sorted_offsets (\<lambda>a. mz_zip_array_resize E (stale E) a files False)) (\<lambda>ok.
     if \<not> ok then mz_zip_set_error MZ_ZIP_ALLOC_FAILED else ret True)))"

text \<open>A short read leaves the rest of the block as it was.\<close>

definition read_records :: "zenv \<Rightarrow> bool \<Rightarrow> dir_info \<Rightarrow> ('z zst_scheme, bool) comp" where
  "read_records E sort_central_dir d = bnd (gets (\<lambda>s. m_total_files (arch s))) (\<lambda>files.
     bnd (resize_arrays E sort_central_dir (cdir_size d) files) (\<lambda>ok.
     if \<not> ok then ret False
     else bnd (pRead E (cdir_ofs d) (cdir_size d)) (\<lambda>bs. bnd get_state (\<lambda>st.
       bnd (poke (m_p (m_central_dir st)) 0 bs) (\<lambda>cd.
       seq (put_state (st\<lparr>m_central_dir := (m_central_dir st)\<lparr>m_p := cd\<rparr>\<rparr>))
       (if length bs \<noteq> cdir_size d then mz_zip_set_error MZ_ZIP_FILE_READ_FAILED
        else cdir_loop E sort_central_dir d files 0 (cdir_size d) 0))))))"

definition mz_zip_reader_read_central_dir :: "zenv \<Rightarrow> nat \<Rightarrow> ('z zst_scheme, bool) comp" where
  "mz_zip_reader_read_central_dir E flags =
     (let sort_central_dir = (\<not> flag_set flags MZ_ZIP_FLAG_DO_NOT_SORT_CENTRAL_DIRECTORY) in
      bnd (read_end_records E) (\<lambda>r. case r of None \<Rightarrow> ret False | Some (pBuf, z64) \<Rightarrow>
      bnd (directory_info pBuf z64) (\<lambda>r. case r of None \<Rightarrow> ret False | Some d \<Rightarrow>
      bnd (gets arch) (\<lambda>z.
        if m_total_files z \<noteq> cdir_entries_on_this_disk d then mz_zip_set_error MZ_ZIP_UNSUPPORTED_MULTIDISK
        else if (num_this_disk d \<noteq> 0 \<or> cdir_disk_index d \<noteq> 0) \<and> (num_this_disk d \<noteq> 1 \<or> cdir_disk_index d \<noteq> 1)
        then mz_zip_set_error MZ_ZIP_UNSUPPORTED_MULTIDISK
        else if cdir_size d < u32 (m_total_files z * MZ_ZIP_CENTRAL_DIR_HEADER_SIZE)
        then mz_zip_set_error MZ_ZIP_INVALID_HEADER_OR_CORRUPTED
        else if u64 (cdir_ofs d + cdir_size d) > m_archive_size z
        then mz_zip_set_error MZ_ZIP_INVALID_HEADER_OR_CORRUPTED
        else
          seq (upd_arch (\<lambda>a. a\<lparr>m_central_directory_file_ofs := cdir_ofs d\<rparr>))
          (bnd (if m_total_files z = 0 then ret True else read_records E sort_central_dir d) (\<lambda>ok.
            if \<not> ok then ret False
            else seq (when_do sort_central_dir mz_zip_reader_sort_central_dir_offsets_by_filename) (ret True)))))))"

section \<open>Archives in memory and in files\<close>

text \<open>How every way of opening ends: an archive without a directory is closed again.\<close>

definition read_or_end :: "zenv \<Rightarrow> nat \<Rightarrow> ('z zst_scheme, bool) comp" where
  "read_or_end E flags = bnd (mz_zip_reader_read_central_dir E flags) (\<lambda>ok.
     if ok then ret True else seq (bnd (mz_zip_reader_end E) (\<lambda>_. skip)) (ret False))"

text \<open>\<open>pMem\<close> is the object the caller passes, \<open>sz\<close> the size it claims.\<close>

definition mz_zip_reader_init_mem :: "zenv \<Rightarrow> byte list option \<Rightarrow> nat \<Rightarrow> nat \<Rightarrow> ('z zst_scheme, bool) comp" where
  "mz_zip_reader_init_mem E pMem sz flags = bnd (mz_zip_reader_init_internal E) (\<lambda>ok.
     if \<not> ok then ret False
     else
       seq (upd_arch (\<lambda>a. a\<lparr>m_archive_size := sz, m_pRead := Some Mem_read_func\<rparr>))
       (seq (upd_state (\<lambda>st. st\<lparr>m_pMem := pMem, m_mem_size := sz\<rparr>))
       (read_or_end E flags)))"

definition mz_zip_reader_init_file :: "zenv \<Rightarrow> path \<Rightarrow> nat \<Rightarrow> ('z zst_scheme, bool) comp" where
  "mz_zip_reader_init_file E pFilename flags = bnd (fopen_rb E pFilename) (\<lambda>r.
     case r of None \<Rightarrow> ret False
     | Some f \<Rightarrow> bnd (fseek_end E f) (\<lambda>(ok, f).
         if \<not> ok then bnd (fclose E f) (\<lambda>_. ret False)
         else
           let file_size = spos f in
           bnd (mz_zip_reader_init_internal E) (\<lambda>ok.
             if \<not> ok then bnd (fclose E f) (\<lambda>_. ret False)
             else
               seq (upd_state (\<lambda>st. st\<lparr>m_pFile := Some f\<rparr>))
               (seq (upd_arch (\<lambda>a. a\<lparr>m_pRead := Some File_read_func, m_archive_size := file_size\<rparr>))
               (read_or_end E flags)))))"

section \<open>Queries\<close>

definition mz_zip_reader_get_num_files :: "('z zst_scheme, nat) comp" where
  "mz_zip_reader_get_num_files = gets (\<lambda>s. m_total_files (arch s))"

text \<open>The place of the record in the block of the directory, or \<open>None\<close> for a null pointer.\<close>

definition mz_zip_reader_get_cdh :: "nat \<Rightarrow> ('z zst_scheme, nat option) comp" where
  "mz_zip_reader_get_cdh file_index = bnd (gets arch) (\<lambda>z.
     case m_pState z of None \<Rightarrow> ret None
     | Some st \<Rightarrow>
         if file_index \<ge> m_total_files z \<or> m_zip_mode z \<noteq> MZ_ZIP_MODE_READING then ret None
         else bnd (elem (m_p (m_central_dir_offsets st)) file_index) (\<lambda>p. ret (Some p)))"

definition central_dir :: "('z zst_scheme, byte list) comp" where
  "central_dir = bnd get_state (\<lambda>st. ret (m_p (m_central_dir st)))"

lemma wp_central_dir [simp]: "wp central_dir Q s \<longleftrightarrow>
  (case m_pState (arch s) of None \<Rightarrow> False | Some st \<Rightarrow> Q (m_p (m_central_dir st)) s)"
  by (simp add: central_dir_def split: option.splits)

definition mz_zip_reader_is_file_encrypted :: "nat \<Rightarrow> ('z zst_scheme, bool) comp" where
  "mz_zip_reader_is_file_encrypted file_index = bnd (mz_zip_reader_get_cdh file_index) (\<lambda>r.
     case r of None \<Rightarrow> ret False
     | Some p \<Rightarrow> bnd central_dir (\<lambda>cd. bnd (load 2 cd (p + MZ_ZIP_CDH_BIT_FLAG_OFS)) (\<lambda>w. ret (flag_set w 1))))"

definition mz_zip_reader_is_file_a_directory :: "nat \<Rightarrow> ('z zst_scheme, bool) comp" where
  "mz_zip_reader_is_file_a_directory file_index = bnd (mz_zip_reader_get_cdh file_index) (\<lambda>r.
     case r of None \<Rightarrow> ret False
     | Some p \<Rightarrow> bnd central_dir (\<lambda>cd. bnd (load 2 cd (p + MZ_ZIP_CDH_FILENAME_LEN_OFS)) (\<lambda>filename_len.
         bnd (if filename_len \<noteq> 0
              then bnd (elem cd (p + MZ_ZIP_CENTRAL_DIR_HEADER_SIZE + filename_len - 1)) (\<lambda>c. ret (c = 47))
              else ret False) (\<lambda>slash.
         if slash then ret True
         else bnd (load 4 cd (p + MZ_ZIP_CDH_EXTERNAL_ATTR_OFS)) (\<lambda>external_attr.
           ret (flag_set external_attr MZ_ZIP_DOS_DIR_ATTRIBUTE_BITFLAG))))))"

text \<open>The strings are given with their terminating NUL; what the arrays hold behind it is not.\<close>

record mz_zip_archive_file_stat =
  m_file_index :: nat
  m_central_dir_ofs :: nat
  m_version_made_by :: nat
  m_version_needed :: nat
  m_bit_flag :: nat
  m_method :: nat
  m_time :: int
  m_crc32 :: nat
  m_comp_size :: nat
  m_uncomp_size :: nat
  m_internal_attr :: nat
  m_external_attr :: nat
  m_local_header_ofs :: nat
  m_comment_size :: nat
  m_filename :: "byte list"
  m_comment :: "byte list"

definition mz_zip_reader_file_stat ::
    "zenv \<Rightarrow> nat \<Rightarrow> ('z zst_scheme, mz_zip_archive_file_stat option) comp" where
  "mz_zip_reader_file_stat E file_index = bnd (mz_zip_reader_get_cdh file_index) (\<lambda>r.
     case r of None \<Rightarrow> ret None
     | Some p \<Rightarrow> bnd central_dir (\<lambda>cd.
         bnd (load 2 cd (p + MZ_ZIP_CDH_VERSION_MADE_BY_OFS)) (\<lambda>version_made_by.
         bnd (load 2 cd (p + MZ_ZIP_CDH_VERSION_NEEDED_OFS)) (\<lambda>version_needed.
         bnd (load 2 cd (p + MZ_ZIP_CDH_BIT_FLAG_OFS)) (\<lambda>bit_flag.
         bnd (load 2 cd (p + MZ_ZIP_CDH_METHOD_OFS)) (\<lambda>method.
         bnd (load 2 cd (p + MZ_ZIP_CDH_FILE_TIME_OFS)) (\<lambda>dos_time.
         bnd (load 2 cd (p + MZ_ZIP_CDH_FILE_DATE_OFS)) (\<lambda>dos_date.
         bnd (load 4 cd (p + MZ_ZIP_CDH_CRC32_OFS)) (\<lambda>crc32.
         bnd (load 4 cd (p + MZ_ZIP_CDH_COMPRESSED_SIZE_OFS)) (\<lambda>comp_size.
         bnd (load 4 cd (p + MZ_ZIP_CDH_DECOMPRESSED_SIZE_OFS)) (\<lambda>uncomp_size.
         bnd (load 2 cd (p + MZ_ZIP_CDH_INTERNAL_ATTR_OFS)) (\<lambda>internal_attr.
         bnd (load 4 cd (p + MZ_ZIP_CDH_EXTERNAL_ATTR_OFS)) (\<lambda>external_attr.
         bnd (load 4 cd (p + MZ_ZIP_CDH_LOCAL_HEADER_OFS)) (\<lambda>local_header_ofs.
         bnd (load 2 cd (p + MZ_ZIP_CDH_FILENAME_LEN_OFS)) (\<lambda>filename_len.
         bnd (load 2 cd (p + MZ_ZIP_CDH_EXTRA_LEN_OFS)) (\<lambda>extra_len.
         bnd (load 2 cd (p + MZ_ZIP_CDH_COMMENT_LEN_OFS)) (\<lambda>comment_len.
         bnd (peek (min filename_len (MZ_ZIP_MAX_ARCHIVE_FILENAME_SIZE - 1)) cd
                (p + MZ_ZIP_CENTRAL_DIR_HEADER_SIZE)) (\<lambda>filename.
         bnd (peek (min comment_len (MZ_ZIP_MAX_ARCHIVE_FILE_COMMENT_SIZE - 1)) cd
                (p + MZ_ZIP_CENTRAL_DIR_HEADER_SIZE + filename_len + extra_len)) (\<lambda>comment.
           ret (Some \<lparr>m_file_index = file_index, m_central_dir_ofs = p, m_version_made_by = version_made_by,
             m_version_needed = version_needed, m_bit_flag = bit_flag, m_method = method,
             m_time = mz_zip_dos_to_time_t E dos_time dos_date, m_crc32 = crc32, m_comp_size = comp_size,
             m_uncomp_size = uncomp_size, m_internal_attr = internal_attr, m_external_attr = external_attr,
             m_local_header_ofs = local_header_ofs,
             m_comment_size = min comment_len (MZ_ZIP_MAX_ARCHIVE_FILE_COMMENT_SIZE - 1),
             m_filename = filename @ [0], m_comment = comment @ [0]\<rparr>))))))))))))))))))))"

text \<open>The result and what is stored in \<open>pFilename\<close>, whose size is \<open>filename_buf_size\<close>.\<close>

definition mz_zip_reader_get_filename :: "nat \<Rightarrow> nat \<Rightarrow> ('z zst_scheme, nat \<times> byte list) comp" where
  "mz_zip_reader_get_filename file_index filename_buf_size = bnd (mz_zip_reader_get_cdh file_index) (\<lambda>r.
     case r of None \<Rightarrow> ret (0, if filename_buf_size \<noteq> 0 then [0] else [])
     | Some p \<Rightarrow> bnd central_dir (\<lambda>cd. bnd (load 2 cd (p + MZ_ZIP_CDH_FILENAME_LEN_OFS)) (\<lambda>n.
         if filename_buf_size \<noteq> 0
         then let n = min n (filename_buf_size - 1)
              in bnd (peek n cd (p + MZ_ZIP_CENTRAL_DIR_HEADER_SIZE)) (\<lambda>bs. ret (n + 1, bs @ [0]))
         else ret (n + 1, []))))"

subsection \<open>Looking up a name\<close>

fun equal_loop :: "byte list \<Rightarrow> nat \<Rightarrow> byte list \<Rightarrow> nat \<Rightarrow> nat \<Rightarrow> ('s, bool) comp" where
  "equal_loop A pA B pB 0 = ret True"
| "equal_loop A pA B pB (Suc n) = bnd (elem A pA) (\<lambda>a. bnd (elem B pB) (\<lambda>b.
     if tolower a \<noteq> tolower b then ret False else equal_loop A (pA + 1) B (pB + 1) n))"

definition mz_zip_reader_string_equal ::
    "byte list \<Rightarrow> byte list \<Rightarrow> nat \<Rightarrow> nat \<Rightarrow> nat \<Rightarrow> ('s, bool) comp" where
  "mz_zip_reader_string_equal pA blk pB len flags =
     (if flag_set flags MZ_ZIP_FLAG_CASE_SENSITIVE
      then bnd (peek len pA 0) (\<lambda>a. bnd (peek len blk pB) (\<lambda>b. ret (a = b)))
      else equal_loop pA 0 blk pB len)"

text \<open>\<open>r_len\<close> is the length of the name as an \<open>mz_uint\<close>, and so is the difference that becomes an \<open>int\<close>.\<close>

definition mz_zip_reader_filename_compare ::
    "byte list \<Rightarrow> nat list \<Rightarrow> nat \<Rightarrow> byte list \<Rightarrow> ('s, int) comp" where
  "mz_zip_reader_filename_compare cd offs l_index pR =
     bnd (elem offs l_index) (\<lambda>pL. bnd (load 2 cd (pL + MZ_ZIP_CDH_FILENAME_LEN_OFS)) (\<lambda>l_len.
     let r_len = u32 (length pR) in
     bnd (name_loop cd (pL + MZ_ZIP_CENTRAL_DIR_HEADER_SIZE) pR 0 (min l_len r_len)) (\<lambda>d.
     ret (case d of None \<Rightarrow> s32 (int l_len - int r_len) | Some (l, r) \<Rightarrow> int (unat l) - int (unat r)))))"

function search_loop ::
    "(nat \<Rightarrow> ('s, int) comp) \<Rightarrow> nat list \<Rightarrow> int \<Rightarrow> int \<Rightarrow> ('s, int) comp" where
  "search_loop compare pIndices l h =
     (if l > h then ret (- 1)
      else
        let m = (l + h) div 2 in
        bnd (elem pIndices (nat m)) (\<lambda>file_index. bnd (compare file_index) (\<lambda>c.
          if c = 0 then ret (int file_index)
          else if c < 0 then search_loop compare pIndices (m + 1) h
          else search_loop compare pIndices l (m - 1))))"
  by pat_completeness auto
termination
  by (relation "measure (\<lambda>(c, ixs, l, h). nat (h - l + 1))") auto

declare search_loop.simps [simp del]

definition mz_zip_reader_locate_file_binary_search :: "byte list \<Rightarrow> ('z zst_scheme, int) comp" where
  "mz_zip_reader_locate_file_binary_search pFilename = bnd get_state (\<lambda>st. bnd (gets arch) (\<lambda>z.
     search_loop (\<lambda>i. mz_zip_reader_filename_compare (m_p (m_central_dir st)) (m_p (m_central_dir_offsets st)) i pFilename)
       (m_p (m_sorted_central_dir_offsets st)) 0 (int (m_total_files z) - 1)))"

text \<open>The search for the last separator; the second argument is \<open>ofs + 1\<close>, the result the start of the last part.\<close>

fun back_to_separator :: "byte list \<Rightarrow> nat \<Rightarrow> nat \<Rightarrow> ('s, nat) comp" where
  "back_to_separator cd pFilename 0 = ret 0"
| "back_to_separator cd pFilename (Suc ofs) = bnd (elem cd (pFilename + ofs)) (\<lambda>c.
     if c \<in> {47, 92, 58} then ret (Suc ofs) else back_to_separator cd pFilename ofs)"

fun linear_search ::
    "byte list \<Rightarrow> byte list option \<Rightarrow> nat \<Rightarrow> byte list \<Rightarrow> nat list \<Rightarrow> nat \<Rightarrow> nat \<Rightarrow> ('s, int) comp" where
  "linear_search pName pComment flags cd offs 0 file_index = ret (- 1)"
| "linear_search pName pComment flags cd offs (Suc k) file_index =
     bnd (elem offs file_index) (\<lambda>pHeader.
     bnd (load 2 cd (pHeader + MZ_ZIP_CDH_FILENAME_LEN_OFS)) (\<lambda>filename_len.
     let pFilename = pHeader + MZ_ZIP_CENTRAL_DIR_HEADER_SIZE;
         next_file = linear_search pName pComment flags cd offs k (file_index + 1);
         comment = (case pComment of None \<Rightarrow> [] | Some c \<Rightarrow> c)
     in
     if filename_len < length pName then next_file
     else bnd (if comment \<noteq> []
        then bnd (load 2 cd (pHeader + MZ_ZIP_CDH_EXTRA_LEN_OFS)) (\<lambda>file_extra_len.
             bnd (load 2 cd (pHeader + MZ_ZIP_CDH_COMMENT_LEN_OFS)) (\<lambda>file_comment_len.
             if file_comment_len \<noteq> length comment then ret False
             else mz_zip_reader_string_equal comment cd (pFilename + filename_len + file_extra_len) file_comment_len flags))
        else ret True) (\<lambda>comment_matches.
     if \<not> comment_matches then next_file
     else bnd (if flag_set flags MZ_ZIP_FLAG_IGNORE_PATH \<and> filename_len \<noteq> 0
               then back_to_separator cd pFilename filename_len else ret 0) (\<lambda>ofs.
     if filename_len - ofs \<noteq> length pName then next_file
     else bnd (mz_zip_reader_string_equal pName cd (pFilename + ofs) (filename_len - ofs) flags) (\<lambda>eq.
       if eq then ret (int file_index) else next_file)))))"

definition mz_zip_reader_locate_file ::
    "byte list \<Rightarrow> byte list option \<Rightarrow> nat \<Rightarrow> ('z zst_scheme, int) comp" where
  "mz_zip_reader_locate_file pName pComment flags = bnd (gets arch) (\<lambda>z.
     case m_pState z of None \<Rightarrow> ret (- 1)
     | Some st \<Rightarrow>
         if m_zip_mode z \<noteq> MZ_ZIP_MODE_READING then ret (- 1)
         else if \<not> flag_set flags MZ_ZIP_FLAG_IGNORE_PATH \<and> \<not> flag_set flags MZ_ZIP_FLAG_CASE_SENSITIVE \<and>
                 pComment = None \<and> m_size (m_sorted_central_dir_offsets st) \<noteq> 0
         then mz_zip_reader_locate_file_binary_search pName
         else if length pName > 0xFFFF then ret (- 1)
         else if (case pComment of None \<Rightarrow> False | Some c \<Rightarrow> length c > 0xFFFF) then ret (- 1)
         else linear_search pName pComment flags (m_p (m_central_dir st)) (m_p (m_central_dir_offsets st))
                (m_total_files z) 0)"

end
