(* ===== verification/Miniz_Reader_Facts.thy ===== *)
theory Miniz_Reader_Facts
  imports Miniz_Reader
begin

text \<open>
  Specifications of the reader. \<open>readable\<close> says that the archive stands on memory of the claimed size or on an open
  stream; \<open>core\<close> is the archive without its stream, the ZIP64 flags and the last error, which is all that
  reading changes. On these two the parser of the central directory is shown never to fault, whatever
  bytes the archive has, and to leave a directory whose records lie inside its block.
\<close>

section \<open>Reading\<close>

definition core :: "'z zst_scheme \<Rightarrow> mz_zip_archive" where
  "core s = (arch s)\<lparr>m_last_error := MZ_ZIP_NO_ERROR,
     m_pState := map_option (\<lambda>st. st\<lparr>m_pFile := None, m_zip64 := False, m_zip64_has_extended_info_fields := False\<rparr>)
       (m_pState (arch s))\<rparr>"

definition mem_of :: "mz_zip_internal_state \<Rightarrow> byte list" where
  "mem_of st = (case m_pMem st of None \<Rightarrow> [] | Some mem \<Rightarrow> mem)"

definition readable :: "'z zst_scheme \<Rightarrow> bool" where
  "readable s \<longleftrightarrow> (\<exists>st. m_pState (arch s) = Some st \<and>
     (m_pRead (arch s) = Some Mem_read_func \<and> m_pFile st = None \<and> m_archive_size (arch s) \<le> length (mem_of st) \<or>
      m_pRead (arch s) = Some File_read_func \<and> (\<exists>f. m_pFile st = Some f \<and> sopen f)))"

lemma mem_of_simps [simp]: "mem_of (st\<lparr>m_pFile := f\<rparr>) = mem_of st" "mem_of (st\<lparr>m_zip64 := b\<rparr>) = mem_of st"
  "mem_of (st\<lparr>m_zip64_has_extended_info_fields := b\<rparr>) = mem_of st"
  "mem_of (st\<lparr>m_central_dir := cd\<rparr>) = mem_of st" "mem_of (st\<lparr>m_central_dir_offsets := offs\<rparr>) = mem_of st"
  "mem_of (st\<lparr>m_sorted_central_dir_offsets := offs\<rparr>) = mem_of st"
  by (simp_all add: mem_of_def)

lemma core_fields:
  assumes "core t = core s"
  shows "m_archive_size (arch t) = m_archive_size (arch s)" "m_total_files (arch t) = m_total_files (arch s)"
    "m_zip_mode (arch t) = m_zip_mode (arch s)"
    "m_central_directory_file_ofs (arch t) = m_central_directory_file_ofs (arch s)"
    "m_pRead (arch t) = m_pRead (arch s)" "m_pWrite (arch t) = m_pWrite (arch s)"
    "m_file_offset_alignment (arch t) = m_file_offset_alignment (arch s)"
proof -
  have "f (core t) = f (core s)" for f :: "mz_zip_archive \<Rightarrow> 'q" using assms by simp
  from this [of m_archive_size] this [of m_total_files] this [of m_zip_mode]
    this [of m_central_directory_file_ofs] this [of m_pRead] this [of m_pWrite] this [of m_file_offset_alignment]
  show "m_archive_size (arch t) = m_archive_size (arch s)" "m_total_files (arch t) = m_total_files (arch s)"
    "m_zip_mode (arch t) = m_zip_mode (arch s)"
    "m_central_directory_file_ofs (arch t) = m_central_directory_file_ofs (arch s)"
    "m_pRead (arch t) = m_pRead (arch s)" "m_pWrite (arch t) = m_pWrite (arch s)"
    "m_file_offset_alignment (arch t) = m_file_offset_alignment (arch s)"
    by (simp_all add: core_def)
qed

lemma core_state:
  assumes "core t = core s" and "m_pState (arch s) = Some st"
  obtains f b c where "m_pState (arch t) =
    Some (st\<lparr>m_pFile := f, m_zip64 := b, m_zip64_has_extended_info_fields := c\<rparr>)"
proof -
  have "m_pState (core t) = m_pState (core s)" using assms(1) by simp
  with assms(2) obtain st' where st': "m_pState (arch t) = Some st'"
      "st'\<lparr>m_pFile := None, m_zip64 := False, m_zip64_has_extended_info_fields := False\<rparr> =
       st\<lparr>m_pFile := None, m_zip64 := False, m_zip64_has_extended_info_fields := False\<rparr>"
    by (auto simp: core_def)
  then have "st' = st\<lparr>m_pFile := m_pFile st', m_zip64 := m_zip64 st',
      m_zip64_has_extended_info_fields := m_zip64_has_extended_info_fields st'\<rparr>"
    by (cases st, cases st') simp
  with st'(1) that show ?thesis by metis
qed

lemma readable_state:
  assumes "readable s"
  obtains st where "m_pState (arch s) = Some st"
  using assms by (auto simp: readable_def)

text \<open>Everything the reader consumes but the archive itself: answers of the environment.\<close>

definition world_ok :: "'z zst_scheme \<Rightarrow> 'z zst_scheme \<Rightarrow> bool" where
  "world_ok s t \<longleftrightarrow> disk t = disk s \<and> fs_events t = fs_events s \<and> zst.more t = zst.more s"

lemma world_ok_refl [simp]: "world_ok s s"
  by (simp add: world_ok_def)

lemma world_ok_trans: "world_ok s t \<Longrightarrow> world_ok t u \<Longrightarrow> world_ok s u"
  by (simp add: world_ok_def)

lemma wp_mem_read:
  assumes "readable s" and "m_pRead (arch s) = Some Mem_read_func"
    and "\<And>bs. length bs \<le> n \<Longrightarrow> Q bs s"
  shows "wp (mz_zip_mem_read_func ofs n) Q s"
  using assms
  by (auto simp: mz_zip_mem_read_func_def readable_def mem_of_def Let_def split: option.splits)

lemma wp_file_position:
  assumes "m_pState (arch s) = Some st" and "m_pFile st = Some f" and "sopen f"
    and "\<And>ok t f'. sopen f' \<Longrightarrow> spath f' = spath f \<Longrightarrow> swritable f' = swritable f \<Longrightarrow>
      (ok \<Longrightarrow> ofs < 2 ^ 63 \<Longrightarrow> spos f' = ofs) \<Longrightarrow>
      t = s\<lparr>ncall := ncall t, arch := (arch s)\<lparr>m_pState := Some (st\<lparr>m_pFile := Some f'\<rparr>)\<rparr>\<rparr> \<Longrightarrow> Q ok t"
  shows "wp (file_position E ofs) Q s"
proof -
  have same: "s = s\<lparr>ncall := ncall s, arch := (arch s)\<lparr>m_pState := Some (st\<lparr>m_pFile := Some f\<rparr>)\<rparr>\<rparr>"
    using assms(1,2) by simp
  have Qf: "Q False s" by (rule assms(4) [OF assms(3) _ _ _ same]) simp_all
  have Qt: "int (spos f) = s64 ofs \<Longrightarrow> Q True s" by (rule assms(4) [OF assms(3) _ _ _ same]) simp_all
  let ?s = "s\<lparr>ncall := Suc (ncall s)\<rparr>"
  have Qok: "Q True (?s\<lparr>arch := (arch s)\<lparr>m_pState := Some (st\<lparr>m_pFile := Some (f\<lparr>spos := ofs\<rparr>)\<rparr>)\<rparr>\<rparr>)"
    by (rule assms(4) [of "f\<lparr>spos := ofs\<rparr>"]) (use assms(3) in simp_all)
  have Qno: "Q False (?s\<lparr>arch := (arch s)\<lparr>m_pState := Some (st\<lparr>m_pFile := Some f\<rparr>)\<rparr>\<rparr>)"
    by (rule assms(4) [of f]) (use assms(3) in simp_all)
  show ?thesis
    using assms(1-3) Qf Qt Qok Qno
    by (auto simp: file_position_def stream_of_state_def fseek_set_def put_stream_def)
qed

lemma core_put_file:
  assumes "m_pState (arch s) = Some st"
    and "t = s\<lparr>ncall := c, arch := (arch s)\<lparr>m_pState := Some (st\<lparr>m_pFile := Some f\<rparr>)\<rparr>\<rparr>"
  shows "core t = core s" "world_ok s t" "m_pState (arch t) = Some (st\<lparr>m_pFile := Some f\<rparr>)"
    "m_pRead (arch t) = m_pRead (arch s)"
  using assms by (simp_all add: core_def world_ok_def)

lemma wp_file_read:
  assumes "readable s" and "m_pRead (arch s) = Some File_read_func"
    and "\<And>bs t. length bs \<le> n \<Longrightarrow> readable t \<Longrightarrow> core t = core s \<Longrightarrow> world_ok s t \<Longrightarrow> Q bs t"
  shows "wp (mz_zip_file_read_func E ofs n) Q s"
proof -
  obtain st f where st: "m_pState (arch s) = Some st" "m_pFile st = Some f" "sopen f"
    using assms(1,2) by (auto simp: readable_def)
  show ?thesis
    unfolding mz_zip_file_read_func_def wp_bnd
  proof (rule wp_file_position [OF st])
    fix ok t f'
    assume f': "sopen f'"
      and t: "t = s\<lparr>ncall := ncall t, arch := (arch s)\<lparr>m_pState := Some (st\<lparr>m_pFile := Some f'\<rparr>)\<rparr>\<rparr>"
    note ct = core_put_file [OF st(1) t]
    have rt: "readable t" using ct(3,4) assms(2) f' by (simp add: readable_def)
    have Qu: "Q bs u" if "length bs \<le> n" and "sopen f2"
      and u: "u = t\<lparr>ncall := c, arch := (arch t)\<lparr>m_pState := Some (st\<lparr>m_pFile := Some f2\<rparr>)\<rparr>\<rparr>" for bs u f2 c
    proof -
      have u': "u = t\<lparr>ncall := c, arch := (arch t)\<lparr>m_pState := Some ((st\<lparr>m_pFile := Some f'\<rparr>)\<lparr>m_pFile := Some f2\<rparr>)\<rparr>\<rparr>"
        by (simp add: u)
      note cu = core_put_file [OF ct(3) u']
      show ?thesis
        by (rule assms(3)) (use that(1,2) cu ct assms(2) in \<open>auto simp: readable_def intro: world_ok_trans\<close>)
    qed
    have Qp: "Q bs (t\<lparr>ncall := c, arch := (arch t)\<lparr>m_pState := Some (st\<lparr>m_pFile := Some (f'\<lparr>spos := k\<rparr>)\<rparr>)\<rparr>\<rparr>)"
      if "length bs \<le> n" for bs c k by (rule Qu [OF that, of "f'\<lparr>spos := k\<rparr>"]) (use f' in simp_all)
    have Q0: "Q bs (t\<lparr>ncall := c, arch := (arch t)\<lparr>m_pState := Some (st\<lparr>m_pFile := Some f'\<rparr>)\<rparr>\<rparr>)"
      if "length bs \<le> n" for bs c by (rule Qu [OF that f']) simp
    have "Q [] t" by (rule assms(3)) (use rt ct in simp_all)
    moreover have "wp (bnd stream_of_state (\<lambda>f. bnd (fread E f n) (\<lambda>(bs, f). seq (put_stream f) (ret bs)))) Q t"
      using ct(3) f'
      by (auto simp: stream_of_state_def fread_def put_stream_def Let_def intro!: Qp Q0 split: option.splits)
    ultimately show "wp (if \<not> ok then ret []
      else bnd stream_of_state (\<lambda>f. bnd (fread E f n) (\<lambda>(bs, f). seq (put_stream f) (ret bs)))) Q t"
      by simp
  qed
qed

text \<open>Reading an archive never faults, and changes nothing but the position of its stream.\<close>

definition reads :: "'z zst_scheme \<Rightarrow> 'z zst_scheme \<Rightarrow> bool" where
  "reads s t \<longleftrightarrow> readable t \<and> core t = core s \<and> world_ok s t"

lemma reads_refl: "readable s \<Longrightarrow> reads s s"
  by (simp add: reads_def)

lemma reads_trans: "reads s t \<Longrightarrow> reads t u \<Longrightarrow> reads s u"
  by (auto simp: reads_def intro: world_ok_trans)

lemma reads_readable: "reads s t \<Longrightarrow> readable t"
  by (simp add: reads_def)

lemma reads_fields:
  assumes "reads s t"
  shows "m_archive_size (arch t) = m_archive_size (arch s)" "m_total_files (arch t) = m_total_files (arch s)"
    "m_zip_mode (arch t) = m_zip_mode (arch s)"
    "m_central_directory_file_ofs (arch t) = m_central_directory_file_ofs (arch s)"
  using assms core_fields [of t s] by (auto simp: reads_def)

lemma reads_state:
  assumes "reads s t" and "m_pState (arch s) = Some st"
  obtains f b c where "m_pState (arch t) =
    Some (st\<lparr>m_pFile := f, m_zip64 := b, m_zip64_has_extended_info_fields := c\<rparr>)"
  using assms that by (auto simp: reads_def elim: core_state)

lemma wp_pRead:
  assumes "readable s"
    and "\<And>bs t. length bs \<le> n \<Longrightarrow> reads s t \<Longrightarrow> Q bs t"
  shows "wp (pRead E ofs n) Q s"
proof -
  have "m_pRead (arch s) = Some Mem_read_func \<or> m_pRead (arch s) = Some File_read_func"
    using assms(1) by (auto simp: readable_def)
  then show ?thesis
  proof
    assume m: "m_pRead (arch s) = Some Mem_read_func"
    have "wp (mz_zip_mem_read_func ofs n) Q s" by (rule wp_mem_read [OF assms(1) m]) (simp add: assms reads_refl)
    with m show ?thesis by (simp add: pRead_def)
  next
    assume f: "m_pRead (arch s) = Some File_read_func"
    have "wp (mz_zip_file_read_func E ofs n) Q s" by (rule wp_file_read [OF assms(1) f]) (simp add: assms(2) reads_def)
    with f show ?thesis by (simp add: pRead_def)
  qed
qed

text \<open>Recording an error or a ZIP64 flag counts as reading.\<close>

lemma reads_error: "readable s \<Longrightarrow> reads s (s\<lparr>arch := (arch s)\<lparr>m_last_error := e\<rparr>\<rparr>)"
  by (simp add: reads_def readable_def core_def world_ok_def)

lemma reads_alloc: "readable s \<Longrightarrow> reads s (s\<lparr>nalloc := n\<rparr>)"
  by (simp add: reads_def readable_def core_def world_ok_def)

lemma reads_zip64:
  assumes "readable s" and "m_pState (arch s) = Some st"
  shows "reads s (s\<lparr>arch := (arch s)\<lparr>m_pState := Some (st\<lparr>m_zip64 := b\<rparr>)\<rparr>\<rparr>)"
    and "reads s (s\<lparr>arch := (arch s)\<lparr>m_pState := Some (st\<lparr>m_zip64 := b, m_zip64_has_extended_info_fields := c\<rparr>)\<rparr>\<rparr>)"
  using assms by (simp_all add: reads_def readable_def core_def world_ok_def)

section \<open>Locating the end record\<close>

lemma int_sub64: "int (sub64 a b) = (int a - int b) mod 2 ^ 64"
proof -
  have "b mod 2 ^ 64 \<le> 2 ^ 64" by simp
  note d = of_nat_diff [OF this, where 'a = int]
  have "int (sub64 a b) = (int a + (2 ^ 64 - int b mod 2 ^ 64)) mod 2 ^ 64"
    unfolding sub64_def u64_def zmod_int of_nat_add d by simp
  also have "int a + (2 ^ 64 - int b mod 2 ^ 64) = int a - int b mod 2 ^ 64 + 2 ^ 64" by simp
  also have "(int a - int b mod 2 ^ 64 + 2 ^ 64) mod 2 ^ 64 = (int a - int b) mod 2 ^ 64" by (simp add: mod_simps)
  finally show ?thesis .
qed

lemma sub64_sub64: "sub64 a b + k < 2 ^ 64 \<Longrightarrow> sub64 a (sub64 b k) = sub64 a b + k"
proof -
  assume k: "sub64 a b + k < 2 ^ 64"
  have "int (sub64 a (sub64 b k)) = (int a - (int b - int k) mod 2 ^ 64) mod 2 ^ 64" by (simp add: int_sub64)
  also have "\<dots> = ((int a - int b) mod 2 ^ 64 + int k) mod 2 ^ 64" by (simp add: mod_simps algebra_simps)
  also have "\<dots> = int ((sub64 a b + k) mod 2 ^ 64)" by (simp add: int_sub64 zmod_int)
  finally show ?thesis using k by simp
qed

lemma wp_locate_loop:
  assumes "readable s" and "0 < fuel" and "4093 * (18 - fuel) \<le> sub64 (m_archive_size (arch s)) cur"
    and "record_size \<le> 22"
  shows "wp (locate_loop fuel E sig record_size cur) (\<lambda>r t. reads s t) s"
  using assms(1-3)
proof (induction fuel arbitrary: s cur)
  case (Suc fuel)
  let ?sz = "m_archive_size (arch s)"
  let ?n = "min 4096 (sub64 ?sz cur)"
  have "wp (pRead E cur ?n) (\<lambda>pBuf. wp (if length pBuf \<noteq> ?n then ret None
       else case scan_back (\<lambda>i. field 4 pBuf i = sig \<and> sub64 ?sz (u64 (cur + i)) \<ge> record_size) (?n - 3) of
         Some i \<Rightarrow> ret (Some (u64 (cur + i)))
       | None \<Rightarrow>
           if cur = 0 \<or> sub64 ?sz cur \<ge> MZ_UINT16_MAX + record_size then ret None
           else locate_loop fuel E sig record_size (sub64 cur (4096 - 3))) (\<lambda>r t. reads s t)) s"
  proof (rule wp_pRead [OF Suc.prems(1)])
    fix bs t
    assume rt: "reads s t"
    have "wp (locate_loop fuel E sig record_size (sub64 cur 4093)) (\<lambda>r. reads s) t"
      if "\<not> sub64 ?sz cur \<ge> 65535 + record_size"
    proof (rule wp_mono [OF Suc.IH])
      show "readable t" using rt by (rule reads_readable)
      have small: "sub64 ?sz cur < 65557" using that assms(4) by simp
      show "0 < fuel" using small Suc.prems(3) by (cases fuel) simp_all
      then have "18 - fuel = Suc (18 - Suc fuel) \<or> 18 - fuel = 0" by linarith
      then show "4093 * (18 - fuel) \<le> sub64 (m_archive_size (arch t)) (sub64 cur 4093)"
        using small Suc.prems(3) reads_fields(1) [OF rt] sub64_sub64 [of ?sz cur 4093] by auto
      show "reads t u \<Longrightarrow> reads s u" for u using rt by (rule reads_trans)
    qed
    with rt show "wp (if length bs \<noteq> ?n then ret None
       else case scan_back (\<lambda>i. field 4 bs i = sig \<and> sub64 ?sz (u64 (cur + i)) \<ge> record_size) (?n - 3) of
         Some i \<Rightarrow> ret (Some (u64 (cur + i)))
       | None \<Rightarrow>
           if cur = 0 \<or> sub64 ?sz cur \<ge> MZ_UINT16_MAX + record_size then ret None
           else locate_loop fuel E sig record_size (sub64 cur (4096 - 3))) (\<lambda>r. reads s) t"
      by (auto split: option.splits)
  qed
  then show ?case by (simp only: locate_loop.simps Let_def wp_bnd wp_gets)
qed simp

lemma wp_locate_header_sig:
  assumes "readable s" and "record_size \<le> 22"
  shows "wp (mz_zip_reader_locate_header_sig E sig record_size) (\<lambda>r t. reads s t) s"
  using assms by (auto simp: mz_zip_reader_locate_header_sig_def intro!: wp_locate_loop reads_refl)

section \<open>Computations that only read\<close>

text \<open>\<open>reading m\<close>: on every readable archive \<open>m\<close> returns and has only read.\<close>

named_theorems reading_rules \<open>computations that only read\<close>

definition reading :: "('z zst_scheme, 'a) comp \<Rightarrow> bool" where
  "reading m \<longleftrightarrow> (\<forall>s. readable s \<longrightarrow> wp m (\<lambda>r t. reads s t) s)"

lemma readingD: "reading m \<Longrightarrow> readable s \<Longrightarrow> wp m (\<lambda>r t. reads s t) s"
  by (simp add: reading_def)

lemma reading_ret [reading_rules]: "reading (ret a)"
  by (simp add: reading_def reads_refl)

lemma reading_gets [reading_rules]: "reading (gets f)"
  by (simp add: reading_def reads_refl)

lemma reading_bnd [reading_rules]:
  assumes "reading m" and "\<And>a. reading (k a)"
  shows "reading (bnd m k)"
  unfolding reading_def
proof (intro allI impI)
  fix s :: "'a zst_scheme"
  assume "readable s"
  with assms(1) have "wp m (\<lambda>r t. reads s t) s" by (rule readingD)
  then have "wp m (\<lambda>a t. wp (k a) (\<lambda>r. reads s) t) s"
  proof (rule wp_mono)
    fix a t
    assume "reads s t"
    then show "wp (k a) (\<lambda>r. reads s) t"
      by (auto intro: reads_trans wp_mono [OF readingD [OF assms(2)]] dest: reads_readable)
  qed
  then show "wp (bnd m k) (\<lambda>r. reads s) s" by simp
qed

lemma reading_seq [reading_rules]: "reading m \<Longrightarrow> reading k \<Longrightarrow> reading (seq m k)"
  by (simp add: seq_def reading_bnd)

lemma reading_if [reading_rules]: "reading m \<Longrightarrow> reading n \<Longrightarrow> reading (if b then m else n)"
  by simp

lemma reading_case_option [reading_rules]:
  "reading m \<Longrightarrow> (\<And>a. reading (k a)) \<Longrightarrow> reading (case x of None \<Rightarrow> m | Some a \<Rightarrow> k a)"
  by (cases x) simp_all

lemma reading_case_prod [reading_rules]: "(\<And>a b. reading (k a b)) \<Longrightarrow> reading (case p of (a, b) \<Rightarrow> k a b)"
  by (cases p) simp

lemma reading_pRead [reading_rules]: "reading (pRead E ofs n)"
  by (simp add: reading_def wp_pRead)

lemma reading_alloc [reading_rules]: "reading (alloc E)"
  by (simp add: reading_def reads_alloc)

lemma reading_set_error [reading_rules]: "reading (mz_zip_set_error e)"
  by (simp add: reading_def reads_error)

lemma reading_zip_err [reading_rules]: "reading (zip_err e)"
  by (simp add: reading_def reads_error)

lemma reading_zip64 [reading_rules]: "reading (upd_state (\<lambda>st. st\<lparr>m_zip64 := b\<rparr>))"
  "reading (upd_state (\<lambda>st. st\<lparr>m_zip64 := b, m_zip64_has_extended_info_fields := c\<rparr>))"
  unfolding reading_def
  by (intro allI impI, rule readable_state, assumption, simp add: reads_zip64)+

lemma reading_get_state [reading_rules]: "reading get_state"
  unfolding reading_def
  by (intro allI impI, rule readable_state, assumption, simp add: reads_refl)

lemma reading_locate [reading_rules]: "record_size \<le> 22 \<Longrightarrow> reading (mz_zip_reader_locate_header_sig E sig record_size)"
  by (simp add: reading_def wp_locate_header_sig)

lemma reading_read_end_records [reading_rules]: "reading (read_end_records E)"
  unfolding read_end_records_def Let_def by (intro reading_rules) simp

text \<open>Continuing after a step that reads.\<close>

lemma wp_reading_then:
  assumes "reading m" and "readable s" and "\<And>a t. reads s t \<Longrightarrow> wp (k a) Q t"
  shows "wp (bnd m k) Q s"
  using readingD [OF assms(1,2)] by (auto intro: assms(3) elim!: wp_mono)

section \<open>The directory\<close>

text \<open>Where the record that starts at \<open>p\<close> ends.\<close>

definition rec_end :: "byte list \<Rightarrow> nat \<Rightarrow> nat" where
  "rec_end cd p = p + MZ_ZIP_CENTRAL_DIR_HEADER_SIZE + field 2 cd (p + MZ_ZIP_CDH_FILENAME_LEN_OFS) +
     field 2 cd (p + MZ_ZIP_CDH_EXTRA_LEN_OFS) + field 2 cd (p + MZ_ZIP_CDH_COMMENT_LEN_OFS)"

text \<open>The record at \<open>p\<close> is complete, and a stored size that is not the ZIP64 mark lies inside the archive.\<close>

definition record_ok :: "nat \<Rightarrow> byte list \<Rightarrow> nat \<Rightarrow> bool" where
  "record_ok sz cd p \<longleftrightarrow> rec_end cd p \<le> length cd \<and> field 4 cd p = MZ_ZIP_CENTRAL_DIR_HEADER_SIG \<and>
     (field 4 cd (p + MZ_ZIP_CDH_COMPRESSED_SIZE_OFS) \<noteq> MZ_UINT32_MAX \<longrightarrow>
      field 4 cd (p + MZ_ZIP_CDH_LOCAL_HEADER_OFS) + MZ_ZIP_LOCAL_DIR_HEADER_SIZE +
        field 4 cd (p + MZ_ZIP_CDH_COMPRESSED_SIZE_OFS) \<le> sz)"

text \<open>The index of the first \<open>files\<close> records: complete records, one behind the other.\<close>

definition directory_ok :: "nat \<Rightarrow> byte list \<Rightarrow> nat list \<Rightarrow> nat \<Rightarrow> bool" where
  "directory_ok sz cd offs files \<longleftrightarrow> files \<le> length offs \<and>
     (\<forall>i < files. record_ok sz cd (offs ! i) \<and> offs ! i = (if i = 0 then 0 else rec_end cd (offs ! (i - 1))))"

lemma record_ok_bounds: "record_ok sz cd p \<Longrightarrow> p + 46 \<le> length cd"
  by (simp add: record_ok_def rec_end_def)

lemma wp_scan_extra:
  "pos + n \<le> length blk \<Longrightarrow> (\<And>r. Q r s) \<Longrightarrow> wp (scan_extra blk pos n) Q s"
proof (induction blk pos n rule: scan_extra.induct)
  case (1 blk pos n)
  show ?case
    by (subst scan_extra.simps) (use 1 in \<open>auto simp del: wp_load\<close>)
qed

section \<open>Parsing\<close>

text \<open>
  A stage of opening: the archive can be read, and \<open>P\<close> holds of the block of the directory and the two index arrays.
\<close>

type_synonym array_pred = "byte mz_zip_array \<Rightarrow> nat mz_zip_array \<Rightarrow> nat mz_zip_array \<Rightarrow> bool"

definition stage :: "nat \<Rightarrow> nat \<Rightarrow> array_pred \<Rightarrow> 'z zst_scheme \<Rightarrow> bool" where
  "stage sz files P t \<longleftrightarrow> readable t \<and> m_zip_mode (arch t) = MZ_ZIP_MODE_READING \<and>
     m_archive_size (arch t) = sz \<and> m_total_files (arch t) = files \<and>
     (\<exists>st. m_pState (arch t) = Some st \<and>
       P (m_central_dir st) (m_central_dir_offsets st) (m_sorted_central_dir_offsets st))"

text \<open>When opening fails the archive is still there to be closed.\<close>

definition failing :: "'z zst_scheme \<Rightarrow> bool" where
  "failing t \<longleftrightarrow> readable t \<and> m_zip_mode (arch t) = MZ_ZIP_MODE_READING"

lemma readable_upd [simp]:
  "readable (s\<lparr>arch := (arch s)\<lparr>m_total_files := n\<rparr>\<rparr>) = readable s"
  "readable (s\<lparr>arch := (arch s)\<lparr>m_last_error := e\<rparr>\<rparr>) = readable s"
  "readable (s\<lparr>arch := (arch s)\<lparr>m_total_files := n, m_last_error := e\<rparr>\<rparr>) = readable s"
  "readable (s\<lparr>arch := (arch s)\<lparr>m_central_directory_file_ofs := n\<rparr>\<rparr>) = readable s"
  by (simp_all add: readable_def)

lemma stage_reads: "stage sz files P s \<Longrightarrow> reads s t \<Longrightarrow> stage sz files P t"
  unfolding stage_def by (frule reads_readable) (auto simp: reads_fields elim!: reads_state)

lemma failing_reads: "failing s \<Longrightarrow> reads s t \<Longrightarrow> failing t"
  unfolding failing_def by (auto simp: reads_fields intro: reads_readable)

lemma stage_failing: "stage sz files P s \<Longrightarrow> failing s"
  by (simp add: stage_def failing_def)

lemma stage_mono: "stage sz files P s \<Longrightarrow> (\<And>a b c. P a b c \<Longrightarrow> Q a b c) \<Longrightarrow> stage sz files Q s"
  by (auto simp: stage_def)

lemma failing_error [simp]: "failing (s\<lparr>arch := (arch s)\<lparr>m_last_error := e\<rparr>\<rparr>) = failing s"
  by (simp add: failing_def)

lemma stage_error [simp]:
  "stage sz files P (s\<lparr>arch := (arch s)\<lparr>m_last_error := e\<rparr>\<rparr>) = stage sz files P s"
  "stage sz files P (s\<lparr>arch := (arch s)\<lparr>m_central_directory_file_ofs := n\<rparr>\<rparr>) = stage sz files P s"
  by (simp_all add: stage_def)

lemma stage_files: "stage sz files P s \<Longrightarrow> stage sz n P (s\<lparr>arch := (arch s)\<lparr>m_total_files := n\<rparr>\<rparr>)"
  by (simp add: stage_def)

lemma stage_state:
  assumes "stage sz files P s"
  obtains st where "m_pState (arch s) = Some st"
    and "P (m_central_dir st) (m_central_dir_offsets st) (m_sorted_central_dir_offsets st)"
    and "readable s" and "m_zip_mode (arch s) = MZ_ZIP_MODE_READING" and "m_archive_size (arch s) = sz"
    and "m_total_files (arch s) = files"
  using assms by (auto simp: stage_def)

lemma stage_put:
  assumes "stage sz files P s" and "m_pState (arch s) = Some st" and "t = s \<or> t = s\<lparr>nalloc := n\<rparr>"
    and "m_pFile st' = m_pFile st" and "mem_of st' = mem_of st"
    and "Q (m_central_dir st') (m_central_dir_offsets st') (m_sorted_central_dir_offsets st')"
  shows "stage sz files Q (t\<lparr>arch := (arch t)\<lparr>m_pState := Some st'\<rparr>\<rparr>)"
  using assms by (auto simp: stage_def readable_def)

lemma wp_directory_info:
  assumes "stage sz files P s"
  shows "wp (directory_info pBuf z64)
    (\<lambda>r t. (\<exists>files. stage sz files P t) \<and> (\<forall>d. r = Some d \<longrightarrow> cdir_size d < 2 ^ 32)) s"
proof (cases z64)
  case None
  with assms field4_bound [of pBuf 12] show ?thesis
    by (auto simp: directory_info_def end_record_info_def intro: stage_files)
next
  case (Some a)
  obtain loc hdr where a: "a = (loc, hdr)" by fastforce
  have "stage sz n P (s\<lparr>arch := (arch s)\<lparr>m_total_files := k, m_total_files := n\<rparr>\<rparr>)" for k n
    using assms by (simp add: stage_files)
  moreover have "stage sz n P (s\<lparr>arch := (arch s)\<lparr>m_total_files := n, m_last_error := e\<rparr>\<rparr>)" for n e
    using assms by (simp add: stage_def)
  ultimately show ?thesis
    using assms unfolding Some a directory_info_def zip64_info_def Let_def
    by (auto simp: not_less intro!: exI stage_files)
qed

lemma wp_on_central_dir_resize:
  assumes "stage sz files P s" and "\<And>a b c. P a b c \<Longrightarrow> array_ok a"
    and "\<And>ok t. stage sz files (\<lambda>a b c. \<exists>a0. P a0 b c \<and> array_ok a \<and> (ok \<longrightarrow> m_size a = n)) t \<Longrightarrow> Q ok t"
  shows "wp (on_central_dir (\<lambda>a. mz_zip_array_resize E x a n g)) Q s"
proof -
  obtain st where st: "m_pState (arch s) = Some st"
    and P: "P (m_central_dir st) (m_central_dir_offsets st) (m_sorted_central_dir_offsets st)"
    using assms(1) by (rule stage_state)
  have put: "Q ok (t\<lparr>arch := (arch t)\<lparr>m_pState := Some (st\<lparr>m_central_dir := a\<rparr>)\<rparr>\<rparr>)"
    if "t = s \<or> t = s\<lparr>nalloc := Suc (nalloc s)\<rparr>" and "array_ok a" and "ok \<Longrightarrow> m_size a = n" for ok a t
    by (rule assms(3), rule stage_put [OF assms(1) st that(1)]) (use P that(2,3) in auto)
  have "wp (mz_zip_array_resize E x (m_central_dir st) n g)
      (\<lambda>(ok, a) t. Q ok (t\<lparr>arch := (arch t)\<lparr>m_pState := Some (st\<lparr>m_central_dir := a\<rparr>)\<rparr>\<rparr>)) s"
  proof (rule wp_resize [OF assms(2) [OF P]], goal_cases)
    case (1 b t)
    then show ?case by (auto intro!: put)
  next
    case 2
    show ?case using put [of "s\<lparr>nalloc := Suc (nalloc s)\<rparr>" "m_central_dir st" False] assms(2) [OF P] by simp
  qed
  then show ?thesis using st by (simp add: on_central_dir_def case_prod_beta')
qed

lemma wp_on_offsets_resize:
  assumes "stage sz files P s" and "\<And>a b c. P a b c \<Longrightarrow> array_ok b"
    and "\<And>ok t. stage sz files (\<lambda>a b c. \<exists>b0. P a b0 c \<and> array_ok b \<and> (ok \<longrightarrow> m_size b = n)) t \<Longrightarrow> Q ok t"
  shows "wp (on_offsets (\<lambda>a. mz_zip_array_resize E x a n g)) Q s"
proof -
  obtain st where st: "m_pState (arch s) = Some st"
    and P: "P (m_central_dir st) (m_central_dir_offsets st) (m_sorted_central_dir_offsets st)"
    using assms(1) by (rule stage_state)
  have put: "Q ok (t\<lparr>arch := (arch t)\<lparr>m_pState := Some (st\<lparr>m_central_dir_offsets := a\<rparr>)\<rparr>\<rparr>)"
    if "t = s \<or> t = s\<lparr>nalloc := Suc (nalloc s)\<rparr>" and "array_ok a" and "ok \<Longrightarrow> m_size a = n" for ok a t
    by (rule assms(3), rule stage_put [OF assms(1) st that(1)]) (use P that(2,3) in auto)
  have "wp (mz_zip_array_resize E x (m_central_dir_offsets st) n g)
      (\<lambda>(ok, a) t. Q ok (t\<lparr>arch := (arch t)\<lparr>m_pState := Some (st\<lparr>m_central_dir_offsets := a\<rparr>)\<rparr>\<rparr>)) s"
  proof (rule wp_resize [OF assms(2) [OF P]], goal_cases)
    case (1 b t)
    then show ?case by (auto intro!: put)
  next
    case 2
    show ?case using put [of "s\<lparr>nalloc := Suc (nalloc s)\<rparr>" "m_central_dir_offsets st" False] assms(2) [OF P] by simp
  qed
  then show ?thesis using st by (simp add: on_offsets_def case_prod_beta')
qed

lemma wp_on_sorted_resize:
  assumes "stage sz files P s" and "\<And>a b c. P a b c \<Longrightarrow> array_ok c"
    and "\<And>ok t. stage sz files (\<lambda>a b c. \<exists>c0. P a b c0 \<and> array_ok c \<and>
      (ok \<longrightarrow> m_size c = n \<and> (m_capacity c0 = 0 \<longrightarrow> \<not> g \<longrightarrow> m_capacity c = n))) t \<Longrightarrow> Q ok t"
  shows "wp (on_sorted_offsets (\<lambda>a. mz_zip_array_resize E x a n g)) Q s"
proof -
  obtain st where st: "m_pState (arch s) = Some st"
    and P: "P (m_central_dir st) (m_central_dir_offsets st) (m_sorted_central_dir_offsets st)"
    using assms(1) by (rule stage_state)
  have put: "Q ok (t\<lparr>arch := (arch t)\<lparr>m_pState := Some (st\<lparr>m_sorted_central_dir_offsets := a\<rparr>)\<rparr>\<rparr>)"
    if "t = s \<or> t = s\<lparr>nalloc := Suc (nalloc s)\<rparr>" and "array_ok a" and "ok \<Longrightarrow> m_size a = n"
      and "ok \<Longrightarrow> m_capacity (m_sorted_central_dir_offsets st) = 0 \<Longrightarrow> \<not> g \<Longrightarrow> m_capacity a = n" for ok a t
    by (rule assms(3), rule stage_put [OF assms(1) st that(1)]) (use P that(2-4) in auto)
  have "wp (mz_zip_array_resize E x (m_sorted_central_dir_offsets st) n g)
      (\<lambda>(ok, a) t. Q ok (t\<lparr>arch := (arch t)\<lparr>m_pState := Some (st\<lparr>m_sorted_central_dir_offsets := a\<rparr>)\<rparr>\<rparr>)) s"
  proof (rule wp_resize [OF assms(2) [OF P]], goal_cases)
    case (1 b t)
    then show ?case by (auto intro!: put)
  next
    case 2
    show ?case using put [of "s\<lparr>nalloc := Suc (nalloc s)\<rparr>" "m_sorted_central_dir_offsets st" False] assms(2) [OF P] by simp
  qed
  then show ?thesis using st by (simp add: on_sorted_offsets_def case_prod_beta')
qed

text \<open>The sorted index is there when it is wanted, and its block has exactly its size.\<close>

definition whole :: "bool \<Rightarrow> nat \<Rightarrow> nat mz_zip_array \<Rightarrow> bool" where
  "whole srt files c \<longleftrightarrow> m_size c = (if srt then files else 0) \<and> (srt \<longrightarrow> m_capacity c = files)"

lemma whole_m_p [simp]: "whole srt files (c\<lparr>m_p := xs\<rparr>) = whole srt files c"
  by (simp add: whole_def)

definition sized :: "bool \<Rightarrow> nat \<Rightarrow> nat \<Rightarrow> array_pred" where
  "sized srt n files a b c \<longleftrightarrow> array_ok a \<and> array_ok b \<and> array_ok c \<and> m_size a = n \<and> m_size b = files \<and>
     whole srt files c"

definition no_arrays :: array_pred where
  "no_arrays a b c \<longleftrightarrow> a = empty_array \<and> b = empty_array \<and> c = empty_array"

lemma wp_resize_arrays:
  assumes "stage sz files no_arrays s"
  shows "wp (resize_arrays E srt n files) (\<lambda>ok t. failing t \<and> (ok \<longrightarrow> stage sz files (sized srt n files) t)) s"
  unfolding resize_arrays_def wp_bnd
proof (rule wp_on_central_dir_resize [OF assms], goal_cases)
  case 1 then show ?case by (simp add: no_arrays_def)
next
  case (2 ok t)
  note t = this
  show ?case
  proof (cases ok)
    case True
    have "wp (bnd (on_offsets (\<lambda>a. mz_zip_array_resize E (stale E) a files False)) (\<lambda>ok.
       if \<not> ok then mz_zip_set_error MZ_ZIP_ALLOC_FAILED
       else if \<not> srt then ret True
       else bnd (on_sorted_offsets (\<lambda>a. mz_zip_array_resize E (stale E) a files False)) (\<lambda>ok.
         if \<not> ok then mz_zip_set_error MZ_ZIP_ALLOC_FAILED else ret True)))
       (\<lambda>ok t. failing t \<and> (ok \<longrightarrow> stage sz files (sized srt n files) t)) t"
      unfolding wp_bnd
    proof (rule wp_on_offsets_resize [OF t], goal_cases)
      case 1 then show ?case by (auto simp: no_arrays_def)
    next
      case (2 ok2 u)
      note u = this
      have srt: "wp (bnd (on_sorted_offsets (\<lambda>a. mz_zip_array_resize E (stale E) a files False)) (\<lambda>ok.
           if \<not> ok then mz_zip_set_error MZ_ZIP_ALLOC_FAILED else ret True))
           (\<lambda>ok t. failing t \<and> (ok \<longrightarrow> stage sz files (sized srt n files) t)) u" if srt and ok2
        unfolding wp_bnd
      proof (rule wp_on_sorted_resize [OF u], goal_cases)
        case 1 then show ?case by (auto simp: no_arrays_def)
      next
        case (2 ok3 v)
        have "ok3 \<Longrightarrow> stage sz files (sized srt n files) v"
          by (rule stage_mono [OF 2]) (use that True in \<open>auto simp: sized_def whole_def no_arrays_def empty_array_def\<close>)
        with stage_failing [OF 2] show ?case by simp
      qed
      have "\<not> srt \<Longrightarrow> ok2 \<Longrightarrow> stage sz files (sized srt n files) u"
        by (rule stage_mono [OF u]) (use True in \<open>auto simp: sized_def whole_def no_arrays_def empty_array_def array_ok_def\<close>)
      with srt stage_failing [OF u] show ?case by simp
    qed
    with True show ?thesis by simp
  next
    case False
    with stage_failing [OF t] show ?thesis by simp
  qed
qed

subsection \<open>The checks on one record\<close>

lemma wp_check_extra:
  assumes "readable s" and "m_pState (arch s) = Some st"
    and "p + n \<le> length (m_p (m_central_dir st))"
  shows "wp (check_extra E ofs n p fn ext) (\<lambda>ok. reads s) s"
proof -
  let ?source = "if 46 + fn + ext > n
          then bnd (alloc E) (\<lambda>ok.
            if \<not> ok then zip_err MZ_ZIP_ALLOC_FAILED
            else bnd (pRead E (u64 (ofs + 46 + fn)) ext) (\<lambda>buf.
              if length buf \<noteq> ext then zip_err MZ_ZIP_FILE_READ_FAILED else ret (Some (buf, 0))))
          else ret (Some (m_p (m_central_dir st), p + 46 + fn))"
  have src: "wp ?source (\<lambda>r t. reads s t \<and> (\<forall>blk pos. r = Some (blk, pos) \<longrightarrow> pos + ext \<le> length blk)) s"
  proof -
    have "wp (pRead E (u64 (ofs + 46 + fn)) ext) (\<lambda>buf t. reads s t \<and>
        reads s (t\<lparr>arch := (arch t)\<lparr>m_last_error := MZ_ZIP_FILE_READ_FAILED\<rparr>\<rparr>)) (s\<lparr>nalloc := Suc (nalloc s)\<rparr>)"
    proof (rule wp_pRead)
      show "readable (s\<lparr>nalloc := Suc (nalloc s)\<rparr>)" using reads_alloc [OF assms(1)] by (rule reads_readable)
      fix bs t
      assume "reads (s\<lparr>nalloc := Suc (nalloc s)\<rparr>) t"
      with reads_alloc [OF assms(1)] have t: "reads s t" by (rule reads_trans)
      then have "reads s (t\<lparr>arch := (arch t)\<lparr>m_last_error := e\<rparr>\<rparr>)" for e
        by (rule reads_trans) (rule reads_error [OF reads_readable [OF t]])
      with t show "reads s t \<and> reads s (t\<lparr>arch := (arch t)\<lparr>m_last_error := MZ_ZIP_FILE_READ_FAILED\<rparr>\<rparr>)"
        by simp
    qed
    moreover have "reads s (s\<lparr>nalloc := Suc (nalloc s), arch := (arch s)\<lparr>m_last_error := e\<rparr>\<rparr>)" for e
      using reads_trans [OF reads_alloc [OF assms(1)] reads_error [OF reads_readable [OF reads_alloc [OF assms(1)]]]]
      by simp
    ultimately show ?thesis using assms(1,3) by (auto simp: reads_refl elim: wp_mono)
  qed
  have "wp (case r of None \<Rightarrow> ret False
     | Some (blk, pos) \<Rightarrow> bnd (scan_extra blk pos ext) (\<lambda>found.
         case found of None \<Rightarrow> mz_zip_set_error MZ_ZIP_INVALID_HEADER_OR_CORRUPTED
         | Some True \<Rightarrow>
             seq (upd_state (\<lambda>st. st\<lparr>m_zip64 := True, m_zip64_has_extended_info_fields := True\<rparr>)) (ret True)
         | Some False \<Rightarrow> ret True)) (\<lambda>ok. reads s) t"
    if t: "reads s t" and r: "\<forall>blk pos. r = Some (blk, pos) \<longrightarrow> pos + ext \<le> length blk" for r t
  proof (cases r)
    case None with t show ?thesis by simp
  next
    case (Some a)
    obtain blk pos where a: "a = (blk, pos)" by fastforce
    have found: "wp (case found of None \<Rightarrow> mz_zip_set_error MZ_ZIP_INVALID_HEADER_OR_CORRUPTED
         | Some True \<Rightarrow>
             seq (upd_state (\<lambda>st. st\<lparr>m_zip64 := True, m_zip64_has_extended_info_fields := True\<rparr>)) (ret True)
         | Some False \<Rightarrow> ret True) (\<lambda>ok. reads s) t" for found
    proof -
      have "reading (case found of None \<Rightarrow> mz_zip_set_error MZ_ZIP_INVALID_HEADER_OR_CORRUPTED
         | Some True \<Rightarrow>
             seq (upd_state (\<lambda>st. st\<lparr>m_zip64 := True, m_zip64_has_extended_info_fields := True\<rparr>)) (ret True)
         | Some False \<Rightarrow> ret True)"
        by (cases found) (auto split: bool.split intro!: reading_rules)
      from readingD [OF this reads_readable [OF t]] show ?thesis
        by (rule wp_mono) (rule reads_trans [OF t])
    qed
    have "wp (scan_extra blk pos ext) (\<lambda>found. wp (case found of None \<Rightarrow> mz_zip_set_error MZ_ZIP_INVALID_HEADER_OR_CORRUPTED
         | Some True \<Rightarrow>
             seq (upd_state (\<lambda>st. st\<lparr>m_zip64 := True, m_zip64_has_extended_info_fields := True\<rparr>)) (ret True)
         | Some False \<Rightarrow> ret True) (\<lambda>ok. reads s)) t"
      using r unfolding Some a by (intro wp_scan_extra found) simp
    then show ?thesis by (simp only: Some a option.case prod.case wp_bnd)
  qed
  then show ?thesis
    unfolding check_extra_def wp_bnd_get_state [OF assms(2)] by (intro wp_bndI [OF src]) blast
qed

lemma wp_check_zip64:
  assumes "readable s" and "m_pState (arch s) = Some st"
    and "46 \<le> n" and "p + n \<le> length (m_p (m_central_dir st))"
  shows "wp (check_zip64 E ofs n p) (\<lambda>ok. reads s) s"
  unfolding check_zip64_def wp_bnd_get_state [OF assms(2)]
  using assms wp_check_extra [OF assms(1,2,4)] by (simp add: Let_def reads_refl)

lemma wp_check_record:
  assumes "readable s" and st: "m_pState (arch s) = Some st"
    and "46 \<le> n" and "p + n \<le> length (m_p (m_central_dir st))"
    and "field 4 (m_p (m_central_dir st)) p = MZ_ZIP_CENTRAL_DIR_HEADER_SIG"
  shows "wp (check_record dn n p) (\<lambda>r t. reads s t \<and> (\<forall>h. r = Some h \<longrightarrow> 46 \<le> h \<and> h \<le> n \<and>
    p + h = rec_end (m_p (m_central_dir st)) p \<and> record_ok (m_archive_size (arch s)) (m_p (m_central_dir st)) p)) s"
  unfolding check_record_def wp_bnd_get_state [OF st] wp_bnd_gets
  using assms by (simp add: Let_def reads_refl reads_error rec_end_def record_ok_def)

subsection \<open>The loop over the records\<close>

definition indexed :: "bool \<Rightarrow> nat \<Rightarrow> byte list \<Rightarrow> nat \<Rightarrow> nat \<Rightarrow> nat \<Rightarrow> array_pred" where
  "indexed srt sz cd files i p a b c \<longleftrightarrow> array_ok a \<and> array_ok b \<and> array_ok c \<and> m_p a = cd \<and> m_size b = files \<and>
     whole srt files c \<and> directory_ok sz cd (m_p b) i \<and>
     p = (if i = 0 then 0 else rec_end cd (m_p b ! (i - 1))) \<and> (srt \<longrightarrow> (\<forall>j < i. m_p c ! j = j))"

lemma wp_index_record:
  assumes "stage sz files (indexed srt sz cd files i p) s" and "i < files" and "p < 2 ^ 32"
  shows "wp (index_record srt i p) (\<lambda>_. stage sz files (\<lambda>a b c. \<exists>b0 c0. indexed srt sz cd files i p a b0 c0 \<and>
    array_ok b \<and> array_ok c \<and> m_size b = files \<and> whole srt files c \<and>
    m_p b = (m_p b0)[i := p] \<and> (srt \<longrightarrow> (\<forall>j \<le> i. m_p c ! j = j)))) s"
proof -
  obtain st where st: "m_pState (arch s) = Some st"
    and P: "indexed srt sz cd files i p (m_central_dir st) (m_central_dir_offsets st) (m_sorted_central_dir_offsets st)"
    using assms(1) by (rule stage_state)
  have "i < length (m_p (m_central_dir_offsets st))" "srt \<Longrightarrow> i < length (m_p (m_sorted_central_dir_offsets st))"
    using P assms(2) by (auto simp: indexed_def array_ok_def whole_def)
  note len = this
  have ok: "array_ok (m_central_dir_offsets st)" "array_ok (m_sorted_central_dir_offsets st)"
    "m_size (m_central_dir_offsets st) = files" "whole srt files (m_sorted_central_dir_offsets st)"
    using P by (simp_all add: indexed_def)
  define c' where "c' = (if srt then (m_p (m_sorted_central_dir_offsets st))[i := i] else m_p (m_sorted_central_dir_offsets st))"
  let ?st = "st\<lparr>m_central_dir_offsets := (m_central_dir_offsets st)\<lparr>m_p := (m_p (m_central_dir_offsets st))[i := p]\<rparr>,
      m_sorted_central_dir_offsets := (m_sorted_central_dir_offsets st)\<lparr>m_p := c'\<rparr>\<rparr>"
  have c': "length c' = length (m_p (m_sorted_central_dir_offsets st))" "srt \<longrightarrow> (\<forall>j \<le> i. c' ! j = j)"
    using P len(2) by (auto simp: c'_def indexed_def nth_list_update)
  have "stage sz files (\<lambda>a b c. \<exists>b0 c0. indexed srt sz cd files i p a b0 c0 \<and>
    array_ok b \<and> array_ok c \<and> m_size b = files \<and> whole srt files c \<and>
    m_p b = (m_p b0)[i := p] \<and> (srt \<longrightarrow> (\<forall>j \<le> i. m_p c ! j = j))) (s\<lparr>arch := (arch s)\<lparr>m_pState := Some ?st\<rparr>\<rparr>)"
  proof (rule stage_put [OF assms(1) st])
    show "\<exists>b0 c0. indexed srt sz cd files i p (m_central_dir ?st) b0 c0 \<and>
      array_ok (m_central_dir_offsets ?st) \<and> array_ok (m_sorted_central_dir_offsets ?st) \<and>
      m_size (m_central_dir_offsets ?st) = files \<and> whole srt files (m_sorted_central_dir_offsets ?st) \<and>
      m_p (m_central_dir_offsets ?st) = (m_p b0)[i := p] \<and>
      (srt \<longrightarrow> (\<forall>j \<le> i. m_p (m_sorted_central_dir_offsets ?st) ! j = j))"
      by (rule exI [of _ "m_central_dir_offsets st"], rule exI [of _ "m_sorted_central_dir_offsets st"])
        (use P c' ok in \<open>simp add: array_ok_def\<close>)
  qed simp_all
  moreover have "wp (if srt then put_elem (m_p (m_sorted_central_dir_offsets st)) i i
      else ret (m_p (m_sorted_central_dir_offsets st))) (\<lambda>x t. x = c' \<and> t = s) s"
    using len(2) by (simp add: c'_def)
  ultimately show ?thesis
    unfolding index_record_def wp_bnd_get_state [OF st]
    using len(1) assms(3) by (auto simp: u32_def elim!: wp_mono simp del: wp_if)
qed

lemma directory_okD:
  assumes "directory_ok sz cd offs files" and "i < files"
  shows "record_ok sz cd (offs ! i)" and "offs ! i = (if i = 0 then 0 else rec_end cd (offs ! (i - 1)))"
  using assms unfolding directory_ok_def by blast+

lemma directory_ok_extend:
  assumes "directory_ok sz cd offs i" and "i < length offs" and "record_ok sz cd p"
    and "p = (if i = 0 then 0 else rec_end cd (offs ! (i - 1)))"
  shows "directory_ok sz cd (offs[i := p]) (Suc i)"
  unfolding directory_ok_def
proof (intro conjI allI impI)
  fix j
  assume j: "j < Suc i"
  show "record_ok sz cd (offs[i := p] ! j)"
    using assms(2,3) directory_okD(1) [OF assms(1), of j] j by (cases "j = i") simp_all
  show "offs[i := p] ! j = (if j = 0 then 0 else rec_end cd (offs[i := p] ! (j - 1)))"
  proof (cases "j = i")
    case True with assms(2,4) show ?thesis by simp
  next
    case False
    with j have "j < i" by simp
    with directory_okD(2) [OF assms(1) this] show ?thesis by (metis less_imp_diff_less nat_neq_iff nth_list_update_neq)
  qed
qed (use assms(2) in simp)

lemma wp_cdir_loop:
  fixes s :: "'z zst_scheme"
  assumes "stage sz files (indexed srt sz cd files i p) s" and "i + k = files"
    and "p + n \<le> length cd" and "p + n < 2 ^ 32"
  shows "wp (cdir_loop E srt d k i n p) (\<lambda>ok t. failing t \<and>
    (ok \<longrightarrow> (\<exists>p. stage sz files (indexed srt sz cd files files p) t))) s"
  using assms
proof (induction k arbitrary: s i n p)
  case 0
  then show ?case using stage_failing [OF 0(1)] by auto
next
  case (Suc k)
  obtain st where st: "m_pState (arch s) = Some st" and cd: "m_p (m_central_dir st) = cd"
    and s: "readable s" "m_archive_size (arch s) = sz"
    using Suc.prems(1) by (rule stage_state) (auto simp: indexed_def)
  note fl = stage_failing [OF Suc.prems(1)]
  have i: "i < files" using Suc.prems(2) by simp
  let ?P = "\<lambda>a b c. \<exists>b0 c0. indexed srt sz cd files i p a b0 c0 \<and> array_ok b \<and> array_ok c \<and>
    m_size b = files \<and> whole srt files c \<and>
    m_p b = (m_p b0)[i := p] \<and> (srt \<longrightarrow> (\<forall>j \<le> i. m_p c ! j = j))"
  let ?next = "\<lambda>r. case r of None \<Rightarrow> ret False
     | Some h \<Rightarrow> cdir_loop E srt d k (i + 1) (n - h) (p + h)"
  let ?Q = "\<lambda>ok t. failing t \<and> (ok \<longrightarrow> (\<exists>p. stage sz files (indexed srt sz cd files files p) t))"
  have rest: "wp (bnd (check_zip64 E (cdir_ofs d) n p) (\<lambda>ok. if \<not> ok then ret False
      else bnd (check_record (num_this_disk d) n p) ?next)) ?Q t"
    if t: "stage sz files ?P t" and n: "46 \<le> n" and sig: "field 4 cd p = MZ_ZIP_CENTRAL_DIR_HEADER_SIG" for t :: "'z zst_scheme"
  proof -
    obtain st' where st': "m_pState (arch t) = Some st'" "m_p (m_central_dir st') = cd" and rt: "readable t"
      using t by (rule stage_state) (auto simp: indexed_def)
    have pn: "p + n \<le> length (m_p (m_central_dir st'))" using Suc.prems(3) st'(2) by simp
    have rec: "wp (bnd (check_record (num_this_disk d) n p) ?next) ?Q u" if u: "stage sz files ?P u"
      for u :: "'z zst_scheme"
    proof -
      obtain st2 where st2: "m_pState (arch u) = Some st2" "m_p (m_central_dir st2) = cd" and ru: "readable u"
        and su: "m_archive_size (arch u) = sz"
        using u by (rule stage_state) (auto simp: indexed_def)
      show ?thesis
      proof (rule wp_bndI [OF wp_check_record [OF ru st2(1) n]])
        show "p + n \<le> length (m_p (m_central_dir st2))" using Suc.prems(3) st2(2) by simp
        show "field 4 (m_p (m_central_dir st2)) p = MZ_ZIP_CENTRAL_DIR_HEADER_SIG" using sig st2(2) by simp
        fix r v
        assume v: "reads u v \<and> (\<forall>h. r = Some h \<longrightarrow> 46 \<le> h \<and> h \<le> n \<and> p + h = rec_end (m_p (m_central_dir st2)) p \<and>
          record_ok (m_archive_size (arch u)) (m_p (m_central_dir st2)) p)"
        then have vs: "stage sz files ?P v" using stage_reads [OF u] by blast
        show "wp (?next r) ?Q v"
        proof (cases r)
          case None with stage_failing [OF vs] show ?thesis by simp
        next
          case (Some h)
          with v st2(2) su have h: "46 \<le> h" "h \<le> n" "p + h = rec_end cd p" "record_ok sz cd p" by simp_all
          have "stage sz files (indexed srt sz cd files (i + 1) (p + h)) v"
          proof (rule stage_mono [OF vs])
            fix a b c
            assume "?P a b c"
            then obtain b0 c0 where P: "indexed srt sz cd files i p a b0 c0" "array_ok b" "array_ok c"
              "m_size b = files" "whole srt files c" "m_p b = (m_p b0)[i := p]"
              "srt \<longrightarrow> (\<forall>j \<le> i. m_p c ! j = j)" by blast
            have ib: "i < length (m_p b0)" using P(1) i by (simp add: indexed_def array_ok_def)
            have "directory_ok sz cd ((m_p b0)[i := p]) (Suc i)"
              using P(1) ib h(4) by (intro directory_ok_extend) (simp_all add: indexed_def)
            with P ib h(3) show "indexed srt sz cd files (i + 1) (p + h) a b c"
              by (auto simp: indexed_def)
          qed
          from Suc.IH [OF this] Suc.prems(2-4) h Some show ?thesis by simp
        qed
      qed
    qed
    show ?thesis
    proof (rule wp_bndI [OF wp_check_zip64 [OF rt st'(1) n pn]])
      fix ok u
      assume "reads t u"
      then have u: "stage sz files ?P u" by (rule stage_reads [OF t])
      show "wp (if \<not> ok then ret False else bnd (check_record (num_this_disk d) n p) ?next) ?Q u"
      proof (cases ok)
        case True
        with rec [OF u] show ?thesis by (simp only: not_True_eq_False if_False)
      next
        case False
        with stage_failing [OF u] show ?thesis by simp
      qed
    qed
  qed
  have step: "wp (seq (index_record srt i p) (bnd (check_zip64 E (cdir_ofs d) n p) (\<lambda>ok. if \<not> ok then ret False
      else bnd (check_record (num_this_disk d) n p) ?next))) ?Q s"
    if n: "46 \<le> n" and sig: "field 4 cd p = MZ_ZIP_CENTRAL_DIR_HEADER_SIG"
    unfolding seq_def
  proof (rule wp_bndI [OF wp_index_record [OF Suc.prems(1) i]])
    show "p < 2 ^ 32" using Suc.prems(4) by simp
    show "wp (bnd (check_zip64 E (cdir_ofs d) n p) (\<lambda>ok. if \<not> ok then ret False
      else bnd (check_record (num_this_disk d) n p) ?next)) ?Q t" if "stage sz files ?P t" for t :: "'z zst_scheme"
      using that n sig by (rule rest)
  qed
  show ?case
  proof (cases "n < 46")
    case True
    with fl show ?thesis unfolding cdir_loop.simps wp_bnd_get_state [OF st] by simp
  next
    case False
    then have "p + 4 \<le> length (m_p (m_central_dir st))" using Suc.prems(3) cd by simp
    then show ?thesis
      unfolding cdir_loop.simps wp_bnd_get_state [OF st] load_ok [OF \<open>p + 4 \<le> _\<close>] bnd_ret cd
      using False fl step by (cases "field 4 cd p = MZ_ZIP_CENTRAL_DIR_HEADER_SIG") (simp_all del: wp_bnd wp_seq)
  qed
qed

end
