(* ===== verification/Miniz_Sorting.thy ===== *)
theory Miniz_Sorting
  imports Miniz_Reader_Facts "HOL-Library.List_Lexorder" "HOL-Library.Multiset"
begin

text \<open>
  The heap sort and the binary search of the reader are correct for every comparison that agrees with a linear order
  on keys. The comparisons the reader uses are those of the names in lower case, which the interpretations at the end show.
\<close>

section \<open>Heap sort\<close>

text \<open>
  \<open>heap_from key lo n xs\<close>: among the first \<open>n\<close> elements no child of an index from \<open>lo\<close> on has a greater key than
  its parent. \<open>heap_hole\<close>: so everywhere but at \<open>root\<close>, and the children of \<open>root\<close> stay below its parent.
\<close>

definition heap_from :: "(nat \<Rightarrow> 'k::linorder) \<Rightarrow> nat \<Rightarrow> nat \<Rightarrow> nat list \<Rightarrow> bool" where
  "heap_from key lo n xs \<longleftrightarrow> (\<forall>c < n. 0 < c \<longrightarrow> lo \<le> (c - 1) div 2 \<longrightarrow> key (xs ! c) \<le> key (xs ! ((c - 1) div 2)))"

definition heap_hole :: "(nat \<Rightarrow> 'k::linorder) \<Rightarrow> nat \<Rightarrow> nat \<Rightarrow> nat \<Rightarrow> nat list \<Rightarrow> bool" where
  "heap_hole key lo n root xs \<longleftrightarrow>
     (\<forall>c < n. 0 < c \<longrightarrow> lo \<le> (c - 1) div 2 \<longrightarrow> (c - 1) div 2 \<noteq> root \<longrightarrow> key (xs ! c) \<le> key (xs ! ((c - 1) div 2))) \<and>
     (\<forall>c < n. 0 < c \<longrightarrow> (c - 1) div 2 = root \<longrightarrow> 0 < root \<longrightarrow> lo \<le> (root - 1) div 2 \<longrightarrow>
        key (xs ! c) \<le> key (xs ! ((root - 1) div 2)))"

lemma parent_cases: "0 < c \<Longrightarrow> (c - 1) div 2 = r \<longleftrightarrow> c = 2 * r + 1 \<or> c = 2 * r + (2 :: nat)"
  by presburger

lemma heap_hole_done:
  assumes "heap_hole key lo n root xs"
    and "\<And>c. c < n \<Longrightarrow> c = 2 * root + 1 \<or> c = 2 * root + 2 \<Longrightarrow> key (xs ! c) \<le> key (xs ! root)"
  shows "heap_from key lo n xs"
  unfolding heap_from_def
proof (intro allI impI)
  fix c
  assume c: "c < n" "0 < c" "lo \<le> (c - 1) div 2"
  show "key (xs ! c) \<le> key (xs ! ((c - 1) div 2))"
  proof (cases "(c - 1) div 2 = root")
    case True
    then have "c = 2 * root + 1 \<or> c = 2 * root + 2" by (rule parent_cases [OF c(2), THEN iffD1])
    with assms(2) c(1) True show ?thesis by simp
  next
    case False
    with assms(1) c show ?thesis by (simp add: heap_hole_def)
  qed
qed

text \<open>Swapping the hole with its greatest child moves it down.\<close>

lemma heap_hole_down:
  assumes h: "heap_hole key lo n root xs" and len: "n \<le> length xs"
    and child: "child < n" "child = 2 * root + 1 \<or> child = 2 * root + 2"
    and greatest: "\<And>c. c < n \<Longrightarrow> c = 2 * root + 1 \<or> c = 2 * root + 2 \<Longrightarrow> key (xs ! c) \<le> key (xs ! child)"
    and lt: "key (xs ! root) < key (xs ! child)"
    and lo: "lo \<le> root"
  shows "heap_hole key lo n child (xs[root := xs ! child, child := xs ! root])"
proof -
  let ?ys = "xs[root := xs ! child, child := xs ! root]"
  have rc: "root < child" "root < length xs" "child < length xs" using child len by auto
  have ys: "?ys ! root = xs ! child" "?ys ! child = xs ! root" "\<And>j. j \<noteq> root \<Longrightarrow> j \<noteq> child \<Longrightarrow> ?ys ! j = xs ! j"
    using rc by (simp_all add: nth_list_update)
  have pc: "(child - 1) div 2 = root" "0 < child" using child(2) by auto
  show ?thesis
    unfolding heap_hole_def
  proof (intro conjI allI impI)
    fix c
    assume c: "c < n" "0 < c" "lo \<le> (c - 1) div 2" "(c - 1) div 2 \<noteq> child"
    let ?p = "(c - 1) div 2"
    consider "c = root" | "c = child" | "?p = root" "c \<noteq> child" "c \<noteq> root" | "?p \<noteq> root" "c \<noteq> child" "c \<noteq> root" by blast
    then show "key (?ys ! c) \<le> key (?ys ! ?p)"
    proof cases
      case 1
      then have "?p \<noteq> root" "?p \<noteq> child" using c rc(1) by auto
      moreover have "key (xs ! child) \<le> key (xs ! ((root - 1) div 2))"
        using h child(1) pc c 1 unfolding heap_hole_def by blast
      ultimately show ?thesis using 1 ys by simp
    next
      case 2
      then show ?thesis using pc(1) ys lt by simp
    next
      case 3
      then have "c = 2 * root + 1 \<or> c = 2 * root + 2" using parent_cases [OF c(2), of root] by blast
      then show ?thesis using greatest c(1) 3 ys by simp
    next
      case 4
      then have "key (xs ! c) \<le> key (xs ! ?p)" using h c unfolding heap_hole_def by blast
      then show ?thesis using 4 c(4) ys by simp
    qed
  next
    fix c
    assume c: "c < n" "0 < c" "(c - 1) div 2 = child" "0 < child" "lo \<le> (child - 1) div 2"
    moreover have "lo \<le> child" "child \<noteq> root" using rc(1) lo by simp_all
    ultimately have "key (xs ! c) \<le> key (xs ! child)" using h unfolding heap_hole_def by blast
    moreover have "c \<noteq> root" "c \<noteq> child" using c rc(1) by auto
    ultimately show "key (?ys ! c) \<le> key (?ys ! ((child - 1) div 2))" using pc(1) ys by simp
  qed
qed

lemma heap_hole_leaf: "heap_hole key lo n root xs \<Longrightarrow> n \<le> 2 * root + 1 \<Longrightarrow> heap_from key lo n xs"
  by (rule heap_hole_done) auto

lemma heap_root_greatest: "heap_from key 0 n xs \<Longrightarrow> i < n \<Longrightarrow> key (xs ! i) \<le> key (xs ! 0)"
proof (induction i rule: less_induct)
  case (less i)
  show ?case
  proof (cases "i = 0")
    case False
    then have "(i - 1) div 2 < i" by auto
    with less have "key (xs ! ((i - 1) div 2)) \<le> key (xs ! 0)" by simp
    moreover have "key (xs ! i) \<le> key (xs ! ((i - 1) div 2))"
      using less.prems False by (simp add: heap_from_def)
    ultimately show ?thesis by simp
  qed simp
qed

text \<open>Exchanging two elements is a permutation.\<close>

lemma mset_exchange: "i < length xs \<Longrightarrow> j < length xs \<Longrightarrow> mset (xs[i := xs ! j, j := xs ! i]) = mset xs"
  by (rule mset_swap)

text \<open>Opening a hole: below a heap that starts at the next index, or at the root of a heap whose root was replaced.\<close>

lemma heap_hole_start: "heap_from key (Suc root) n xs \<Longrightarrow> heap_hole key root n root xs"
  unfolding heap_hole_def heap_from_def by (auto intro: le_neq_implies_less)

lemma heap_hole_root:
  assumes "heap_from key 0 n xs" and "\<And>c. 0 < c \<Longrightarrow> c < m \<Longrightarrow> ys ! c = xs ! c" and "m \<le> n"
  shows "heap_hole key 0 m 0 ys"
  unfolding heap_hole_def
proof (intro conjI allI impI)
  fix c
  assume c: "c < m" "0 < c" "(c - 1) div 2 \<noteq> 0"
  then have "(c - 1) div 2 < m" by linarith
  moreover have "key (xs ! c) \<le> key (xs ! ((c - 1) div 2))" using assms(1,3) c by (simp add: heap_from_def)
  ultimately show "key (ys ! c) \<le> key (ys ! ((c - 1) div 2))" using assms(2) c by simp
qed simp

text \<open>
  The interface of the sort: on the indices of \<open>V\<close> the comparison returns whether the key of the first is less than
  that of the second, and changes nothing.
\<close>

locale key_order =
  fixes lower :: "nat \<Rightarrow> nat \<Rightarrow> ('s, bool) comp"
    and key :: "nat \<Rightarrow> 'k::linorder"
    and V :: "nat set"
  assumes lower: "a \<in> V \<Longrightarrow> b \<in> V \<Longrightarrow> lower a b = ret (key a < key b)"
begin

lemma sift_heap:
  assumes "set xs \<subseteq> V" and "n \<le> length xs" and "heap_hole key lo n root xs" and "lo \<le> root"
  shows "\<exists>ys. sift lower n xs root = ret ys \<and> mset ys = mset xs \<and> heap_from key lo n ys \<and>
    (\<forall>j \<ge> n. ys ! j = xs ! j)"
  using assms
proof (induction "n - root" arbitrary: xs root rule: less_induct)
  case less
  let ?c = "2 * root + 1"
  show ?case
  proof (cases "?c \<ge> n")
    case True
    with less.prems(3) show ?thesis by (auto simp: sift.simps [of lower n] intro!: heap_hole_leaf)
  next
    case False
    have V: "xs ! i \<in> V" if "i < n" for i using that less.prems(1,2) by (meson nth_mem order_less_le_trans subsetD)
    define g where "g = (?c + 1 < n \<and> key (xs ! ?c) < key (xs ! (?c + 1)))"
    define child where "child = ?c + (if g then 1 else 0)"
    have child: "child < n" "child = 2 * root + 1 \<or> child = 2 * root + 2" "root < child"
      using False by (auto simp: child_def g_def)
    have greatest: "key (xs ! c) \<le> key (xs ! child)" if "c < n" "c = 2 * root + 1 \<or> c = 2 * root + 2" for c
      using that by (auto simp: child_def g_def not_less)
    have sel: "(if ?c + 1 < n then bnd (elem xs ?c) (\<lambda>a. bnd (elem xs (?c + 1)) (\<lambda>b. lower a b)) else ret False) = ret g"
      using V [of ?c] V [of "?c + 1"] False less.prems(2) by (auto simp: lower g_def)
    have idx: "root < length xs" "child < length xs" using child less.prems(2) by auto
    have step: "sift lower n xs root = (if \<not> key (xs ! root) < key (xs ! child) then ret xs
        else sift lower n (xs[root := xs ! child, child := xs ! root]) child)"
      using False V [of root] V [OF child(1)] child(1,3) idx
      unfolding sift.simps [of lower n xs root] Let_def sel bnd_ret child_def [symmetric]
      by (simp add: lower)
    show ?thesis
    proof (cases "key (xs ! root) < key (xs ! child)")
      case True
      let ?ys = "xs[root := xs ! child, child := xs ! root]"
      have m: "mset ?ys = mset xs" using idx by (simp add: mset_exchange)
      have "\<exists>zs. sift lower n ?ys child = ret zs \<and> mset zs = mset ?ys \<and> heap_from key lo n zs \<and> (\<forall>j \<ge> n. zs ! j = ?ys ! j)"
      proof (rule less.hyps)
        show "n - child < n - root" using child by simp
        show "set ?ys \<subseteq> V" using less.prems(1) m by (metis set_mset_mset)
        show "heap_hole key lo n child ?ys"
          by (rule heap_hole_down [OF less.prems(3,2) child(1,2) greatest True less.prems(4)])
      qed (use less.prems(2,4) child(3) in simp_all)
      with True step m child show ?thesis by auto
    next
      case False
      have "heap_from key lo n xs"
      proof (rule heap_hole_done [OF less.prems(3)])
        show "key (xs ! c) \<le> key (xs ! root)" if "c < n" "c = 2 * root + 1 \<or> c = 2 * root + 2" for c
          using greatest [OF that] False by simp
      qed
      with False step show ?thesis by auto
    qed
  qed
qed

lemma build_heap_heap:
  assumes "set xs \<subseteq> V" and "n \<le> length xs" and "heap_from key start n xs"
  shows "\<exists>ys. build_heap lower n xs start = ret ys \<and> mset ys = mset xs \<and> heap_from key 0 n ys"
  using assms
proof (induction start arbitrary: xs)
  case (Suc start)
  obtain ys where ys: "sift lower n xs start = ret ys" "mset ys = mset xs" "heap_from key start n ys"
    using sift_heap [OF Suc.prems(1,2) heap_hole_start [OF Suc.prems(3)]] by blast
  have "set ys \<subseteq> V" "n \<le> length ys" using ys(2) Suc.prems(1,2) by (metis set_mset_mset, metis size_mset)
  with Suc.IH [of ys] ys show ?case by auto
qed auto

lemma drain_heap_sorted:
  assumes "set xs \<subseteq> V" and "n \<le> length xs" and "e < n" and "heap_from key 0 (Suc e) xs"
    and "\<And>i j. i \<le> j \<Longrightarrow> e < j \<Longrightarrow> j < n \<Longrightarrow> key (xs ! i) \<le> key (xs ! j)"
  shows "\<exists>ys. drain_heap lower xs e = ret ys \<and> mset ys = mset xs \<and>
    (\<forall>i j. i \<le> j \<longrightarrow> j < n \<longrightarrow> key (ys ! i) \<le> key (ys ! j))"
  using assms
proof (induction e arbitrary: xs)
  case 0
  have "key (xs ! i) \<le> key (xs ! j)" if "i \<le> j" "j < n" for i j
    using that 0(5) [of i j] by (cases "j = 0") simp_all
  then show ?case by (intro exI [of _ xs]) simp
next
  case (Suc e)
  let ?x = "xs ! Suc e" and ?y = "xs ! 0"
  let ?zs = "xs[Suc e := ?y, 0 := ?x]"
  have len: "Suc e < length xs" "0 < length xs" using Suc.prems(2,3) by auto
  have zs: "?zs ! Suc e = ?y" "?zs ! 0 = ?x" "\<And>j. j \<noteq> Suc e \<Longrightarrow> j \<noteq> 0 \<Longrightarrow> ?zs ! j = xs ! j"
    using len by (simp_all add: nth_list_update)
  have mz: "mset ?zs = mset xs" by (rule mset_exchange [OF len(1,2)])
  have "heap_hole key 0 (Suc e) 0 ?zs" by (rule heap_hole_root [OF Suc.prems(4)]) (use zs in simp_all)
  moreover have "set ?zs \<subseteq> V" using mz Suc.prems(1) by (metis set_mset_mset)
  ultimately obtain ys where ys: "sift lower (Suc e) ?zs 0 = ret ys" "mset ys = mset ?zs" "heap_from key 0 (Suc e) ys"
    "\<forall>j \<ge> Suc e. ys ! j = ?zs ! j" using sift_heap [of ?zs "Suc e" 0 0] len by auto
  have ly: "length ys = length xs" using ys(2) mz by (metis size_mset)
  have "drop (Suc e) ys = drop (Suc e) ?zs"
    by (rule nth_equalityI) (use ys(4) ly in simp_all)
  then have "mset (take (Suc e) ys) = mset (take (Suc e) ?zs)"
    using ys(2) by (metis (no_types, lifting) add_right_cancel append_take_drop_id mset_append)
  then have front: "set (take (Suc e) ys) = set (take (Suc e) ?zs)" by (metis set_mset_mset)
  have old: "\<exists>k \<le> Suc e. ys ! i = xs ! k" if "i \<le> e" for i
  proof -
    have "ys ! i \<in> set (take (Suc e) ys)" using that len ly by (auto simp: in_set_conv_nth intro!: exI [of _ i])
    then obtain k where "k < Suc e" "ys ! i = ?zs ! k" unfolding front by (auto simp: in_set_conv_nth)
    then have "ys ! i = xs ! (if k = 0 then Suc e else k)" using zs(2,3) by simp
    with \<open>k < Suc e\<close> show ?thesis by (intro exI [of _ "if k = 0 then Suc e else k"]) simp
  qed
  have tail: "key (ys ! i) \<le> key (ys ! j)" if ij: "i \<le> j" "e < j" "j < n" for i j
  proof (cases "j = Suc e")
    case True
    then have yj: "ys ! j = ?y" using ys(4) zs by simp
    show ?thesis
    proof (cases "i = j")
      case False
      with ij True obtain k where "k \<le> Suc e" "ys ! i = xs ! k" using old [of i] by auto
      with heap_root_greatest [OF Suc.prems(4), of k] yj show ?thesis by simp
    qed simp
  next
    case False
    with ij have j: "Suc e < j" by simp
    then have yj: "ys ! j = xs ! j" using ys(4) zs by simp
    obtain k where "k \<le> j" "ys ! i = xs ! k"
    proof (cases "i \<le> e")
      case True
      from old [OF this] obtain k where "k \<le> Suc e" "ys ! i = xs ! k" by blast
      with j that [of k] show ?thesis by simp
    next
      case f: False
      then have "ys ! i = ?zs ! i" using ys(4) by simp
      with f zs that [of 0] that [of i] ij j show ?thesis by (cases "i = Suc e") auto
    qed
    with Suc.prems(5) [of k j] j ij yj show ?thesis by simp
  qed
  have "set ys \<subseteq> V" using ys(2) mz Suc.prems(1) by (metis set_mset_mset)
  from Suc.IH [OF this _ _ ys(3) tail] ly Suc.prems(2,3) obtain ws where
    "drain_heap lower ys e = ret ws" "mset ws = mset ys" "\<forall>i j. i \<le> j \<longrightarrow> j < n \<longrightarrow> key (ws ! i) \<le> key (ws ! j)" by auto
  with ys mz len show ?case by auto
qed

theorem heap_sort_sorts:
  assumes "set xs \<subseteq> V" and "n \<le> length xs"
  shows "\<exists>ys. heap_sort lower n xs = ret ys \<and> mset ys = mset xs \<and>
    (\<forall>i j. i \<le> j \<longrightarrow> j < n \<longrightarrow> key (ys ! i) \<le> key (ys ! j))"
proof -
  have "heap_from key (n div 2) n xs" unfolding heap_from_def by auto
  from build_heap_heap [OF assms this] obtain ys where
    ys: "build_heap lower n xs (n div 2) = ret ys" "mset ys = mset xs" "heap_from key 0 n ys" by blast
  show ?thesis
  proof (cases "n = 0")
    case True
    with ys have "drain_heap lower ys (n - 1) = ret ys" by simp
    with True ys show ?thesis by (auto simp: heap_sort_def)
  next
    case False
    have "set ys \<subseteq> V" "n \<le> length ys" using ys(2) assms by (metis set_mset_mset, metis size_mset)
    then have "\<exists>zs. drain_heap lower ys (n - 1) = ret zs \<and> mset zs = mset ys \<and>
        (\<forall>i j. i \<le> j \<longrightarrow> j < n \<longrightarrow> key (zs ! i) \<le> key (zs ! j))"
      using False ys(3) by (intro drain_heap_sorted) simp_all
    with ys show ?thesis by (auto simp: heap_sort_def)
  qed
qed

end

section \<open>Binary search\<close>

text \<open>
  The interface of the search: the comparison with the name sought returns an integer whose sign is that of
  the key of the index against the key of the name.
\<close>

locale key_compare =
  fixes compare :: "nat \<Rightarrow> ('s, int) comp"
    and key :: "nat \<Rightarrow> 'k::linorder"
    and k :: 'k
    and V :: "nat set"
  assumes compare: "a \<in> V \<Longrightarrow> \<exists>c. compare a = ret c \<and> (c < 0 \<longleftrightarrow> key a < k) \<and> (c = 0 \<longleftrightarrow> key a = k)"
begin

lemma search_loop_finds:
  assumes "set xs \<subseteq> V" and "0 \<le> l" and "h < int (length xs)"
    and "\<And>i j. i \<le> j \<Longrightarrow> int j \<le> h \<Longrightarrow> l \<le> int i \<Longrightarrow> key (xs ! i) \<le> key (xs ! j)"
  shows "\<exists>r. search_loop compare xs l h = ret r \<and>
    (r = - 1 \<and> (\<forall>i. l \<le> int i \<longrightarrow> int i \<le> h \<longrightarrow> key (xs ! i) \<noteq> k) \<or>
     (\<exists>i. l \<le> int i \<and> int i \<le> h \<and> r = int (xs ! i) \<and> key (xs ! i) = k))"
  using assms
proof (induction "nat (h - l + 1)" arbitrary: l h rule: less_induct)
  case less
  show ?case
  proof (cases "l > h")
    case True
    then show ?thesis by (auto simp: search_loop.simps)
  next
    case False
    define m where "m = nat ((l + h) div 2)"
    have m: "(l + h) div 2 = int m" "l \<le> int m" "int m \<le> h" "m < length xs"
      using False less.prems(2,3) by (auto simp: m_def)
    then have "xs ! m \<in> V" using less.prems(1) by auto
    then obtain c where c: "compare (xs ! m) = ret c" "c < 0 \<longleftrightarrow> key (xs ! m) < k" "c = 0 \<longleftrightarrow> key (xs ! m) = k"
      using compare by blast
    have step: "search_loop compare xs l h = (if c = 0 then ret (int (xs ! m))
        else if c < 0 then search_loop compare xs (int m + 1) h else search_loop compare xs l (int m - 1))"
      using False m c(1) by (subst search_loop.simps) (simp add: Let_def)
    consider "c = 0" | "c < 0" | "c > 0" by linarith
    then show ?thesis
    proof cases
      case 1
      with step c m show ?thesis by auto
    next
      case 2
      have IH: "\<exists>r. search_loop compare xs (int m + 1) h = ret r \<and>
          (r = - 1 \<and> (\<forall>i. int m + 1 \<le> int i \<longrightarrow> int i \<le> h \<longrightarrow> key (xs ! i) \<noteq> k) \<or>
           (\<exists>i. int m + 1 \<le> int i \<and> int i \<le> h \<and> r = int (xs ! i) \<and> key (xs ! i) = k))"
        by (rule less.hyps) (use m False less.prems in auto)
      have "key (xs ! i) \<noteq> k" if "l \<le> int i" "int i \<le> int m" for i
        using less.prems(4) [of i m] that m 2 c(2) by auto
      with IH step 2 m show ?thesis by (smt (verit, best))
    next
      case 3
      have IH: "\<exists>r. search_loop compare xs l (int m - 1) = ret r \<and>
          (r = - 1 \<and> (\<forall>i. l \<le> int i \<longrightarrow> int i \<le> int m - 1 \<longrightarrow> key (xs ! i) \<noteq> k) \<or>
           (\<exists>i. l \<le> int i \<and> int i \<le> int m - 1 \<and> r = int (xs ! i) \<and> key (xs ! i) = k))"
        by (rule less.hyps) (use m False less.prems in auto)
      have "k < key (xs ! m)" using 3 c by (metis not_less_iff_gr_or_eq order_less_le)
      then have "key (xs ! i) \<noteq> k" if "int m \<le> int i" "int i \<le> h" for i
        using less.prems(4) [of m i] that m by auto
      with IH step 3 m show ?thesis by (smt (verit, best))
    qed
  qed
qed

end

text \<open>A search in which no comparison gives 0 ends with -1, in whatever order the elements are.\<close>

lemma search_loop_never:
  assumes "\<And>a. a \<in> set xs \<Longrightarrow> \<exists>c. compare a = ret c \<and> c \<noteq> 0" and "0 \<le> l" and "h < int (length xs)"
  shows "search_loop compare xs l h = ret (- 1)"
  using assms(2,3)
proof (induction "nat (h - l + 1)" arbitrary: l h rule: less_induct)
  case less
  show ?case
  proof (cases "l > h")
    case True
    then show ?thesis by (simp add: search_loop.simps)
  next
    case False
    define m where "m = nat ((l + h) div 2)"
    have m: "(l + h) div 2 = int m" "l \<le> int m" "int m \<le> h" "m < length xs"
      using False less.prems by (auto simp: m_def)
    then obtain c where c: "compare (xs ! m) = ret c" "c \<noteq> 0" using assms(1) [of "xs ! m"] by auto
    have step: "search_loop compare xs l h =
        (if c < 0 then search_loop compare xs (int m + 1) h else search_loop compare xs l (int m - 1))"
      using False m c by (subst search_loop.simps) (simp add: Let_def)
    have "search_loop compare xs (int m + 1) h = ret (- 1)" "search_loop compare xs l (int m - 1) = ret (- 1)"
      by (rule less.hyps, use m False less.prems in auto)+
    with step show ?thesis by simp
  qed
qed

end
