(* ===== verification/Miniz_Lookup.thy ===== *)
theory Miniz_Lookup
  imports Miniz_Sorting
begin

text \<open>
  Names in the central directory: the comparisons of the reader agree with the lexicographic order of the names in lower
  case. This gives the two interfaces of the sort and the search on the model's own functions, so that an archive
  opened by the reader has an index sorted by name, in which the binary search finds a name iff it is there.
\<close>

section \<open>The order on names\<close>

definition entry_name :: "byte list \<Rightarrow> nat \<Rightarrow> byte list" where
  "entry_name cd p = take (field 2 cd (p + MZ_ZIP_CDH_FILENAME_LEN_OFS)) (drop (p + MZ_ZIP_CENTRAL_DIR_HEADER_SIZE) cd)"

definition name_key :: "byte list \<Rightarrow> nat \<Rightarrow> byte list" where
  "name_key cd p = map tolower (entry_name cd p)"

text \<open>The records the comparisons may be applied to.\<close>

definition complete :: "byte list \<Rightarrow> nat list \<Rightarrow> nat set" where
  "complete cd offs = {i. i < length offs \<and> rec_end cd (offs ! i) \<le> length cd}"

fun first_diff :: "'a list \<Rightarrow> 'a list \<Rightarrow> ('a \<times> 'a) option" where
  "first_diff (x # xs) (y # ys) = (if x \<noteq> y then Some (x, y) else first_diff xs ys)"
| "first_diff xs ys = None"

lemma first_diff_take: "first_diff (take (min (length xs) (length ys)) xs) (take (min (length xs) (length ys)) ys) =
  first_diff xs ys"
  by (induction xs ys rule: first_diff.induct) auto

lemma Nil_less_iff: "([] :: 'a :: linorder list) < ys \<longleftrightarrow> ys \<noteq> []"
  by (cases ys) simp_all

lemma first_diff_less:
  "xs < ys \<longleftrightarrow> (case first_diff xs ys of None \<Rightarrow> length xs < length ys | Some (l, r) \<Rightarrow> l < (r :: 'a :: linorder))"
proof (induction xs ys rule: first_diff.induct)
  case (1 x xs y ys)
  then show ?case by (cases "x = y"; cases "first_diff xs ys") auto
qed (simp_all add: Nil_less_iff)

lemma first_diff_eq: "xs = ys \<longleftrightarrow> first_diff xs ys = None \<and> length xs = length ys"
  by (induction xs ys rule: first_diff.induct) auto

lemma first_diff_neq: "first_diff xs ys = Some (l, r) \<Longrightarrow> l \<noteq> r"
  by (induction xs ys rule: first_diff.induct) (auto split: if_splits)

lemma name_loop_diff:
  "pL + n \<le> length L \<Longrightarrow> pR + n \<le> length R \<Longrightarrow>
   name_loop L pL R pR n = ret (first_diff (map tolower (take n (drop pL L))) (map tolower (take n (drop pR R))))"
proof (induction n arbitrary: pL pR)
  case (Suc n)
  then have "take (Suc n) (drop pL L) = L ! pL # take n (drop (pL + 1) L)"
    "take (Suc n) (drop pR R) = R ! pR # take n (drop (pR + 1) R)"
    by (simp_all add: Cons_nth_drop_Suc [symmetric])
  with Suc show ?case by simp
qed simp

lemma complete_entry:
  assumes "i \<in> complete cd offs"
  shows "i < length offs" "offs ! i + 46 \<le> length cd"
    "offs ! i + 46 + field 2 cd (offs ! i + 28) \<le> length cd"
    "length (entry_name cd (offs ! i)) = field 2 cd (offs ! i + 28)"
  using assms by (auto simp: complete_def rec_end_def entry_name_def)

lemma name_loop_keys:
  assumes "length L' = l" and "length R' = r" and "take l (drop pL L) = L'" and "take r (drop pR R) = R'"
    and "pL + l \<le> length L" and "pR + r \<le> length R"
  shows "name_loop L pL R pR (min l r) = ret (first_diff (map tolower L') (map tolower R'))"
proof -
  have "take (min l r) (drop pL L) = take (min l r) L'" "take (min l r) (drop pR R) = take (min l r) R'"
    using assms(3,4) by (metis min.cobounded1 min_def take_take, metis min.cobounded2 min.commute min_def take_take)
  then show ?thesis
    using assms(1,2,5,6) first_diff_take [of "map tolower L'" "map tolower R'"]
    by (simp add: name_loop_diff take_map)
qed

interpretation name_order: key_order "mz_zip_reader_filename_less cd offs" "\<lambda>i. name_key cd (offs ! i)" "complete cd offs"
  for cd offs
proof
  fix a b
  assume "a \<in> complete cd offs" "b \<in> complete cd offs"
  note ab = complete_entry [OF this(1)] complete_entry [OF this(2)]
  have l: "name_loop cd (offs ! a + 46) cd (offs ! b + 46) (min (field 2 cd (offs ! a + 28)) (field 2 cd (offs ! b + 28))) =
      ret (first_diff (name_key cd (offs ! a)) (name_key cd (offs ! b)))"
    unfolding name_key_def by (rule name_loop_keys) (use ab in \<open>simp_all add: entry_name_def\<close>)
  show "mz_zip_reader_filename_less cd offs a b = ret (name_key cd (offs ! a) < name_key cd (offs ! b))"
    using ab unfolding first_diff_less [of "name_key cd (offs ! a)"]
    by (simp add: mz_zip_reader_filename_less_def l name_key_def cong: option.case_cong)
qed

interpretation name_search: key_compare "\<lambda>i. mz_zip_reader_filename_compare cd offs i name"
    "\<lambda>i. name_key cd (offs ! i)" "map tolower name" "{i \<in> complete cd offs. length name < 2 ^ 31}"
  for cd offs name
proof
  fix a
  assume "a \<in> {i \<in> complete cd offs. length name < 2 ^ 31}"
  then have ac: "a \<in> complete cd offs" and n: "length name < 2 ^ 31" by simp_all
  note a = complete_entry [OF ac]
  have u: "u32 (length name) = length name" using n by simp
  have "field 2 cd (offs ! a + 28) < 65536" by (rule field2_bound)
  then have s: "s32 (int (field 2 cd (offs ! a + 28)) - int (length name)) = int (field 2 cd (offs ! a + 28)) - int (length name)"
    using n by (simp add: s32_def)
  define d where "d = first_diff (name_key cd (offs ! a)) (map tolower name)"
  have l: "name_loop cd (offs ! a + 46) name 0 (min (field 2 cd (offs ! a + 28)) (length name)) = ret d"
    unfolding name_key_def d_def by (rule name_loop_keys) (use a in \<open>simp_all add: entry_name_def\<close>)
  have c: "mz_zip_reader_filename_compare cd offs a name =
      ret (case d of None \<Rightarrow> int (length (name_key cd (offs ! a))) - int (length name)
           | Some (l, r) \<Rightarrow> int (unat l) - int (unat r))"
    using a by (simp add: mz_zip_reader_filename_compare_def l u s name_key_def cong: option.case_cong)
  have eq: "name_key cd (offs ! a) = map tolower name \<longleftrightarrow> d = None \<and> length (name_key cd (offs ! a)) = length name"
    unfolding d_def by (subst first_diff_eq) simp
  have less: "name_key cd (offs ! a) < map tolower name \<longleftrightarrow>
      (case d of None \<Rightarrow> length (name_key cd (offs ! a)) < length name | Some (l, r) \<Rightarrow> l < r)"
    unfolding d_def by (subst first_diff_less) (simp cong: option.case_cong)
  show "\<exists>c. mz_zip_reader_filename_compare cd offs a name = ret c \<and>
      (c < 0 \<longleftrightarrow> name_key cd (offs ! a) < map tolower name) \<and> (c = 0 \<longleftrightarrow> name_key cd (offs ! a) = map tolower name)"
  proof (cases d)
    case None
    then show ?thesis
      by (intro exI [of _ "int (length (name_key cd (offs ! a))) - int (length name)"]) (simp add: c eq less)
  next
    case (Some lr)
    obtain l r where lr: "lr = (l, r)" by fastforce
    with Some have "l \<noteq> r" by (metis d_def first_diff_neq)
    then have "unat l \<noteq> unat r" by (simp add: word_unat_eq_iff)
    with Some lr show ?thesis
      by (intro exI [of _ "int (unat l) - int (unat r)"]) (simp add: c eq less word_less_nat_alt del: of_nat_unat)
  qed
qed

text \<open>A name of 2 GiB or more differs from every name in the directory, and the comparison shows it: below 4 GiB its length
  is not cut, and only the sign of the difference of lengths may be wrong.\<close>

lemma compare_long_name:
  assumes "a \<in> complete cd offs" and "65536 \<le> length name" and "length name < 2 ^ 32"
  shows "\<exists>c. mz_zip_reader_filename_compare cd offs a name = ret c \<and> c \<noteq> 0"
    and "name_key cd (offs ! a) \<noteq> map tolower name"
proof -
  note a = complete_entry [OF assms(1)]
  have u: "u32 (length name) = length name" using assms(3) by (simp add: u32_def)
  have f: "field 2 cd (offs ! a + 28) < 65536" by (rule field2_bound)
  define x where "x = int (field 2 cd (offs ! a + 28)) - int (length name)"
  have x: "x < 0" "- (2 ^ 32) < x" using assms(2,3) f by (simp_all add: x_def)
  have s: "s32 x \<noteq> 0"
  proof
    assume "s32 x = 0"
    then have "(x + 2147483648) mod 4294967296 = 2147483648" by (simp add: s32_def)
    then have "(4294967296 :: int) dvd x + 2147483648 - 2147483648"
      by (metis dvd_minus_mod)
    then obtain k where "x = 4294967296 * k" by (auto elim: dvdE)
    then show False using x by simp
  qed
  define d where "d = first_diff (name_key cd (offs ! a)) (map tolower name)"
  have l: "name_loop cd (offs ! a + 46) name 0 (min (field 2 cd (offs ! a + 28)) (length name)) = ret d"
    unfolding name_key_def d_def by (rule name_loop_keys) (use a in \<open>simp_all add: entry_name_def\<close>)
  have c: "mz_zip_reader_filename_compare cd offs a name =
      ret (case d of None \<Rightarrow> s32 x | Some (l, r) \<Rightarrow> int (unat l) - int (unat r))"
    using a by (simp add: mz_zip_reader_filename_compare_def l u x_def cong: option.case_cong)
  show "\<exists>c. mz_zip_reader_filename_compare cd offs a name = ret c \<and> c \<noteq> 0"
  proof (cases d)
    case None
    with c s show ?thesis by auto
  next
    case (Some lr)
    obtain l r where lr: "lr = (l, r)" by fastforce
    with Some have "l \<noteq> r" by (metis d_def first_diff_neq)
    then have "int (unat l) - int (unat r) \<noteq> 0" by (simp add: word_uint_eq_iff)
    with c Some lr show ?thesis by auto
  qed
  have "length (name_key cd (offs ! a)) < length name" using a f assms(2) by (simp add: name_key_def)
  then show "name_key cd (offs ! a) \<noteq> map tolower name" by (metis length_map less_irrefl)
qed

lemma directory_length: "directory_ok sz cd offs files \<Longrightarrow> files \<le> length offs"
  unfolding directory_ok_def by (rule conjunct1)

lemma directory_complete: "directory_ok sz cd offs files \<Longrightarrow> i < files \<Longrightarrow> i \<in> complete cd offs"
  using directory_okD(1) [of sz cd offs files i] directory_length [of sz cd offs files]
  by (simp add: complete_def record_ok_def)

end
