(* ===== verification/Miniz_Open.thy ===== *)
theory Miniz_Open
  imports Miniz_Lookup
begin

text \<open>
  Opening an archive: whatever bytes the archive has and whatever the environment answers, the reader returns, and an
  archive it accepts has a directory of complete records and an index sorted by name.
\<close>

section \<open>The index\<close>

definition sorted_index :: "byte list \<Rightarrow> nat list \<Rightarrow> nat \<Rightarrow> nat list \<Rightarrow> bool" where
  "sorted_index cd offs files ixs \<longleftrightarrow> mset ixs = mset [0..<files] \<and>
     (\<forall>i j. i \<le> j \<longrightarrow> j < files \<longrightarrow> name_key cd (offs ! (ixs ! i)) \<le> name_key cd (offs ! (ixs ! j)))"

definition indices :: "bool \<Rightarrow> nat \<Rightarrow> nat \<Rightarrow> array_pred" where
  "indices srt sz files a b c \<longleftrightarrow> array_ok a \<and> array_ok b \<and> array_ok c \<and> m_size b = files \<and>
     directory_ok sz (m_p a) (m_p b) files \<and>
     whole srt files c \<and> (srt \<longrightarrow> sorted_index (m_p a) (m_p b) files (m_p c))"

definition presorted :: "bool \<Rightarrow> nat \<Rightarrow> nat \<Rightarrow> array_pred" where
  "presorted srt sz files a b c \<longleftrightarrow> array_ok a \<and> array_ok b \<and> array_ok c \<and> m_size b = files \<and>
     directory_ok sz (m_p a) (m_p b) files \<and> whole srt files c \<and> (srt \<longrightarrow> m_p c = [0..<files])"

lemma indexed_presorted: "indexed srt sz cd files files p a b c \<Longrightarrow> presorted srt sz files a b c"
  by (auto simp: indexed_def presorted_def whole_def array_ok_def intro!: nth_equalityI)

lemma no_arrays_presorted: "no_arrays a b c \<Longrightarrow> presorted srt sz 0 a b c"
  by (auto simp: no_arrays_def presorted_def whole_def empty_array_def array_ok_def directory_ok_def)

lemma sorted_index_upt:
  assumes "directory_ok sz cd offs files"
  obtains ys where "heap_sort (mz_zip_reader_filename_less cd offs) files [0..<files] = (ret ys :: ('s, nat list) comp)"
    and "sorted_index cd offs files ys"
proof -
  have "set [0..<files] \<subseteq> complete cd offs" using directory_complete [OF assms] by auto
  then have "\<exists>ys. heap_sort (mz_zip_reader_filename_less cd offs) files [0..<files] = (ret ys :: ('s, nat list) comp) \<and>
      mset ys = mset [0..<files] \<and>
      (\<forall>i j. i \<le> j \<longrightarrow> j < files \<longrightarrow> name_key cd (offs ! (ys ! i)) \<le> name_key cd (offs ! (ys ! j)))"
    by (rule name_order.heap_sort_sorts) simp
  with that show ?thesis unfolding sorted_index_def by blast
qed

lemma wp_sort:
  fixes s :: "'z zst_scheme"
  assumes "stage sz files (presorted True sz files) s"
  shows "wp mz_zip_reader_sort_central_dir_offsets_by_filename (\<lambda>_. stage sz files (indices True sz files)) s"
proof -
  obtain st where st: "m_pState (arch s) = Some st" "m_total_files (arch s) = files"
    and P: "presorted True sz files (m_central_dir st) (m_central_dir_offsets st) (m_sorted_central_dir_offsets st)"
    using assms by (rule stage_state)
  have dir: "directory_ok sz (m_p (m_central_dir st)) (m_p (m_central_dir_offsets st)) files"
    using P by (simp add: presorted_def)
  obtain ys where ys: "heap_sort (mz_zip_reader_filename_less (m_p (m_central_dir st)) (m_p (m_central_dir_offsets st)))
      files [0..<files] = (ret ys :: ('z zst_scheme, nat list) comp)"
    "sorted_index (m_p (m_central_dir st)) (m_p (m_central_dir_offsets st)) files ys"
    by (rule sorted_index_upt [OF dir])
  have len: "length ys = files" using ys(2) by (metis diff_zero length_upt mset_eq_length sorted_index_def)
  have "stage sz files (indices True sz files) (s\<lparr>arch := (arch s)\<lparr>m_pState := Some
      (st\<lparr>m_sorted_central_dir_offsets := (m_sorted_central_dir_offsets st)\<lparr>m_p := ys\<rparr>\<rparr>)\<rparr>\<rparr>)"
    by (rule stage_put [OF assms st(1)])
      (use P ys(2) len in \<open>simp_all add: indices_def presorted_def whole_def array_ok_def\<close>)
  moreover have "m_p (m_sorted_central_dir_offsets st) = [0..<files]" using P by (simp add: presorted_def)
  ultimately show ?thesis
    using st by (simp add: mz_zip_reader_sort_central_dir_offsets_by_filename_def ys(1))
qed

section \<open>Parsing the directory\<close>

lemma wp_read_records:
  fixes s :: "'z zst_scheme"
  assumes "stage sz files no_arrays s" and "cdir_size d < 2 ^ 32"
  shows "wp (read_records E srt d) (\<lambda>ok t. failing t \<and> (ok \<longrightarrow> stage sz files (presorted srt sz files) t)) s"
proof -
  let ?Q = "\<lambda>ok t. failing t \<and> (ok \<longrightarrow> stage sz files (presorted srt sz files) t)"
  let ?sized = "sized srt (cdir_size d) files"
  define store where "store = (\<lambda>bs. bnd get_state (\<lambda>st. bnd (poke (m_p (m_central_dir st)) 0 bs) (\<lambda>cd.
       seq (put_state (st\<lparr>m_central_dir := (m_central_dir st)\<lparr>m_p := cd\<rparr>\<rparr>))
       (if length bs \<noteq> cdir_size d then mz_zip_set_error MZ_ZIP_FILE_READ_FAILED
        else cdir_loop E srt d files 0 (cdir_size d) 0 :: ('z zst_scheme, bool) comp))))"
  have store: "wp (store bs) ?Q t" if t: "stage sz files ?sized t" and bs: "length bs \<le> cdir_size d"
    for bs and t :: "'z zst_scheme"
  proof -
    obtain st where st: "m_pState (arch t) = Some st"
      and P: "?sized (m_central_dir st) (m_central_dir_offsets st) (m_sorted_central_dir_offsets st)"
      using t by (rule stage_state)
    let ?cd = "overwrite (m_p (m_central_dir st)) 0 bs"
    have len: "cdir_size d \<le> length (m_p (m_central_dir st))" using P by (auto simp: sized_def array_ok_def)
    let ?u = "t\<lparr>arch := (arch t)\<lparr>m_pState := Some (st\<lparr>m_central_dir := (m_central_dir st)\<lparr>m_p := ?cd\<rparr>\<rparr>)\<rparr>\<rparr>"
    have u: "stage sz files (indexed srt sz ?cd files 0 0) ?u"
      by (rule stage_put [OF t st])
        (use P len bs in \<open>simp_all add: indexed_def sized_def array_ok_def directory_ok_def\<close>)
    have "wp (cdir_loop E srt d files 0 (cdir_size d) 0) ?Q ?u"
      by (rule wp_mono [OF wp_cdir_loop [OF u]])
        (use len bs assms(2) in \<open>auto elim: stage_mono intro: indexed_presorted\<close>)
    then show ?thesis using st len bs stage_failing [OF u] failing_error [where s = ?u and e = MZ_ZIP_FILE_READ_FAILED]
      by (simp add: store_def)
  qed
  have "wp (resize_arrays E srt (cdir_size d) files) (\<lambda>ok. wp (if \<not> ok then ret False
      else bnd (pRead E (cdir_ofs d) (cdir_size d)) store) ?Q) s"
  proof (rule wp_mono [OF wp_resize_arrays [OF assms(1)]], elim conjE)
    fix ok and t :: "'z zst_scheme"
    assume fl: "failing t" and t: "ok \<longrightarrow> stage sz files ?sized t"
    show "wp (if \<not> ok then ret False else bnd (pRead E (cdir_ofs d) (cdir_size d)) store) ?Q t"
    proof (cases ok)
      case True
      have "readable t" using fl by (simp add: failing_def)
      then have "wp (pRead E (cdir_ofs d) (cdir_size d)) (\<lambda>bs. wp (store bs) ?Q) t"
        by (rule wp_pRead) (use t True in \<open>auto intro!: store elim: stage_reads\<close>)
      with True show ?thesis by (simp only: not_True_eq_False if_False wp_bnd)
    next
      case False
      with fl show ?thesis by simp
    qed
  qed
  moreover have "m_total_files (arch s) = files" using assms(1) by (simp add: stage_def)
  ultimately show ?thesis by (simp only: read_records_def wp_bnd wp_gets store_def)
qed

lemma indices_unsorted: "presorted False sz files a b c \<Longrightarrow> indices False sz files a b c"
  by (simp add: presorted_def indices_def whole_def)

lemma wp_read_central_dir:
  fixes s :: "'z zst_scheme"
  assumes "stage sz files0 no_arrays s"
  shows "wp (mz_zip_reader_read_central_dir E flags) (\<lambda>ok t. failing t \<and> (ok \<longrightarrow> (\<exists>files. stage sz files
    (indices (\<not> flag_set flags MZ_ZIP_FLAG_DO_NOT_SORT_CENTRAL_DIRECTORY) sz files) t))) s"
proof -
  define srt where "srt = (\<not> flag_set flags MZ_ZIP_FLAG_DO_NOT_SORT_CENTRAL_DIRECTORY)"
  let ?Q = "\<lambda>ok t. failing t \<and> (ok \<longrightarrow> (\<exists>files. stage sz files (indices srt sz files) t))"
  let ?finish = "\<lambda>ok. if \<not> ok then ret False
    else seq (when_do srt mz_zip_reader_sort_central_dir_offsets_by_filename) (ret True)"
  have finish: "wp (?finish ok) ?Q t" if "failing t" and "ok \<longrightarrow> stage sz files (presorted srt sz files) t"
    for ok files and t :: "'z zst_scheme"
  proof (cases "ok \<and> srt")
    case True
    with that have "stage sz files (presorted True sz files) t" by simp
    from wp_mono [OF wp_sort [OF this], of "\<lambda>_. ?Q True"] True show ?thesis by (auto intro: stage_failing)
  next
    case False
    then have "ok \<Longrightarrow> stage sz files (indices srt sz files) t"
      using that(2) indices_unsorted by (auto elim!: stage_mono)
    with that(1) False show ?thesis by auto
  qed
  define rest :: "dir_info \<Rightarrow> nat \<Rightarrow> ('z zst_scheme, bool) comp" where
    "rest d n = bnd (if n = 0 then ret True else read_records E srt d) ?finish" for d n
  define body :: "dir_info \<Rightarrow> ('z zst_scheme, bool) comp" where
    "body d = bnd (gets arch) (\<lambda>z.
        if m_total_files z \<noteq> cdir_entries_on_this_disk d then mz_zip_set_error MZ_ZIP_UNSUPPORTED_MULTIDISK
        else if (num_this_disk d \<noteq> 0 \<or> cdir_disk_index d \<noteq> 0) \<and> (num_this_disk d \<noteq> 1 \<or> cdir_disk_index d \<noteq> 1)
        then mz_zip_set_error MZ_ZIP_UNSUPPORTED_MULTIDISK
        else if cdir_size d < u32 (m_total_files z * MZ_ZIP_CENTRAL_DIR_HEADER_SIZE)
        then mz_zip_set_error MZ_ZIP_INVALID_HEADER_OR_CORRUPTED
        else if u64 (cdir_ofs d + cdir_size d) > m_archive_size z
        then mz_zip_set_error MZ_ZIP_INVALID_HEADER_OR_CORRUPTED
        else seq (upd_arch (\<lambda>a. a\<lparr>m_central_directory_file_ofs := cdir_ofs d\<rparr>)) (rest d (m_total_files z)))" for d
  have body: "wp (body d) ?Q t" if t: "stage sz files no_arrays t" and d: "cdir_size d < 2 ^ 32"
    for d files and t :: "'z zst_scheme"
  proof -
    let ?t = "t\<lparr>arch := (arch t)\<lparr>m_central_directory_file_ofs := cdir_ofs d\<rparr>\<rparr>"
    have t': "stage sz files no_arrays ?t" using t by simp
    have files: "m_total_files (arch t) = files" using t by (simp add: stage_def)
    have "wp (rest d files) ?Q ?t"
      unfolding rest_def
    proof (cases "files = 0")
      case True
      have "stage sz files (presorted srt sz files) ?t"
        by (rule stage_mono [OF t']) (use True no_arrays_presorted in blast)
      then have "wp (?finish True) ?Q ?t" using stage_failing [OF t'] by (intro finish) simp_all
      then show "wp (bnd (if files = 0 then ret True else read_records E srt d) ?finish) ?Q ?t"
        by (simp only: True if_True bnd_ret simp_thms)
    next
      case False
      have "wp (bnd (read_records E srt d) ?finish) ?Q ?t"
        by (rule wp_bndI [OF wp_read_records [OF t' d]]) (erule conjE, rule finish, assumption, assumption)
      with False show "wp (bnd (if files = 0 then ret True else read_records E srt d) ?finish) ?Q ?t"
        by (simp only: if_False)
    qed
    with stage_failing [OF t] files show ?thesis
      by (cases "files = cdir_entries_on_this_disk d") (simp_all add: body_def)
  qed
  show ?thesis
    unfolding mz_zip_reader_read_central_dir_def Let_def srt_def [symmetric] rest_def [symmetric] body_def [symmetric]
  proof (rule wp_reading_then [OF reading_read_end_records])
    show "readable s" using assms by (simp add: stage_def)
    fix r and t :: "'z zst_scheme"
    assume "reads s t"
    with assms have t: "stage sz files0 no_arrays t" by (rule stage_reads)
    show "wp (case r of None \<Rightarrow> ret False | Some (pBuf, z64) \<Rightarrow>
      bnd (directory_info pBuf z64) (\<lambda>r. case r of None \<Rightarrow> ret False | Some (d :: dir_info) \<Rightarrow> body d)) ?Q t"
    proof (cases r)
      case None
      with stage_failing [OF t] show ?thesis by simp
    next
      case (Some a)
      obtain pBuf z64 where a: "a = (pBuf, z64)" by fastforce
      show ?thesis
        unfolding Some a option.case prod.case
      proof (rule wp_bndI [OF wp_directory_info [OF t]], elim conjE exE)
        fix r :: "dir_info option" and files and u :: "'z zst_scheme"
        assume u: "stage sz files no_arrays u" and d: "\<forall>d. r = Some d \<longrightarrow> cdir_size d < 2 ^ 32"
        from body [OF u] d stage_failing [OF u] show "wp (case r of None \<Rightarrow> ret False | Some (d :: dir_info) \<Rightarrow> body d) ?Q u"
          by (cases r) simp_all
      qed
    qed
  qed
qed

section \<open>Opening and closing\<close>

text \<open>Not open: the state in which a caller may open an archive, or the one opening leaves when memory is short.\<close>

definition closed :: "'z zst_scheme \<Rightarrow> bool" where
  "closed s \<longleftrightarrow> m_pState (arch s) = None"

lemma wp_reader_end:
  assumes "failing s"
  shows "wp (mz_zip_reader_end E) (\<lambda>ok t. ok \<and> closed t \<and> m_zip_mode (arch t) = MZ_ZIP_MODE_INVALID) s"
proof -
  obtain st where "m_pState (arch s) = Some st" "\<forall>f. m_pFile st = Some f \<longrightarrow> sopen f"
    "m_zip_mode (arch s) = MZ_ZIP_MODE_READING"
    using assms by (auto simp: failing_def readable_def)
  then show ?thesis
    by (cases "m_pFile st") (simp_all add: mz_zip_reader_end_def fclose_def closed_def)
qed

text \<open>The common end of both ways to open an archive.\<close>

lemma wp_open_tail:
  fixes s :: "'z zst_scheme"
  assumes "stage sz files0 no_arrays s"
    and "\<And>t. closed t \<Longrightarrow> Q False t"
    and "\<And>files t. stage sz files (indices (\<not> flag_set flags MZ_ZIP_FLAG_DO_NOT_SORT_CENTRAL_DIRECTORY) sz files) t \<Longrightarrow>
      Q True t"
  shows "wp (read_or_end E flags) Q s"
  unfolding read_or_end_def
proof (rule wp_bndI [OF wp_read_central_dir [OF assms(1)]])
  fix ok and t :: "'z zst_scheme"
  assume t: "failing t \<and> (ok \<longrightarrow> (\<exists>files. stage sz files
    (indices (\<not> flag_set flags MZ_ZIP_FLAG_DO_NOT_SORT_CENTRAL_DIRECTORY) sz files) t))"
  then have "wp (mz_zip_reader_end E) (\<lambda>_. Q False) t"
    by (intro wp_mono [OF wp_reader_end] assms(2)) simp_all
  then show "wp (if ok then ret True else seq (bnd (mz_zip_reader_end E) (\<lambda>_. skip)) (ret False)) Q t"
    using t assms(3) by auto
qed

lemma wp_init_mem:
  fixes s :: "'z zst_scheme"
  assumes "sz \<le> length mem" and "closed s" and "m_zip_mode (arch s) = MZ_ZIP_MODE_INVALID"
    and "\<And>t. closed t \<Longrightarrow> Q False t"
    and "\<And>files t. stage sz files (indices (\<not> flag_set flags MZ_ZIP_FLAG_DO_NOT_SORT_CENTRAL_DIRECTORY) sz files) t \<Longrightarrow>
      Q True t"
  shows "wp (mz_zip_reader_init_mem E (Some mem) sz flags) Q s"
proof -
  let ?s = "s\<lparr>nalloc := Suc (nalloc s), arch := (arch s)\<lparr>m_zip_mode := MZ_ZIP_MODE_READING,
    m_central_directory_file_ofs := 0, m_total_files := 0, m_archive_size := sz, m_pRead := Some Mem_read_func,
    m_pState := Some (empty_state\<lparr>m_pMem := Some mem, m_mem_size := sz\<rparr>)\<rparr>\<rparr>"
  have "stage sz 0 no_arrays ?s"
    using assms(1) by (simp add: stage_def readable_def mem_of_def no_arrays_def empty_state_def)
  from wp_open_tail [OF this assms(4,5), where E = E] have tail: "wp (read_or_end E flags) Q ?s" .
  have "closed (s\<lparr>arch := (arch s)\<lparr>m_zip_mode := MZ_ZIP_MODE_READING, m_archive_size := 0,
    m_central_directory_file_ofs := 0, m_total_files := 0\<rparr>, nalloc := Suc (nalloc s)\<rparr>)"
    using assms(2) by (simp add: closed_def)
  with tail assms(2-4) show ?thesis
    by (simp add: mz_zip_reader_init_mem_def mz_zip_reader_init_internal_def closed_def)
qed

lemma wp_init_file:
  fixes s :: "'z zst_scheme"
  assumes "closed s" and "m_zip_mode (arch s) = MZ_ZIP_MODE_INVALID"
    and "\<And>t. closed t \<Longrightarrow> Q False t"
    and "\<And>bs files t. disk s name = Some bs \<Longrightarrow> stage (length bs) files
      (indices (\<not> flag_set flags MZ_ZIP_FLAG_DO_NOT_SORT_CENTRAL_DIRECTORY) (length bs) files) t \<Longrightarrow> Q True t"
  shows "wp (mz_zip_reader_init_file E name flags) Q s"
proof -
  have cl: "closed (s\<lparr>ncall := n\<rparr>)" for n using assms(1) by (simp add: closed_def)
  show ?thesis
  proof (cases "disk s name")
    case None
    with cl assms(3) show ?thesis by (simp add: mz_zip_reader_init_file_def fopen_rb_def)
  next
    case (Some bs)
    let ?f = "\<lparr>spath = name, spos = length bs, swritable = False, sopen = True\<rparr>"
    let ?s = "s\<lparr>ncall := Suc (Suc (ncall s)), nalloc := Suc (nalloc s), arch := (arch s)\<lparr>m_zip_mode := MZ_ZIP_MODE_READING,
      m_central_directory_file_ofs := 0, m_total_files := 0, m_pState := Some (empty_state\<lparr>m_pFile := Some ?f\<rparr>),
      m_pRead := Some File_read_func, m_archive_size := length bs\<rparr>\<rparr>"
    have "stage (length bs) 0 no_arrays ?s"
      by (simp add: stage_def readable_def no_arrays_def empty_state_def)
    from wp_open_tail [OF this assms(3) assms(4) [OF Some], where E = E]
    have tail: "wp (read_or_end E flags) Q ?s" .
    have cl2: "closed (s\<lparr>arch := (arch s)\<lparr>m_zip_mode := MZ_ZIP_MODE_READING, m_archive_size := 0,
      m_central_directory_file_ofs := 0, m_total_files := 0\<rparr>, nalloc := n, ncall := k\<rparr>)" for n k
      using assms(1) by (simp add: closed_def)
    from tail cl cl2 assms(1-3) Some show ?thesis
      by (simp add: mz_zip_reader_init_file_def mz_zip_reader_init_internal_def closed_def fopen_rb_def fseek_end_def
          fclose_def)
  qed
qed

section \<open>Queries\<close>

lemma opened_state:
  assumes "stage sz files (indices srt sz files) s"
  obtains st where "m_pState (arch s) = Some st" and "m_zip_mode (arch s) = MZ_ZIP_MODE_READING"
    and "m_total_files (arch s) = files" and "m_archive_size (arch s) = sz"
    and "directory_ok sz (m_p (m_central_dir st)) (m_p (m_central_dir_offsets st)) files"
    and "files \<le> length (m_p (m_central_dir_offsets st))"
    and "m_size (m_sorted_central_dir_offsets st) = (if srt then files else 0)"
    and "srt \<Longrightarrow> sorted_index (m_p (m_central_dir st)) (m_p (m_central_dir_offsets st)) files
        (m_p (m_sorted_central_dir_offsets st))"
proof (rule stage_state [OF assms])
  fix st
  assume st: "m_pState (arch s) = Some st" "m_zip_mode (arch s) = MZ_ZIP_MODE_READING"
    "m_total_files (arch s) = files" "m_archive_size (arch s) = sz"
    and P: "indices srt sz files (m_central_dir st) (m_central_dir_offsets st) (m_sorted_central_dir_offsets st)"
  show thesis
    by (rule that [OF st(1-4)]) (use P in \<open>auto simp: indices_def whole_def directory_length\<close>)
qed

text \<open>The record of the \<open>i\<close>-th entry and its fields lie inside the directory.\<close>

lemma entry_bounds:
  assumes "directory_ok sz cd offs files" and "i < files"
  shows "offs ! i + 46 + field 2 cd (offs ! i + 28) + field 2 cd (offs ! i + 30) + field 2 cd (offs ! i + 32) \<le> length cd"
  using directory_okD(1) [OF assms] by (simp add: record_ok_def rec_end_def)

lemma wp_get_cdh:
  assumes "stage sz files (indices srt sz files) s"
    and "i \<ge> files \<Longrightarrow> Q None s"
    and "\<And>st. i < files \<Longrightarrow> m_pState (arch s) = Some st \<Longrightarrow>
      directory_ok sz (m_p (m_central_dir st)) (m_p (m_central_dir_offsets st)) files \<Longrightarrow>
      Q (Some (m_p (m_central_dir_offsets st) ! i)) s"
  shows "wp (mz_zip_reader_get_cdh i) Q s"
proof -
  obtain st where st: "m_pState (arch s) = Some st" "m_zip_mode (arch s) = MZ_ZIP_MODE_READING"
    "m_total_files (arch s) = files" "files \<le> length (m_p (m_central_dir_offsets st))"
    and dir: "directory_ok sz (m_p (m_central_dir st)) (m_p (m_central_dir_offsets st)) files"
    using assms(1) by (rule opened_state)
  show ?thesis
  proof (cases "i < files")
    case True
    with st assms(3) [OF True st(1) dir] show ?thesis by (simp add: mz_zip_reader_get_cdh_def)
  next
    case False
    with st assms(2) show ?thesis by (simp add: mz_zip_reader_get_cdh_def)
  qed
qed

lemma wp_query:
  assumes "stage sz files (indices srt sz files) s"
    and "i \<ge> files \<Longrightarrow> wp (k None) Q s"
    and "\<And>st cd p. i < files \<Longrightarrow> m_pState (arch s) = Some st \<Longrightarrow> cd = m_p (m_central_dir st) \<Longrightarrow>
      p = m_p (m_central_dir_offsets st) ! i \<Longrightarrow>
      p + 46 + field 2 cd (p + 28) + field 2 cd (p + 30) + field 2 cd (p + 32) \<le> length cd \<Longrightarrow> wp (k (Some p)) Q s"
  shows "wp (bnd (mz_zip_reader_get_cdh i) k) Q s"
  unfolding wp_bnd
proof (rule wp_get_cdh [OF assms(1)])
  fix st
  assume "i < files" "m_pState (arch s) = Some st"
    "directory_ok sz (m_p (m_central_dir st)) (m_p (m_central_dir_offsets st)) files"
  then show "wp (k (Some (m_p (m_central_dir_offsets st) ! i))) Q s"
    using entry_bounds by (intro assms(3) [OF _ _ refl refl]) simp_all
qed (rule assms(2))

lemma wp_is_file_a_directory:
  assumes "stage sz files (indices srt sz files) s"
  shows "wp (mz_zip_reader_is_file_a_directory i) (\<lambda>_ t. t = s) s"
  unfolding mz_zip_reader_is_file_a_directory_def
  by (rule wp_query [OF assms]) simp_all

lemma wp_file_stat:
  assumes "stage sz files (indices srt sz files) s"
  shows "wp (mz_zip_reader_file_stat E i) (\<lambda>r t. t = s \<and> (r = None \<longleftrightarrow> i \<ge> files)) s"
  unfolding mz_zip_reader_file_stat_def
  by (rule wp_query [OF assms]) auto

lemma wp_get_filename:
  assumes "stage sz files (indices srt sz files) s"
  shows "wp (mz_zip_reader_get_filename i n) (\<lambda>(len, bs) t. t = s \<and> length bs \<le> n) s"
  unfolding mz_zip_reader_get_filename_def
  by (rule wp_query [OF assms]) (auto simp: Let_def)

text \<open>The look-up by binary search.\<close>

lemma wp_locate_file:
  fixes s :: "'z zst_scheme"
  assumes "stage sz files (indices True sz files) s" and "0 < files" and "length name < 2 ^ 32"
  shows "wp (mz_zip_reader_locate_file name None 0) (\<lambda>r t. t = s \<and> (\<exists>st. m_pState (arch s) = Some st \<and>
    (let key = \<lambda>i. name_key (m_p (m_central_dir st)) (m_p (m_central_dir_offsets st) ! i) in
     (r = - 1 \<longleftrightarrow> (\<forall>i < files. key i \<noteq> map tolower name)) \<and>
     (r \<noteq> - 1 \<longrightarrow> 0 \<le> r \<and> nat r < files \<and> key (nat r) = map tolower name)))) s"
proof -
  obtain st where st: "m_pState (arch s) = Some st" "m_zip_mode (arch s) = MZ_ZIP_MODE_READING"
    "m_total_files (arch s) = files"
    and dir: "directory_ok sz (m_p (m_central_dir st)) (m_p (m_central_dir_offsets st)) files"
    and ixs: "m_size (m_sorted_central_dir_offsets st) = files"
      "sorted_index (m_p (m_central_dir st)) (m_p (m_central_dir_offsets st)) files
          (m_p (m_sorted_central_dir_offsets st))"
    using assms(1) by (rule opened_state) auto
  let ?cd = "m_p (m_central_dir st)" and ?offs = "m_p (m_central_dir_offsets st)"
  let ?xs = "m_p (m_sorted_central_dir_offsets st)"
  have set: "set ?xs = {..<files}"
    using ixs(2) by (metis atLeast_upt set_mset_mset sorted_index_def)
  have len: "length ?xs = files"
    using ixs(2) by (metis diff_zero length_upt mset_eq_length sorted_index_def)
  have "\<exists>r. search_loop (\<lambda>i. mz_zip_reader_filename_compare ?cd ?offs i name) ?xs 0 (int files - 1) =
      (ret r :: ('z zst_scheme, int) comp) \<and>
    (r = - 1 \<and> (\<forall>i. 0 \<le> int i \<longrightarrow> int i \<le> int files - 1 \<longrightarrow> name_key ?cd (?offs ! (?xs ! i)) \<noteq> map tolower name) \<or>
     (\<exists>i. 0 \<le> int i \<and> int i \<le> int files - 1 \<and> r = int (?xs ! i) \<and> name_key ?cd (?offs ! (?xs ! i)) = map tolower name))"
  proof (cases "length name < 2 ^ 31")
    case True
    show ?thesis
    proof (rule name_search.search_loop_finds)
      show "set ?xs \<subseteq> {i \<in> complete ?cd ?offs. length name < 2 ^ 31}" using set directory_complete [OF dir] True by auto
      show "name_key ?cd (?offs ! (?xs ! i)) \<le> name_key ?cd (?offs ! (?xs ! j))"
        if "i \<le> j" "int j \<le> int files - 1" for i j
        using ixs(2) that by (simp add: sorted_index_def)
    qed (use len in simp_all)
  next
    case False
    have all: "a \<in> complete ?cd ?offs" if "a \<in> set ?xs" for a using set directory_complete [OF dir] that by auto
    have long: "65536 \<le> length name" using False by simp
    have "search_loop (\<lambda>i. mz_zip_reader_filename_compare ?cd ?offs i name) ?xs 0 (int files - 1) =
        (ret (- 1) :: ('z zst_scheme, int) comp)"
      by (rule search_loop_never) (use compare_long_name(1) [OF all long assms(3)] len in simp_all)
    moreover have "\<forall>i. 0 \<le> int i \<longrightarrow> int i \<le> int files - 1 \<longrightarrow> name_key ?cd (?offs ! (?xs ! i)) \<noteq> map tolower name"
      using compare_long_name(2) [OF all long assms(3)] len by simp
    ultimately show ?thesis by blast
  qed
  then obtain r where r: "search_loop (\<lambda>i. mz_zip_reader_filename_compare ?cd ?offs i name) ?xs 0 (int files - 1) =
      (ret r :: ('z zst_scheme, int) comp)"
    "r = - 1 \<and> (\<forall>i < files. name_key ?cd (?offs ! (?xs ! i)) \<noteq> map tolower name) \<or>
     (\<exists>i < files. r = int (?xs ! i) \<and> name_key ?cd (?offs ! (?xs ! i)) = map tolower name)" by auto
  have run: "wp (mz_zip_reader_locate_file name None 0) Q s = Q r s" for Q
    using st ixs(1) assms(2) r(1)
    by (simp add: mz_zip_reader_locate_file_def mz_zip_reader_locate_file_binary_search_def flag_set_def)
  from r(2) have "(r = - 1 \<longleftrightarrow> (\<forall>i < files. name_key ?cd (?offs ! i) \<noteq> map tolower name)) \<and>
      (r \<noteq> - 1 \<longrightarrow> 0 \<le> r \<and> nat r < files \<and> name_key ?cd (?offs ! nat r) = map tolower name)"
  proof (elim disjE conjE exE)
    assume r: "r = - 1" and none: "\<forall>i < files. name_key ?cd (?offs ! (?xs ! i)) \<noteq> map tolower name"
    have "name_key ?cd (?offs ! i) \<noteq> map tolower name" if "i < files" for i
    proof -
      from that set have "i \<in> set ?xs" by simp
      then obtain k where "k < files" "?xs ! k = i" using len by (auto simp: in_set_conv_nth)
      with none show ?thesis by auto
    qed
    with r show ?thesis by simp
  next
    fix i
    assume i: "i < files" "r = int (?xs ! i)" "name_key ?cd (?offs ! (?xs ! i)) = map tolower name"
    then have "?xs ! i < files" using set len by (metis lessThan_iff nth_mem)
    with i show ?thesis by auto
  qed
  with st(1) show ?thesis by (simp add: run Let_def)
qed

end
