(* ===== verification/Miniz_Reader_Properties.thy ===== *)
theory Miniz_Reader_Properties
  imports Miniz_Open
begin

text \<open>
  What the reader guarantees: opening is safe on every input, an opened archive has a sorted index of complete records,
  look-up finds a name iff it is there, and dates survive the DOS format. The last section shows the
  archives whose end record the reader cannot see.
\<close>

section \<open>Opening\<close>

text \<open>C15. On any bytes in memory and whatever the environment answers, opening returns: either it refuses and leaves no
  archive, or it leaves a directory whose records are complete, lie inside the block and inside the archive, and
  an index that is a permutation of the entries sorted by name.\<close>
theorem any_memory_archive_opens_safely:
  assumes "m_pState (arch s) = None" and "m_zip_mode (arch s) = MZ_ZIP_MODE_INVALID"
  shows "\<exists>ok t. mz_zip_reader_init_mem E (Some mem) (length mem) flags s = Inr (ok, t) \<and>
    (if ok then \<exists>files. stage (length mem) files
        (indices (\<not> flag_set flags MZ_ZIP_FLAG_DO_NOT_SORT_CENTRAL_DIRECTORY) (length mem) files) t
     else m_pState (arch t) = None)"
proof -
  have "wp (mz_zip_reader_init_mem E (Some mem) (length mem) flags) (\<lambda>ok t. if ok then \<exists>files. stage (length mem) files
        (indices (\<not> flag_set flags MZ_ZIP_FLAG_DO_NOT_SORT_CENTRAL_DIRECTORY) (length mem) files) t
     else m_pState (arch t) = None) s"
    by (rule wp_init_mem) (use assms in \<open>auto simp: closed_def\<close>)
  then show ?thesis by (simp add: wp_iff)
qed

theorem any_memory_archive_opens_safely_witness:
  "\<exists>ok t. mz_zip_reader_init_mem calm (Some [80, 75]) (length [80, 75 :: byte]) 0 (no_archive Map.empty) = Inr (ok, t) \<and>
    (if ok then \<exists>files. stage (length [80, 75 :: byte]) files
        (indices (\<not> flag_set 0 MZ_ZIP_FLAG_DO_NOT_SORT_CENTRAL_DIRECTORY) (length [80, 75 :: byte]) files) t
     else m_pState (arch t) = None)"
  by (rule any_memory_archive_opens_safely [where mem = "[80, 75]"]) (simp_all add: clear_archive_def)

text \<open>The same holds of an archive file, whatever the library calls return.\<close>
theorem any_archive_file_opens_safely:
  assumes "m_pState (arch s) = None" and "m_zip_mode (arch s) = MZ_ZIP_MODE_INVALID"
  shows "\<exists>ok t. mz_zip_reader_init_file E name flags s = Inr (ok, t) \<and>
    (if ok then \<exists>bs files. disk s name = Some bs \<and> stage (length bs) files
        (indices (\<not> flag_set flags MZ_ZIP_FLAG_DO_NOT_SORT_CENTRAL_DIRECTORY) (length bs) files) t
     else m_pState (arch t) = None)"
proof -
  have "wp (mz_zip_reader_init_file E name flags) (\<lambda>ok t. if ok then \<exists>bs files. disk s name = Some bs \<and> stage (length bs) files
        (indices (\<not> flag_set flags MZ_ZIP_FLAG_DO_NOT_SORT_CENTRAL_DIRECTORY) (length bs) files) t
     else m_pState (arch t) = None) s"
    by (rule wp_init_file) (use assms in \<open>auto simp: closed_def\<close>)
  then show ?thesis by (simp add: wp_iff)
qed

theorem any_archive_file_opens_safely_witness:
  "\<exists>ok t. mz_zip_reader_init_file calm [65] 0 (no_archive [[65] \<mapsto> [80, 75]]) = Inr (ok, t) \<and>
    (if ok then \<exists>bs files. disk (no_archive [[65] \<mapsto> [80, 75]]) [65] = Some bs \<and> stage (length bs) files
        (indices (\<not> flag_set 0 MZ_ZIP_FLAG_DO_NOT_SORT_CENTRAL_DIRECTORY) (length bs) files) t
     else m_pState (arch t) = None)"
  by (rule any_archive_file_opens_safely) (simp_all add: clear_archive_def)

section \<open>Look-up\<close>

text \<open>C16. On an archive with a sorted index, the look-up of a name of less than 4 GiB, which ignores case, returns
  the index of an entry of that name if there is one, and -1 iff there is none.\<close>
theorem lookup_finds_the_name:
  assumes "stage sz files (indices True sz files) s" and "0 < files" and "m_pState (arch s) = Some st"
    and "length name < 2 ^ 32"
  shows "\<exists>r. mz_zip_reader_locate_file name None 0 s = Inr (r, s) \<and>
    (r = - 1 \<longleftrightarrow> (\<forall>i < files. map tolower (entry_name (m_p (m_central_dir st)) (m_p (m_central_dir_offsets st) ! i)) \<noteq>
       map tolower name)) \<and>
    (r \<noteq> - 1 \<longrightarrow> 0 \<le> r \<and> nat r < files \<and>
       map tolower (entry_name (m_p (m_central_dir st)) (m_p (m_central_dir_offsets st) ! nat r)) = map tolower name)"
  using wp_locate_file [OF assms(1,2,4)] assms(3) by (auto simp: wp_iff Let_def name_key_def)

text \<open>An archive with one entry, \<open>A\<close>.\<close>

definition one_entry_dir :: "byte list" where
  "one_entry_dir = [80, 75, 1, 2, 0, 0, 0, 0, 0, 0, 0, 0, 0, 0, 0, 0, 0, 0, 0, 0, 0, 0, 0, 0,
     0, 0, 0, 0, 1, 0, 0, 0, 0, 0, 0, 0, 0, 0, 0, 0, 0, 0, 0, 0, 0, 0, 65]"

definition one_entry :: zst where
  "one_entry = no_archive Map.empty\<lparr>arch := clear_archive\<lparr>m_zip_mode := MZ_ZIP_MODE_READING, m_archive_size := 30,
     m_total_files := 1, m_pRead := Some Mem_read_func, m_pState := Some (empty_state\<lparr>
       m_central_dir := \<lparr>m_p = one_entry_dir, m_size = 47, m_capacity = 47\<rparr>,
       m_central_dir_offsets := \<lparr>m_p = [0], m_size = 1, m_capacity = 1\<rparr>,
       m_sorted_central_dir_offsets := \<lparr>m_p = [0], m_size = 1, m_capacity = 1\<rparr>,
       m_pMem := Some (replicate 30 0), m_mem_size := 30\<rparr>)\<rparr>\<rparr>"

lemma one_entry_fields: "length one_entry_dir = 47" "field 4 one_entry_dir 0 = MZ_ZIP_CENTRAL_DIR_HEADER_SIG"
  "field 2 one_entry_dir 28 = 1" "field 2 one_entry_dir 30 = 0" "field 2 one_entry_dir 32 = 0"
  "field 4 one_entry_dir 20 = 0" "field 4 one_entry_dir 42 = 0"
  by (simp_all add: one_entry_dir_def field_def)

lemma one_entry_stage: "stage 30 1 (indices True 30 1) one_entry"
proof -
  have "directory_ok 30 one_entry_dir [0] 1"
    by (simp add: directory_ok_def record_ok_def rec_end_def one_entry_fields)
  then show ?thesis
    by (simp add: stage_def one_entry_def readable_def mem_of_def indices_def array_ok_def whole_def sorted_index_def
        one_entry_fields empty_state_def)
qed

lemma one_entry_name: "entry_name one_entry_dir 0 = [65]"
  by (simp add: entry_name_def one_entry_fields) (simp add: one_entry_dir_def)

theorem lookup_finds_the_name_witness: "mz_zip_reader_locate_file [97] None 0 one_entry = Inr (0, one_entry)"
proof -
  let ?st = "empty_state\<lparr>
       m_central_dir := \<lparr>m_p = one_entry_dir, m_size = 47, m_capacity = 47\<rparr>,
       m_central_dir_offsets := \<lparr>m_p = [0], m_size = 1, m_capacity = 1\<rparr>,
       m_sorted_central_dir_offsets := \<lparr>m_p = [0], m_size = 1, m_capacity = 1\<rparr>,
       m_pMem := Some (replicate 30 0), m_mem_size := 30\<rparr>"
  have "m_pState (arch one_entry) = Some ?st" by (simp add: one_entry_def)
  from lookup_finds_the_name [OF one_entry_stage _ this, of "[97]"] show ?thesis
    by (auto simp: one_entry_name tolower_def)
qed

section \<open>Dates\<close>

text \<open>C22. A local time the DOS format can show comes back from it, to the even second.\<close>
theorem dos_date_round_trip:
  assumes "dos_range (localtime E time)" and "mz_zip_time_t_to_dos_time E time = (dos_time, dos_date)"
  shows "mz_zip_dos_to_time_t E dos_time dos_date =
    mktime E ((localtime E time)\<lparr>tm_sec := 2 * (tm_sec (localtime E time) div 2)\<rparr>)"
proof -
  obtain s mi h d mo y where tm: "localtime E time =
      \<lparr>tm_sec = int s, tm_min = int mi, tm_hour = int h, tm_mday = int d, tm_mon = int mo, tm_year = int y\<rparr>"
  proof -
    have "localtime E time = \<lparr>tm_sec = int (nat (tm_sec (localtime E time))), tm_min = int (nat (tm_min (localtime E time))),
        tm_hour = int (nat (tm_hour (localtime E time))), tm_mday = int (nat (tm_mday (localtime E time))),
        tm_mon = int (nat (tm_mon (localtime E time))), tm_year = int (nat (tm_year (localtime E time)))\<rparr>"
      using assms(1) by (cases "localtime E time") (simp add: dos_range_def)
    with that show ?thesis by blast
  qed
  from assms(1) have r: "s < 60" "mi < 60" "h < 24" "1 \<le> d" "d \<le> 31" "mo < 12" "80 \<le> y" "y \<le> 207"
    by (simp_all add: dos_range_def tm)
  have t: "nat ((int h * 2048 + int mi * 32 + int s div 2) mod 65536) = h * 2048 + mi * 32 + s div 2"
    using r by (simp add: nat_eq_iff)
  have d: "nat (((int y + 1900 - 1980) * 512 + (int mo + 1) * 32 + int d) mod 65536) =
      (y - 80) * 512 + (mo + 1) * 32 + d"
    using r by (simp add: nat_eq_iff of_nat_diff)
  have "mz_zip_time_t_to_dos_time E time = (h * 2048 + mi * 32 + s div 2, (y - 80) * 512 + (mo + 1) * 32 + d)"
    unfolding mz_zip_time_t_to_dos_time_def tm Let_def tm.simps t d ..
  then have dt: "dos_time = h * 2048 + mi * 32 + s div 2" "dos_date = (y - 80) * 512 + (mo + 1) * 32 + d"
    using assms(2) by simp_all
  have "dos_time mod 32 = s div 2" "dos_time div 32 mod 64 = mi" "dos_time div 2048 mod 32 = h"
    "dos_date mod 32 = d" "dos_date div 32 mod 16 = mo + 1" "dos_date div 512 mod 128 = y - 80"
  proof -
    have "dos_time = s div 2 + 32 * (mi + 64 * h)" "dos_date = d + 32 * (mo + 1 + 16 * (y - 80))"
      "s div 2 < 32" "d < 32" "mo + 1 < 16" "mi < 64" "h < 32" "y - 80 < 128" using r by (simp_all add: dt)
    moreover from this have "dos_time div 2048 = dos_time div 32 div 64" "dos_date div 512 = dos_date div 32 div 16"
      by (simp_all add: div_mult2_eq [symmetric])
    ultimately show "dos_time mod 32 = s div 2" "dos_time div 32 mod 64 = mi" "dos_time div 2048 mod 32 = h"
      "dos_date mod 32 = d" "dos_date div 32 mod 16 = mo + 1" "dos_date div 512 mod 128 = y - 80"
      by (simp_all only: mod_mult_self2 div_mult_self2 mod_less div_less add_0_right)
  qed
  then show ?thesis using r by (simp add: mz_zip_dos_to_time_t_def tm of_nat_diff zdiv_int)
qed

theorem dos_date_round_trip_witness:
  "mz_zip_dos_to_time_t calm 7 10273 = 14"
  using dos_date_round_trip [of calm 15 7 10273]
  by (simp add: dos_range_def mz_zip_time_t_to_dos_time_def)

section \<open>The end record the reader does not see\<close>

lemma scan_back_None: "(\<And>i. i < n \<Longrightarrow> \<not> P i) \<Longrightarrow> scan_back P n = None"
  by (induction n) auto

lemma field_drop: "field k (drop ofs mem) i = field k mem (ofs + i)"
  by (simp add: field_def add.commute)

text \<open>C23. An archive in memory whose size is between 4096 and 8189 and whose end record does not lie in the last 4096
  bytes is not recognised: the second window starts at the difference of unsigned numbers, which wraps.\<close>
theorem end_record_before_last_window_missed:
  assumes "m_pRead (arch s) = Some Mem_read_func" and "m_pState (arch s) = Some st" and "m_pMem st = Some mem"
    and "m_archive_size (arch s) = length mem" and "4096 < length mem" and "length mem < 8189"
    and "\<forall>i. length mem - 4096 \<le> i \<and> i + 4 \<le> length mem \<longrightarrow> field 4 mem i \<noteq> record_sig"
    and "record_size \<le> 22"
  shows "mz_zip_reader_locate_header_sig E record_sig record_size s = Inr (None, s)"
proof -
  let ?c = "length mem - 4096" and ?w = "2 ^ 64 - (8189 - length mem)"
  have sub: "sub64 (length mem) ?c = 4096" "sub64 ?c 4093 = ?w" "sub64 (length mem) ?w = 8189"
  proof -
    show "sub64 (length mem) ?c = 4096" using assms(5,6) by (simp add: sub64_le)
    have "int ?c - int 4093 = int ?w + (- 1) * 2 ^ 64" using assms(5,6) by (simp add: of_nat_diff)
    then have "int (sub64 ?c 4093) = int ?w mod 2 ^ 64" unfolding int_sub64 by (simp only: mod_mult_self1)
    also have "\<dots> = int ?w" using assms(5,6) by (intro mod_pos_pos_trivial) (simp_all add: of_nat_diff)
    finally have "int (sub64 ?c 4093) = int ?w" .
    then show "sub64 ?c 4093 = ?w" by linarith
    have "int (sub64 (length mem) ?w) = 8189"
      using assms(5,6) unfolding int_sub64 by (simp add: of_nat_diff)
    then show "sub64 (length mem) ?w = 8189" by linarith
  qed
  obtain c w where cw: "c = ?c" "w = ?w" by blast
  have size: "length mem \<le> w" "c + 4096 = length mem" "c \<noteq> 0" "length mem - c = 4096" using cw assms(5,6) by simp_all
  note sub = sub [folded cw]
  have state: "get_state s = Inr (st, s)" using assms(2) by (simp add: get_state_def bnd_def gets_def ret_def)
  have "mem \<noteq> []" using assms(5) by auto
  then have read1: "pRead E c 4096 s = Inr (drop c mem, s)" and read2: "pRead E w 4096 s = Inr ([], s)"
    using assms(1,3,4) size by (simp_all add: pRead_def mz_zip_mem_read_func_def bnd_def gets_def state Let_def ret_def)
  have none: "scan_back (\<lambda>i. field 4 (drop c mem) i = record_sig \<and> P i) 4093 = None" for P
  proof (rule scan_back_None)
    fix i :: nat
    assume "i < 4093"
    with size(2) have "length mem - 4096 \<le> c + i \<and> c + i + 4 \<le> length mem" by linarith
    with assms(7) show "\<not> (field 4 (drop c mem) i = record_sig \<and> P i)" unfolding field_drop by blast
  qed
  have loop2: "locate_loop (Suc 16) E record_sig record_size w s = Inr (None, s)"
    unfolding locate_loop.simps(2) using assms(4) sub by (simp add: bnd_def gets_def ret_def Let_def read2)
  have loop1: "locate_loop (Suc 17) E record_sig record_size c s = locate_loop 17 E record_sig record_size w s"
    unfolding locate_loop.simps(2) using assms(4,5,8) none sub size
    by (simp add: bnd_def gets_def ret_def Let_def read1)
  have start: "nat (max (s64 (length mem) - 4096) 0) = c" using cw assms(5,6) by (simp add: s64_small)
  show ?thesis
    using assms(4,5,8) start loop1 loop2
    by (simp add: mz_zip_reader_locate_header_sig_def bnd_def gets_def)
qed

lemma zeros_behind:
  "length xs \<le> i \<Longrightarrow> i + k \<le> length xs + n \<Longrightarrow> take k (drop i (xs @ replicate n z)) = replicate k z"
  by (simp add: min_def)

text \<open>An end record at the start of 5000 bytes.\<close>

definition early_end_record :: "byte list" where
  "early_end_record = [80, 75, 5, 6] @ replicate 4996 0"

lemma early_end_record: "length early_end_record = 5000" "field 4 early_end_record 0 = MZ_ZIP_END_OF_CENTRAL_DIR_HEADER_SIG"
  "4 \<le> i \<Longrightarrow> i + 4 \<le> 5000 \<Longrightarrow> field 4 early_end_record i = 0"
proof -
  show "length early_end_record = 5000" "field 4 early_end_record 0 = MZ_ZIP_END_OF_CENTRAL_DIR_HEADER_SIG"
    by (simp_all add: early_end_record_def field_def)
  assume "4 \<le> i" "i + 4 \<le> 5000"
  then have "take 4 (drop i early_end_record) = replicate 4 0"
    unfolding early_end_record_def by (intro zeros_behind) simp_all
  moreover have "unle (replicate 4 0) = 0" by (simp add: eval_nat_numeral)
  ultimately show "field 4 early_end_record i = 0" unfolding field_def by simp
qed

definition early_end_state :: zst where
  "early_end_state = no_archive Map.empty\<lparr>arch := clear_archive\<lparr>m_pRead := Some Mem_read_func, m_archive_size := 5000,
     m_pState := Some (empty_state\<lparr>m_pMem := Some early_end_record, m_mem_size := 5000\<rparr>)\<rparr>\<rparr>"

theorem end_record_before_last_window_missed_witness:
  "field 4 early_end_record 0 = MZ_ZIP_END_OF_CENTRAL_DIR_HEADER_SIG \<and>
   mz_zip_reader_locate_header_sig calm MZ_ZIP_END_OF_CENTRAL_DIR_HEADER_SIG 22 early_end_state = Inr (None, early_end_state)"
  by (intro conjI early_end_record
      end_record_before_last_window_missed [where mem = early_end_record and st = "empty_state\<lparr>m_pMem := Some early_end_record, m_mem_size := 5000\<rparr>"])
    (simp_all add: early_end_state_def early_end_record)

end
