(* ===== verification/Zip_Paths.thy ===== *)
theory Zip_Paths
  imports Zip_World Zip_Format
begin

text \<open>
  The functions of \<open>server/src/zip.c\<close> on names and paths, with the macros of Unix: a C string is the list of its
  bytes before the NUL, except in \<open>zip_name_normalize\<close>, which works inside the buffer of its caller.
\<close>

section \<open>Names\<close>

text \<open>\<open>ISSLASH\<close>.\<close>

definition ISSLASH :: "byte \<Rightarrow> bool" where
  "ISSLASH c \<longleftrightarrow> c = 47 \<or> c = 92"

text \<open>The loop of \<open>zip_basename\<close>: \<open>base\<close> and \<open>all_slashes\<close>.\<close>

fun basename_loop :: "byte list \<Rightarrow> bool \<Rightarrow> byte list \<Rightarrow> byte list \<times> bool" where
  "basename_loop base all_slashes [] = (base, all_slashes)"
| "basename_loop base all_slashes (c # p) =
     (if ISSLASH c then basename_loop p all_slashes p else basename_loop base False p)"

definition zip_basename :: "byte list \<Rightarrow> byte list" where
  "zip_basename name = (let (base, all_slashes) = basename_loop name True name in
     if base = [] \<and> name \<noteq> [] \<and> ISSLASH (hd name) \<and> all_slashes then [last name] else base)"

text \<open>\<open>str\<close> may be longer than \<open>n\<close>; the result is \<open>None\<close> when there is no memory.\<close>

definition zip_strrpl :: "zenv \<Rightarrow> byte list \<Rightarrow> nat \<Rightarrow> byte \<Rightarrow> byte \<Rightarrow> ('z world_scheme, byte list option) comp" where
  "zip_strrpl E str n oldchar newchar = bnd (alloc E) (\<lambda>ok.
     ret (if ok then Some (map (\<lambda>c. if c = oldchar then newchar else c) (take n str)) else None))"

definition zip_name_match :: "zenv \<Rightarrow> byte list \<Rightarrow> byte list \<Rightarrow> ('z world_scheme, bool) comp" where
  "zip_name_match E name1 name2 = bnd (zip_strrpl E name2 (length name2) 92 47) (\<lambda>nname2.
     ret (case nname2 of None \<Rightarrow> False | Some nname2 \<Rightarrow> name1 = nname2))"

section \<open>Directories\<close>

abbreviation (input) EEXIST :: nat where "EEXIST \<equiv> 17"

text \<open>
  \<open>npath\<close> holds the part of the path that has been copied, which is also what stands in \<open>path\<close> before \<open>p\<close>.
  The result has the path as the function leaves it. A failed \<open>mkdir\<close> answers with its \<open>errno\<close>.
\<close>

fun mkpath_loop :: "zenv \<Rightarrow> byte list \<Rightarrow> byte list \<Rightarrow> ('z world_scheme, int \<times> byte list) comp" where
  "mkpath_loop E npath [] = ret (0, npath)"
| "mkpath_loop E npath (c # p) =
     (if length npath \<ge> MAX_PATH then ret (0, npath @ c # p)
      else if ISSLASH c \<and> npath \<noteq> []
      then bnd (lib_call E) (\<lambda>r. case r of
          None \<Rightarrow> seq (modify (\<lambda>s. s\<lparr>fs_events := fs_events s @ [Mkdir npath]\<rparr>)) (mkpath_loop E (npath @ [47]) p)
        | Some errno \<Rightarrow>
            if errno \<noteq> EEXIST then ret (ZIP_EMKDIR, npath @ 47 # p) else mkpath_loop E (npath @ [47]) p)
      else mkpath_loop E (npath @ [c]) p)"

definition zip_mkpath :: "zenv \<Rightarrow> byte list \<Rightarrow> ('z world_scheme, int \<times> byte list) comp" where
  "zip_mkpath E path = mkpath_loop E [] path"

section \<open>Normalising a name in place\<close>

text \<open>
  \<open>name\<close> and \<open>nname\<close> both point into \<open>buf\<close>, as in the only call. \<open>string_at buf i\<close>: the string that starts at
  \<open>i\<close>, a fault if there is no NUL in the rest of the buffer.
\<close>

definition string_at :: "byte list \<Rightarrow> nat \<Rightarrow> ('s, byte list) comp" where
  "string_at buf i = (if 0 \<in> set (drop i buf) then ret (takeWhile (\<lambda>c. c \<noteq> 0) (drop i buf)) else fail Out_of_bounds)"

text \<open>\<open>while (ISSLASH(*name)) name++\<close>.\<close>

function skip_slashes :: "byte list \<Rightarrow> nat \<Rightarrow> ('s, nat) comp" where
  "skip_slashes buf name =
     (if name < length buf then if ISSLASH (buf ! name) then skip_slashes buf (name + 1) else ret name
      else fail Out_of_bounds)"
  by pat_completeness auto
termination by (relation "measure (\<lambda>(buf, i). length buf - i)") auto

declare skip_slashes.simps [simp del]

text \<open>The loop; the second argument counts the rounds left, \<open>name\<close> is \<open>&name[offn]\<close>.\<close>

fun normalize_loop ::
    "byte list \<Rightarrow> nat \<Rightarrow> nat \<Rightarrow> nat \<Rightarrow> nat \<Rightarrow> ('s, byte list \<times> nat \<times> nat) comp" where
  "normalize_loop buf 0 name offnn ncpy = ret (buf, offnn, ncpy)"
| "normalize_loop buf (Suc k) name offnn ncpy = bnd (elem buf name) (\<lambda>c.
     if ISSLASH c
     then bnd (if ncpy > 0
               then bnd (string_at buf offnn) (\<lambda>s. ret (s \<noteq> [46] \<and> s \<noteq> [46, 46]))
               else ret False) (\<lambda>append.
       if append
       then bnd (put_elem buf (offnn + ncpy) c) (\<lambda>buf. normalize_loop buf k (name + 1) (offnn + ncpy + 1) 0)
       else normalize_loop buf k (name + 1) offnn 0)
     else bnd (put_elem buf (offnn + ncpy) c) (\<lambda>buf. normalize_loop buf k (name + 1) offnn (ncpy + 1)))"

text \<open>The result is the buffer, or \<open>None\<close> for a null pointer.\<close>

definition zip_name_normalize :: "byte list \<Rightarrow> nat \<Rightarrow> ('s, byte list option) comp" where
  "zip_name_normalize buf len =
     (if len = 0 then ret None
      else bnd (skip_slashes buf 0) (\<lambda>name.
        bnd (normalize_loop buf len name 0 0) (\<lambda>(buf, offnn, ncpy).
        bnd (if ncpy = 0 then ret True else bnd (string_at buf offnn) (\<lambda>s. ret (s = [46] \<or> s = [46, 46]))) (\<lambda>cut.
        if cut then bnd (put_elem buf offnn 0) (\<lambda>buf. ret (Some buf)) else ret (Some buf)))))"

section \<open>Properties\<close>

lemma basename_loop_tail:
  "basename_loop b a xs = (if \<exists>x\<in>set xs. ISSLASH x then rev (takeWhile (\<lambda>c. \<not> ISSLASH c) (rev xs)) else b,
     a \<and> (\<forall>x\<in>set xs. ISSLASH x))"
  by (induction b a xs rule: basename_loop.induct) (auto simp: takeWhile_append takeWhile_tail)

text \<open>The base name is what follows the last slash; a name of slashes only has its last character as base name.\<close>
theorem basename_spec:
  "zip_basename name = (if name \<noteq> [] \<and> (\<forall>c\<in>set name. ISSLASH c) then [last name]
     else rev (takeWhile (\<lambda>c. \<not> ISSLASH c) (rev name)))"
proof (cases "\<exists>c\<in>set name. ISSLASH c")
  case True
  then have "name \<noteq> []" by auto
  show ?thesis
  proof (cases "\<forall>c\<in>set name. ISSLASH c")
    case all: True
    then have "takeWhile (\<lambda>c. \<not> ISSLASH c) (rev name) = []"
      using \<open>name \<noteq> []\<close> by (simp add: takeWhile_eq_Nil_iff hd_rev)
    with all \<open>name \<noteq> []\<close> True show ?thesis by (simp add: zip_basename_def basename_loop_tail)
  next
    case False
    with True \<open>name \<noteq> []\<close> show ?thesis by (auto simp: zip_basename_def basename_loop_tail)
  qed
next
  case False
  then have "takeWhile (\<lambda>c. \<not> ISSLASH c) (rev name) = rev name" by (simp add: takeWhile_eq_all_conv)
  note tw = this
  from False show ?thesis by (cases "name = []") (auto simp: zip_basename_def basename_loop_tail tw)
qed

text \<open>The directories \<open>zip_mkpath\<close> makes when no call fails: the path up to each slash but a leading one.\<close>

definition parents :: "byte list \<Rightarrow> byte list list" where
  "parents path = map (\<lambda>i. take i path) (filter (\<lambda>i. ISSLASH (path ! i)) [1..<length path])"

definition fix_slashes :: "byte list \<Rightarrow> byte list" where
  "fix_slashes path = (case path of [] \<Rightarrow> [] | c # cs \<Rightarrow> c # map (\<lambda>c. if ISSLASH c then 47 else c) cs)"

lemma mkpath_loop_run:
  fixes s :: "'z world_scheme"
  assumes "\<And>n. lib_res E n = None" and "length npath + length p \<le> MAX_PATH" and "npath \<noteq> []"
  shows "wp (mkpath_loop E npath p) (\<lambda>(r, path) t. r = 0 \<and> path = npath @ map (\<lambda>c. if ISSLASH c then 47 else c) p \<and>
    disk t = disk s \<and>
    fs_events t = fs_events s @ map (\<lambda>i. Mkdir (take i path)) (filter (\<lambda>i. ISSLASH (path ! i)) [length npath..<length path])) s"
  using assms(2,3)
proof (induction p arbitrary: npath s)
  case (Cons c p)
  let ?c = "if ISSLASH c then 47 else c"
  let ?path = "npath @ map (\<lambda>c. if ISSLASH c then 47 else c) (c # p)"
  have up: "[length npath..<length ?path] = length npath # [length (npath @ [?c])..<length ?path]"
    by (subst upt_conv_Cons) simp_all
  have nth: "?path ! length npath = ?c" by (simp add: nth_append)
  have c: "ISSLASH ?c = ISSLASH c" by (simp add: ISSLASH_def)
  let ?Q = "\<lambda>(r, path) t. r = 0 \<and> path = ?path \<and> disk t = disk s \<and>
    fs_events t = fs_events s @ map (\<lambda>i. Mkdir (take i path)) (filter (\<lambda>i. ISSLASH (path ! i)) [length npath..<length path])"
  have step: "wp (mkpath_loop E (npath @ [?c]) p) ?Q u"
    if "disk u = disk s" "fs_events u = fs_events s @ (if ISSLASH c then [Mkdir npath] else [])" for u :: "'z world_scheme"
    by (rule wp_mono [OF Cons.IH]) (use Cons.prems that nth c up in \<open>auto simp: nth_append split: if_splits\<close>)
  show ?case
  proof (cases "ISSLASH c")
    case True
    let ?u = "s\<lparr>ncall := Suc (ncall s), fs_events := fs_events s @ [Mkdir npath]\<rparr>"
    have "wp (mkpath_loop E (npath @ [47]) p) ?Q ?u" using step [of ?u] True by simp
    with True Cons.prems assms(1) show ?thesis by simp
  next
    case False
    then have "wp (mkpath_loop E (npath @ [c]) p) ?Q s" using step [of s] by simp
    with False Cons.prems show ?thesis by simp
  qed
qed simp

text \<open>When every \<open>mkdir\<close> succeeds, \<open>zip_mkpath\<close> turns backslashes into slashes and makes the directories on the
  path, outermost first, but not the last component.\<close>
theorem mkpath_makes_parents:
  assumes "\<forall>n. lib_res E n = None" and "length path \<le> MAX_PATH"
  shows "\<exists>t. zip_mkpath E path s = Inr ((0, fix_slashes path), t) \<and>
    fs_events t = fs_events s @ map Mkdir (parents (fix_slashes path))"
proof (cases path)
  case Nil
  then show ?thesis by (simp add: zip_mkpath_def ret_def fix_slashes_def parents_def)
next
  case (Cons c p)
  have "wp (mkpath_loop E [c] p) (\<lambda>(r, path) t. r = 0 \<and> path = [c] @ map (\<lambda>c. if ISSLASH c then 47 else c) p \<and>
    disk t = disk s \<and>
    fs_events t = fs_events s @ map (\<lambda>i. Mkdir (take i path)) (filter (\<lambda>i. ISSLASH (path ! i)) [length [c]..<length path])) s"
    by (rule mkpath_loop_run) (use assms Cons in simp_all)
  then show ?thesis
    by (auto simp: Cons zip_mkpath_def fix_slashes_def parents_def wp_iff)
qed

theorem mkpath_makes_parents_witness:
  "\<exists>t. zip_mkpath calm [97, 92, 98, 47, 99] \<lparr>nalloc = 0, ncall = 0, disk = Map.empty, fs_events = []\<rparr> =
     Inr ((0, [97, 47, 98, 47, 99]), t) \<and> fs_events t = [Mkdir [97], Mkdir [97, 47, 98]]"
  using mkpath_makes_parents [of calm "[97, 92, 98, 47, 99]" "\<lparr>nalloc = 0, ncall = 0, disk = Map.empty, fs_events = []\<rparr>"]
  by (simp add: fix_slashes_def parents_def ISSLASH_def upt_rec)

text \<open>A name that does not start with a slash and has no two slashes in a row; any component may be \<open>.\<close> or \<open>..\<close>.\<close>

definition single_slashes :: "byte list \<Rightarrow> bool" where
  "single_slashes name \<longleftrightarrow> name \<noteq> [] \<and> \<not> ISSLASH (hd name) \<and> 0 \<notin> set name \<and>
     (\<forall>i < length name - 1. ISSLASH (name ! i) \<longrightarrow> \<not> ISSLASH (name ! Suc i))"

text \<open>Where the last component starts.\<close>

definition last_start :: "byte list \<Rightarrow> nat" where
  "last_start name = length name - length (takeWhile (\<lambda>c. \<not> ISSLASH c) (rev name))"

lemma last_start:
  assumes "k \<le> length name" and "k = 0 \<or> ISSLASH (name ! (k - 1))" and "\<forall>j. k \<le> j \<longrightarrow> j < length name \<longrightarrow> \<not> ISSLASH (name ! j)"
  shows "last_start name = k"
proof -
  have tail: "\<forall>c \<in> set (drop k name). \<not> ISSLASH c"
    using assms(1,3) by (auto simp: in_set_conv_nth)
  have "takeWhile (\<lambda>c. \<not> ISSLASH c) (rev (take k name)) = []"
  proof (cases k)
    case (Suc m)
    then have "hd (rev (take k name)) = name ! m" using assms(1) by (simp add: take_Suc_conv_app_nth)
    then show ?thesis using assms(2) Suc by (simp add: takeWhile_eq_Nil_iff)
  qed simp
  moreover have "rev name = rev (drop k name) @ rev (take k name)" by (simp flip: rev_append)
  ultimately have "takeWhile (\<lambda>c. \<not> ISSLASH c) (rev name) = rev (drop k name)"
    using tail by (simp add: takeWhile_append)
  then show ?thesis using assms(1) by (simp add: last_start_def)
qed

lemma string_at_name:
  "0 \<notin> set name \<Longrightarrow> i \<le> length name \<Longrightarrow> string_at (name @ 0 # rest) i = ret (drop i name)"
  by (auto simp: string_at_def takeWhile_append dest: in_set_dropD)

lemma normalize_loop_plain:
  assumes "single_slashes name" and "pos = offnn + ncpy" and "pos + k = length name"
    and "offnn = 0 \<or> ISSLASH (name ! (offnn - 1))" and "\<forall>j. offnn \<le> j \<longrightarrow> j < pos \<longrightarrow> \<not> ISSLASH (name ! j)"
  shows "\<exists>offnn' ncpy'. normalize_loop (name @ 0 # rest) k pos offnn ncpy =
      (ret (name @ 0 # rest, offnn', ncpy') :: ('s, byte list \<times> nat \<times> nat) comp) \<and>
    offnn' + ncpy' = length name \<and> (offnn' = 0 \<or> ISSLASH (name ! (offnn' - 1))) \<and>
    (\<forall>j. offnn' \<le> j \<longrightarrow> j < length name \<longrightarrow> \<not> ISSLASH (name ! j))"
  using assms(2-)
proof (induction k arbitrary: pos offnn ncpy)
  case (Suc k)
  let ?buf = "name @ 0 # rest"
  have pos: "pos < length name" "?buf ! pos = name ! pos" using Suc.prems(2) by (simp_all add: nth_append)
  have same: "?buf[pos := name ! pos] = ?buf" using pos by (simp add: list_update_append list_update_same_conv)
  show ?case
  proof (cases "ISSLASH (name ! pos)")
    case True
    have "ncpy > 0"
    proof (rule ccontr)
      assume "\<not> ncpy > 0"
      then have off: "offnn = pos" using Suc.prems(1) by simp
      show False
      proof (cases pos)
        case 0
        with True assms(1) show False by (metis hd_conv_nth single_slashes_def)
      next
        case (Suc m)
        with Suc.prems(3) off have "ISSLASH (name ! m)" by simp
        moreover have "m < length name - 1" using pos(1) Suc by simp
        ultimately show False using assms(1) True Suc by (auto simp: single_slashes_def)
      qed
    qed
    have "drop offnn name ! ncpy = name ! pos" "ncpy < length (drop offnn name)"
      using Suc.prems(1) pos(1) by (simp_all add: add.commute)
    then have "\<exists>x\<in>set (drop offnn name). ISSLASH x" using True by (metis nth_mem)
    then have dots: "drop offnn name \<noteq> [46]" "drop offnn name \<noteq> [46, 46]" by (auto simp: ISSLASH_def)
    have sa: "string_at ?buf offnn = ret (drop offnn name)"
      by (rule string_at_name) (use assms(1) pos(1) Suc.prems(1) in \<open>simp_all add: single_slashes_def\<close>)
    have "\<exists>offnn' ncpy'. normalize_loop ?buf k (pos + 1) (pos + 1) 0 = (ret (?buf, offnn', ncpy') :: ('s, byte list \<times> nat \<times> nat) comp) \<and>
        offnn' + ncpy' = length name \<and> (offnn' = 0 \<or> ISSLASH (name ! (offnn' - 1))) \<and>
        (\<forall>j. offnn' \<le> j \<longrightarrow> j < length name \<longrightarrow> \<not> ISSLASH (name ! j))"
      by (rule Suc.IH) (use Suc.prems(2) True in auto)
    then show ?thesis using True \<open>ncpy > 0\<close> dots pos same Suc.prems(1) by (simp add: sa)
  next
    case False
    have "\<exists>offnn' ncpy'. normalize_loop ?buf k (pos + 1) offnn (ncpy + 1) = (ret (?buf, offnn', ncpy') :: ('s, byte list \<times> nat \<times> nat) comp) \<and>
        offnn' + ncpy' = length name \<and> (offnn' = 0 \<or> ISSLASH (name ! (offnn' - 1))) \<and>
        (\<forall>j. offnn' \<le> j \<longrightarrow> j < length name \<longrightarrow> \<not> ISSLASH (name ! j))"
      by (rule Suc.IH) (use Suc.prems False in \<open>auto simp: less_Suc_eq\<close>)
    then show ?thesis using False pos same Suc.prems(1) by simp
  qed
qed auto

text \<open>C17. What \<open>zip_name_normalize\<close> does to the name of an entry, in place as it is called, when the name does not start with
  a slash and has no two slashes in a row: it cuts the last component off when that is \<open>.\<close> or \<open>..\<close>, and changes nothing else. The
  components \<open>..\<close> before it, which it is meant to remove, stay, so that the extracted path can leave the directory.\<close>
theorem normalize_cuts_last_only:
  assumes "single_slashes name"
  shows "zip_name_normalize (name @ 0 # rest) (length name) =
    (let k = last_start name in
     ret (Some (if drop k name = [46] \<or> drop k name = [46, 46] then take k name @ 0 # drop (k + 1) name @ 0 # rest
       else name @ 0 # rest)))"
proof -
  let ?buf = "name @ 0 # rest"
  obtain c cs where "name = c # cs" "\<not> ISSLASH c" using assms by (cases name) (auto simp: single_slashes_def)
  then have skip: "skip_slashes ?buf 0 = ret 0" by (simp add: skip_slashes.simps)
  have "\<exists>offnn ncpy. normalize_loop ?buf (length name) 0 0 0 = ret (?buf, offnn, ncpy) \<and>
      offnn + ncpy = length name \<and> (offnn = 0 \<or> ISSLASH (name ! (offnn - 1))) \<and>
      (\<forall>j. offnn \<le> j \<longrightarrow> j < length name \<longrightarrow> \<not> ISSLASH (name ! j))"
    by (rule normalize_loop_plain [OF assms]) simp_all
  then obtain offnn ncpy where r: "normalize_loop ?buf (length name) 0 0 0 = (ret (?buf, offnn, ncpy) :: ('a, byte list \<times> nat \<times> nat) comp)"
    and off: "offnn + ncpy = length name" "offnn = 0 \<or> ISSLASH (name ! (offnn - 1))"
      "\<forall>j. offnn \<le> j \<longrightarrow> j < length name \<longrightarrow> \<not> ISSLASH (name ! j)" by blast
  have k: "last_start name = offnn" by (rule last_start) (use off in auto)
  have name: "name \<noteq> []" "0 \<notin> set name" using assms by (simp_all add: single_slashes_def)
  show ?thesis
  proof (cases "ncpy = 0")
    case True
    with off have "offnn = length name" by simp
    then have "?buf[offnn := 0] = ?buf" "offnn < length ?buf" "drop offnn name = []" by simp_all
    with True name show ?thesis by (simp add: zip_name_normalize_def skip r k)
  next
    case False
    then have less: "offnn < length name" using off(1) by simp
    then have "?buf[offnn := 0] = take offnn name @ 0 # drop (offnn + 1) name @ 0 # rest"
      by (simp add: list_update_append upd_conv_take_nth_drop)
    moreover note string_at_name [OF name(2), of offnn rest]
    ultimately show ?thesis using False name off(1) less by (simp add: zip_name_normalize_def skip r k string_at_name)
  qed
qed

lemma all_below: "(\<forall>i < n. P i) \<longleftrightarrow> (\<forall>i \<in> set [0..<n]. P i)"
  by auto

theorem normalize_cuts_last_only_witness:
  "zip_name_normalize [46, 46, 47, 46, 46, 47, 120, 0] 7 = ret (Some [46, 46, 47, 46, 46, 47, 120, 0]) \<and>
   zip_name_normalize [46, 46, 47, 120, 47, 46, 46, 0] 7 = ret (Some [46, 46, 47, 120, 47, 0, 46, 0])"
proof -
  have s: "single_slashes [46, 46, 47, 46, 46, 47, 120]" "single_slashes [46, 46, 47, 120, 47, 46, 46]"
    unfolding single_slashes_def all_below by (simp_all add: ISSLASH_def upt_rec)
  have k: "last_start [46, 46, 47, 46, 46, 47, 120] = 6" "last_start [46, 46, 47, 120, 47, 46, 46] = 5"
    by (simp_all add: last_start_def ISSLASH_def)
  have l: "length [46, 46, 47, 46, 46, 47, 120 :: byte] = 7" "length [46, 46, 47, 120, 47, 46, 46 :: byte] = 7" by simp_all
  show ?thesis
    using normalize_cuts_last_only [OF s(1), of "[]"] normalize_cuts_last_only [OF s(2), of "[]"]
    unfolding l k by (simp add: Let_def)
qed

end
