(* ===== verification/Zip_Delete.thy ===== *)
theory Zip_Delete
  imports Miniz_Reader Zip_Paths
begin

text \<open>
  Deleting entries in place, the part of \<open>server/src/zip.c\<close> behind \<open>zip_entries_delete\<close>: the order of the local
  records, moving data inside the archive file, and closing the gaps in the central directory and its index.
  Arrays are lists, and an access outside of one is a fault.
\<close>

section \<open>Marks\<close>

datatype zip_modify_t = MZ_KEEP | MZ_DELETE | MZ_MOVE

record zip_entry_mark_t =
  file_index :: int
  mark_type :: zip_modify_t
  local_header_ofs :: nat
  lf_length :: nat

section \<open>The order of the local records\<close>

definition zip_index_next :: "nat list \<Rightarrow> nat \<Rightarrow> ('s, nat) comp" where
  "zip_index_next local_header_ofs_array cur_index = bnd (elem local_header_ofs_array cur_index) (\<lambda>cur.
     ret (case scan_back (\<lambda>i. cur > local_header_ofs_array ! i) cur_index of None \<Rightarrow> 0 | Some i \<Rightarrow> i + 1))"

text \<open>\<open>for (i = cur_index; i > nxt_index; i--)\<close>.\<close>

fun shift_loop :: "nat list \<Rightarrow> nat \<Rightarrow> nat \<Rightarrow> nat list" where
  "shift_loop ofs nxt_index 0 = ofs"
| "shift_loop ofs nxt_index (Suc i) =
     (if Suc i > nxt_index then shift_loop (ofs[Suc i := ofs ! i]) nxt_index i else ofs)"

definition zip_sort :: "nat list \<Rightarrow> nat \<Rightarrow> ('s, nat list \<times> nat) comp" where
  "zip_sort ofs cur_index = bnd (zip_index_next ofs cur_index) (\<lambda>nxt_index.
     ret (if nxt_index \<noteq> cur_index then (shift_loop ofs nxt_index cur_index)[nxt_index := ofs ! cur_index] else ofs,
       nxt_index))"

definition zip_index_update :: "zip_entry_mark_t list \<Rightarrow> nat \<Rightarrow> nat \<Rightarrow> zip_entry_mark_t list" where
  "zip_index_update entry_mark last_index nxt_index =
     (let ms = map (\<lambda>m. if file_index m \<ge> int nxt_index then m\<lparr>file_index := file_index m + 1\<rparr> else m)
            (take last_index entry_mark) @ drop last_index entry_mark
      in ms[nxt_index := (ms ! nxt_index)\<lparr>file_index := int last_index\<rparr>])"

text \<open>The first loop of \<open>zip_entry_finalize\<close>; the third argument is \<open>i\<close>, the last counts the rounds left.\<close>

fun order_loop ::
    "zip_entry_mark_t list \<Rightarrow> nat list \<Rightarrow> nat \<Rightarrow> nat \<Rightarrow> ('s, zip_entry_mark_t list \<times> nat list) comp" where
  "order_loop entry_mark ofs i 0 = ret (entry_mark, ofs)"
| "order_loop entry_mark ofs i (Suc k) =
     bnd (elem entry_mark i) (\<lambda>m. bnd (put_elem ofs i (local_header_ofs m)) (\<lambda>ofs.
     bnd (zip_sort ofs i) (\<lambda>(ofs, index).
     let ms = (if index \<noteq> i then zip_index_update entry_mark i index else entry_mark) in
     order_loop (ms[i := (ms ! i)\<lparr>file_index := int index\<rparr>]) ofs (i + 1) k)))"

text \<open>The last loop.\<close>

fun length_loop :: "nat list \<Rightarrow> zip_entry_mark_t list \<Rightarrow> ('s, zip_entry_mark_t list) comp" where
  "length_loop lengths [] = ret []"
| "length_loop lengths (m # ms) = bnd (elem lengths (nat (file_index m))) (\<lambda>l.
     bnd (length_loop lengths ms) (\<lambda>ms. ret (m\<lparr>lf_length := l\<rparr> # ms)))"

text \<open>The result and the array of marks; without entries \<open>length[n - 1]\<close> lies in front of its block.\<close>

definition zip_entry_finalize ::
    "zenv \<Rightarrow> zip_entry_mark_t list \<Rightarrow> nat \<Rightarrow> ('z zst_scheme, int \<times> zip_entry_mark_t list) comp" where
  "zip_entry_finalize E entry_mark n = bnd (alloc E) (\<lambda>ok.
     if \<not> ok then ret (ZIP_EOOMEM, entry_mark)
     else bnd (order_loop entry_mark (replicate n 0) 0 n) (\<lambda>(ms, ofs).
       bnd (alloc E) (\<lambda>ok.
       if \<not> ok then ret (ZIP_EOOMEM, ms)
       else if n = 0 then fail Out_of_bounds
       else bnd (gets (\<lambda>s. m_archive_size (arch s))) (\<lambda>sz.
         let lengths = map (\<lambda>i. sub64 (ofs ! (i + 1)) (ofs ! i)) [0..<n - 1] @ [sub64 sz (ofs ! (n - 1))] in
         bnd (length_loop lengths (take n ms)) (\<lambda>done. ret (0, done @ drop n ms))))))"

section \<open>Moving data in the file\<close>

definition close_stream :: "zenv \<Rightarrow> ('z zst_scheme, unit) comp" where
  "close_stream E = bnd stream_of_state (\<lambda>f. bnd (fclose E f) (\<lambda>(_, f). put_stream f))"

text \<open>\<open>m_pFile\<close> is the stream of the archive; the data goes through a buffer of \<open>capacity_size\<close> bytes.\<close>

definition zip_file_move :: "zenv \<Rightarrow> nat \<Rightarrow> nat \<Rightarrow> nat \<Rightarrow> int \<Rightarrow> ('z zst_scheme, int) comp" where
  "zip_file_move E target source len capacity_size =
     (if s64 len > capacity_size then ret ZIP_ECAPSIZE
      else bnd stream_of_state (\<lambda>f. bnd (fseek_set E f source) (\<lambda>(ok, f). seq (put_stream f)
        (if \<not> ok then seq (close_stream E) (ret ZIP_EFSEEK)
         else bnd (fread E f len) (\<lambda>(move_buf, f). seq (put_stream f)
           (if length move_buf \<noteq> len then seq (close_stream E) (ret ZIP_EFREAD)
            else bnd (fseek_set E f target) (\<lambda>(ok, f). seq (put_stream f)
              (if \<not> ok then seq (close_stream E) (ret ZIP_EFSEEK)
               else bnd (fwrite E f move_buf) (\<lambda>(k, f). seq (put_stream f)
                 (if k \<noteq> len then seq (close_stream E) (ret ZIP_EFWRITE) else ret (s64 len)))))))))))"

function files_move_loop :: "zenv \<Rightarrow> nat \<Rightarrow> nat \<Rightarrow> nat \<Rightarrow> int \<Rightarrow> ('z zst_scheme, int) comp" where
  "files_move_loop E writen_num read_num len moved_length =
     (if s64 len \<le> 0 then ret moved_length
      else
        let move_count = (if s64 len \<ge> 4096 then 4096 else len) in
        bnd (zip_file_move E writen_num read_num move_count 4096) (\<lambda>n.
          if n < 0 then ret n
          else if n \<noteq> int move_count then ret moved_length
          else files_move_loop E (u64 (writen_num + move_count)) (u64 (read_num + move_count)) (len - move_count)
                 (moved_length + int move_count)))"
  by pat_completeness auto
termination
  by (relation "measure (\<lambda>(E, w, r, len, m). len)") (auto simp: s64_def u64_def Let_def split: if_splits)

declare files_move_loop.simps [simp del]

definition zip_files_move :: "zenv \<Rightarrow> nat \<Rightarrow> nat \<Rightarrow> nat \<Rightarrow> ('z zst_scheme, int) comp" where
  "zip_files_move E writen_num read_num len = bnd (alloc E) (\<lambda>ok.
     if \<not> ok then ret ZIP_EOOMEM else files_move_loop E writen_num read_num len 0)"

section \<open>Closing gaps in the central directory\<close>

text \<open>\<open>for (i = lo; i < hi; i++) offsets[i] -= d\<close>.\<close>

definition sub_offsets :: "nat list \<Rightarrow> nat \<Rightarrow> nat \<Rightarrow> nat \<Rightarrow> ('s, nat list) comp" where
  "sub_offsets offs lo hi d =
     (if lo < hi \<and> hi > length offs then fail Out_of_bounds
      else ret (map (\<lambda>i. if lo \<le> i \<and> i < hi then sub32 (offs ! i) d else offs ! i) [0..<length offs]))"

text \<open>
  Without a next record \<open>next\<close> is a null pointer and \<open>r_size\<close> is 0. \<open>realloc\<close> leaves a null pointer when it fails
  and when the new size is 0; the capacity in the array does not change.
\<close>

definition zip_central_dir_move :: "zenv \<Rightarrow> nat \<Rightarrow> nat \<Rightarrow> nat \<Rightarrow> ('z zst_scheme, unit) comp" where
  "zip_central_dir_move E beg en entry_num =
     (if beg = entry_num then skip
      else bnd get_state (\<lambda>st.
        let cd = m_p (m_central_dir st); offs = m_p (m_central_dir_offsets st) in
        bnd (elem offs beg) (\<lambda>deleted.
        bnd (if en = entry_num then ret (0, 0, 0)
             else bnd (elem offs en) (\<lambda>next.
               ret (next, sub64 (m_size (m_central_dir st)) next, sub64 next deleted))) (\<lambda>(next, r_size, d_size).
        let l_size = deleted in
        bnd (if l_size = 0
             then bnd (peek r_size cd next) (\<lambda>rest. bnd (poke cd 0 rest) (\<lambda>cd. bnd (alloc E) (\<lambda>ok.
               bnd (sub_offsets offs en entry_num d_size) (\<lambda>offs. ret (if ok then take r_size cd else [], offs)))))
             else ret (cd, offs)) (\<lambda>(cd, offs).
        bnd (if l_size * r_size \<noteq> 0
             then bnd (peek r_size cd next) (\<lambda>rest. bnd (poke cd deleted rest) (\<lambda>cd.
               bnd (sub_offsets offs en entry_num d_size) (\<lambda>offs. ret (cd, offs))))
             else ret (cd, offs)) (\<lambda>(cd, offs).
        put_state (st\<lparr>m_central_dir := (m_central_dir st)\<lparr>m_p := cd, m_size := l_size + r_size\<rparr>,
          m_central_dir_offsets := (m_central_dir_offsets st)\<lparr>m_p := offs\<rparr>\<rparr>)))))))"

text \<open>
  \<open>while (P a[i] && i < n) i++\<close>: where it stops. The element there is read before \<open>i\<close> is compared with \<open>n\<close>,
  which \<open>probe\<close> accounts for.
\<close>

function run_end :: "('a \<Rightarrow> bool) \<Rightarrow> 'a list \<Rightarrow> nat \<Rightarrow> nat \<Rightarrow> nat" where
  "run_end P xs n i = (if i < n \<and> P (xs ! i) then run_end P xs n (i + 1) else i)"
  by pat_completeness auto
termination by (relation "measure (\<lambda>(P, xs, n, i). n - i)") auto

declare run_end.simps [simp del]

lemma run_end_ge: "i \<le> run_end P xs n i"
  by (induction P xs n i rule: run_end.induct) (subst run_end.simps, auto)

lemma run_end_gt: "i < n \<Longrightarrow> P (xs ! i) \<Longrightarrow> i < run_end P xs n i"
  by (subst run_end.simps) (simp add: run_end_ge [THEN less_le_trans [rotated]] Suc_le_eq [symmetric] run_end_ge)

lemma group_progress:
  assumes "i < n"
  shows "i < run_end (\<lambda>b. b) d n (run_end Not d n i)"
proof (cases "d ! i")
  case True
  then have "run_end Not d n i = i" by (simp add: run_end.simps [of Not])
  with True assms show ?thesis by (simp add: run_end_gt)
next
  case False
  with assms have "i < run_end Not d n i" by (simp add: run_end_gt)
  also have "run_end Not d n i \<le> run_end (\<lambda>b. b) d n (run_end Not d n i)" by (simp add: run_end_ge)
  finally show ?thesis .
qed

definition probe :: "'a list \<Rightarrow> nat \<Rightarrow> ('s, unit) comp" where
  "probe xs i = (if i < length xs then skip else fail Out_of_bounds)"

function delete_moves :: "zenv \<Rightarrow> bool list \<Rightarrow> nat \<Rightarrow> nat \<Rightarrow> ('z zst_scheme, unit) comp" where
  "delete_moves E deleted entry_num i =
     (if i < entry_num
      then
        let beg = run_end Not deleted entry_num i; en = run_end (\<lambda>b. b) deleted entry_num beg in
        seq (probe deleted beg) (seq (probe deleted en)
        (seq (zip_central_dir_move E beg en entry_num) (delete_moves E deleted entry_num en)))
      else skip)"
  by pat_completeness auto
termination
  by (relation "measure (\<lambda>(E, d, n, i). n - i)") (simp_all add: diff_less_mono2 group_progress)

declare delete_moves.simps [simp del]

text \<open>The second loop: the offsets behind each run move to its start; \<open>d_num\<close> counts the deleted entries.\<close>

function compact_offsets :: "bool list \<Rightarrow> nat \<Rightarrow> nat \<Rightarrow> nat list \<Rightarrow> nat \<Rightarrow> ('s, nat list \<times> nat) comp" where
  "compact_offsets deleted entry_num i offs d_num =
     (if i < entry_num
      then
        let beg = run_end Not deleted entry_num i; en = run_end (\<lambda>b. b) deleted entry_num beg in
        seq (probe deleted beg)
        (if beg = entry_num then ret (offs, d_num)
         else seq (probe deleted en)
           (if en < entry_num \<and> entry_num > length offs then fail Out_of_bounds
            else compact_offsets deleted entry_num en (overwrite offs beg (take (entry_num - en) (drop en offs)))
              (d_num + (en - beg))))
      else ret (offs, d_num))"
  by pat_completeness auto
termination
  by (relation "measure (\<lambda>(d, n, i, offs, k). n - i)") (simp_all add: diff_less_mono2 group_progress)

declare compact_offsets.simps [simp del]

text \<open>The size of the index is set in bytes, although it counts elements.\<close>

definition zip_central_dir_delete :: "zenv \<Rightarrow> bool list \<Rightarrow> nat \<Rightarrow> ('z zst_scheme, unit) comp" where
  "zip_central_dir_delete E deleted entry_num = seq (delete_moves E deleted entry_num 0)
     (bnd get_state (\<lambda>st. bnd (compact_offsets deleted entry_num 0 (m_p (m_central_dir_offsets st)) 0)
       (\<lambda>(offs, d_num). put_state (st\<lparr>m_central_dir_offsets :=
          (m_central_dir_offsets st)\<lparr>m_p := offs, m_size := 4 * (entry_num - d_num)\<rparr>\<rparr>))))"

section \<open>Deleting what is marked\<close>

text \<open>The fields for the local header offset of \<open>k\<close> entries from \<open>i\<close> on are lowered by \<open>deleted_length\<close>.\<close>

fun patch_loop :: "byte list \<Rightarrow> nat list \<Rightarrow> nat \<Rightarrow> nat \<Rightarrow> nat \<Rightarrow> ('s, byte list) comp" where
  "patch_loop cd offs deleted_length i 0 = ret cd"
| "patch_loop cd offs deleted_length i (Suc k) = bnd (elem offs i) (\<lambda>p.
     bnd (load 4 cd (p + MZ_ZIP_CDH_LOCAL_HEADER_OFS)) (\<lambda>offset.
     bnd (poke cd (p + MZ_ZIP_CDH_LOCAL_HEADER_OFS) (le 4 (sub32 offset deleted_length))) (\<lambda>cd.
     patch_loop cd offs deleted_length (i + 1) k)))"

definition total_length :: "zip_entry_mark_t list \<Rightarrow> nat \<Rightarrow> nat \<Rightarrow> nat" where
  "total_length ms a b = sum_list (map lf_length (take (b - a) (drop a ms)))"

text \<open>Every round of the loop over the marks passes at least one of them.\<close>

lemma marks_progress:
  assumes "i < n"
  shows "i < run_end (\<lambda>m. mark_type m = MZ_MOVE) ms n (run_end (\<lambda>m. mark_type m = MZ_DELETE) ms n
    (run_end (\<lambda>m. mark_type m = MZ_KEEP) ms n i))" (is "i < ?c")
proof -
  let ?a = "run_end (\<lambda>m. mark_type m = MZ_KEEP) ms n i"
  let ?b = "run_end (\<lambda>m. mark_type m = MZ_DELETE) ms n ?a"
  have ge: "i \<le> ?a" "?a \<le> ?b" "?b \<le> ?c" by (simp_all add: run_end_ge)
  show ?thesis
  proof (cases "mark_type (ms ! i)")
    case MZ_KEEP
    then have "i < ?a" using assms by (simp add: run_end_gt)
    with ge show ?thesis by simp
  next
    case MZ_DELETE
    then have "?a = i" by (simp add: run_end.simps [of _ ms n i])
    with MZ_DELETE assms have "i < ?b" by (simp add: run_end_gt)
    with ge show ?thesis by simp
  next
    case MZ_MOVE
    then have "?a = i" by (simp add: run_end.simps [of _ ms n i])
    moreover from this MZ_MOVE have "?b = i" by (simp add: run_end.simps [of _ ms n i])
    ultimately show ?thesis using MZ_MOVE assms by (simp add: run_end_gt)
  qed
qed

text \<open>
  The loop over the marks; its variables in the order of the source. The result is an error or the flags with
  \<open>deleted_length\<close> and \<open>deleted_entry_num\<close>. \<open>move_length\<close> is not reset between rounds.
\<close>

function mark_loop ::
    "zenv \<Rightarrow> zip_entry_mark_t list \<Rightarrow> nat \<Rightarrow> nat \<Rightarrow> nat \<Rightarrow> nat \<Rightarrow> nat \<Rightarrow> nat \<Rightarrow> nat \<Rightarrow> bool list \<Rightarrow>
     ('z zst_scheme, int + (bool list \<times> nat \<times> nat)) comp" where
  "mark_loop E entry_mark entry_num writen_num read_num deleted_length move_length i deleted_entry_num flags =
     (if i < entry_num
      then
        let a = run_end (\<lambda>m. mark_type m = MZ_KEEP) entry_mark entry_num i;
            b = run_end (\<lambda>m. mark_type m = MZ_DELETE) entry_mark entry_num a;
            c = run_end (\<lambda>m. mark_type m = MZ_MOVE) entry_mark entry_num b;
            writen_num = u64 (writen_num + total_length entry_mark i a);
            read_num = u64 ((if a > i then writen_num else read_num) + total_length entry_mark a b);
            deleted_length = u64 (deleted_length + total_length entry_mark a b);
            move_length = u64 (move_length + total_length entry_mark b c)
        in
        seq (probe entry_mark a) (seq (probe entry_mark b)
        (bnd get_state (\<lambda>st.
        bnd (patch_loop (m_p (m_central_dir st)) (m_p (m_central_dir_offsets st)) deleted_length b (c - b)) (\<lambda>cd.
        seq (put_state (st\<lparr>m_central_dir := (m_central_dir st)\<lparr>m_p := cd\<rparr>\<rparr>))
        (seq (probe entry_mark c)
        (bnd (zip_files_move E writen_num read_num move_length) (\<lambda>r.
          if s32 r \<noteq> s64 move_length then ret (Inl (s32 r))
          else mark_loop E entry_mark entry_num (u64 (writen_num + move_length)) (u64 (read_num + move_length))
                 deleted_length move_length c (deleted_entry_num + (b - a))
                 (overwrite flags a (replicate (b - a) True)))))))))
      else ret (Inr (flags, deleted_length, deleted_entry_num)))"
  by pat_completeness auto
termination
  by (relation "measure (\<lambda>(E, ms, n, w, r, d, m, i, k, fl). n - i)") (simp_all add: diff_less_mono2 marks_progress)

declare mark_loop.simps [simp del]

text \<open>
  \<open>slack\<close>: what can be read behind the block of flags. The loops read one element past the end, so that without
  slack the function has a fault.
\<close>

definition zip_entries_delete_mark ::
    "zenv \<Rightarrow> bool list \<Rightarrow> zip_entry_mark_t list \<Rightarrow> nat \<Rightarrow> ('z zst_scheme, int) comp" where
  "zip_entries_delete_mark E slack entry_mark entry_num = bnd (alloc E) (\<lambda>ok.
     if \<not> ok then ret ZIP_EOOMEM
     else
       seq (upd_arch (\<lambda>a. a\<lparr>m_zip_mode := MZ_ZIP_MODE_WRITING\<rparr>))
       (bnd stream_of_state (\<lambda>f. bnd (fseek_set E f 0) (\<lambda>(ok, f). seq (put_stream f)
         (if \<not> ok then ret ZIP_ENOENT
          else bnd (mark_loop E entry_mark entry_num 0 0 0 0 0 0 (replicate entry_num False @ slack)) (\<lambda>r. case r of
              Inl n \<Rightarrow> ret n
            | Inr (flags, deleted_length, deleted_entry_num) \<Rightarrow>
                seq (upd_arch (\<lambda>a. a\<lparr>m_archive_size := sub64 (m_archive_size a) deleted_length,
                       m_total_files := entry_num - deleted_entry_num\<rparr>))
                (seq (zip_central_dir_delete E flags entry_num) (ret (int deleted_entry_num)))))))))"

end
