(* ===== verification/Zip_Delete_Facts.thy ===== *)
theory Zip_Delete_Facts
  imports Zip_Delete Miniz_Open
begin

text \<open>
  The functions behind \<open>zip_entries_delete\<close>: the insertion sort of the offsets, the lengths of the local records, the
  move of a block inside the file, and the deletion of one group of entries are right; the index kept with the
  sort, the deletion of two groups and the bounds of the flag array are not.
\<close>

section \<open>Insertion sort of the offsets\<close>

lemma scan_back_Some: "scan_back P n = Some i \<longleftrightarrow> i < n \<and> P i \<and> (\<forall>j. i < j \<longrightarrow> j < n \<longrightarrow> \<not> P j)"
proof (induction n)
  case (Suc n)
  show ?case
  proof (cases "P n")
    case True
    then show ?thesis by (auto simp: less_Suc_eq)
  next
    case False
    with Suc show ?thesis by (auto simp: less_Suc_eq)
  qed
qed simp

lemma scan_back_None_iff: "scan_back P n = None \<longleftrightarrow> (\<forall>j < n. \<not> P j)"
  by (induction n) (auto simp: less_Suc_eq)

lemma length_shift_loop [simp]: "length (shift_loop ofs nxt i) = length ofs"
  by (induction ofs nxt i rule: shift_loop.induct) auto

lemma shift_loop_nth:
  "nxt \<le> i \<Longrightarrow> i < length ofs \<Longrightarrow> j < length ofs \<Longrightarrow> j \<noteq> nxt \<Longrightarrow>
   shift_loop ofs nxt i ! j = (if nxt < j \<and> j \<le> i then ofs ! (j - 1) else ofs ! j)"
proof (induction ofs nxt i rule: shift_loop.induct)
  case (2 ofs nxt i)
  show ?case
  proof (cases "Suc i > nxt")
    case True
    then have IH: "shift_loop (ofs[Suc i := ofs ! i]) nxt i ! j =
        (if nxt < j \<and> j \<le> i then ofs[Suc i := ofs ! i] ! (j - 1) else ofs[Suc i := ofs ! i] ! j)"
      using 2 by simp
    show ?thesis using True 2(3-) by (auto simp: IH nth_list_update)
  next
    case False
    with 2 show ?thesis by auto
  qed
qed simp

text \<open>The new element is inserted into the prefix before it.\<close>

lemma insertion_list:
  assumes "nxt \<le> i" and "i < length ofs"
  shows "(shift_loop ofs nxt i)[nxt := ofs ! i] = take nxt ofs @ ofs ! i # take (i - nxt) (drop nxt ofs) @ drop (Suc i) ofs"
proof (rule nth_equalityI)
  show "length ((shift_loop ofs nxt i)[nxt := ofs ! i]) =
      length (take nxt ofs @ ofs ! i # take (i - nxt) (drop nxt ofs) @ drop (Suc i) ofs)"
    using assms by simp
  fix j
  assume "j < length ((shift_loop ofs nxt i)[nxt := ofs ! i])"
  then have j: "j < length ofs" by simp
  consider "j < nxt" | "j = nxt" | "nxt < j" "j \<le> i" | "i < j" by linarith
  then show "(shift_loop ofs nxt i)[nxt := ofs ! i] ! j =
      (take nxt ofs @ ofs ! i # take (i - nxt) (drop nxt ofs) @ drop (Suc i) ofs) ! j"
  proof cases
    case 1
    with assms j show ?thesis by (simp add: shift_loop_nth nth_append)
  next
    case 2
    with assms j show ?thesis by (simp add: nth_append)
  next
    case 3
    obtain m where m: "j = Suc m" using 3 by (cases j) auto
    with 3 have "nxt \<le> m" "m < i" "m - nxt < i - nxt" by (simp_all add: diff_less_mono)
    with assms j m show ?thesis by (simp add: shift_loop_nth nth_append Suc_diff_le)
  next
    case 4
    obtain m where m: "j = Suc i + m" using 4 by (auto dest: less_imp_Suc_add)
    have "\<not> i + m - nxt < i - nxt" "i + m - nxt - (i - nxt) = m" using assms(1) by linarith+
    with assms j m show ?thesis by (simp add: shift_loop_nth nth_append Suc_diff_le)
  qed
qed

text \<open>When the offsets before \<open>i\<close> are in order, \<open>zip_sort\<close> inserts the one at \<open>i\<close>: it permutes the array, leaves
  what is behind \<open>i\<close> alone, and the offsets up to \<open>i\<close> are in order; the result is the place of the inserted one.\<close>
theorem zip_sort_inserts:
  assumes "sorted (take i ofs)" and "i < length ofs"
  shows "\<exists>ofs' k. zip_sort ofs i = (ret (ofs', k) :: ('s, nat list \<times> nat) comp) \<and> mset ofs' = mset ofs \<and> sorted (take (Suc i) ofs') \<and>
    drop (Suc i) ofs' = drop (Suc i) ofs \<and> k \<le> i \<and> ofs' ! k = ofs ! i"
proof -
  define k where "k = (case scan_back (\<lambda>j. ofs ! i > ofs ! j) i of None \<Rightarrow> 0 | Some j \<Rightarrow> j + 1)"
  have k: "k \<le> i" "\<And>j. j < k \<Longrightarrow> ofs ! j \<le> ofs ! i" "\<And>j. k \<le> j \<Longrightarrow> j < i \<Longrightarrow> ofs ! i \<le> ofs ! j"
  proof -
    have mono: "ofs ! a \<le> ofs ! b" if "a \<le> b" "b < i" for a b
      using sorted_nth_mono [OF assms(1), of a b] that assms(2) by simp
    show "k \<le> i" by (auto simp: k_def scan_back_Some split: option.splits)
    show "ofs ! j \<le> ofs ! i" if "j < k" for j
    proof -
      from that obtain m where m: "scan_back (\<lambda>j. ofs ! i > ofs ! j) i = Some m" "j \<le> m"
        by (auto simp: k_def split: option.splits)
      then have "m < i" "ofs ! m < ofs ! i" by (simp_all add: scan_back_Some)
      with mono [OF m(2)] show ?thesis by simp
    qed
    show "ofs ! i \<le> ofs ! j" if "k \<le> j" "j < i" for j
      using that by (auto simp: k_def scan_back_Some scan_back_None_iff not_less split: option.splits)
  qed
  let ?new = "take k ofs @ ofs ! i # take (i - k) (drop k ofs) @ drop (Suc i) ofs"
  have tk: "take i ofs = take k ofs @ take (i - k) (drop k ofs)" using k(1) by (metis le_add_diff_inverse take_add)
  have split: "ofs = take k ofs @ take (i - k) (drop k ofs) @ ofs ! i # drop (Suc i) ofs"
    using id_take_nth_drop [OF assms(2)] tk by simp
  have same: "?new = ofs" if "k = i" using that id_take_nth_drop [OF assms(2)] by simp
  have new: "(if k \<noteq> i then (shift_loop ofs k i)[k := ofs ! i] else ofs) = ?new"
    using insertion_list [OF k(1) assms(2)] same by simp
  have "mset (take k ofs @ take (i - k) (drop k ofs) @ ofs ! i # drop (Suc i) ofs) = mset ofs"
    by (simp only: split [symmetric])
  then have m: "mset ?new = mset ofs" by simp
  have "length (take k ofs @ ofs ! i # take (i - k) (drop k ofs)) = Suc i" using k(1) assms(2) by (simp add: min_absorb2)
  then have tn: "take (Suc i) ?new = take k ofs @ ofs ! i # take (i - k) (drop k ofs)"
    and dn: "drop (Suc i) ?new = drop (Suc i) ofs"
    by (metis append.assoc append_Cons append_eq_conv_conj)+
  have lo: "x \<le> ofs ! i" if "x \<in> set (take k ofs)" for x
    using that k(1,2) assms(2) by (auto simp: in_set_conv_nth)
  have hi: "ofs ! i \<le> x" if "x \<in> set (take (i - k) (drop k ofs))" for x
    using that k(1) k(3) assms(2) by (auto simp: in_set_conv_nth)
  have "sorted (take (Suc i) ?new)"
    unfolding tn using assms(1) lo hi unfolding tk by (auto simp: sorted_append intro: order_trans)
  moreover have "?new ! k = ofs ! i" using k(1) assms(2) by (simp add: nth_append)
  moreover have "zip_index_next ofs i = (ret k :: ('s, nat) comp)"
    using assms(2) unfolding k_def by (simp add: zip_index_next_def)
  then have "zip_sort ofs i = (ret (?new, k) :: ('s, nat list \<times> nat) comp)" using new by (simp add: zip_sort_def)
  ultimately show ?thesis using m k(1) dn by blast
qed

theorem zip_sort_inserts_witness:
  "\<exists>ofs' k. zip_sort [10, 30, 20, 99] 2 = (ret (ofs', k) :: ('s, nat list \<times> nat) comp) \<and> mset ofs' = mset [10, 20, 30, 99] \<and> sorted (take 3 ofs') \<and>
    drop 3 ofs' = [99] \<and> ofs' ! k = 20"
proof -
  have "sorted (take 2 [10, 30, 20, 99 :: nat])" "2 < length [10, 30, 20, 99 :: nat]" by simp_all
  from zip_sort_inserts [OF this] obtain ofs' k where "zip_sort [10, 30, 20, 99] 2 = (ret (ofs', k) :: ('s, nat list \<times> nat) comp)"
    "mset ofs' = mset [10, 30, 20, 99 :: nat]" "sorted (take (Suc 2) ofs')" "drop (Suc 2) ofs' = drop (Suc 2) [10, 30, 20, 99 :: nat]"
    "ofs' ! k = [10, 30, 20, 99 :: nat] ! 2" by blast
  then show ?thesis by (intro exI [of _ ofs'] exI [of _ k]) simp
qed

section \<open>The lengths of the local records\<close>

text \<open>When the entries stand in the central directory in the order of their data, nothing is sorted.\<close>

lemma zip_sort_ascending:
  assumes "i < length ofs" and "\<forall>j < i. ofs ! j < ofs ! i"
  shows "zip_sort ofs i = ret (ofs, i)"
proof (cases i)
  case 0
  then show ?thesis using assms(1) by (simp add: zip_sort_def zip_index_next_def)
next
  case (Suc n)
  then show ?thesis using assms by (simp add: zip_sort_def zip_index_next_def)
qed

lemma order_loop_ascending:
  assumes "length ofs = length ms" and "i + k = length ms" and "sorted_wrt (<) (map local_header_ofs ms)"
    and "take i ofs = take i (map local_header_ofs ms)" and "\<forall>j < i. file_index (ms ! j) = int j"
  shows "\<exists>ms'. order_loop ms ofs i k = (ret (ms', map local_header_ofs ms) :: ('s, zip_entry_mark_t list \<times> nat list) comp) \<and>
    length ms' = length ms \<and> (\<forall>j < length ms. ms' ! j = (ms ! j)\<lparr>file_index := int j\<rparr>)"
  using assms
proof (induction k arbitrary: ms ofs i)
  case 0
  then show ?case by (intro exI [of _ ms]) (auto intro: zip_entry_mark_t.equality)
next
  case (Suc k)
  let ?lo = "map local_header_ofs ms"
  let ?ofs = "ofs[i := local_header_ofs (ms ! i)]" and ?ms = "ms[i := (ms ! i)\<lparr>file_index := int i\<rparr>]"
  have i: "i < length ms" "i < length ofs" using Suc.prems(1,2) by simp_all
  have pre: "?ofs ! j = ?lo ! j" if "j \<le> i" for j
  proof (cases "j = i")
    case False
    with that have "j < i" by simp
    moreover have "take i ofs ! j = take i ?lo ! j" using Suc.prems(4) by simp
    ultimately show ?thesis using i by simp
  qed (use i in simp)
  have "\<forall>j < i. ?ofs ! j < ?ofs ! i"
  proof (intro allI impI)
    fix j
    assume "j < i"
    moreover from this have "?lo ! j < ?lo ! i" using Suc.prems(3) i by (simp only: sorted_wrt_iff_nth_less length_map)
    ultimately show "?ofs ! j < ?ofs ! i" using pre [of j] pre [of i] by simp
  qed
  then have sort: "zip_sort ?ofs i = ret (?ofs, i)" by (intro zip_sort_ascending) (use i in simp_all)
  have lo: "map local_header_ofs ?ms = ?lo" using i by (simp add: map_update list_update_same_conv)
  have "take (i + 1) ?ofs = take (i + 1) ?lo"
    by (rule nth_equalityI) (use i pre in \<open>simp_all add: Suc.prems(1)\<close>)
  moreover have "?ms ! j = (ms ! j)\<lparr>file_index := int j\<rparr>" if "j < i + 1" for j
    using that i Suc.prems(5) by (cases "j = i") (auto intro: zip_entry_mark_t.equality)
  then have "\<forall>j < i + 1. file_index (?ms ! j) = int j" by simp
  ultimately have "\<exists>ms'. order_loop ?ms ?ofs (i + 1) k =
      (ret (ms', map local_header_ofs ?ms) :: ('s, zip_entry_mark_t list \<times> nat list) comp) \<and>
    length ms' = length ?ms \<and> (\<forall>j < length ?ms. ms' ! j = (?ms ! j)\<lparr>file_index := int j\<rparr>)"
    using Suc.prems(1-3) by (intro Suc.IH) (simp_all add: lo)
  then obtain ms' where ms': "order_loop ?ms ?ofs (i + 1) k = (ret (ms', ?lo) :: ('s, zip_entry_mark_t list \<times> nat list) comp)"
    "length ms' = length ms" "\<forall>j < length ms. ms' ! j = (?ms ! j)\<lparr>file_index := int j\<rparr>"
    unfolding lo length_list_update by blast
  have "ms' ! j = (ms ! j)\<lparr>file_index := int j\<rparr>" if "j < length ms" for j
    using ms'(3) that by (cases "j = i") (auto simp: i)
  moreover have "order_loop ms ofs i (Suc k) = (order_loop ?ms ?ofs (i + 1) k :: ('s, zip_entry_mark_t list \<times> nat list) comp)"
    using i by (simp add: sort Let_def)
  ultimately show ?case using ms'(1,2) by (intro exI [of _ ms'] conjI allI impI) (simp_all only:)
qed

lemma length_loop_run:
  "(\<forall>m \<in> set ms. 0 \<le> file_index m \<and> nat (file_index m) < length lengths) \<Longrightarrow>
   length_loop lengths ms = ret (map (\<lambda>m. m\<lparr>lf_length := lengths ! nat (file_index m)\<rparr>) ms)"
  by (induction ms) simp_all

text \<open>When the entries stand in the central directory in the order of their data, \<open>zip_entry_finalize\<close> gives each
  entry its own index and the distance to the next entry, the last one that to the end of the data.\<close>
theorem record_lengths:
  assumes "ms \<noteq> []" and "sorted_wrt (<) (map local_header_ofs ms)" and "local_header_ofs (last ms) \<le> m_archive_size (arch s)"
    and "m_archive_size (arch s) < 2 ^ 64" and "alloc_ok E (nalloc s)" and "alloc_ok E (Suc (nalloc s))"
  shows "\<exists>ms'. zip_entry_finalize E ms (length ms) s = Inr ((0, ms'), s\<lparr>nalloc := nalloc s + 2\<rparr>) \<and> length ms' = length ms \<and>
    (\<forall>j < length ms. ms' ! j = (ms ! j)\<lparr>file_index := int j, lf_length :=
       (if Suc j < length ms then local_header_ofs (ms ! Suc j) else m_archive_size (arch s)) - local_header_ofs (ms ! j)\<rparr>)"
proof -
  let ?n = "length ms" and ?ofs = "map local_header_ofs ms" and ?sz = "m_archive_size (arch s)"
  obtain ms' where ms': "order_loop ms (replicate ?n 0) 0 ?n = (ret (ms', ?ofs) :: ('a zst_scheme, zip_entry_mark_t list \<times> nat list) comp)"
    "length ms' = ?n" "\<forall>j < ?n. ms' ! j = (ms ! j)\<lparr>file_index := int j\<rparr>"
    using order_loop_ascending [of "replicate ?n 0" ms 0 ?n, where 's = "'a zst_scheme"] assms(2) by auto
  define lens where "lens = map (\<lambda>i. sub64 (?ofs ! (i + 1)) (?ofs ! i)) [0..<?n - 1] @ [sub64 ?sz (?ofs ! (?n - 1))]"
  have n: "0 < ?n" using assms(1) by simp
  have bound: "local_header_ofs (ms ! j) \<le> ?sz" if "j < ?n" for j
  proof -
    have "?ofs ! j \<le> ?ofs ! (?n - 1)"
      using assms(2) that by (cases "j = ?n - 1") (auto simp: sorted_wrt_iff_nth_less intro!: less_imp_le)
    with that n assms(3) show ?thesis by (simp add: last_conv_nth assms(1))
  qed
  have lens: "lens ! j = (if Suc j < ?n then local_header_ofs (ms ! Suc j) else ?sz) - local_header_ofs (ms ! j)"
    if "j < ?n" for j
  proof (cases "Suc j < ?n")
    case True
    with assms(2) have "local_header_ofs (ms ! j) < local_header_ofs (ms ! Suc j)" by (auto simp: sorted_wrt_iff_nth_less)
    moreover have "local_header_ofs (ms ! Suc j) \<le> ?sz" using bound True by simp
    moreover have "j < ?n - 1" using True by simp
    ultimately show ?thesis using True assms(4) by (simp add: lens_def nth_append sub64_le)
  next
    case False
    with that have "?n = Suc j" by simp
    with bound [OF that] assms(4) show ?thesis by (simp add: lens_def nth_append sub64_le)
  qed
  have "length lens = ?n" using n by (simp add: lens_def)
  then have run: "length_loop lens ms' = (ret (map (\<lambda>m. m\<lparr>lf_length := lens ! nat (file_index m)\<rparr>) ms') :: ('a zst_scheme, zip_entry_mark_t list) comp)"
    by (intro length_loop_run) (use ms' in \<open>auto simp: in_set_conv_nth\<close>)
  show ?thesis
  proof (intro exI conjI)
    have "zip_entry_finalize E ms ?n s =
        bnd (length_loop lens (take ?n ms')) (\<lambda>done. ret (0, done @ drop ?n ms')) (s\<lparr>nalloc := nalloc s + 2\<rparr>)"
      using assms(1,5,6) ms'(1,2)
      by (simp add: zip_entry_finalize_def bnd_def alloc_def gets_def ret_def Let_def lens_def)
    also have "\<dots> = Inr ((0, map (\<lambda>m. m\<lparr>lf_length := lens ! nat (file_index m)\<rparr>) ms'), s\<lparr>nalloc := nalloc s + 2\<rparr>)"
      by (simp add: ms'(2) run bnd_def ret_def)
    finally show "zip_entry_finalize E ms ?n s =
        Inr ((0, map (\<lambda>m. m\<lparr>lf_length := lens ! nat (file_index m)\<rparr>) ms'), s\<lparr>nalloc := nalloc s + 2\<rparr>)" .
    show "\<forall>j < ?n. map (\<lambda>m. m\<lparr>lf_length := lens ! nat (file_index m)\<rparr>) ms' ! j = (ms ! j)\<lparr>file_index := int j, lf_length :=
       (if Suc j < ?n then local_header_ofs (ms ! Suc j) else ?sz) - local_header_ofs (ms ! j)\<rparr>"
      using ms'(2,3) lens by simp
  qed (use ms'(2) in simp)
qed

section \<open>What goes wrong\<close>

text \<open>The offsets 10, 20, 5: \<open>zip_index_update\<close> writes the place of the new record into the mark with the
  number of its place, so that two marks name the last record and none the second.\<close>
theorem index_of_unsorted_records_is_wrong:
  "order_loop (map (\<lambda>ofs. \<lparr>file_index = 0, mark_type = MZ_KEEP, local_header_ofs = ofs, lf_length = 0\<rparr>) [10, 20, 5])
     [0, 0, 0] 0 3 =
   ret (map (\<lambda>(ofs, i). \<lparr>file_index = i, mark_type = MZ_KEEP, local_header_ofs = ofs, lf_length = 0\<rparr>) [(10, 2), (20, 2), (5, 0)],
     [5, 10, 20])"
  by (simp add: numeral_3_eq_3 zip_sort_def zip_index_next_def zip_index_update_def)

text \<open>Deleting the first and the third of four entries leaves the offset of the third in the index, where that of the
  fourth belongs.\<close>
theorem two_groups_break_index:
  "compact_offsets [True, False, True, False, x] 4 0 [a, b, c, d] 0 = ret ([b, c, d, d], 2)"
  by (simp add: compact_offsets.simps run_end.simps probe_def overwrite_def numeral_2_eq_2)

abbreviation total_is :: "nat \<Rightarrow> 'z zst_scheme \<Rightarrow> bool" where
  "total_is N \<equiv> (\<lambda>s. m_total_files (arch s) = N)"

lemma keeps_total_base [keeps_rules]:
  "keeps (total_is N) (alloc E)" "keeps (total_is N) (lib_call E)" "keeps (total_is N) get_state"
  "keeps (total_is N) (put_state st)" "keeps (total_is N) (file_data f)" "keeps (total_is N) (live f)"
  "keeps (total_is N) (modify (\<lambda>s. s\<lparr>disk := g s\<rparr>))"
  "keeps (total_is N) (upd_arch (\<lambda>a. a\<lparr>m_zip_mode := m\<rparr>))"
  by (auto simp: keeps_def alloc_def lib_call_def get_state_def put_state_def upd_arch_def file_data_def live_def comp_defs
      split: option.splits if_splits)

lemma keeps_block [keeps_rules]:
  "keeps I (probe xs i)" "keeps I (load n blk p)" "keeps I (poke blk p bs)" "keeps I (elem ys i)"
  by (auto simp: keeps_def probe_def load_def poke_def elem_def comp_defs split: if_splits)

lemma keeps_case_prod [keeps_rules]: "(\<And>a b. keeps I (f a b)) \<Longrightarrow> keeps I (case p of (a, b) \<Rightarrow> f a b)"
  by (cases p) simp

lemma keeps_case_option [keeps_rules]:
  "keeps I m \<Longrightarrow> (\<And>a. keeps I (f a)) \<Longrightarrow> keeps I (case p of None \<Rightarrow> m | Some a \<Rightarrow> f a)"
  by (cases p) simp_all

lemma keeps_Let [keeps_rules]: "(\<And>x. keeps I (f x)) \<Longrightarrow> keeps I (Let v f)"
  by (simp add: Let_def)

lemma keeps_total_stream [keeps_rules]:
  "keeps (total_is N) (fseek_set E f p)" "keeps (total_is N) (fread E f n)" "keeps (total_is N) (fwrite E f bs)"
  "keeps (total_is N) (fclose E f)" "keeps (total_is N) stream_of_state" "keeps (total_is N) (put_stream f)"
  unfolding fseek_set_def fread_def fwrite_def fclose_def stream_of_state_def put_stream_def upd_state_def
  by (intro keeps_rules)+

lemma keeps_total_move [keeps_rules]: "keeps (total_is N) (zip_file_move E w r l c)"
  unfolding zip_file_move_def close_stream_def by (intro keeps_rules)

lemma keeps_total_moves [keeps_rules]: "keeps (total_is N) (files_move_loop E w r l m)"
proof (induction E w r l m rule: files_move_loop.induct)
  case (1 E w r l m)
  show ?case
    by (subst files_move_loop.simps) (auto simp: Let_def intro!: keeps_rules 1)
qed

lemma keeps_total_patch [keeps_rules]: "keeps (total_is N) (patch_loop cd offs d i k)"
  by (induction k arbitrary: cd i) (auto intro!: keeps_rules)

lemma mark_loop_reads_past:
  fixes s :: "'z zst_scheme"
  assumes "mark_loop E ms n w r d mv i k fl s = Inr (res, t)" and "i < n" and "length ms = n"
  shows "\<exists>e. res = Inl e \<and> m_total_files (arch t) = m_total_files (arch s)"
  using assms
proof (induction "n - i" arbitrary: w r d mv i k fl s rule: less_induct)
  case less
  define a where "a = run_end (\<lambda>m. mark_type m = MZ_KEEP) ms n i"
  define b where "b = run_end (\<lambda>m. mark_type m = MZ_DELETE) ms n a"
  define c where "c = run_end (\<lambda>m. mark_type m = MZ_MOVE) ms n b"
  define w' where "w' = u64 (w + total_length ms i a)"
  define r' where "r' = u64 ((if a > i then w' else r) + total_length ms a b)"
  define d' where "d' = u64 (d + total_length ms a b)"
  define mv' where "mv' = u64 (mv + total_length ms b c)"
  define head :: "('z zst_scheme, int) comp" where "head = seq (probe ms a) (seq (probe ms b) (bnd get_state (\<lambda>st.
        bnd (patch_loop (m_p (m_central_dir st)) (m_p (m_central_dir_offsets st)) d' b (c - b)) (\<lambda>cd.
        seq (put_state (st\<lparr>m_central_dir := (m_central_dir st)\<lparr>m_p := cd\<rparr>\<rparr>))
        (seq (probe ms c) (zip_files_move E w' r' mv'))))))"
  have "(mark_loop E ms n w r d mv i k fl :: ('z zst_scheme, int + (bool list \<times> nat \<times> nat)) comp) = bnd head (\<lambda>z. if s32 z \<noteq> s64 mv' then ret (Inl (s32 z))
      else mark_loop E ms n (u64 (w' + mv')) (u64 (r' + mv')) d' mv' c (k + (b - a)) (overwrite fl a (replicate (b - a) True)))"
    using less.prems(2)
    by (subst mark_loop.simps)
      (simp add: head_def Let_def bnd_assoc seq_def a_def [symmetric] b_def [symmetric] c_def [symmetric]
        w'_def [symmetric] r'_def [symmetric] d'_def [symmetric] mv'_def [symmetric] cong: if_cong)
  with less.prems(1) obtain z u where z: "head s = Inr (z, u)"
    "(if s32 z \<noteq> s64 mv' then ret (Inl (s32 z)) else mark_loop E ms n (u64 (w' + mv')) (u64 (r' + mv')) d' mv' c (k + (b - a))
      (overwrite fl a (replicate (b - a) True))) u = Inr (res, t)" by (auto simp: bnd_Inr)
  have "keeps (total_is (m_total_files (arch s))) head"
    unfolding head_def zip_files_move_def by (intro keeps_rules)
  from keepsD [OF this _ z(1)] have kept: "m_total_files (arch u) = m_total_files (arch s)" by simp
  have "c < n" using z(1) less.prems(3) by (auto simp: head_def seq_Inr bnd_Inr probe_def fail_def split: if_splits)
  moreover have "i < c" using marks_progress [OF less.prems(2)] by (simp add: a_def b_def c_def)
  ultimately show ?case
    using z(2) less.hyps [of c _ _ _ _ _ _ u] less.prems(3) kept
    by (auto simp: ret_def split: if_splits)
qed

text \<open>The loops over the marks read the element behind the last one before they compare the index with the number of
  entries. With an array of exactly that many marks, as \<open>zip_entries_delete\<close> allocates it, no call deletes
  anything without that access.\<close>
theorem deletion_reads_past_marks:
  assumes "entry_mark \<noteq> []" and "zip_entries_delete_mark E slack entry_mark (length entry_mark) s = Inr (r, t)"
  shows "m_total_files (arch t) = m_total_files (arch s)"
proof -
  let ?n = "length entry_mark" and ?I = "total_is (m_total_files (arch s))"
  have loop: "keeps ?I (bnd (mark_loop E entry_mark ?n 0 0 0 0 0 0 fl) (\<lambda>r. case r of Inl n \<Rightarrow> ret n | Inr x \<Rightarrow> f x))" for fl f
    using assms(1) by (auto simp: keeps_def bnd_Inr ret_def dest!: mark_loop_reads_past)
  have "keeps ?I (zip_entries_delete_mark E slack entry_mark ?n)"
    unfolding zip_entries_delete_mark_def by (intro keeps_rules loop)
  from keepsD [OF this _ assms(2)] show ?thesis by simp
qed

end
