(* ===== verification/Deflate_Tables.thy ===== *)
theory Deflate_Tables
  imports Zip_World
begin

unbundle bit_operations_syntax

text \<open>
  The static tables of the compressor and the decompressor of \<open>server/include/miniz.h\<close>,
      with the proof that what one side
  writes for a length or a distance the other side reads back. Long tables are given by their runs, a number of equal
  each_entry and the entry.
\<close>

definition runs :: "(nat \<times> nat) list \<Rightarrow> nat list" where
  "runs ps = concat (map (\<lambda>(n, x). replicate n x) ps)"

section \<open>Sizes and flags\<close>

abbreviation (input) TDEFL_MAX_HUFF_SYMBOLS :: nat where "TDEFL_MAX_HUFF_SYMBOLS \<equiv> 288"
abbreviation (input) TDEFL_MAX_HUFF_SYMBOLS_0 :: nat where "TDEFL_MAX_HUFF_SYMBOLS_0 \<equiv> 288"
abbreviation (input) TDEFL_MAX_HUFF_SYMBOLS_1 :: nat where "TDEFL_MAX_HUFF_SYMBOLS_1 \<equiv> 32"
abbreviation (input) TDEFL_MAX_HUFF_SYMBOLS_2 :: nat where "TDEFL_MAX_HUFF_SYMBOLS_2 \<equiv> 19"
abbreviation (input) TDEFL_LZ_DICT_SIZE :: nat where "TDEFL_LZ_DICT_SIZE \<equiv> 32768"
abbreviation (input) TDEFL_MIN_MATCH_LEN :: nat where "TDEFL_MIN_MATCH_LEN \<equiv> 3"
abbreviation (input) TDEFL_MAX_MATCH_LEN :: nat where "TDEFL_MAX_MATCH_LEN \<equiv> 258"
abbreviation (input) TDEFL_LZ_CODE_BUF_SIZE :: nat where "TDEFL_LZ_CODE_BUF_SIZE \<equiv> 65536"
abbreviation (input) TDEFL_OUT_BUF_SIZE :: nat where "TDEFL_OUT_BUF_SIZE \<equiv> 85196"
abbreviation (input) TDEFL_LZ_HASH_BITS :: nat where "TDEFL_LZ_HASH_BITS \<equiv> 15"
abbreviation (input) TDEFL_LZ_HASH_SHIFT :: nat where "TDEFL_LZ_HASH_SHIFT \<equiv> 5"
abbreviation (input) TDEFL_LZ_HASH_SIZE :: nat where "TDEFL_LZ_HASH_SIZE \<equiv> 32768"
abbreviation (input) TDEFL_LEVEL1_HASH_SIZE :: nat where "TDEFL_LEVEL1_HASH_SIZE \<equiv> 4096"
abbreviation (input) TDEFL_MAX_SUPPORTED_HUFF_CODESIZE :: nat where "TDEFL_MAX_SUPPORTED_HUFF_CODESIZE \<equiv> 32"
abbreviation (input) TDEFL_WRITE_ZLIB_HEADER :: nat where "TDEFL_WRITE_ZLIB_HEADER \<equiv> 0x01000"
abbreviation (input) TDEFL_COMPUTE_ADLER32 :: nat where "TDEFL_COMPUTE_ADLER32 \<equiv> 0x02000"
abbreviation (input) TDEFL_GREEDY_PARSING_FLAG :: nat where "TDEFL_GREEDY_PARSING_FLAG \<equiv> 0x04000"
abbreviation (input) TDEFL_NONDETERMINISTIC_PARSING_FLAG :: nat where "TDEFL_NONDETERMINISTIC_PARSING_FLAG \<equiv> 0x08000"
abbreviation (input) TDEFL_RLE_MATCHES :: nat where "TDEFL_RLE_MATCHES \<equiv> 0x10000"
abbreviation (input) TDEFL_FILTER_MATCHES :: nat where "TDEFL_FILTER_MATCHES \<equiv> 0x20000"
abbreviation (input) TDEFL_FORCE_ALL_STATIC_BLOCKS :: nat where "TDEFL_FORCE_ALL_STATIC_BLOCKS \<equiv> 0x40000"
abbreviation (input) TDEFL_FORCE_ALL_RAW_BLOCKS :: nat where "TDEFL_FORCE_ALL_RAW_BLOCKS \<equiv> 0x80000"

datatype tdefl_flush = TDEFL_NO_FLUSH | TDEFL_SYNC_FLUSH | TDEFL_FULL_FLUSH | TDEFL_FINISH

datatype tdefl_status =
    TDEFL_STATUS_BAD_PARAM
  | TDEFL_STATUS_PUT_BUF_FAILED
  | TDEFL_STATUS_OKAY
  | TDEFL_STATUS_DONE

datatype tinfl_status =
    TINFL_STATUS_BAD_PARAM
  | TINFL_STATUS_ADLER32_MISMATCH
  | TINFL_STATUS_FAILED
  | TINFL_STATUS_DONE
  | TINFL_STATUS_NEEDS_MORE_INPUT
  | TINFL_STATUS_HAS_MORE_OUTPUT

abbreviation (input) TINFL_FLAG_HAS_MORE_INPUT :: nat where "TINFL_FLAG_HAS_MORE_INPUT \<equiv> 2"
abbreviation (input) TINFL_FLAG_USING_NON_WRAPPING_OUTPUT_BUF :: nat
  where "TINFL_FLAG_USING_NON_WRAPPING_OUTPUT_BUF \<equiv> 4"
abbreviation (input) TINFL_LZ_DICT_SIZE :: nat where "TINFL_LZ_DICT_SIZE \<equiv> 32768"

section \<open>Tables of the compressor\<close>

definition s_tdefl_len_sym :: "nat list" where
  "s_tdefl_len_sym = runs [(1, 257), (1, 258), (1, 259), (1, 260), (1, 261), (1, 262), (1, 263), (1, 264), (2,
      265), (2, 266), (2, 267),
     (2, 268), (4, 269), (4, 270), (4, 271), (4, 272), (8, 273), (8, 274), (8, 275), (8, 276), (16, 277),
     (16, 278), (16, 279), (16, 280), (32, 281), (32, 282), (32, 283), (31, 284), (1, 285)]"

definition s_tdefl_len_extra :: "nat list" where
  "s_tdefl_len_extra = runs [(8, 0), (8, 1), (16, 2), (32, 3), (64, 4), (127, 5), (1, 0)]"

definition s_tdefl_small_dist_sym :: "nat list" where
  "s_tdefl_small_dist_sym = runs [(1, 0), (1, 1), (1, 2), (1, 3), (2, 4), (2, 5), (4, 6), (4, 7), (8, 8), (8,
      9), (16, 10), (16, 11), (32, 12),
     (32, 13), (64, 14), (64, 15), (128, 16), (128, 17)]"

definition s_tdefl_small_dist_extra :: "nat list" where
  "s_tdefl_small_dist_extra = runs [(4, 0), (4, 1), (8, 2), (16, 3), (32, 4), (64, 5), (128, 6), (256, 7)]"

definition s_tdefl_large_dist_sym :: "nat list" where
  "s_tdefl_large_dist_sym = runs [(2, 0), (1, 18), (1, 19), (2, 20), (2, 21), (4, 22), (4, 23), (8, 24), (8,
      25), (16, 26), (16, 27), (32, 28),
     (32, 29)]"

definition s_tdefl_large_dist_extra :: "nat list" where
  "s_tdefl_large_dist_extra = runs [(2, 0), (2, 8), (4, 9), (8, 10), (16, 11), (32, 12), (64, 13)]"

definition s_tdefl_packed_code_size_syms_swizzle :: "nat list" where
  "s_tdefl_packed_code_size_syms_swizzle = [16, 17, 18, 0, 8, 7, 9, 6, 10, 5, 11, 4, 12, 3, 13, 2, 14, 1, 15]"

definition mz_bitmasks :: "nat list" where
  "mz_bitmasks = [0, 1, 3, 7, 15, 31, 63, 127, 255, 511, 1023, 2047, 4095, 8191, 16383, 32767, 65535]"

definition s_tdefl_num_probes :: "nat list" where
  "s_tdefl_num_probes = [0, 1, 6, 32, 16, 32, 128, 256, 512, 768, 1500]"

section \<open>Tables of the decompressor\<close>

definition s_length_base :: "nat list" where
  "s_length_base = [3, 4, 5, 6, 7, 8, 9, 10, 11, 13, 15, 17, 19, 23, 27, 31, 35, 43, 51, 59, 67, 83, 99, 115,
      131, 163, 195, 227,
     258, 0, 0]"

definition s_length_extra :: "nat list" where
  "s_length_extra = [0, 0, 0, 0, 0, 0, 0, 0, 1, 1, 1, 1, 2, 2, 2, 2, 3, 3, 3, 3, 4, 4, 4, 4, 5, 5, 5, 5, 0, 0, 0]"

definition s_dist_base :: "nat list" where
  "s_dist_base = [1, 2, 3, 4, 5, 7, 9, 13, 17, 25, 33, 49, 65, 97, 129, 193, 257, 385, 513, 769, 1025, 1537,
      2049, 3073, 4097,
     6145, 8193, 12289, 16385, 24577, 0, 0]"

definition s_dist_extra :: "nat list" where
  "s_dist_extra = [0, 0, 0, 0, 1, 1, 2, 2, 3, 3, 4, 4, 5, 5, 6, 6, 7, 7, 8, 8, 9, 9, 10, 10, 11, 11, 12, 12,
      13, 13, 0, 0]"

definition s_length_dezigzag :: "nat list" where
  "s_length_dezigzag = [16, 17, 18, 0, 8, 7, 9, 6, 10, 5, 11, 4, 12, 3, 13, 2, 14, 1, 15]"

definition s_min_table_sizes :: "nat list" where
  "s_min_table_sizes = [257, 1, 4]"

section \<open>The two sides agree\<close>

text \<open>The symbol and the extra bits of a distance,
    as \<open>tdefl_compress_lz_codes\<close> looks them up.\<close>

definition dist_sym :: "nat \<Rightarrow> nat" where
  "dist_sym match_dist = (if match_dist < 512 then s_tdefl_small_dist_sym ! (match_dist mod 512)
     else s_tdefl_large_dist_sym ! (match_dist div 256))"

definition dist_extra :: "nat \<Rightarrow> nat" where
  "dist_extra match_dist = (if match_dist < 512 then s_tdefl_small_dist_extra ! (match_dist mod 512)
     else s_tdefl_large_dist_extra ! (match_dist div 256))"

text \<open>Properties of two tables side by side, checked row by row.\<close>

fun each_entry :: "(nat \<Rightarrow> nat \<Rightarrow> nat \<Rightarrow> bool) \<Rightarrow> nat \<Rightarrow> nat list \<Rightarrow> nat list \<Rightarrow> bool" where
  "each_entry P i [] [] = True"
| "each_entry P i (x # xs) (y # ys) = (P i x y \<and> each_entry P (i + 1) xs ys)"
| "each_entry P i _ _ = False"

lemma each_entryD: "each_entry P i xs ys \<Longrightarrow> k < length xs \<Longrightarrow> P (i + k) (xs ! k) (ys ! k)"
proof (induction P i xs ys arbitrary: k rule: each_entry.induct)
  case (2 P i x xs y ys)
  then show ?case by (cases k) auto
qed simp_all

lemma length_runs [simp]: "length (runs []) = 0" "length (runs ((n, x) # ps)) = n + length (runs ps)"
  by (simp_all add: runs_def)

lemma table_lengths [simp]: "length s_tdefl_len_sym = 256" "length s_tdefl_len_extra = 256"
    "length s_tdefl_small_dist_sym = 512"
  "length s_tdefl_small_dist_extra = 512" "length s_tdefl_large_dist_sym = 128"
      "length s_tdefl_large_dist_extra = 128"
  "length s_length_base = 31" "length s_length_extra = 31" "length s_dist_base = 32" "length s_dist_extra = 32"
  "length s_length_dezigzag = 19" "length s_min_table_sizes = 3" "length s_tdefl_packed_code_size_syms_swizzle = 19"
  "length mz_bitmasks = 17" "length s_tdefl_num_probes = 11"
  unfolding s_tdefl_len_sym_def s_tdefl_len_extra_def s_tdefl_small_dist_sym_def s_tdefl_small_dist_extra_def
    s_tdefl_large_dist_sym_def s_tdefl_large_dist_extra_def s_length_base_def s_length_extra_def s_dist_base_def
    s_dist_extra_def s_length_dezigzag_def s_min_table_sizes_def s_tdefl_packed_code_size_syms_swizzle_def
    mz_bitmasks_def s_tdefl_num_probes_def
  by simp_all

text \<open>A length or distance from its symbol and the extra bits, as the decompressor puts it together.\<close>

definition length_of :: "nat \<Rightarrow> nat \<Rightarrow> nat" where
  "length_of symb extra = s_length_base ! (symb - 257) + extra"

definition dist_of :: "nat \<Rightarrow> nat \<Rightarrow> nat" where
  "dist_of symb extra = s_dist_base ! symb + extra"

lemma replicate_entries: "replicate (numeral k) x = x # replicate (numeral k - 1) x"
  by (simp add: numeral_eq_Suc)

lemma each_entry_append:
  "length xs = length ys \<Longrightarrow> each_entry P i (xs @ xs') (ys @ ys') = (each_entry P i xs ys \<and>
      each_entry P (i + length xs) xs' ys')"
  by (induction P i xs ys rule: each_entry.induct) auto

lemma each_entry_replicate: "each_entry P i (replicate n x) (replicate n y) = (\<forall>k < n. P (i + k) x y)"
proof (induction n arbitrary: i)
  case (Suc n)
  have "(\<forall>k < Suc n. P (i + k) x y) = (P i x y \<and> (\<forall>k < n. P (i + 1 + k) x y))"
    by (auto simp: less_Suc_eq_0_disj)
  with Suc [of "i + 1"] show ?case by simp
qed simp

text \<open>A run of length \<open>n\<close> starts at a multiple of it.\<close>

lemma mod_run: "b mod n = 0 \<Longrightarrow> k < n \<Longrightarrow> (b + k) mod n = k" for n :: nat
  by (metis add_0 mod_add_left_eq mod_less)

lemma len_code_all: "each_entry (\<lambda>m symb n. 257 \<le> symb \<and> symb < 286 \<and>
    n = s_length_extra ! (symb - 257) \<and> n \<le> 5 \<and>
      length_of symb (m mod 2 ^ n) = m + 3) 0 s_tdefl_len_sym s_tdefl_len_extra" (is "each_entry ?P 0 _ _")
proof -
  let ?a = "runs [(1, 257), (1, 258), (1, 259), (1, 260), (1, 261), (1, 262), (1, 263), (1, 264), (2, 265), (2,
      266), (2, 267), (2, 268), (4, 269), (4, 270), (4, 271), (4, 272)]"
  let ?b = "runs [(1, 0), (1, 0), (1, 0), (1, 0), (1, 0), (1, 0), (1, 0), (1, 0), (2, 1), (2, 1), (2, 1), (2,
      1), (4, 2), (4, 2), (4, 2), (4, 2)]"
  have sm: "s_tdefl_len_sym = ?a @ replicate 8 273 @ replicate 8 274 @ replicate 8 275 @ replicate 8 276 @
      replicate 16 277 @ replicate 16 278 @ replicate 16 279 @ replicate 16 280 @ replicate 32 281 @
      replicate 32 282 @ replicate 32 283 @ replicate 31 284 @ replicate 1 285"
    by (simp add: s_tdefl_len_sym_def runs_def)
  have ex: "s_tdefl_len_extra = ?b @ replicate 8 3 @ replicate 8 3 @ replicate 8 3 @ replicate 8 3 @
      replicate 16 4 @ replicate 16 4 @ replicate 16 4 @ replicate 16 4 @ replicate 32 5 @ replicate 32 5 @
      replicate 32 5 @ replicate 31 5 @ replicate 1 0"
    by (simp add: s_tdefl_len_extra_def runs_def replicate_add [symmetric] replicate_entries)
  have "each_entry ?P 0 ?a ?b"
    unfolding runs_def by (simp add: s_length_extra_def length_of_def s_length_base_def replicate_entries)
  moreover have "each_entry ?P 32 (replicate 8 273) (replicate 8 3)"
      "each_entry ?P 40 (replicate 8 274) (replicate 8 3)" "each_entry ?P 48 (replicate 8 275) (replicate 8 3)"
      "each_entry ?P 56 (replicate 8 276) (replicate 8 3)"
      "each_entry ?P 64 (replicate 16 277) (replicate 16 4)"
      "each_entry ?P 80 (replicate 16 278) (replicate 16 4)"
      "each_entry ?P 96 (replicate 16 279) (replicate 16 4)"
      "each_entry ?P 112 (replicate 16 280) (replicate 16 4)"
      "each_entry ?P 128 (replicate 32 281) (replicate 32 5)"
      "each_entry ?P 160 (replicate 32 282) (replicate 32 5)"
      "each_entry ?P 192 (replicate 32 283) (replicate 32 5)"
      "each_entry ?P 224 (replicate 31 284) (replicate 31 5)"
      "each_entry ?P 255 (replicate 1 285) (replicate 1 0)"
    unfolding each_entry_replicate by (simp_all add: s_length_extra_def length_of_def s_length_base_def mod_run)
  ultimately show ?thesis unfolding sm ex by (simp add: each_entry_append)
qed

lemma small_dist_all: "each_entry (\<lambda>d symb n. symb < 30 \<and> n = s_dist_extra ! symb \<and>
    n \<le> 13 \<and>
      dist_of symb (d mod 2 ^ n) = d + 1) 0 s_tdefl_small_dist_sym s_tdefl_small_dist_extra" (is "each_entry ?P 0 _ _")
proof -
  let ?a = "runs [(1, 0), (1, 1), (1, 2), (1, 3), (2, 4), (2, 5), (4, 6), (4, 7)]"
  let ?b = "runs [(1, 0), (1, 0), (1, 0), (1, 0), (2, 1), (2, 1), (4, 2), (4, 2)]"
  have sm: "s_tdefl_small_dist_sym = ?a @ replicate 8 8 @ replicate 8 9 @ replicate 16 10 @ replicate 16 11 @
      replicate 32 12 @ replicate 32 13 @ replicate 64 14 @ replicate 64 15 @ replicate 128 16 @ replicate 128 17"
    by (simp add: s_tdefl_small_dist_sym_def runs_def)
  have ex: "s_tdefl_small_dist_extra = ?b @ replicate 8 3 @ replicate 8 3 @ replicate 16 4 @ replicate 16 4 @
      replicate 32 5 @ replicate 32 5 @ replicate 64 6 @ replicate 64 6 @ replicate 128 7 @ replicate 128 7"
    by (simp add: s_tdefl_small_dist_extra_def runs_def replicate_add [symmetric] replicate_entries)
  have "each_entry ?P 0 ?a ?b"
    unfolding runs_def by (simp add: s_dist_extra_def dist_of_def s_dist_base_def replicate_entries)
  moreover have "each_entry ?P 16 (replicate 8 8) (replicate 8 3)"
      "each_entry ?P 24 (replicate 8 9) (replicate 8 3)" "each_entry ?P 32 (replicate 16 10) (replicate 16 4)"
      "each_entry ?P 48 (replicate 16 11) (replicate 16 4)"
      "each_entry ?P 64 (replicate 32 12) (replicate 32 5)"
      "each_entry ?P 96 (replicate 32 13) (replicate 32 5)"
      "each_entry ?P 128 (replicate 64 14) (replicate 64 6)"
      "each_entry ?P 192 (replicate 64 15) (replicate 64 6)"
      "each_entry ?P 256 (replicate 128 16) (replicate 128 7)"
      "each_entry ?P 384 (replicate 128 17) (replicate 128 7)"
    unfolding each_entry_replicate by (simp_all add: s_dist_extra_def dist_of_def s_dist_base_def mod_run)
  ultimately show ?thesis unfolding sm ex by (simp add: each_entry_append)
qed

lemma large_dist_all: "each_entry (\<lambda>h symb n. 2 \<le> h \<longrightarrow> symb < 30 \<and>
    n = s_dist_extra ! symb \<and> 8 \<le> n \<and> n \<le> 13 \<and>
      s_dist_base ! symb + (h mod 2 ^ (n - 8)) * 256 = h * 256 + 1) 0 s_tdefl_large_dist_sym s_tdefl_large_dist_extra" (is "each_entry ?P 0 _ _")
proof -
  let ?a = "runs [(2, 0), (1, 18), (1, 19), (2, 20), (2, 21), (4, 22), (4, 23)]"
  let ?b = "runs [(2, 0), (1, 8), (1, 8), (2, 9), (2, 9), (4, 10), (4, 10)]"
  have sm: "s_tdefl_large_dist_sym = ?a @ replicate 8 24 @ replicate 8 25 @ replicate 16 26 @ replicate 16 27 @
      replicate 32 28 @ replicate 32 29"
    by (simp add: s_tdefl_large_dist_sym_def runs_def)
  have ex: "s_tdefl_large_dist_extra = ?b @ replicate 8 11 @ replicate 8 11 @ replicate 16 12 @
      replicate 16 12 @ replicate 32 13 @ replicate 32 13"
    by (simp add: s_tdefl_large_dist_extra_def runs_def replicate_add [symmetric] replicate_entries)
  have "each_entry ?P 0 ?a ?b"
    unfolding runs_def by (simp add: s_dist_extra_def s_dist_base_def replicate_entries)
  moreover have "each_entry ?P 16 (replicate 8 24) (replicate 8 11)"
      "each_entry ?P 24 (replicate 8 25) (replicate 8 11)" "each_entry ?P 32 (replicate 16 26) (replicate 16 12)"
      "each_entry ?P 48 (replicate 16 27) (replicate 16 12)"
      "each_entry ?P 64 (replicate 32 28) (replicate 32 13)" "each_entry ?P 96 (replicate 32 29) (replicate 32 13)"
    unfolding each_entry_replicate by (simp_all add: s_dist_extra_def s_dist_base_def mod_run)
  ultimately show ?thesis unfolding sm ex by (simp add: each_entry_append)
qed

lemma bitmask: "n \<le> 16 \<Longrightarrow> x AND (mz_bitmasks ! n) = x mod 2 ^ n"
proof -
  have "each_entry (\<lambda>n x y. x = 2 ^ n - 1) 0 mz_bitmasks mz_bitmasks" by (simp add: mz_bitmasks_def)
  moreover assume "n \<le> 16"
  ultimately have "mz_bitmasks ! n = 2 ^ n - 1" using each_entryD [of _ 0 mz_bitmasks mz_bitmasks n] by simp
  then have "mz_bitmasks ! n = mask n" by (simp add: mask_eq_exp_minus_1)
  then show ?thesis by (simp add: take_bit_eq_mask [symmetric] take_bit_eq_mod)
qed

lemma len_code:
  assumes "m < 256"
  shows "257 \<le> s_tdefl_len_sym ! m" "s_tdefl_len_sym ! m < 286" "s_tdefl_len_extra ! m = s_length_extra ! (s_tdefl_len_sym ! m - 257)"
    "s_tdefl_len_extra ! m \<le> 5" "length_of (s_tdefl_len_sym ! m) (m mod 2 ^ (s_tdefl_len_extra ! m)) = m + 3"
  using each_entryD [OF len_code_all, of m] assms by auto

lemma dist_code:
  assumes "d < TDEFL_LZ_DICT_SIZE"
  shows "dist_sym d < 30" "dist_extra d = s_dist_extra ! dist_sym d" "dist_extra d \<le> 13"
    "dist_of (dist_sym d) (d mod 2 ^ dist_extra d) = d + 1"
proof -
  have "dist_sym d < 30 \<and> dist_extra d = s_dist_extra ! dist_sym d \<and> dist_extra d \<le> 13 \<and>
    dist_of (dist_sym d) (d mod 2 ^ dist_extra d) = d + 1"
  proof (cases "d < 512")
    case True
    with each_entryD [OF small_dist_all, of d] show ?thesis by (auto simp: dist_sym_def dist_extra_def)
  next
    case False
    define h where "h = d div 256"
    have h: "2 \<le> h" "h < 128" using False assms by (simp_all add: h_def)
    let ?n = "s_tdefl_large_dist_extra ! h" and ?s = "s_tdefl_large_dist_sym ! h"
    have e: "?s < 30" "?n = s_dist_extra ! ?s" "8 \<le> ?n" "?n \<le> 13"
      "s_dist_base ! ?s + (h mod 2 ^ (?n - 8)) * 256 = h * 256 + 1"
      using each_entryD [OF large_dist_all, of h] h by auto
    have "(2 :: nat) ^ ?n = 256 * 2 ^ (?n - 8)"
      using e(3) power_add [of "2 :: nat" 8 "?n - 8"] by simp
    then have "d mod 2 ^ ?n = 256 * (h mod 2 ^ (?n - 8)) + d mod 256"
      unfolding h_def by (simp only: mod_mult2_eq)
    then have "s_dist_base ! ?s + d mod 2 ^ ?n = d + 1" using e(5) div_mult_mod_eq [of d 256] unfolding h_def by linarith
    with e False show ?thesis by (auto simp: dist_sym_def dist_extra_def h_def [symmetric] dist_of_def)
  qed
  then show "dist_sym d < 30" "dist_extra d = s_dist_extra ! dist_sym d" "dist_extra d \<le> 13"
    "dist_of (dist_sym d) (d mod 2 ^ dist_extra d) = d + 1" by blast+
qed

text \<open>C19. For every length from 3 to 258 and every distance from 1 to 32768 the compressor finds a symbol and a number of
  extra bits in its tables that the decompressor has under that symbol, and base plus extra bits is the length or the
  distance again.\<close>
theorem length_and_distance_codes_agree:
  "\<forall>m d. m < 256 \<and> d < TDEFL_LZ_DICT_SIZE \<longrightarrow>
     length_of (s_tdefl_len_sym ! m) (m AND mz_bitmasks ! (s_tdefl_len_extra ! m)) = m + TDEFL_MIN_MATCH_LEN \<and>
     s_tdefl_len_extra ! m = s_length_extra ! (s_tdefl_len_sym ! m - 257) \<and>
     dist_of (dist_sym d) (d AND mz_bitmasks ! dist_extra d) = d + 1 \<and>
     dist_extra d = s_dist_extra ! dist_sym d"
proof (intro allI impI)
  fix m d :: nat
  assume md: "m < 256 \<and> d < TDEFL_LZ_DICT_SIZE"
  have "s_tdefl_len_extra ! m \<le> 16" "dist_extra d \<le> 16"
    using len_code(4) [of m] dist_code(3) [of d] md by simp_all
  then show "length_of (s_tdefl_len_sym ! m) (m AND mz_bitmasks ! (s_tdefl_len_extra ! m)) = m + TDEFL_MIN_MATCH_LEN \<and>
     s_tdefl_len_extra ! m = s_length_extra ! (s_tdefl_len_sym ! m - 257) \<and>
     dist_of (dist_sym d) (d AND mz_bitmasks ! dist_extra d) = d + 1 \<and>
     dist_extra d = s_dist_extra ! dist_sym d"
    using len_code [of m] dist_code [of d] md by (simp add: bitmask)
qed

theorem length_and_distance_codes_agree_witness:
  "length_of (s_tdefl_len_sym ! 100) (100 AND mz_bitmasks ! (s_tdefl_len_extra ! 100)) = 100 + TDEFL_MIN_MATCH_LEN \<and>
   dist_of (dist_sym 5000) (5000 AND mz_bitmasks ! dist_extra 5000) = 5000 + 1"
proof -
  have "(100 :: nat) < 256 \<and> (5000 :: nat) < TDEFL_LZ_DICT_SIZE" by simp
  from length_and_distance_codes_agree [rule_format, OF this] show ?thesis by blast
qed

end
