(* ===== verification/Miniz_Writer.thy ===== *)
theory Miniz_Writer
  imports Miniz_Reader Miniz_Checksum Deflate_Tables
begin

unbundle bit_operations_syntax

text \<open>
  The writer of \<open>server/include/miniz.h\<close>: starting an archive in memory, in a file or from an opened one, adding
  entries from memory, from a file or from another archive, and writing the central directory. The
  compressor is a parameter: what it hands to its callback, the status it returns and its next state.
\<close>

section \<open>The compressor\<close>

text \<open>
  \<open>c_init T level\<close> is the state after \<open>tdefl_init\<close> with the flags of \<open>level\<close>, raw deflate and the default strategy.
  \<open>c_step T c bs flush\<close>: a fault of the compressor, or the blocks given to the callback in their order, the status
  and the state when every call of it succeeds; \<open>c_refused\<close> is the state after a call that failed.
\<close>

record 'c tdefl =
  c_init :: "nat \<Rightarrow> tdefl_status \<times> 'c"
  c_step :: "'c \<Rightarrow> byte list \<Rightarrow> tdefl_flush \<Rightarrow> fault + byte list list \<times> tdefl_status \<times> 'c"
  c_refused :: "'c \<Rightarrow> 'c"

record mz_zip_writer_add_state =
  m_cur_archive_file_ofs :: nat
  m_put_size :: nat

definition mz_zip_writer_add_put_buf_callback ::
    "zenv \<Rightarrow> mz_zip_writer_add_state \<Rightarrow> byte list \<Rightarrow> ('z zst_scheme, bool \<times> mz_zip_writer_add_state) comp" where
  "mz_zip_writer_add_put_buf_callback E a bs = bnd (pWrite E (m_cur_archive_file_ofs a) bs) (\<lambda>n.
     ret (if s32 (int n) \<noteq> s32 (int (length bs)) then (False, a)
          else (True, a\<lparr>m_cur_archive_file_ofs := u64 (m_cur_archive_file_ofs a + length bs),
                 m_put_size := u64 (m_put_size a + length bs)\<rparr>)))"

fun put_blocks ::
    "zenv \<Rightarrow> mz_zip_writer_add_state \<Rightarrow> byte list list \<Rightarrow> ('z zst_scheme, bool \<times> mz_zip_writer_add_state) comp" where
  "put_blocks E a [] = ret (True, a)"
| "put_blocks E a (bs # bss) = bnd (mz_zip_writer_add_put_buf_callback E a bs) (\<lambda>(ok, a).
     if ok then put_blocks E a bss else ret (False, a))"

definition compress_to_archive ::
    "zenv \<Rightarrow> 'c tdefl \<Rightarrow> 'c \<Rightarrow> mz_zip_writer_add_state \<Rightarrow> byte list \<Rightarrow> tdefl_flush \<Rightarrow>
     ('z zst_scheme, tdefl_status \<times> 'c \<times> mz_zip_writer_add_state) comp" where
  "compress_to_archive E T c a bs flush = (case c_step T c bs flush of
       Inl e \<Rightarrow> fail e
     | Inr (bss, status, c') \<Rightarrow> bnd (put_blocks E a bss) (\<lambda>(ok, a).
         ret (if ok then (status, c', a) else (TDEFL_STATUS_PUT_BUF_FAILED, c_refused T c, a))))"

section \<open>Starting an archive\<close>

definition mz_zip_writer_init :: "zenv \<Rightarrow> nat \<Rightarrow> ('z zst_scheme, bool) comp" where
  "mz_zip_writer_init E existing_size = bnd (gets arch) (\<lambda>z.
     if m_pState z \<noteq> None \<or> m_pWrite z = None \<or> m_zip_mode z \<noteq> MZ_ZIP_MODE_INVALID then ret False
     else if m_file_offset_alignment z \<noteq> 0 \<and> m_file_offset_alignment z AND (m_file_offset_alignment z - 1) \<noteq> 0
     then ret False
     else
       seq (upd_arch (\<lambda>a. a\<lparr>m_zip_mode := MZ_ZIP_MODE_WRITING, m_archive_size := existing_size,
              m_central_directory_file_ofs := 0, m_total_files := 0\<rparr>))
       (bnd (alloc E) (\<lambda>ok.
          if \<not> ok then ret False
          else seq (upd_arch (\<lambda>a. a\<lparr>m_pState := Some empty_state\<rparr>)) (ret True))))"

definition mz_zip_writer_end :: "zenv \<Rightarrow> ('z zst_scheme, bool) comp" where
  "mz_zip_writer_end E = bnd (gets arch) (\<lambda>z.
     case m_pState z of None \<Rightarrow> ret False
     | Some st \<Rightarrow>
         if m_zip_mode z \<noteq> MZ_ZIP_MODE_WRITING \<and> m_zip_mode z \<noteq> MZ_ZIP_MODE_WRITING_HAS_BEEN_FINALIZED then ret False
         else
           seq (upd_arch (\<lambda>a. a\<lparr>m_pState := None\<rparr>))
           (seq (case m_pFile st of None \<Rightarrow> skip | Some f \<Rightarrow> bnd (fclose E f) (\<lambda>_. skip))
           (seq (upd_arch (\<lambda>a. a\<lparr>m_zip_mode := MZ_ZIP_MODE_INVALID\<rparr>))
             (ret True))))"

definition mz_zip_writer_init_heap :: "zenv \<Rightarrow> nat \<Rightarrow> nat \<Rightarrow> ('z zst_scheme, bool) comp" where
  "mz_zip_writer_init_heap E size_to_reserve_at_beginning initial_allocation_size =
     seq (upd_arch (\<lambda>a. a\<lparr>m_pWrite := Some Heap_write_func\<rparr>))
     (bnd (mz_zip_writer_init E size_to_reserve_at_beginning) (\<lambda>ok.
        let initial_allocation_size = max initial_allocation_size size_to_reserve_at_beginning in
        if \<not> ok then ret False
        else if initial_allocation_size = 0 then ret True
        else bnd (alloc E) (\<lambda>ok.
          if \<not> ok then seq (mz_zip_writer_end E) (ret False)
          else seq (upd_state (\<lambda>st. st\<lparr>m_pMem := Some (replicate initial_allocation_size (of_nat (stale E))),
                      m_mem_capacity := initial_allocation_size\<rparr>)) (ret True))))"

text \<open>Writing zeros in portions of at most 4096 bytes.\<close>

function zeros_loop :: "zenv \<Rightarrow> nat \<Rightarrow> nat \<Rightarrow> ('z zst_scheme, bool) comp" where
  "zeros_loop E cur_file_ofs n =
     (if n = 0 then ret True
      else bnd (pWrite E cur_file_ofs (replicate (min 4096 n) 0)) (\<lambda>k.
        if k \<noteq> min 4096 n then ret False else zeros_loop E (u64 (cur_file_ofs + min 4096 n)) (n - min 4096 n)))"
  by pat_completeness auto
termination by (relation "measure (\<lambda>(E, ofs, n). n)") auto

declare zeros_loop.simps [simp del]

definition mz_zip_writer_write_zeros :: "zenv \<Rightarrow> nat \<Rightarrow> nat \<Rightarrow> ('z zst_scheme, bool) comp" where
  "mz_zip_writer_write_zeros E cur_file_ofs n = zeros_loop E cur_file_ofs (u32 n)"

definition mz_zip_writer_init_file :: "zenv \<Rightarrow> path \<Rightarrow> nat \<Rightarrow> ('z zst_scheme, bool) comp" where
  "mz_zip_writer_init_file E pFilename size_to_reserve_at_beginning =
     seq (upd_arch (\<lambda>a. a\<lparr>m_pWrite := Some File_write_func\<rparr>))
     (bnd (mz_zip_writer_init E size_to_reserve_at_beginning) (\<lambda>ok.
        if \<not> ok then ret False
        else bnd (fopen_wb E pFilename) (\<lambda>r. case r of
            None \<Rightarrow> seq (mz_zip_writer_end E) (ret False)
          | Some pFile \<Rightarrow>
              seq (upd_state (\<lambda>st. st\<lparr>m_pFile := Some pFile\<rparr>))
              (bnd (zeros_loop E 0 size_to_reserve_at_beginning) (\<lambda>ok.
                 if \<not> ok then seq (mz_zip_writer_end E) (ret False) else ret True)))))"

definition mz_zip_writer_init_from_reader :: "zenv \<Rightarrow> path option \<Rightarrow> ('z zst_scheme, bool) comp" where
  "mz_zip_writer_init_from_reader E pFilename = bnd (gets arch) (\<lambda>z.
     case m_pState z of None \<Rightarrow> ret False
     | Some st \<Rightarrow>
         if m_zip_mode z \<noteq> MZ_ZIP_MODE_READING then ret False
         else if m_total_files z = 0xFFFF \<or>
           u64 (m_archive_size z + MZ_ZIP_CENTRAL_DIR_HEADER_SIZE + MZ_ZIP_LOCAL_DIR_HEADER_SIZE) > 0xFFFFFFFF
         then ret False
         else
           bnd (case m_pFile st of
               Some f \<Rightarrow> (case pFilename of None \<Rightarrow> ret False
                 | Some name \<Rightarrow>
                     seq (upd_arch (\<lambda>a. a\<lparr>m_pWrite := Some File_write_func\<rparr>))
                     (bnd (freopen_rw E name f) (\<lambda>r.
                      seq (put_state (st\<lparr>m_pFile := r\<rparr>))
                      (if r = None then seq (mz_zip_reader_end E) (ret False) else ret True))))
             | None \<Rightarrow>
                 if m_pMem st \<noteq> None
                 then seq (put_state (st\<lparr>m_mem_capacity := m_mem_size st\<rparr>))
                   (seq (upd_arch (\<lambda>a. a\<lparr>m_pWrite := Some Heap_write_func\<rparr>)) (ret True))
                 else ret (m_pWrite z \<noteq> None)) (\<lambda>ok.
           if \<not> ok then ret False
           else seq (upd_arch (\<lambda>a. a\<lparr>m_archive_size := m_central_directory_file_ofs a,
                  m_zip_mode := MZ_ZIP_MODE_WRITING, m_central_directory_file_ofs := 0\<rparr>)) (ret True)))"

section \<open>Headers\<close>

text \<open>\<open>MZ_WRITE_LE16\<close> and \<open>MZ_WRITE_LE32\<close> as offset, number of bytes and value, stored one after the other.\<close>

definition put_fields :: "(nat \<times> nat \<times> nat) list \<Rightarrow> byte list \<Rightarrow> byte list" where
  "put_fields ws blk = fold (\<lambda>(ofs, n, v) b. overwrite b ofs (le n v)) ws blk"

definition mz_zip_writer_create_local_dir_header ::
    "nat \<Rightarrow> nat \<Rightarrow> nat \<Rightarrow> nat \<Rightarrow> nat \<Rightarrow> nat \<Rightarrow> nat \<Rightarrow> nat \<Rightarrow> nat \<Rightarrow> byte list" where
  "mz_zip_writer_create_local_dir_header filename_size extra_size uncomp_size comp_size uncomp_crc32 method bit_flags
     dos_time dos_date = put_fields
     [(MZ_ZIP_LDH_SIG_OFS, 4, MZ_ZIP_LOCAL_DIR_HEADER_SIG),
      (MZ_ZIP_LDH_VERSION_NEEDED_OFS, 2, if method \<noteq> 0 then 20 else 0),
      (MZ_ZIP_LDH_BIT_FLAG_OFS, 2, bit_flags),
      (MZ_ZIP_LDH_METHOD_OFS, 2, method),
      (MZ_ZIP_LDH_FILE_TIME_OFS, 2, dos_time),
      (MZ_ZIP_LDH_FILE_DATE_OFS, 2, dos_date),
      (MZ_ZIP_LDH_CRC32_OFS, 4, uncomp_crc32),
      (MZ_ZIP_LDH_COMPRESSED_SIZE_OFS, 4, comp_size),
      (MZ_ZIP_LDH_DECOMPRESSED_SIZE_OFS, 4, uncomp_size),
      (MZ_ZIP_LDH_FILENAME_LEN_OFS, 2, filename_size),
      (MZ_ZIP_LDH_EXTRA_LEN_OFS, 2, extra_size)] (replicate MZ_ZIP_LOCAL_DIR_HEADER_SIZE 0)"

definition mz_zip_writer_create_central_dir_header ::
    "nat \<Rightarrow> nat \<Rightarrow> nat \<Rightarrow> nat \<Rightarrow> nat \<Rightarrow> nat \<Rightarrow> nat \<Rightarrow> nat \<Rightarrow> nat \<Rightarrow> nat \<Rightarrow> nat \<Rightarrow> nat \<Rightarrow> byte list" where
  "mz_zip_writer_create_central_dir_header filename_size extra_size comment_size uncomp_size comp_size uncomp_crc32
     method bit_flags dos_time dos_date local_header_ofs ext_attributes =
     (let version_made_by = (10 * MZ_VER_MAJOR + MZ_VER_MINOR) OR (MZ_PLATFORM * 256) in put_fields
     [(MZ_ZIP_CDH_SIG_OFS, 4, MZ_ZIP_CENTRAL_DIR_HEADER_SIG),
      (MZ_ZIP_CDH_VERSION_MADE_BY_OFS, 2, version_made_by),
      (MZ_ZIP_CDH_VERSION_NEEDED_OFS, 2, if method \<noteq> 0 then 20 else 0),
      (MZ_ZIP_CDH_BIT_FLAG_OFS, 2, bit_flags),
      (MZ_ZIP_CDH_METHOD_OFS, 2, method),
      (MZ_ZIP_CDH_FILE_TIME_OFS, 2, dos_time),
      (MZ_ZIP_CDH_FILE_DATE_OFS, 2, dos_date),
      (MZ_ZIP_CDH_CRC32_OFS, 4, uncomp_crc32),
      (MZ_ZIP_CDH_COMPRESSED_SIZE_OFS, 4, comp_size),
      (MZ_ZIP_CDH_DECOMPRESSED_SIZE_OFS, 4, uncomp_size),
      (MZ_ZIP_CDH_FILENAME_LEN_OFS, 2, filename_size),
      (MZ_ZIP_CDH_EXTRA_LEN_OFS, 2, extra_size),
      (MZ_ZIP_CDH_COMMENT_LEN_OFS, 2, comment_size),
      (MZ_ZIP_CDH_EXTERNAL_ATTR_OFS, 4, ext_attributes),
      (MZ_ZIP_CDH_LOCAL_HEADER_OFS, 4, local_header_ofs)] (replicate MZ_ZIP_CENTRAL_DIR_HEADER_SIZE 0))"

text \<open>The push-backs to the central directory up to the first that fails.\<close>

fun push_all :: "zenv \<Rightarrow> (byte list option \<times> nat) list \<Rightarrow> ('z zst_scheme, bool) comp" where
  "push_all E [] = ret True"
| "push_all E ((p, n) # ps) =
     bnd (on_central_dir (\<lambda>a. mz_zip_array_push_back E (of_nat (stale E)) a p n)) (\<lambda>ok.
       if ok then push_all E ps else ret False)"

definition mz_zip_writer_add_to_central_dir ::
    "zenv \<Rightarrow> byte list \<Rightarrow> nat \<Rightarrow> byte list option \<Rightarrow> nat \<Rightarrow> byte list option \<Rightarrow> nat \<Rightarrow> nat \<Rightarrow> nat \<Rightarrow> nat \<Rightarrow> nat \<Rightarrow> nat \<Rightarrow>
     nat \<Rightarrow> nat \<Rightarrow> nat \<Rightarrow> nat \<Rightarrow> ('z zst_scheme, bool) comp" where
  "mz_zip_writer_add_to_central_dir E pFilename filename_size pExtra extra_size pComment comment_size uncomp_size comp_size
     uncomp_crc32 method bit_flags dos_time dos_date local_header_ofs ext_attributes = bnd get_state (\<lambda>st.
     let orig_central_dir_size = m_size (m_central_dir st);
         central_dir_ofs = u32 orig_central_dir_size;
         central_dir_header = mz_zip_writer_create_central_dir_header filename_size extra_size comment_size uncomp_size
           comp_size uncomp_crc32 method bit_flags dos_time dos_date local_header_ofs ext_attributes
     in
     if local_header_ofs > 0xFFFFFFFF \<or>
        u64 (orig_central_dir_size + MZ_ZIP_CENTRAL_DIR_HEADER_SIZE + filename_size + extra_size + comment_size) > 0xFFFFFFFF
     then ret False
     else bnd (push_all E [(Some central_dir_header, MZ_ZIP_CENTRAL_DIR_HEADER_SIZE), (Some pFilename, filename_size),
         (pExtra, extra_size), (pComment, comment_size)]) (\<lambda>ok.
       bnd (if ok then on_offsets (\<lambda>a. mz_zip_array_push_back E (stale E) a (Some [central_dir_ofs]) 1) else ret False) (\<lambda>ok.
       if ok then ret True
       else seq (on_central_dir (\<lambda>a. mz_zip_array_resize E (of_nat (stale E)) a orig_central_dir_size False)) (ret False))))"

section \<open>Names and alignment\<close>

fun name_chars_ok :: "byte list \<Rightarrow> bool" where
  "name_chars_ok [] = True"
| "name_chars_ok (c # cs) = (if c = 92 \<or> c = 58 then False else name_chars_ok cs)"

definition mz_zip_writer_validate_archive_name :: "byte list \<Rightarrow> bool" where
  "mz_zip_writer_validate_archive_name pArchive_name =
     (if pArchive_name \<noteq> [] \<and> hd pArchive_name = 47 then False else name_chars_ok pArchive_name)"

definition mz_zip_writer_compute_padding_needed_for_file_alignment :: "mz_zip_archive \<Rightarrow> nat" where
  "mz_zip_writer_compute_padding_needed_for_file_alignment z =
     (if m_file_offset_alignment z = 0 then 0
      else
        let n = u32 (m_archive_size z AND (m_file_offset_alignment z - 1))
        in u32 (sub64 (m_file_offset_alignment z) n AND (m_file_offset_alignment z - 1)))"

section \<open>Adding entries\<close>

text \<open>\<open>MZ_ASSERT\<close> that the header of the entry is aligned.\<close>

definition assert_aligned :: "nat \<Rightarrow> ('z zst_scheme, unit) comp" where
  "assert_aligned local_dir_header_ofs = bnd (gets arch) (\<lambda>z.
     if m_file_offset_alignment z \<noteq> 0 \<and> local_dir_header_ofs AND (m_file_offset_alignment z - 1) \<noteq> 0
     then fail Abort else skip)"

text \<open>The end of all functions that add an entry: the local header over the zeros, the central record, the counters.\<close>

definition finish_entry ::
    "zenv \<Rightarrow> byte list \<Rightarrow> byte list option \<Rightarrow> nat \<Rightarrow> nat \<Rightarrow> nat \<Rightarrow> nat \<Rightarrow> nat \<Rightarrow> nat \<Rightarrow> nat \<Rightarrow> nat \<Rightarrow> nat \<Rightarrow> nat \<Rightarrow>
     ('z zst_scheme, bool) comp" where
  "finish_entry E pArchive_name pComment comment_size uncomp_size comp_size uncomp_crc32 method dos_time dos_date
     local_dir_header_ofs ext_attributes cur_archive_file_ofs =
     (let archive_name_size = u16 (length pArchive_name);
          local_dir_header = mz_zip_writer_create_local_dir_header archive_name_size 0 uncomp_size comp_size
            uncomp_crc32 method 0 dos_time dos_date
      in
      if comp_size > 0xFFFFFFFF \<or> cur_archive_file_ofs > 0xFFFFFFFF then ret False
      else bnd (pWrite E local_dir_header_ofs local_dir_header) (\<lambda>k.
        if k \<noteq> length local_dir_header then ret False
        else bnd (mz_zip_writer_add_to_central_dir E pArchive_name archive_name_size None 0 pComment comment_size
               uncomp_size comp_size uncomp_crc32 method 0 dos_time dos_date local_dir_header_ofs ext_attributes) (\<lambda>ok.
          if \<not> ok then ret False
          else seq (upd_arch (\<lambda>a. a\<lparr>m_total_files := u32 (m_total_files a + 1), m_archive_size := cur_archive_file_ofs\<rparr>))
            (ret True))))"

text \<open>\<open>level_and_flags\<close> after the default has been put in; it is an unsigned number whose sign bit is tested.\<close>

definition default_level :: "nat \<Rightarrow> nat" where
  "default_level level_and_flags = (if s32 (int level_and_flags) < 0 then 6 else level_and_flags)"

text \<open>The data of an entry in memory: the result is \<open>cur_archive_file_ofs\<close>, \<open>comp_size\<close> and \<open>method\<close>.\<close>

definition add_mem_data ::
    "zenv \<Rightarrow> 'c tdefl \<Rightarrow> byte list \<Rightarrow> nat \<Rightarrow> nat \<Rightarrow> bool \<Rightarrow> nat \<Rightarrow> ('z zst_scheme, (nat \<times> nat \<times> nat) option) comp" where
  "add_mem_data E T data level_and_flags level store_data_uncompressed cur_archive_file_ofs =
     (if store_data_uncompressed
      then bnd (pWrite E cur_archive_file_ofs data) (\<lambda>k.
        ret (if k \<noteq> length data then None
             else Some (u64 (cur_archive_file_ofs + length data), length data,
               if flag_set level_and_flags MZ_ZIP_FLAG_COMPRESSED_DATA then MZ_DEFLATED else 0)))
      else if data \<noteq> []
      then (let (st, c) = c_init T level in
        if st \<noteq> TDEFL_STATUS_OKAY then ret None
        else bnd (compress_to_archive E T c \<lparr>m_cur_archive_file_ofs = cur_archive_file_ofs, m_put_size = 0\<rparr>
                    data TDEFL_FINISH) (\<lambda>(st, c, a).
          ret (if st \<noteq> TDEFL_STATUS_DONE then None
               else Some (m_cur_archive_file_ofs a, m_put_size a, MZ_DEFLATED))))
      else ret (Some (cur_archive_file_ofs, 0, 0)))"

text \<open>Zeros for padding and local header, then the name; the result is the offset of the header and the next offset.\<close>

definition begin_entry :: "zenv \<Rightarrow> byte list \<Rightarrow> ('z zst_scheme, (nat \<times> nat) option) comp" where
  "begin_entry E pArchive_name = bnd (gets arch) (\<lambda>z.
     let num_alignment_padding_bytes = mz_zip_writer_compute_padding_needed_for_file_alignment z;
         local_dir_header_ofs = u64 (m_archive_size z + num_alignment_padding_bytes);
         cur_archive_file_ofs = u64 (m_archive_size z + num_alignment_padding_bytes + MZ_ZIP_LOCAL_DIR_HEADER_SIZE)
     in
     bnd (mz_zip_writer_write_zeros E (m_archive_size z) (num_alignment_padding_bytes + MZ_ZIP_LOCAL_DIR_HEADER_SIZE)) (\<lambda>ok.
     if \<not> ok then ret None
     else seq (assert_aligned local_dir_header_ofs)
       (bnd (pWrite E cur_archive_file_ofs pArchive_name) (\<lambda>k.
        ret (if k \<noteq> length pArchive_name then None
             else Some (local_dir_header_ofs, u64 (cur_archive_file_ofs + length pArchive_name)))))))"

text \<open>No ZIP64 support: the archive must stay below 4 GB with the new entry.\<close>

definition no_room :: "mz_zip_archive \<Rightarrow> nat \<Rightarrow> bool" where
  "no_room z len \<longleftrightarrow> m_total_files z = 0xFFFF \<or>
     u64 (m_archive_size z + mz_zip_writer_compute_padding_needed_for_file_alignment z + MZ_ZIP_LOCAL_DIR_HEADER_SIZE +
       MZ_ZIP_CENTRAL_DIR_HEADER_SIZE + len) > 0xFFFFFFFF"

definition mz_zip_writer_add_mem_ex ::
    "zenv \<Rightarrow> 'c tdefl \<Rightarrow> byte list option \<Rightarrow> byte list option \<Rightarrow> nat \<Rightarrow> byte list option \<Rightarrow> nat \<Rightarrow> nat \<Rightarrow> nat \<Rightarrow> nat \<Rightarrow>
     ('z zst_scheme, bool) comp" where
  "mz_zip_writer_add_mem_ex E T archive_name pBuf buf_size pComment comment_size level_and_flags uncomp_size uncomp_crc32 =
     (let level_and_flags = default_level level_and_flags;
          level = level_and_flags mod 16;
          given = flag_set level_and_flags MZ_ZIP_FLAG_COMPRESSED_DATA;
          store_data_uncompressed = (level = 0 \<or> given)
      in bnd (gets arch) (\<lambda>z.
      case (m_pState z, archive_name) of
        (Some _, Some pArchive_name) \<Rightarrow>
          if m_zip_mode z \<noteq> MZ_ZIP_MODE_WRITING \<or> buf_size \<noteq> 0 \<and> pBuf = None \<or> comment_size \<noteq> 0 \<and> pComment = None \<or>
             m_total_files z = 0xFFFF \<or> level > MZ_UBER_COMPRESSION
          then ret False
          else if \<not> given \<and> uncomp_size \<noteq> 0 then ret False
          else if buf_size > 0xFFFFFFFF \<or> uncomp_size > 0xFFFFFFFF then ret False
          else if \<not> mz_zip_writer_validate_archive_name pArchive_name then ret False
          else bnd (lib_time E) (\<lambda>cur_time.
            let (dos_time, dos_date) = mz_zip_time_t_to_dos_time E cur_time;
                archive_name_size = length pArchive_name;
                is_dir = (archive_name_size \<noteq> 0 \<and> last pArchive_name = 47)
            in
            if archive_name_size > 0xFFFF then ret False
            else if no_room z (comment_size + archive_name_size) then ret False
            else if is_dir \<and> (buf_size \<noteq> 0 \<or> uncomp_size \<noteq> 0) then ret False
            else bnd (on_central_dir (\<lambda>a. mz_zip_array_ensure_room E (of_nat (stale E)) a
                   (MZ_ZIP_CENTRAL_DIR_HEADER_SIZE + archive_name_size + comment_size))) (\<lambda>ok.
            if \<not> ok then ret False
            else bnd (on_offsets (\<lambda>a. mz_zip_array_ensure_room E (stale E) a 1)) (\<lambda>ok.
            if \<not> ok then ret False
            else bnd (if \<not> store_data_uncompressed \<and> buf_size \<noteq> 0 then alloc E else ret True) (\<lambda>ok.
            if \<not> ok then ret False
            else bnd (begin_entry E pArchive_name) (\<lambda>r. case r of
                None \<Rightarrow> ret False
              | Some (local_dir_header_ofs, cur_archive_file_ofs) \<Rightarrow>
                  bnd (peek buf_size (case pBuf of None \<Rightarrow> [] | Some b \<Rightarrow> b) 0) (\<lambda>data.
                  let crc = (if given then uncomp_crc32 else unat (mz_crc32 0 (map_option (\<lambda>_. data) pBuf)));
                      uncomp_size = (if given then uncomp_size else buf_size);
                      store_data_uncompressed = (store_data_uncompressed \<or> \<not> given \<and> uncomp_size \<le> 3)
                  in
                  bnd (add_mem_data E T data level_and_flags level store_data_uncompressed cur_archive_file_ofs) (\<lambda>r.
                  case r of None \<Rightarrow> ret False
                  | Some (cur_archive_file_ofs, comp_size, method) \<Rightarrow>
                      finish_entry E pArchive_name pComment comment_size uncomp_size comp_size crc method dos_time dos_date
                        local_dir_header_ofs (if is_dir then 0x10 else 0) cur_archive_file_ofs)))))))
      | _ \<Rightarrow> ret False))"

definition mz_zip_writer_add_mem ::
    "zenv \<Rightarrow> 'c tdefl \<Rightarrow> byte list option \<Rightarrow> byte list option \<Rightarrow> nat \<Rightarrow> nat \<Rightarrow> ('z zst_scheme, bool) comp" where
  "mz_zip_writer_add_mem E T archive_name pBuf buf_size level_and_flags =
     mz_zip_writer_add_mem_ex E T archive_name pBuf buf_size None 0 level_and_flags 0 0"

section \<open>Adding a file\<close>

text \<open>\<open>mz_zip_get_file_modified_time\<close>.\<close>

definition mz_zip_get_file_modified_time :: "zenv \<Rightarrow> path \<Rightarrow> int option" where
  "mz_zip_get_file_modified_time E pFilename = map_option snd (file_stat E pFilename)"

text \<open>The loop that stores a file uncompressed: the running check sum and the next offset, and the source stream.\<close>

function store_loop ::
    "zenv \<Rightarrow> stream \<Rightarrow> nat \<Rightarrow> 32 word \<Rightarrow> nat \<Rightarrow> ('z zst_scheme, (32 word \<times> nat) option \<times> stream) comp" where
  "store_loop E pSrc_file uncomp_remaining uncomp_crc32 cur_archive_file_ofs =
     (if uncomp_remaining = 0 then ret (Some (uncomp_crc32, cur_archive_file_ofs), pSrc_file)
      else
        let n = min MZ_ZIP_MAX_IO_BUF_SIZE uncomp_remaining in
        bnd (fread E pSrc_file n) (\<lambda>(bs, pSrc_file).
          if length bs \<noteq> n then ret (None, pSrc_file)
          else bnd (pWrite E cur_archive_file_ofs bs) (\<lambda>k.
            if k \<noteq> n then ret (None, pSrc_file)
            else store_loop E pSrc_file (uncomp_remaining - n) (mz_crc32 uncomp_crc32 (Some bs))
                   (u64 (cur_archive_file_ofs + n)))))"
  by pat_completeness auto
termination by (relation "measure (\<lambda>(E, f, r, c, ofs). r)") auto

declare store_loop.simps [simp del]

text \<open>The loop that compresses a file. It goes on while the compressor answers \<open>TDEFL_STATUS_OKAY\<close>, also after the
  last byte; the first argument bounds the number of rounds.\<close>

fun deflate_loop ::
    "nat \<Rightarrow> zenv \<Rightarrow> 'c tdefl \<Rightarrow> 'c \<Rightarrow> mz_zip_writer_add_state \<Rightarrow> stream \<Rightarrow> nat \<Rightarrow> 32 word \<Rightarrow>
     ('z zst_scheme, (32 word \<times> mz_zip_writer_add_state) option \<times> stream) comp" where
  "deflate_loop 0 E T c a pSrc_file uncomp_remaining uncomp_crc32 = fail Diverges"
| "deflate_loop (Suc fuel) E T c a pSrc_file uncomp_remaining uncomp_crc32 =
     (let in_buf_size = min uncomp_remaining MZ_ZIP_MAX_IO_BUF_SIZE in
      bnd (fread E pSrc_file in_buf_size) (\<lambda>(bs, pSrc_file).
        if length bs \<noteq> in_buf_size then ret (None, pSrc_file)
        else
          let uncomp_crc32 = mz_crc32 uncomp_crc32 (Some bs);
              uncomp_remaining = uncomp_remaining - in_buf_size
          in bnd (compress_to_archive E T c a bs (if uncomp_remaining \<noteq> 0 then TDEFL_NO_FLUSH else TDEFL_FINISH))
            (\<lambda>(status, c, a).
              if status = TDEFL_STATUS_DONE then ret (Some (uncomp_crc32, a), pSrc_file)
              else if status \<noteq> TDEFL_STATUS_OKAY then ret (None, pSrc_file)
              else deflate_loop fuel E T c a pSrc_file uncomp_remaining uncomp_crc32)))"

text \<open>The data of the file: check sum, next offset, compressed size and method.\<close>

definition add_file_data ::
    "nat \<Rightarrow> zenv \<Rightarrow> 'c tdefl \<Rightarrow> stream \<Rightarrow> nat \<Rightarrow> nat \<Rightarrow> nat \<Rightarrow> ('z zst_scheme, (32 word \<times> nat \<times> nat \<times> nat) option \<times> stream) comp"
  where
  "add_file_data fuel E T pSrc_file uncomp_size level cur_archive_file_ofs =
     (if uncomp_size = 0 then ret (Some (0, cur_archive_file_ofs, 0, 0), pSrc_file)
      else bnd (alloc E) (\<lambda>ok.
        if \<not> ok then ret (None, pSrc_file)
        else if level = 0
        then bnd (store_loop E pSrc_file uncomp_size 0 cur_archive_file_ofs) (\<lambda>(r, pSrc_file).
          ret (map_option (\<lambda>(crc, ofs). (crc, ofs, uncomp_size, 0)) r, pSrc_file))
        else bnd (alloc E) (\<lambda>ok.
          if \<not> ok then ret (None, pSrc_file)
          else (let (st, c) = c_init T level in
            if st \<noteq> TDEFL_STATUS_OKAY then ret (None, pSrc_file)
            else bnd (deflate_loop fuel E T c \<lparr>m_cur_archive_file_ofs = cur_archive_file_ofs, m_put_size = 0\<rparr>
                        pSrc_file uncomp_size 0) (\<lambda>(r, pSrc_file).
              ret (map_option (\<lambda>(crc, a). (crc, m_cur_archive_file_ofs a, m_put_size a, MZ_DEFLATED)) r, pSrc_file))))))"

definition mz_zip_writer_add_file ::
    "nat \<Rightarrow> zenv \<Rightarrow> 'c tdefl \<Rightarrow> byte list option \<Rightarrow> path \<Rightarrow> byte list option \<Rightarrow> nat \<Rightarrow> nat \<Rightarrow> nat \<Rightarrow> ('z zst_scheme, bool) comp"
  where
  "mz_zip_writer_add_file fuel E T archive_name pSrc_filename pComment comment_size level_and_flags ext_attributes =
     (let level_and_flags = default_level level_and_flags;
          level = level_and_flags mod 16
      in bnd (gets arch) (\<lambda>z.
      case (m_pState z, archive_name) of
        (Some _, Some pArchive_name) \<Rightarrow>
          if m_zip_mode z \<noteq> MZ_ZIP_MODE_WRITING \<or> comment_size \<noteq> 0 \<and> pComment = None \<or> level > MZ_UBER_COMPRESSION
          then ret False
          else if flag_set level_and_flags MZ_ZIP_FLAG_COMPRESSED_DATA then ret False
          else if \<not> mz_zip_writer_validate_archive_name pArchive_name then ret False
          else if length pArchive_name > 0xFFFF then ret False
          else if no_room z (comment_size + length pArchive_name) then ret False
          else (case mz_zip_get_file_modified_time E pSrc_filename of None \<Rightarrow> ret False
          | Some file_modified_time \<Rightarrow>
            let (dos_time, dos_date) = mz_zip_time_t_to_dos_time E file_modified_time in
            bnd (fopen_rb E pSrc_filename) (\<lambda>r. case r of None \<Rightarrow> ret False
            | Some f \<Rightarrow>
              bnd (fseek_end E f) (\<lambda>(_, f).
              let uncomp_size = spos f in
              bnd (fseek_set E f 0) (\<lambda>(_, pSrc_file).
              if uncomp_size > 0xFFFFFFFF then seq (fclose E pSrc_file) (ret False)
              else
                let level = (if uncomp_size \<le> 3 then 0 else level) in
                bnd (begin_entry E pArchive_name) (\<lambda>r. case r of
                    None \<Rightarrow> seq (fclose E pSrc_file) (ret False)
                  | Some (local_dir_header_ofs, cur_archive_file_ofs) \<Rightarrow>
                      bnd (add_file_data fuel E T pSrc_file uncomp_size level cur_archive_file_ofs) (\<lambda>(r, pSrc_file).
                      seq (fclose E pSrc_file)
                      (case r of None \<Rightarrow> ret False
                       | Some (uncomp_crc32, cur_archive_file_ofs, comp_size, method) \<Rightarrow>
                           finish_entry E pArchive_name pComment comment_size uncomp_size comp_size (unat uncomp_crc32)
                             method dos_time dos_date local_dir_header_ofs ext_attributes cur_archive_file_ofs)))))))
      | _ \<Rightarrow> ret False))"

section \<open>Closing the archive\<close>

definition end_record :: "nat \<Rightarrow> nat \<Rightarrow> nat \<Rightarrow> byte list" where
  "end_record total_files central_dir_size central_dir_ofs = put_fields
     [(MZ_ZIP_ECDH_SIG_OFS, 4, MZ_ZIP_END_OF_CENTRAL_DIR_HEADER_SIG),
      (MZ_ZIP_ECDH_CDIR_NUM_ENTRIES_ON_DISK_OFS, 2, total_files),
      (MZ_ZIP_ECDH_CDIR_TOTAL_ENTRIES_OFS, 2, total_files),
      (MZ_ZIP_ECDH_CDIR_SIZE_OFS, 4, central_dir_size),
      (MZ_ZIP_ECDH_CDIR_OFS_OFS, 4, central_dir_ofs)] (replicate MZ_ZIP_END_OF_CENTRAL_DIR_HEADER_SIZE 0)"

text \<open>The central directory, when there are entries: the result is its size and its offset.\<close>

definition write_central_dir :: "zenv \<Rightarrow> ('z zst_scheme, (nat \<times> nat) option) comp" where
  "write_central_dir E = bnd (gets arch) (\<lambda>z. bnd get_state (\<lambda>st.
     if m_total_files z = 0 then ret (Some (0, 0))
     else
       let central_dir_ofs = m_archive_size z; central_dir_size = m_size (m_central_dir st) in
       seq (upd_arch (\<lambda>a. a\<lparr>m_central_directory_file_ofs := central_dir_ofs\<rparr>))
       (bnd (peek central_dir_size (m_p (m_central_dir st)) 0) (\<lambda>bs.
        bnd (pWrite E central_dir_ofs bs) (\<lambda>k.
          if k \<noteq> central_dir_size then ret None
          else seq (upd_arch (\<lambda>a. a\<lparr>m_archive_size := u64 (m_archive_size a + central_dir_size)\<rparr>))
            (ret (Some (central_dir_size, central_dir_ofs))))))))"

text \<open>The end record, behind the directory; then the archive is flushed and counts as finalized.\<close>

definition write_end_record :: "zenv \<Rightarrow> nat \<Rightarrow> nat \<Rightarrow> nat \<Rightarrow> ('z zst_scheme, bool) comp" where
  "write_end_record E total_files central_dir_size central_dir_ofs =
     (let hdr = end_record total_files central_dir_size central_dir_ofs in
      bnd (gets (\<lambda>s. m_archive_size (arch s))) (\<lambda>ofs.
      bnd (pWrite E ofs hdr) (\<lambda>k.
        if k \<noteq> MZ_ZIP_END_OF_CENTRAL_DIR_HEADER_SIZE then ret False
        else bnd get_state (\<lambda>st.
          bnd (case m_pFile st of None \<Rightarrow> ret True | Some f \<Rightarrow> fflush E f) (\<lambda>ok.
            if \<not> ok then ret False
            else seq (upd_arch (\<lambda>a. a\<lparr>m_archive_size := u64 (m_archive_size a + MZ_ZIP_END_OF_CENTRAL_DIR_HEADER_SIZE),
                   m_zip_mode := MZ_ZIP_MODE_WRITING_HAS_BEEN_FINALIZED\<rparr>)) (ret True))))))"

definition mz_zip_writer_finalize_archive :: "zenv \<Rightarrow> ('z zst_scheme, bool) comp" where
  "mz_zip_writer_finalize_archive E = bnd (gets arch) (\<lambda>z.
     case m_pState z of None \<Rightarrow> ret False
     | Some st \<Rightarrow>
         if m_zip_mode z \<noteq> MZ_ZIP_MODE_WRITING then ret False
         else if m_total_files z > 0xFFFF \<or>
           u64 (m_archive_size z + m_size (m_central_dir st) + MZ_ZIP_END_OF_CENTRAL_DIR_HEADER_SIZE) > 0xFFFFFFFF
         then ret False
         else bnd (write_central_dir E) (\<lambda>r. case r of None \<Rightarrow> ret False
           | Some (central_dir_size, central_dir_ofs) \<Rightarrow>
               write_end_record E (m_total_files z) central_dir_size central_dir_ofs))"

text \<open>\<open>*pBuf\<close> and \<open>*pSize\<close>, which stay as they are when the function fails.\<close>

definition mz_zip_writer_finalize_heap_archive :: "zenv \<Rightarrow> ('z zst_scheme, (byte list option \<times> nat) option) comp" where
  "mz_zip_writer_finalize_heap_archive E = bnd (gets arch) (\<lambda>z.
     if m_pState z = None \<or> m_pWrite z \<noteq> Some Heap_write_func then ret None
     else bnd (mz_zip_writer_finalize_archive E) (\<lambda>ok.
       if \<not> ok then ret None
       else bnd get_state (\<lambda>st.
         seq (put_state (st\<lparr>m_pMem := None, m_mem_size := 0, m_mem_capacity := 0\<rparr>))
           (ret (Some (m_pMem st, m_mem_size st))))))"

section \<open>Copying an entry from another archive\<close>

text \<open>\<open>on_source z m\<close> runs \<open>m\<close> on the archive \<open>z\<close>, an object different from the one that is written.\<close>

definition on_source ::
    "mz_zip_archive \<Rightarrow> ('z zst_scheme, 'a) comp \<Rightarrow> ('z zst_scheme, 'a \<times> mz_zip_archive) comp" where
  "on_source src m = bnd (gets arch) (\<lambda>z. seq (upd_arch (\<lambda>_. src)) (bnd m (\<lambda>r. bnd (gets arch) (\<lambda>src.
     seq (upd_arch (\<lambda>_. z)) (ret (r, src))))))"

function copy_loop ::
    "zenv \<Rightarrow> mz_zip_archive \<Rightarrow> nat \<Rightarrow> nat \<Rightarrow> nat \<Rightarrow> ('z zst_scheme, (nat \<times> nat) option \<times> mz_zip_archive) comp" where
  "copy_loop E src comp_bytes_remaining cur_src_file_ofs cur_dst_file_ofs =
     (if comp_bytes_remaining = 0 then ret (Some (cur_src_file_ofs, cur_dst_file_ofs), src)
      else
        let n = min MZ_ZIP_MAX_IO_BUF_SIZE comp_bytes_remaining in
        bnd (on_source src (pRead E cur_src_file_ofs n)) (\<lambda>(bs, src).
          if length bs \<noteq> n then ret (None, src)
          else bnd (pWrite E cur_dst_file_ofs bs) (\<lambda>k.
            if k \<noteq> n then ret (None, src)
            else copy_loop E src (comp_bytes_remaining - n) (u64 (cur_src_file_ofs + n)) (u64 (cur_dst_file_ofs + n)))))"
  by pat_completeness auto
termination by (relation "measure (\<lambda>(E, src, r, a, b). r)") auto

declare copy_loop.simps [simp del]

text \<open>The data descriptor behind an entry whose flags announce one: 16 bytes are read, 12 or 16 are written.\<close>

definition copy_descriptor ::
    "zenv \<Rightarrow> mz_zip_archive \<Rightarrow> nat \<Rightarrow> nat \<Rightarrow> nat \<Rightarrow> ('z zst_scheme, nat option \<times> mz_zip_archive) comp" where
  "copy_descriptor E src bit_flags cur_src_file_ofs cur_dst_file_ofs =
     (if \<not> flag_set bit_flags 8 then ret (Some cur_dst_file_ofs, src)
      else bnd (on_source src (pRead E cur_src_file_ofs 16)) (\<lambda>(bs, src).
        if length bs \<noteq> 16 then ret (None, src)
        else
          let n = 4 * (if field 4 bs 0 = 0x08074b50 then 4 else 3) in
          bnd (pWrite E cur_dst_file_ofs (take n bs)) (\<lambda>k.
            ret (if k \<noteq> n then None else Some (u64 (cur_dst_file_ofs + n)), src))))"

text \<open>The central record of the source, with the new offset of the local header, and its variable part.\<close>

definition copy_central_record ::
    "zenv \<Rightarrow> byte list \<Rightarrow> nat \<Rightarrow> nat \<Rightarrow> nat \<Rightarrow> ('z zst_scheme, bool) comp" where
  "copy_central_record E src_cd p local_dir_header_ofs cur_dst_file_ofs = bnd get_state (\<lambda>st.
     let orig_central_dir_size = m_size (m_central_dir st);
         undo = seq (on_central_dir (\<lambda>a. mz_zip_array_resize E (of_nat (stale E)) a orig_central_dir_size False)) (ret False)
     in
     bnd (peek MZ_ZIP_CENTRAL_DIR_HEADER_SIZE src_cd p) (\<lambda>h.
     let central_header = overwrite h MZ_ZIP_CDH_LOCAL_HEADER_OFS (le 4 local_dir_header_ofs);
         n = field 2 h MZ_ZIP_CDH_FILENAME_LEN_OFS + field 2 h MZ_ZIP_CDH_EXTRA_LEN_OFS + field 2 h MZ_ZIP_CDH_COMMENT_LEN_OFS
     in
     bnd (on_central_dir (\<lambda>a. mz_zip_array_push_back E (of_nat (stale E)) a (Some central_header)
            MZ_ZIP_CENTRAL_DIR_HEADER_SIZE)) (\<lambda>ok.
     if \<not> ok then ret False
     else bnd (on_central_dir (\<lambda>a. mz_zip_array_push_back E (of_nat (stale E)) a
            (Some (drop (p + MZ_ZIP_CENTRAL_DIR_HEADER_SIZE) src_cd)) n)) (\<lambda>ok.
     if \<not> ok then undo
     else bnd get_state (\<lambda>st.
     if m_size (m_central_dir st) > 0xFFFFFFFF then ret False
     else bnd (on_offsets (\<lambda>a. mz_zip_array_push_back E (stale E) a (Some [u32 orig_central_dir_size]) 1)) (\<lambda>ok.
     if \<not> ok then undo
     else seq (upd_arch (\<lambda>a. a\<lparr>m_total_files := u32 (m_total_files a + 1), m_archive_size := cur_dst_file_ofs\<rparr>))
       (ret True)))))))"

definition mz_zip_writer_add_from_zip_reader ::
    "zenv \<Rightarrow> mz_zip_archive \<Rightarrow> nat \<Rightarrow> ('z zst_scheme, bool \<times> mz_zip_archive) comp" where
  "mz_zip_writer_add_from_zip_reader E pSource_zip file_index = bnd (gets arch) (\<lambda>z.
     if m_pState z = None \<or> m_zip_mode z \<noteq> MZ_ZIP_MODE_WRITING then ret (False, pSource_zip)
     else bnd (on_source pSource_zip (bnd (mz_zip_reader_get_cdh file_index) (\<lambda>r. case r of None \<Rightarrow> ret None
        | Some p \<Rightarrow> bnd central_dir (\<lambda>cd. ret (Some (p, cd)))))) (\<lambda>(r, src).
     case r of None \<Rightarrow> ret (False, src)
     | Some (p, cd) \<Rightarrow>
       if no_room z 0 then ret (False, src)
       else bnd (load 4 cd (p + MZ_ZIP_CDH_LOCAL_HEADER_OFS)) (\<lambda>cur_src_file_ofs.
       bnd (on_source src (pRead E cur_src_file_ofs MZ_ZIP_LOCAL_DIR_HEADER_SIZE)) (\<lambda>(h, src).
       if length h \<noteq> MZ_ZIP_LOCAL_DIR_HEADER_SIZE then ret (False, src)
       else if field 4 h 0 \<noteq> MZ_ZIP_LOCAL_DIR_HEADER_SIG then ret (False, src)
       else
         let pad = mz_zip_writer_compute_padding_needed_for_file_alignment z;
             local_dir_header_ofs = u64 (m_archive_size z + pad)
         in bnd (mz_zip_writer_write_zeros E (m_archive_size z) pad) (\<lambda>ok.
         if \<not> ok then ret (False, src)
         else seq (assert_aligned local_dir_header_ofs) (bnd (pWrite E local_dir_header_ofs h) (\<lambda>k.
         if k \<noteq> MZ_ZIP_LOCAL_DIR_HEADER_SIZE then ret (False, src)
         else bnd (load 4 cd (p + MZ_ZIP_CDH_COMPRESSED_SIZE_OFS)) (\<lambda>comp_size.
         let n = field 2 h MZ_ZIP_LDH_FILENAME_LEN_OFS + field 2 h MZ_ZIP_LDH_EXTRA_LEN_OFS in
         bnd (alloc E) (\<lambda>ok.
         if \<not> ok then ret (False, src)
         else bnd (copy_loop E src (u32 (n + comp_size)) (u64 (cur_src_file_ofs + MZ_ZIP_LOCAL_DIR_HEADER_SIZE))
                (u64 (local_dir_header_ofs + MZ_ZIP_LOCAL_DIR_HEADER_SIZE))) (\<lambda>(r, src).
         case r of None \<Rightarrow> ret (False, src)
         | Some (cur_src_file_ofs, cur_dst_file_ofs) \<Rightarrow>
             bnd (copy_descriptor E src (field 2 h MZ_ZIP_LDH_BIT_FLAG_OFS) cur_src_file_ofs cur_dst_file_ofs) (\<lambda>(r, src).
             case r of None \<Rightarrow> ret (False, src)
             | Some cur_dst_file_ofs \<Rightarrow>
                 if cur_dst_file_ofs > 0xFFFFFFFF then ret (False, src)
                 else bnd (copy_central_record E cd p local_dir_header_ofs cur_dst_file_ofs) (\<lambda>ok. ret (ok, src)))))))))))))"

section \<open>An entry added to a file in place\<close>

definition mz_zip_add_mem_to_archive_file_in_place ::
    "zenv \<Rightarrow> 'c tdefl \<Rightarrow> path option \<Rightarrow> byte list option \<Rightarrow> byte list option \<Rightarrow> nat \<Rightarrow> byte list option \<Rightarrow> nat \<Rightarrow> nat \<Rightarrow>
     ('z zst_scheme, bool) comp" where
  "mz_zip_add_mem_to_archive_file_in_place E T zip_filename archive_name pBuf buf_size pComment comment_size level_and_flags =
     seq (upd_arch (\<lambda>_. clear_archive))
     (let level_and_flags = default_level level_and_flags in
      case (zip_filename, archive_name) of
        (Some pZip_filename, Some pArchive_name) \<Rightarrow>
          if buf_size \<noteq> 0 \<and> pBuf = None \<or> comment_size \<noteq> 0 \<and> pComment = None \<or>
             level_and_flags mod 16 > MZ_UBER_COMPRESSION \<or> \<not> mz_zip_writer_validate_archive_name pArchive_name
          then ret False
          else
            let created_new_archive = (file_stat E pZip_filename = None) in
            bnd (if created_new_archive then mz_zip_writer_init_file E pZip_filename 0
                 else bnd (mz_zip_reader_init_file E pZip_filename
                             (level_and_flags OR MZ_ZIP_FLAG_DO_NOT_SORT_CENTRAL_DIRECTORY)) (\<lambda>ok.
                   if \<not> ok then ret False
                   else bnd (mz_zip_writer_init_from_reader E (Some pZip_filename)) (\<lambda>ok.
                     if ok then ret True else seq (mz_zip_reader_end E) (ret False)))) (\<lambda>ok.
            if \<not> ok then ret False
            else bnd (mz_zip_writer_add_mem_ex E T archive_name pBuf buf_size pComment comment_size level_and_flags 0 0) (\<lambda>a.
              bnd (mz_zip_writer_finalize_archive E) (\<lambda>b.
              bnd (mz_zip_writer_end E) (\<lambda>c.
              let status = (a \<and> b \<and> c) in
              seq (when_do (\<not> status \<and> created_new_archive) (bnd (fs_call E (Remove_file pZip_filename)) (\<lambda>_. skip)))
                (ret status)))))
      | _ \<Rightarrow> ret False)"

end
