(* ===== verification/Miniz_Extract.thy ===== *)
theory Miniz_Extract
  imports Miniz_Reader Miniz_Checksum Deflate_Tables
begin

unbundle bit_operations_syntax

text \<open>
  Reading the data of an entry back, as \<open>server/include/miniz.h\<close> does it: into memory, into a new block, through
  a callback, into a file. The decompressor is a parameter: how much input it takes, what it writes behind the
  output so far, the status it returns and its next state.
\<close>

section \<open>The decompressor\<close>

text \<open>
  \<open>i_step I d input buf ofs n flags\<close>: one call of \<open>tinfl_decompress\<close> with \<open>buf\<close> as output buffer, which may
  write \<open>n\<close> bytes from \<open>ofs\<close> on. The result: status, number of bytes taken, the bytes written, next state.
\<close>

record 'd tinfl =
  i_init :: 'd
  i_step :: "'d \<Rightarrow> byte list \<Rightarrow> byte list \<Rightarrow> nat \<Rightarrow> nat \<Rightarrow> nat \<Rightarrow> tinfl_status \<times> nat \<times> byte list \<times> 'd"

section \<open>Finding the data\<close>

text \<open>The checks that both functions make before they read: \<open>Some True\<close> means that there is nothing to extract.\<close>

definition entry_checks :: "mz_zip_archive_file_stat \<Rightarrow> nat \<Rightarrow> ('z zst_scheme, bool option) comp" where
  "entry_checks fstat flags =
     (if m_comp_size fstat = 0 then ret (Some True)
      else bnd (mz_zip_reader_is_file_a_directory (m_file_index fstat)) (\<lambda>dir.
        ret (if dir then Some True
             else if flag_set (m_bit_flag fstat) 1 \<or> flag_set (m_bit_flag fstat) 32 then None
             else if \<not> flag_set flags MZ_ZIP_FLAG_COMPRESSED_DATA \<and> m_method fstat \<noteq> 0 \<and>
                     m_method fstat \<noteq> MZ_DEFLATED
             then None
             else Some False)))"

text \<open>The offset of the data, behind the local header.\<close>

definition data_offset :: "zenv \<Rightarrow> mz_zip_archive_file_stat \<Rightarrow> ('z zst_scheme, nat option) comp" where
  "data_offset E fstat = bnd (pRead E (m_local_header_ofs fstat) MZ_ZIP_LOCAL_DIR_HEADER_SIZE) (\<lambda>h.
     if length h \<noteq> MZ_ZIP_LOCAL_DIR_HEADER_SIZE then ret None
     else if field 4 h 0 \<noteq> MZ_ZIP_LOCAL_DIR_HEADER_SIG then ret None
     else bnd (gets (\<lambda>s. m_archive_size (arch s))) (\<lambda>sz.
       let cur_file_ofs = u64 (m_local_header_ofs fstat + MZ_ZIP_LOCAL_DIR_HEADER_SIZE +
             field 2 h MZ_ZIP_LDH_FILENAME_LEN_OFS + field 2 h MZ_ZIP_LDH_EXTRA_LEN_OFS)
       in ret (if u64 (cur_file_ofs + m_comp_size fstat) > sz then None else Some cur_file_ofs)))"

text \<open>The compressed data in memory, or \<open>None\<close> for an archive in a file.\<close>

definition mem_data :: "nat \<Rightarrow> nat \<Rightarrow> ('z zst_scheme, byte list option) comp" where
  "mem_data cur_file_ofs comp_size = bnd get_state (\<lambda>st. case m_pMem st of
     None \<Rightarrow> ret None
   | Some mem \<Rightarrow> bnd (peek comp_size mem cur_file_ofs) (\<lambda>bs. ret (Some bs)))"

text \<open>
  The read buffer: what is left in it, the next offset in the file and the bytes that are still to be read.
  \<open>refill\<close> reads when it is empty; the result is false when the read failed.
\<close>

record read_buf =
  read_buf_avail :: "byte list"
  cur_ofs :: nat
  comp_left :: nat

definition refill :: "zenv \<Rightarrow> bool \<Rightarrow> nat \<Rightarrow> read_buf \<Rightarrow> ('z zst_scheme, bool \<times> read_buf) comp" where
  "refill E in_mem read_buf_size b =
     (if read_buf_avail b \<noteq> [] \<or> in_mem then ret (True, b)
      else
        let n = min read_buf_size (comp_left b) in
        bnd (pRead E (cur_ofs b) n) (\<lambda>bs.
          ret (if length bs \<noteq> n then (False, b)
               else (True, \<lparr>read_buf_avail = bs, cur_ofs = u64 (cur_ofs b + n), comp_left = comp_left b - n\<rparr>))))"

definition more_input :: "read_buf \<Rightarrow> nat" where
  "more_input b = (if comp_left b \<noteq> 0 then TINFL_FLAG_HAS_MORE_INPUT else 0)"

section \<open>Into memory\<close>

text \<open>\<open>do ... while (status == TINFL_STATUS_NEEDS_MORE_INPUT)\<close>; the first argument bounds the rounds.\<close>

fun inflate_loop ::
    "nat \<Rightarrow> zenv \<Rightarrow> 'd tinfl \<Rightarrow> bool \<Rightarrow> nat \<Rightarrow> nat \<Rightarrow> 'd \<Rightarrow> read_buf \<Rightarrow> byte list \<Rightarrow> nat \<Rightarrow>
     ('z zst_scheme, tinfl_status \<times> byte list \<times> nat) comp" where
  "inflate_loop 0 E I in_mem read_buf_size uncomp_size inflator b pBuf out_buf_ofs = fail Diverges"
| "inflate_loop (Suc fuel) E I in_mem read_buf_size uncomp_size inflator b pBuf out_buf_ofs =
     bnd (refill E in_mem read_buf_size b) (\<lambda>(ok, b).
       if \<not> ok then ret (TINFL_STATUS_FAILED, pBuf, out_buf_ofs)
       else
         let (status, taken, bs, inflator) = i_step I inflator (read_buf_avail b) pBuf out_buf_ofs
               (sub64 uncomp_size out_buf_ofs) (TINFL_FLAG_USING_NON_WRAPPING_OUTPUT_BUF + more_input b);
             b = b\<lparr>read_buf_avail := drop taken (read_buf_avail b)\<rparr>
         in bnd (poke pBuf out_buf_ofs bs) (\<lambda>pBuf.
           if status = TINFL_STATUS_NEEDS_MORE_INPUT
           then inflate_loop fuel E I in_mem read_buf_size uncomp_size inflator b pBuf (out_buf_ofs + length bs)
           else ret (status, pBuf, out_buf_ofs + length bs)))"

definition crc_of :: "byte list \<Rightarrow> nat" where
  "crc_of bs = unat (mz_crc32 0 (Some bs))"

text \<open>The stored data, or the compressed data as they are.\<close>

definition read_stored ::
    "zenv \<Rightarrow> mz_zip_archive_file_stat \<Rightarrow> byte list \<Rightarrow> nat \<Rightarrow> nat \<Rightarrow> nat \<Rightarrow> ('z zst_scheme, bool \<times> byte list) comp" where
  "read_stored E fstat pBuf needed_size flags cur_file_ofs = bnd (pRead E cur_file_ofs needed_size) (\<lambda>bs.
     bnd (poke pBuf 0 bs) (\<lambda>pBuf.
     if length bs \<noteq> needed_size then ret (False, pBuf)
     else if flag_set flags MZ_ZIP_FLAG_COMPRESSED_DATA then ret (True, pBuf)
     else bnd (peek (m_uncomp_size fstat) pBuf 0) (\<lambda>bs. ret (crc_of bs = m_crc32 fstat, pBuf))))"

text \<open>
  \<open>pBuf\<close> is the buffer of the caller and \<open>buf_size\<close> the size the caller passes; \<open>user_read_buf\<close> is \<open>None\<close> for a null
  pointer, else the size of the read buffer. The result has the buffer as it is left.
\<close>

definition mz_zip_reader_extract_to_mem_no_alloc ::
    "nat \<Rightarrow> zenv \<Rightarrow> 'd tinfl \<Rightarrow> nat \<Rightarrow> byte list option \<Rightarrow> nat \<Rightarrow> nat \<Rightarrow> nat option \<Rightarrow>
     ('z zst_scheme, bool \<times> byte list) comp" where
  "mz_zip_reader_extract_to_mem_no_alloc fuel E I file_index pBuf buf_size flags user_read_buf =
     (let buf = (case pBuf of None \<Rightarrow> [] | Some b \<Rightarrow> b) in
      if buf_size \<noteq> 0 \<and> pBuf = None then ret (False, buf)
      else bnd (mz_zip_reader_file_stat E file_index) (\<lambda>r. case r of None \<Rightarrow> ret (False, buf)
      | Some fstat \<Rightarrow> bnd (entry_checks fstat flags) (\<lambda>r. case r of None \<Rightarrow> ret (False, buf)
      | Some True \<Rightarrow> ret (True, buf)
      | Some False \<Rightarrow>
        let needed_size = (if flag_set flags MZ_ZIP_FLAG_COMPRESSED_DATA then m_comp_size fstat
                           else m_uncomp_size fstat)
        in
        if buf_size < needed_size then ret (False, buf)
        else bnd (data_offset E fstat) (\<lambda>r. case r of None \<Rightarrow> ret (False, buf)
        | Some cur_file_ofs \<Rightarrow>
          if flag_set flags MZ_ZIP_FLAG_COMPRESSED_DATA \<or> m_method fstat = 0
          then read_stored E fstat buf needed_size flags cur_file_ofs
          else bnd (mem_data cur_file_ofs (m_comp_size fstat)) (\<lambda>m.
            bnd (case m of
                Some bs \<Rightarrow> ret (Some (True, m_comp_size fstat,
                  \<lparr>read_buf_avail = bs, cur_ofs = cur_file_ofs, comp_left = 0\<rparr>))
              | None \<Rightarrow>
                  let b = \<lparr>read_buf_avail = [], cur_ofs = cur_file_ofs, comp_left = m_comp_size fstat\<rparr> in
                  (case user_read_buf of
                    Some n \<Rightarrow> ret (if n = 0 then None else Some (False, n, b))
                  | None \<Rightarrow> bnd (alloc E) (\<lambda>ok.
                      ret (if ok then Some (False, min (m_comp_size fstat) MZ_ZIP_MAX_IO_BUF_SIZE, b) else None)))) (\<lambda>r.
            case r of None \<Rightarrow> ret (False, buf)
            | Some (in_mem, read_buf_size, b) \<Rightarrow>
                bnd (inflate_loop fuel E I in_mem read_buf_size (m_uncomp_size fstat) (i_init I) b buf 0)
                (\<lambda>(status, buf, out_buf_ofs).
                  if status \<noteq> TINFL_STATUS_DONE then ret (False, buf)
                  else if out_buf_ofs \<noteq> m_uncomp_size fstat then ret (False, buf)
                  else bnd (peek (m_uncomp_size fstat) buf 0) (\<lambda>bs. ret (crc_of bs = m_crc32 fstat, buf)))))))))"

definition mz_zip_reader_extract_file_to_mem_no_alloc ::
    "nat \<Rightarrow> zenv \<Rightarrow> 'd tinfl \<Rightarrow> byte list \<Rightarrow> byte list option \<Rightarrow> nat \<Rightarrow> nat \<Rightarrow> nat option \<Rightarrow>
     ('z zst_scheme, bool \<times> byte list) comp" where
  "mz_zip_reader_extract_file_to_mem_no_alloc fuel E I pFilename pBuf buf_size flags user_read_buf =
     bnd (mz_zip_reader_locate_file pFilename None flags) (\<lambda>file_index.
       if file_index < 0 then ret (False, case pBuf of None \<Rightarrow> [] | Some b \<Rightarrow> b)
       else mz_zip_reader_extract_to_mem_no_alloc fuel E I (nat file_index) pBuf buf_size flags user_read_buf)"

definition mz_zip_reader_extract_to_mem ::
    "nat \<Rightarrow> zenv \<Rightarrow> 'd tinfl \<Rightarrow> nat \<Rightarrow> byte list option \<Rightarrow> nat \<Rightarrow> nat \<Rightarrow> ('z zst_scheme, bool \<times> byte list) comp" where
  "mz_zip_reader_extract_to_mem fuel E I file_index pBuf buf_size flags =
     mz_zip_reader_extract_to_mem_no_alloc fuel E I file_index pBuf buf_size flags None"

definition mz_zip_reader_extract_file_to_mem ::
    "nat \<Rightarrow> zenv \<Rightarrow> 'd tinfl \<Rightarrow> byte list \<Rightarrow> byte list option \<Rightarrow> nat \<Rightarrow> nat \<Rightarrow> ('z zst_scheme, bool \<times> byte list) comp" where
  "mz_zip_reader_extract_file_to_mem fuel E I pFilename pBuf buf_size flags =
     mz_zip_reader_extract_file_to_mem_no_alloc fuel E I pFilename pBuf buf_size flags None"

text \<open>The new block, whose length is what is stored in \<open>*pSize\<close>; \<open>None\<close> stands for a null pointer and size 0.\<close>

definition mz_zip_reader_extract_to_heap ::
    "nat \<Rightarrow> zenv \<Rightarrow> 'd tinfl \<Rightarrow> nat \<Rightarrow> nat \<Rightarrow> ('z zst_scheme, byte list option) comp" where
  "mz_zip_reader_extract_to_heap fuel E I file_index flags = bnd (mz_zip_reader_get_cdh file_index) (\<lambda>r.
     case r of None \<Rightarrow> ret None
     | Some p \<Rightarrow> bnd central_dir (\<lambda>cd.
         bnd (load 4 cd (p + MZ_ZIP_CDH_COMPRESSED_SIZE_OFS)) (\<lambda>comp_size.
         bnd (load 4 cd (p + MZ_ZIP_CDH_DECOMPRESSED_SIZE_OFS)) (\<lambda>uncomp_size.
         let alloc_size = (if flag_set flags MZ_ZIP_FLAG_COMPRESSED_DATA then comp_size else uncomp_size) in
         bnd (alloc E) (\<lambda>ok.
           if \<not> ok then ret None
           else bnd (mz_zip_reader_extract_to_mem fuel E I file_index (Some (replicate alloc_size (of_nat (stale E))))
                       alloc_size flags) (\<lambda>(ok, pBuf). ret (if ok then Some pBuf else None)))))))"

definition mz_zip_reader_extract_file_to_heap ::
    "nat \<Rightarrow> zenv \<Rightarrow> 'd tinfl \<Rightarrow> byte list \<Rightarrow> nat \<Rightarrow> ('z zst_scheme, byte list option) comp" where
  "mz_zip_reader_extract_file_to_heap fuel E I pFilename flags =
     bnd (mz_zip_reader_locate_file pFilename None flags) (\<lambda>file_index.
       if file_index < 0 then ret None else mz_zip_reader_extract_to_heap fuel E I (nat file_index) flags)"

section \<open>Through a callback\<close>

text \<open>
  A callback with its opaque object \<open>'o\<close>: offset and bytes, the number it returns and the object after the call.
\<close>

type_synonym ('s, 'o) write_callback = "'o \<Rightarrow> nat \<Rightarrow> byte list \<Rightarrow> ('s, nat \<times> 'o) comp"

text \<open>The loop over stored data in a file; status, check sum, \<open>out_buf_ofs\<close> and the object.\<close>

function stored_loop ::
    "zenv \<Rightarrow> ('z zst_scheme, 'o) write_callback \<Rightarrow> nat \<Rightarrow> nat \<Rightarrow> nat \<Rightarrow> nat \<Rightarrow> nat \<Rightarrow> 32 word \<Rightarrow> 'o \<Rightarrow>
     ('z zst_scheme, tinfl_status \<times> 32 word \<times> nat \<times> 'o) comp" where
  "stored_loop E pCallback flags read_buf_size comp_remaining cur_file_ofs out_buf_ofs file_crc32 pOpaque =
     (if comp_remaining = 0 then ret (TINFL_STATUS_DONE, file_crc32, out_buf_ofs, pOpaque)
      else if read_buf_size = 0 then fail Diverges
      else
        let n = min read_buf_size comp_remaining in
        bnd (pRead E cur_file_ofs n) (\<lambda>bs.
          if length bs \<noteq> n then ret (TINFL_STATUS_FAILED, file_crc32, out_buf_ofs, pOpaque)
          else
            let file_crc32 = (if flag_set flags MZ_ZIP_FLAG_COMPRESSED_DATA then file_crc32
                              else mz_crc32 file_crc32 (Some bs))
            in bnd (pCallback pOpaque out_buf_ofs bs) (\<lambda>(k, pOpaque).
              if k \<noteq> n then ret (TINFL_STATUS_FAILED, file_crc32, out_buf_ofs, pOpaque)
              else stored_loop E pCallback flags read_buf_size (comp_remaining - n) (u64 (cur_file_ofs + n))
                     (u64 (out_buf_ofs + n)) file_crc32 pOpaque)))"
  by pat_completeness auto
termination by (relation "measure (\<lambda>(E, cb, fl, n, r, a, b, c, o'). r)") auto

declare stored_loop.simps [simp del]

text \<open>The loop through the dictionary of 32 KB.\<close>

fun inflate_callback_loop ::
    "nat \<Rightarrow> zenv \<Rightarrow> 'd tinfl \<Rightarrow> ('z zst_scheme, 'o) write_callback \<Rightarrow> bool \<Rightarrow> nat \<Rightarrow> nat \<Rightarrow> 'd \<Rightarrow> read_buf \<Rightarrow> byte list \<Rightarrow>
     nat \<Rightarrow> 32 word \<Rightarrow> 'o \<Rightarrow> ('z zst_scheme, tinfl_status \<times> 32 word \<times> nat \<times> 'o) comp" where
  "inflate_callback_loop 0 E I pCallback in_mem read_buf_size uncomp_size inflator b pWrite_buf out_buf_ofs file_crc32
     pOpaque = fail Diverges"
| "inflate_callback_loop (Suc fuel) E I pCallback in_mem read_buf_size uncomp_size inflator b pWrite_buf out_buf_ofs
     file_crc32 pOpaque =
     bnd (refill E in_mem read_buf_size b) (\<lambda>(ok, b).
       if \<not> ok then ret (TINFL_STATUS_FAILED, file_crc32, out_buf_ofs, pOpaque)
       else
         let cur = out_buf_ofs mod TINFL_LZ_DICT_SIZE;
             (status, taken, bs, inflator) = i_step I inflator (read_buf_avail b) pWrite_buf cur
               (TINFL_LZ_DICT_SIZE - cur) (more_input b);
             b = b\<lparr>read_buf_avail := drop taken (read_buf_avail b)\<rparr>
         in bnd (poke pWrite_buf cur bs) (\<lambda>pWrite_buf.
           bnd (if bs = [] then ret (True, file_crc32, out_buf_ofs, pOpaque)
                else bnd (pCallback pOpaque out_buf_ofs bs) (\<lambda>(k, pOpaque).
                  ret (if k \<noteq> length bs then (False, file_crc32, out_buf_ofs, pOpaque)
                       else let ofs = u64 (out_buf_ofs + length bs)
                         in (\<not> ofs > uncomp_size, mz_crc32 file_crc32 (Some bs), ofs, pOpaque))))
           (\<lambda>(ok, file_crc32, out_buf_ofs, pOpaque).
             if \<not> ok then ret (TINFL_STATUS_FAILED, file_crc32, out_buf_ofs, pOpaque)
             else if status = TINFL_STATUS_NEEDS_MORE_INPUT \<or> status = TINFL_STATUS_HAS_MORE_OUTPUT
             then inflate_callback_loop fuel E I pCallback in_mem read_buf_size uncomp_size inflator b pWrite_buf
                    out_buf_ofs file_crc32 pOpaque
             else ret (status, file_crc32, out_buf_ofs, pOpaque))))"

definition mz_zip_reader_extract_to_callback ::
    "nat \<Rightarrow> zenv \<Rightarrow> 'd tinfl \<Rightarrow> nat \<Rightarrow> ('z zst_scheme, 'o) write_callback \<Rightarrow> 'o \<Rightarrow> nat \<Rightarrow> ('z zst_scheme, bool \<times> 'o) comp"
  where
  "mz_zip_reader_extract_to_callback fuel E I file_index pCallback pOpaque flags =
     bnd (mz_zip_reader_file_stat E file_index) (\<lambda>r. case r of None \<Rightarrow> ret (False, pOpaque)
     | Some fstat \<Rightarrow> bnd (entry_checks fstat flags) (\<lambda>r. case r of None \<Rightarrow> ret (False, pOpaque)
     | Some True \<Rightarrow> ret (True, pOpaque)
     | Some False \<Rightarrow> bnd (data_offset E fstat) (\<lambda>r. case r of None \<Rightarrow> ret (False, pOpaque)
     | Some cur_file_ofs \<Rightarrow>
       bnd (mem_data cur_file_ofs (m_comp_size fstat)) (\<lambda>m.
       let read_buf_size = (if m = None then min (m_comp_size fstat) MZ_ZIP_MAX_IO_BUF_SIZE else m_comp_size fstat);
           raw = flag_set flags MZ_ZIP_FLAG_COMPRESSED_DATA
       in
       bnd (if m = None then alloc E else ret True) (\<lambda>ok.
       if \<not> ok then ret (False, pOpaque)
       else bnd (if raw \<or> m_method fstat = 0
         then (case m of
             Some bs \<Rightarrow> bnd (pCallback pOpaque 0 bs) (\<lambda>(k, pOpaque).
               ret (if k \<noteq> m_comp_size fstat then (TINFL_STATUS_FAILED, 0, m_comp_size fstat, pOpaque)
                    else (TINFL_STATUS_DONE, if raw then 0 else mz_crc32 0 (Some bs), m_comp_size fstat, pOpaque)))
           | None \<Rightarrow> stored_loop E pCallback flags read_buf_size (m_comp_size fstat) cur_file_ofs 0 0 pOpaque)
         else bnd (alloc E) (\<lambda>ok.
           if \<not> ok then ret (TINFL_STATUS_FAILED, 0, 0, pOpaque)
           else inflate_callback_loop fuel E I pCallback (m \<noteq> None) read_buf_size (m_uncomp_size fstat) (i_init I)
             (case m of
                Some bs \<Rightarrow> \<lparr>read_buf_avail = bs, cur_ofs = cur_file_ofs, comp_left = 0\<rparr>
              | None \<Rightarrow> \<lparr>read_buf_avail = [], cur_ofs = cur_file_ofs, comp_left = m_comp_size fstat\<rparr>)
             (replicate TINFL_LZ_DICT_SIZE (of_nat (stale E))) 0 0 pOpaque))
       (\<lambda>(status, file_crc32, out_buf_ofs, pOpaque).
         ret (status = TINFL_STATUS_DONE \<and>
              (raw \<or> out_buf_ofs = m_uncomp_size fstat \<and> unat file_crc32 = m_crc32 fstat), pOpaque)))))))"

definition mz_zip_reader_extract_file_to_callback ::
    "nat \<Rightarrow> zenv \<Rightarrow> 'd tinfl \<Rightarrow> byte list \<Rightarrow> ('z zst_scheme, 'o) write_callback \<Rightarrow> 'o \<Rightarrow> nat \<Rightarrow>
     ('z zst_scheme, bool \<times> 'o) comp" where
  "mz_zip_reader_extract_file_to_callback fuel E I pFilename pCallback pOpaque flags =
     bnd (mz_zip_reader_locate_file pFilename None flags) (\<lambda>file_index.
       if file_index < 0 then ret (False, pOpaque)
       else mz_zip_reader_extract_to_callback fuel E I (nat file_index) pCallback pOpaque flags)"

section \<open>Into a file\<close>

definition mz_zip_file_write_callback :: "zenv \<Rightarrow> ('z world_scheme, stream) write_callback" where
  "mz_zip_file_write_callback E pOpaque ofs pBuf = fwrite E pOpaque pBuf"

definition mz_zip_set_file_times :: "zenv \<Rightarrow> path \<Rightarrow> int \<Rightarrow> ('z world_scheme, bool) comp" where
  "mz_zip_set_file_times E pFilename modified_time = fs_call E (Utime pFilename modified_time)"

definition mz_zip_reader_extract_to_file ::
    "nat \<Rightarrow> zenv \<Rightarrow> 'd tinfl \<Rightarrow> nat \<Rightarrow> path \<Rightarrow> nat \<Rightarrow> ('z zst_scheme, bool) comp" where
  "mz_zip_reader_extract_to_file fuel E I file_index pDst_filename flags =
     bnd (mz_zip_reader_file_stat E file_index) (\<lambda>r. case r of None \<Rightarrow> ret False
     | Some fstat \<Rightarrow> bnd (fopen_wb E pDst_filename) (\<lambda>r. case r of None \<Rightarrow> ret False
     | Some pFile \<Rightarrow>
         bnd (mz_zip_reader_extract_to_callback fuel E I file_index (mz_zip_file_write_callback E) pFile flags)
         (\<lambda>(status, pFile).
         bnd (fclose E pFile) (\<lambda>(ok, _).
         if \<not> ok then ret False
         else seq (when_do status (bnd (mz_zip_set_file_times E pDst_filename (m_time fstat)) (\<lambda>_. skip)))
           (ret status)))))"

definition mz_zip_reader_extract_file_to_file ::
    "nat \<Rightarrow> zenv \<Rightarrow> 'd tinfl \<Rightarrow> byte list \<Rightarrow> path \<Rightarrow> nat \<Rightarrow> ('z zst_scheme, bool) comp" where
  "mz_zip_reader_extract_file_to_file fuel E I pArchive_filename pDst_filename flags =
     bnd (mz_zip_reader_locate_file pArchive_filename None flags) (\<lambda>file_index.
       if file_index < 0 then ret False
       else mz_zip_reader_extract_to_file fuel E I (nat file_index) pDst_filename flags)"

definition mz_zip_extract_archive_file_to_heap ::
    "nat \<Rightarrow> zenv \<Rightarrow> 'd tinfl \<Rightarrow> path option \<Rightarrow> byte list option \<Rightarrow> nat \<Rightarrow> ('z zst_scheme, byte list option) comp" where
  "mz_zip_extract_archive_file_to_heap fuel E I zip_filename archive_name flags =
     (case (zip_filename, archive_name) of
       (Some pZip_filename, Some pArchive_name) \<Rightarrow>
         seq (upd_arch (\<lambda>_. clear_archive))
         (bnd (mz_zip_reader_init_file E pZip_filename (flags OR MZ_ZIP_FLAG_DO_NOT_SORT_CENTRAL_DIRECTORY)) (\<lambda>ok.
            if \<not> ok then ret None
            else bnd (mz_zip_reader_locate_file pArchive_name None flags) (\<lambda>file_index.
              bnd (if file_index \<ge> 0 then mz_zip_reader_extract_to_heap fuel E I (nat file_index) flags else ret None) (\<lambda>p.
                seq (mz_zip_reader_end E) (ret p)))))
     | _ \<Rightarrow> ret None)"

end
