(* ===== verification/Zip_Entry.thy ===== *)
theory Zip_Entry
  imports Zip_Delete Miniz_Writer Miniz_Extract
begin

text \<open>
  The interface of \<open>server/src/zip.c\<close>: opening an archive, one entry of it at a time for writing or for reading,
  deleting entries, archives in memory. A pointer to the handle is a truth value, false for the null pointer;
  the handle itself is part of the state, and using it after \<open>zip_close\<close> is a fault.
\<close>

section \<open>The handle\<close>

text \<open>\<open>entry_comp\<close> is \<open>None\<close> while the compressor holds the zeros of \<open>calloc\<close>.\<close>

record 'c zip_entry_t =
  entry_index :: int
  name_of_entry :: "byte list option"
  entry_uncomp_size :: nat
  entry_comp_size :: nat
  entry_crc32 :: "32 word"
  entry_offset :: nat
  entry_header :: "byte list"
  entry_header_offset :: nat
  entry_method :: nat
  entry_state :: mz_zip_writer_add_state
  entry_comp :: "'c option"
  entry_external_attr :: nat
  entry_time :: int

record 'c zip_t = zst +
  handle_live :: bool
  zip_level :: nat
  entry :: "'c zip_entry_t"

definition no_entry :: "'c zip_entry_t" where
  "no_entry = \<lparr>entry_index = 0, name_of_entry = None, entry_uncomp_size = 0, entry_comp_size = 0, entry_crc32 = 0,
     entry_offset = 0, entry_header = replicate MZ_ZIP_LOCAL_DIR_HEADER_SIZE 0, entry_header_offset = 0, entry_method = 0,
     entry_state = \<lparr>m_cur_archive_file_ofs = 0, m_put_size = 0\<rparr>, entry_comp = None, entry_external_attr = 0,
     entry_time = 0\<rparr>"

definition upd_entry :: "('c zip_entry_t \<Rightarrow> 'c zip_entry_t) \<Rightarrow> (('c, 'z) zip_t_scheme, unit) comp" where
  "upd_entry f = modify (\<lambda>s. s\<lparr>entry := f (entry s)\<rparr>)"

text \<open>\<open>on_handle h e m\<close>: \<open>if (!zip) return e\<close>, then \<open>m\<close> on the object, which must not have been freed.\<close>

definition on_handle :: "bool \<Rightarrow> 'a \<Rightarrow> (('c, 'z) zip_t_scheme, 'a) comp \<Rightarrow> (('c, 'z) zip_t_scheme, 'a) comp" where
  "on_handle h e m = (if \<not> h then ret e
     else bnd (gets handle_live) (\<lambda>ok. if ok then m else fail Freed_access))"

text \<open>\<open>calloc\<close> of the handle, and \<open>CLEANUP(zip)\<close>.\<close>

definition new_handle :: "nat \<Rightarrow> (('c, 'z) zip_t_scheme, unit) comp" where
  "new_handle level = modify (\<lambda>s. s\<lparr>arch := clear_archive, handle_live := True, zip_level := level, entry := no_entry\<rparr>)"

definition free_handle :: "(('c, 'z) zip_t_scheme, unit) comp" where
  "free_handle = modify (\<lambda>s. s\<lparr>handle_live := False\<rparr>)"

section \<open>Opening and closing an archive\<close>

definition zip_archive_truncate :: "zenv \<Rightarrow> ('z zst_scheme, int) comp" where
  "zip_archive_truncate E = bnd (gets arch) (\<lambda>z.
     bnd (if m_pWrite z = Some Heap_write_func then bnd get_state (\<lambda>st. ret (m_pMem st \<noteq> None)) else ret False) (\<lambda>heap.
     if heap \<or> m_zip_mode z \<noteq> MZ_ZIP_MODE_WRITING_HAS_BEEN_FINALIZED then ret 0
     else bnd get_state (\<lambda>st. case m_pFile st of
         None \<Rightarrow> ret 0
       | Some f \<Rightarrow> bnd (ftruncate E f (m_archive_size z)) (\<lambda>ok. ret (if ok then 0 else - 1)))))"

definition zip_archive_finalize :: "zenv \<Rightarrow> ('z zst_scheme, unit) comp" where
  "zip_archive_finalize E = bnd (mz_zip_writer_finalize_archive E) (\<lambda>_. bnd (zip_archive_truncate E) (\<lambda>_. skip))"

text \<open>The level after the default has been put in, or \<open>None\<close> for a wrong one.\<close>

definition check_level :: "int \<Rightarrow> nat option" where
  "check_level level = (let level = (if level < 0 then MZ_DEFAULT_LEVEL else level) in
     if nat (level mod 16) > MZ_UBER_COMPRESSION then None else Some (nat level))"

text \<open>The result says whether the pointer that is returned is different from null.\<close>

definition zip_open :: "zenv \<Rightarrow> path option \<Rightarrow> int \<Rightarrow> char \<Rightarrow> (('c, 'z) zip_t_scheme, bool) comp" where
  "zip_open E zipname level mode = (case (zipname, check_level level) of
     (Some name, Some level) \<Rightarrow>
       if name = [] then ret False
       else bnd (alloc E) (\<lambda>ok.
         if \<not> ok then ret False
         else seq (new_handle level)
         (bnd (if mode = CHR ''w'' then mz_zip_writer_init_file E name 0
               else if mode = CHR ''r'' \<or> mode = CHR ''a'' \<or> mode = CHR ''d''
               then bnd (mz_zip_reader_init_file E name (level OR MZ_ZIP_FLAG_DO_NOT_SORT_CENTRAL_DIRECTORY)) (\<lambda>ok.
                 if \<not> ok then ret False
                 else if mode = CHR ''a'' \<or> mode = CHR ''d''
                 then bnd (mz_zip_writer_init_from_reader E (Some name)) (\<lambda>ok.
                   if ok then ret True else seq (mz_zip_reader_end E) (ret False))
                 else ret True)
               else ret False) (\<lambda>ok.
            if ok then ret True else seq free_handle (ret False))))
   | _ \<Rightarrow> ret False)"

definition zip_close :: "zenv \<Rightarrow> bool \<Rightarrow> (('c, 'z) zip_t_scheme, unit) comp" where
  "zip_close E h = on_handle h ()
     (bnd (mz_zip_writer_finalize_archive E) (\<lambda>_.
      bnd (zip_archive_truncate E) (\<lambda>_.
      bnd (mz_zip_writer_end E) (\<lambda>_.
      bnd (mz_zip_reader_end E) (\<lambda>_. free_handle)))))"

definition zip_is64 :: "bool \<Rightarrow> (('c, 'z) zip_t_scheme, int) comp" where
  "zip_is64 h = on_handle h ZIP_ENOINIT (bnd (gets arch) (\<lambda>z. case m_pState z of
     None \<Rightarrow> ret ZIP_ENOINIT | Some st \<Rightarrow> ret (if m_zip64 st then 1 else 0)))"

section \<open>Opening an entry\<close>

text \<open>\<open>cleanup:\<close> of \<open>zip_entry_open\<close>.\<close>

definition drop_name :: "int \<Rightarrow> (('c, 'z) zip_t_scheme, int) comp" where
  "drop_name err = seq (upd_entry (\<lambda>e. e\<lparr>name_of_entry := None\<rparr>)) (ret err)"

definition take_stat :: "int \<Rightarrow> mz_zip_archive_file_stat \<Rightarrow> 'c zip_entry_t \<Rightarrow> 'c zip_entry_t" where
  "take_stat index stats e = e\<lparr>entry_index := index, entry_comp_size := m_comp_size stats,
     entry_uncomp_size := m_uncomp_size stats, entry_crc32 := of_nat (m_crc32 stats),
     entry_offset := m_central_dir_ofs stats, entry_header_offset := m_local_header_ofs stats,
     entry_method := m_method stats, entry_external_attr := m_external_attr stats, entry_time := m_time stats\<rparr>"

definition open_for_reading :: "zenv \<Rightarrow> byte list \<Rightarrow> (('c, 'z) zip_t_scheme, int) comp" where
  "open_for_reading E name = bnd (mz_zip_reader_locate_file name None 0) (\<lambda>index.
     seq (upd_entry (\<lambda>e. e\<lparr>entry_index := index\<rparr>))
     (if index < 0 then drop_name ZIP_ENOENT
      else bnd (mz_zip_reader_file_stat E (nat index)) (\<lambda>r. case r of
          None \<Rightarrow> drop_name ZIP_ENOENT
        | Some stats \<Rightarrow> seq (upd_entry (take_stat index stats)) (ret 0))))"

definition open_for_writing :: "zenv \<Rightarrow> 'c tdefl \<Rightarrow> byte list \<Rightarrow> (('c, 'z) zip_t_scheme, int) comp" where
  "open_for_writing E T name = bnd (gets arch) (\<lambda>z. bnd (gets zip_level) (\<lambda>lvl.
     let num_alignment_padding_bytes = mz_zip_writer_compute_padding_needed_for_file_alignment z;
         level = lvl mod 16
     in
     seq (upd_entry (\<lambda>e. e\<lparr>entry_index := s32 (int (m_total_files z)), entry_comp_size := 0, entry_uncomp_size := 0,
            entry_crc32 := 0, entry_offset := m_archive_size z, entry_header_offset := m_archive_size z,
            entry_header := replicate MZ_ZIP_LOCAL_DIR_HEADER_SIZE 0, entry_method := 0,
            entry_external_attr := 33188 * 2 ^ 16\<rparr>))
     (if m_pState z = None \<or> m_zip_mode z \<noteq> MZ_ZIP_MODE_WRITING then drop_name ZIP_EINVMODE
      else if flag_set lvl MZ_ZIP_FLAG_COMPRESSED_DATA then drop_name ZIP_EINVLVL
      else if no_room z (length name) then drop_name ZIP_ENOSUP64
      else bnd (mz_zip_writer_write_zeros E (m_archive_size z) (num_alignment_padding_bytes + MZ_ZIP_LOCAL_DIR_HEADER_SIZE))
        (\<lambda>ok.
        if \<not> ok then drop_name ZIP_EMEMSET
        else
          let header_offset = u64 (m_archive_size z + num_alignment_padding_bytes);
              offset = u64 (m_archive_size z + num_alignment_padding_bytes + MZ_ZIP_LOCAL_DIR_HEADER_SIZE)
          in
          seq (upd_entry (\<lambda>e. e\<lparr>entry_header_offset := header_offset\<rparr>))
          (seq (assert_aligned header_offset)
          (seq (upd_entry (\<lambda>e. e\<lparr>entry_offset := offset\<rparr>))
          (bnd (pWrite E offset name) (\<lambda>k.
          if k \<noteq> length name then drop_name ZIP_EWRTENT
          else
            let offset = u64 (offset + length name) in
            seq (upd_entry (\<lambda>e. e\<lparr>entry_offset := offset\<rparr>))
            (bnd (if level = 0 then ret True
                  else (let (st, c) = c_init T level in
                    seq (upd_entry (\<lambda>e. e\<lparr>entry_state := \<lparr>m_cur_archive_file_ofs = offset, m_put_size = 0\<rparr>,
                           entry_comp := Some c\<rparr>))
                      (ret (st = TDEFL_STATUS_OKAY)))) (\<lambda>ok.
             if \<not> ok then drop_name ZIP_ETDEFLINIT
             else bnd (lib_time E) (\<lambda>t. seq (upd_entry (\<lambda>e. e\<lparr>entry_time := t\<rparr>)) (ret 0))))))))))))"

definition zip_entry_open :: "zenv \<Rightarrow> 'c tdefl \<Rightarrow> bool \<Rightarrow> byte list option \<Rightarrow> (('c, 'z) zip_t_scheme, int) comp" where
  "zip_entry_open E T h entryname = on_handle h ZIP_ENOINIT (case entryname of
     None \<Rightarrow> ret ZIP_EINVENTNAME
   | Some n \<Rightarrow>
       if n = [] then ret ZIP_EINVENTNAME
       else bnd (zip_strrpl E n (length n) 92 47) (\<lambda>name.
         seq (upd_entry (\<lambda>e. e\<lparr>name_of_entry := name\<rparr>))
         (case name of None \<Rightarrow> ret ZIP_EINVENTNAME
          | Some name \<Rightarrow> bnd (gets arch) (\<lambda>z.
              if m_zip_mode z = MZ_ZIP_MODE_READING then open_for_reading E name else open_for_writing E T name))))"

definition zip_entry_openbyindex :: "zenv \<Rightarrow> bool \<Rightarrow> int \<Rightarrow> (('c, 'z) zip_t_scheme, int) comp" where
  "zip_entry_openbyindex E h index = on_handle h ZIP_ENOINIT (bnd (gets arch) (\<lambda>z.
     if m_zip_mode z \<noteq> MZ_ZIP_MODE_READING then ret ZIP_EINVMODE
     else if index < 0 \<or> nat index \<ge> m_total_files z then ret ZIP_EINVIDX
     else bnd get_state (\<lambda>st. bnd (elem (m_p (m_central_dir_offsets st)) (nat index)) (\<lambda>pHeader.
       let cd = m_p (m_central_dir st) in
       bnd (load 2 cd (pHeader + MZ_ZIP_CDH_FILENAME_LEN_OFS)) (\<lambda>namelen.
       bnd (peek namelen cd (pHeader + MZ_ZIP_CENTRAL_DIR_HEADER_SIZE)) (\<lambda>filename.
       bnd (zip_strrpl E filename namelen 92 47) (\<lambda>name.
       seq (upd_entry (\<lambda>e. e\<lparr>name_of_entry := name\<rparr>))
       (if name = None then ret ZIP_EINVENTNAME
        else bnd (mz_zip_reader_file_stat E (nat index)) (\<lambda>r. case r of
            None \<Rightarrow> ret ZIP_ENOENT
          | Some stats \<Rightarrow> seq (upd_entry (take_stat index stats)) (ret 0))))))))))"

section \<open>Writing an entry\<close>

text \<open>A call of the compressor of the entry, whose callback writes at \<open>entry.state\<close>.\<close>

definition compress_entry ::
    "zenv \<Rightarrow> 'c tdefl \<Rightarrow> byte list \<Rightarrow> tdefl_flush \<Rightarrow> (('c, 'z) zip_t_scheme, tdefl_status) comp" where
  "compress_entry E T bs flush = bnd (gets entry) (\<lambda>e. case entry_comp e of
     None \<Rightarrow> ret TDEFL_STATUS_BAD_PARAM
   | Some c \<Rightarrow> bnd (compress_to_archive E T c (entry_state e) bs flush) (\<lambda>(status, c, a).
       seq (upd_entry (\<lambda>e. e\<lparr>entry_comp := Some c, entry_state := a\<rparr>)) (ret status)))"

definition zip_entry_write ::
    "zenv \<Rightarrow> 'c tdefl \<Rightarrow> bool \<Rightarrow> byte list option \<Rightarrow> nat \<Rightarrow> (('c, 'z) zip_t_scheme, int) comp" where
  "zip_entry_write E T h buf bufsize = on_handle h ZIP_ENOINIT (case buf of
     None \<Rightarrow> ret 0
   | Some b \<Rightarrow>
       if bufsize = 0 then ret 0
       else bnd (peek bufsize b 0) (\<lambda>bs.
         seq (upd_entry (\<lambda>e. e\<lparr>entry_uncomp_size := u64 (entry_uncomp_size e + bufsize),
                entry_crc32 := mz_crc32 (entry_crc32 e) (Some bs)\<rparr>))
         (bnd (gets zip_level) (\<lambda>lvl.
          if lvl mod 16 = 0
          then bnd (gets (\<lambda>s. entry_offset (entry s))) (\<lambda>offset. bnd (pWrite E offset bs) (\<lambda>k.
            if k \<noteq> bufsize then ret ZIP_EWRTENT
            else seq (upd_entry (\<lambda>e. e\<lparr>entry_offset := u64 (entry_offset e + bufsize),
                   entry_comp_size := u64 (entry_comp_size e + bufsize)\<rparr>)) (ret 0)))
          else bnd (compress_entry E T bs TDEFL_NO_FLUSH) (\<lambda>status.
            ret (if status \<noteq> TDEFL_STATUS_DONE \<and> status \<noteq> TDEFL_STATUS_OKAY then ZIP_ETDEFLBUF else 0))))))"

text \<open>The loop of \<open>zip_entry_fwrite\<close>; the first argument bounds the number of rounds.\<close>

fun fwrite_loop ::
    "nat \<Rightarrow> zenv \<Rightarrow> 'c tdefl \<Rightarrow> bool \<Rightarrow> stream \<Rightarrow> (('c, 'z) zip_t_scheme, int \<times> stream) comp" where
  "fwrite_loop 0 E T h f = fail Diverges"
| "fwrite_loop (Suc fuel) E T h f = bnd (fread E f MZ_ZIP_MAX_IO_BUF_SIZE) (\<lambda>(bs, f).
     if bs = [] then ret (0, f)
     else bnd (zip_entry_write E T h (Some bs) (length bs)) (\<lambda>n.
       if n < 0 then ret (ZIP_EWRTENT, f) else fwrite_loop fuel E T h f))"

definition zip_entry_fwrite ::
    "nat \<Rightarrow> zenv \<Rightarrow> 'c tdefl \<Rightarrow> bool \<Rightarrow> path \<Rightarrow> (('c, 'z) zip_t_scheme, int) comp" where
  "zip_entry_fwrite fuel E T h filename = on_handle h ZIP_ENOINIT (case file_stat E filename of
     None \<Rightarrow> ret ZIP_ENOENT
   | Some (st_mode, st_mtime) \<Rightarrow>
       seq (upd_entry (\<lambda>e. e\<lparr>entry_external_attr :=
              (entry_external_attr e OR (if flag_set st_mode 128 then 0 else 1)) OR (st_mode mod 2 ^ 16 * 2 ^ 16),
              entry_time := st_mtime\<rparr>))
       (bnd (fopen_rb E filename) (\<lambda>r. case r of
           None \<Rightarrow> ret ZIP_EOPNFILE
         | Some f \<Rightarrow> bnd (fwrite_loop fuel E T h f) (\<lambda>(err, f). seq (fclose E f) (ret err)))))"

text \<open>\<open>cleanup:\<close> of \<open>zip_entry_close\<close>.\<close>

definition end_entry :: "int \<Rightarrow> (('c, 'z) zip_t_scheme, int) comp" where
  "end_entry err = seq (upd_entry (\<lambda>e. e\<lparr>entry_time := 0, name_of_entry := None\<rparr>)) (ret err)"

text \<open>The compressor is flushed; false when it cannot be.\<close>

definition flush_entry :: "zenv \<Rightarrow> 'c tdefl \<Rightarrow> (('c, 'z) zip_t_scheme, bool) comp" where
  "flush_entry E T = bnd (gets zip_level) (\<lambda>lvl.
     if lvl mod 16 = 0 then ret True
     else bnd (compress_entry E T [] TDEFL_FINISH) (\<lambda>status.
       if status \<noteq> TDEFL_STATUS_DONE \<and> status \<noteq> TDEFL_STATUS_OKAY then ret False
       else seq (upd_entry (\<lambda>e. e\<lparr>entry_comp_size := m_put_size (entry_state e),
              entry_offset := m_cur_archive_file_ofs (entry_state e), entry_method := MZ_DEFLATED\<rparr>)) (ret True)))"

definition zip_entry_close :: "zenv \<Rightarrow> 'c tdefl \<Rightarrow> bool \<Rightarrow> (('c, 'z) zip_t_scheme, int) comp" where
  "zip_entry_close E T h = on_handle h ZIP_ENOINIT (bnd (gets arch) (\<lambda>z.
     if m_zip_mode z = MZ_ZIP_MODE_READING then end_entry 0
     else bnd (flush_entry E T) (\<lambda>ok.
       if \<not> ok then end_entry ZIP_ETDEFLBUF
       else bnd (gets entry) (\<lambda>e. case name_of_entry e of
           None \<Rightarrow> fail Null_deref
         | Some name \<Rightarrow>
             let entrylen = u16 (length name) in
             if entry_comp_size e > 0xFFFFFFFF \<or> entry_offset e > 0xFFFFFFFF then end_entry ZIP_ENOSUP64
             else
               let (dos_time, dos_date) = mz_zip_time_t_to_dos_time E (entry_time e);
                   crc = unat (entry_crc32 e);
                   header = mz_zip_writer_create_local_dir_header entrylen 0 (entry_uncomp_size e) (entry_comp_size e) crc
                     (entry_method e) 0 dos_time dos_date
               in
               seq (upd_entry (\<lambda>e. e\<lparr>entry_header := header\<rparr>))
               (bnd (pWrite E (entry_header_offset e) header) (\<lambda>k.
                if k \<noteq> length header then end_entry ZIP_EWRTHDR
                else bnd (mz_zip_writer_add_to_central_dir E name entrylen None 0 (Some []) 0 (entry_uncomp_size e)
                       (entry_comp_size e) crc (entry_method e) 0 dos_time dos_date (entry_header_offset e)
                       (entry_external_attr e)) (\<lambda>ok.
                  if \<not> ok then end_entry ZIP_EWRTDIR
                  else seq (upd_arch (\<lambda>a. a\<lparr>m_total_files := u32 (m_total_files a + 1), m_archive_size := entry_offset e\<rparr>))
                    (end_entry 0))))))))"

end
