(* ===== verification/Zip_Extract.thy ===== *)
theory Zip_Extract
  imports Zip_Entry
begin

text \<open>
  The rest of \<open>server/src/zip.c\<close>: queries on the open entry, reading its data, deleting entries by name, archives in
  memory, making an archive of files, and extracting a whole archive into a directory.
\<close>

section \<open>Queries\<close>

definition zip_entry_name :: "bool \<Rightarrow> (('c, 'z) zip_t_scheme, byte list option) comp" where
  "zip_entry_name h = on_handle h None (gets (\<lambda>s. name_of_entry (entry s)))"

definition zip_entry_index :: "bool \<Rightarrow> (('c, 'z) zip_t_scheme, int) comp" where
  "zip_entry_index h = on_handle h ZIP_ENOINIT (gets (\<lambda>s. entry_index (entry s)))"

definition zip_entry_isdir :: "bool \<Rightarrow> (('c, 'z) zip_t_scheme, int) comp" where
  "zip_entry_isdir h = on_handle h ZIP_ENOINIT (bnd (gets (\<lambda>s. entry_index (entry s))) (\<lambda>i.
     if i < 0 then ret ZIP_EINVIDX
     else bnd (mz_zip_reader_is_file_a_directory (nat i)) (\<lambda>d. ret (if d then 1 else 0))))"

definition zip_entry_size :: "bool \<Rightarrow> (('c, 'z) zip_t_scheme, nat) comp" where
  "zip_entry_size h = on_handle h 0 (gets (\<lambda>s. entry_uncomp_size (entry s)))"

definition zip_entry_crc32 :: "bool \<Rightarrow> (('c, 'z) zip_t_scheme, nat) comp" where
  "zip_entry_crc32 h = on_handle h 0 (gets (\<lambda>s. unat (entry_crc32 (entry s))))"

definition zip_entries_total :: "bool \<Rightarrow> (('c, 'z) zip_t_scheme, int) comp" where
  "zip_entries_total h = on_handle h ZIP_ENOINIT (gets (\<lambda>s. s32 (int (m_total_files (arch s)))))"

section \<open>Reading an entry\<close>

text \<open>The index of the open entry, or \<open>None\<close> where the functions answer \<open>ZIP_ENOENT\<close>.\<close>

definition readable_entry :: "(('c, 'z) zip_t_scheme, nat option) comp" where
  "readable_entry = bnd (gets arch) (\<lambda>z. bnd (gets (\<lambda>s. entry_index (entry s))) (\<lambda>i.
     ret (if m_zip_mode z \<noteq> MZ_ZIP_MODE_READING \<or> i < 0 then None else Some (nat i))))"

text \<open>The result and the block stored in \<open>*buf\<close>; \<open>*bufsize\<close> is its length when it is not null.\<close>

definition zip_entry_read ::
    "nat \<Rightarrow> zenv \<Rightarrow> 'd tinfl \<Rightarrow> bool \<Rightarrow> (('c, 'z) zip_t_scheme, int \<times> byte list option) comp" where
  "zip_entry_read fuel E I h = on_handle h (ZIP_ENOINIT, None) (bnd readable_entry (\<lambda>r. case r of
     None \<Rightarrow> ret (ZIP_ENOENT, None)
   | Some idx \<Rightarrow> bnd (mz_zip_reader_is_file_a_directory idx) (\<lambda>dir.
       if dir then ret (ZIP_EINVENTTYPE, None)
       else bnd (mz_zip_reader_extract_to_heap fuel E I idx 0) (\<lambda>buf.
         ret (case buf of None \<Rightarrow> 0 | Some bs \<Rightarrow> int (length bs), buf)))))"

text \<open>The result and the buffer of the caller as it is left.\<close>

definition zip_entry_noallocread ::
    "nat \<Rightarrow> zenv \<Rightarrow> 'd tinfl \<Rightarrow> bool \<Rightarrow> byte list option \<Rightarrow> nat \<Rightarrow> (('c, 'z) zip_t_scheme, int \<times> byte list) comp" where
  "zip_entry_noallocread fuel E I h buf bufsize =
     (let b = (case buf of None \<Rightarrow> [] | Some b \<Rightarrow> b) in
      on_handle h (ZIP_ENOINIT, b) (bnd readable_entry (\<lambda>r. case r of
        None \<Rightarrow> ret (ZIP_ENOENT, b)
      | Some idx \<Rightarrow> bnd (mz_zip_reader_extract_to_mem_no_alloc fuel E I idx buf bufsize 0 None) (\<lambda>(ok, b).
          if \<not> ok then ret (ZIP_EMEMNOALLOC, b)
          else bnd (gets (\<lambda>s. entry_uncomp_size (entry s))) (\<lambda>n. ret (s64 n, b))))))"

definition zip_entry_fread ::
    "nat \<Rightarrow> zenv \<Rightarrow> 'd tinfl \<Rightarrow> bool \<Rightarrow> path \<Rightarrow> (('c, 'z) zip_t_scheme, int) comp" where
  "zip_entry_fread fuel E I h filename = on_handle h ZIP_ENOINIT (bnd readable_entry (\<lambda>r. case r of
     None \<Rightarrow> ret ZIP_ENOENT
   | Some idx \<Rightarrow> bnd (mz_zip_reader_is_file_a_directory idx) (\<lambda>dir.
       if dir then ret ZIP_EINVENTTYPE
       else bnd (mz_zip_reader_extract_to_file fuel E I idx filename 0) (\<lambda>ok.
       if \<not> ok then ret ZIP_ENOFILE
       else bnd (mz_zip_reader_file_stat E idx) (\<lambda>r. case r of
           None \<Rightarrow> ret ZIP_ENOFILE
         | Some info \<Rightarrow>
             let xattr = m_external_attr info div 2 ^ 16 mod 2 ^ 16 in
             if xattr = 0 then ret 0
             else bnd (fs_call E (Chmod filename xattr)) (\<lambda>ok. ret (if ok then 0 else ZIP_ENOPERM)))))))"

definition zip_entry_extract ::
    "nat \<Rightarrow> zenv \<Rightarrow> 'd tinfl \<Rightarrow> bool \<Rightarrow> (('c, 'z) zip_t_scheme, 'o) write_callback \<Rightarrow> 'o \<Rightarrow>
     (('c, 'z) zip_t_scheme, int \<times> 'o) comp" where
  "zip_entry_extract fuel E I h on_extract arg = on_handle h (ZIP_ENOINIT, arg) (bnd readable_entry (\<lambda>r. case r of
     None \<Rightarrow> ret (ZIP_ENOENT, arg)
   | Some idx \<Rightarrow> bnd (mz_zip_reader_extract_to_callback fuel E I idx on_extract arg 0) (\<lambda>(ok, arg).
       ret (if ok then 0 else ZIP_EINVIDX, arg))))"

section \<open>Deleting entries by name\<close>

text \<open>The inner loop of \<open>zip_entry_mark\<close>.\<close>

fun matches_one :: "zenv \<Rightarrow> byte list \<Rightarrow> byte list list \<Rightarrow> ('z world_scheme, bool) comp" where
  "matches_one E name [] = ret False"
| "matches_one E name (x # xs) = bnd (zip_name_match E name x) (\<lambda>eq. if eq then ret True else matches_one E name xs)"

text \<open>
  The first loop: an error or the marks of the \<open>k\<close> entries from \<open>i\<close> on, with the smallest offset of an entry to delete.
  The name of the entry is that of the entry opened before it if the comparison has no name.
\<close>

fun name_marks ::
    "zenv \<Rightarrow> 'c tdefl \<Rightarrow> byte list list \<Rightarrow> nat \<Rightarrow> nat \<Rightarrow> nat \<Rightarrow> (('c, 'z) zip_t_scheme, int + (zip_entry_mark_t list \<times> nat)) comp"
  where
  "name_marks E T entries d_pos i 0 = ret (Inr ([], d_pos))"
| "name_marks E T entries d_pos i (Suc k) = bnd (zip_entry_openbyindex E True (int i)) (\<lambda>err.
     if err \<noteq> 0 then ret (Inl err)
     else bnd (gets (\<lambda>s. name_of_entry (entry s))) (\<lambda>name. case name of None \<Rightarrow> fail Null_deref
     | Some name \<Rightarrow> bnd (matches_one E name entries) (\<lambda>name_matches.
       bnd (mz_zip_reader_file_stat E i) (\<lambda>r. case r of None \<Rightarrow> ret (Inl ZIP_ENOENT)
       | Some info \<Rightarrow> bnd (zip_entry_close E T True) (\<lambda>_.
           let ofs = m_local_header_ofs info;
               m = \<lparr>file_index = - 1, mark_type = if name_matches then MZ_DELETE else MZ_KEEP,
                 local_header_ofs = ofs, lf_length = 0\<rparr>
           in
           bnd (name_marks E T entries (if name_matches \<and> d_pos > ofs then ofs else d_pos) (i + 1) k) (\<lambda>r.
             ret (map_sum id (\<lambda>(ms, d). (m # ms, d)) r)))))))"

text \<open>The second loop.\<close>

definition move_marks :: "nat \<Rightarrow> zip_entry_mark_t list \<Rightarrow> zip_entry_mark_t list" where
  "move_marks d_pos = map (\<lambda>m. if local_header_ofs m > d_pos \<and> mark_type m \<noteq> MZ_DELETE then m\<lparr>mark_type := MZ_MOVE\<rparr> else m)"

definition zip_entry_mark ::
    "zenv \<Rightarrow> 'c tdefl \<Rightarrow> byte list list \<Rightarrow> nat \<Rightarrow> (('c, 'z) zip_t_scheme, int + zip_entry_mark_t list) comp" where
  "zip_entry_mark E T entries n = bnd (name_marks E T entries (2 ^ 64 - 1) 0 n) (\<lambda>r.
     ret (map_sum id (\<lambda>(ms, d_pos). move_marks d_pos ms) r))"

definition zip_entry_set ::
    "zenv \<Rightarrow> 'c tdefl \<Rightarrow> byte list list \<Rightarrow> nat \<Rightarrow> (('c, 'z) zip_t_scheme, int + zip_entry_mark_t list) comp" where
  "zip_entry_set E T entries n = bnd (zip_entry_mark E T entries n) (\<lambda>r. case r of
     Inl err \<Rightarrow> ret (Inl err)
   | Inr ms \<Rightarrow> bnd (zip_entry_finalize E ms n) (\<lambda>(err, ms). ret (if err < 0 then Inl err else Inr ms)))"

text \<open>\<open>slack\<close> as in \<open>zip_entries_delete_mark\<close>. An error of \<open>zip_entry_mark\<close> is never positive.\<close>

definition zip_entries_delete ::
    "zenv \<Rightarrow> 'c tdefl \<Rightarrow> bool list \<Rightarrow> bool \<Rightarrow> byte list list option \<Rightarrow> nat \<Rightarrow> (('c, 'z) zip_t_scheme, int) comp" where
  "zip_entries_delete E T slack h entries len =
     (if \<not> h \<or> entries = None \<and> len \<noteq> 0 then ret ZIP_ENOINIT
      else case entries of None \<Rightarrow> ret 0
      | Some names \<Rightarrow> bnd (zip_entries_total h) (\<lambda>n.
          bnd (alloc E) (\<lambda>ok.
          if \<not> ok then ret ZIP_EOOMEM
          else seq (upd_arch (\<lambda>a. a\<lparr>m_zip_mode := MZ_ZIP_MODE_READING\<rparr>))
            (bnd (zip_entry_set E T (take len names) (nat n)) (\<lambda>r. case r of
                Inl err \<Rightarrow> ret err
              | Inr ms \<Rightarrow> zip_entries_delete_mark E slack ms (nat n))))))"

section \<open>Archives in memory\<close>

definition zip_stream_open :: "zenv \<Rightarrow> byte list option \<Rightarrow> nat \<Rightarrow> int \<Rightarrow> char \<Rightarrow> (('c, 'z) zip_t_scheme, bool) comp" where
  "zip_stream_open E stream sz level mode = bnd (alloc E) (\<lambda>ok.
     if \<not> ok then ret False
     else case check_level level of
       None \<Rightarrow> seq (new_handle 0) (seq free_handle (ret False))
     | Some level \<Rightarrow> seq (new_handle level)
         (bnd (if stream \<noteq> None \<and> sz > 0 \<and> mode = CHR ''r'' then mz_zip_reader_init_mem E stream sz 0
               else if stream = None \<and> sz = 0 \<and> mode = CHR ''w'' then mz_zip_writer_init_heap E 0 1024
               else ret False) (\<lambda>ok.
            if ok then ret True else seq free_handle (ret False))))"

text \<open>The result, with the block stored in \<open>*buf\<close>; a failed allocation is not noticed.\<close>

definition zip_stream_copy :: "zenv \<Rightarrow> bool \<Rightarrow> (('c, 'z) zip_t_scheme, int \<times> byte list) comp" where
  "zip_stream_copy E h = on_handle h (ZIP_ENOINIT, []) (seq (zip_archive_finalize E)
     (bnd (gets (\<lambda>s. m_archive_size (arch s))) (\<lambda>n. bnd (alloc E) (\<lambda>ok. bnd get_state (\<lambda>st.
        if n = 0 then ret (0, [])
        else if \<not> ok then fail Null_deref
        else case m_pMem st of None \<Rightarrow> fail Null_deref | Some mem \<Rightarrow> bnd (peek n mem 0) (\<lambda>bs. ret (s64 n, bs)))))))"

definition zip_stream_close :: "zenv \<Rightarrow> bool \<Rightarrow> (('c, 'z) zip_t_scheme, unit) comp" where
  "zip_stream_close E h = on_handle h () (bnd (mz_zip_writer_end E) (\<lambda>_. bnd (mz_zip_reader_end E) (\<lambda>_. free_handle)))"

section \<open>An archive of files\<close>

text \<open>The loop of \<open>zip_create\<close>; the attributes are not reset between the files.\<close>

fun create_loop ::
    "nat \<Rightarrow> zenv \<Rightarrow> 'c tdefl \<Rightarrow> nat \<Rightarrow> path option list \<Rightarrow> ('z zst_scheme, int) comp" where
  "create_loop fuel E T ext_attributes [] = ret 0"
| "create_loop fuel E T ext_attributes (f # fs) = (case f of None \<Rightarrow> ret ZIP_EINVENTNAME
     | Some name \<Rightarrow> (case file_stat E name of None \<Rightarrow> ret ZIP_ENOFILE
       | Some (st_mode, _) \<Rightarrow>
           let ext_attributes = (ext_attributes OR (if flag_set st_mode 128 then 0 else 1)) OR (st_mode mod 2 ^ 16 * 2 ^ 16) in
           bnd (mz_zip_writer_add_file fuel E T (Some (zip_basename name)) name (Some []) 0
                  (nat ZIP_DEFAULT_COMPRESSION_LEVEL) ext_attributes) (\<lambda>ok.
             if \<not> ok then ret ZIP_ENOFILE else create_loop fuel E T ext_attributes fs)))"

definition zip_create ::
    "nat \<Rightarrow> zenv \<Rightarrow> 'c tdefl \<Rightarrow> path option \<Rightarrow> path option list \<Rightarrow> ('z zst_scheme, int) comp" where
  "zip_create fuel E T zipname filenames = (case zipname of None \<Rightarrow> ret ZIP_EINVZIPNAME
   | Some name \<Rightarrow>
       if name = [] then ret ZIP_EINVZIPNAME
       else seq (upd_arch (\<lambda>_. clear_archive)) (bnd (mz_zip_writer_init_file E name 0) (\<lambda>ok.
         if \<not> ok then ret ZIP_ENOINIT
         else bnd (create_loop fuel E T 0 filenames) (\<lambda>err.
           bnd (mz_zip_writer_finalize_archive E) (\<lambda>_. bnd (mz_zip_writer_end E) (\<lambda>_. ret err))))))"

section \<open>Extracting a whole archive\<close>

text \<open>
  The buffers \<open>path\<close>, \<open>symlink_to\<close> and \<open>info.m_filename\<close> live through the loop. Of \<open>path\<close> the first \<open>dirlen\<close> bytes
  are kept, the rest is filled by \<open>strncpy\<close>; the other two keep what was in them behind what is stored.
\<close>

record extract_bufs =
  dir_part :: "byte list"
  symlink_to :: "byte list"
  filename_buf :: "byte list"

definition c_string :: "byte list \<Rightarrow> byte list" where
  "c_string = takeWhile (\<lambda>c. c \<noteq> 0)"

text \<open>The symbolic link of an entry that has one; its target is the data of the entry.\<close>

definition extract_symlink ::
    "nat \<Rightarrow> zenv \<Rightarrow> 'd tinfl \<Rightarrow> nat \<Rightarrow> mz_zip_archive_file_stat \<Rightarrow> byte list \<Rightarrow> byte list \<Rightarrow>
     ('z zst_scheme, int \<times> byte list) comp" where
  "extract_symlink fuel E I i info path buf =
     (if m_uncomp_size info > MAX_PATH then ret (ZIP_EMEMNOALLOC, buf)
      else bnd (mz_zip_reader_extract_to_mem_no_alloc fuel E I i (Some buf) MAX_PATH 0 None) (\<lambda>(ok, buf).
        if \<not> ok then ret (ZIP_EMEMNOALLOC, buf)
        else bnd (put_elem buf (m_uncomp_size info) 0) (\<lambda>buf.
          bnd (fs_call E (Symlink (c_string buf) path)) (\<lambda>ok. ret (if ok then 0 else ZIP_ESYMLINK, buf)))))"

definition extract_plain ::
    "nat \<Rightarrow> zenv \<Rightarrow> 'd tinfl \<Rightarrow> nat \<Rightarrow> mz_zip_archive_file_stat \<Rightarrow> byte list \<Rightarrow> ('z zst_scheme, int) comp" where
  "extract_plain fuel E I i info path = bnd (mz_zip_reader_is_file_a_directory i) (\<lambda>dir.
     bnd (if dir then ret True else mz_zip_reader_extract_to_file fuel E I i path 0) (\<lambda>ok.
     if \<not> ok then ret ZIP_ENOFILE
     else
       let xattr = m_external_attr info div 2 ^ 16 mod 2 ^ 16 in
       if xattr = 0 then ret 0
       else bnd (fs_call E (Chmod path xattr)) (\<lambda>ok. ret (if ok then 0 else ZIP_ENOPERM))))"

text \<open>One round of the loop: the error, whether the loop goes on, and the buffers.\<close>

definition extract_round ::
    "nat \<Rightarrow> zenv \<Rightarrow> 'd tinfl \<Rightarrow> (byte list \<Rightarrow> ('z zst_scheme, int) comp) option \<Rightarrow> nat \<Rightarrow> extract_bufs \<Rightarrow>
     ('z zst_scheme, int \<times> bool \<times> extract_bufs) comp" where
  "extract_round fuel E I on_extract i b = bnd (mz_zip_reader_file_stat E i) (\<lambda>r. case r of
     None \<Rightarrow> ret (ZIP_ENOENT, False, b)
   | Some info \<Rightarrow>
       bnd (poke (filename_buf b) 0 (m_filename info)) (\<lambda>buf.
       bnd (zip_name_normalize buf (length (c_string buf))) (\<lambda>r. case r of
         None \<Rightarrow> ret (ZIP_EINVENTNAME, False, b\<lparr>filename_buf := buf\<rparr>)
       | Some buf \<Rightarrow>
           let dirlen = length (dir_part b);
               path = dir_part b @ take (MAX_PATH - dirlen) (c_string buf)
           in
           bnd (zip_mkpath E path) (\<lambda>(err, path).
           let b = b\<lparr>filename_buf := buf, dir_part := take dirlen path\<rparr> in
           if err < 0 then ret (err, False, b)
           else
             let made_by = m_version_made_by info div 256 in
             bnd (if (made_by = 3 \<or> made_by = 19) \<and> flag_set (m_external_attr info) (2 ^ 29)
                  then extract_symlink fuel E I i info path (symlink_to b)
                  else bnd (extract_plain fuel E I i info path) (\<lambda>err. ret (err, symlink_to b))) (\<lambda>(err, buf).
             let b = b\<lparr>symlink_to := buf\<rparr> in
             if err < 0 then ret (err, False, b)
             else (case on_extract of None \<Rightarrow> ret (0, True, b)
               | Some f \<Rightarrow> bnd (f path) (\<lambda>k. ret (0, \<not> k < 0, b))))))))"

fun extract_all ::
    "nat \<Rightarrow> zenv \<Rightarrow> 'd tinfl \<Rightarrow> (byte list \<Rightarrow> ('z zst_scheme, int) comp) option \<Rightarrow> nat \<Rightarrow> nat \<Rightarrow> extract_bufs \<Rightarrow>
     ('z zst_scheme, int) comp" where
  "extract_all fuel E I on_extract i 0 b = ret 0"
| "extract_all fuel E I on_extract i (Suc k) b = bnd (extract_round fuel E I on_extract i b) (\<lambda>(err, on, b).
     if on then extract_all fuel E I on_extract (i + 1) k b else ret err)"

text \<open>An empty directory name makes the function read the byte in front of \<open>path\<close>.\<close>

definition zip_archive_extract ::
    "nat \<Rightarrow> zenv \<Rightarrow> 'd tinfl \<Rightarrow> byte list \<Rightarrow> (byte list \<Rightarrow> ('z zst_scheme, int) comp) option \<Rightarrow> ('z zst_scheme, int) comp"
  where
  "zip_archive_extract fuel E I dir on_extract =
     (if length dir + 1 > MAX_PATH then ret ZIP_EINVENTNAME
      else if dir = [] then fail Out_of_bounds
      else
        let prefix = (if ISSLASH (last dir) then dir else dir @ [47]) in
        bnd mz_zip_reader_get_num_files (\<lambda>n.
        bnd (extract_all fuel E I on_extract 0 n \<lparr>dir_part = prefix, symlink_to = replicate (MAX_PATH + 1) 0,
               filename_buf = replicate MZ_ZIP_MAX_ARCHIVE_FILENAME_SIZE 0\<rparr>) (\<lambda>err.
        bnd (mz_zip_reader_end E) (\<lambda>ok. ret (if ok then err else ZIP_ECLSZIP)))))"

definition zip_stream_extract ::
    "nat \<Rightarrow> zenv \<Rightarrow> 'd tinfl \<Rightarrow> byte list option \<Rightarrow> nat \<Rightarrow> byte list option \<Rightarrow>
     (byte list \<Rightarrow> ('z zst_scheme, int) comp) option \<Rightarrow> ('z zst_scheme, int) comp" where
  "zip_stream_extract fuel E I stream sz dir on_extract = (case (stream, dir) of
     (Some bs, Some d) \<Rightarrow> seq (upd_arch (\<lambda>_. clear_archive)) (bnd (mz_zip_reader_init_mem E stream sz 0) (\<lambda>ok.
       if ok then zip_archive_extract fuel E I d on_extract else ret ZIP_ENOINIT))
   | _ \<Rightarrow> ret ZIP_ENOINIT)"

definition zip_extract ::
    "nat \<Rightarrow> zenv \<Rightarrow> 'd tinfl \<Rightarrow> path option \<Rightarrow> byte list option \<Rightarrow>
     (byte list \<Rightarrow> ('z zst_scheme, int) comp) option \<Rightarrow> ('z zst_scheme, int) comp" where
  "zip_extract fuel E I zipname dir on_extract = (case (zipname, dir) of
     (Some name, Some d) \<Rightarrow> seq (upd_arch (\<lambda>_. clear_archive)) (bnd (mz_zip_reader_init_file E name 0) (\<lambda>ok.
       if ok then zip_archive_extract fuel E I d on_extract else ret ZIP_ENOINIT))
   | _ \<Rightarrow> ret ZIP_EINVZIPNAME)"

end
