(* ===== verification/Miniz_Writer_Facts.thy ===== *)
theory Miniz_Writer_Facts
  imports Miniz_Writer
begin

text \<open>
  What the writer needs of the function behind \<open>m_pWrite\<close>, as a locale: a write at an offset inside the archive
  replaces the bytes there and may extend it. Both targets of the source, a growing block and a file, are
  interpretations. Inside the locale, the functions that add an entry and close the archive are reduced
  to what they leave in the archive.
\<close>

section \<open>Bytes of an archive\<close>

lemma write_at_0: "pos \<le> length old \<Longrightarrow> write_at pos new old = take pos old @ new @ drop (pos + length new) old"
  by (simp add: write_at_def pad_to_def)

lemma write_at_Nil [simp]: "pos \<le> length old \<Longrightarrow> write_at pos [] old = old"
  by (simp add: write_at_0)

lemma length_write_at: "pos \<le> length old \<Longrightarrow> length (write_at pos new old) = max (length old) (pos + length new)"
  by (simp add: write_at_0)

lemma write_at_append:
  assumes "pos \<le> length old"
  shows "write_at (pos + length xs) ys (write_at pos xs old) = write_at pos (xs @ ys) old"
proof -
  have len: "pos + length xs \<le> length (write_at pos xs old)" using assms by (simp add: length_write_at)
  have tk: "take (pos + length xs) (write_at pos xs old) = take pos old @ xs" using assms by (simp add: write_at_0)
  have dr: "drop (pos + length xs + length ys) (write_at pos xs old) = drop (pos + length (xs @ ys)) old"
    using assms by (simp add: write_at_0 ac_simps)
  have "write_at (pos + length xs) ys (write_at pos xs old) = (take pos old @ xs) @ ys @ drop (pos + length (xs @ ys)) old"
    by (simp only: write_at_0 [OF len] tk dr)
  also have "\<dots> = write_at pos (xs @ ys) old" using assms by (simp only: write_at_0 [OF assms] append_assoc)
  finally show ?thesis .
qed

text \<open>A header written over the first bytes of what was written at \<open>pos\<close>.\<close>

lemma write_at_over:
  assumes "pos \<le> length old" and "length ys = length xs"
  shows "write_at pos ys (write_at pos (xs @ zs) old) = write_at pos (ys @ zs) old"
  using assms by (simp add: write_at_0 length_write_at)

lemma write_at_inside:
  assumes "pos \<le> length old" and "length hdr = length h"
  shows "write_at (pos + length pre) hdr (write_at pos (pre @ h @ rest) old) = write_at pos (pre @ hdr @ rest) old"
proof -
  have p: "pos + length pre \<le> length (write_at pos pre old)" using assms by (simp add: length_write_at)
  have "write_at pos (pre @ h @ rest) old = write_at (pos + length pre) (h @ rest) (write_at pos pre old)"
    using assms by (simp add: write_at_append)
  then have "write_at (pos + length pre) hdr (write_at pos (pre @ h @ rest) old) =
      write_at (pos + length pre) (hdr @ rest) (write_at pos pre old)"
    using write_at_over [OF p assms(2)] by simp
  also have "\<dots> = write_at pos (pre @ hdr @ rest) old" using assms by (simp add: write_at_append)
  finally show ?thesis .
qed

definition given_bytes :: "byte list option \<Rightarrow> byte list" where
  "given_bytes p = (case p of None \<Rightarrow> [] | Some xs \<Rightarrow> xs)"

lemma length_put_fields [simp]:
  "(\<And>ofs n v. (ofs, n, v) \<in> set ws \<Longrightarrow> ofs + n \<le> length blk) \<Longrightarrow> length (put_fields ws blk) = length blk"
proof (induction ws arbitrary: blk)
  case (Cons w ws)
  obtain ofs n v where w: "w = (ofs, n, v)" by (cases w) auto
  have fit: "ofs + n \<le> length blk" using Cons.prems [of ofs n v] w by simp
  then have "length (put_fields ws (overwrite blk ofs (le n v))) = length (overwrite blk ofs (le n v))"
    using Cons.prems by (intro Cons.IH) auto
  with fit w show ?case by (simp add: put_fields_def)
qed (simp add: put_fields_def)

lemma length_local_header [simp]:
  "length (mz_zip_writer_create_local_dir_header fs es us cs crc m bf t d) = MZ_ZIP_LOCAL_DIR_HEADER_SIZE"
  unfolding mz_zip_writer_create_local_dir_header_def by (subst length_put_fields) auto

lemma length_central_header [simp]:
  "length (mz_zip_writer_create_central_dir_header fs es cz us cs crc m bf t d lo ea) = MZ_ZIP_CENTRAL_DIR_HEADER_SIZE"
  unfolding mz_zip_writer_create_central_dir_header_def Let_def by (subst length_put_fields) auto

lemma length_end_record [simp]: "length (end_record n sz ofs) = MZ_ZIP_END_OF_CENTRAL_DIR_HEADER_SIZE"
  unfolding end_record_def by (subst length_put_fields) auto

section \<open>Targets\<close>

text \<open>What the write functions look at, and what they leave alone.\<close>

definition io_view :: "'z zst_scheme \<Rightarrow> mz_file_write_func option \<times>
    (stream option \<times> byte list option \<times> nat \<times> nat) option \<times> (path \<Rightarrow> byte list option)" where
  "io_view s = (m_pWrite (arch s),
     map_option (\<lambda>st. (m_pFile st, m_pMem st, m_mem_size st, m_mem_capacity st)) (m_pState (arch s)), disk s)"

definition dir_view :: "'z zst_scheme \<Rightarrow> nat \<times> nat \<times> nat \<times> mz_zip_mode \<times> nat \<times>
    (byte mz_zip_array \<times> nat mz_zip_array) option" where
  "dir_view s = (m_archive_size (arch s), m_central_directory_file_ofs (arch s), m_total_files (arch s),
     m_zip_mode (arch s), m_file_offset_alignment (arch s),
     map_option (\<lambda>st. (m_central_dir st, m_central_dir_offsets st)) (m_pState (arch s)))"

text \<open>\<open>s\<close> and \<open>t\<close> differ only in the target and in counters: the directory and the client's own fields are the same.\<close>

definition same_client :: "'z zst_scheme \<Rightarrow> 'z zst_scheme \<Rightarrow> bool" where
  "same_client s t \<longleftrightarrow> dir_view t = dir_view s \<and> fs_events t = fs_events s \<and> zst.more t = zst.more s"

lemma same_client_refl [simp]: "same_client s s"
  by (simp add: same_client_def)

lemma same_client_trans: "same_client s t \<Longrightarrow> same_client t u \<Longrightarrow> same_client s u"
  by (simp add: same_client_def)

lemma state_id: "m_pState (arch s) = Some st \<Longrightarrow> s\<lparr>arch := (arch s)\<lparr>m_pState := Some st\<rparr>\<rparr> = s"
  by (metis (no_types, lifting) mz_zip_archive.surjective mz_zip_archive.update_convs(9) zst.surjective zst.update_convs(1))

text \<open>An archive of \<open>sz\<close> bytes and \<open>n\<close> entries that is being written, with its directory \<open>cd\<close> and the offsets in it.\<close>

definition writing :: "'z zst_scheme \<Rightarrow> nat \<Rightarrow> nat \<Rightarrow> byte list \<Rightarrow> nat list \<Rightarrow> bool" where
  "writing s sz n cd offs \<longleftrightarrow> m_zip_mode (arch s) = MZ_ZIP_MODE_WRITING \<and> m_file_offset_alignment (arch s) = 0 \<and>
     m_archive_size (arch s) = sz \<and> m_total_files (arch s) = n \<and>
     (\<exists>st. m_pState (arch s) = Some st \<and> array_ok (m_central_dir st) \<and> array_ok (m_central_dir_offsets st) \<and>
       contents (m_central_dir st) = cd \<and> contents (m_central_dir_offsets st) = offs)"

lemma same_client_writing:
  assumes "same_client s t"
  shows "writing t sz n cd offs \<longleftrightarrow> writing s sz n cd offs"
proof -
  have "map_option (\<lambda>st. (m_central_dir st, m_central_dir_offsets st)) (m_pState (arch t)) =
      map_option (\<lambda>st. (m_central_dir st, m_central_dir_offsets st)) (m_pState (arch s))"
    using assms by (simp add: same_client_def dir_view_def)
  then show ?thesis using assms
    by (cases "m_pState (arch s)"; cases "m_pState (arch t)") (simp_all add: same_client_def dir_view_def writing_def)
qed

lemma writingE:
  assumes "writing s sz n cd offs"
  obtains st where "m_pState (arch s) = Some st" "array_ok (m_central_dir st)" "array_ok (m_central_dir_offsets st)"
    "contents (m_central_dir st) = cd" "contents (m_central_dir_offsets st) = offs" "m_size (m_central_dir st) = length cd"
proof -
  from assms obtain st where st: "m_pState (arch s) = Some st" "array_ok (m_central_dir st)"
    "array_ok (m_central_dir_offsets st)" "contents (m_central_dir st) = cd" "contents (m_central_dir_offsets st) = offs"
    by (auto simp: writing_def)
  moreover have "m_size (m_central_dir st) = length cd"
    using st(2,4) by (auto simp: array_ok_def contents_def)
  ultimately show ?thesis by (rule that)
qed

definition outside :: "'z zst_scheme \<Rightarrow> fs_event list \<times> 'z" where
  "outside s = (fs_events s, zst.more s)"

lemma same_client_outside: "same_client s t \<Longrightarrow> outside t = outside s"
  by (simp add: same_client_def outside_def)

section \<open>The directory\<close>

text \<open>The push-backs to the central directory; only the two arrays and the counter of allocations change.\<close>

lemma wp_push_dir:
  assumes alloc: "\<And>n. alloc_ok E n" and "m_pState (arch s) = Some st" and "array_ok (m_central_dir st)" and "length (given_bytes p) = n"
    and Q: "\<And>a k. array_ok a \<Longrightarrow> contents a = contents (m_central_dir st) @ given_bytes p \<Longrightarrow>
      m_size a = m_size (m_central_dir st) + n \<Longrightarrow>
      Q True (s\<lparr>nalloc := k, arch := (arch s)\<lparr>m_pState := Some (st\<lparr>m_central_dir := a\<rparr>)\<rparr>\<rparr>)"
  shows "wp (on_central_dir (\<lambda>a. mz_zip_array_push_back E x a p n)) Q (s :: 'z zst_scheme)"
proof (cases p)
  case None
  then have "n = 0" using assms(4) by (simp add: given_bytes_def)
  have "Q True (s\<lparr>nalloc := nalloc s, arch := (arch s)\<lparr>m_pState := Some (st\<lparr>m_central_dir := m_central_dir st\<rparr>)\<rparr>\<rparr>)"
    using assms(3) None \<open>n = 0\<close> by (intro Q) (simp_all add: given_bytes_def)
  then show ?thesis using assms(2) \<open>n = 0\<close> by (simp add: on_central_dir_def mz_zip_array_push_back_def)
next
  case (Some xs)
  have "wp (mz_zip_array_push_back E x (m_central_dir st) (Some xs) n :: ('z zst_scheme, bool \<times> byte mz_zip_array) comp)
      (\<lambda>r t. case r of (ok, a) \<Rightarrow> Q ok (t\<lparr>arch := (arch t)\<lparr>m_pState := Some (st\<lparr>m_central_dir := a\<rparr>)\<rparr>\<rparr>)) s"
  proof (rule wp_push_back [OF assms(3)])
    fix b t
    assume "array_ok b" "contents b = contents (m_central_dir st) @ xs" "m_size b = m_size (m_central_dir st) + n"
      "t = s \<or> t = s\<lparr>nalloc := Suc (nalloc s)\<rparr> \<and> alloc_ok E (nalloc s)"
    with Q [of b "nalloc t"] Some assms(4) have "Q True (s\<lparr>nalloc := nalloc t, arch := (arch s)\<lparr>m_pState := Some (st\<lparr>m_central_dir := b\<rparr>)\<rparr>\<rparr>)"
      by (simp add: given_bytes_def)
    moreover have "s\<lparr>nalloc := nalloc t, arch := (arch s)\<lparr>m_pState := Some (st\<lparr>m_central_dir := b\<rparr>)\<rparr>\<rparr> =
        t\<lparr>arch := (arch t)\<lparr>m_pState := Some (st\<lparr>m_central_dir := b\<rparr>)\<rparr>\<rparr>"
      using \<open>t = s \<or> _\<close> by auto
    ultimately show "case (True, b) of (ok, a) \<Rightarrow> Q ok (t\<lparr>arch := (arch t)\<lparr>m_pState := Some (st\<lparr>m_central_dir := a\<rparr>)\<rparr>\<rparr>)" by simp
  qed (use assms(4) Some alloc in \<open>simp_all add: given_bytes_def\<close>)
  then show ?thesis using assms(2) Some
    by (simp add: on_central_dir_def)
qed

lemma wp_push_all:
  assumes alloc: "\<And>n. alloc_ok E n" and "m_pState (arch s) = Some st" and "array_ok (m_central_dir st)" and "\<And>p n. (p, n) \<in> set ps \<Longrightarrow> length (given_bytes p) = n"
    and Q: "\<And>a k. array_ok a \<Longrightarrow> contents a = contents (m_central_dir st) @ concat (map (given_bytes \<circ> fst) ps) \<Longrightarrow>
      m_size a = m_size (m_central_dir st) + sum_list (map snd ps) \<Longrightarrow>
      Q True (s\<lparr>nalloc := k, arch := (arch s)\<lparr>m_pState := Some (st\<lparr>m_central_dir := a\<rparr>)\<rparr>\<rparr>)"
  shows "wp (push_all E ps) Q (s :: 'z zst_scheme)"
  using assms(2-)
proof (induction ps arbitrary: s st)
  case Nil
  have "Q True (s\<lparr>nalloc := nalloc s, arch := (arch s)\<lparr>m_pState := Some (st\<lparr>m_central_dir := m_central_dir st\<rparr>)\<rparr>\<rparr>)"
    using Nil.prems(2) by (intro Nil.prems(4)) simp_all
  then show ?case using state_id [OF Nil.prems(1)] by simp
next
  case (Cons x ps)
  obtain p n where x: "x = (p, n)" by force
  show ?case
    unfolding x push_all.simps wp_bnd
  proof (rule wp_push_dir [OF alloc Cons.prems(1,2)])
    show "length (given_bytes p) = n" using Cons.prems(3) [of p n] x by simp
    fix a k
    assume a: "array_ok a" "contents a = contents (m_central_dir st) @ given_bytes p"
      "m_size a = m_size (m_central_dir st) + n"
    let ?t = "s\<lparr>nalloc := k, arch := (arch s)\<lparr>m_pState := Some (st\<lparr>m_central_dir := a\<rparr>)\<rparr>\<rparr>"
    have "wp (push_all E ps) Q ?t"
    proof (rule Cons.IH)
      show "m_pState (arch ?t) = Some (st\<lparr>m_central_dir := a\<rparr>)" by simp
      fix b j
      assume "array_ok b" "contents b = contents (m_central_dir (st\<lparr>m_central_dir := a\<rparr>)) @ concat (map (given_bytes \<circ> fst) ps)"
        "m_size b = m_size (m_central_dir (st\<lparr>m_central_dir := a\<rparr>)) + sum_list (map snd ps)"
      then have "Q True (s\<lparr>nalloc := j, arch := (arch s)\<lparr>m_pState := Some (st\<lparr>m_central_dir := b\<rparr>)\<rparr>\<rparr>)"
        using a x by (intro Cons.prems(4)) (simp_all add: comp_def)
      then show "Q True (?t\<lparr>nalloc := j, arch := (arch ?t)\<lparr>m_pState := Some (st\<lparr>m_central_dir := a, m_central_dir := b\<rparr>)\<rparr>\<rparr>)"
        by simp
    qed (use a Cons.prems(3) in auto)
    then show "wp (if True then push_all E ps else ret False) Q ?t" by simp
  qed
qed

lemma wp_push_offset:
  assumes alloc: "\<And>n. alloc_ok E n" and "m_pState (arch s) = Some st" and "array_ok (m_central_dir_offsets st)"
    and Q: "\<And>a k. array_ok a \<Longrightarrow> contents a = contents (m_central_dir_offsets st) @ [ofs] \<Longrightarrow>
      m_size a = m_size (m_central_dir_offsets st) + 1 \<Longrightarrow>
      Q True (s\<lparr>nalloc := k, arch := (arch s)\<lparr>m_pState := Some (st\<lparr>m_central_dir_offsets := a\<rparr>)\<rparr>\<rparr>)"
  shows "wp (on_offsets (\<lambda>a. mz_zip_array_push_back E x a (Some [ofs]) 1)) Q (s :: 'z zst_scheme)"
proof -
  have "wp (mz_zip_array_push_back E x (m_central_dir_offsets st) (Some [ofs]) 1 :: ('z zst_scheme, bool \<times> nat mz_zip_array) comp)
      (\<lambda>r t. case r of (ok, a) \<Rightarrow> Q ok (t\<lparr>arch := (arch t)\<lparr>m_pState := Some (st\<lparr>m_central_dir_offsets := a\<rparr>)\<rparr>\<rparr>)) s"
  proof (rule wp_push_back [OF assms(3)])
    fix b t
    assume "array_ok b" "contents b = contents (m_central_dir_offsets st) @ [ofs]" "m_size b = m_size (m_central_dir_offsets st) + 1"
      "t = s \<or> t = s\<lparr>nalloc := Suc (nalloc s)\<rparr> \<and> alloc_ok E (nalloc s)"
    with Q [of b "nalloc t"] have "Q True (s\<lparr>nalloc := nalloc t, arch := (arch s)\<lparr>m_pState := Some (st\<lparr>m_central_dir_offsets := b\<rparr>)\<rparr>\<rparr>)"
      by simp
    moreover have "s\<lparr>nalloc := nalloc t, arch := (arch s)\<lparr>m_pState := Some (st\<lparr>m_central_dir_offsets := b\<rparr>)\<rparr>\<rparr> =
        t\<lparr>arch := (arch t)\<lparr>m_pState := Some (st\<lparr>m_central_dir_offsets := b\<rparr>)\<rparr>\<rparr>"
      using \<open>t = s \<or> _\<close> by auto
    ultimately show "case (True, b) of (ok, a) \<Rightarrow> Q ok (t\<lparr>arch := (arch t)\<lparr>m_pState := Some (st\<lparr>m_central_dir_offsets := a\<rparr>)\<rparr>\<rparr>)"
      by simp
  qed (use alloc in simp_all)
  then show ?thesis using assms(2) by (simp add: on_offsets_def)
qed

text \<open>A record of the central directory.\<close>

lemma wp_add_to_central_dir:
  assumes alloc: "\<And>n. alloc_ok E n" and st: "m_pState (arch s) = Some st" and "array_ok (m_central_dir st)" and "array_ok (m_central_dir_offsets st)"
    and "local_header_ofs \<le> 0xFFFFFFFF" and "length comment = comment_size" and "length name \<le> 0xFFFF"
    and small: "m_size (m_central_dir st) + 46 + length name + comment_size \<le> 0xFFFFFFFF"
    and hdr: "hdr = mz_zip_writer_create_central_dir_header (length name) 0 comment_size uncomp_size comp_size crc method 0 dos_time
      dos_date local_header_ofs ext_attributes" and "length hdr = 46"
    and Q: "\<And>a b k. array_ok a \<Longrightarrow> array_ok b \<Longrightarrow> contents a = contents (m_central_dir st) @ hdr @ name @ comment \<Longrightarrow>
      m_size a = m_size (m_central_dir st) + 46 + length name + comment_size \<Longrightarrow>
      contents b = contents (m_central_dir_offsets st) @ [m_size (m_central_dir st)] \<Longrightarrow>
      Q True (s\<lparr>nalloc := k, arch := (arch s)\<lparr>m_pState := Some (st\<lparr>m_central_dir := a, m_central_dir_offsets := b\<rparr>)\<rparr>\<rparr>)"
  shows "wp (mz_zip_writer_add_to_central_dir E name (length name) None 0 (Some comment) comment_size uncomp_size comp_size crc
      method 0 dos_time dos_date local_header_ofs ext_attributes) Q (s :: 'z zst_scheme)"
proof -
  define fin where "fin = (\<lambda>ok. bnd (if ok then on_offsets (\<lambda>a. mz_zip_array_push_back E (stale E) a (Some [u32 (m_size (m_central_dir st))]) 1)
      else ret False) (\<lambda>ok. if ok then ret True
       else seq (on_central_dir (\<lambda>a. mz_zip_array_resize E (of_nat (stale E)) a (m_size (m_central_dir st)) False)) (ret False))
     :: ('z zst_scheme, bool) comp)"
  have sz: "u64 (m_size (m_central_dir st) + 46 + length name + 0 + comment_size) \<le> 0xFFFFFFFF"
    "u32 (m_size (m_central_dir st)) = m_size (m_central_dir st)" using small by simp_all
  have fin: "wp (fin True) Q t" if t: "t = s\<lparr>nalloc := k, arch := (arch s)\<lparr>m_pState := Some (st\<lparr>m_central_dir := a\<rparr>)\<rparr>\<rparr>"
    and a: "array_ok a" "contents a = contents (m_central_dir st) @ hdr @ name @ comment"
      "m_size a = m_size (m_central_dir st) + 46 + length name + comment_size" for a k t
    unfolding fin_def if_True wp_bnd
  proof (rule wp_push_offset [OF alloc])
    show "m_pState (arch t) = Some (st\<lparr>m_central_dir := a\<rparr>)" using t by simp
    show "array_ok (m_central_dir_offsets (st\<lparr>m_central_dir := a\<rparr>))" using assms(4) by simp
    fix b j
    assume "array_ok b" "contents b = contents (m_central_dir_offsets (st\<lparr>m_central_dir := a\<rparr>)) @ [u32 (m_size (m_central_dir st))]"
    then have "Q True (s\<lparr>nalloc := j, arch := (arch s)\<lparr>m_pState := Some (st\<lparr>m_central_dir := a, m_central_dir_offsets := b\<rparr>)\<rparr>\<rparr>)"
      using a sz(2) by (intro Q) simp_all
    then show "wp (if True then ret True else seq (on_central_dir (\<lambda>a. mz_zip_array_resize E (of_nat (stale E)) a (m_size (m_central_dir st))
        False)) (ret False)) Q (t\<lparr>nalloc := j, arch := (arch t)\<lparr>m_pState :=
          Some (st\<lparr>m_central_dir := a, m_central_dir_offsets := b\<rparr>)\<rparr>\<rparr>)" using t by simp
  qed
  define all where "all = (push_all E [(Some hdr, 46), (Some name, length name), (None, 0), (Some comment, comment_size)]
    :: ('z zst_scheme, bool) comp)"
  have "wp (bnd all fin) Q s"
    unfolding all_def wp_bnd
  proof (rule wp_push_all [OF alloc st assms(3)])
    fix a k
    assume "array_ok a" "contents a = contents (m_central_dir st) @
        concat (map (given_bytes \<circ> fst) [(Some hdr, 46), (Some name, length name), (None, 0), (Some comment, comment_size)])"
      "m_size a = m_size (m_central_dir st) + sum_list (map snd [(Some hdr, 46), (Some name, length name), (None, 0), (Some comment, comment_size)])"
    then show "wp (fin True) Q (s\<lparr>nalloc := k, arch := (arch s)\<lparr>m_pState := Some (st\<lparr>m_central_dir := a\<rparr>)\<rparr>\<rparr>)"
      by (intro fin [OF refl]) (simp_all add: given_bytes_def)
  qed (use assms in \<open>auto simp: given_bytes_def\<close>)
  moreover have "(mz_zip_writer_add_to_central_dir E name (length name) None 0 (Some comment) comment_size uncomp_size comp_size
      crc method 0 dos_time dos_date local_header_ofs ext_attributes :: ('z zst_scheme, bool) comp) = bnd get_state (\<lambda>st.
      if local_header_ofs > 0xFFFFFFFF \<or> u64 (m_size (m_central_dir st) + 46 + length name + 0 + comment_size) > 0xFFFFFFFF
      then ret False
      else bnd all (\<lambda>ok. bnd (if ok then on_offsets (\<lambda>a. mz_zip_array_push_back E (stale E) a
          (Some [u32 (m_size (m_central_dir st))]) 1) else ret False) (\<lambda>ok. if ok then ret True
       else seq (on_central_dir (\<lambda>a. mz_zip_array_resize E (of_nat (stale E)) a (m_size (m_central_dir st)) False)) (ret False))))"
    by (simp add: mz_zip_writer_add_to_central_dir_def Let_def hdr [symmetric] all_def cong: if_cong)
  ultimately show ?thesis using assms(5) sz(1) by (simp only: wp_bnd_get_state [OF st] fin_def [symmetric]) simp
qed

text \<open>The local header over the zeros, and the record of the central directory.\<close>

definition local_record :: "nat \<Rightarrow> nat \<Rightarrow> nat \<Rightarrow> nat \<Rightarrow> nat \<Rightarrow> nat \<Rightarrow> nat \<Rightarrow> byte list" where
  "local_record name_size uncomp_size comp_size crc method dos_time dos_date =
     mz_zip_writer_create_local_dir_header name_size 0 uncomp_size comp_size crc method 0 dos_time dos_date"

definition central_record :: "byte list \<Rightarrow> byte list \<Rightarrow> nat \<Rightarrow> nat \<Rightarrow> nat \<Rightarrow> nat \<Rightarrow> nat \<Rightarrow> nat \<Rightarrow> nat \<Rightarrow> nat \<Rightarrow> byte list" where
  "central_record name comment uncomp_size comp_size crc method dos_time dos_date ofs attr =
     mz_zip_writer_create_central_dir_header (length name) 0 (length comment) uncomp_size comp_size crc method 0 dos_time
       dos_date ofs attr @ name @ comment"

text \<open>The directory and the end record are written behind the entries.\<close>

definition trailer :: "nat \<Rightarrow> nat \<Rightarrow> byte list \<Rightarrow> byte list" where
  "trailer n sz cd = (if n = 0 then end_record 0 0 0 else cd @ end_record n (length cd) sz)"

section \<open>The interface\<close>

locale archive_target =
  fixes E :: zenv
    and ok :: "mz_file_write_func option \<times> (stream option \<times> byte list option \<times> nat \<times> nat) option \<times>
      (path \<Rightarrow> byte list option) \<Rightarrow> bool"
    and image :: "mz_file_write_func option \<times> (stream option \<times> byte list option \<times> nat \<times> nat) option \<times>
      (path \<Rightarrow> byte list option) \<Rightarrow> byte list"
  assumes pWrite: "ok (io_view s) \<Longrightarrow> ofs \<le> length (image (io_view s)) \<Longrightarrow> ofs + length bs < 2 ^ 33 \<Longrightarrow>
      wp (pWrite E ofs bs) (\<lambda>n t. n = length bs \<and> ok (io_view t) \<and>
        image (io_view t) = write_at ofs bs (image (io_view s)) \<and> same_client s t) (s :: 'z zst_scheme)"
    and fflush: "ok (io_view s) \<Longrightarrow> m_pState (arch s) = Some st \<Longrightarrow>
      wp (case m_pFile st of None \<Rightarrow> ret True | Some f \<Rightarrow> fflush E f) (\<lambda>r t. r \<and> (\<exists>k. t = s\<lparr>ncall := k\<rparr>)) (s :: 'z zst_scheme)"
    and allocs: "ok v \<Longrightarrow> alloc_ok E n"
begin

lemma wp_zeros_loop:
  assumes "ok (io_view s)" and "ofs \<le> length (image (io_view s))" and "ofs + n < 2 ^ 33"
  shows "wp (zeros_loop E ofs n) (\<lambda>r t. r \<and> ok (io_view t) \<and>
    image (io_view t) = write_at ofs (replicate n 0) (image (io_view s)) \<and> same_client s t) (s :: 'z zst_scheme)"
  using assms
proof (induction n arbitrary: ofs s rule: less_induct)
  case (less n)
  show ?case
  proof (cases "n = 0")
    case True
    with less.prems show ?thesis by (simp add: zeros_loop.simps)
  next
    case False
    let ?k = "min 4096 n"
    have k: "0 < ?k" "?k \<le> n" using False by simp_all
    have step: "zeros_loop E ofs n = (bnd (pWrite E ofs (replicate ?k 0)) (\<lambda>k.
        if k \<noteq> ?k then ret False else zeros_loop E (u64 (ofs + ?k)) (n - ?k)) :: ('z zst_scheme, bool) comp)"
      using False by (subst zeros_loop.simps) simp
    have u: "u64 (ofs + ?k) = ofs + ?k" using less.prems(3) k by simp
    show ?thesis
      unfolding step
    proof (rule wp_bndI, rule pWrite [OF less.prems(1,2)])
      show "ofs + length (replicate ?k (0 :: byte)) < 2 ^ 33" using less.prems(3) k by simp
      fix a and t :: "'z zst_scheme"
      assume a: "a = length (replicate ?k (0 :: byte)) \<and> ok (io_view t) \<and>
        image (io_view t) = write_at ofs (replicate ?k 0) (image (io_view s)) \<and> same_client s t"
      have "wp (zeros_loop E (ofs + ?k) (n - ?k)) (\<lambda>r u. r \<and> ok (io_view u) \<and>
        image (io_view u) = write_at (ofs + ?k) (replicate (n - ?k) 0) (image (io_view t)) \<and> same_client t u) t"
      proof (rule less.IH)
        show "n - ?k < n" using k by simp
        show "ofs + ?k \<le> length (image (io_view t))" using a less.prems(2) by (simp add: length_write_at)
        show "ofs + ?k + (n - ?k) < 2 ^ 33" using less.prems(3) k by simp
      qed (use a in simp)
      moreover have "write_at (ofs + ?k) (replicate (n - ?k) 0) (image (io_view t)) =
          write_at ofs (replicate n 0) (image (io_view s))"
      proof -
        have "replicate n 0 = replicate ?k 0 @ replicate (n - ?k) (0 :: byte)"
          using k by (simp add: replicate_add [symmetric])
        with a write_at_append [OF less.prems(2), of "replicate ?k 0" "replicate (n - ?k) 0"] show ?thesis by simp
      qed
      ultimately show "wp (if a \<noteq> ?k then ret False else zeros_loop E (u64 (ofs + ?k)) (n - ?k)) (\<lambda>r u. r \<and>
          ok (io_view u) \<and> image (io_view u) = write_at ofs (replicate n 0) (image (io_view s)) \<and> same_client s u) t"
        using a by (auto simp: u elim!: wp_mono intro: same_client_trans)
    qed
  qed
qed

lemma wp_begin_entry:
  assumes "writing s sz n cd offs" and "ok (io_view s)" and "sz \<le> length (image (io_view s))"
    and "sz + 30 + length name < 2 ^ 33"
  shows "wp (begin_entry E name) (\<lambda>r t. r = Some (sz, sz + 30 + length name) \<and> ok (io_view t) \<and>
    image (io_view t) = write_at sz (replicate 30 0 @ name) (image (io_view s)) \<and> same_client s t) (s :: 'z zst_scheme)"
proof -
  have s: "m_archive_size (arch s) = sz" "m_file_offset_alignment (arch s) = 0" using assms(1) by (simp_all add: writing_def)
  have zeros: "wp (zeros_loop E sz 30) (\<lambda>r t. r \<and> ok (io_view t) \<and>
      image (io_view t) = write_at sz (replicate 30 0) (image (io_view s)) \<and> same_client s t) s"
    using assms by (intro wp_zeros_loop) simp_all
  define rest where "rest = (\<lambda>ok. if \<not> ok then ret None
     else seq (assert_aligned sz) (bnd (pWrite E (sz + 30) name) (\<lambda>k.
        ret (if k \<noteq> length name then None else Some (sz, u64 (sz + 30 + length name)))) :: ('z zst_scheme, (nat \<times> nat) option) comp))"
  have "wp (bnd (zeros_loop E sz 30) rest) (\<lambda>r t. r = Some (sz, sz + 30 + length name) \<and> ok (io_view t) \<and>
    image (io_view t) = write_at sz (replicate 30 0 @ name) (image (io_view s)) \<and> same_client s t) s"
  proof (rule wp_bndI [OF zeros])
    fix r and t :: "'z zst_scheme"
    assume t: "r \<and> ok (io_view t) \<and> image (io_view t) = write_at sz (replicate 30 0) (image (io_view s)) \<and> same_client s t"
    then have al: "m_file_offset_alignment (arch t) = 0" using s by (simp add: same_client_def dir_view_def)
    have len: "sz + 30 \<le> length (image (io_view t))" using t assms(3) by (simp add: length_write_at)
    have img: "write_at (sz + 30) name (image (io_view t)) = write_at sz (replicate 30 0 @ name) (image (io_view s))"
      using t write_at_append [OF assms(3), of "replicate 30 0" name] by simp
    have "wp (pWrite E (sz + 30) name) (\<lambda>k u. k = length name \<and> ok (io_view u) \<and>
        image (io_view u) = write_at (sz + 30) name (image (io_view t)) \<and> same_client t u) t"
      using t len assms(4) by (intro pWrite) simp_all
    then have "wp (pWrite E (sz + 30) name) (\<lambda>k u. (if k \<noteq> length name then None else Some (sz, u64 (sz + 30 + length name))) =
        Some (sz, sz + 30 + length name) \<and> ok (io_view u) \<and>
        image (io_view u) = write_at sz (replicate 30 0 @ name) (image (io_view s)) \<and> same_client s u) t"
      by (rule wp_mono) (use t img assms(4) in \<open>auto intro: same_client_trans\<close>)
    then show "wp (rest r) (\<lambda>r u. r = Some (sz, sz + 30 + length name) \<and> ok (io_view u) \<and>
        image (io_view u) = write_at sz (replicate 30 0 @ name) (image (io_view s)) \<and> same_client s u) t"
      using t al by (simp add: rest_def assert_aligned_def del: wp_bnd add: wp_bnd_gets) (simp add: wp_bnd)
  qed
  moreover have "wp (begin_entry E name) Q s = wp (bnd (zeros_loop E sz 30) rest) Q s" for Q
    using s assms(4)
    by (simp add: begin_entry_def rest_def wp_bnd_gets mz_zip_writer_compute_padding_needed_for_file_alignment_def
        mz_zip_writer_write_zeros_def Let_def cong: if_cong del: wp_bnd)
  ultimately show ?thesis by simp
qed

lemma wp_write_headers:
  assumes w: "writing s sz n cd offs" and ok: "ok (io_view s)" and len: "ofs + 30 \<le> length (image (io_view s))"
    and small: "ofs + 30 \<le> 2 ^ 32" "length name \<le> 0xFFFF" "length cd + 46 + length name + length comment < 2 ^ 32"
    and Q: "\<And>t. ok (io_view t) \<Longrightarrow>
      image (io_view t) = write_at ofs (local_record (length name) uncomp_size comp_size crc method dt dd) (image (io_view s)) \<Longrightarrow>
      writing t sz n (cd @ central_record name comment uncomp_size comp_size crc method dt dd ofs attr) (offs @ [length cd]) \<Longrightarrow>
      outside t = outside s \<Longrightarrow> wp (k True) Q t"
  shows "wp (bnd (pWrite E ofs (local_record (length name) uncomp_size comp_size crc method dt dd)) (\<lambda>j.
      if j \<noteq> 30 then f
      else bnd (mz_zip_writer_add_to_central_dir E name (length name) None 0 (Some comment) (length comment) uncomp_size
        comp_size crc method 0 dt dd ofs attr) k)) Q (s :: 'z zst_scheme)"
proof (rule wp_bndI, rule pWrite [OF ok])
  let ?hdr = "local_record (length name) uncomp_size comp_size crc method dt dd"
  have hdr: "length ?hdr = 30" by (simp add: local_record_def)
  show "ofs \<le> length (image (io_view s))" "ofs + length ?hdr < 2 ^ 33" using len small(1) hdr by simp_all
  fix j and t :: "'z zst_scheme"
  assume t: "j = length ?hdr \<and> ok (io_view t) \<and> image (io_view t) = write_at ofs ?hdr (image (io_view s)) \<and> same_client s t"
  then have wt: "writing t sz n cd offs" using w same_client_writing by blast
  then obtain st where st: "m_pState (arch t) = Some st" "array_ok (m_central_dir st)" "array_ok (m_central_dir_offsets st)"
    "contents (m_central_dir st) = cd" "contents (m_central_dir_offsets st) = offs" "m_size (m_central_dir st) = length cd"
    by (rule writingE)
  have "wp (mz_zip_writer_add_to_central_dir E name (length name) None 0 (Some comment) (length comment) uncomp_size
        comp_size crc method 0 dt dd ofs attr) (\<lambda>r u. wp (k r) Q u) t"
  proof (rule wp_add_to_central_dir [OF allocs [OF ok] st(1-3) _ refl small(2) _ refl])
    fix a :: "byte mz_zip_array" and b i
    let ?u = "t\<lparr>nalloc := i, arch := (arch t)\<lparr>m_pState := Some (st\<lparr>m_central_dir := a, m_central_dir_offsets := b\<rparr>)\<rparr>\<rparr>"
    assume a: "array_ok a" "array_ok b" "contents a = contents (m_central_dir st) @
        mz_zip_writer_create_central_dir_header (length name) 0 (length comment) uncomp_size comp_size crc method 0 dt dd ofs attr @
        name @ comment"
      "contents b = contents (m_central_dir_offsets st) @ [m_size (m_central_dir st)]"
    show "wp (k True) Q ?u"
    proof (rule Q)
      have "io_view ?u = io_view t" using st(1) by (simp add: io_view_def)
      then show "ok (io_view ?u)" "image (io_view ?u) = write_at ofs ?hdr (image (io_view s))" using t by simp_all
      show "writing ?u sz n (cd @ central_record name comment uncomp_size comp_size crc method dt dd ofs attr) (offs @ [length cd])"
        using wt a st by (simp add: writing_def central_record_def)
      show "outside ?u = outside s" using t by (simp add: outside_def same_client_def)
    qed
  qed (use small st(6) in simp_all)
  then show "wp (if j \<noteq> 30 then f else bnd (mz_zip_writer_add_to_central_dir E name (length name) None 0 (Some comment)
        (length comment) uncomp_size comp_size crc method 0 dt dd ofs attr) k) Q t" using t hdr by (simp del: wp_bnd add: wp_bnd)
qed

lemma wp_write_central_dir:
  assumes w: "writing s sz n cd offs" and ok: "ok (io_view s)" and len: "sz \<le> length (image (io_view s))"
    and small: "sz + length cd < 2 ^ 32"
  shows "wp (write_central_dir E) (\<lambda>r t. r = Some (if n = 0 then (0, 0) else (length cd, sz)) \<and> ok (io_view t) \<and>
    image (io_view t) = write_at sz (if n = 0 then [] else cd) (image (io_view s)) \<and>
    writing t (sz + (if n = 0 then 0 else length cd)) n cd offs \<and> outside t = outside s) (s :: 'z zst_scheme)"
proof -
  obtain st where st: "m_pState (arch s) = Some st" "array_ok (m_central_dir st)" "array_ok (m_central_dir_offsets st)"
    "contents (m_central_dir st) = cd" "contents (m_central_dir_offsets st) = offs" "m_size (m_central_dir st) = length cd"
    by (rule writingE [OF w])
  have s: "m_archive_size (arch s) = sz" "m_total_files (arch s) = n" using w by (simp_all add: writing_def)
  show ?thesis
  proof (cases "n = 0")
    case True
    then show ?thesis using w ok len s st by (simp add: write_central_dir_def)
  next
    case False
    let ?s = "s\<lparr>arch := (arch s)\<lparr>m_central_directory_file_ofs := sz\<rparr>\<rparr>"
    have io: "io_view ?s = io_view s" by (simp add: io_view_def)
    have w': "writing ?s sz n cd offs" using w by (simp add: writing_def)
    have bs: "take (length cd) (m_p (m_central_dir st)) = cd" using st(4,6) by (simp add: contents_def)
    have fit: "length cd \<le> length (m_p (m_central_dir st))" using st(2,6) by (simp add: array_ok_def)
    have "wp (pWrite E sz cd) (\<lambda>k t. k = length cd \<and> ok (io_view t) \<and> image (io_view t) = write_at sz cd (image (io_view ?s)) \<and>
        same_client ?s t) ?s"
      using ok len small io by (intro pWrite) simp_all
    then have "wp (pWrite E sz cd) (\<lambda>k t. k = length cd \<and> ok (io_view t) \<and> image (io_view t) = write_at sz cd (image (io_view s)) \<and>
        ok (io_view (t\<lparr>arch := (arch t)\<lparr>m_archive_size := u64 (m_archive_size (arch t) + length cd)\<rparr>\<rparr>)) \<and>
        image (io_view (t\<lparr>arch := (arch t)\<lparr>m_archive_size := u64 (m_archive_size (arch t) + length cd)\<rparr>\<rparr>)) =
          write_at sz cd (image (io_view s)) \<and>
        writing (t\<lparr>arch := (arch t)\<lparr>m_archive_size := u64 (m_archive_size (arch t) + length cd)\<rparr>\<rparr>) (sz + length cd) n cd offs \<and>
        outside (t\<lparr>arch := (arch t)\<lparr>m_archive_size := u64 (m_archive_size (arch t) + length cd)\<rparr>\<rparr>) = outside s) ?s"
    proof (rule wp_mono)
      fix k and t :: "'z zst_scheme"
      assume t: "k = length cd \<and> ok (io_view t) \<and> image (io_view t) = write_at sz cd (image (io_view ?s)) \<and> same_client ?s t"
      let ?t = "t\<lparr>arch := (arch t)\<lparr>m_archive_size := u64 (m_archive_size (arch t) + length cd)\<rparr>\<rparr>"
      have "io_view ?t = io_view t" by (simp add: io_view_def)
      moreover have "writing t sz n cd offs" using t w' same_client_writing by blast
      moreover from this have "writing ?t (sz + length cd) n cd offs" using small by (simp add: writing_def)
      moreover have "outside ?t = outside s" using t by (simp add: same_client_def outside_def)
      ultimately show "k = length cd \<and> ok (io_view t) \<and> image (io_view t) = write_at sz cd (image (io_view s)) \<and> ok (io_view ?t) \<and>
          image (io_view ?t) = write_at sz cd (image (io_view s)) \<and> writing ?t (sz + length cd) n cd offs \<and> outside ?t = outside s"
        using t io by simp
    qed
    then show ?thesis using False s st fit bs
      by (simp add: write_central_dir_def Let_def) (erule wp_mono, auto)
  qed
qed

lemma wp_write_end_record:
  assumes w: "writing s sz n cd offs" and ok: "ok (io_view s)" and len: "sz \<le> length (image (io_view s))"
    and small: "sz + 22 < 2 ^ 32"
    and Q: "\<And>t. ok (io_view t) \<Longrightarrow> image (io_view t) = write_at sz (end_record m d p) (image (io_view s)) \<Longrightarrow>
      m_archive_size (arch t) = sz + 22 \<Longrightarrow> m_zip_mode (arch t) = MZ_ZIP_MODE_WRITING_HAS_BEEN_FINALIZED \<Longrightarrow>
      m_pState (arch t) \<noteq> None \<Longrightarrow> outside t = outside s \<Longrightarrow> Q True t"
  shows "wp (write_end_record E m d p) Q (s :: 'z zst_scheme)"
proof -
  let ?hdr = "end_record m d p"
  define tail :: "('z zst_scheme, bool) comp" where "tail = bnd get_state (\<lambda>st.
     bnd (case m_pFile st of None \<Rightarrow> ret True | Some f \<Rightarrow> fflush E f) (\<lambda>ok.
       if \<not> ok then ret False
       else seq (upd_arch (\<lambda>a. a\<lparr>m_archive_size := u64 (m_archive_size a + 22),
              m_zip_mode := MZ_ZIP_MODE_WRITING_HAS_BEEN_FINALIZED\<rparr>)) (ret True)))"
  have "wp (pWrite E sz ?hdr) (\<lambda>k. wp (if k \<noteq> 22 then ret False else tail) Q) s"
  proof (rule wp_mono, rule pWrite [OF ok len])
    show "sz + length ?hdr < 2 ^ 33" using small by simp
    fix k and u :: "'z zst_scheme"
    assume u: "k = length ?hdr \<and> ok (io_view u) \<and> image (io_view u) = write_at sz ?hdr (image (io_view s)) \<and> same_client s u"
    then have "writing u sz n cd offs" using w same_client_writing by blast
    then obtain st where st: "m_pState (arch u) = Some st" and sz: "m_archive_size (arch u) = sz"
      by (auto simp: writing_def)
    have fin: "Q True ((u\<lparr>ncall := j\<rparr>)\<lparr>arch := (arch u)\<lparr>m_archive_size := u64 (sz + 22),
          m_zip_mode := MZ_ZIP_MODE_WRITING_HAS_BEEN_FINALIZED\<rparr>\<rparr>)" (is "Q True ?u") for j
    proof (rule Q)
      have "io_view ?u = io_view u" by (simp add: io_view_def)
      then show "ok (io_view ?u)" "image (io_view ?u) = write_at sz ?hdr (image (io_view s))" using u by simp_all
      show "outside ?u = outside s" using u by (simp add: outside_def same_client_def)
    qed (use small st in simp_all)
    have "wp (case m_pFile st of None \<Rightarrow> ret True | Some f \<Rightarrow> fflush E f) (\<lambda>r t. r \<and> (\<exists>k. t = u\<lparr>ncall := k\<rparr>)) u"
      using u st by (intro fflush) simp_all
    then have "wp (bnd (case m_pFile st of None \<Rightarrow> ret True | Some f \<Rightarrow> fflush E f) (\<lambda>ok.
       if \<not> ok then ret False
       else seq (upd_arch (\<lambda>a. a\<lparr>m_archive_size := u64 (m_archive_size a + 22),
              m_zip_mode := MZ_ZIP_MODE_WRITING_HAS_BEEN_FINALIZED\<rparr>)) (ret True))) Q u"
      by (rule wp_bndI) (use fin sz in auto)
    then have "wp tail Q u" by (simp only: tail_def wp_bnd_get_state [OF st])
    then show "wp (if k \<noteq> 22 then ret False else tail) Q u" using u by simp
  qed
  moreover have "m_archive_size (arch s) = sz" using w by (simp add: writing_def)
  ultimately show ?thesis
    by (simp only: write_end_record_def Let_def tail_def [symmetric] wp_gets wp_bnd)
qed

lemma wp_finalize:
  assumes w: "writing s sz n cd offs" and ok: "ok (io_view s)" and len: "sz \<le> length (image (io_view s))"
    and small: "n \<le> 0xFFFF" "sz + length cd + 22 < 2 ^ 32"
    and Q: "\<And>t. ok (io_view t) \<Longrightarrow> image (io_view t) = write_at sz (trailer n sz cd) (image (io_view s)) \<Longrightarrow>
      m_archive_size (arch t) = sz + length (trailer n sz cd) \<Longrightarrow> m_zip_mode (arch t) = MZ_ZIP_MODE_WRITING_HAS_BEEN_FINALIZED \<Longrightarrow>
      m_pState (arch t) \<noteq> None \<Longrightarrow> outside t = outside s \<Longrightarrow> Q True t"
  shows "wp (mz_zip_writer_finalize_archive E) Q (s :: 'z zst_scheme)"
proof -
  let ?d = "if n = 0 then 0 else length cd"
  obtain st where st: "m_pState (arch s) = Some st" "m_size (m_central_dir st) = length cd" by (rule writingE [OF w])
  have s: "m_archive_size (arch s) = sz" "m_total_files (arch s) = n" "m_zip_mode (arch s) = MZ_ZIP_MODE_WRITING"
    using w by (simp_all add: writing_def)
  have "wp (bnd (write_central_dir E) (\<lambda>r. case r of None \<Rightarrow> ret False
           | Some (central_dir_size, central_dir_ofs) \<Rightarrow> write_end_record E n central_dir_size central_dir_ofs)) Q s"
  proof (rule wp_bndI, rule wp_write_central_dir [OF w ok len])
    show "sz + length cd < 2 ^ 32" using small by simp
    fix r and t :: "'z zst_scheme"
    assume t: "r = Some (if n = 0 then (0, 0) else (length cd, sz)) \<and> ok (io_view t) \<and>
      image (io_view t) = write_at sz (if n = 0 then [] else cd) (image (io_view s)) \<and> writing t (sz + ?d) n cd offs \<and> outside t = outside s"
    let ?e = "end_record n ?d (if n = 0 then 0 else sz)"
    have img: "write_at (sz + ?d) ?e (image (io_view t)) = write_at sz (trailer n sz cd) (image (io_view s))"
      using t len write_at_append [OF len, of cd ?e] by (cases "n = 0") (simp_all add: trailer_def)
    have "wp (write_end_record E n ?d (if n = 0 then 0 else sz)) Q t"
    proof (rule wp_write_end_record [of t "sz + ?d" n cd offs])
      show "sz + ?d \<le> length (image (io_view t))" using t len by (simp add: length_write_at)
      fix u
      assume "ok (io_view u)" "image (io_view u) = write_at (sz + ?d) ?e (image (io_view t))" "m_archive_size (arch u) = sz + ?d + 22"
        "m_zip_mode (arch u) = MZ_ZIP_MODE_WRITING_HAS_BEEN_FINALIZED" "m_pState (arch u) \<noteq> None" "outside u = outside t"
      then show "Q True u" using img t by (intro Q) (simp_all add: trailer_def)
    qed (use t small in simp_all)
    then show "wp (case r of None \<Rightarrow> ret False
        | Some (central_dir_size, central_dir_ofs) \<Rightarrow> write_end_record E n central_dir_size central_dir_ofs) Q t"
      using t by (cases "n = 0") simp_all
  qed
  then show ?thesis using s st small
    by (simp add: mz_zip_writer_finalize_archive_def wp_bnd_gets del: wp_bnd)
qed

end

section \<open>The two targets of the source\<close>

text \<open>A block on the heap, in an environment where memory does not run out.\<close>

fun heap_ok :: "zenv \<Rightarrow> mz_file_write_func option \<times> (stream option \<times> byte list option \<times> nat \<times> nat) option \<times>
    (path \<Rightarrow> byte list option) \<Rightarrow> bool" where
  "heap_ok E (w, Some (f, mem, mem_size, cap), d) \<longleftrightarrow> (\<forall>n. alloc_ok E n) \<and> w = Some Heap_write_func \<and> f = None \<and>
     length (given_bytes mem) = cap \<and> mem_size \<le> cap"
| "heap_ok E (w, None, d) = False"

fun heap_image :: "mz_file_write_func option \<times> (stream option \<times> byte list option \<times> nat \<times> nat) option \<times>
    (path \<Rightarrow> byte list option) \<Rightarrow> byte list" where
  "heap_image (w, Some (f, mem, mem_size, cap), d) = take mem_size (given_bytes mem)"
| "heap_image (w, None, d) = []"

lemma overwrite_image:
  assumes "ofs \<le> n" and "n \<le> length mem" and "max (ofs + length bs) n \<le> length mem" and "take n mem = old"
  shows "take (max (ofs + length bs) n) (overwrite mem ofs bs) = write_at ofs bs old"
proof -
  have len: "length old = n" "ofs \<le> length old" using assms by auto
  have "take (max (ofs + length bs) n) (overwrite mem ofs bs) =
      take ofs mem @ bs @ take (n - (ofs + length bs)) (drop (ofs + length bs) mem)"
    using assms by (auto simp: overwrite_def max_def)
  also have "take ofs mem = take ofs old" using assms by auto
  also have "take (n - (ofs + length bs)) (drop (ofs + length bs) mem) = drop (ofs + length bs) old"
    using assms(4) by (auto simp: drop_take)
  finally show ?thesis using len by (simp add: write_at_0)
qed

lemma heap_write:
  assumes ok: "heap_ok E (io_view s)" and ofs: "ofs \<le> length (heap_image (io_view s))" and small: "ofs + length bs < 2 ^ 33"
  shows "wp (pWrite E ofs bs) (\<lambda>n t. n = length bs \<and> heap_ok E (io_view t) \<and>
    heap_image (io_view t) = write_at ofs bs (heap_image (io_view s)) \<and> same_client s t) s"
proof -
  obtain st where st: "m_pState (arch s) = Some st" and w: "m_pWrite (arch s) = Some Heap_write_func" "m_pFile st = None"
    "length (given_bytes (m_pMem st)) = m_mem_capacity st" "m_mem_size st \<le> m_mem_capacity st" and al: "\<forall>n. alloc_ok E n"
    using ok by (cases "m_pState (arch s)") (auto simp: io_view_def)
  have img: "heap_image (io_view s) = take (m_mem_size st) (given_bytes (m_pMem st))" using st by (simp add: io_view_def)
  have ofs': "ofs \<le> m_mem_size st" using ofs img by simp
  define top where "top = max (ofs + length bs) (m_mem_size st)"
  have new: "max (u64 (ofs + length bs)) (m_mem_size st) = top" using small by (simp add: top_def)
  have step: "heap_ok E (io_view t) \<and> heap_image (io_view t) = write_at ofs bs (heap_image (io_view s)) \<and> same_client s t"
    if t: "t = s\<lparr>nalloc := k, arch := (arch s)\<lparr>m_pState := Some (st\<lparr>m_pMem := Some (overwrite mem ofs bs), m_mem_capacity := cap,
        m_mem_size := top\<rparr>)\<rparr>\<rparr>"
      and mem: "length mem = cap" "top \<le> cap" "take (m_mem_size st) mem = take (m_mem_size st) (given_bytes (m_pMem st))"
    for t k mem cap
  proof -
    have "take top (overwrite mem ofs bs) = write_at ofs bs (heap_image (io_view s))"
      using mem ofs' img unfolding top_def by (intro overwrite_image) simp_all
    moreover have "length (overwrite mem ofs bs) = cap" using mem by (simp add: top_def)
    ultimately show ?thesis using t st w(1,2) al mem(2)
      by (simp add: io_view_def same_client_def dir_view_def given_bytes_def)
  qed
  show ?thesis
  proof (cases "bs = []")
    case True
    then show ?thesis using ok ofs w st by (simp add: pWrite_def wp_bnd_gets mz_zip_heap_write_func_def del: wp_bnd) simp
  next
    case False
    show ?thesis
    proof (cases "m_mem_capacity st < top")
      case True
      define cap where "cap = grow_capacity (max 64 (m_mem_capacity st)) top"
      have cap: "top \<le> cap" unfolding cap_def by (rule grow_capacity_ge) simp
      define mem where "mem = fresh (of_nat (stale E)) cap (given_bytes (m_pMem st))"
      have mem: "length mem = cap" "take (m_mem_size st) mem = take (m_mem_size st) (given_bytes (m_pMem st))"
        using cap True w by (simp_all add: mem_def fresh_def)
      have fit: "ofs + length bs \<le> length mem" using mem cap by (simp add: top_def)
      from step [OF refl mem(1) cap mem(2), of "Suc (nalloc s)"] show ?thesis
        using w st al False fit True
        by (simp add: pWrite_def mz_zip_heap_write_func_def new Let_def given_bytes_def [symmetric]
            cap_def [symmetric] mem_def [symmetric])
    next
      case small: False
      then obtain mem where m: "m_pMem st = Some mem" using w False by (cases "m_pMem st") (auto simp: given_bytes_def top_def)
      have mem: "length mem = m_mem_capacity st" using w m by (simp add: given_bytes_def)
      have cap: "top \<le> m_mem_capacity st" using small by simp
      then have fit: "ofs + length bs \<le> length mem" using mem by (simp add: top_def)
      have same: "take (m_mem_size st) mem = take (m_mem_size st) (given_bytes (m_pMem st))" using m by (simp add: given_bytes_def)
      have "st\<lparr>m_pMem := Some x, m_mem_capacity := m_mem_capacity st, m_mem_size := y\<rparr> = st\<lparr>m_pMem := Some x, m_mem_size := y\<rparr>" for x y
        by simp
      with step [OF refl mem cap same, of "nalloc s"] show ?thesis
        using w st m False fit small
        by (simp add: pWrite_def mz_zip_heap_write_func_def new Let_def)
    qed
  qed
qed

interpretation heap_block: archive_target E "heap_ok E" heap_image for E
proof (unfold_locales, goal_cases)
  case (1 s ofs bs)
  then show ?case by (rule heap_write)
next
  case (2 s st)
  then have "m_pFile st = None" by (simp add: io_view_def)
  then show ?case by (auto intro: exI [of _ "ncall s"])
next
  case (3 v n)
  then show ?case by (cases "(E, v)" rule: heap_ok.cases) auto
qed

text \<open>The file \<open>name\<close> on a disk that holds \<open>d0\<close> besides it, while no library call fails.\<close>

fun file_ok :: "zenv \<Rightarrow> path \<Rightarrow> (path \<Rightarrow> byte list option) \<Rightarrow> mz_file_write_func option \<times>
    (stream option \<times> byte list option \<times> nat \<times> nat) option \<times> (path \<Rightarrow> byte list option) \<Rightarrow> bool" where
  "file_ok E name d0 (w, Some (Some f, mem, mem_size, cap), d) \<longleftrightarrow> (\<forall>n. alloc_ok E n) \<and> (\<forall>n. lib_res E n = None) \<and>
     w = Some File_write_func \<and> sopen f \<and> swritable f \<and> spath f = name \<and> d name \<noteq> None \<and>
     (\<forall>p. p \<noteq> name \<longrightarrow> d p = d0 p)"
| "file_ok E name d0 (w, v, d) = False"

fun file_image :: "path \<Rightarrow> mz_file_write_func option \<times> (stream option \<times> byte list option \<times> nat \<times> nat) option \<times>
    (path \<Rightarrow> byte list option) \<Rightarrow> byte list" where
  "file_image name (w, v, d) = (case d name of None \<Rightarrow> [] | Some bs \<Rightarrow> bs)"

lemma file_okE:
  assumes "file_ok E name d0 (io_view s)"
  obtains st f bs where "m_pState (arch s) = Some st" "m_pFile st = Some f" "m_pWrite (arch s) = Some File_write_func"
    "sopen f" "swritable f" "spath f = name" "disk s name = Some bs" "file_image name (io_view s) = bs"
    "\<forall>n. alloc_ok E n" "\<forall>n. lib_res E n = None" "\<forall>p. p \<noteq> name \<longrightarrow> disk s p = d0 p"
proof -
  from assms obtain st where st: "m_pState (arch s) = Some st" by (cases "m_pState (arch s)") (simp_all add: io_view_def)
  with assms obtain f where f: "m_pFile st = Some f" by (cases "m_pFile st") (simp_all add: io_view_def)
  with assms st show ?thesis by (intro that) (auto simp: io_view_def)
qed

lemma file_write:
  assumes ok: "file_ok E name d0 (io_view s)" and ofs: "ofs \<le> length (file_image name (io_view s))"
    and small: "ofs + length bs < 2 ^ 33"
  shows "wp (pWrite E ofs bs) (\<lambda>n t. n = length bs \<and> file_ok E name d0 (io_view t) \<and>
    file_image name (io_view t) = write_at ofs bs (file_image name (io_view s)) \<and> same_client s t) s"
proof -
  obtain st f old where st: "m_pState (arch s) = Some st" "m_pFile st = Some f" "m_pWrite (arch s) = Some File_write_func"
    and f: "sopen f" "swritable f" "spath f = name" and d: "disk s name = Some old" "file_image name (io_view s) = old"
    and E: "\<forall>n. alloc_ok E n" "\<forall>n. lib_res E n = None" and rest: "\<forall>p. p \<noteq> name \<longrightarrow> disk s p = d0 p"
    using ok by (rule file_okE)
  have pos: "s64 ofs = int ofs" using small by simp
  have step: "file_ok E name d0 (io_view t) \<and> file_image name (io_view t) = write_at ofs bs old \<and> same_client s t"
    if t: "t = s\<lparr>ncall := k, disk := d', arch := (arch s)\<lparr>m_pState := Some (st\<lparr>m_pFile := Some g\<rparr>)\<rparr>\<rparr>"
      and d': "d' name = Some (write_at ofs bs old)" "\<And>p. p \<noteq> name \<Longrightarrow> d' p = disk s p"
      and g: "sopen g" "swritable g" "spath g = name" for t k d' g
    using t d' g st f E rest by (simp add: io_view_def same_client_def dir_view_def)
  show ?thesis
  proof (cases "bs = []")
    case True
    show ?thesis
    proof (cases "spos f = ofs")
      case at: True
      from step [OF refl, where k = "Suc (ncall s)" and d' = "disk s" and g = f] at True st f d E ofs pos show ?thesis
        by (simp add: pWrite_def mz_zip_file_write_func_def file_position_def stream_of_state_def put_stream_def fwrite_def Let_def)
    next
      case False
      from step [OF refl, where k = "Suc (Suc (ncall s))" and d' = "disk s" and g = "f\<lparr>spos := ofs\<rparr>"] True False st f d E ofs pos show ?thesis
        by (simp add: pWrite_def mz_zip_file_write_func_def file_position_def stream_of_state_def put_stream_def
            fwrite_def fseek_set_def Let_def)
    qed
  next
    case False
    show ?thesis
    proof (cases "spos f = ofs")
      case at: True
      from step [OF refl, where k = "Suc (ncall s)" and d' = "(disk s)(name := Some (write_at ofs bs old))"
        and g = "f\<lparr>spos := ofs + length bs\<rparr>"] at False st f d E ofs pos
      show ?thesis
        by (simp add: pWrite_def mz_zip_file_write_func_def file_position_def stream_of_state_def put_stream_def fwrite_def Let_def)
    next
      case away: False
      from step [OF refl, where k = "Suc (Suc (ncall s))" and d' = "(disk s)(name := Some (write_at ofs bs old))"
        and g = "f\<lparr>spos := ofs + length bs\<rparr>"]
        away False st f d E ofs pos
      show ?thesis
        by (simp add: pWrite_def mz_zip_file_write_func_def file_position_def stream_of_state_def put_stream_def
            fwrite_def fseek_set_def Let_def)
    qed
  qed
qed

interpretation disk_file: archive_target E "file_ok E name d0" "file_image name" for E name d0
proof (unfold_locales, goal_cases)
  case (1 s ofs bs)
  then show ?case by (rule file_write)
next
  case (2 s st)
  then obtain f where "m_pFile st = Some f" "sopen f" "\<forall>n. lib_res E n = None" by (auto elim: file_okE)
  then show ?case by (auto simp: fflush_def intro: exI [of _ "Suc (ncall s)"])
next
  case (3 v n)
  then show ?case by (cases "(E, name, d0, v)" rule: file_ok.cases) auto
qed

end
