(* ===== verification/Zip_Archive.thy ===== *)
theory Zip_Archive
  imports Zip_Entry Miniz_Writer_Facts
begin

unbundle bit_operations_syntax

text \<open>
  The archive the delivery manager makes of its log: \<open>zip_log\<close> is the part of \<open>handle_loq_req\<close> (\<open>server/src/srv_util.c\<close>)
  that calls \<open>zip.c\<close>. Its facts use the interpretation of the archive target on a file.
\<close>

section \<open>The calls\<close>




section \<open>What the compressor makes of a file\<close>

function file_chunks :: "byte list \<Rightarrow> byte list list" where
  "file_chunks bs = (if bs = [] then [] else take MZ_ZIP_MAX_IO_BUF_SIZE bs # file_chunks (drop MZ_ZIP_MAX_IO_BUF_SIZE bs))"
  by pat_completeness auto
termination by (relation "measure length") auto

declare file_chunks.simps [simp del]

lemma concat_file_chunks: "concat (file_chunks bs) = bs"
  by (induction bs rule: file_chunks.induct) (subst file_chunks.simps, auto)




section \<open>States of the handle\<close>

text \<open>The file \<open>name\<close> holds \<open>bs\<close> and is being written; nothing else on the disk \<open>d0\<close> has changed.\<close>

definition holds :: "zenv \<Rightarrow> path \<Rightarrow> (path \<Rightarrow> byte list option) \<Rightarrow> ('c, 'z) zip_t_scheme \<Rightarrow> nat \<Rightarrow> nat \<Rightarrow> byte list \<Rightarrow> nat list \<Rightarrow>
    byte list \<Rightarrow> bool" where
  "holds E name d0 s sz n cd offs bs \<longleftrightarrow> writing s sz n cd offs \<and> file_ok E name d0 (io_view s) \<and>
     file_image name (io_view s) = bs"

lemma io_view_entry [simp]: "io_view (s\<lparr>entry := e\<rparr>) = io_view s" "io_view (s\<lparr>ncall := k\<rparr>) = io_view s"
  "io_view (s\<lparr>nalloc := k\<rparr>) = io_view s"
  by (simp_all add: io_view_def)

lemma writing_entry [simp]: "writing (s\<lparr>entry := e\<rparr>) = writing s" "writing (s\<lparr>ncall := k\<rparr>) = writing s"
  "writing (s\<lparr>nalloc := k\<rparr>) = writing s"
  by (simp_all add: writing_def fun_eq_iff)

lemma holds_entry [simp]: "holds E name d0 (s\<lparr>entry := e\<rparr>) = holds E name d0 s"
  "holds E name d0 (s\<lparr>ncall := k\<rparr>) = holds E name d0 s" "holds E name d0 (s\<lparr>nalloc := k\<rparr>) = holds E name d0 s"
  by (simp_all add: holds_def fun_eq_iff)

definition same_handle :: "('c, 'z) zip_t_scheme \<Rightarrow> ('c, 'z) zip_t_scheme \<Rightarrow> bool" where
  "same_handle s t \<longleftrightarrow> handle_live t = handle_live s \<and> zip_level t = zip_level s \<and> fs_events t = fs_events s \<and>
     zip_t.more t = zip_t.more s"



lemma same_handle_simps [simp]: "same_handle s s" "same_handle s (t\<lparr>entry := e\<rparr>) = same_handle s t"
  "same_handle (s\<lparr>entry := e\<rparr>) t = same_handle s t" "same_handle s (t\<lparr>ncall := k\<rparr>) = same_handle s t"
  "same_handle s (t\<lparr>arch := z\<rparr>) = same_handle s t"
  "same_handle (s\<lparr>ncall := k\<rparr>) t = same_handle s t" "same_handle (s\<lparr>nalloc := k\<rparr>) t = same_handle s t"
  by (simp_all add: same_handle_def)




section \<open>The entry\<close>








text \<open>\<open>zip_entry_close\<close>: the rest of the compressed data, the local header over the zeros, the record of the directory.\<close>

definition log_record :: "zenv \<Rightarrow> byte list \<Rightarrow> byte list \<Rightarrow> byte list \<Rightarrow> int \<Rightarrow> byte list" where
  "log_record E nm content out mtime = (let (dos_time, dos_date) = mz_zip_time_t_to_dos_time E mtime in
     local_record (length nm) (length content) (length out) (unat (mz_crc32 0 (Some content))) MZ_DEFLATED dos_time dos_date)"


lemma length_log_record [simp]: "length (log_record E nm content out mtime) = 30"
  by (simp add: log_record_def local_record_def split: prod.split)


section \<open>The archive\<close>










end
