(* ===== verification/Tdefl_Huffman.thy ===== *)
theory Tdefl_Huffman
  imports Deflate_Tables
begin

unbundle bit_operations_syntax

text \<open>
  The Huffman codes of the compressor (\<open>server/include/miniz.h\<close>): the radix sort of the symbols by frequency, the
  code lengths by the in-place algorithm of Moffat and Katajainen, the limit on the length and the canonical codes.
  Arrays are lists; an access outside of one is a fault.
\<close>

section \<open>Sorting the symbols\<close>

record tdefl_sym_freq =
  m_key :: nat
  m_sym_index :: nat

text \<open>\<open>hist\<close> has 256 counters for the low bytes of the keys and 256 for the high ones.\<close>

definition radix_hist :: "tdefl_sym_freq list \<Rightarrow> nat \<Rightarrow> nat" where
  "radix_hist pSyms0 = fold (\<lambda>x hist.
     let freq = m_key x;
         hist = hist(freq mod 256 := u32 (hist (freq mod 256) + 1));
         hi = 256 + freq div 256 mod 256
     in hist(hi := u32 (hist hi + 1))) pSyms0 (\<lambda>_. 0)"

definition radix_offsets :: "(nat \<Rightarrow> nat) \<Rightarrow> nat \<Rightarrow> nat \<Rightarrow> nat" where
  "radix_offsets hist pass = fst (fold (\<lambda>i (offsets, cur_ofs). (offsets(i := cur_ofs), u32 (cur_ofs + hist (256 * pass + i))))
     [0..<256] (\<lambda>_. 0, 0))"

text \<open>A pass: every symbol goes to the next place of its digit.\<close>

fun radix_move :: "nat \<Rightarrow> (nat \<Rightarrow> nat) \<Rightarrow> tdefl_sym_freq list \<Rightarrow> tdefl_sym_freq list \<Rightarrow> ('s, tdefl_sym_freq list) comp" where
  "radix_move pass offsets [] pNew_syms = ret pNew_syms"
| "radix_move pass offsets (x # xs) pNew_syms =
     (let digit = m_key x div 256 ^ pass mod 256 in
      bnd (put_elem pNew_syms (offsets digit) x) (\<lambda>pNew_syms.
        radix_move pass (offsets(digit := u32 (offsets digit + 1))) xs pNew_syms))"

fun radix_passes :: "(nat \<Rightarrow> nat) \<Rightarrow> nat list \<Rightarrow> tdefl_sym_freq list \<Rightarrow> tdefl_sym_freq list \<Rightarrow> ('s, tdefl_sym_freq list) comp" where
  "radix_passes hist [] pCur_syms pNew_syms = ret pCur_syms"
| "radix_passes hist (pass # ps) pCur_syms pNew_syms =
     bnd (radix_move pass (radix_offsets hist pass) pCur_syms pNew_syms) (\<lambda>pNew_syms.
       radix_passes hist ps pNew_syms pCur_syms)"

text \<open>\<open>pSyms1\<close> is the second array, of the same length.\<close>

definition tdefl_radix_sort_syms :: "tdefl_sym_freq list \<Rightarrow> tdefl_sym_freq list \<Rightarrow> ('s, tdefl_sym_freq list) comp" where
  "tdefl_radix_sort_syms pSyms0 pSyms1 =
     (let hist = radix_hist pSyms0; num_syms = length pSyms0;
          total_passes = (if num_syms = hist 256 then 1 else 2)
      in radix_passes hist [0..<total_passes] pSyms0 pSyms1)"

section \<open>Code lengths\<close>

text \<open>The merging phase: inner nodes are built at the front of the array, and a node that has been merged holds its parent.\<close>

definition take_smallest ::
    "nat \<Rightarrow> nat \<Rightarrow> bool \<Rightarrow> nat list \<Rightarrow> nat \<Rightarrow> nat \<Rightarrow> ('s, nat list \<times> nat \<times> nat) comp" where
  "take_smallest n nxt second A root leaf =
     (let store = (\<lambda>A k. if second then bnd (elem A nxt) (\<lambda>a. put_elem A nxt (u16 (a + k))) else put_elem A nxt k) in
      bnd (if leaf \<ge> n then ret True
           else if second \<and> \<not> root < nxt then ret False
           else bnd (elem A root) (\<lambda>a. bnd (elem A leaf) (\<lambda>b. ret (a < b)))) (\<lambda>inner.
        if inner
        then bnd (elem A root) (\<lambda>k. bnd (store A k) (\<lambda>A. bnd (put_elem A root (u16 nxt)) (\<lambda>A. ret (A, root + 1, leaf))))
        else bnd (elem A leaf) (\<lambda>k. bnd (store A k) (\<lambda>A. ret (A, root, leaf + 1)))))"

fun merge_loop :: "nat \<Rightarrow> nat list \<Rightarrow> nat list \<Rightarrow> nat \<Rightarrow> nat \<Rightarrow> ('s, nat list) comp" where
  "merge_loop n [] A root leaf = ret A"
| "merge_loop n (nxt # ns) A root leaf =
     bnd (take_smallest n nxt False A root leaf) (\<lambda>(A, root, leaf).
     bnd (take_smallest n nxt True A root leaf) (\<lambda>(A, root, leaf).
       merge_loop n ns A root leaf))"

text \<open>The depths of the inner nodes, from the root down.\<close>

fun depth_loop :: "nat list \<Rightarrow> nat list \<Rightarrow> ('s, nat list) comp" where
  "depth_loop [] A = ret A"
| "depth_loop (nxt # ns) A =
     bnd (elem A nxt) (\<lambda>p. bnd (elem A p) (\<lambda>d. bnd (put_elem A nxt (u16 (d + 1))) (depth_loop ns)))"

text \<open>\<open>root\<close> and \<open>next\<close> count down to -1; \<open>r\<close> and \<open>m\<close> are one more.\<close>

fun count_used :: "nat list \<Rightarrow> nat \<Rightarrow> nat \<Rightarrow> nat \<Rightarrow> ('s, nat \<times> nat) comp" where
  "count_used A dpth 0 used = ret (0, used)"
| "count_used A dpth (Suc r) used = bnd (elem A r) (\<lambda>a.
     if a = dpth then count_used A dpth r (used + 1) else ret (Suc r, used))"

fun put_leaves :: "nat \<Rightarrow> nat \<Rightarrow> nat list \<Rightarrow> nat \<Rightarrow> ('s, nat list \<times> nat) comp" where
  "put_leaves dpth 0 A m = ret (A, m)"
| "put_leaves dpth (Suc k) A m =
     (if m = 0 then fail Out_of_bounds
      else bnd (put_elem A (m - 1) (u16 dpth)) (\<lambda>A. put_leaves dpth k A (m - 1)))"

text \<open>The first argument bounds the number of rounds of \<open>while (avbl > 0)\<close>.\<close>

fun leaves_loop :: "nat \<Rightarrow> nat list \<Rightarrow> nat \<Rightarrow> nat \<Rightarrow> nat \<Rightarrow> nat \<Rightarrow> ('s, nat list) comp" where
  "leaves_loop 0 A avbl dpth r m = fail Diverges"
| "leaves_loop (Suc fuel) A avbl dpth r m =
     (if avbl = 0 then ret A
      else bnd (count_used A dpth r 0) (\<lambda>(r, used).
        bnd (put_leaves dpth (avbl - used) A m) (\<lambda>(A, m).
          leaves_loop fuel A (2 * used) (dpth + 1) r m)))"

definition tdefl_calculate_minimum_redundancy :: "nat list \<Rightarrow> ('s, nat list) comp" where
  "tdefl_calculate_minimum_redundancy A =
     (let n = length A in
      if n = 0 then ret A
      else if n = 1 then ret [1]
      else bnd (put_elem A 0 (u16 (A ! 0 + A ! 1))) (\<lambda>A.
        bnd (merge_loop n [1..<n - 1] A 0 2) (\<lambda>A.
        bnd (put_elem A (n - 2) 0) (\<lambda>A.
        bnd (depth_loop (rev [0..<n - 2]) A) (\<lambda>A.
          leaves_loop (n + 1) A 1 0 (n - 1) n)))))"

section \<open>The limit on the code lengths\<close>

text \<open>The codes longer than the limit count as codes of the limit; then codes are lengthened until the sum is right.\<close>

fun lengthen :: "nat \<Rightarrow> int list \<Rightarrow> ('s, int list) comp" where
  "lengthen 0 pNum_codes = ret pNum_codes"
| "lengthen (Suc i) pNum_codes =
     (if i = 0 then ret pNum_codes
      else bnd (elem pNum_codes i) (\<lambda>k.
        if k \<noteq> 0
        then bnd (put_elem pNum_codes i (k - 1)) (\<lambda>pNum_codes.
          bnd (elem pNum_codes (i + 1)) (\<lambda>l. put_elem pNum_codes (i + 1) (l + 2)))
        else lengthen i pNum_codes))"

definition sum_codes :: "int list \<Rightarrow> nat \<Rightarrow> nat" where
  "sum_codes pNum_codes max_code_size =
     fold (\<lambda>i tot. u32 (tot + nat (pNum_codes ! i mod 2 ^ 32) * 2 ^ (max_code_size - i))) (rev [1..<max_code_size + 1]) 0"

lemma int_sub32: "int (sub32 x y) = (int x - int y) mod 2 ^ 32"
proof -
  have "u32 y \<le> 2 ^ 32" by (simp add: u32_def order_less_imp_le)
  then have "int (sub32 x y) = (int x + 2 ^ 32 - int y mod 2 ^ 32) mod 2 ^ 32"
    by (simp add: sub32_def u32_def zmod_int of_nat_diff algebra_simps)
  also have "\<dots> = (int x + 2 ^ 32 - int y) mod 2 ^ 32" by (rule mod_diff_right_eq)
  also have "\<dots> = (int x - int y + 2 ^ 32) mod 2 ^ 32" by (simp add: algebra_simps)
  finally show ?thesis by (simp only: mod_add_self2)
qed

lemma sub32_less:
  assumes "u32 t \<noteq> u32 b"
  shows "sub32 (sub32 t 1) b < sub32 t b"
proof -
  let ?m = "(int t - int b) mod 2 ^ 32"
  have "?m \<noteq> 0"
  proof
    assume "?m = 0"
    then have "int t mod 2 ^ 32 = int b mod 2 ^ 32" by (simp only: mod_eq_0_iff_dvd mod_eq_dvd_iff)
    then have "int (u32 t) = int (u32 b)" by (simp add: u32_def zmod_int)
    with assms show False by simp
  qed
  moreover have "0 \<le> ?m" "?m < 2 ^ 32" by simp_all
  moreover have "int (sub32 (sub32 t 1) b) = (?m - 1) mod 2 ^ 32"
  proof -
    have "int (sub32 (sub32 t 1) b) = ((int t - 1) mod 2 ^ 32 - int b) mod 2 ^ 32" by (simp add: int_sub32)
    also have "\<dots> = (int t - 1 - int b) mod 2 ^ 32" by (rule mod_diff_left_eq)
    also have "\<dots> = (int t - int b - 1) mod 2 ^ 32" by (simp only: diff_right_commute)
    also have "\<dots> = (?m - 1) mod 2 ^ 32" by (rule mod_diff_left_eq [symmetric])
    finally show ?thesis .
  qed
  ultimately have "int (sub32 (sub32 t 1) b) = ?m - 1" by simp
  then show ?thesis using int_sub32 [of t b] by linarith
qed

function enforce_loop :: "nat \<Rightarrow> nat \<Rightarrow> int list \<Rightarrow> ('s, int list) comp" where
  "enforce_loop max_code_size tot pNum_codes =
     (if u32 tot = u32 (2 ^ max_code_size) then ret pNum_codes
      else bnd (elem pNum_codes max_code_size) (\<lambda>k.
        bnd (put_elem pNum_codes max_code_size (k - 1)) (\<lambda>pNum_codes.
        bnd (lengthen max_code_size pNum_codes) (\<lambda>pNum_codes.
          enforce_loop max_code_size (sub32 tot 1) pNum_codes))))"
  by pat_completeness auto
termination by (relation "measure (\<lambda>(n, tot, cs). sub32 tot (2 ^ n))") (auto intro: sub32_less [unfolded One_nat_def])

declare enforce_loop.simps [simp del]

definition tdefl_huffman_enforce_max_code_size :: "int list \<Rightarrow> nat \<Rightarrow> nat \<Rightarrow> ('s, int list) comp" where
  "tdefl_huffman_enforce_max_code_size pNum_codes code_list_len max_code_size =
     (if code_list_len \<le> 1 then ret pNum_codes
      else
        let more = sum_list (map ((!) pNum_codes) [max_code_size + 1..<TDEFL_MAX_SUPPORTED_HUFF_CODESIZE + 1]);
            pNum_codes = pNum_codes[max_code_size := pNum_codes ! max_code_size + more]
        in enforce_loop max_code_size (sum_codes pNum_codes max_code_size) pNum_codes)"

section \<open>Canonical codes\<close>

text \<open>\<open>num_codes\<close> counts the code lengths.\<close>

fun count_codes :: "nat list \<Rightarrow> int list \<Rightarrow> ('s, int list) comp" where
  "count_codes [] num_codes = ret num_codes"
| "count_codes (k # ks) num_codes = bnd (elem num_codes k) (\<lambda>c.
     bnd (put_elem num_codes k (c + 1)) (count_codes ks))"

text \<open>The shortest codes go to the most frequent symbols, which are the last; \<open>j\<close> symbols are left.\<close>

fun give_size :: "nat \<Rightarrow> nat \<Rightarrow> tdefl_sym_freq list \<Rightarrow> nat \<Rightarrow> nat list \<Rightarrow> ('s, nat list \<times> nat) comp" where
  "give_size i 0 pSyms j sizes = ret (sizes, j)"
| "give_size i (Suc l) pSyms j sizes =
     (if j = 0 then fail Out_of_bounds
      else bnd (elem pSyms (j - 1)) (\<lambda>x. bnd (put_elem sizes (m_sym_index x) i) (\<lambda>sizes.
        give_size i l pSyms (j - 1) sizes)))"

fun give_sizes :: "nat list \<Rightarrow> int list \<Rightarrow> tdefl_sym_freq list \<Rightarrow> nat \<Rightarrow> nat list \<Rightarrow> ('s, nat list) comp" where
  "give_sizes [] num_codes pSyms j sizes = ret sizes"
| "give_sizes (i # is) num_codes pSyms j sizes = bnd (elem num_codes i) (\<lambda>l.
     bnd (give_size i (nat l) pSyms j sizes) (\<lambda>(sizes, j). give_sizes is num_codes pSyms j sizes))"

definition next_codes :: "int list \<Rightarrow> nat \<Rightarrow> nat \<Rightarrow> nat" where
  "next_codes num_codes code_size_limit = fst (fold (\<lambda>i (next_code, j).
     let j = (j + num_codes ! (i - 1)) * 2 in (next_code(i := nat (j mod 2 ^ 32)), j)) [2..<code_size_limit + 1] ((\<lambda>_. 0), 0))"

text \<open>The bits of a code in reverse order.\<close>

fun reverse_code :: "nat \<Rightarrow> nat \<Rightarrow> nat \<Rightarrow> nat" where
  "reverse_code 0 code rev_code = rev_code"
| "reverse_code (Suc l) code rev_code = reverse_code l (code div 2) (u32 (rev_code * 2) OR (code mod 2))"

fun give_codes :: "nat list \<Rightarrow> nat list \<Rightarrow> (nat \<Rightarrow> nat) \<Rightarrow> nat list" where
  "give_codes (code_size # ss) (old # olds) next_code =
     (if code_size = 0 then old # give_codes ss olds next_code
      else u16 (reverse_code code_size (next_code code_size) 0) #
        give_codes ss olds (next_code(code_size := u32 (next_code code_size + 1))))"
| "give_codes _ olds next_code = olds"

text \<open>The used symbols with their counts.\<close>

definition used_syms :: "nat list \<Rightarrow> tdefl_sym_freq list" where
  "used_syms counts = map (\<lambda>(i, k). \<lparr>m_key = k, m_sym_index = i\<rparr>) (filter (\<lambda>(i, k). k \<noteq> 0) (zip [0..<length counts] counts))"

text \<open>The lengths for given counts; \<open>num_codes\<close> is returned as well. The array has \<open>TDEFL_MAX_HUFF_SYMBOLS\<close> entries.\<close>

definition optimal_sizes :: "nat list \<Rightarrow> nat \<Rightarrow> ('s, nat list \<times> int list) comp" where
  "optimal_sizes counts code_size_limit =
     (let syms0 = used_syms counts; num_used_syms = length syms0 in
      bnd (tdefl_radix_sort_syms syms0 syms0) (\<lambda>pSyms.
      bnd (tdefl_calculate_minimum_redundancy (map m_key pSyms)) (\<lambda>keys.
      bnd (count_codes keys (replicate (TDEFL_MAX_SUPPORTED_HUFF_CODESIZE + 1) 0)) (\<lambda>num_codes.
      bnd (tdefl_huffman_enforce_max_code_size num_codes num_used_syms code_size_limit) (\<lambda>num_codes.
      bnd (give_sizes [1..<code_size_limit + 1] num_codes pSyms num_used_syms (replicate TDEFL_MAX_HUFF_SYMBOLS 0)) (\<lambda>sizes.
        ret (sizes, num_codes)))))))"

text \<open>\<open>tdefl_optimize_huffman_table\<close> on the counts, lengths and codes of one table: the new lengths and codes.\<close>

definition optimize_table ::
    "nat list \<Rightarrow> nat list \<Rightarrow> nat list \<Rightarrow> nat \<Rightarrow> nat \<Rightarrow> bool \<Rightarrow> ('s, nat list \<times> nat list) comp" where
  "optimize_table counts sizes codes table_len code_size_limit static_table =
     bnd (if static_table
          then bnd (count_codes (take table_len sizes) (replicate (TDEFL_MAX_SUPPORTED_HUFF_CODESIZE + 1) 0)) (\<lambda>num_codes.
            ret (sizes, codes, num_codes))
          else bnd (optimal_sizes (take table_len counts) code_size_limit) (\<lambda>(sizes, num_codes).
            ret (sizes, replicate TDEFL_MAX_HUFF_SYMBOLS 0, num_codes))) (\<lambda>(sizes, codes, num_codes).
       ret (sizes, give_codes (take table_len sizes) codes (next_codes num_codes code_size_limit)))"

end
