(* ===== verification/Tdefl_Block.thy ===== *)
theory Tdefl_Block
  imports Tdefl_Huffman
begin

unbundle bit_operations_syntax

text \<open>
  The compressor of \<open>server/include/miniz.h\<close> behind its LZ codes: the state \<open>tdefl_compressor\<close>, the bit buffer, the
  headers of static and dynamic blocks, the codes of a block and the flushing of a block. The variants are those of an
  x86-64 build: 64-bit registers, little endian, unaligned loads.
\<close>

section \<open>The compressor\<close>

text \<open>
  Pointers into an array of the structure are indices. \<open>out_bytes\<close> are the bytes from the start of the output buffer of
  the block to \<open>m_pOutput_buf\<close>, so that moving this pointer back is taking a prefix; \<open>m_pOutput_buf_end\<close> is relative
  to the same start. \<open>m_output_buf\<close> is the last block written to the buffer of the structure. Of the caller's memory,
  \<open>m_pIn_buf\<close> is the input, \<open>m_pIn_buf_size\<close> and \<open>m_pOut_buf_size\<close> are \<open>None\<close> for null pointers, and \<open>m_pOut_buf\<close> is
  what has been written to the output, whose length is \<open>m_out_buf_ofs\<close>. \<open>put_blocks_made\<close> are the calls of
  \<open>m_pPut_buf_func\<close>.
\<close>

record tdefl_compressor =
  m_pPut_buf_func :: bool
  m_flags :: nat
  m_max_probes :: "nat list"
  m_greedy_parsing :: bool
  m_adler32 :: "32 word"
  m_lookahead_pos :: nat
  m_lookahead_size :: nat
  m_dict_size :: nat
  m_pLZ_code_buf :: nat
  m_pLZ_flags :: nat
  out_bytes :: "byte list"
  m_pOutput_buf_end :: nat
  m_num_flags_left :: nat
  m_total_lz_bytes :: nat
  m_lz_code_buf_dict_pos :: nat
  m_bits_in :: nat
  m_bit_buffer :: nat
  m_saved_match_dist :: nat
  m_saved_match_len :: nat
  m_saved_lit :: nat
  m_output_flush_ofs :: nat
  m_output_flush_remaining :: nat
  m_finished :: bool
  m_block_index :: nat
  m_wants_to_finish :: bool
  m_prev_return_status :: tdefl_status
  m_pIn_buf :: "byte list option"
  m_pOut_buf :: "byte list"
  m_pIn_buf_size :: "nat option"
  m_pOut_buf_size :: "nat option"
  m_flush :: tdefl_flush
  m_pSrc :: nat
  m_src_buf_left :: nat
  m_dict :: "nat \<Rightarrow> byte"
  m_huff_count :: "nat list list"
  m_huff_codes :: "nat list list"
  m_huff_code_sizes :: "nat list list"
  m_lz_code_buf :: "nat \<Rightarrow> nat"
  m_next :: "nat \<Rightarrow> nat"
  m_hash :: "nat \<Rightarrow> nat"
  m_output_buf :: "byte list"
  put_blocks_made :: "byte list list"

type_synonym 'a defl = "(tdefl_compressor, 'a) comp"

text \<open>An assertion of the code, and an access to a field that is an array of \<open>n\<close> elements.\<close>

definition mz_assert :: "bool \<Rightarrow> ('s, unit) comp" where
  "mz_assert b = (if b then skip else fail Abort)"

definition at_index :: "nat \<Rightarrow> (nat \<Rightarrow> 'v) \<Rightarrow> nat \<Rightarrow> ('s, 'v) comp" where
  "at_index n f i = (if i < n then ret (f i) else fail Out_of_bounds)"

definition in_range :: "nat \<Rightarrow> nat \<Rightarrow> ('s, unit) comp" where
  "in_range n i = (if i < n then skip else fail Out_of_bounds)"

lemma wp_at_index [simp]: "wp (at_index n f i) Q s \<longleftrightarrow> i < n \<and> Q (f i) s"
  by (simp add: at_index_def)

lemma wp_in_range [simp]: "wp (in_range n i) Q s \<longleftrightarrow> i < n \<and> Q () s"
  by (simp add: in_range_def)

lemma wp_mz_assert [simp]: "wp (mz_assert b) Q s \<longleftrightarrow> b \<and> Q () s"
  by (simp add: mz_assert_def)

section \<open>The bit buffer\<close>

text \<open>The loop of \<open>TDEFL_PUT_BITS\<close>: whole bytes leave the bit buffer, and are lost at the end of the output buffer.\<close>

fun put_bytes :: "nat \<Rightarrow> nat \<Rightarrow> nat \<Rightarrow> byte list \<Rightarrow> nat \<times> nat \<times> byte list" where
  "put_bytes end_ofs bit_buffer bits_in out =
     (if 8 \<le> bits_in
      then put_bytes end_ofs (bit_buffer div 256) (bits_in - 8) (if length out < end_ofs then out @ [of_nat bit_buffer] else out)
      else (bit_buffer, bits_in, out))"

declare put_bytes.simps [simp del]

definition TDEFL_PUT_BITS :: "nat \<Rightarrow> nat \<Rightarrow> unit defl" where
  "TDEFL_PUT_BITS b l = seq (mz_assert (b \<le> 2 ^ l - 1)) (modify (\<lambda>d.
     case put_bytes (m_pOutput_buf_end d) (m_bit_buffer d OR u32 (b * 2 ^ m_bits_in d)) (m_bits_in d + l) (out_bytes d) of
       (bit_buffer, bits_in, out) \<Rightarrow> d\<lparr>m_bit_buffer := bit_buffer, m_bits_in := bits_in, out_bytes := out\<rparr>))"

section \<open>Tables\<close>

definition tdefl_optimize_huffman_table :: "nat \<Rightarrow> nat \<Rightarrow> nat \<Rightarrow> bool \<Rightarrow> unit defl" where
  "tdefl_optimize_huffman_table table_num table_len code_size_limit static_table =
     bnd (gets id) (\<lambda>d.
     bnd (optimize_table (m_huff_count d ! table_num) (m_huff_code_sizes d ! table_num) (m_huff_codes d ! table_num)
       table_len code_size_limit static_table) (\<lambda>(sizes, codes).
     modify (\<lambda>d. d\<lparr>m_huff_codes := (m_huff_codes d)[table_num := codes],
       m_huff_code_sizes := (m_huff_code_sizes d)[table_num := sizes]\<rparr>)))"

definition code_of :: "nat \<Rightarrow> nat \<Rightarrow> (nat \<times> nat) defl" where
  "code_of table_num symb = bnd (gets id) (\<lambda>d. bnd (elem (m_huff_codes d ! table_num) symb) (\<lambda>code.
     bnd (elem (m_huff_code_sizes d ! table_num) symb) (\<lambda>code_size. ret (code, code_size))))"

section \<open>The header of a dynamic block\<close>

text \<open>The locals of the run-length coding: the counts of the third table, the packed sizes and the two runs.\<close>

record rle_state =
  rle_counts :: "nat list"
  packed_code_sizes :: "nat list"
  rle_z_count :: nat
  rle_repeat_count :: nat
  prev_code_size :: nat

definition count_size :: "nat \<Rightarrow> nat \<Rightarrow> rle_state \<Rightarrow> ('s, rle_state) comp" where
  "count_size i n r = bnd (elem (rle_counts r) i) (\<lambda>k. ret (r\<lparr>rle_counts := (rle_counts r)[i := u16 (k + n)]\<rparr>))"

definition pack_sizes :: "nat list \<Rightarrow> rle_state \<Rightarrow> ('s, rle_state) comp" where
  "pack_sizes xs r =
     (if length (packed_code_sizes r @ xs) \<le> TDEFL_MAX_HUFF_SYMBOLS_0 + TDEFL_MAX_HUFF_SYMBOLS_1
      then ret (r\<lparr>packed_code_sizes := packed_code_sizes r @ xs\<rparr>) else fail Out_of_bounds)"

definition TDEFL_RLE_PREV_CODE_SIZE :: "rle_state \<Rightarrow> ('s, rle_state) comp" where
  "TDEFL_RLE_PREV_CODE_SIZE r =
     (let n = rle_repeat_count r in
      if n = 0 then ret r
      else bnd (if n < 3
                then bnd (count_size (prev_code_size r) n r) (pack_sizes (replicate n (prev_code_size r)))
                else bnd (count_size 16 1 r) (pack_sizes [16, (n - 3) mod 256])) (\<lambda>r.
        ret (r\<lparr>rle_repeat_count := 0\<rparr>)))"

definition TDEFL_RLE_ZERO_CODE_SIZE :: "rle_state \<Rightarrow> ('s, rle_state) comp" where
  "TDEFL_RLE_ZERO_CODE_SIZE r =
     (let n = rle_z_count r in
      if n = 0 then ret r
      else bnd (if n < 3 then bnd (count_size 0 n r) (pack_sizes (replicate n 0))
                else if n \<le> 10 then bnd (count_size 17 1 r) (pack_sizes [17, (n - 3) mod 256])
                else bnd (count_size 18 1 r) (pack_sizes [18, (n - 11) mod 256])) (\<lambda>r.
        ret (r\<lparr>rle_z_count := 0\<rparr>)))"

definition rle_size :: "nat \<Rightarrow> rle_state \<Rightarrow> ('s, rle_state) comp" where
  "rle_size code_size r =
     bnd (if code_size = 0
          then bnd (TDEFL_RLE_PREV_CODE_SIZE r) (\<lambda>r.
            let r = r\<lparr>rle_z_count := rle_z_count r + 1\<rparr> in
            if rle_z_count r = 138 then TDEFL_RLE_ZERO_CODE_SIZE r else ret r)
          else bnd (TDEFL_RLE_ZERO_CODE_SIZE r) (\<lambda>r.
            if code_size \<noteq> prev_code_size r
            then bnd (TDEFL_RLE_PREV_CODE_SIZE r) (\<lambda>r. bnd (count_size code_size 1 r) (pack_sizes [code_size]))
            else let r = r\<lparr>rle_repeat_count := rle_repeat_count r + 1\<rparr> in
              if rle_repeat_count r = 6 then TDEFL_RLE_PREV_CODE_SIZE r else ret r)) (\<lambda>r.
       ret (r\<lparr>prev_code_size := code_size\<rparr>))"

fun rle_sizes :: "nat list \<Rightarrow> rle_state \<Rightarrow> ('s, rle_state) comp" where
  "rle_sizes [] r = (if rle_repeat_count r \<noteq> 0 then TDEFL_RLE_PREV_CODE_SIZE r else TDEFL_RLE_ZERO_CODE_SIZE r)"
| "rle_sizes (code_size # xs) r = bnd (rle_size code_size r) (rle_sizes xs)"

text \<open>\<open>for (n = top; n > low; n--) if (sizes[n - 1]) break;\<close>\<close>

fun used_prefix :: "nat list \<Rightarrow> nat \<Rightarrow> nat \<Rightarrow> nat" where
  "used_prefix sizes low 0 = 0"
| "used_prefix sizes low (Suc n) = (if Suc n > low \<and> sizes ! n = 0 then used_prefix sizes low n else Suc n)"

text \<open>The packed sizes are written with the codes of the third table; 16, 17 and 18 are followed by their extra bits.\<close>

fun put_packed :: "nat list \<Rightarrow> unit defl" where
  "put_packed [] = skip"
| "put_packed (code # xs) = seq (mz_assert (code < TDEFL_MAX_HUFF_SYMBOLS_2)) (bnd (code_of 2 code) (\<lambda>(b, l).
     seq (TDEFL_PUT_BITS b l)
       (if code \<ge> 16
        then (case xs of [] \<Rightarrow> fail Uninit_read
              | x # ys \<Rightarrow> seq (TDEFL_PUT_BITS x ([2, 3, 7] ! (code - 16))) (put_packed ys))
        else put_packed xs)))"

definition tdefl_start_dynamic_block :: "unit defl" where
  "tdefl_start_dynamic_block =
     seq (modify (\<lambda>d. d\<lparr>m_huff_count := (m_huff_count d)[0 := (m_huff_count d ! 0)[256 := 1]]\<rparr>))
     (seq (tdefl_optimize_huffman_table 0 TDEFL_MAX_HUFF_SYMBOLS_0 15 False)
     (seq (tdefl_optimize_huffman_table 1 TDEFL_MAX_HUFF_SYMBOLS_1 15 False)
     (bnd (gets m_huff_code_sizes) (\<lambda>sizes.
       let num_lit_codes = used_prefix (sizes ! 0) 257 286;
           num_dist_codes = used_prefix (sizes ! 1) 1 30;
           code_sizes_to_pack = take num_lit_codes (sizes ! 0) @ take num_dist_codes (sizes ! 1)
       in bnd (gets m_huff_count) (\<lambda>counts.
       bnd (rle_sizes code_sizes_to_pack \<lparr>rle_counts = replicate TDEFL_MAX_HUFF_SYMBOLS_2 0 @ drop TDEFL_MAX_HUFF_SYMBOLS_2 (counts ! 2),
         packed_code_sizes = [], rle_z_count = 0, rle_repeat_count = 0, prev_code_size = 255\<rparr>) (\<lambda>r.
       seq (modify (\<lambda>d. d\<lparr>m_huff_count := (m_huff_count d)[2 := rle_counts r]\<rparr>))
       (seq (tdefl_optimize_huffman_table 2 TDEFL_MAX_HUFF_SYMBOLS_2 7 False)
       (seq (TDEFL_PUT_BITS 2 2)
       (seq (TDEFL_PUT_BITS (num_lit_codes - 257) 5)
       (seq (TDEFL_PUT_BITS (num_dist_codes - 1) 5)
       (bnd (gets (\<lambda>d. map (\<lambda>i. m_huff_code_sizes d ! 2 ! i) s_tdefl_packed_code_size_syms_swizzle)) (\<lambda>bit_lengths.
         let num_bit_lengths = max 4 (used_prefix bit_lengths 0 19)
         in seq (TDEFL_PUT_BITS (num_bit_lengths - 4) 4)
         (seq (for_each (\<lambda>k. TDEFL_PUT_BITS k 3) (take num_bit_lengths bit_lengths))
           (put_packed (packed_code_sizes r)))))))))))))))"

section \<open>The header of a static block\<close>

definition tdefl_start_static_block :: "unit defl" where
  "tdefl_start_static_block =
     seq (modify (\<lambda>d. d\<lparr>m_huff_code_sizes := (m_huff_code_sizes d)
       [0 := replicate 144 8 @ replicate 112 9 @ replicate 24 7 @ replicate 8 8,
        1 := replicate 32 5 @ drop 32 (m_huff_code_sizes d ! 1)]\<rparr>))
     (seq (tdefl_optimize_huffman_table 0 288 15 True)
     (seq (tdefl_optimize_huffman_table 1 32 15 True)
       (TDEFL_PUT_BITS 1 2)))"

section \<open>The codes of a block\<close>

text \<open>The locals of \<open>tdefl_compress_lz_codes\<close>: the bits, 64 of them, and the bytes written.\<close>

record fast_bits =
  bit_buffer :: nat
  bits_in :: nat
  pOutput :: "byte list"

definition TDEFL_PUT_BITS_FAST :: "nat \<Rightarrow> nat \<Rightarrow> fast_bits \<Rightarrow> fast_bits" where
  "TDEFL_PUT_BITS_FAST b l f = f\<lparr>bit_buffer := bit_buffer f OR u64 (b * 2 ^ bits_in f), bits_in := bits_in f + l\<rparr>"

text \<open>A symbol that has a code, as the assertions demand.\<close>

definition put_symbol :: "nat \<Rightarrow> nat \<Rightarrow> fast_bits \<Rightarrow> fast_bits defl" where
  "put_symbol table_num symb f = bnd (code_of table_num symb) (\<lambda>(b, l).
     seq (mz_assert (l \<noteq> 0)) (ret (TDEFL_PUT_BITS_FAST b l f)))"

definition lz_byte :: "nat \<Rightarrow> nat defl" where
  "lz_byte p = bnd (gets m_lz_code_buf) (\<lambda>buf. at_index TDEFL_LZ_CODE_BUF_SIZE buf p)"

definition put_match :: "nat \<Rightarrow> fast_bits \<Rightarrow> fast_bits defl" where
  "put_match p f = bnd (lz_byte p) (\<lambda>match_len. bnd (lz_byte (p + 1)) (\<lambda>lo. bnd (lz_byte (p + 2)) (\<lambda>hi.
     let match_dist = lo + 256 * hi in
     bnd (elem s_tdefl_len_sym match_len) (\<lambda>len_sym. bnd (elem s_tdefl_len_extra match_len) (\<lambda>len_extra.
     bnd (put_symbol 0 len_sym f) (\<lambda>f.
     let f = TDEFL_PUT_BITS_FAST (match_len AND mz_bitmasks ! len_extra) len_extra f in
     seq (in_range 128 (match_dist div 256))
     (bnd (put_symbol 1 (dist_sym match_dist) f) (\<lambda>f.
       ret (TDEFL_PUT_BITS_FAST (match_dist AND mz_bitmasks ! dist_extra match_dist) (dist_extra match_dist) f)))))))))"

text \<open>After a literal, up to two more are written in the same round, while the next flag says so and the buffer has not ended.\<close>

fun put_literals :: "nat \<Rightarrow> nat \<Rightarrow> nat \<Rightarrow> nat \<Rightarrow> fast_bits \<Rightarrow> (nat \<times> nat \<times> fast_bits) defl" where
  "put_literals n end_p flags p f = bnd (lz_byte p) (\<lambda>lit. bnd (put_symbol 0 lit f) (\<lambda>f.
     case n of
       0 \<Rightarrow> ret (flags, p + 1, f)
     | Suc k \<Rightarrow>
         if flags div 2 mod 2 = 0 \<and> p + 1 < end_p then put_literals k end_p (flags div 2) (p + 1) f
         else ret (flags, p + 1, f)))"

declare put_literals.simps [simp del]

text \<open>The bytes of a round: the bits go out eight bytes at a time, of which the whole ones count.\<close>

definition store_bits :: "fast_bits \<Rightarrow> fast_bits" where
  "store_bits f = (let n = bits_in f div 8 in
     f\<lparr>pOutput := pOutput f @ map of_nat (take n (map (\<lambda>i. bit_buffer f div 256 ^ i) [0..<8])),
       bit_buffer := bit_buffer f div 2 ^ (8 * n), bits_in := bits_in f mod 8\<rparr>)"

text \<open>The loop; \<open>None\<close> is the return when the output buffer is full. Every round reads at least one byte of the codes,
  so that fuel of one more than the number of code bytes is never used up.\<close>

fun lz_codes_loop :: "nat \<Rightarrow> nat \<Rightarrow> nat \<Rightarrow> nat \<Rightarrow> nat \<Rightarrow> fast_bits \<Rightarrow> fast_bits option defl" where
  "lz_codes_loop 0 end_p end_ofs flags p f = fail Diverges"
| "lz_codes_loop (Suc fuel) end_p end_ofs flags p f =
     (if \<not> p < end_p then ret (Some f)
      else bnd (if flags = 1 then bnd (lz_byte p) (\<lambda>x. ret (x OR 256, p + 1)) else ret (flags, p)) (\<lambda>(flags, p).
        bnd (if flags mod 2 = 1 then bnd (put_match p f) (\<lambda>f. ret (flags, p + 3, f))
             else put_literals 2 end_p flags p f) (\<lambda>(flags, p, f).
          if length (pOutput f) \<ge> end_ofs then ret None
          else lz_codes_loop fuel end_p end_ofs (flags div 2) p (store_bits f))))"

fun put_rest :: "nat \<Rightarrow> nat \<Rightarrow> unit defl" where
  "put_rest buf 0 = skip"
| "put_rest buf (Suc k) = (let n = min (Suc k) 16 in
     seq (TDEFL_PUT_BITS (buf mod 2 ^ 32 AND mz_bitmasks ! n) n) (put_rest (buf div 2 ^ n) (Suc k - n)))"

definition tdefl_compress_lz_codes :: "bool defl" where
  "tdefl_compress_lz_codes = bnd (gets id) (\<lambda>d.
     bnd (lz_codes_loop (m_pLZ_code_buf d + 1) (m_pLZ_code_buf d) (m_pOutput_buf_end d) 1 0
       \<lparr>bit_buffer = m_bit_buffer d, bits_in = m_bits_in d, pOutput = out_bytes d\<rparr>) (\<lambda>r. case r of
         None \<Rightarrow> ret False
       | Some f \<Rightarrow>
           seq (modify (\<lambda>d. d\<lparr>m_bit_buffer := 0, m_bits_in := 0, out_bytes := pOutput f\<rparr>))
           (seq (put_rest (bit_buffer f) (bits_in f))
           (bnd (code_of 0 256) (\<lambda>(b, l). seq (TDEFL_PUT_BITS b l)
             (gets (\<lambda>d. length (out_bytes d) < m_pOutput_buf_end d)))))))"

definition tdefl_compress_block :: "bool \<Rightarrow> bool defl" where
  "tdefl_compress_block static_block =
     seq (if static_block then tdefl_start_static_block else tdefl_start_dynamic_block) tdefl_compress_lz_codes"

section \<open>The end of a block\<close>

abbreviation (input) TDEFL_LZ_DICT_SIZE_MASK :: nat where "TDEFL_LZ_DICT_SIZE_MASK \<equiv> 32767"

abbreviation (input) dict_length :: nat where "dict_length \<equiv> TDEFL_LZ_DICT_SIZE + TDEFL_MAX_MATCH_LEN - 1"

definition dict_at :: "nat \<Rightarrow> byte defl" where
  "dict_at i = bnd (gets m_dict) (\<lambda>f. at_index dict_length f i)"

definition pad_byte :: "unit defl" where
  "pad_byte = bnd (gets m_bits_in) (\<lambda>k. when_do (k \<noteq> 0) (TDEFL_PUT_BITS 0 (8 - k)))"

text \<open>The contents of the block without compression: the length and its complement, and the bytes of the dictionary.\<close>

definition put_raw_block :: "unit defl" where
  "put_raw_block =
     seq (TDEFL_PUT_BITS 0 2)
     (seq pad_byte
     (bnd (gets m_total_lz_bytes) (\<lambda>n.
       seq (TDEFL_PUT_BITS (n mod 65536) 16)
       (seq (TDEFL_PUT_BITS ((n XOR 0xFFFF) mod 65536) 16)
       (bnd (gets m_lz_code_buf_dict_pos) (\<lambda>pos.
         for_each (\<lambda>i. bnd (dict_at (u32 (pos + i) mod TDEFL_LZ_DICT_SIZE)) (\<lambda>x. TDEFL_PUT_BITS (unat x) 8)) [0..<n]))))))"

definition put_adler32 :: "unit defl" where
  "put_adler32 = bnd (gets m_adler32) (\<lambda>a. for_each (\<lambda>i. TDEFL_PUT_BITS (unat a div 256 ^ i mod 256) 8) [3, 2, 1, 0])"

definition end_stream :: "tdefl_flush \<Rightarrow> unit defl" where
  "end_stream flush = (case flush of
       TDEFL_NO_FLUSH \<Rightarrow> skip
     | TDEFL_FINISH \<Rightarrow> seq pad_byte (bnd (gets m_flags) (\<lambda>fl. when_do (flag_set fl TDEFL_WRITE_ZLIB_HEADER) put_adler32))
     | _ \<Rightarrow> seq (TDEFL_PUT_BITS 0 3) (seq pad_byte (seq (TDEFL_PUT_BITS 0 16) (TDEFL_PUT_BITS 0xFFFF 16))))"

text \<open>The last flags are shifted into place; a flag byte without codes is given back.\<close>

definition close_codes :: "unit defl" where
  "close_codes = bnd (gets id) (\<lambda>d. bnd (lz_byte (m_pLZ_flags d)) (\<lambda>x.
     modify (\<lambda>d. d\<lparr>m_pLZ_code_buf := m_pLZ_code_buf d - (if m_num_flags_left d = 8 then 1 else 0),
       m_lz_code_buf := (m_lz_code_buf d)(m_pLZ_flags d := x div 2 ^ m_num_flags_left d)\<rparr>)))"

definition reset_codes :: "unit defl" where
  "reset_codes = modify (\<lambda>d. d\<lparr>m_pLZ_code_buf := 1, m_pLZ_flags := 0, m_num_flags_left := 8,
     m_total_lz_bytes := 0, m_lz_code_buf_dict_pos := u32 (m_lz_code_buf_dict_pos d + m_total_lz_bytes d),
     m_block_index := u32 (m_block_index d + 1),
     m_huff_count := (m_huff_count d)[0 := replicate TDEFL_MAX_HUFF_SYMBOLS_0 0,
       1 := replicate TDEFL_MAX_HUFF_SYMBOLS_1 0 @ drop TDEFL_MAX_HUFF_SYMBOLS_1 (m_huff_count d ! 1)]\<rparr>)"

text \<open>What becomes of the bytes of the block: \<open>put_ok\<close> says which calls of \<open>m_pPut_buf_func\<close> succeed. The result is
  negative when one fails, otherwise the number of bytes that the caller's buffer had no room for.\<close>

definition deliver_block :: "(nat \<Rightarrow> bool) \<Rightarrow> bool \<Rightarrow> int defl" where
  "deliver_block put_ok to_caller = bnd (gets id) (\<lambda>d. let n = length (out_bytes d) in
     if n = 0 then ret (int (m_output_flush_remaining d))
     else if m_pPut_buf_func d
     then if m_pIn_buf_size d = None then fail Null_deref
       else seq (modify (\<lambda>d. d\<lparr>m_pIn_buf_size := Some (m_pSrc d), put_blocks_made := put_blocks_made d @ [out_bytes d]\<rparr>))
         (if put_ok (length (put_blocks_made d)) then ret (int (m_output_flush_remaining d))
          else seq (modify (\<lambda>d. d\<lparr>m_prev_return_status := TDEFL_STATUS_PUT_BUF_FAILED\<rparr>)) (ret (- 1)))
     else if \<not> to_caller
     then (case m_pOut_buf_size d of
         None \<Rightarrow> fail Null_deref
       | Some room \<Rightarrow> let k = min n (room - length (m_pOut_buf d)) in
           seq (modify (\<lambda>d. d\<lparr>m_pOut_buf := m_pOut_buf d @ take k (out_bytes d)\<rparr>))
           (seq (when_do (k < n) (modify (\<lambda>d. d\<lparr>m_output_flush_ofs := k, m_output_flush_remaining := n - k\<rparr>)))
             (gets (\<lambda>d. int (m_output_flush_remaining d)))))
     else seq (modify (\<lambda>d. d\<lparr>m_pOut_buf := m_pOut_buf d @ out_bytes d\<rparr>)) (ret (int (m_output_flush_remaining d))))"

definition tdefl_flush_block :: "(nat \<Rightarrow> bool) \<Rightarrow> tdefl_flush \<Rightarrow> int defl" where
  "tdefl_flush_block put_ok flush = bnd (gets id) (\<lambda>d.
     let short_enough = sub32 (m_lookahead_pos d) (m_lz_code_buf_dict_pos d) \<le> m_dict_size d;
         use_raw_block = (flag_set (m_flags d) TDEFL_FORCE_ALL_RAW_BLOCKS \<and> short_enough)
     in bnd (if m_pPut_buf_func d then ret False
             else (case m_pOut_buf_size d of
                 None \<Rightarrow> fail Null_deref
               | Some room \<Rightarrow> ret (room - length (m_pOut_buf d) \<ge> TDEFL_OUT_BUF_SIZE))) (\<lambda>to_caller.
     seq (modify (\<lambda>d. d\<lparr>out_bytes := [], m_pOutput_buf_end := TDEFL_OUT_BUF_SIZE - 16\<rparr>))
     (seq (mz_assert (m_output_flush_remaining d = 0))
     (seq (modify (\<lambda>d. d\<lparr>m_output_flush_ofs := 0, m_output_flush_remaining := 0\<rparr>))
     (seq close_codes
     (seq (when_do (flag_set (m_flags d) TDEFL_WRITE_ZLIB_HEADER \<and> m_block_index d = 0)
       (seq (TDEFL_PUT_BITS 0x78 8) (TDEFL_PUT_BITS 0x01 8)))
     (seq (TDEFL_PUT_BITS (if flush = TDEFL_FINISH then 1 else 0) 1)
     (bnd (gets (\<lambda>d. (out_bytes d, m_bit_buffer d, m_bits_in d))) (\<lambda>(saved_output, saved_bit_buf, saved_bits_in).
     bnd (if use_raw_block then ret False
          else tdefl_compress_block (flag_set (m_flags d) TDEFL_FORCE_ALL_STATIC_BLOCKS \<or> m_total_lz_bytes d < 48)) (\<lambda>comp_block_succeeded.
     bnd (gets (\<lambda>d. length (out_bytes d))) (\<lambda>n.
     let restore = modify (\<lambda>d. d\<lparr>out_bytes := saved_output, m_bit_buffer := saved_bit_buf, m_bits_in := saved_bits_in\<rparr>);
         expanded = (m_total_lz_bytes d \<noteq> 0 \<and> n - length saved_output + 1 \<ge> m_total_lz_bytes d)
     in seq (if (use_raw_block \<or> expanded) \<and> short_enough then seq restore put_raw_block
             else when_do (\<not> comp_block_succeeded) (seq restore (bnd (tdefl_compress_block True) (\<lambda>_. skip))))
     (seq (end_stream flush)
     (seq (bnd (gets id) (\<lambda>d. mz_assert (length (out_bytes d) < m_pOutput_buf_end d)))
     (seq reset_codes
     (seq (modify (\<lambda>d. if to_caller then d else d\<lparr>m_output_buf := out_bytes d\<rparr>))
       (deliver_block put_ok to_caller))))))))))))))))"

end
