(* ===== verification/Tdefl_Compress.thy ===== *)
theory Tdefl_Compress
  imports Tdefl_Block Miniz_Checksum
begin

unbundle bit_operations_syntax

text \<open>
  The front of the compressor of \<open>server/include/miniz.h\<close>: the search for matches in the dictionary, the recording of
  literals and matches, the two parsing loops, and the calls a client makes. The structure \<open>d\<close> is never null here; \<open>put_ok\<close>
  says which calls of \<open>m_pPut_buf_func\<close> succeed, counted from the initialisation.
\<close>

section \<open>The search for a match\<close>

text \<open>Two bytes of the dictionary, as one unaligned load, and the two that end before an index.\<close>

definition dict_pair :: "nat \<Rightarrow> (byte \<times> byte) defl" where
  "dict_pair i = bnd (dict_at i) (\<lambda>a. bnd (dict_at (i + 1)) (\<lambda>b. ret (a, b)))"

definition pair_before :: "nat \<Rightarrow> (byte \<times> byte) defl" where
  "pair_before i = (if i = 0 then fail Out_of_bounds else dict_pair (i - 1))"

definition next_at :: "nat \<Rightarrow> nat defl" where
  "next_at i = bnd (gets m_next) (\<lambda>f. at_index TDEFL_LZ_DICT_SIZE f i)"

text \<open>The unrolled comparison: the index of the first pair that differs, among at most \<open>k\<close>.\<close>

fun pairs_loop :: "nat \<Rightarrow> nat \<Rightarrow> nat \<Rightarrow> nat \<Rightarrow> nat option defl" where
  "pairs_loop p q i 0 = ret None"
| "pairs_loop p q i (Suc k) = bnd (dict_pair (p + 2 * i)) (\<lambda>a. bnd (dict_pair (q + 2 * i)) (\<lambda>b.
     if a = b then pairs_loop p q (i + 1) k else ret (Some i)))"

text \<open>The length of the common bytes when pair \<open>i\<close> is the first that differs.\<close>

definition probe_length :: "nat \<Rightarrow> nat \<Rightarrow> nat \<Rightarrow> nat defl" where
  "probe_length p q i = bnd (dict_at (p + 2 * i)) (\<lambda>a. bnd (dict_at (q + 2 * i)) (\<lambda>b.
     ret (2 * i + (if a = b then 1 else 0))))"

text \<open>
  The comparison at a place that ends like the match so far: \<open>None\<close> when it is not longer, otherwise the new length and
  whether the search stops.
\<close>

definition compare_probe :: "nat \<Rightarrow> nat \<Rightarrow> byte \<times> byte \<Rightarrow> nat \<Rightarrow> nat \<Rightarrow> (nat \<times> bool) option defl" where
  "compare_probe pos probe_pos s01 max_match_len match_len = bnd (dict_pair probe_pos) (\<lambda>q01.
     if q01 \<noteq> s01 then ret None
     else bnd (pairs_loop pos probe_pos 1 128) (\<lambda>r. case r of
         None \<Rightarrow> ret (Some (min max_match_len TDEFL_MAX_MATCH_LEN, True))
       | Some i \<Rightarrow> bnd (probe_length pos probe_pos i) (\<lambda>probe_len.
           ret (if probe_len > match_len then Some (min max_match_len probe_len, min max_match_len probe_len = max_match_len)
                else None))))"

text \<open>
  Both loops of \<open>tdefl_find_match\<close>: \<open>n\<close> is \<open>num_probes_left\<close> and \<open>k\<close> the number of \<open>TDEFL_PROBE\<close>s before it is
  counted down; \<open>continue\<close> starts again with the count.
\<close>

function search_match :: "nat \<Rightarrow> nat \<Rightarrow> nat \<Rightarrow> nat \<Rightarrow> byte \<times> byte \<Rightarrow> byte \<times> byte \<Rightarrow> nat \<Rightarrow> nat \<Rightarrow> nat \<Rightarrow> nat \<Rightarrow> nat \<Rightarrow> (nat \<times> nat) defl" where
  "search_match lookahead_pos max_dist max_match_len pos s01 c01 match_dist match_len n 0 probe_pos =
     (if n \<le> 1 then ret (match_dist, match_len)
      else search_match lookahead_pos max_dist max_match_len pos s01 c01 match_dist match_len (n - 1) 3 probe_pos)"
| "search_match lookahead_pos max_dist max_match_len pos s01 c01 match_dist match_len n (Suc k) probe_pos =
     bnd (next_at probe_pos) (\<lambda>next_probe_pos.
       let dist = u16 (sub32 lookahead_pos next_probe_pos); probe_pos = next_probe_pos mod TDEFL_LZ_DICT_SIZE
       in if next_probe_pos = 0 \<or> dist > max_dist then ret (match_dist, match_len)
       else bnd (pair_before (probe_pos + match_len)) (\<lambda>w.
         if w \<noteq> c01
         then search_match lookahead_pos max_dist max_match_len pos s01 c01 match_dist match_len n k probe_pos
         else if dist = 0 then ret (match_dist, match_len)
         else bnd (compare_probe pos probe_pos s01 max_match_len match_len) (\<lambda>r. case r of
             None \<Rightarrow> search_match lookahead_pos max_dist max_match_len pos s01 c01 match_dist match_len n 0 probe_pos
           | Some (match_len, stop) \<Rightarrow>
               if stop then ret (dist, match_len)
               else bnd (pair_before (pos + match_len)) (\<lambda>c01.
                 search_match lookahead_pos max_dist max_match_len pos s01 c01 dist match_len n 0 probe_pos))))"
  by pat_completeness auto
termination by (relation "measures [\<lambda>(a, b, c, d, e, f, g, h, n, k, p). n, \<lambda>(a, b, c, d, e, f, g, h, n, k, p). k]") auto

declare search_match.simps [simp del]

text \<open>A count of 0 probes wraps around when it is counted down.\<close>

definition tdefl_find_match :: "nat \<Rightarrow> nat \<Rightarrow> nat \<Rightarrow> nat \<Rightarrow> nat \<Rightarrow> (nat \<times> nat) defl" where
  "tdefl_find_match lookahead_pos max_dist max_match_len match_dist match_len =
     (let pos = lookahead_pos mod TDEFL_LZ_DICT_SIZE in
      bnd (gets m_max_probes) (\<lambda>probes. bnd (elem probes (if match_len \<ge> 32 then 1 else 0)) (\<lambda>n.
      bnd (pair_before (pos + match_len)) (\<lambda>c01. bnd (dict_pair pos) (\<lambda>s01.
      seq (mz_assert (max_match_len \<le> TDEFL_MAX_MATCH_LEN))
        (if max_match_len \<le> match_len then ret (match_dist, match_len)
         else search_match lookahead_pos max_dist max_match_len pos s01 c01 match_dist match_len
           (if n = 0 then 2 ^ 32 else n) 0 pos))))))"

section \<open>Recording literals and matches\<close>

definition put_code :: "nat \<Rightarrow> unit defl" where
  "put_code x = bnd (gets m_pLZ_code_buf) (\<lambda>p. seq (in_range TDEFL_LZ_CODE_BUF_SIZE p)
     (modify (\<lambda>d. d\<lparr>m_pLZ_code_buf := p + 1, m_lz_code_buf := (m_lz_code_buf d)(p := x mod 256)\<rparr>)))"

definition shift_flags :: "nat \<Rightarrow> unit defl" where
  "shift_flags x80 = bnd (gets m_pLZ_flags) (\<lambda>p. bnd (lz_byte p) (\<lambda>x.
     modify (\<lambda>d. d\<lparr>m_lz_code_buf := (m_lz_code_buf d)(p := x div 2 OR x80)\<rparr>)))"

definition count_flag :: "unit defl" where
  "count_flag = modify (\<lambda>d.
     if sub32 (m_num_flags_left d) 1 = 0
     then d\<lparr>m_pLZ_code_buf := m_pLZ_code_buf d + 1, m_pLZ_flags := m_pLZ_code_buf d, m_num_flags_left := 8\<rparr>
     else d\<lparr>m_num_flags_left := sub32 (m_num_flags_left d) 1\<rparr>)"

definition count_symbol :: "nat \<Rightarrow> nat \<Rightarrow> unit defl" where
  "count_symbol table_num symb = bnd (gets m_huff_count) (\<lambda>counts. bnd (elem (counts ! table_num) symb) (\<lambda>k.
     modify (\<lambda>d. d\<lparr>m_huff_count := counts[table_num := (counts ! table_num)[symb := u16 (k + 1)]]\<rparr>)))"

definition add_lz_bytes :: "nat \<Rightarrow> unit defl" where
  "add_lz_bytes n = modify (\<lambda>d. d\<lparr>m_total_lz_bytes := u32 (m_total_lz_bytes d + n)\<rparr>)"

definition tdefl_record_literal :: "nat \<Rightarrow> unit defl" where
  "tdefl_record_literal lit =
     seq (add_lz_bytes 1) (seq (put_code lit) (seq (shift_flags 0) (seq count_flag (count_symbol 0 lit))))"

definition tdefl_record_match :: "nat \<Rightarrow> nat \<Rightarrow> unit defl" where
  "tdefl_record_match match_len match_dist =
     seq (mz_assert (match_len \<ge> TDEFL_MIN_MATCH_LEN \<and> match_dist \<ge> 1 \<and> match_dist \<le> TDEFL_LZ_DICT_SIZE))
     (seq (add_lz_bytes match_len)
     (seq (put_code (match_len - TDEFL_MIN_MATCH_LEN))
     (let match_dist = match_dist - 1 in
      seq (put_code match_dist)
      (seq (put_code (match_dist div 256))
      (seq (shift_flags 128)
      (seq count_flag
      (seq (count_symbol 1 (if match_dist < 512 then s_tdefl_small_dist_sym ! (match_dist mod 512)
         else s_tdefl_large_dist_sym ! (match_dist div 256 mod 128)))
      (bnd (elem s_tdefl_len_sym (match_len - TDEFL_MIN_MATCH_LEN)) (count_symbol 0)))))))))"

section \<open>Filling the dictionary\<close>

definition in_byte :: "byte defl" where
  "in_byte = bnd (gets id) (\<lambda>d. case m_pIn_buf d of None \<Rightarrow> fail Null_deref | Some bs \<Rightarrow> elem bs (m_pSrc d))"

text \<open>A byte goes into the dictionary, and into the copy of its start behind its end.\<close>

definition put_dict :: "nat \<Rightarrow> byte \<Rightarrow> unit defl" where
  "put_dict dst_pos c = seq (in_range dict_length dst_pos) (modify (\<lambda>d. d\<lparr>m_dict :=
     (let f = (m_dict d)(dst_pos := c) in if dst_pos < TDEFL_MAX_MATCH_LEN - 1 then f(TDEFL_LZ_DICT_SIZE + dst_pos := c) else f)\<rparr>))"

definition take_byte :: "unit defl" where
  "take_byte = modify (\<lambda>d. d\<lparr>m_pSrc := m_pSrc d + 1, m_src_buf_left := m_src_buf_left d - 1\<rparr>)"

definition link_hash :: "nat \<Rightarrow> nat \<Rightarrow> unit defl" where
  "link_hash ins_pos h = modify (\<lambda>d. d\<lparr>m_next := (m_next d)(ins_pos mod TDEFL_LZ_DICT_SIZE := m_hash d h),
     m_hash := (m_hash d)(h := u16 ins_pos)\<rparr>)"

fun insert_bytes :: "nat \<Rightarrow> nat \<Rightarrow> nat \<Rightarrow> nat \<Rightarrow> unit defl" where
  "insert_bytes 0 dst_pos ins_pos h = skip"
| "insert_bytes (Suc n) dst_pos ins_pos h = bnd in_byte (\<lambda>c. seq take_byte (seq (put_dict dst_pos c)
     (let h = (h * 2 ^ TDEFL_LZ_HASH_SHIFT XOR unat c) mod TDEFL_LZ_HASH_SIZE in
      seq (link_hash ins_pos h) (insert_bytes n ((dst_pos + 1) mod TDEFL_LZ_DICT_SIZE) (u32 (ins_pos + 1)) h))))"

fun first_bytes :: "nat \<Rightarrow> unit defl" where
  "first_bytes 0 = skip"
| "first_bytes (Suc n) = bnd (gets id) (\<lambda>d.
     if \<not> m_lookahead_size d < TDEFL_MAX_MATCH_LEN then skip
     else bnd in_byte (\<lambda>c. seq take_byte
       (seq (put_dict (u32 (m_lookahead_pos d + m_lookahead_size d) mod TDEFL_LZ_DICT_SIZE) c)
       (seq (modify (\<lambda>d. d\<lparr>m_lookahead_size := m_lookahead_size d + 1\<rparr>))
       (seq (when_do (m_lookahead_size d + 1 + m_dict_size d \<ge> TDEFL_MIN_MATCH_LEN)
         (let ins_pos = sub32 (m_lookahead_pos d + m_lookahead_size d) 2 in
          bnd (dict_at (ins_pos mod TDEFL_LZ_DICT_SIZE)) (\<lambda>a. bnd (dict_at (u32 (ins_pos + 1) mod TDEFL_LZ_DICT_SIZE)) (\<lambda>b.
            link_hash ins_pos ((unat a * 2 ^ (TDEFL_LZ_HASH_SHIFT * 2) XOR unat b * 2 ^ TDEFL_LZ_HASH_SHIFT XOR unat c)
              mod TDEFL_LZ_HASH_SIZE)))))
         (first_bytes n))))))"

definition fill_dictionary :: "unit defl" where
  "fill_dictionary = bnd (gets id) (\<lambda>d.
     if m_lookahead_size d + m_dict_size d \<ge> TDEFL_MIN_MATCH_LEN - 1
     then let dst_pos = u32 (m_lookahead_pos d + m_lookahead_size d) mod TDEFL_LZ_DICT_SIZE;
              ins_pos = sub32 (m_lookahead_pos d + m_lookahead_size d) 2;
              n = min (m_src_buf_left d) (sub32 TDEFL_MAX_MATCH_LEN (m_lookahead_size d))
       in bnd (dict_at (ins_pos mod TDEFL_LZ_DICT_SIZE)) (\<lambda>a. bnd (dict_at (u32 (ins_pos + 1) mod TDEFL_LZ_DICT_SIZE)) (\<lambda>b.
         seq (modify (\<lambda>d. d\<lparr>m_lookahead_size := m_lookahead_size d + n\<rparr>))
           (insert_bytes n dst_pos ins_pos (unat a * 2 ^ TDEFL_LZ_HASH_SHIFT XOR unat b))))
     else first_bytes (m_src_buf_left d))"

definition limit_dict :: "unit defl" where
  "limit_dict = modify (\<lambda>d. d\<lparr>m_dict_size := min (sub32 TDEFL_LZ_DICT_SIZE (m_lookahead_size d)) (m_dict_size d)\<rparr>)"

section \<open>The parsing loop\<close>

fun run_length :: "byte \<Rightarrow> nat \<Rightarrow> nat \<Rightarrow> nat \<Rightarrow> nat defl" where
  "run_length c cur_pos n 0 = ret n"
| "run_length c cur_pos n (Suc k) = bnd (dict_at (cur_pos + n)) (\<lambda>x. if x \<noteq> c then ret n else run_length c cur_pos (n + 1) k)"

text \<open>The distance and length of the current match.\<close>

definition current_match :: "(nat \<times> nat) defl" where
  "current_match = bnd (gets id) (\<lambda>d.
     let cur_match_len = (if m_saved_match_len d \<noteq> 0 then m_saved_match_len d else TDEFL_MIN_MATCH_LEN - 1);
         cur_pos = m_lookahead_pos d mod TDEFL_LZ_DICT_SIZE;
         raw = flag_set (m_flags d) TDEFL_FORCE_ALL_RAW_BLOCKS
     in bnd (if flag_set (m_flags d) TDEFL_RLE_MATCHES \<or> raw
         then if m_dict_size d \<noteq> 0 \<and> \<not> raw
           then bnd (dict_at (sub32 cur_pos 1 mod TDEFL_LZ_DICT_SIZE)) (\<lambda>c.
             bnd (run_length c cur_pos 0 (m_lookahead_size d)) (\<lambda>n.
               ret (if n < TDEFL_MIN_MATCH_LEN then (0, 0) else (1, n))))
           else ret (0, cur_match_len)
         else tdefl_find_match (m_lookahead_pos d) (m_dict_size d) (m_lookahead_size d) 0 cur_match_len) (\<lambda>(cur_match_dist, cur_match_len).
       ret (if (cur_match_len = TDEFL_MIN_MATCH_LEN \<and> cur_match_dist \<ge> 8 * 1024) \<or> cur_pos = cur_match_dist \<or>
              (flag_set (m_flags d) TDEFL_FILTER_MATCHES \<and> cur_match_len \<le> 5)
            then (0, 0) else (cur_match_dist, cur_match_len))))"

definition save_match :: "byte \<Rightarrow> nat \<Rightarrow> nat \<Rightarrow> unit defl" where
  "save_match lit dist n = modify (\<lambda>d. d\<lparr>m_saved_match_dist := dist, m_saved_match_len := n, m_saved_lit := unat lit\<rparr>)"

text \<open>The lazy or greedy decision; the result is \<open>len_to_move\<close>.\<close>

definition parse_step :: "nat \<Rightarrow> nat \<Rightarrow> nat defl" where
  "parse_step cur_match_dist cur_match_len = bnd (gets id) (\<lambda>d.
     let cur_pos = m_lookahead_pos d mod TDEFL_LZ_DICT_SIZE; forget = modify (\<lambda>d. d\<lparr>m_saved_match_len := 0\<rparr>) in
     if m_saved_match_len d \<noteq> 0
     then if cur_match_len > m_saved_match_len d
       then seq (tdefl_record_literal (m_saved_lit d mod 256))
         (if cur_match_len \<ge> 128
          then seq (tdefl_record_match cur_match_len cur_match_dist) (seq forget (ret cur_match_len))
          else bnd (dict_at cur_pos) (\<lambda>x. seq (save_match x cur_match_dist cur_match_len) (ret 1)))
       else seq (tdefl_record_match (m_saved_match_len d) (m_saved_match_dist d))
         (seq forget (ret (m_saved_match_len d - 1)))
     else if cur_match_dist = 0
     then bnd (dict_at (min cur_pos (dict_length - 1))) (\<lambda>x. seq (tdefl_record_literal (unat x)) (ret 1))
     else if m_greedy_parsing d \<or> flag_set (m_flags d) TDEFL_RLE_MATCHES \<or> cur_match_len \<ge> 128
     then seq (tdefl_record_match cur_match_len cur_match_dist) (ret cur_match_len)
     else bnd (dict_at (min cur_pos (dict_length - 1))) (\<lambda>x. seq (save_match x cur_match_dist cur_match_len) (ret 1)))"

definition move_lookahead :: "nat \<Rightarrow> unit defl" where
  "move_lookahead len_to_move = bnd (gets m_lookahead_size) (\<lambda>n. seq (mz_assert (n \<ge> len_to_move))
     (modify (\<lambda>d. d\<lparr>m_lookahead_pos := u32 (m_lookahead_pos d + len_to_move), m_lookahead_size := n - len_to_move,
       m_dict_size := min (m_dict_size d + len_to_move) TDEFL_LZ_DICT_SIZE\<rparr>)))"

definition time_to_flush :: "tdefl_compressor \<Rightarrow> bool" where
  "time_to_flush d \<longleftrightarrow> m_pLZ_code_buf d > TDEFL_LZ_CODE_BUF_SIZE - 8 \<or>
     (m_total_lz_bytes d > 31 * 1024 \<and>
       (u32 (m_pLZ_code_buf d * 115) div 2 ^ 7 \<ge> m_total_lz_bytes d \<or> flag_set (m_flags d) TDEFL_FORCE_ALL_RAW_BLOCKS))"

text \<open>
  \<open>pSrc\<close> and \<open>src_buf_left\<close> are the fields they are copied to and from. Every round moves the lookahead by one byte
  at least: the bytes still to come and those of the lookahead are one less.
\<close>

fun normal_loop :: "nat \<Rightarrow> (nat \<Rightarrow> bool) \<Rightarrow> bool defl" where
  "normal_loop 0 put_ok = fail Diverges"
| "normal_loop (Suc fuel) put_ok = bnd (gets id) (\<lambda>d. let flush = (m_flush d \<noteq> TDEFL_NO_FLUSH) in
     if \<not> (m_src_buf_left d \<noteq> 0 \<or> (flush \<and> m_lookahead_size d \<noteq> 0)) then ret True
     else seq fill_dictionary (seq limit_dict (bnd (gets m_lookahead_size) (\<lambda>n.
       if \<not> flush \<and> n < TDEFL_MAX_MATCH_LEN then ret True
       else bnd current_match (\<lambda>(cur_match_dist, cur_match_len).
         bnd (parse_step cur_match_dist cur_match_len) (\<lambda>len_to_move.
         seq (move_lookahead len_to_move)
         (bnd (gets time_to_flush) (\<lambda>now.
           if now then bnd (tdefl_flush_block put_ok TDEFL_NO_FLUSH) (\<lambda>n.
             if n \<noteq> 0 then ret (\<not> n < 0) else normal_loop fuel put_ok)
           else normal_loop fuel put_ok))))))))"

definition tdefl_compress_normal :: "(nat \<Rightarrow> bool) \<Rightarrow> bool defl" where
  "tdefl_compress_normal put_ok = bnd (gets id) (\<lambda>d. normal_loop (m_src_buf_left d + m_lookahead_size d + 1) put_ok)"

section \<open>The fast loop\<close>

text \<open>\<open>memcpy\<close> into the dictionary.\<close>

definition blit_dict :: "nat \<Rightarrow> byte list \<Rightarrow> unit defl" where
  "blit_dict ofs bs = (if ofs + length bs \<le> dict_length
     then modify (\<lambda>d. d\<lparr>m_dict := (\<lambda>i. if ofs \<le> i \<and> i < ofs + length bs then bs ! (i - ofs) else m_dict d i)\<rparr>)
     else fail Out_of_bounds)"

definition in_bytes :: "nat \<Rightarrow> byte list defl" where
  "in_bytes n = bnd (gets id) (\<lambda>d. case m_pIn_buf d of None \<Rightarrow> fail Null_deref
     | Some bs \<Rightarrow> if m_pSrc d + n \<le> length bs then ret (take n (drop (m_pSrc d) bs)) else fail Out_of_bounds)"

fun copy_chunks :: "nat \<Rightarrow> nat \<Rightarrow> unit defl" where
  "copy_chunks dst_pos 0 = skip"
| "copy_chunks dst_pos (Suc k) = (let n = min (TDEFL_LZ_DICT_SIZE - dst_pos) (Suc k) in
     if n = 0 then fail Diverges
     else bnd (in_bytes n) (\<lambda>bs. seq (blit_dict dst_pos bs)
       (seq (when_do (dst_pos < TDEFL_MAX_MATCH_LEN - 1)
         (blit_dict (TDEFL_LZ_DICT_SIZE + dst_pos) (take (min n (TDEFL_MAX_MATCH_LEN - 1 - dst_pos)) bs)))
       (seq (modify (\<lambda>d. d\<lparr>m_pSrc := m_pSrc d + n\<rparr>))
         (copy_chunks ((dst_pos + n) mod TDEFL_LZ_DICT_SIZE) (Suc k - n))))))"

declare copy_chunks.simps [simp del]

abbreviation (input) TDEFL_COMP_FAST_LOOKAHEAD_SIZE :: nat where "TDEFL_COMP_FAST_LOOKAHEAD_SIZE \<equiv> 4096"

definition fast_fill :: "unit defl" where
  "fast_fill = bnd (gets id) (\<lambda>d.
     let dst_pos = u32 (m_lookahead_pos d + m_lookahead_size d) mod TDEFL_LZ_DICT_SIZE;
         n = min (m_src_buf_left d) (sub32 TDEFL_COMP_FAST_LOOKAHEAD_SIZE (m_lookahead_size d))
     in seq (modify (\<lambda>d. d\<lparr>m_src_buf_left := m_src_buf_left d - n, m_lookahead_size := m_lookahead_size d + n\<rparr>))
       (copy_chunks dst_pos n))"

definition trigram_at :: "nat \<Rightarrow> nat defl" where
  "trigram_at i = bnd (dict_at i) (\<lambda>a. bnd (dict_at (i + 1)) (\<lambda>b. bnd (dict_at (i + 2)) (\<lambda>c.
     ret (unat a OR unat b * 2 ^ 8 OR unat c * 2 ^ 16))))"

definition fast_literal :: "nat \<Rightarrow> unit defl" where
  "fast_literal first_trigram = seq (put_code first_trigram) (seq (shift_flags 0) (count_symbol 0 (first_trigram mod 256)))"

definition fast_match :: "nat \<Rightarrow> nat \<Rightarrow> unit defl" where
  "fast_match cur_match_len cur_match_dist = bnd (gets m_lookahead_size) (\<lambda>n.
     seq (mz_assert (cur_match_len \<ge> TDEFL_MIN_MATCH_LEN \<and> cur_match_dist \<ge> 1 \<and> cur_match_dist \<le> TDEFL_LZ_DICT_SIZE))
     (let dist = cur_match_dist - 1 in
      seq (put_code (cur_match_len - TDEFL_MIN_MATCH_LEN))
      (seq (put_code dist)
      (seq (put_code (dist div 256))
      (seq (shift_flags 128)
      (bnd (elem s_tdefl_large_dist_sym (dist div 256)) (\<lambda>s1.
      seq (count_symbol 1 (if dist < 512 then s_tdefl_small_dist_sym ! (dist mod 512) else s1))
      (bnd (elem s_tdefl_len_sym (cur_match_len - TDEFL_MIN_MATCH_LEN)) (count_symbol 0)))))))))"

text \<open>The length of the match at the place the hash table names, 0 when there is none.\<close>

definition fast_probe :: "nat \<Rightarrow> nat \<Rightarrow> nat \<Rightarrow> nat defl" where
  "fast_probe cur_pos probe_pos cur_match_dist = bnd (pairs_loop cur_pos probe_pos 1 128) (\<lambda>r. case r of
       None \<Rightarrow> ret (if cur_match_dist \<noteq> 0 then TDEFL_MAX_MATCH_LEN else 0)
     | Some i \<Rightarrow> probe_length cur_pos probe_pos i)"

text \<open>A round of the inner loop up to the flags; the result is \<open>cur_match_len\<close>. \<open>cur_pos\<close> is the place of \<open>m_lookahead_pos\<close>.\<close>

definition fast_parse :: "nat defl" where
  "fast_parse = bnd (gets id) (\<lambda>d. let cur_pos = m_lookahead_pos d mod TDEFL_LZ_DICT_SIZE in
     bnd (dict_at (cur_pos + 3)) (\<lambda>_. bnd (trigram_at cur_pos) (\<lambda>first_trigram.
     let h = (first_trigram XOR (first_trigram div 2 ^ (24 - (TDEFL_LZ_HASH_BITS - 8)))) mod TDEFL_LEVEL1_HASH_SIZE;
         probe_pos = m_hash d h;
         cur_match_dist = u16 (sub32 (m_lookahead_pos d) probe_pos)
     in seq (modify (\<lambda>d. d\<lparr>m_hash := (m_hash d)(h := u16 (m_lookahead_pos d))\<rparr>))
     (bnd (if cur_match_dist \<le> m_dict_size d
           then bnd (trigram_at (probe_pos mod TDEFL_LZ_DICT_SIZE)) (\<lambda>t. ret (t = first_trigram)) else ret False) (\<lambda>found.
       if \<not> found then seq (fast_literal first_trigram) (ret 1)
       else bnd (fast_probe cur_pos (probe_pos mod TDEFL_LZ_DICT_SIZE) cur_match_dist) (\<lambda>cur_match_len.
         if cur_match_len < TDEFL_MIN_MATCH_LEN \<or> (cur_match_len = TDEFL_MIN_MATCH_LEN \<and> cur_match_dist \<ge> 8 * 1024)
         then seq (fast_literal first_trigram) (ret 1)
         else let cur_match_len = min cur_match_len (m_lookahead_size d) in
           seq (fast_match cur_match_len cur_match_dist) (ret cur_match_len)))))))"

text \<open>The end of a round: \<open>Some r\<close> is the return of the function after a flush that could not deliver everything.\<close>

definition fast_flush :: "(nat \<Rightarrow> bool) \<Rightarrow> bool option defl" where
  "fast_flush put_ok = bnd (gets m_pLZ_code_buf) (\<lambda>p.
     if p > TDEFL_LZ_CODE_BUF_SIZE - 8
     then bnd (tdefl_flush_block put_ok TDEFL_NO_FLUSH) (\<lambda>n. ret (if n \<noteq> 0 then Some (\<not> n < 0) else None))
     else ret None)"

text \<open>In both loops a round moves the lookahead by at least one byte.\<close>

fun fast_loop :: "nat \<Rightarrow> (nat \<Rightarrow> bool) \<Rightarrow> bool option defl" where
  "fast_loop 0 put_ok = fail Diverges"
| "fast_loop (Suc fuel) put_ok = bnd (gets m_lookahead_size) (\<lambda>n.
     if \<not> n \<ge> 4 then ret None
     else bnd fast_parse (\<lambda>cur_match_len. seq count_flag (seq (add_lz_bytes cur_match_len)
       (seq (move_lookahead cur_match_len) (bnd (fast_flush put_ok) (\<lambda>r.
         if r \<noteq> None then ret r else fast_loop fuel put_ok))))))"

fun literal_loop :: "nat \<Rightarrow> (nat \<Rightarrow> bool) \<Rightarrow> bool option defl" where
  "literal_loop 0 put_ok = fail Diverges"
| "literal_loop (Suc fuel) put_ok = bnd (gets id) (\<lambda>d.
     if m_lookahead_size d = 0 then ret None
     else bnd (dict_at (m_lookahead_pos d mod TDEFL_LZ_DICT_SIZE)) (\<lambda>lit.
       seq (tdefl_record_literal (unat lit)) (seq (move_lookahead 1) (bnd (fast_flush put_ok) (\<lambda>r.
         if r \<noteq> None then ret r else literal_loop fuel put_ok)))))"

fun fast_rounds :: "nat \<Rightarrow> (nat \<Rightarrow> bool) \<Rightarrow> bool defl" where
  "fast_rounds 0 put_ok = fail Diverges"
| "fast_rounds (Suc fuel) put_ok = bnd (gets id) (\<lambda>d. let flush = (m_flush d \<noteq> TDEFL_NO_FLUSH) in
     if \<not> (m_src_buf_left d \<noteq> 0 \<or> (flush \<and> m_lookahead_size d \<noteq> 0)) then ret True
     else seq fast_fill (seq limit_dict (bnd (gets m_lookahead_size) (\<lambda>n.
       if \<not> flush \<and> n < TDEFL_COMP_FAST_LOOKAHEAD_SIZE then ret True
       else bnd (fast_loop (n + 1) put_ok) (\<lambda>r. case r of
           Some b \<Rightarrow> ret b
         | None \<Rightarrow> bnd (gets m_lookahead_size) (\<lambda>n. bnd (literal_loop (n + 1) put_ok) (\<lambda>r. case r of
               Some b \<Rightarrow> ret b
             | None \<Rightarrow> fast_rounds fuel put_ok)))))))"

definition tdefl_compress_fast :: "(nat \<Rightarrow> bool) \<Rightarrow> bool defl" where
  "tdefl_compress_fast put_ok = bnd (gets id) (\<lambda>d. fast_rounds (m_src_buf_left d + m_lookahead_size d + 1) put_ok)"

section \<open>The calls of a client\<close>

definition tdefl_flush_output_buffer :: "tdefl_status defl" where
  "tdefl_flush_output_buffer =
     seq (modify (\<lambda>d. if m_pIn_buf_size d \<noteq> None then d\<lparr>m_pIn_buf_size := Some (m_pSrc d)\<rparr> else d))
     (seq (modify (\<lambda>d. case m_pOut_buf_size d of None \<Rightarrow> d | Some room \<Rightarrow>
       let n = min (room - length (m_pOut_buf d)) (m_output_flush_remaining d);
           out = m_pOut_buf d @ take n (drop (m_output_flush_ofs d) (m_output_buf d))
       in d\<lparr>m_output_flush_ofs := m_output_flush_ofs d + n, m_output_flush_remaining := m_output_flush_remaining d - n,
            m_pOut_buf := out, m_pOut_buf_size := Some (length out)\<rparr>))
     (gets (\<lambda>d. if m_finished d \<and> m_output_flush_remaining d = 0 then TDEFL_STATUS_DONE else TDEFL_STATUS_OKAY)))"

definition set_status :: "tdefl_status \<Rightarrow> tdefl_status defl" where
  "set_status st = seq (modify (\<lambda>d. d\<lparr>m_prev_return_status := st\<rparr>)) (ret st)"

abbreviation (input) TDEFL_MAX_PROBES_MASK :: nat where "TDEFL_MAX_PROBES_MASK \<equiv> 0xFFF"

text \<open>\<open>pOut_buf\<close> says whether the pointer is different from null.\<close>

definition bad_call :: "tdefl_compressor \<Rightarrow> byte list option \<Rightarrow> nat option \<Rightarrow> bool \<Rightarrow> nat option \<Rightarrow> tdefl_flush \<Rightarrow> bool" where
  "bad_call d pIn_buf pIn_buf_size pOut_buf pOut_buf_size flush \<longleftrightarrow>
     m_pPut_buf_func d = (pOut_buf \<or> pOut_buf_size \<noteq> None) \<or> m_prev_return_status d \<noteq> TDEFL_STATUS_OKAY \<or>
     (m_wants_to_finish d \<and> flush \<noteq> TDEFL_FINISH) \<or>
     (pIn_buf_size \<noteq> None \<and> pIn_buf_size \<noteq> Some 0 \<and> pIn_buf = None) \<or>
     (pOut_buf_size \<noteq> None \<and> pOut_buf_size \<noteq> Some 0 \<and> \<not> pOut_buf)"

definition use_fast :: "nat \<Rightarrow> bool" where
  "use_fast flags \<longleftrightarrow> flags mod 4096 = 1 \<and> flag_set flags TDEFL_GREEDY_PARSING_FLAG \<and>
     \<not> flag_set flags TDEFL_FILTER_MATCHES \<and> \<not> flag_set flags TDEFL_FORCE_ALL_RAW_BLOCKS \<and> \<not> flag_set flags TDEFL_RLE_MATCHES"

definition tdefl_compress ::
    "(nat \<Rightarrow> bool) \<Rightarrow> byte list option \<Rightarrow> nat option \<Rightarrow> bool \<Rightarrow> nat option \<Rightarrow> tdefl_flush \<Rightarrow> tdefl_status defl" where
  "tdefl_compress put_ok pIn_buf pIn_buf_size pOut_buf pOut_buf_size flush =
     seq (modify (\<lambda>d. d\<lparr>m_pIn_buf := pIn_buf, m_pIn_buf_size := pIn_buf_size, m_pOut_buf := [], m_pOut_buf_size := pOut_buf_size,
       m_pSrc := 0, m_src_buf_left := (case pIn_buf_size of None \<Rightarrow> 0 | Some n \<Rightarrow> n), m_flush := flush\<rparr>))
     (bnd (gets id) (\<lambda>d.
     if bad_call d pIn_buf pIn_buf_size pOut_buf pOut_buf_size flush
     then seq (modify (\<lambda>d. d\<lparr>m_pIn_buf_size := map_option (\<lambda>_. 0) pIn_buf_size, m_pOut_buf_size := map_option (\<lambda>_. 0) pOut_buf_size\<rparr>))
       (set_status TDEFL_STATUS_BAD_PARAM)
     else seq (modify (\<lambda>d. d\<lparr>m_wants_to_finish := m_wants_to_finish d \<or> flush = TDEFL_FINISH\<rparr>))
     (if m_output_flush_remaining d \<noteq> 0 \<or> m_finished d then bnd tdefl_flush_output_buffer set_status
      else bnd (if use_fast (m_flags d) then tdefl_compress_fast put_ok else tdefl_compress_normal put_ok) (\<lambda>ok.
      if \<not> ok then gets m_prev_return_status
      else seq (modify (\<lambda>d. case pIn_buf of None \<Rightarrow> d | Some bs \<Rightarrow>
          if flag_set (m_flags d) TDEFL_WRITE_ZLIB_HEADER \<or> flag_set (m_flags d) TDEFL_COMPUTE_ADLER32
          then d\<lparr>m_adler32 := mz_adler32 (m_adler32 d) (Some (take (m_pSrc d) bs))\<rparr> else d))
      (bnd (gets id) (\<lambda>d.
        if flush \<noteq> TDEFL_NO_FLUSH \<and> m_lookahead_size d = 0 \<and> m_src_buf_left d = 0 \<and> m_output_flush_remaining d = 0
        then bnd (tdefl_flush_block put_ok flush) (\<lambda>n.
          if n < 0 then gets m_prev_return_status
          else seq (modify (\<lambda>d. d\<lparr>m_finished := (flush = TDEFL_FINISH)\<rparr>))
            (seq (when_do (flush = TDEFL_FULL_FLUSH) (modify (\<lambda>d. d\<lparr>m_hash := (\<lambda>_. 0), m_next := (\<lambda>_. 0), m_dict_size := 0\<rparr>)))
              (bnd tdefl_flush_output_buffer set_status)))
        else bnd tdefl_flush_output_buffer set_status))))))"

definition tdefl_compress_buffer :: "(nat \<Rightarrow> bool) \<Rightarrow> byte list option \<Rightarrow> nat \<Rightarrow> tdefl_flush \<Rightarrow> tdefl_status defl" where
  "tdefl_compress_buffer put_ok pIn_buf in_buf_size flush = bnd (gets m_pPut_buf_func) (\<lambda>f. seq (mz_assert f)
     (tdefl_compress put_ok pIn_buf (Some in_buf_size) False None flush))"

text \<open>A structure of zeros.\<close>

definition empty_compressor :: tdefl_compressor where
  "empty_compressor = \<lparr>m_pPut_buf_func = False, m_flags = 0, m_max_probes = [0, 0], m_greedy_parsing = False, m_adler32 = 0,
     m_lookahead_pos = 0, m_lookahead_size = 0, m_dict_size = 0, m_pLZ_code_buf = 0, m_pLZ_flags = 0, out_bytes = [],
     m_pOutput_buf_end = 0, m_num_flags_left = 0, m_total_lz_bytes = 0, m_lz_code_buf_dict_pos = 0, m_bits_in = 0,
     m_bit_buffer = 0, m_saved_match_dist = 0, m_saved_match_len = 0, m_saved_lit = 0, m_output_flush_ofs = 0,
     m_output_flush_remaining = 0, m_finished = False, m_block_index = 0, m_wants_to_finish = False,
     m_prev_return_status = TDEFL_STATUS_OKAY, m_pIn_buf = None, m_pOut_buf = [], m_pIn_buf_size = None,
     m_pOut_buf_size = None, m_flush = TDEFL_NO_FLUSH, m_pSrc = 0, m_src_buf_left = 0, m_dict = (\<lambda>_. 0),
     m_huff_count = replicate 3 (replicate TDEFL_MAX_HUFF_SYMBOLS 0), m_huff_codes = replicate 3 (replicate TDEFL_MAX_HUFF_SYMBOLS 0),
     m_huff_code_sizes = replicate 3 (replicate TDEFL_MAX_HUFF_SYMBOLS 0), m_lz_code_buf = (\<lambda>_. 0), m_next = (\<lambda>_. 0),
     m_hash = (\<lambda>_. 0), m_output_buf = [], put_blocks_made = []\<rparr>"

definition tdefl_init :: "bool \<Rightarrow> nat \<Rightarrow> tdefl_status defl" where
  "tdefl_init pPut_buf_func flags =
     seq (modify (\<lambda>d. d\<lparr>m_pPut_buf_func := pPut_buf_func, m_flags := flags,
       m_max_probes := [1 + (flags mod 4096 + 2) div 3, 1 + (flags mod 4096 div 4 + 2) div 3],
       m_greedy_parsing := flag_set flags TDEFL_GREEDY_PARSING_FLAG,
       m_hash := (if flag_set flags TDEFL_NONDETERMINISTIC_PARSING_FLAG then m_hash d else (\<lambda>_. 0)),
       m_lookahead_pos := 0, m_lookahead_size := 0, m_dict_size := 0, m_total_lz_bytes := 0, m_lz_code_buf_dict_pos := 0,
       m_bits_in := 0, m_output_flush_ofs := 0, m_output_flush_remaining := 0, m_finished := False, m_block_index := 0,
       m_bit_buffer := 0, m_wants_to_finish := False, m_pLZ_code_buf := 1, m_pLZ_flags := 0, m_num_flags_left := 8,
       out_bytes := [], m_pOutput_buf_end := 0, m_prev_return_status := TDEFL_STATUS_OKAY, m_saved_match_dist := 0,
       m_saved_match_len := 0, m_saved_lit := 0, m_adler32 := 1, m_pIn_buf := None, m_pOut_buf := [], m_pIn_buf_size := None,
       m_pOut_buf_size := None, m_flush := TDEFL_NO_FLUSH, m_pSrc := 0, m_src_buf_left := 0,
       m_huff_count := (m_huff_count d)[0 := replicate TDEFL_MAX_HUFF_SYMBOLS_0 0,
         1 := replicate TDEFL_MAX_HUFF_SYMBOLS_1 0 @ drop TDEFL_MAX_HUFF_SYMBOLS_1 (m_huff_count d ! 1)], put_blocks_made := []\<rparr>))
     (ret TDEFL_STATUS_OKAY)"

definition tdefl_get_prev_return_status :: "tdefl_status defl" where
  "tdefl_get_prev_return_status = gets m_prev_return_status"

definition tdefl_get_adler32 :: "32 word defl" where
  "tdefl_get_adler32 = gets m_adler32"

end
