(* ===== verification/Tdefl_Memory.thy ===== *)
theory Tdefl_Memory
  imports Tdefl_Compress Miniz_Writer
begin

unbundle bit_operations_syntax

text \<open>
  The helpers around the compressor in \<open>server/include/miniz.h\<close>: flags from a level, compression to a callback, to
  a growing block and to a given one. The last section makes the compressor an instance of the parameter of the archive
  writer.
\<close>

section \<open>Flags\<close>

abbreviation (input) MZ_FILTERED :: int where "MZ_FILTERED \<equiv> 1"
abbreviation (input) MZ_HUFFMAN_ONLY :: int where "MZ_HUFFMAN_ONLY \<equiv> 2"
abbreviation (input) MZ_RLE :: int where "MZ_RLE \<equiv> 3"
abbreviation (input) MZ_FIXED :: int where "MZ_FIXED \<equiv> 4"

definition tdefl_create_comp_flags_from_zip_params :: "int \<Rightarrow> int \<Rightarrow> int \<Rightarrow> nat" where
  "tdefl_create_comp_flags_from_zip_params level window_bits strategy =
     (let comp_flags = s_tdefl_num_probes ! nat (if level \<ge> 0 then min 10 level else MZ_DEFAULT_LEVEL) OR
            (if level \<le> 3 then TDEFL_GREEDY_PARSING_FLAG else 0);
          comp_flags = (if window_bits > 0 then comp_flags OR TDEFL_WRITE_ZLIB_HEADER else comp_flags)
      in if level = 0 then comp_flags OR TDEFL_FORCE_ALL_RAW_BLOCKS
         else if strategy = MZ_FILTERED then comp_flags OR TDEFL_FILTER_MATCHES
         else if strategy = MZ_HUFFMAN_ONLY then comp_flags - comp_flags mod 4096
         else if strategy = MZ_FIXED then comp_flags OR TDEFL_FORCE_ALL_STATIC_BLOCKS
         else if strategy = MZ_RLE then comp_flags OR TDEFL_RLE_MATCHES
         else comp_flags)"

section \<open>Compression of a block in memory\<close>

text \<open>A compressor run beside the state of the process, in a new structure that holds \<open>junk\<close> before \<open>tdefl_init\<close>; its faults are faults of the process.\<close>

definition on_compressor :: "'a defl \<Rightarrow> tdefl_compressor \<Rightarrow> ('s, 'a \<times> tdefl_compressor) comp" where
  "on_compressor m d = (case m d of Inl e \<Rightarrow> fail e | Inr r \<Rightarrow> ret r)"

text \<open>The calls of the callback, until one fails.\<close>

fun feed :: "('u \<Rightarrow> byte list \<Rightarrow> ('s, bool \<times> 'u) comp) \<Rightarrow> 'u \<Rightarrow> byte list list \<Rightarrow> ('s, bool \<times> 'u) comp" where
  "feed put u [] = ret (True, u)"
| "feed put u (x # xs) = bnd (put u x) (\<lambda>(ok, u). if ok then feed put u xs else ret (False, u))"

text \<open>
  The callback sees the blocks in their order and the compressor stops at the first that is refused, so the call
  succeeds when the compressor is done with callbacks that succeed and all of them do.
\<close>

definition tdefl_compress_mem_to_output ::
    "zenv \<Rightarrow> tdefl_compressor \<Rightarrow> byte list option \<Rightarrow> nat \<Rightarrow> ('u \<Rightarrow> byte list \<Rightarrow> ('z world_scheme, bool \<times> 'u) comp) option \<Rightarrow> 'u \<Rightarrow> nat \<Rightarrow>
     ('z world_scheme, bool \<times> 'u) comp" where
  "tdefl_compress_mem_to_output E junk pBuf buf_len pPut_buf_func u flags = (case pPut_buf_func of
       None \<Rightarrow> ret (False, u)
     | Some put \<Rightarrow>
         if buf_len \<noteq> 0 \<and> pBuf = None then ret (False, u)
         else bnd (alloc E) (\<lambda>ok.
           if \<not> ok then ret (False, u)
           else bnd (on_compressor (tdefl_init True flags) junk) (\<lambda>(st, d).
             if st \<noteq> TDEFL_STATUS_OKAY then ret (False, u)
             else bnd (on_compressor (tdefl_compress_buffer (\<lambda>_. True) pBuf buf_len TDEFL_FINISH) d) (\<lambda>(st, d).
               bnd (feed put u (put_blocks_made d)) (\<lambda>(ok, u). ret (ok \<and> st = TDEFL_STATUS_DONE, u))))))"

record tdefl_output_buffer =
  ob_capacity :: nat
  ob_bytes :: "byte list"
  ob_expandable :: bool

text \<open>The capacity doubles until there is room; \<open>m_size\<close> is the length of \<open>ob_bytes\<close>.\<close>

function putter_capacity :: "nat \<Rightarrow> nat \<Rightarrow> nat" where
  "putter_capacity new_size new_capacity =
     (let new_capacity = max 128 (2 * new_capacity) in
      if new_size > new_capacity then putter_capacity new_size new_capacity else new_capacity)"
  by pat_completeness auto
termination by (relation "measure (\<lambda>(s, c). s - c)") (auto simp: Let_def)

declare putter_capacity.simps [simp del]

definition tdefl_output_buffer_putter ::
    "zenv \<Rightarrow> tdefl_output_buffer \<Rightarrow> byte list \<Rightarrow> ('z world_scheme, bool \<times> tdefl_output_buffer) comp" where
  "tdefl_output_buffer_putter E p bs =
     (let new_size = length (ob_bytes p) + length bs; put = (\<lambda>p. p\<lparr>ob_bytes := ob_bytes p @ bs\<rparr>) in
      if new_size > ob_capacity p
      then if \<not> ob_expandable p then ret (False, p)
        else bnd (alloc E) (\<lambda>ok. ret (if \<not> ok then (False, p)
          else (True, put (p\<lparr>ob_capacity := putter_capacity new_size (ob_capacity p)\<rparr>))))
      else ret (True, put p))"

definition tdefl_compress_mem_to_heap ::
    "zenv \<Rightarrow> tdefl_compressor \<Rightarrow> byte list option \<Rightarrow> nat \<Rightarrow> bool \<Rightarrow> nat \<Rightarrow> ('z world_scheme, byte list option) comp" where
  "tdefl_compress_mem_to_heap E junk pSrc_buf src_buf_len pOut_len flags =
     (if \<not> pOut_len then ret None
      else bnd (tdefl_compress_mem_to_output E junk pSrc_buf src_buf_len (Some (tdefl_output_buffer_putter E))
          \<lparr>ob_capacity = 0, ob_bytes = [], ob_expandable = True\<rparr> flags) (\<lambda>(ok, p).
        ret (if ok then Some (ob_bytes p) else None)))"

text \<open>The result of 0 bytes stands for failure as well.\<close>

definition tdefl_compress_mem_to_mem ::
    "zenv \<Rightarrow> tdefl_compressor \<Rightarrow> bool \<Rightarrow> nat \<Rightarrow> byte list option \<Rightarrow> nat \<Rightarrow> nat \<Rightarrow> ('z world_scheme, nat \<times> byte list) comp" where
  "tdefl_compress_mem_to_mem E junk pOut_buf out_buf_len pSrc_buf src_buf_len flags =
     (if \<not> pOut_buf then ret (0, [])
      else bnd (tdefl_compress_mem_to_output E junk pSrc_buf src_buf_len (Some (tdefl_output_buffer_putter E))
          \<lparr>ob_capacity = out_buf_len, ob_bytes = [], ob_expandable = False\<rparr> flags) (\<lambda>(ok, p).
        ret (if ok then length (ob_bytes p) else 0, ob_bytes p)))"

section \<open>The compressor of the archive writer\<close>

text \<open>
  Raw deflate (negative window bits) with the default strategy, as \<open>zip_entry_open\<close> and \<open>mz_zip_writer_add_mem_ex\<close> start
  it. After a refused block every later call is refused too, whatever else the structure holds.
\<close>

definition miniz_deflate :: "tdefl_compressor tdefl" where
  "miniz_deflate = \<lparr>
     c_init = (\<lambda>level. case tdefl_init True (tdefl_create_comp_flags_from_zip_params (int level) (- 15) 0) empty_compressor of
       Inl e \<Rightarrow> (TDEFL_STATUS_BAD_PARAM, empty_compressor) | Inr r \<Rightarrow> r),
     c_step = (\<lambda>d bs flush. case tdefl_compress_buffer (\<lambda>_. True) (Some bs) (length bs) flush d of
       Inl e \<Rightarrow> Inl e
     | Inr (st, t) \<Rightarrow> Inr (drop (length (put_blocks_made d)) (put_blocks_made t), st, t)),
     c_refused = (\<lambda>d. d\<lparr>m_prev_return_status := TDEFL_STATUS_PUT_BUF_FAILED\<rparr>)\<rparr>"

end
