(* ===== verification/Tdefl_Match.thy ===== *)
theory Tdefl_Match
  imports Tdefl_Compress
begin

text \<open>
  What \<open>tdefl_find_match\<close> guarantees: it stays inside the dictionary and finds real matches, or keeps the old one.
\<close>

section \<open>Reading the dictionary\<close>

lemma wp_dict_at [simp]: "wp (dict_at i) Q d \<longleftrightarrow> i < dict_length \<and> Q (m_dict d i) d"
  by (simp add: dict_at_def)

lemma wp_dict_pair [simp]: "wp (dict_pair i) Q d \<longleftrightarrow> i + 1 < dict_length \<and> Q (m_dict d i, m_dict d (i + 1)) d"
  by (auto simp: dict_pair_def)

lemma wp_pair_before [simp]:
  "wp (pair_before i) Q d \<longleftrightarrow> 0 < i \<and> i < dict_length \<and> Q (m_dict d (i - 1), m_dict d i) d"
  by (auto simp: pair_before_def)

lemma wp_next_at [simp]: "wp (next_at i) Q d \<longleftrightarrow> i < TDEFL_LZ_DICT_SIZE \<and> Q (m_next d i) d"
  by (simp add: next_at_def)

text \<open>Common bytes from two places on.\<close>

definition same_bytes :: "(nat \<Rightarrow> byte) \<Rightarrow> nat \<Rightarrow> nat \<Rightarrow> nat \<Rightarrow> bool" where
  "same_bytes f p q n \<longleftrightarrow> (\<forall>j < n. f (p + j) = f (q + j))"

lemma same_bytes_pair:
  "same_bytes f p q (2 * i) \<Longrightarrow> f (p + 2 * i) = f (q + 2 * i) \<Longrightarrow> f (p + 2 * i + 1) = f (q + 2 * i + 1) \<Longrightarrow>
   same_bytes f p q (2 * (i + 1))"
  unfolding same_bytes_def by (auto simp: less_Suc_eq numeral_2_eq_2)

lemma same_bytes_mono: "same_bytes f p q n \<Longrightarrow> m \<le> n \<Longrightarrow> same_bytes f p q m"
  by (auto simp: same_bytes_def)

lemma wp_pairs_loop:
  assumes "same_bytes (m_dict d) p q (2 * i)" and "p + 2 * (i + k) \<le> dict_length" and "q + 2 * (i + k) \<le> dict_length"
  shows "wp (pairs_loop p q i k) (\<lambda>r t. t = d \<and> (case r of
      None \<Rightarrow> same_bytes (m_dict d) p q (2 * (i + k))
    | Some j \<Rightarrow> i \<le> j \<and> j < i + k \<and> same_bytes (m_dict d) p q (2 * j))) d"
  using assms
proof (induction k arbitrary: i)
  case 0
  then show ?case by simp
next
  case (Suc k)
  let ?f = "m_dict d"
  show ?case
  proof (cases "?f (p + 2 * i) = ?f (q + 2 * i) \<and> ?f (p + 2 * i + 1) = ?f (q + 2 * i + 1)")
    case True
    then have "same_bytes ?f p q (2 * (i + 1))" using Suc.prems(1) by (intro same_bytes_pair) auto
    then have "wp (pairs_loop p q (i + 1) k) (\<lambda>r t. t = d \<and> (case r of
        None \<Rightarrow> same_bytes ?f p q (2 * (i + 1 + k))
      | Some j \<Rightarrow> i + 1 \<le> j \<and> j < i + 1 + k \<and> same_bytes ?f p q (2 * j))) d"
      using Suc.prems by (intro Suc.IH) auto
    then show ?thesis using True Suc.prems by (auto elim!: wp_mono split: option.splits)
  next
    case False
    then show ?thesis using Suc.prems by auto
  qed
qed

lemma wp_probe_length:
  assumes "same_bytes (m_dict d) p q (2 * i)" and "p + 2 * i < dict_length" and "q + 2 * i < dict_length"
  shows "wp (probe_length p q i) (\<lambda>n t. t = d \<and> 2 * i \<le> n \<and> n \<le> 2 * i + 1 \<and> same_bytes (m_dict d) p q n) d"
  using assms by (auto simp: probe_length_def same_bytes_def less_Suc_eq)

section \<open>The search\<close>

text \<open>The place \<open>dist\<close> bytes back holds the same \<open>n\<close> bytes as the lookahead.\<close>

definition real_match :: "tdefl_compressor \<Rightarrow> nat \<Rightarrow> nat \<Rightarrow> nat \<Rightarrow> bool" where
  "real_match d lookahead_pos dist n \<longleftrightarrow>
     same_bytes (m_dict d) (lookahead_pos mod TDEFL_LZ_DICT_SIZE) (sub32 lookahead_pos dist mod TDEFL_LZ_DICT_SIZE) n"

lemma probe_place: "sub32 la (u16 (sub32 la next_pos)) mod TDEFL_LZ_DICT_SIZE = next_pos mod TDEFL_LZ_DICT_SIZE"
proof -
  define x where "x = int la - int next_pos"
  have d: "(2 :: int) ^ 16 dvd 2 ^ 32" "(2 :: int) ^ 15 dvd 2 ^ 32" "(2 :: int) ^ 15 dvd 2 ^ 16" by simp_all
  have "int (u16 (sub32 la next_pos)) = x mod 2 ^ 32 mod 2 ^ 16"
    unfolding u16_def by (simp only: of_nat_mod of_nat_power of_nat_numeral int_sub32 x_def)
  also have "\<dots> = x mod 2 ^ 16" by (rule mod_mod_cancel [OF d(1)])
  finally have u: "int (u16 (sub32 la next_pos)) = x mod 2 ^ 16" .
  have "int (sub32 la (u16 (sub32 la next_pos)) mod 2 ^ 15) = (int la - x mod 2 ^ 16) mod 2 ^ 32 mod 2 ^ 15"
    by (simp only: of_nat_mod of_nat_power of_nat_numeral int_sub32 u)
  also have "\<dots> = (int la - x mod 2 ^ 16) mod 2 ^ 15" by (rule mod_mod_cancel [OF d(2)])
  also have "\<dots> = (int la - x mod 2 ^ 16 mod 2 ^ 15) mod 2 ^ 15" by (rule mod_diff_right_eq [symmetric])
  also have "\<dots> = (int la - x mod 2 ^ 15) mod 2 ^ 15" by (simp only: mod_mod_cancel [OF d(3)])
  also have "\<dots> = (int la - x) mod 2 ^ 15" by (rule mod_diff_right_eq)
  also have "\<dots> = int (next_pos mod 2 ^ 15)" by (simp add: x_def zmod_int)
  finally show ?thesis by (simp only: of_nat_eq_iff) simp
qed

lemma wp_compare_probe:
  assumes "pos < TDEFL_LZ_DICT_SIZE" and "probe_pos < TDEFL_LZ_DICT_SIZE" and "s01 = (m_dict d pos, m_dict d (pos + 1))"
    and "max_match_len \<le> TDEFL_MAX_MATCH_LEN" and "match_len < max_match_len"
  shows "wp (compare_probe pos probe_pos s01 max_match_len match_len) (\<lambda>r t. t = d \<and> (\<forall>n stop. r = Some (n, stop) \<longrightarrow>
    match_len < n \<and> n \<le> max_match_len \<and> (\<not> stop \<longrightarrow> n < max_match_len) \<and> same_bytes (m_dict d) pos probe_pos n)) d"
proof (cases "(m_dict d probe_pos, m_dict d (probe_pos + 1)) = s01")
  case True
  have "same_bytes (m_dict d) pos probe_pos (2 * 1)"
    using True assms(3) by (auto simp: same_bytes_def less_Suc_eq numeral_2_eq_2)
  then have pairs: "wp (pairs_loop pos probe_pos 1 128) (\<lambda>r t. t = d \<and> (case r of
      None \<Rightarrow> same_bytes (m_dict d) pos probe_pos (2 * (1 + 128))
    | Some i \<Rightarrow> 1 \<le> i \<and> i < 1 + 128 \<and> same_bytes (m_dict d) pos probe_pos (2 * i))) d"
    using assms by (intro wp_pairs_loop) auto
  have longer: "wp (probe_length pos probe_pos i) (\<lambda>n t. t = d \<and> same_bytes (m_dict d) pos probe_pos n) d"
    if "i < 129" "same_bytes (m_dict d) pos probe_pos (2 * i)" for i
    by (rule wp_mono [OF wp_probe_length [OF that(2)]]) (use that(1) assms in auto)
  show ?thesis
    unfolding compare_probe_def using True assms
    by (simp del: wp_bnd One_nat_def add: wp_bnd [of "dict_pair _"])
       (rule wp_bndI [OF pairs], auto split: option.splits intro!: wp_bndI [OF longer]
         intro: same_bytes_mono simp: min_def simp del: wp_bnd)
next
  case False
  then show ?thesis using assms by (simp add: compare_probe_def)
qed

text \<open>A match that the search may return: the one it was given, or a longer real one within \<open>max_dist\<close>.\<close>

definition good_match :: "tdefl_compressor \<Rightarrow> nat \<Rightarrow> nat \<Rightarrow> nat \<Rightarrow> nat \<times> nat \<Rightarrow> nat \<times> nat \<Rightarrow> bool" where
  "good_match d la max_dist max_match_len given r \<longleftrightarrow> r = given \<or>
     (case r of (dist, n) \<Rightarrow> snd given < n \<and> n \<le> max_match_len \<and> 1 \<le> dist \<and> dist \<le> max_dist \<and> real_match d la dist n)"

lemma good_match_given [simp]: "good_match d la max_dist max_match_len given given"
  by (simp add: good_match_def)

lemma wp_search_match:
  assumes pos: "pos = la mod TDEFL_LZ_DICT_SIZE" and max: "max_match_len \<le> TDEFL_MAX_MATCH_LEN"
    and s01: "s01 = (m_dict d pos, m_dict d (pos + 1))"
    and "1 \<le> match_len" and "match_len < max_match_len" and "probe_pos < TDEFL_LZ_DICT_SIZE" and "snd given \<le> match_len"
    and "good_match d la max_dist max_match_len given (match_dist, match_len)"
  shows "wp (search_match la max_dist max_match_len pos s01 c01 match_dist match_len n k probe_pos)
    (\<lambda>r t. t = d \<and> good_match d la max_dist max_match_len given r) d"
  using assms(4-)
proof (induction "4 * n + k" arbitrary: n k c01 match_dist match_len probe_pos rule: less_induct)
  case less
  let ?Q = "\<lambda>r t. t = d \<and> good_match d la max_dist max_match_len given r"
  show ?case
  proof (cases k)
    case 0
    have "1 < n \<Longrightarrow> wp (search_match la max_dist max_match_len pos s01 c01 match_dist match_len (n - 1) 3 probe_pos) ?Q d"
      using 0 by (intro less.hyps [OF _ less.prems]) auto
    then show ?thesis unfolding 0 by (subst search_match.simps) (use less.prems in auto)
  next
    case (Suc j)
    define np pp dist where "np = m_next d probe_pos" and "pp = np mod TDEFL_LZ_DICT_SIZE" and "dist = u16 (sub32 la np)"
    have pp: "pp < TDEFL_LZ_DICT_SIZE" "pos < TDEFL_LZ_DICT_SIZE" by (simp_all add: pp_def pos)
    have match: "real_match d la dist len \<longleftrightarrow> same_bytes (m_dict d) pos pp len" for len
      by (simp add: real_match_def pos dist_def pp_def probe_place)
    have more: "wp (search_match la max_dist max_match_len pos s01 c01 match_dist match_len n i pp) ?Q d" if "i \<le> j" for i
      by (rule less.hyps [OF _ less.prems(1,2) pp(1) less.prems(4,5)]) (use that in \<open>simp add: Suc\<close>)
    have probe: "wp (bnd (compare_probe pos pp s01 max_match_len match_len) (\<lambda>r. case r of
             None \<Rightarrow> search_match la max_dist max_match_len pos s01 c01 match_dist match_len n 0 pp
           | Some (len, stop) \<Rightarrow> if stop then ret (dist, len)
               else bnd (pair_before (pos + len)) (\<lambda>c. search_match la max_dist max_match_len pos s01 c dist len n 0 pp))) ?Q d"
      if d: "1 \<le> dist" "dist \<le> max_dist"
    proof (rule wp_bndI [OF wp_compare_probe [OF pp(2,1) s01 max less.prems(2)]])
      fix r t
      assume r: "t = d \<and> (\<forall>len stop. r = Some (len, stop) \<longrightarrow> match_len < len \<and> len \<le> max_match_len \<and>
        (\<not> stop \<longrightarrow> len < max_match_len) \<and> same_bytes (m_dict d) pos pp len)"
      have "wp (search_match la max_dist max_match_len pos s01 c dist len n 0 pp) ?Q d" if "r = Some (len, False)" for c len
        by (rule less.hyps) (use that r d less.prems pp match Suc in \<open>auto simp: good_match_def\<close>)
      then show "wp (case r of
             None \<Rightarrow> search_match la max_dist max_match_len pos s01 c01 match_dist match_len n 0 pp
           | Some (len, stop) \<Rightarrow> if stop then ret (dist, len)
               else bnd (pair_before (pos + len)) (\<lambda>c. search_match la max_dist max_match_len pos s01 c dist len n 0 pp)) ?Q t"
        using r d more [of 0] less.prems pp max match by (auto simp: good_match_def split: option.split)
    qed
    have "wp (next_at probe_pos) (\<lambda>r t. r = np \<and> t = d) d" using less.prems(3) by (simp add: np_def)
    then show ?thesis
      unfolding Suc search_match.simps(2)
      by (rule wp_bndI)
         (use less.prems pp max more [of j] probe in \<open>auto simp del: wp_bnd simp: Let_def pp_def [symmetric] dist_def [symmetric]
           intro!: wp_bndI [where P = "\<lambda>w t. t = d"]\<close>)
  qed
qed

section \<open>Correctness\<close>

lemma wp_find_match:
  assumes "1 \<le> match_len" and "match_len < TDEFL_MAX_MATCH_LEN" and "max_match_len \<le> TDEFL_MAX_MATCH_LEN"
    and "length (m_max_probes d) = 2"
  shows "wp (tdefl_find_match la max_dist max_match_len match_dist match_len)
    (\<lambda>r t. t = d \<and> good_match d la max_dist max_match_len (match_dist, match_len) r) d"
  using assms by (auto simp: tdefl_find_match_def Let_def intro!: wp_search_match)

text \<open>C21. On a dictionary with the bytes at the lookahead, and an old match of 1 to 257 bytes, \<open>tdefl_find_match\<close> never reads
  outside the dictionary and returns the old match, or a longer one of at most \<open>max_match_len\<close> bytes at a distance
  from 1 to \<open>max_dist\<close> where the dictionary does hold the same bytes. It changes nothing.\<close>
theorem find_match_is_real:
  assumes "1 \<le> match_len" and "match_len < TDEFL_MAX_MATCH_LEN" and "max_match_len \<le> TDEFL_MAX_MATCH_LEN"
    and "length (m_max_probes d) = 2"
  shows "\<exists>dist n. tdefl_find_match la max_dist max_match_len match_dist match_len d = Inr ((dist, n), d) \<and>
    ((dist, n) = (match_dist, match_len) \<or>
     match_len < n \<and> n \<le> max_match_len \<and> 1 \<le> dist \<and> dist \<le> max_dist \<and>
     (\<forall>j < n. m_dict d (la mod TDEFL_LZ_DICT_SIZE + j) = m_dict d (sub32 la dist mod TDEFL_LZ_DICT_SIZE + j)))"
  using wp_find_match [OF assms, of la max_dist match_dist]
  by (auto simp: wp_iff good_match_def real_match_def same_bytes_def)

theorem find_match_is_real_witness:
  "\<exists>dist n. tdefl_find_match 5 4 7 0 2 (empty_compressor\<lparr>m_max_probes := [2, 2], m_next := (\<lambda>_. 0)(5 := 4)\<rparr>) =
    Inr ((dist, n), empty_compressor\<lparr>m_max_probes := [2, 2], m_next := (\<lambda>_. 0)(5 := 4)\<rparr>) \<and> n \<le> 7"
  using find_match_is_real [of 2 7 "empty_compressor\<lparr>m_max_probes := [2, 2], m_next := (\<lambda>_. 0)(5 := 4)\<rparr>" 5 4 0]
  by fastforce

end
