(* ===== verification/Bit_Stream.thy ===== *)
theory Bit_Stream
  imports Tdefl_Block
begin

unbundle bit_operations_syntax

text \<open>
  Bits of a deflate stream, the least significant of a byte first, and what the two bit buffers of the compressor stand for.
\<close>

section \<open>Bits of a number\<close>

fun bits :: "nat \<Rightarrow> nat \<Rightarrow> bool list" where
  "bits x 0 = []"
| "bits x (Suc l) = odd x # bits (x div 2) l"

lemma length_bits [simp]: "length (bits x l) = l"
  by (induction l arbitrary: x) simp_all

lemma bits_split: "bits x (k + l) = bits x k @ bits (x div 2 ^ k) l"
  by (induction k arbitrary: x) (simp_all add: div_mult2_eq)

lemma bits_mod: "l \<le> k \<Longrightarrow> bits (x mod 2 ^ k) l = bits x l"
proof (induction l arbitrary: x k)
  case (Suc l)
  then obtain j where k: "k = Suc j" by (cases k) auto
  have "x mod 2 ^ k div 2 = x div 2 mod 2 ^ j" unfolding k by (simp add: mod_mult2_eq)
  moreover have "odd (x mod 2 ^ k) = odd x" unfolding k by (simp add: even_mod_2_iff dvd_mod_iff)
  ultimately show ?case using Suc k by simp
qed simp

lemma bits_join: "x < 2 ^ k \<Longrightarrow> bits (x + y * 2 ^ k) (k + l) = bits x k @ bits y l"
proof (induction k arbitrary: x)
  case (Suc k)
  then have "x div 2 < 2 ^ k" by simp
  moreover have "(x + y * 2 ^ Suc k) div 2 = x div 2 + y * 2 ^ k" by simp
  ultimately show ?case using Suc.IH by simp
qed simp

fun val :: "bool list \<Rightarrow> nat" where
  "val [] = 0"
| "val (b # bs) = of_bool b + 2 * val bs"

lemma val_bits: "val (bits x l) = x mod 2 ^ l"
  by (induction l arbitrary: x) (auto simp: mod_mult2_eq odd_iff_mod_2_eq_one)

lemma bits_val: "bits (val bs) (length bs) = bs"
  by (induction bs) (auto split: if_splits)

lemma val_less: "val bs < 2 ^ length bs"
  by (induction bs) auto

lemma join_less:
  fixes x y :: nat
  assumes "x < 2 ^ k" and "y < 2 ^ l"
  shows "x + y * 2 ^ k < 2 ^ (k + l)"
proof -
  have "(y + 1) * 2 ^ k \<le> 2 ^ l * 2 ^ k" using assms(2) by (intro mult_le_mono1) simp
  then show ?thesis using assms(1) by (simp add: power_add mult.commute)
qed

lemma or_shifted:
  fixes x y :: nat
  assumes "x < 2 ^ k"
  shows "x OR y * 2 ^ k = x + y * 2 ^ k"
proof -
  have "\<not> bit x n \<or> \<not> bit (push_bit k y) n" for n
  proof (cases "n < k")
    case True
    then show ?thesis by (simp add: bit_push_bit_iff)
  next
    case False
    then have "x < 2 ^ n" using assms by (meson less_le_trans not_less one_le_numeral power_increasing)
    then show ?thesis by (simp add: bit_iff_odd)
  qed
  then have "x + push_bit k y = x OR push_bit k y" by (rule disjunctive_add)
  then show ?thesis by (simp add: push_bit_eq_mult)
qed

section \<open>Bit buffers\<close>

text \<open>The bits of whole bytes, and of a buffer with \<open>k\<close> bits behind them.\<close>

definition byte_bits :: "byte list \<Rightarrow> bool list" where
  "byte_bits bs = concat (map (\<lambda>b. bits (unat b) 8) bs)"

lemma byte_bits_simps [simp]: "byte_bits [] = []" "byte_bits (b # bs) = bits (unat b) 8 @ byte_bits bs"
  "byte_bits (bs @ cs) = byte_bits bs @ byte_bits cs"
  by (simp_all add: byte_bits_def)

lemma length_byte_bits [simp]: "length (byte_bits bs) = 8 * length bs"
  by (induction bs) simp_all

lemma bits_of_nat_byte [simp]: "bits (unat (of_nat x :: byte)) 8 = bits x 8"
  using bits_mod [of 8 8 x] by (simp add: unat_of_nat)

definition stream :: "byte list \<Rightarrow> nat \<Rightarrow> nat \<Rightarrow> bool list" where
  "stream out buf k = byte_bits out @ bits buf k"

lemma length_stream [simp]: "length (stream out buf k) = 8 * length out + k"
  by (simp add: stream_def)

lemma stream_byte: "8 \<le> k \<Longrightarrow> stream (out @ [of_nat buf]) (buf div 256) (k - 8) = stream out buf k"
  using bits_split [of buf 8 "k - 8"] by (simp add: stream_def del: bits.simps)

lemma stream_put: "buf < 2 ^ k \<Longrightarrow> stream out (buf OR b * 2 ^ k) (k + l) = stream out buf k @ bits b l"
  by (simp add: stream_def or_shifted bits_join)

lemma put_bytes_stream:
  "buf < 2 ^ k \<Longrightarrow> 8 * length out + k \<le> 8 * end_ofs \<Longrightarrow> put_bytes end_ofs buf k out = (buf', k', out') \<Longrightarrow>
   k' < 8 \<and> buf' < 2 ^ k' \<and> stream out' buf' k' = stream out buf k"
proof (induction end_ofs buf k out rule: put_bytes.induct)
  case (1 end_ofs buf k out)
  show ?case
  proof (cases "8 \<le> k")
    case True
    then have "buf div 256 < 2 ^ (k - 8)"
      using "1.prems"(1) power_add [of "2 :: nat" 8 "k - 8"] by (simp add: less_mult_imp_div_less mult.commute)
    moreover have "length out < end_ofs" using True "1.prems"(2) by simp
    ultimately show ?thesis
      using True 1 put_bytes.simps [of end_ofs buf k out] stream_byte [OF True] by simp
  next
    case False
    then show ?thesis using "1.prems" put_bytes.simps [of end_ofs buf k out] by auto
  qed
qed

section \<open>The bits of the compressor\<close>

definition bstream :: "tdefl_compressor \<Rightarrow> bool list" where
  "bstream d = stream (out_bytes d) (m_bit_buffer d) (m_bits_in d)"

definition bits_ok :: "tdefl_compressor \<Rightarrow> bool" where
  "bits_ok d \<longleftrightarrow> m_bits_in d < 8 \<and> m_bit_buffer d < 2 ^ m_bits_in d"

text \<open>\<open>emits xs d t\<close>: from \<open>d\<close> to \<open>t\<close> the bits \<open>xs\<close> are written and nothing else changes.\<close>

definition emits :: "bool list \<Rightarrow> tdefl_compressor \<Rightarrow> tdefl_compressor \<Rightarrow> bool" where
  "emits xs d t \<longleftrightarrow> bits_ok t \<and> bstream t = bstream d @ xs \<and>
     t = d\<lparr>m_bit_buffer := m_bit_buffer t, m_bits_in := m_bits_in t, out_bytes := out_bytes t\<rparr>"

lemma emits_refl: "bits_ok d \<Longrightarrow> emits [] d d"
  by (simp add: emits_def)

lemma emits_trans: "emits xs d t \<Longrightarrow> emits ys t u \<Longrightarrow> emits (xs @ ys) d u"
  by (cases d; cases t; cases u) (simp add: emits_def)

lemma emits_simps:
  assumes "emits xs d t"
  shows "bits_ok t" "m_pOutput_buf_end t = m_pOutput_buf_end d" "bstream t = bstream d @ xs" "m_huff_codes t = m_huff_codes d"
    "m_huff_code_sizes t = m_huff_code_sizes d" "m_lz_code_buf t = m_lz_code_buf d" "m_pLZ_code_buf t = m_pLZ_code_buf d"
  using assms by (cases d; cases t; simp add: emits_def)+

lemma wp_PUT_BITS:
  assumes "bits_ok d" and "b < 2 ^ l" and "l \<le> 24" and "length (bstream d) + l \<le> 8 * m_pOutput_buf_end d"
  shows "wp (TDEFL_PUT_BITS b l) (\<lambda>_. emits (bits b l) d) d"
proof -
  let ?k = "m_bits_in d"
  have "b * 2 ^ ?k < 2 ^ (l + ?k)" using assms(2) by (simp add: power_add)
  also have "(2 :: nat) ^ (l + ?k) \<le> 2 ^ 32" using assms(1,3) by (intro power_increasing) (simp_all add: bits_ok_def)
  finally have u: "u32 (b * 2 ^ ?k) = b * 2 ^ ?k" by simp
  obtain buf k out where p: "put_bytes (m_pOutput_buf_end d) (m_bit_buffer d OR b * 2 ^ ?k) (?k + l) (out_bytes d) = (buf, k, out)"
    by (cases "put_bytes (m_pOutput_buf_end d) (m_bit_buffer d OR b * 2 ^ ?k) (?k + l) (out_bytes d)")
  have small: "m_bit_buffer d < 2 ^ ?k" using assms(1) by (simp add: bits_ok_def)
  then have "m_bit_buffer d OR b * 2 ^ ?k < 2 ^ (?k + l)"
    using assms(2) by (simp add: or_shifted join_less)
  with put_bytes_stream [OF this _ p] assms(4) have "k < 8 \<and> buf < 2 ^ k \<and>
      stream out buf k = stream (out_bytes d) (m_bit_buffer d OR b * 2 ^ ?k) (?k + l)"
    by (simp add: bstream_def)
  then have "emits (bits b l) d (d\<lparr>m_bit_buffer := buf, m_bits_in := k, out_bytes := out\<rparr>)"
    by (simp add: emits_def bits_ok_def bstream_def stream_put [OF small])
  then show ?thesis using assms(2) by (auto simp: TDEFL_PUT_BITS_def u p)
qed

end
