(* ===== verification/Canonical_Codes.thy ===== *)
theory Canonical_Codes
  imports Bit_Stream
begin

unbundle bit_operations_syntax

text \<open>
  The canonical Huffman code of RFC 1951, which the code lengths determine: the specification of the codes that
  \<open>tdefl_optimize_huffman_table\<close> stores. No code is a prefix of another.
\<close>

section \<open>The canonical code of a list of lengths\<close>

definition how_many :: "nat list \<Rightarrow> nat \<Rightarrow> nat" where
  "how_many sizes l = length (filter ((=) l) sizes)"

fun first_code :: "nat list \<Rightarrow> nat \<Rightarrow> nat" where
  "first_code sizes 0 = 0"
| "first_code sizes (Suc l) = (if l = 0 then 0 else 2 * (first_code sizes l + how_many sizes l))"

definition code_number :: "nat list \<Rightarrow> nat \<Rightarrow> nat" where
  "code_number sizes s = first_code sizes (sizes ! s) + how_many (take s sizes) (sizes ! s)"

text \<open>A code goes into the stream from its most significant bit.\<close>

definition code_string :: "nat list \<Rightarrow> nat \<Rightarrow> bool list" where
  "code_string sizes s = rev (bits (code_number sizes s) (sizes ! s))"

text \<open>The lengths leave room for all codes.\<close>

definition fits :: "nat \<Rightarrow> nat list \<Rightarrow> bool" where
  "fits L sizes \<longleftrightarrow> (\<forall>l \<in> set sizes. l \<le> L) \<and> (\<Sum>l = 1..L. how_many sizes l * 2 ^ (L - l)) \<le> 2 ^ L"

lemma how_many_simps [simp]: "how_many [] l = 0" "how_many (x # xs) l = (if x = l then 1 else 0) + how_many xs l"
  "how_many (xs @ ys) l = how_many xs l + how_many ys l" "how_many (replicate n x) l = (if x = l then n else 0)"
  by (auto simp: how_many_def)

lemma how_many_take_Suc: "s < length sizes \<Longrightarrow> how_many (take (Suc s) sizes) l = how_many (take s sizes) l + (if sizes ! s = l then 1 else 0)"
  by (simp add: take_Suc_conv_app_nth)

lemma how_many_take_le: "how_many (take s sizes) l \<le> how_many sizes l"
proof -
  have "how_many (take s sizes @ drop s sizes) l = how_many (take s sizes) l + how_many (drop s sizes) l"
    by (rule how_many_simps)
  then show ?thesis by simp
qed

lemma how_many_take_mono: "s \<le> t \<Longrightarrow> how_many (take s sizes) l \<le> how_many (take t sizes) l"
  using how_many_take_le [of s "take t sizes" l] by (simp add: min_def)

lemma how_many_before: "s < length sizes \<Longrightarrow> how_many (take s sizes) (sizes ! s) < how_many sizes (sizes ! s)"
  using how_many_take_le [of "Suc s" sizes "sizes ! s"] by (simp add: how_many_take_Suc)

section \<open>No code is a prefix of another\<close>

lemma first_code_sum: "1 \<le> l \<Longrightarrow> l \<le> L \<Longrightarrow> first_code sizes l * 2 ^ (L - l) = (\<Sum>k = 1..<l. how_many sizes k * 2 ^ (L - k))"
proof (induction l)
  case (Suc l)
  show ?case
  proof (cases "l = 0")
    case False
    have "L - l = Suc (L - Suc l)" using Suc.prems by simp
    then have "first_code sizes (Suc l) * 2 ^ (L - Suc l) = first_code sizes l * 2 ^ (L - l) + how_many sizes l * 2 ^ (L - l)"
      using False by (simp add: algebra_simps)
    then show ?thesis using Suc False by simp
  qed simp
qed simp

lemma first_code_room:
  assumes "fits L sizes" and "1 \<le> l" and "l \<le> L"
  shows "first_code sizes l + how_many sizes l \<le> 2 ^ l"
proof -
  have "(first_code sizes l + how_many sizes l) * 2 ^ (L - l) = (\<Sum>k = 1..l. how_many sizes k * 2 ^ (L - k))"
    using assms(2,3) first_code_sum [OF assms(2,3)]
    by (simp add: add_mult_distrib atLeastLessThanSuc_atLeastAtMost [symmetric])
  also have "\<dots> \<le> (\<Sum>k = 1..L. how_many sizes k * 2 ^ (L - k))"
    using assms(3) by (intro sum_mono2) auto
  also have "\<dots> \<le> 2 ^ l * 2 ^ (L - l)" using assms by (simp add: fits_def flip: power_add)
  finally show ?thesis by simp
qed

lemma code_number_less:
  assumes "fits L sizes" and "s < length sizes" and "sizes ! s \<noteq> 0"
  shows "code_number sizes s < first_code sizes (sizes ! s) + how_many sizes (sizes ! s)" "code_number sizes s < 2 ^ (sizes ! s)"
proof -
  show a: "code_number sizes s < first_code sizes (sizes ! s) + how_many sizes (sizes ! s)"
    using how_many_before [OF assms(2)] by (simp add: code_number_def)
  have "sizes ! s \<le> L" using assms(1,2) by (simp add: fits_def)
  then show "code_number sizes s < 2 ^ (sizes ! s)"
    using a first_code_room [OF assms(1), of "sizes ! s"] assms(3) by linarith
qed

lemma first_code_later: "1 \<le> k \<Longrightarrow> (first_code sizes k + how_many sizes k) * 2 ^ Suc n \<le> first_code sizes (k + Suc n)"
  by (induction n) (auto simp: algebra_simps)

lemma code_numbers_differ:
  assumes "s < t" and "t < length sizes" and "sizes ! s = sizes ! t"
  shows "code_number sizes s \<noteq> code_number sizes t"
proof -
  have "how_many (take s sizes) (sizes ! s) < how_many (take (Suc s) sizes) (sizes ! s)" using assms by (simp add: how_many_take_Suc)
  also have "\<dots> \<le> how_many (take t sizes) (sizes ! s)" using assms by (intro how_many_take_mono) simp
  finally show ?thesis using assms by (simp add: code_number_def)
qed

lemma bits_inj: "x < 2 ^ k \<Longrightarrow> y < 2 ^ k \<Longrightarrow> bits x k = bits y k \<Longrightarrow> x = y"
  by (metis val_bits mod_less)

lemma code_string_start: "l \<le> sizes ! t \<Longrightarrow> take l (code_string sizes t) = rev (bits (code_number sizes t div 2 ^ (sizes ! t - l)) l)"
proof -
  assume l: "l \<le> sizes ! t"
  then have "bits (code_number sizes t) (sizes ! t) = bits (code_number sizes t) (sizes ! t - l) @
      bits (code_number sizes t div 2 ^ (sizes ! t - l)) l"
    using bits_split [of "code_number sizes t" "sizes ! t - l" l] by (simp only: le_add_diff_inverse2)
  then show ?thesis using l by (simp add: code_string_def take_rev)
qed

theorem codes_prefix_free:
  assumes "fits L sizes" and "s < length sizes" and "t < length sizes" and "sizes ! s \<noteq> 0" and "sizes ! s \<le> sizes ! t"
    and "take (sizes ! s) (code_string sizes t) = code_string sizes s"
  shows "s = t"
proof -
  let ?n = "sizes ! t - sizes ! s"
  have "bits (code_number sizes t div 2 ^ ?n) (sizes ! s) = bits (code_number sizes s) (sizes ! s)"
    using assms(6) code_string_start [OF assms(5)] by (simp add: code_string_def)
  moreover have "code_number sizes t div 2 ^ ?n < 2 ^ (sizes ! s)"
    using code_number_less(2) [OF assms(1,3)] assms(4,5) by (simp add: less_mult_imp_div_less flip: power_add)
  ultimately have eq: "code_number sizes t div 2 ^ ?n = code_number sizes s"
    using code_number_less(2) [OF assms(1,2,4)] bits_inj by blast
  show ?thesis
  proof (cases "?n")
    case 0
    then have "sizes ! s = sizes ! t" using assms(5) by simp
    then show ?thesis using eq assms(2,3) code_numbers_differ [of s t sizes] code_numbers_differ [of t s sizes]
      by (cases s t rule: linorder_cases) auto
  next
    case (Suc n)
    have t: "sizes ! t = sizes ! s + Suc n" using Suc by simp
    have "(first_code sizes (sizes ! s) + how_many sizes (sizes ! s)) * 2 ^ ?n \<le> code_number sizes t"
      using first_code_later [of "sizes ! s" sizes n] assms(4) unfolding Suc t [symmetric] by (simp add: code_number_def)
    then have "first_code sizes (sizes ! s) + how_many sizes (sizes ! s) \<le> code_number sizes s"
      using eq by (metis div_le_mono nonzero_mult_div_cancel_right power_not_zero zero_neq_numeral)
    then show ?thesis using code_number_less(1) [OF assms(1,2,4)] by simp
  qed
qed

section \<open>The codes of the compressor\<close>

lemma reverse_code_bits:
  "r < 2 ^ k \<Longrightarrow> k + l \<le> 31 \<Longrightarrow> reverse_code l c r < 2 ^ (k + l) \<and> bits (reverse_code l c r) (l + k) = rev (bits c l) @ bits r k"
proof (induction l arbitrary: c r k)
  case (Suc l)
  have small: "2 * r < 2 ^ Suc k" using Suc.prems(1) by simp
  moreover have "(2 :: nat) ^ Suc k \<le> 2 ^ 32" using Suc.prems(2) by (intro power_increasing) simp_all
  ultimately have u: "u32 (r * 2) = r * 2" by simp
  have "c mod 2 OR r * 2 ^ 1 = c mod 2 + r * 2 ^ 1" by (rule or_shifted) simp
  then have or: "u32 (r * 2) OR c mod 2 = c mod 2 + 2 * r" by (simp add: u or.commute)
  have less: "c mod 2 + 2 * r < 2 ^ Suc k" using Suc.prems(1) mod_less_divisor [of 2 c] unfolding power_Suc by linarith
  have "odd (c mod 2 + 2 * r) = odd c" "(c mod 2 + 2 * r) div 2 = r" by auto
  then have "bits (c mod 2 + 2 * r) (Suc k) = odd c # bits r k" by simp
  then show ?case using Suc.IH [of "c mod 2 + 2 * r" "Suc k" "c div 2"] Suc.prems(2) less or by simp
qed simp

lemma reverse_code:
  assumes "l \<le> 16"
  shows "u16 (reverse_code l c 0) < 2 ^ l" "bits (u16 (reverse_code l c 0)) l = rev (bits c l)"
proof -
  have r: "reverse_code l c 0 < 2 ^ l" "bits (reverse_code l c 0) l = rev (bits c l)"
    using reverse_code_bits [of 0 0 l c] assms by simp_all
  have "(2 :: nat) ^ l \<le> 2 ^ 16" using assms by (intro power_increasing) simp_all
  with r(1) have "u16 (reverse_code l c 0) = reverse_code l c 0" by simp
  with r show "u16 (reverse_code l c 0) < 2 ^ l" "bits (u16 (reverse_code l c 0)) l = rev (bits c l)" by simp_all
qed

text \<open>The codes in \<open>codes\<close> are those that the lengths determine.\<close>

definition canonical :: "nat list \<Rightarrow> nat list \<Rightarrow> bool" where
  "canonical sizes codes \<longleftrightarrow> length sizes \<le> length codes \<and> (\<forall>s < length sizes. sizes ! s \<noteq> 0 \<longrightarrow>
     codes ! s < 2 ^ (sizes ! s) \<and> bits (codes ! s) (sizes ! s) = code_string sizes s)"

definition counts_sizes :: "int list \<Rightarrow> nat list \<Rightarrow> nat \<Rightarrow> bool" where
  "counts_sizes num_codes sizes L \<longleftrightarrow> (\<forall>l. 1 \<le> l \<longrightarrow> l \<le> L \<longrightarrow> num_codes ! l = int (how_many sizes l))"

lemma wp_count_codes:
  "\<forall>k \<in> set ks. k < length num_codes \<Longrightarrow> wp (count_codes ks num_codes) (\<lambda>r t. t = s \<and> length r = length num_codes \<and>
     (\<forall>l < length r. r ! l = num_codes ! l + int (how_many ks l))) s"
proof (induction ks arbitrary: num_codes)
  case (Cons k ks)
  have "wp (count_codes ks (num_codes[k := num_codes ! k + 1])) (\<lambda>r t. t = s \<and> length r = length num_codes \<and>
      (\<forall>l < length r. r ! l = num_codes ! l + int (how_many (k # ks) l))) s"
    using Cons.prems by (intro wp_mono [OF Cons.IH [of "num_codes[k := num_codes ! k + 1]"]]) (auto simp: nth_list_update)
  then show ?case using Cons.prems by simp
qed simp

lemma next_codes_first:
  assumes "counts_sizes num_codes sizes L"
  shows "next_codes num_codes L l = (if 1 \<le> l \<and> l \<le> L then first_code sizes l mod 2 ^ 32 else 0)"
proof -
  define step where "step = (\<lambda>i (next_code :: nat \<Rightarrow> nat, j). let j = (j + num_codes ! (i - 1)) * 2 in (next_code(i := nat (j mod 2 ^ 32)), j))"
  have "n < L \<Longrightarrow> snd (fold step [2..<n + 2] ((\<lambda>_. 0), 0)) = int (first_code sizes (n + 1)) \<and>
    (\<forall>i. fst (fold step [2..<n + 2] ((\<lambda>_. 0), 0)) i = (if 1 \<le> i \<and> i \<le> n + 1 then first_code sizes i mod 2 ^ 32 else 0))" for n
  proof (induction n)
    case (Suc n)
    have u: "[2..<Suc n + 2] = [2..<n + 2] @ [n + 2]" by simp
    have c: "num_codes ! (n + 1) = int (how_many sizes (n + 1))" using assms(1) Suc.prems by (simp add: counts_sizes_def)
    obtain f j where fj: "fold step [2..<n + 2] ((\<lambda>_. 0), 0) = (f, j)" by fastforce
    have f: "j = int (first_code sizes (n + 1))" "f i = (if 1 \<le> i \<and> i \<le> n + 1 then first_code sizes i mod 2 ^ 32 else 0)" for i
      using Suc fj by simp_all
    have e: "first_code sizes (n + 2) = 2 * (first_code sizes (n + 1) + how_many sizes (n + 1))" by simp
    have "(j + num_codes ! (n + 1)) * 2 = int (first_code sizes (n + 2))" unfolding f(1) c e by simp
    then have st: "fold step [2..<Suc n + 2] ((\<lambda>_. 0), 0) = (f(n + 2 := first_code sizes (n + 2) mod 2 ^ 32), int (first_code sizes (n + 2)))"
      unfolding u fold_append comp_apply fj by (simp add: step_def nat_mod_distrib del: first_code.simps)
    have "Suc n + 1 = n + 2" by simp
    then show ?case unfolding st fst_conv snd_conv using f(2) by (auto simp del: first_code.simps)
  qed auto
  note all = this
  show ?thesis
  proof (cases L)
    case (Suc n)
    then show ?thesis using all [of n] by (simp add: next_codes_def step_def)
  qed (simp add: next_codes_def)
qed

lemma length_give_codes [simp]: "length (give_codes ss olds f) = length olds"
  by (induction ss olds f rule: give_codes.induct) (auto simp: fun_upd_def)

lemma give_codes_nth:
  "length ss \<le> length olds \<Longrightarrow> (\<And>l. l \<noteq> 0 \<Longrightarrow> f l + how_many ss l < 2 ^ 32) \<Longrightarrow> i < length ss \<Longrightarrow> ss ! i \<noteq> 0 \<Longrightarrow>
   give_codes ss olds f ! i = u16 (reverse_code (ss ! i) (f (ss ! i) + how_many (take i ss) (ss ! i)) 0)"
proof (induction ss olds f arbitrary: i rule: give_codes.induct)
  case (1 k ss old olds f)
  let ?f = "if k = 0 then f else f(k := f k + 1)"
  have u: "u32 (f k + 1) = f k + 1" if "k \<noteq> 0" using "1.prems"(2) [OF that] by simp
  have f: "?f l + how_many ss l < 2 ^ 32" if "l \<noteq> 0" for l using "1.prems"(2) [OF that] that by auto
  show ?case
  proof (cases i)
    case 0
    then show ?thesis using "1.prems"(4) by simp
  next
    case (Suc j)
    have ih: "give_codes ss olds ?f ! j = u16 (reverse_code (ss ! j) (?f (ss ! j) + how_many (take j ss) (ss ! j)) 0)"
    proof (cases "k = 0")
      case True
      then show ?thesis using "1.IH"(1) [of j] "1.prems" f Suc by simp
    next
      case False
      then have "f(k := u32 (f k + 1)) = ?f" using u by simp
      then show ?thesis using "1.IH"(2) [of j] "1.prems" f Suc False by (simp add: fun_upd_def)
    qed
    then show ?thesis using Suc "1.prems"(4) u by auto
  qed
qed auto

lemma give_codes_canonical:
  assumes "fits L sizes" and "L \<le> 15" and "counts_sizes num_codes sizes L" and "length sizes \<le> length olds"
  shows "canonical sizes (give_codes sizes olds (next_codes num_codes L))"
  unfolding canonical_def
proof (intro conjI allI impI)
  show "length sizes \<le> length (give_codes sizes olds (next_codes num_codes L))" using assms(4) by simp
  fix s assume s: "s < length sizes" "sizes ! s \<noteq> 0"
  have sL: "sizes ! s \<le> L" using assms(1) s(1) by (simp add: fits_def)
  have nc: "next_codes num_codes L l = first_code sizes l" if "1 \<le> l" "l \<le> L" for l
  proof -
    have "first_code sizes l \<le> 2 ^ l" using first_code_room [OF assms(1) that] by simp
    also have "(2 :: nat) ^ l < 2 ^ 32" using that assms(2) by (intro power_strict_increasing) simp_all
    finally show ?thesis using next_codes_first [OF assms(3), of l] that by simp
  qed
  have room: "next_codes num_codes L l + how_many sizes l < 2 ^ 32" if "l \<noteq> 0" for l
  proof (cases "l \<le> L")
    case True
    have "first_code sizes l + how_many sizes l \<le> 2 ^ l" using first_code_room [OF assms(1) _ True] that by simp
    also have "(2 :: nat) ^ l < 2 ^ 32" using True assms(2) by (intro power_strict_increasing) simp_all
    finally show ?thesis using nc [of l] True that by simp
  next
    case False
    then have "how_many sizes l = 0" using assms(1) by (auto simp: how_many_def fits_def filter_empty_conv)
    then show ?thesis using next_codes_first [OF assms(3), of l] False by simp
  qed
  have "give_codes sizes olds (next_codes num_codes L) ! s = u16 (reverse_code (sizes ! s) (code_number sizes s) 0)"
    using give_codes_nth [OF assms(4) room s] nc [of "sizes ! s"] sL s by (simp add: code_number_def)
  with reverse_code [of "sizes ! s" "code_number sizes s"] sL assms(2)
  show "give_codes sizes olds (next_codes num_codes L) ! s < 2 ^ (sizes ! s)"
    "bits (give_codes sizes olds (next_codes num_codes L) ! s) (sizes ! s) = code_string sizes s"
    by (simp_all add: code_string_def)
qed

theorem static_table_is_canonical:
  assumes "fits 15 (take n sizes)" and "n \<le> length sizes" and "n \<le> length codes"
  shows "wp (optimize_table counts sizes codes n 15 True) (\<lambda>(sizes', codes') t. t = s \<and> sizes' = sizes \<and>
    length codes' = length codes \<and> canonical (take n sizes) codes') s"
proof -
  let ?sizes = "take n sizes"
  have "\<forall>k \<in> set ?sizes. k < length (replicate (TDEFL_MAX_SUPPORTED_HUFF_CODESIZE + 1) (0 :: int))"
    using assms(1) by (auto simp: fits_def)
  note count = wp_count_codes [OF this, of s]
  have "canonical ?sizes (give_codes ?sizes codes (next_codes num_codes 15))"
    if "length num_codes = 33" "\<forall>l < length num_codes. num_codes ! l = int (how_many ?sizes l)" for num_codes
    using that assms by (intro give_codes_canonical) (auto simp: counts_sizes_def)
  then have "wp (count_codes ?sizes (replicate (TDEFL_MAX_SUPPORTED_HUFF_CODESIZE + 1) 0)) (\<lambda>num_codes t. t = s \<and>
      canonical ?sizes (give_codes ?sizes codes (next_codes num_codes 15))) s"
    by (intro wp_mono [OF count]) simp
  then show ?thesis by (simp add: optimize_table_def)
qed

end
