(* ===== verification/Deflate_Spec.thy ===== *)
theory Deflate_Spec
  imports Canonical_Codes
begin

text \<open>
  What the bits of a deflate block mean, after RFC 1951: the decoder that the compressor is compared with. It knows the code
  lengths only. Tables of base values and extra bits are those of the decompressor of \<open>server/include/miniz.h\<close>.
\<close>

section \<open>Literals and matches\<close>

text \<open>\<open>Match m d\<close> has the length \<open>m + 3\<close> and the distance \<open>d + 1\<close>, as the compressor stores them.\<close>

datatype lz_code = Literal nat | Match nat nat

fun code_ok :: "lz_code \<Rightarrow> bool" where
  "code_ok (Literal x) = (x < 256)"
| "code_ok (Match m d) = (m < 256 \<and> d < TDEFL_LZ_DICT_SIZE)"

section \<open>The decoder\<close>

lemma length_code_string [simp]: "length (code_string sizes s) = sizes ! s"
  by (simp add: code_string_def)

definition decode_symbol :: "nat list \<Rightarrow> bool list \<Rightarrow> (nat \<times> bool list) option" where
  "decode_symbol sizes xs = map_option (\<lambda>s. (s, drop (sizes ! s) xs))
     (List.find (\<lambda>s. sizes ! s \<noteq> 0 \<and> take (sizes ! s) xs = code_string sizes s) [0..<length sizes])"

definition decode_number :: "nat \<Rightarrow> bool list \<Rightarrow> (nat \<times> bool list) option" where
  "decode_number n xs = (if length xs < n then None else Some (val (take n xs), drop n xs))"

definition decode_match :: "nat list \<Rightarrow> nat \<Rightarrow> bool list \<Rightarrow> (lz_code \<times> bool list) option" where
  "decode_match dist symb xs =
     (if 286 \<le> symb then None
      else case decode_number (s_length_extra ! (symb - 257)) xs of None \<Rightarrow> None | Some (e, xs) \<Rightarrow>
        case decode_symbol dist xs of None \<Rightarrow> None | Some (d, xs) \<Rightarrow>
          if 30 \<le> d then None
          else map_option (\<lambda>(e', xs). (Match (length_of symb e - 3) (dist_of d e' - 1), xs))
            (decode_number (s_dist_extra ! d) xs))"

lemma decode_symbol_shorter: "decode_symbol sizes xs = Some (s, ys) \<Longrightarrow> length ys < length xs"
proof -
  assume "decode_symbol sizes xs = Some (s, ys)"
  then have s: "sizes ! s \<noteq> 0" "take (sizes ! s) xs = code_string sizes s" "ys = drop (sizes ! s) xs"
    by (auto simp: decode_symbol_def find_Some_iff)
  have "length (take (sizes ! s) xs) = sizes ! s" unfolding s(2) by simp
  then have "xs \<noteq> []" using s(1) by auto
  with s(1,3) show ?thesis by (cases xs) auto
qed

lemma decode_number_shorter: "decode_number n xs = Some (e, ys) \<Longrightarrow> length ys \<le> length xs"
  by (auto simp: decode_number_def split: if_splits)

lemma decode_match_shorter: "decode_match dist symb xs = Some (c, ys) \<Longrightarrow> length ys \<le> length xs"
  by (auto simp: decode_match_def split: if_splits option.splits dest!: decode_number_shorter decode_symbol_shorter)

text \<open>The codes up to the end of the block, and the bits behind it.\<close>

function decode_codes :: "nat list \<Rightarrow> nat list \<Rightarrow> bool list \<Rightarrow> (lz_code list \<times> bool list) option" where
  "decode_codes lit dist xs = (case decode_symbol lit xs of None \<Rightarrow> None | Some (symb, ys) \<Rightarrow>
     if symb = 256 then Some ([], ys)
     else if symb < 256 then map_option (apfst ((#) (Literal symb))) (decode_codes lit dist ys)
     else case decode_match dist symb ys of None \<Rightarrow> None | Some (c, zs) \<Rightarrow>
       map_option (apfst ((#) c)) (decode_codes lit dist zs))"
  by pat_completeness auto
termination
  by (relation "measure (\<lambda>(lit, dist, xs). length xs)")
    (auto dest!: decode_symbol_shorter decode_match_shorter)

declare decode_codes.simps [simp del]

section \<open>Decoding what has been encoded\<close>

text \<open>The bits of a code under the lengths \<open>lit\<close> and \<open>dist\<close>.\<close>

fun encode :: "nat list \<Rightarrow> nat list \<Rightarrow> lz_code \<Rightarrow> bool list" where
  "encode lit dist (Literal x) = code_string lit x"
| "encode lit dist (Match m d) =
     code_string lit (s_tdefl_len_sym ! m) @ bits m (s_tdefl_len_extra ! m) @
     code_string dist (dist_sym d) @ bits d (dist_extra d)"

definition encode_all :: "nat list \<Rightarrow> nat list \<Rightarrow> lz_code list \<Rightarrow> bool list" where
  "encode_all lit dist cs = concat (map (encode lit dist) cs) @ code_string lit 256"

text \<open>The lengths are complete enough, and the symbols of a code have codes.\<close>

definition lengths_ok :: "nat list \<Rightarrow> nat list \<Rightarrow> bool" where
  "lengths_ok lit dist \<longleftrightarrow> fits 15 lit \<and> fits 15 dist \<and> 286 \<le> length lit \<and> 30 \<le> length dist"

fun coded :: "nat list \<Rightarrow> nat list \<Rightarrow> lz_code \<Rightarrow> bool" where
  "coded lit dist (Literal x) = (lit ! x \<noteq> 0)"
| "coded lit dist (Match m d) = (lit ! (s_tdefl_len_sym ! m) \<noteq> 0 \<and> dist ! dist_sym d \<noteq> 0)"

lemma decode_code_string:
  assumes "fits L sizes" and "s < length sizes" and "sizes ! s \<noteq> 0"
  shows "decode_symbol sizes (code_string sizes s @ ys) = Some (s, ys)"
proof -
  let ?P = "\<lambda>t. sizes ! t \<noteq> 0 \<and> take (sizes ! t) (code_string sizes s @ ys) = code_string sizes t"
  have only: "t = s" if "t < length sizes" "?P t" for t
  proof (cases "sizes ! t \<le> sizes ! s")
    case True
    then show ?thesis using codes_prefix_free [OF assms(1) that(1) assms(2)] that(2) by simp
  next
    case False
    then have "take (sizes ! s) (code_string sizes t) = code_string sizes s"
      using arg_cong [OF conjunct2 [OF that(2)], where f = "take (sizes ! s)"] by (simp add: min_def)
    then show ?thesis using codes_prefix_free [OF assms(1,2) that(1) assms(3)] False by simp
  qed
  have before: "\<not> ?P j" if "j < s" for j
  proof
    assume "?P j"
    then have "j = s" using only [of j] that assms(2) by simp
    with that show False by simp
  qed
  have "List.find ?P [0..<length sizes] = Some s"
    unfolding find_Some_iff
  proof (intro exI [of _ s] conjI allI impI)
    show "\<not> ?P ([0..<length sizes] ! j)" if "j < s" for j using before [OF that] that assms(2) by simp
  qed (use assms(2,3) in simp_all)
  then show ?thesis by (simp add: decode_symbol_def)
qed

lemma decode_bits: "decode_number n (bits x n @ ys) = Some (x mod 2 ^ n, ys)"
  by (simp add: decode_number_def val_bits)

lemma decode_encoded_match:
  assumes "lengths_ok lit dist" and "code_ok (Match m d)" and "dist ! dist_sym d \<noteq> 0"
  shows "decode_match dist (s_tdefl_len_sym ! m)
    (bits m (s_tdefl_len_extra ! m) @ code_string dist (dist_sym d) @ bits d (dist_extra d) @ ys) = Some (Match m d, ys)"
proof -
  have md: "m < 256" "d < TDEFL_LZ_DICT_SIZE" using assms(2) by simp_all
  note len = len_code [OF md(1)] and dst = dist_code [OF md(2)]
  have "decode_symbol dist (code_string dist (dist_sym d) @ bits d (dist_extra d) @ ys) = Some (dist_sym d, bits d (dist_extra d) @ ys)"
    using assms dst by (intro decode_code_string [where L = 15]) (auto simp: lengths_ok_def)
  moreover have "decode_number (s_length_extra ! (s_tdefl_len_sym ! m - 257)) (bits m (s_tdefl_len_extra ! m) @ zs) =
      Some (m mod 2 ^ (s_tdefl_len_extra ! m), zs)" for zs
    unfolding len(3) [symmetric] by (rule decode_bits)
  moreover have "decode_number (s_dist_extra ! dist_sym d) (bits d (dist_extra d) @ zs) = Some (d mod 2 ^ dist_extra d, zs)" for zs
    unfolding dst(2) [symmetric] by (rule decode_bits)
  ultimately show ?thesis
    using len(2) dst(1) len(5) dst(4) by (simp add: decode_match_def)
qed

lemma decode_encoded:
  assumes "lengths_ok lit dist" and "code_ok c" and "coded lit dist c"
  shows "decode_codes lit dist (encode lit dist c @ ys) = map_option (apfst ((#) c)) (decode_codes lit dist ys)"
proof (cases c)
  case (Literal x)
  then have "decode_symbol lit (encode lit dist c @ ys) = Some (x, ys)"
    using assms by (auto simp: lengths_ok_def intro: decode_code_string)
  then show ?thesis using assms(2) Literal by (subst decode_codes.simps) simp
next
  case (Match m d)
  then have md: "m < 256" using assms(2) by simp
  have "decode_symbol lit (encode lit dist c @ ys) = Some (s_tdefl_len_sym ! m,
      bits m (s_tdefl_len_extra ! m) @ code_string dist (dist_sym d) @ bits d (dist_extra d) @ ys)"
    using assms Match len_code [OF md] by (auto simp: lengths_ok_def intro: decode_code_string)
  moreover have "s_tdefl_len_sym ! m \<noteq> 256" "\<not> s_tdefl_len_sym ! m < 256" using len_code [OF md] by simp_all
  ultimately show ?thesis
    using decode_encoded_match [OF assms(1), of m d ys] assms(2,3) Match by (subst decode_codes.simps) simp
qed

theorem decode_encode_all:
  assumes "lengths_ok lit dist" and "lit ! 256 \<noteq> 0" and "\<forall>c \<in> set cs. code_ok c \<and> coded lit dist c"
  shows "decode_codes lit dist (encode_all lit dist cs @ ys) = Some (cs, ys)"
  using assms(3)
proof (induction cs)
  case Nil
  have "decode_symbol lit (code_string lit 256 @ ys) = Some (256, ys)"
    using assms(1,2) by (auto simp: lengths_ok_def intro: decode_code_string)
  then show ?case by (subst decode_codes.simps) (simp add: encode_all_def)
next
  case (Cons c cs)
  then show ?case
    using decode_encoded [OF assms(1), of c "encode_all lit dist cs @ ys"] by (simp add: encode_all_def)
qed

end
