(* ===== verification/Tdefl_Codes.thy ===== *)
theory Tdefl_Codes
  imports Deflate_Spec
begin

unbundle bit_operations_syntax

text \<open>
  The LZ codes of a block: literals and matches as values, their layout in \<open>m_lz_code_buf\<close>, and the bits that
  \<open>tdefl_compress_lz_codes\<close> makes of them.
\<close>

section \<open>The layout of the codes\<close>

fun code_bytes :: "lz_code \<Rightarrow> nat list" where
  "code_bytes (Literal x) = [x]"
| "code_bytes (Match m d) = [m, d mod 256, d div 256]"

fun is_match :: "lz_code \<Rightarrow> bool" where
  "is_match (Literal x) = False"
| "is_match (Match m d) = True"

fun flag_byte :: "lz_code list \<Rightarrow> nat" where
  "flag_byte [] = 0"
| "flag_byte (c # cs) = of_bool (is_match c) + 2 * flag_byte cs"

definition codes_bytes :: "lz_code list \<Rightarrow> nat list" where
  "codes_bytes cs = concat (map code_bytes cs)"

text \<open>Up to eight codes stand behind the byte with their flags.\<close>

function lz_bytes :: "lz_code list \<Rightarrow> nat list" where
  "lz_bytes cs = (if cs = [] then [] else flag_byte (take 8 cs) # codes_bytes (take 8 cs) @ lz_bytes (drop 8 cs))"
  by pat_completeness auto
termination by (relation "measure length") auto

declare lz_bytes.simps [simp del]

lemma lz_bytes_Nil [simp]: "lz_bytes [] = []"
  by (simp add: lz_bytes.simps)

lemma codes_bytes_simps [simp]: "codes_bytes [] = []" "codes_bytes (c # cs) = code_bytes c @ codes_bytes cs"
  "codes_bytes (cs @ ds) = codes_bytes cs @ codes_bytes ds"
  by (simp_all add: codes_bytes_def)

lemma lz_bytes_append: "length xs mod 8 = 0 \<Longrightarrow> lz_bytes (xs @ ys) = lz_bytes xs @ lz_bytes ys"
proof (induction xs rule: lz_bytes.induct)
  case (1 xs)
  show ?case
  proof (cases "xs = []")
    case False
    then have "8 \<le> length xs" using "1.prems" by (cases "length xs < 8") auto
    then have "lz_bytes (drop 8 xs @ ys) = lz_bytes (drop 8 xs) @ lz_bytes ys"
      using 1 False by (simp add: mod_if [of "length xs" 8])
    then show ?thesis
      using False \<open>8 \<le> length xs\<close> by (subst (1 2) lz_bytes.simps) simp
  qed simp
qed

lemma lz_bytes_short: "cs \<noteq> [] \<Longrightarrow> length cs \<le> 8 \<Longrightarrow> lz_bytes cs = flag_byte cs # codes_bytes cs"
  by (subst lz_bytes.simps) simp

lemma flag_byte_less: "flag_byte cs < 2 ^ length cs"
  by (induction cs) auto

lemma flag_byte_append: "flag_byte (cs @ ds) = flag_byte cs + 2 ^ length cs * flag_byte ds"
  by (induction cs) (auto simp: algebra_simps)

section \<open>Their bits\<close>

definition symbol_bits :: "tdefl_compressor \<Rightarrow> nat \<Rightarrow> nat \<Rightarrow> bool list" where
  "symbol_bits d table_num symb = bits (m_huff_codes d ! table_num ! symb) (m_huff_code_sizes d ! table_num ! symb)"

fun code_bits :: "tdefl_compressor \<Rightarrow> lz_code \<Rightarrow> bool list" where
  "code_bits d (Literal x) = symbol_bits d 0 x"
| "code_bits d (Match m dist) =
     symbol_bits d 0 (s_tdefl_len_sym ! m) @ bits (m mod 2 ^ (s_tdefl_len_extra ! m)) (s_tdefl_len_extra ! m) @
     symbol_bits d 1 (dist_sym dist) @ bits (dist mod 2 ^ dist_extra dist) (dist_extra dist)"

text \<open>The symbols of a code have codes.\<close>

definition has_code :: "tdefl_compressor \<Rightarrow> nat \<Rightarrow> nat \<Rightarrow> bool" where
  "has_code d table_num symb \<longleftrightarrow> m_huff_code_sizes d ! table_num ! symb \<noteq> 0"

fun has_codes :: "tdefl_compressor \<Rightarrow> lz_code \<Rightarrow> bool" where
  "has_codes d (Literal x) = has_code d 0 x"
| "has_codes d (Match m dist) = (has_code d 0 (s_tdefl_len_sym ! m) \<and> has_code d 1 (dist_sym dist))"

definition table_ok :: "nat \<Rightarrow> nat list \<Rightarrow> nat list \<Rightarrow> bool" where
  "table_ok n codes sizes \<longleftrightarrow> n \<le> length codes \<and> n \<le> length sizes \<and>
     (\<forall>s < n. sizes ! s \<le> 15 \<and> (sizes ! s \<noteq> 0 \<longrightarrow> codes ! s < 2 ^ (sizes ! s)))"

definition tables_ok :: "tdefl_compressor \<Rightarrow> bool" where
  "tables_ok d \<longleftrightarrow> (\<forall>t < 2. table_ok ([286, 30] ! t) (m_huff_codes d ! t) (m_huff_code_sizes d ! t))"

lemma tables_okD:
  assumes "tables_ok d" and "t < 2" and "s < [286, 30] ! t" and "has_code d t s"
  shows "m_huff_codes d ! t ! s < 2 ^ (m_huff_code_sizes d ! t ! s)" "m_huff_code_sizes d ! t ! s \<le> 15"
  using assms by (auto simp: tables_ok_def table_ok_def has_code_def)

lemma wp_code_of:
  assumes "tables_ok d" and "t < 2" and "s < [286, 30] ! t"
  shows "wp (code_of t s) Q d \<longleftrightarrow> Q (m_huff_codes d ! t ! s, m_huff_code_sizes d ! t ! s) d"
proof -
  have "s < length (m_huff_codes d ! t)" "s < length (m_huff_code_sizes d ! t)"
    using assms unfolding tables_ok_def table_ok_def by (blast intro: less_le_trans)+
  then show ?thesis by (simp add: code_of_def)
qed

section \<open>The fast bit buffer\<close>

definition fast_ok :: "nat \<Rightarrow> fast_bits \<Rightarrow> bool" where
  "fast_ok k f \<longleftrightarrow> bits_in f \<le> k \<and> bit_buffer f < 2 ^ bits_in f"

definition fast_stream :: "fast_bits \<Rightarrow> bool list" where
  "fast_stream f = stream (pOutput f) (bit_buffer f) (bits_in f)"

lemma put_fast:
  assumes "fast_ok k f" and "b < 2 ^ l" and "k + l \<le> 64"
  shows "fast_ok (k + l) (TDEFL_PUT_BITS_FAST b l f)" "fast_stream (TDEFL_PUT_BITS_FAST b l f) = fast_stream f @ bits b l"
    "pOutput (TDEFL_PUT_BITS_FAST b l f) = pOutput f" "bits_in (TDEFL_PUT_BITS_FAST b l f) = bits_in f + l"
proof -
  have "b * 2 ^ bits_in f < 2 ^ (l + bits_in f)" using assms(2) by (simp add: power_add)
  also have "(2 :: nat) ^ (l + bits_in f) \<le> 2 ^ 64" using assms(1,3) by (intro power_increasing) (simp_all add: fast_ok_def)
  finally have u: "u64 (b * 2 ^ bits_in f) = b * 2 ^ bits_in f" by simp
  show "fast_ok (k + l) (TDEFL_PUT_BITS_FAST b l f)" "fast_stream (TDEFL_PUT_BITS_FAST b l f) = fast_stream f @ bits b l"
    "pOutput (TDEFL_PUT_BITS_FAST b l f) = pOutput f" "bits_in (TDEFL_PUT_BITS_FAST b l f) = bits_in f + l"
    using assms stream_put [of "bit_buffer f" "bits_in f" "pOutput f" b l]
    by (auto simp: fast_ok_def fast_stream_def TDEFL_PUT_BITS_FAST_def u or_shifted join_less)
qed

lemma stream_bytes:
  "n \<le> 8 \<Longrightarrow> 8 * n \<le> k \<Longrightarrow>
   stream (out @ map of_nat (take n (map (\<lambda>i. buf div 256 ^ i) [0..<8]))) (buf div 2 ^ (8 * n)) (k - 8 * n) = stream out buf k"
proof (induction n)
  case (Suc n)
  have t: "take (Suc n) (map (\<lambda>i. buf div 256 ^ i) [0..<8]) = take n (map (\<lambda>i. buf div 256 ^ i) [0..<8]) @ [buf div 256 ^ n]"
    using Suc.prems(1) by (simp add: take_Suc_conv_app_nth)
  have "buf div 2 ^ (8 * Suc n) = buf div 2 ^ (8 * n) div 256" by (simp add: div_mult2_eq [symmetric] power_add mult.commute)
  moreover have "(256 :: nat) ^ n = 2 ^ (8 * n)" by (simp add: power_mult)
  ultimately show ?case
    using Suc stream_byte [of "k - 8 * n" "out @ map of_nat (take n (map (\<lambda>i. buf div 256 ^ i) [0..<8]))" "buf div 2 ^ (8 * n)"]
    by (simp add: t add.commute)
qed simp

lemma store_bits:
  assumes "fast_ok 63 f"
  shows "fast_ok 7 (store_bits f)" "fast_stream (store_bits f) = fast_stream f"
proof -
  let ?n = "bits_in f div 8"
  have k: "bits_in f mod 8 = bits_in f - 8 * ?n" "?n \<le> 8" "8 * ?n \<le> bits_in f" "bits_in f = 8 * ?n + bits_in f mod 8"
    using assms by (auto simp: fast_ok_def minus_mult_div_eq_mod)
  have "bit_buffer f < 2 ^ bits_in f" using assms by (simp add: fast_ok_def)
  also have "\<dots> = 2 ^ (bits_in f mod 8) * 2 ^ (8 * ?n)" by (simp flip: power_add)
  finally have "bit_buffer f div 2 ^ (8 * ?n) < 2 ^ (bits_in f mod 8)" by (rule less_mult_imp_div_less)
  then show "fast_ok 7 (store_bits f)" by (simp add: fast_ok_def store_bits_def Let_def less_Suc_eq_le [symmetric])
  show "fast_stream (store_bits f) = fast_stream f"
    using stream_bytes [OF k(2,3), of "pOutput f" "bit_buffer f"] by (simp add: fast_stream_def store_bits_def Let_def k(1))
qed

section \<open>Writing a code\<close>

text \<open>\<open>added d xs k f g u\<close>: the bits \<open>xs\<close> are in the buffer, at most \<open>k\<close> of them waiting, and \<open>d\<close> is unchanged.\<close>

definition added :: "tdefl_compressor \<Rightarrow> bool list \<Rightarrow> nat \<Rightarrow> fast_bits \<Rightarrow> fast_bits \<Rightarrow> tdefl_compressor \<Rightarrow> bool" where
  "added d xs k f g u \<longleftrightarrow> u = d \<and> fast_ok k g \<and> fast_stream g = fast_stream f @ xs \<and> pOutput g = pOutput f"

lemma fast_ok_mono: "fast_ok j f \<Longrightarrow> j \<le> k \<Longrightarrow> fast_ok k f"
  by (simp add: fast_ok_def)

lemma wp_put_symbol:
  assumes "tables_ok d" and "t < 2" and "s < [286, 30] ! t" and "has_code d t s" and "fast_ok k f" and "k + 15 \<le> 64"
  shows "wp (put_symbol t s f) (\<lambda>g. added d (symbol_bits d t s) (k + 15) f g) d"
proof -
  let ?b = "m_huff_codes d ! t ! s" and ?l = "m_huff_code_sizes d ! t ! s"
  note b = tables_okD [OF assms(1-4)]
  with put_fast [OF assms(5) b(1)] assms(6) have "added d (symbol_bits d t s) (k + 15) f (TDEFL_PUT_BITS_FAST ?b ?l f) d"
    by (auto simp: added_def symbol_bits_def intro: fast_ok_mono)
  with assms(4) show ?thesis by (simp add: put_symbol_def wp_code_of [OF assms(1-3)] has_code_def)
qed

definition holds_from :: "(nat \<Rightarrow> nat) \<Rightarrow> nat \<Rightarrow> nat list \<Rightarrow> bool" where
  "holds_from buf p xs \<longleftrightarrow> (\<forall>i < length xs. buf (p + i) = xs ! i)"

lemma holds_from_simps [simp]: "holds_from buf p []" "holds_from buf p (x # xs) \<longleftrightarrow> buf p = x \<and> holds_from buf (Suc p) xs"
  "holds_from buf p (xs @ ys) \<longleftrightarrow> holds_from buf p xs \<and> holds_from buf (p + length xs) ys"
proof -
  show "holds_from buf p []" by (simp add: holds_from_def)
  show "holds_from buf p (x # xs) \<longleftrightarrow> buf p = x \<and> holds_from buf (Suc p) xs"
    by (auto simp: holds_from_def nth_Cons less_Suc_eq_0_disj split: nat.split)
  show "holds_from buf p (xs @ ys) \<longleftrightarrow> holds_from buf p xs \<and> holds_from buf (p + length xs) ys"
    unfolding holds_from_def
    by (auto simp: nth_append add.assoc) (metis add_diff_inverse_nat nat_add_left_cancel_less)
qed

lemma wp_lz_byte [simp]: "wp (lz_byte p) Q d \<longleftrightarrow> p < TDEFL_LZ_CODE_BUF_SIZE \<and> Q (m_lz_code_buf d p) d"
  by (simp add: lz_byte_def)

lemma wp_put_match:
  assumes "tables_ok d" and "code_ok (Match m dist)" and "has_codes d (Match m dist)" and "fast_ok 7 f"
    and "holds_from (m_lz_code_buf d) p (code_bytes (Match m dist))" and "p + 3 \<le> TDEFL_LZ_CODE_BUF_SIZE"
  shows "wp (put_match p f) (\<lambda>g. added d (code_bits d (Match m dist)) 55 f g) d"
proof -
  let ?ls = "s_tdefl_len_sym ! m" and ?le = "s_tdefl_len_extra ! m" and ?ds = "dist_sym dist" and ?de = "dist_extra dist"
  have m: "m < 256" "dist < TDEFL_LZ_DICT_SIZE" using assms(2) by simp_all
  note len = len_code [OF m(1)] and dst = dist_code [OF m(2)]
  have le: "?le \<le> 5" "?de \<le> 13" using len dst by simp_all
  have lo: "dist mod 256 + 256 * (dist div 256) = dist" by simp
  have sym0: "wp (put_symbol 0 ?ls f) (\<lambda>g. added d (symbol_bits d 0 ?ls) (7 + 15) f g) d"
    using assms len by (intro wp_put_symbol) auto
  have rest: "wp (put_symbol 1 ?ds (TDEFL_PUT_BITS_FAST (m mod 2 ^ ?le) ?le g)) (\<lambda>h u.
      added d (code_bits d (Match m dist)) 55 f (TDEFL_PUT_BITS_FAST (dist mod 2 ^ ?de) ?de h) u) u"
    if g: "added d (symbol_bits d 0 ?ls) 22 f g u" for g u
  proof -
    let ?g = "TDEFL_PUT_BITS_FAST (m mod 2 ^ ?le) ?le g"
    have g1: "fast_ok (22 + ?le) ?g" "fast_stream ?g = fast_stream g @ bits (m mod 2 ^ ?le) ?le" "pOutput ?g = pOutput g"
      using put_fast [of 22 g "m mod 2 ^ ?le" ?le] g le by (auto simp: added_def)
    have "wp (put_symbol 1 ?ds ?g) (\<lambda>h. added d (symbol_bits d 1 ?ds) (22 + ?le + 15) ?g h) d"
      using assms dst g1 le by (intro wp_put_symbol) auto
    moreover have "u = d" using g by (simp add: added_def)
    moreover have "added d (code_bits d (Match m dist)) 55 f (TDEFL_PUT_BITS_FAST (dist mod 2 ^ ?de) ?de h) v"
      if "added d (symbol_bits d 1 ?ds) (22 + ?le + 15) ?g h v" for h v
      using put_fast [of "22 + ?le + 15" h "dist mod 2 ^ ?de" ?de] g g1 that le
      by (auto simp: added_def intro: fast_ok_mono)
    ultimately show ?thesis by (auto elim: wp_mono)
  qed
  show ?thesis
    unfolding put_match_def
    using assms len dst m rest
    by (simp add: lo bitmask le_trans [OF le(1)] le_trans [OF le(2)] del: wp_bnd add: wp_bnd [of "lz_byte _"] wp_bnd [of "elem _ _"])
      (rule wp_bndI [OF sym0], auto)
qed

section \<open>Reading the buffer\<close>

text \<open>At \<open>p\<close>, with the flags as the loop shifts them, the reader has the codes \<open>cs\<close> before it: the rest of a group of
  eight under a sentinel, and further groups.\<close>

definition lz_at :: "(nat \<Rightarrow> nat) \<Rightarrow> nat \<Rightarrow> nat \<Rightarrow> nat \<Rightarrow> lz_code list \<Rightarrow> bool" where
  "lz_at buf end_p flags p cs \<longleftrightarrow> (\<exists>now later r. cs = now @ later \<and> flags = flag_byte now + 2 ^ r \<and> length now \<le> r \<and> r \<le> 8 \<and>
     (length now < r \<longrightarrow> later = []) \<and> holds_from buf p (codes_bytes now @ lz_bytes later) \<and>
     end_p = p + length (codes_bytes now @ lz_bytes later))"

lemma lz_at_start: "holds_from buf 0 (lz_bytes cs) \<Longrightarrow> end_p = length (lz_bytes cs) \<Longrightarrow> lz_at buf end_p 1 0 cs"
  unfolding lz_at_def by (intro exI [of _ "[]"] exI [of _ cs] exI [of _ 0]) simp

lemma lz_bytes_Nil_iff [simp]: "lz_bytes cs = [] \<longleftrightarrow> cs = []"
  by (subst lz_bytes.simps) simp

lemma code_bytes_ne [simp]: "code_bytes c \<noteq> []"
  by (cases c) simp_all

lemma codes_bytes_Nil_iff [simp]: "codes_bytes cs = [] \<longleftrightarrow> cs = []"
  by (cases cs) simp_all

lemma lz_at_end: "lz_at buf end_p flags p cs \<Longrightarrow> \<not> p < end_p \<longleftrightarrow> cs = []"
  unfolding lz_at_def by auto

lemma lz_at_load:
  assumes "lz_at buf end_p 1 p cs" and "p < end_p"
  shows "lz_at buf end_p (buf p OR 256) (p + 1) cs" "p + 1 < end_p" "buf p OR 256 \<noteq> 1"
proof -
  obtain now later r where cs: "cs = now @ later" "1 = flag_byte now + 2 ^ r" "length now \<le> r"
    and l: "holds_from buf p (codes_bytes now @ lz_bytes later)" "end_p = p + length (codes_bytes now @ lz_bytes later)"
    using assms(1) unfolding lz_at_def by blast
  have "r = 0"
  proof (rule ccontr)
    assume "r \<noteq> 0"
    then have "(2 :: nat) ^ 1 \<le> 2 ^ r" by (intro power_increasing) simp_all
    moreover have "2 ^ r \<le> (1 :: nat)" using cs(2) by linarith
    ultimately show False by (simp only: power_one_right)
  qed
  then have now: "now = []" using cs(3) by simp
  have ne: "later \<noteq> []" using assms(2) l(2) now by auto
  let ?g = "take 8 later"
  have bytes: "lz_bytes later = flag_byte ?g # codes_bytes ?g @ lz_bytes (drop 8 later)"
    using ne by (subst lz_bytes.simps) simp
  have "flag_byte ?g < 2 ^ length ?g" by (rule flag_byte_less)
  also have "\<dots> \<le> 2 ^ 8" by (intro power_increasing) simp_all
  finally have "flag_byte ?g OR 1 * 2 ^ 8 = flag_byte ?g + 1 * 2 ^ 8" by (rule or_shifted)
  moreover have b: "buf p = flag_byte ?g" using l(1) bytes now by simp
  ultimately have fl: "buf p OR 256 = flag_byte ?g + 2 ^ 8" by simp
  then show "buf p OR 256 \<noteq> 1" by simp
  show "lz_at buf end_p (buf p OR 256) (p + 1) cs"
    unfolding lz_at_def using l bytes now cs(1) fl
    by (intro exI [of _ ?g] exI [of _ "drop 8 later"] exI [of _ 8]) auto
  have "?g \<noteq> []" using ne by simp
  then have "0 < length (codes_bytes ?g)" by simp
  then show "p + 1 < end_p" using l(2) bytes now by simp
qed

lemma lz_at_step:
  assumes "lz_at buf end_p flags p cs" and "p < end_p" and "flags \<noteq> 1"
  obtains c cs' where "cs = c # cs'" and "holds_from buf p (code_bytes c)" and "p + length (code_bytes c) \<le> end_p"
    and "odd flags = is_match c" and "lz_at buf end_p (flags div 2) (p + length (code_bytes c)) cs'"
proof -
  obtain now later r where cs: "cs = now @ later" "flags = flag_byte now + 2 ^ r" "length now \<le> r" "r \<le> 8"
    "length now < r \<longrightarrow> later = []"
    and l: "holds_from buf p (codes_bytes now @ lz_bytes later)" "end_p = p + length (codes_bytes now @ lz_bytes later)"
    using assms(1) unfolding lz_at_def by blast
  obtain c now' where now: "now = c # now'"
  proof (cases now)
    case Nil
    then have "r \<noteq> 0" using assms(3) cs(2) by (cases r) auto
    then show ?thesis using Nil cs(5) l(2) assms(2) by auto
  qed
  then obtain r' where r: "r = Suc r'" using cs(3) by (cases r) auto
  have fl: "flags = of_bool (is_match c) + 2 * (flag_byte now' + 2 ^ r')" using cs(2) now r by simp
  show ?thesis
  proof
    show "cs = c # now' @ later" using cs(1) now by simp
    show "holds_from buf p (code_bytes c)" "p + length (code_bytes c) \<le> end_p" using l now by simp_all
    show "odd flags = is_match c" unfolding fl by simp
    have "flags div 2 = flag_byte now' + 2 ^ r'" unfolding fl by simp
    then show "lz_at buf end_p (flags div 2) (p + length (code_bytes c)) (now' @ later)"
      unfolding lz_at_def using l cs now r
      by (intro exI [of _ now'] exI [of _ later] exI [of _ r']) (auto simp: add.assoc)
  qed
qed

section \<open>The loop\<close>

definition codes_ok :: "tdefl_compressor \<Rightarrow> lz_code list \<Rightarrow> bool" where
  "codes_ok d cs \<longleftrightarrow> (\<forall>c \<in> set cs. code_ok c \<and> has_codes d c)"

definition all_bits :: "tdefl_compressor \<Rightarrow> lz_code list \<Rightarrow> bool list" where
  "all_bits d cs = concat (map (code_bits d) cs)"

lemma all_bits_simps [simp]: "all_bits d [] = []" "all_bits d (c # cs) = code_bits d c @ all_bits d cs"
  by (simp_all add: all_bits_def)

lemma literal_next:
  assumes "lz_at buf end_p flags p cs" and "p < end_p" and "even flags"
  obtains x cs' where "cs = Literal x # cs'" and "buf p = x" and "lz_at buf end_p (flags div 2) (p + 1) cs'"
proof -
  have "flags \<noteq> 1" using assms(3) by auto
  then obtain c cs' where c: "cs = c # cs'" "holds_from buf p (code_bytes c)" "odd flags = is_match c"
    "lz_at buf end_p (flags div 2) (p + length (code_bytes c)) cs'"
    using lz_at_step [OF assms(1,2)] by metis
  moreover obtain x where "c = Literal x" using c(3) assms(3) by (cases c) auto
  ultimately show ?thesis using that by simp
qed

text \<open>A round has written some codes from the front of \<open>cs\<close> and stands before the rest, its flags not yet shifted.\<close>

fun round_wrote :: "tdefl_compressor \<Rightarrow> nat \<Rightarrow> nat \<Rightarrow> lz_code list \<Rightarrow> nat \<Rightarrow> fast_bits \<Rightarrow> nat \<times> nat \<times> fast_bits \<Rightarrow> tdefl_compressor \<Rightarrow> bool" where
  "round_wrote d end_p p cs k f (fl, p', g) u \<longleftrightarrow> (\<exists>xs rest. cs = xs @ rest \<and> p < p' \<and>
     lz_at (m_lz_code_buf d) end_p (fl div 2) p' rest \<and> added d (all_bits d xs) k f g u)"

lemma wrote_one:
  assumes "lz_at (m_lz_code_buf d) end_p (fl div 2) p' cs" and "p < p'" and "added d (code_bits d c) k f g u"
  shows "round_wrote d end_p p (c # cs) k f (fl, p', g) u"
proof -
  have "c # cs = [c] @ cs \<and> p < p' \<and> lz_at (m_lz_code_buf d) end_p (fl div 2) p' cs \<and> added d (all_bits d [c]) k f g u"
    using assms by simp
  then show ?thesis unfolding round_wrote.simps by blast
qed

lemma wrote_more:
  assumes "round_wrote d end_p p cs k g r u" and "q < p" and "added d (code_bits d c) j f g v"
  shows "round_wrote d end_p q (c # cs) k f r u"
proof (cases r)
  case (fields fl p' h)
  then obtain xs rest where "cs = xs @ rest" "p < p'" "lz_at (m_lz_code_buf d) end_p (fl div 2) p' rest"
    "added d (all_bits d xs) k g h u" using assms(1) by auto
  then have "c # cs = (c # xs) @ rest \<and> q < p' \<and> lz_at (m_lz_code_buf d) end_p (fl div 2) p' rest \<and>
      added d (all_bits d (c # xs)) k f h u"
    using assms(2,3) by (auto simp: added_def)
  then show ?thesis unfolding fields round_wrote.simps by blast
qed

lemma added_mono: "added d xs j f g u \<Longrightarrow> j \<le> k \<Longrightarrow> added d xs k f g u"
  by (auto simp: added_def intro: fast_ok_mono)

lemma wp_put_literals:
  assumes "lz_at (m_lz_code_buf d) end_p flags p cs" and "p < end_p" and "even flags" and "codes_ok d cs" and "tables_ok d"
    and "end_p \<le> TDEFL_LZ_CODE_BUF_SIZE" and "fast_ok k f" and "k + 15 * (n + 1) \<le> 63"
  shows "wp (put_literals n end_p flags p f) (round_wrote d end_p p cs (k + 15 * (n + 1)) f) d"
  using assms
proof (induction n arbitrary: flags p cs f k)
  case 0
  obtain x cs' where c: "cs = Literal x # cs'" "m_lz_code_buf d p = x" "lz_at (m_lz_code_buf d) end_p (flags div 2) (p + 1) cs'"
    by (rule literal_next [OF "0.prems"(1-3)])
  have one: "wp (put_symbol 0 x f) (\<lambda>g. added d (symbol_bits d 0 x) (k + 15) f g) d"
    using "0.prems" c(1) by (intro wp_put_symbol) (auto simp: codes_ok_def)
  have "wp (put_symbol 0 x f) (\<lambda>g. round_wrote d end_p p cs (k + 15) f (flags, p + 1, g)) d"
    using one by (rule wp_mono) (use c in \<open>auto intro!: wrote_one simp del: round_wrote.simps\<close>)
  then show ?case
    using "0.prems"(2,6) c(2) by (subst put_literals.simps) (simp del: round_wrote.simps)
next
  case (Suc n)
  obtain x cs' where c: "cs = Literal x # cs'" "m_lz_code_buf d p = x" "lz_at (m_lz_code_buf d) end_p (flags div 2) (p + 1) cs'"
    by (rule literal_next [OF Suc.prems(1-3)])
  have one: "wp (put_symbol 0 x f) (\<lambda>g. added d (symbol_bits d 0 x) (k + 15) f g) d"
    using Suc.prems c(1) by (intro wp_put_symbol) (auto simp: codes_ok_def)
  let ?Q = "round_wrote d end_p p cs (k + 15 * (Suc n + 1)) f"
  have rest: "wp (if flags div 2 mod 2 = 0 \<and> p + 1 < end_p then put_literals n end_p (flags div 2) (p + 1) g else ret (flags, p + 1, g)) ?Q u"
    if g: "added d (symbol_bits d 0 x) (k + 15) f g u" for g u
  proof (cases "flags div 2 mod 2 = 0 \<and> p + 1 < end_p")
    case True
    have "wp (put_literals n end_p (flags div 2) (p + 1) g) (round_wrote d end_p (p + 1) cs' (k + 15 + 15 * (n + 1)) g) d"
      using Suc.prems c True g by (intro Suc.IH) (auto simp: codes_ok_def added_def)
    then have "wp (put_literals n end_p (flags div 2) (p + 1) g) ?Q d"
      by (rule wp_mono) (use g c(1) in \<open>auto simp: algebra_simps simp del: round_wrote.simps intro: wrote_more\<close>)
    then show ?thesis using True g by (simp add: added_def)
  next
    case False
    have "?Q (flags, p + 1, g) u"
      unfolding c(1) using c(3) g by (intro wrote_one) (auto intro: added_mono)
    then show ?thesis by (simp only: if_not_P [OF False] wp_ret)
  qed
  have "wp (bnd (put_symbol 0 x f) (\<lambda>g. if flags div 2 mod 2 = 0 \<and> p + 1 < end_p
      then put_literals n end_p (flags div 2) (p + 1) g else ret (flags, p + 1, g))) ?Q d"
    by (rule wp_bndI [OF one rest])
  then show ?case
    using Suc.prems(2,6) c(2) by (subst put_literals.simps) (simp del: round_wrote.simps)
qed

lemma wrote_mono: "round_wrote d end_p p cs j f r u \<Longrightarrow> j \<le> k \<Longrightarrow> round_wrote d end_p p cs k f r u"
  by (cases r) (auto intro: added_mono)

text \<open>The flags of a round, loaded when the last group is used up.\<close>

lemma wp_load_flags:
  assumes "lz_at (m_lz_code_buf d) end_p flags p cs" and "p < end_p" and "end_p \<le> TDEFL_LZ_CODE_BUF_SIZE"
  shows "wp (if flags = 1 then bnd (lz_byte p) (\<lambda>x. ret (x OR 256, p + 1)) else ret (flags, p)) (\<lambda>(fl, q) u. u = d \<and>
    lz_at (m_lz_code_buf d) end_p fl q cs \<and> q < end_p \<and> fl \<noteq> 1 \<and> p \<le> q) d"
proof (cases "flags = 1")
  case True
  then show ?thesis using assms lz_at_load [of "m_lz_code_buf d" end_p p cs] by simp
next
  case False
  then show ?thesis using assms by simp
qed

text \<open>One round writes at least one code.\<close>

lemma wp_round:
  assumes "lz_at (m_lz_code_buf d) end_p flags p cs" and "p < end_p" and "flags \<noteq> 1" and "codes_ok d cs" and "tables_ok d"
    and "end_p \<le> TDEFL_LZ_CODE_BUF_SIZE" and "fast_ok 7 f"
  shows "wp (if flags mod 2 = 1 then bnd (put_match p f) (\<lambda>f. ret (flags, p + 3, f)) else put_literals 2 end_p flags p f)
    (round_wrote d end_p p cs 55 f) d"
proof (cases "odd flags")
  case True
  obtain c cs' where c: "cs = c # cs'" "holds_from (m_lz_code_buf d) p (code_bytes c)" "p + length (code_bytes c) \<le> end_p"
    "odd flags = is_match c" "lz_at (m_lz_code_buf d) end_p (flags div 2) (p + length (code_bytes c)) cs'"
    by (rule lz_at_step [OF assms(1-3)])
  then obtain m dist where m: "c = Match m dist" using True by (cases c) auto
  have ok: "code_ok (Match m dist)" "has_codes d (Match m dist)" using assms(4) c(1) m by (auto simp: codes_ok_def)
  have "wp (put_match p f) (\<lambda>g. added d (code_bits d (Match m dist)) 55 f g) d"
    using c assms m by (intro wp_put_match [OF assms(5) ok]) auto
  then have "wp (put_match p f) (\<lambda>g. round_wrote d end_p p cs 55 f (flags, p + 3, g)) d"
    by (rule wp_mono) (use c m in \<open>auto intro!: wrote_one simp del: round_wrote.simps code_bits.simps simp: numeral_3_eq_3\<close>)
  then show ?thesis using True by (simp add: odd_iff_mod_2_eq_one del: round_wrote.simps)
next
  case False
  have "wp (put_literals 2 end_p flags p f) (round_wrote d end_p p cs (7 + 15 * (2 + 1)) f) d"
    using assms False by (intro wp_put_literals) auto
  then have "wp (put_literals 2 end_p flags p f) (round_wrote d end_p p cs 55 f) d"
    by (rule wp_mono) (auto intro: wrote_mono simp del: round_wrote.simps)
  moreover have "\<not> flags mod 2 = 1" using False by presburger
  ultimately show ?thesis by (simp only: if_not_P not_False_eq_True)
qed

text \<open>The loop writes all codes, or gives up when their bits do not fit.\<close>

definition loop_wrote :: "tdefl_compressor \<Rightarrow> lz_code list \<Rightarrow> nat \<Rightarrow> fast_bits \<Rightarrow> fast_bits option \<Rightarrow> tdefl_compressor \<Rightarrow> bool" where
  "loop_wrote d cs end_ofs f r u \<longleftrightarrow> u = d \<and> (case r of
     None \<Rightarrow> 8 * end_ofs \<le> length (fast_stream f @ all_bits d cs)
   | Some g \<Rightarrow> fast_ok 7 g \<and> fast_stream g = fast_stream f @ all_bits d cs)"

lemma all_bits_append [simp]: "all_bits d (xs @ ys) = all_bits d xs @ all_bits d ys"
  by (simp add: all_bits_def)

lemma loop_wrote_more:
  assumes "loop_wrote d rest end_ofs h r u" and "fast_stream h = fast_stream f @ all_bits d xs"
  shows "loop_wrote d (xs @ rest) end_ofs f r u"
  using assms by (auto simp: loop_wrote_def split: option.splits)

lemma length_fast_stream: "8 * length (pOutput f) \<le> length (fast_stream f)"
  by (simp add: fast_stream_def)

lemma wp_lz_codes_loop:
  assumes "lz_at (m_lz_code_buf d) end_p flags p cs" and "codes_ok d cs" and "tables_ok d"
    and "end_p \<le> TDEFL_LZ_CODE_BUF_SIZE" and "fast_ok 7 f" and "end_p - p < fuel"
  shows "wp (lz_codes_loop fuel end_p end_ofs flags p f) (loop_wrote d cs end_ofs f) d"
  using assms
proof (induction fuel arbitrary: flags p cs f)
  case (Suc fuel)
  show ?case
  proof (cases "p < end_p")
    case False
    then have "cs = []" using lz_at_end [OF Suc.prems(1)] by simp
    then show ?thesis using False Suc.prems(5) by (simp add: loop_wrote_def)
  next
    case True
    have step: "wp (if length (pOutput g) \<ge> end_ofs then ret None
        else lz_codes_loop fuel end_p end_ofs (fl div 2) p' (store_bits g)) (loop_wrote d cs end_ofs f) u"
      if w: "round_wrote d end_p q cs 55 f (fl, p', g) u" and "p \<le> q" for fl p' g u q
    proof -
      obtain xs rest where xs: "cs = xs @ rest" "q < p'" "lz_at (m_lz_code_buf d) end_p (fl div 2) p' rest"
        and a: "u = d" "fast_ok 55 g" "fast_stream g = fast_stream f @ all_bits d xs" "pOutput g = pOutput f"
        using w by (auto simp: added_def)
      show ?thesis
      proof (cases "length (pOutput g) \<ge> end_ofs")
        case True
        then show ?thesis using length_fast_stream [of f] a by (simp add: loop_wrote_def)
      next
        case False
        have b: "fast_ok 7 (store_bits g)" "fast_stream (store_bits g) = fast_stream f @ all_bits d xs"
          using store_bits [of g] fast_ok_mono [OF a(2), of 63] a(3) by simp_all
        have "wp (lz_codes_loop fuel end_p end_ofs (fl div 2) p' (store_bits g)) (loop_wrote d rest end_ofs (store_bits g)) d"
          using Suc.prems xs b(1) True \<open>p \<le> q\<close> by (intro Suc.IH) (auto simp: codes_ok_def)
        then have "wp (lz_codes_loop fuel end_p end_ofs (fl div 2) p' (store_bits g)) (loop_wrote d cs end_ofs f) d"
          unfolding xs(1) by (rule wp_mono) (rule loop_wrote_more [OF _ b(2)])
        then show ?thesis using False a(1) by (simp only: if_not_P not_False_eq_True)
      qed
    qed
    have "wp (bnd (if fl mod 2 = 1 then bnd (put_match q f) (\<lambda>f. ret (fl, q + 3, f)) else put_literals 2 end_p fl q f)
        (\<lambda>(flags, p, f). if length (pOutput f) \<ge> end_ofs then ret None
          else lz_codes_loop fuel end_p end_ofs (flags div 2) p (store_bits f))) (loop_wrote d cs end_ofs f) u"
      if "u = d \<and> lz_at (m_lz_code_buf d) end_p fl q cs \<and> q < end_p \<and> fl \<noteq> 1 \<and> p \<le> q" for fl q u
    proof -
      have "wp (if fl mod 2 = 1 then bnd (put_match q f) (\<lambda>f. ret (fl, q + 3, f)) else put_literals 2 end_p fl q f)
          (round_wrote d end_p q cs 55 f) u"
        using that wp_round [OF _ _ _ Suc.prems(2,3,4,5)] by blast
      then show ?thesis
      proof (rule wp_bndI)
        fix r v assume "round_wrote d end_p q cs 55 f r v"
        with that step [of q "fst r" "fst (snd r)" "snd (snd r)" v]
        show "wp (case r of (flags, p, f) \<Rightarrow> if length (pOutput f) \<ge> end_ofs then ret None
            else lz_codes_loop fuel end_p end_ofs (flags div 2) p (store_bits f)) (loop_wrote d cs end_ofs f) v"
          by (simp only: split_beta prod.collapse)
      qed
    qed
    note after_load = this
    have "wp (bnd (if flags = 1 then bnd (lz_byte p) (\<lambda>x. ret (x OR 256, p + 1)) else ret (flags, p)) (\<lambda>(fl, q).
        bnd (if fl mod 2 = 1 then bnd (put_match q f) (\<lambda>f. ret (fl, q + 3, f)) else put_literals 2 end_p fl q f)
        (\<lambda>(flags, p, f). if length (pOutput f) \<ge> end_ofs then ret None
          else lz_codes_loop fuel end_p end_ofs (flags div 2) p (store_bits f)))) (loop_wrote d cs end_ofs f) d"
      by (rule wp_bndI [OF wp_load_flags [OF Suc.prems(1) True Suc.prems(4)]]) (use after_load in \<open>simp only: split_beta\<close>)
    then show ?thesis using True by (simp only: lz_codes_loop.simps if_False not_not simp_thms)
  qed
qed simp

section \<open>The end of the codes\<close>

text \<open>The waiting bits go through the small bit buffer.\<close>

lemma wp_put_rest:
  assumes "bits_ok d" and "k < 8" and "buf < 2 ^ k" and "length (bstream d) + k \<le> 8 * m_pOutput_buf_end d"
  shows "wp (put_rest buf k) (\<lambda>_. emits (bits buf k) d) d"
proof (cases k)
  case 0
  then show ?thesis using assms(1) by (simp add: emits_refl)
next
  case (Suc j)
  have small: "(2 :: nat) ^ k \<le> 2 ^ 32" using assms(2) by (intro power_increasing) simp_all
  have "buf mod 2 ^ 32 = buf" using assms(3) small by (intro mod_less) (rule less_le_trans)
  moreover have "buf AND mz_bitmasks ! k = buf" using assms(2,3) by (simp add: bitmask)
  ultimately show ?thesis
    using wp_PUT_BITS [OF assms(1,3) _ assms(4)] assms(2) Suc by (simp add: Let_def)
qed

lemma emits_moved:
  assumes "emits xs (d\<lparr>m_bit_buffer := 0, m_bits_in := 0, out_bytes := out\<rparr>) t" and "byte_bits out @ xs = bstream d @ ys"
  shows "emits ys d t"
  using assms by (cases d; cases t) (simp add: emits_def bstream_def stream_def)

lemma emits_tables: "emits xs d t \<Longrightarrow> tables_ok t = tables_ok d" "emits xs d t \<Longrightarrow> symbol_bits t = symbol_bits d"
  "emits xs d t \<Longrightarrow> has_code t = has_code d"
  by (simp_all add: tables_ok_def symbol_bits_def [abs_def] has_code_def [abs_def] emits_simps)

lemma length_out_bytes: "8 * length (out_bytes d) \<le> length (bstream d)"
  by (simp add: bstream_def)

text \<open>The end of the block has its own symbol.\<close>

lemma wp_end_of_block:
  assumes "tables_ok d" and "has_code d 0 256" and "bits_ok d"
    and "length (bstream d) + length (symbol_bits d 0 256) < 8 * m_pOutput_buf_end d"
  shows "wp (bnd (code_of 0 256) (\<lambda>(b, l). seq (TDEFL_PUT_BITS b l) (gets (\<lambda>d. length (out_bytes d) < m_pOutput_buf_end d))))
    (\<lambda>ok t. ok \<and> emits (symbol_bits d 0 256) d t) d"
proof -
  let ?b = "m_huff_codes d ! 0 ! 256" and ?l = "m_huff_code_sizes d ! 0 ! 256"
  have "?b < 2 ^ ?l" "?l \<le> 15" using assms(1,2) by (auto dest: tables_okD [where t = 0 and s = 256])
  then have "wp (TDEFL_PUT_BITS ?b ?l) (\<lambda>_. emits (symbol_bits d 0 256) d) d"
    using wp_PUT_BITS [OF assms(3), of ?b ?l] assms(4) by (simp add: symbol_bits_def)
  then have "wp (TDEFL_PUT_BITS ?b ?l) (\<lambda>_ t. length (out_bytes t) < m_pOutput_buf_end t \<and> emits (symbol_bits d 0 256) d t) d"
  proof (rule wp_mono)
    fix t assume t: "emits (symbol_bits d 0 256) d t"
    have "8 * length (out_bytes t) < 8 * m_pOutput_buf_end t"
      using length_out_bytes [of t] assms(4) by (simp add: emits_simps [OF t])
    then show "length (out_bytes t) < m_pOutput_buf_end t \<and> emits (symbol_bits d 0 256) d t" using t by simp
  qed
  then show ?thesis by (simp add: wp_code_of [OF assms(1)])
qed

theorem codes_are_written:
  assumes "holds_from (m_lz_code_buf d) 0 (lz_bytes cs)" and "m_pLZ_code_buf d = length (lz_bytes cs)"
    and "m_pLZ_code_buf d \<le> TDEFL_LZ_CODE_BUF_SIZE" and "codes_ok d cs" and "tables_ok d" and "bits_ok d" and "has_code d 0 256"
    and "length (bstream d) + length (all_bits d cs) + length (symbol_bits d 0 256) < 8 * m_pOutput_buf_end d"
  shows "wp tdefl_compress_lz_codes (\<lambda>ok t. ok \<and> emits (all_bits d cs @ symbol_bits d 0 256) d t) d"
proof -
  let ?f = "\<lparr>bit_buffer = m_bit_buffer d, bits_in = m_bits_in d, pOutput = out_bytes d\<rparr>"
  let ?room = "m_pOutput_buf_end d"
  have loop: "wp (lz_codes_loop (m_pLZ_code_buf d + 1) (m_pLZ_code_buf d) ?room 1 0 ?f) (loop_wrote d cs ?room ?f) d"
    using assms lz_at_start [OF assms(1,2)] by (intro wp_lz_codes_loop) (simp_all add: fast_ok_def bits_ok_def)
  have s: "fast_stream ?f = bstream d" by (simp add: fast_stream_def bstream_def)
  have fin: "wp (seq (modify (\<lambda>d. d\<lparr>m_bit_buffer := 0, m_bits_in := 0, out_bytes := pOutput g\<rparr>))
      (seq (put_rest (bit_buffer g) (bits_in g)) (bnd (code_of 0 256) (\<lambda>(b, l). seq (TDEFL_PUT_BITS b l)
        (gets (\<lambda>d. length (out_bytes d) < m_pOutput_buf_end d))))))
      (\<lambda>ok t. ok \<and> emits (all_bits d cs @ symbol_bits d 0 256) d t) d"
    if g: "fast_ok 7 g" "fast_stream g = bstream d @ all_bits d cs" for g
  proof -
    let ?e = "d\<lparr>m_bit_buffer := 0, m_bits_in := 0, out_bytes := pOutput g\<rparr>"
    have e: "bits_ok ?e" "bstream ?e = byte_bits (pOutput g)" by (simp_all add: bits_ok_def bstream_def stream_def)
    have whole: "byte_bits (pOutput g) @ bits (bit_buffer g) (bits_in g) = bstream d @ all_bits d cs"
      using g(2) by (simp add: fast_stream_def stream_def)
    have "length (bstream ?e) + bits_in g = length (bstream d) + length (all_bits d cs)"
      using arg_cong [OF whole, where f = length] by (simp add: e)
    then have "wp (put_rest (bit_buffer g) (bits_in g)) (\<lambda>_. emits (bits (bit_buffer g) (bits_in g)) ?e) ?e"
      using g(1) assms(8) by (intro wp_put_rest e) (auto simp: fast_ok_def)
    then have "wp (put_rest (bit_buffer g) (bits_in g)) (\<lambda>_. emits (all_bits d cs) d) ?e"
      by (rule wp_mono) (rule emits_moved [OF _ whole])
    then have "wp (seq (put_rest (bit_buffer g) (bits_in g)) (bnd (code_of 0 256) (\<lambda>(b, l). seq (TDEFL_PUT_BITS b l)
        (gets (\<lambda>d. length (out_bytes d) < m_pOutput_buf_end d)))))
      (\<lambda>ok t. ok \<and> emits (all_bits d cs @ symbol_bits d 0 256) d t) ?e"
      unfolding wp_seq
    proof (rule wp_mono)
      fix t assume t: "emits (all_bits d cs) d t"
      have "wp (bnd (code_of 0 256) (\<lambda>(b, l). seq (TDEFL_PUT_BITS b l) (gets (\<lambda>d. length (out_bytes d) < m_pOutput_buf_end d))))
          (\<lambda>ok u. ok \<and> emits (symbol_bits d 0 256) t u) t"
        using wp_end_of_block [of t] assms(5,7,8) by (simp add: emits_simps [OF t] emits_tables [OF t])
      then show "wp (bnd (code_of 0 256) (\<lambda>(b, l). seq (TDEFL_PUT_BITS b l) (gets (\<lambda>d. length (out_bytes d) < m_pOutput_buf_end d))))
          (\<lambda>ok u. ok \<and> emits (all_bits d cs @ symbol_bits d 0 256) d u) t"
        by (rule wp_mono) (auto intro: emits_trans [OF t])
    qed
    then show ?thesis by (simp only: wp_seq [of "modify _"] wp_modify)
  qed
  show ?thesis
    unfolding tdefl_compress_lz_codes_def wp_bnd_gets id_apply
  proof (rule wp_bndI [OF loop])
    fix r t assume "loop_wrote d cs ?room ?f r t"
    then obtain g where "r = Some g" "t = d" "fast_ok 7 g" "fast_stream g = bstream d @ all_bits d cs"
      using assms(8) s by (cases r) (auto simp: loop_wrote_def)
    then show "wp (case r of None \<Rightarrow> ret False | Some f \<Rightarrow>
        seq (modify (\<lambda>d. d\<lparr>m_bit_buffer := 0, m_bits_in := 0, out_bytes := pOutput f\<rparr>))
           (seq (put_rest (bit_buffer f) (bits_in f))
           (bnd (code_of 0 256) (\<lambda>(b, l). seq (TDEFL_PUT_BITS b l)
             (gets (\<lambda>d. length (out_bytes d) < m_pOutput_buf_end d))))))
        (\<lambda>ok t. ok \<and> emits (all_bits d cs @ symbol_bits d 0 256) d t) t"
      using fin by (simp only: option.case)
  qed
qed

end
