(* ===== verification/Tdefl_Record.thy ===== *)
theory Tdefl_Record
  imports Tdefl_Codes Tdefl_Compress
begin

unbundle bit_operations_syntax

text \<open>
  Recording: what \<open>m_lz_code_buf\<close> holds between two calls of \<open>tdefl_record_literal\<close> or \<open>tdefl_record_match\<close>, and what
  \<open>tdefl_flush_block\<close> hands to the coder of the block.
\<close>

section \<open>The arrays of the structure\<close>

definition arrays_ok :: "tdefl_compressor \<Rightarrow> bool" where
  "arrays_ok d \<longleftrightarrow> length (m_huff_count d) = 3 \<and> length (m_huff_codes d) = 3 \<and> length (m_huff_code_sizes d) = 3 \<and>
     (\<forall>t < 3. length (m_huff_count d ! t) = TDEFL_MAX_HUFF_SYMBOLS \<and> length (m_huff_codes d ! t) = TDEFL_MAX_HUFF_SYMBOLS \<and>
       length (m_huff_code_sizes d ! t) = TDEFL_MAX_HUFF_SYMBOLS) \<and> (\<forall>i. m_lz_code_buf d i < 256)"

lemma arrays_okD:
  assumes "arrays_ok d"
  shows "length (m_huff_count d) = 3" "t < 3 \<Longrightarrow> length (m_huff_count d ! t) = TDEFL_MAX_HUFF_SYMBOLS" "m_lz_code_buf d i < 256"
  using assms by (auto simp: arrays_ok_def)

section \<open>Recorded codes\<close>

text \<open>\<open>full\<close> are the groups of eight codes, \<open>cur\<close> the codes of the last group; their flags are at the top of their byte.\<close>

definition recorded_as :: "tdefl_compressor \<Rightarrow> lz_code list \<Rightarrow> lz_code list \<Rightarrow> bool" where
  "recorded_as d full cur \<longleftrightarrow> length full mod 8 = 0 \<and> length cur < 8 \<and> m_num_flags_left d = 8 - length cur \<and>
     m_pLZ_flags d = length (lz_bytes full) \<and> m_pLZ_code_buf d = m_pLZ_flags d + 1 + length (codes_bytes cur) \<and>
     holds_from (m_lz_code_buf d) 0 (lz_bytes full) \<and> holds_from (m_lz_code_buf d) (m_pLZ_flags d + 1) (codes_bytes cur) \<and>
     m_lz_code_buf d (m_pLZ_flags d) div 2 ^ m_num_flags_left d = flag_byte cur"

definition recorded :: "tdefl_compressor \<Rightarrow> lz_code list \<Rightarrow> bool" where
  "recorded d cs \<longleftrightarrow> (\<exists>full cur. cs = full @ cur \<and> recorded_as d full cur)"

text \<open>What recording leaves alone.\<close>

definition same_coder :: "tdefl_compressor \<Rightarrow> tdefl_compressor \<Rightarrow> bool" where
  "same_coder d t \<longleftrightarrow> (m_huff_codes t, m_huff_code_sizes t, out_bytes t, m_bit_buffer t, m_bits_in t, m_pOutput_buf_end t, m_dict t) =
     (m_huff_codes d, m_huff_code_sizes d, out_bytes d, m_bit_buffer d, m_bits_in d, m_pOutput_buf_end d, m_dict d)"

lemma holds_from_upd: "holds_from buf p xs \<Longrightarrow> q < p \<or> p + length xs \<le> q \<Longrightarrow> holds_from (buf(q := x)) p xs"
  by (auto simp: holds_from_def)

text \<open>The flags of a group after one more code.\<close>

lemma shifted_flags:
  fixes x :: nat
  assumes "x < 256" and "x div 2 ^ left = flag_byte cur" and "left = 8 - length cur" and "length cur < 8" and "b = (if is_match c then 128 else 0)"
  shows "(x div 2 OR b) div 2 ^ (left - 1) = flag_byte (cur @ [c])" "x div 2 OR b < 256"
proof -
  have x: "x div 2 < 2 ^ 7" using assms(1) by simp
  have or: "x div 2 OR b = x div 2 + of_bool (is_match c) * 2 ^ 7"
    using or_shifted [OF x, of "of_bool (is_match c)"] assms(5) by auto
  then show "x div 2 OR b < 256" using x by simp
  obtain k where k: "left = Suc k" "k = 7 - length cur" using assms(3,4) by (cases left) auto
  have "(2 :: nat) ^ 7 = 2 ^ k * 2 ^ length cur" using k assms(4) by (simp flip: power_add)
  then have "x div 2 OR b = x div 2 + of_bool (is_match c) * 2 ^ length cur * 2 ^ k"
    unfolding or by (simp only: mult.assoc mult.commute mult.left_commute)
  then have "(x div 2 OR b) div 2 ^ k = of_bool (is_match c) * 2 ^ length cur + x div 2 div 2 ^ k"
    by (simp only: div_mult_self1 power_not_zero zero_neq_numeral [symmetric] not_False_eq_True)
  moreover have "x div 2 div 2 ^ k = flag_byte cur" using assms(2) k(1) by (simp add: div_mult2_eq)
  ultimately show "(x div 2 OR b) div 2 ^ (left - 1) = flag_byte (cur @ [c])"
    using k(1) by (simp add: flag_byte_append)
qed

definition flag_bit :: "lz_code \<Rightarrow> nat" where
  "flag_bit c = (if is_match c then 128 else 0)"

text \<open>The bytes of a code are behind those of the group, and its flag is shifted in: the state that \<open>count_flag\<close> completes.\<close>

lemma count_flag_records:
  assumes "recorded_as d full cur" and "arrays_ok d"
    and t: "m_num_flags_left t = m_num_flags_left d" "m_pLZ_flags t = m_pLZ_flags d"
      "m_pLZ_code_buf t = m_pLZ_code_buf d + length (code_bytes c)"
    and buf: "holds_from (m_lz_code_buf t) 0 (lz_bytes full)" "holds_from (m_lz_code_buf t) (m_pLZ_flags d + 1) (codes_bytes (cur @ [c]))"
      "m_lz_code_buf t (m_pLZ_flags d) = m_lz_code_buf d (m_pLZ_flags d) div 2 OR flag_bit c" "arrays_ok t"
  shows "wp count_flag (\<lambda>_ u. recorded u ((full @ cur) @ [c]) \<and> arrays_ok u \<and> same_coder t u) t"
proof -
  define left where "left = m_num_flags_left d"
  have rec: "length full mod 8 = 0" "length cur < 8" "left = 8 - length cur" "m_pLZ_flags d = length (lz_bytes full)"
    "m_pLZ_code_buf d = m_pLZ_flags d + 1 + length (codes_bytes cur)" "m_lz_code_buf d (m_pLZ_flags d) div 2 ^ left = flag_byte cur"
    using assms(1) by (auto simp: recorded_as_def left_def)
  have flags: "m_lz_code_buf t (m_pLZ_flags d) div 2 ^ (left - 1) = flag_byte (cur @ [c])"
    unfolding buf(3) using shifted_flags(1) [OF arrays_okD(3) [OF assms(2)] rec(6,3,2), of "flag_bit c" c] by (simp add: flag_bit_def)
  have sub: "sub32 (m_num_flags_left t) 1 = left - 1" unfolding t(1) left_def [symmetric] using rec(2,3) by (intro sub32_le) simp_all
  have code: "m_pLZ_code_buf t = m_pLZ_flags d + 1 + length (codes_bytes (cur @ [c]))" using t(3) rec(5) by simp
  show ?thesis
  proof (cases "left = 1")
    case True
    then have len: "length (cur @ [c]) = 8" using rec(2,3) by simp
    then have ne: "cur @ [c] \<noteq> []" by auto
    have group: "lz_bytes (full @ cur @ [c]) = lz_bytes full @ flag_byte (cur @ [c]) # codes_bytes (cur @ [c])"
      using lz_bytes_append [OF rec(1)] lz_bytes_short [OF ne] len by simp
    let ?u = "t\<lparr>m_pLZ_code_buf := m_pLZ_code_buf t + 1, m_pLZ_flags := m_pLZ_code_buf t, m_num_flags_left := 8\<rparr>"
    have "m_lz_code_buf t (m_pLZ_flags d) = flag_byte (cur @ [c])" using flags True by simp
    then have "holds_from (m_lz_code_buf t) 0 (lz_bytes (full @ cur @ [c]))"
      using buf(1,2) rec(4) by (simp add: group del: codes_bytes_simps(3))
    moreover have "m_lz_code_buf t (m_pLZ_code_buf t) div 256 = 0" using arrays_okD(3) [OF buf(4)] by simp
    ultimately have "recorded_as ?u (full @ cur @ [c]) []"
      using rec(1,4) len code unfolding recorded_as_def group by simp
    then have "recorded ?u ((full @ cur) @ [c])" unfolding recorded_def by (intro exI [of _ "full @ cur @ [c]"] exI [of _ "[]"]) simp
    moreover have "count_flag t = Inr ((), ?u)" using sub True by (simp add: count_flag_def modify_def)
    ultimately show ?thesis using buf(4) by (simp add: wp_iff arrays_ok_def same_coder_def)
  next
    case False
    then have left: "left - 1 \<noteq> 0" using rec(2,3) by simp
    let ?u = "t\<lparr>m_num_flags_left := left - 1\<rparr>"
    have "length (cur @ [c]) < 8" "left - 1 = 8 - length (cur @ [c])" using left rec(2,3) by simp_all
    then have "recorded_as ?u full (cur @ [c])"
      using rec(1,4) buf flags code t(2) by (simp add: recorded_as_def del: codes_bytes_simps(3))
    then have "recorded ?u ((full @ cur) @ [c])" unfolding recorded_def by (intro exI [of _ full] exI [of _ "cur @ [c]"]) simp
    moreover have "count_flag t = Inr ((), ?u)" using sub left by (simp add: count_flag_def modify_def)
    ultimately show ?thesis using buf(4) by (simp add: wp_iff arrays_ok_def same_coder_def)
  qed
qed

text \<open>The place of the next byte.\<close>

lemma length_lz_bytes: "length xs mod 8 = 0 \<Longrightarrow> length (lz_bytes xs) = length (codes_bytes xs) + length xs div 8"
proof (induction xs rule: lz_bytes.induct)
  case (1 xs)
  show ?case
  proof (cases "xs = []")
    case False
    then have "8 \<le> length xs" using "1.prems" by (cases "length xs < 8") auto
    moreover have "length (lz_bytes (drop 8 xs)) = length (codes_bytes (drop 8 xs)) + length (drop 8 xs) div 8"
      using False "1.prems" \<open>8 \<le> length xs\<close> by (intro "1.IH") (simp_all add: mod_if [of "length xs" 8])
    moreover have "length (codes_bytes (take 8 xs @ drop 8 xs)) = length (codes_bytes (take 8 xs)) + length (codes_bytes (drop 8 xs))"
      by (simp only: codes_bytes_simps length_append)
    moreover have "length xs div 8 = Suc ((length xs - 8) div 8)" using \<open>8 \<le> length xs\<close> by (simp add: div_if)
    ultimately show ?thesis using False by (subst lz_bytes.simps) simp
  qed simp
qed

definition code_space :: "lz_code list \<Rightarrow> nat" where
  "code_space cs = 1 + length (codes_bytes cs) + length cs div 8"

lemma recorded_space: "recorded d cs \<Longrightarrow> m_pLZ_code_buf d = code_space cs"
  by (auto simp: recorded_def recorded_as_def code_space_def length_lz_bytes div_add1_eq)

section \<open>Recording a code\<close>

lemma recorded_count [simp]: "recorded (d\<lparr>m_huff_count := x\<rparr>) cs = recorded d cs"
  by (simp add: recorded_def recorded_as_def)

text \<open>\<open>records d cs u\<close>: the codes are \<open>cs\<close> now.\<close>

definition records :: "tdefl_compressor \<Rightarrow> lz_code list \<Rightarrow> tdefl_compressor \<Rightarrow> bool" where
  "records d cs u \<longleftrightarrow> recorded u cs \<and> arrays_ok u \<and> same_coder d u"

lemma wp_count_symbol:
  assumes "recorded d cs" and "arrays_ok d" and "t < 3" and "s < TDEFL_MAX_HUFF_SYMBOLS" and "same_coder c d"
  shows "wp (count_symbol t s) (\<lambda>_. records c cs) d"
  using assms arrays_okD(1,2) [OF assms(2)]
  by (auto simp: count_symbol_def records_def same_coder_def arrays_ok_def nth_list_update)

definition record_code :: "lz_code \<Rightarrow> unit defl" where
  "record_code c = (case c of Literal x \<Rightarrow> tdefl_record_literal x | Match m d \<Rightarrow> tdefl_record_match (m + 3) (d + 1))"

lemma wp_record_code:
  assumes "recorded d cs" and "arrays_ok d" and "code_ok c" and "code_space (cs @ [c]) \<le> TDEFL_LZ_CODE_BUF_SIZE"
  shows "wp (record_code c) (\<lambda>_. records d (cs @ [c])) d"
proof -
  obtain full cur where cs: "cs = full @ cur" and r: "recorded_as d full cur" using assms(1) by (auto simp: recorded_def)
  define buf where "buf = m_lz_code_buf d"
  define p where "p = m_pLZ_code_buf d"
  define q where "q = m_pLZ_flags d"
  have pq: "p = q + 1 + length (codes_bytes cur)" "q = length (lz_bytes full)"
    and h: "holds_from buf 0 (lz_bytes full)" "holds_from buf (q + 1) (codes_bytes cur)"
    using r by (auto simp: recorded_as_def buf_def p_def q_def)
  have small: "buf i < 256" for i using arrays_okD(3) [OF assms(2)] by (simp add: buf_def)
  have "p + length (code_bytes c) \<le> code_space (cs @ [c])"
    using recorded_space [OF assms(1)] by (simp add: code_space_def p_def div_le_mono)
  then have room: "p + length (code_bytes c) \<le> TDEFL_LZ_CODE_BUF_SIZE" using assms(4) by linarith
  have first: "wp count_flag (\<lambda>_ u. recorded u (cs @ [c]) \<and> arrays_ok u \<and> same_coder t u) t"
    if "m_num_flags_left t = m_num_flags_left d" "m_pLZ_flags t = q" "m_pLZ_code_buf t = p + length (code_bytes c)" "arrays_ok t"
      "m_lz_code_buf t = b(q := buf q div 2 OR flag_bit c)" "\<And>i. i < p \<Longrightarrow> b i = buf i" "holds_from b p (code_bytes c)" for t b
  proof -
    have same: "holds_from (m_lz_code_buf t) j xs = holds_from buf j xs" if "j + length xs \<le> p" "q < j \<or> j + length xs \<le> q" for j xs
      using that \<open>\<And>i. i < p \<Longrightarrow> b i = buf i\<close> \<open>m_lz_code_buf t = _\<close> by (auto simp: holds_from_def)
    have "holds_from (m_lz_code_buf t) p (code_bytes c)" unfolding that(5) using that(7) pq(1) by (intro holds_from_upd) auto
    then show ?thesis unfolding cs using that h pq same
      by (intro count_flag_records [OF r assms(2)]) (simp_all add: buf_def [symmetric] p_def [symmetric] q_def [symmetric])
  qed
  have q: "q < TDEFL_LZ_CODE_BUF_SIZE" "q < p" using room pq(1) by simp_all
  have arr: "arrays_ok (d\<lparr>m_total_lz_bytes := n, m_pLZ_code_buf := k, m_lz_code_buf := b\<rparr>)" if "\<And>i. b i < 256" for n k b
    using assms(2) that by (simp add: arrays_ok_def)
  have flag: "buf q div 2 OR flag_bit c < 256"
    using or_shifted [of "buf q div 2" 7 "if is_match c then 1 else 0"] small [of q] by (auto simp: flag_bit_def)
  show ?thesis
  proof (cases c)
    case (Literal x)
    let ?b = "buf(p := x)"
    let ?t = "d\<lparr>m_total_lz_bytes := u32 (m_total_lz_bytes d + 1), m_pLZ_code_buf := p + 1, m_lz_code_buf := ?b(q := buf q div 2 OR 0)\<rparr>"
    have x: "x < 256" using assms(3) Literal by simp
    have "wp count_flag (\<lambda>_ u. recorded u (cs @ [c]) \<and> arrays_ok u \<and> same_coder ?t u) ?t"
      using flag small x Literal by (intro first [where b = ?b] arr) (auto simp: q_def [symmetric] flag_bit_def)
    then have "wp count_flag (\<lambda>_ u. wp (count_symbol 0 x) (\<lambda>_. records d (cs @ [c])) u) ?t"
      by (rule wp_mono) (use x in \<open>auto simp: same_coder_def intro!: wp_count_symbol\<close>)
    then show ?thesis
      using room q x Literal
      by (simp add: record_code_def tdefl_record_literal_def add_lz_bytes_def put_code_def shift_flags_def
        buf_def [symmetric] p_def [symmetric] q_def [symmetric])
  next
    case (Match m dist)
    then have md: "m < 256" "dist < TDEFL_LZ_DICT_SIZE" using assms(3) by simp_all
    let ?b = "((buf(p := m))(Suc p := dist mod 256))(Suc (Suc p) := dist div 256)"
    let ?t = "d\<lparr>m_total_lz_bytes := u32 (m_total_lz_bytes d + (m + 3)), m_pLZ_code_buf := Suc (Suc (Suc p)),
      m_lz_code_buf := ?b(q := buf q div 2 OR 128)\<rparr>"
    have len: "s_tdefl_len_sym ! m < TDEFL_MAX_HUFF_SYMBOLS" using len_code(2) [OF md(1)] by simp
    have "dist div 256 < 128" using md(2) by simp
    then have dst: "(if dist < 512 then s_tdefl_small_dist_sym ! (dist mod 512) else s_tdefl_large_dist_sym ! (dist div 256 mod 128)) =
        dist_sym dist" "dist_sym dist < TDEFL_MAX_HUFF_SYMBOLS" "dist div 256 < 256"
      using dist_code(1) [OF md(2)] by (simp_all add: dist_sym_def)
    have "wp count_flag (\<lambda>_ u. recorded u (cs @ [c]) \<and> arrays_ok u \<and> same_coder ?t u) ?t"
      using flag small md dst(3) Match by (intro first [where b = ?b] arr) (auto simp: q_def [symmetric] flag_bit_def)
    then have "wp count_flag (\<lambda>_ u. wp (count_symbol 1 (dist_sym dist)) (\<lambda>_. records d (cs @ [c])) u) ?t"
      by (rule wp_mono) (use dst in \<open>auto simp: same_coder_def intro!: wp_count_symbol\<close>)
    moreover have "wp (count_symbol 0 (s_tdefl_len_sym ! m)) (\<lambda>_. records d (cs @ [c])) u" if "records d (cs @ [c]) u" for u
      using that len by (auto simp: records_def intro!: wp_count_symbol)
    ultimately have "wp count_flag (\<lambda>_ u. wp (count_symbol 1 (dist_sym dist)) (\<lambda>_ v.
        wp (count_symbol 0 (s_tdefl_len_sym ! m)) (\<lambda>_. records d (cs @ [c])) v) u) ?t"
      by (elim wp_mono)
    then show ?thesis
      using room q md dst Match
      by (simp add: record_code_def tdefl_record_match_def add_lz_bytes_def put_code_def shift_flags_def
        buf_def [symmetric] p_def [symmetric] q_def [symmetric])
  qed
qed

section \<open>The end of the recording\<close>

lemma same_coder_trans: "same_coder a b \<Longrightarrow> same_coder b c \<Longrightarrow> same_coder a c"
  by (simp add: same_coder_def)

lemma same_coder_refl [simp]: "same_coder d d"
  by (simp add: same_coder_def)

lemma code_space_mono: "code_space cs \<le> code_space (cs @ ds)"
  by (simp add: code_space_def add_mono div_le_mono)

lemma wp_record_all:
  assumes "recorded d []" and "arrays_ok d" and "\<forall>c \<in> set cs. code_ok c" and "code_space cs \<le> TDEFL_LZ_CODE_BUF_SIZE"
  shows "wp (for_each record_code cs) (\<lambda>_. records d cs) d"
proof (rule wp_for_each)
  show "records d [] d" using assms(1,2) by (simp add: records_def)
  fix ys x zs t assume cs: "cs = ys @ x # zs" and t: "records d ys t"
  have "code_space (ys @ [x]) \<le> TDEFL_LZ_CODE_BUF_SIZE"
    using code_space_mono [of "ys @ [x]" zs] assms(4) cs by simp
  then have "wp (record_code x) (\<lambda>_. records t (ys @ [x])) t"
    using t assms(3) cs by (intro wp_record_code) (auto simp: records_def)
  then show "wp (record_code x) (\<lambda>_. records d (ys @ [x])) t"
    by (rule wp_mono) (use t in \<open>auto simp: records_def intro: same_coder_trans\<close>)
qed

definition closed :: "tdefl_compressor \<Rightarrow> lz_code list \<Rightarrow> tdefl_compressor \<Rightarrow> bool" where
  "closed d cs u \<longleftrightarrow> holds_from (m_lz_code_buf u) 0 (lz_bytes cs) \<and> m_pLZ_code_buf u = length (lz_bytes cs) \<and>
     m_pLZ_code_buf u \<le> m_pLZ_code_buf d \<and>
     arrays_ok u \<and> same_coder d u"

lemma wp_close_codes:
  assumes "recorded d cs" and "arrays_ok d" and "m_pLZ_code_buf d \<le> TDEFL_LZ_CODE_BUF_SIZE"
  shows "wp close_codes (\<lambda>_. closed d cs) d"
proof -
  obtain full cur where cs: "cs = full @ cur" and r: "recorded_as d full cur" using assms(1) by (auto simp: recorded_def)
  let ?q = "m_pLZ_flags d" and ?buf = "m_lz_code_buf d" and ?left = "m_num_flags_left d"
  let ?b = "?buf(?q := ?buf ?q div 2 ^ ?left)"
  have q: "?q = length (lz_bytes full)" "?q < TDEFL_LZ_CODE_BUF_SIZE" "?buf ?q div 2 ^ ?left = flag_byte cur"
    using r assms(3) unfolding recorded_as_def by linarith+
  have all: "lz_bytes cs = lz_bytes full @ (if cur = [] then [] else flag_byte cur # codes_bytes cur)"
    using r cs lz_bytes_append [of full cur] lz_bytes_short [of cur] by (simp add: recorded_as_def)
  have "holds_from ?b 0 (lz_bytes full)" "holds_from ?b (?q + 1) (codes_bytes cur)"
    using r q(1) by (auto simp: recorded_as_def intro!: holds_from_upd)
  then have "holds_from ?b 0 (lz_bytes cs)" using q(1,3) by (simp add: all)
  moreover have "m_pLZ_code_buf d - (if ?left = 8 then 1 else 0) = length (lz_bytes cs)"
  proof (cases cur)
    case Nil
    then show ?thesis using r all by (simp add: recorded_as_def)
  next
    case (Cons c cur')
    then show ?thesis using r all by (simp add: recorded_as_def)
  qed
  moreover have "?buf ?q div 2 ^ ?left < 256" by (rule le_less_trans [OF div_le_dividend arrays_okD(3) [OF assms(2)]])
  ultimately show ?thesis
    using q(2) assms(2) by (auto simp: close_codes_def closed_def arrays_ok_def same_coder_def)
qed

section \<open>A static block\<close>

definition static_lit :: "nat list" where
  "static_lit = replicate 144 8 @ replicate 112 9 @ replicate 24 7 @ replicate 8 8"

definition static_dist :: "nat list" where
  "static_dist = replicate 32 5"

lemma sum_to_15: "(\<Sum>l = 1..15 :: nat. f l) = f 1 + f 2 + f 3 + f 4 + f 5 + f 6 + f 7 + f 8 + f 9 + f 10 + f 11 + f 12 + f 13 + f 14 + f 15"
  for f :: "nat \<Rightarrow> nat"
  by (simp add: sum.atLeast_Suc_atMost numeral_eq_Suc)

lemma static_lengths: "lengths_ok static_lit static_dist"
  unfolding lengths_ok_def fits_def sum_to_15 by (auto simp: static_lit_def static_dist_def)

lemma length_static [simp]: "length static_lit = 288" "length static_dist = 32"
  by (simp_all add: static_lit_def static_dist_def)

lemma static_all_coded: "s < 288 \<Longrightarrow> static_lit ! s \<noteq> 0" "s < 32 \<Longrightarrow> static_dist ! s \<noteq> 0"
  by (auto simp: static_lit_def static_dist_def nth_append nth_Cons')

text \<open>The tables hold the canonical codes of \<open>lit\<close> and \<open>dist\<close>.\<close>

definition tables_for :: "nat list \<Rightarrow> nat list \<Rightarrow> tdefl_compressor \<Rightarrow> bool" where
  "tables_for lit dist d \<longleftrightarrow> canonical lit (m_huff_codes d ! 0) \<and> canonical dist (m_huff_codes d ! 1) \<and>
     take (length lit) (m_huff_code_sizes d ! 0) = lit \<and> take (length dist) (m_huff_code_sizes d ! 1) = dist"

lemma taken: "take (length xs) ys = xs \<Longrightarrow> length xs \<le> length ys \<and> (\<forall>i < length xs. ys ! i = xs ! i)"
  by (metis length_take min.cobounded1 min_def nth_take)

lemma tables_forD:
  assumes "tables_for lit dist d" and "lengths_ok lit dist"
  shows "tables_ok d" "s < length lit \<Longrightarrow> lit ! s \<noteq> 0 \<Longrightarrow> symbol_bits d 0 s = code_string lit s \<and> has_code d 0 s"
    "s < length dist \<Longrightarrow> dist ! s \<noteq> 0 \<Longrightarrow> symbol_bits d 1 s = code_string dist s \<and> has_code d 1 s"
proof -
  note t = taken [of lit "m_huff_code_sizes d ! 0"] taken [of dist "m_huff_code_sizes d ! 1"]
  have le: "s < length lit \<Longrightarrow> lit ! s \<le> 15" "s < length dist \<Longrightarrow> dist ! s \<le> 15" for s
    using assms(2) by (auto simp: lengths_ok_def fits_def)
  show "tables_ok d"
    using assms t le by (auto simp: tables_ok_def table_ok_def tables_for_def lengths_ok_def canonical_def less_2_cases_iff)
  show "s < length lit \<Longrightarrow> lit ! s \<noteq> 0 \<Longrightarrow> symbol_bits d 0 s = code_string lit s \<and> has_code d 0 s"
    "s < length dist \<Longrightarrow> dist ! s \<noteq> 0 \<Longrightarrow> symbol_bits d 1 s = code_string dist s \<and> has_code d 1 s"
    using assms(1) t by (auto simp: tables_for_def canonical_def symbol_bits_def has_code_def)
qed

lemma code_bits_encode:
  assumes "tables_for lit dist d" and "lengths_ok lit dist" and "code_ok c" and "coded lit dist c"
  shows "code_bits d c = encode lit dist c" "has_codes d c"
proof -
  note t = tables_forD [OF assms(1,2)]
  have "code_bits d c = encode lit dist c \<and> has_codes d c"
  proof (cases c)
    case (Literal x)
    then show ?thesis using t(2) [of x] assms(2-4) by (simp add: lengths_ok_def)
  next
    case (Match m dist')
    then have md: "m < 256" "dist' < TDEFL_LZ_DICT_SIZE" using assms(3) by simp_all
    show ?thesis
      using t(2) [of "s_tdefl_len_sym ! m"] t(3) [of "dist_sym dist'"] assms(2,4) len_code(2) [OF md(1)] dist_code(1) [OF md(2)] Match
      by (simp add: lengths_ok_def bits_mod)
  qed
  then show "code_bits d c = encode lit dist c" "has_codes d c" by blast+
qed

lemma encode_all_bits:
  assumes "tables_for lit dist d" and "lengths_ok lit dist" and "\<forall>c \<in> set cs. code_ok c \<and> coded lit dist c" and "lit ! 256 \<noteq> 0"
  shows "all_bits d cs @ symbol_bits d 0 256 = encode_all lit dist cs" "codes_ok d cs" "has_code d 0 256"
proof -
  have "all_bits d cs = concat (map (encode lit dist) cs)"
    unfolding all_bits_def using code_bits_encode(1) [OF assms(1,2)] assms(3) by (intro arg_cong [where f = concat] map_cong) auto
  then show "all_bits d cs @ symbol_bits d 0 256 = encode_all lit dist cs"
    using tables_forD(2) [OF assms(1,2), of 256] assms(2,4) by (simp add: encode_all_def lengths_ok_def)
  show "codes_ok d cs" using code_bits_encode(2) [OF assms(1,2)] assms(3) by (simp add: codes_ok_def)
  show "has_code d 0 256" using tables_forD(2) [OF assms(1,2), of 256] assms(2,4) by (simp add: lengths_ok_def)
qed

text \<open>The first two bits of a static block after the bit of the last block: type 1.\<close>

lemma arrays_ok_codes: "arrays_ok d \<Longrightarrow> length codes = TDEFL_MAX_HUFF_SYMBOLS \<Longrightarrow> arrays_ok (d\<lparr>m_huff_codes := (m_huff_codes d)[t := codes]\<rparr>)"
  by (cases "t < 3") (auto simp: arrays_ok_def nth_list_update)

lemma wp_optimize_static:
  assumes "arrays_ok d" and "t < 2" and "n \<le> TDEFL_MAX_HUFF_SYMBOLS" and "fits 15 (take n (m_huff_code_sizes d ! t))"
  shows "wp (tdefl_optimize_huffman_table t n 15 True) (\<lambda>_ u. \<exists>codes. u = d\<lparr>m_huff_codes := (m_huff_codes d)[t := codes]\<rparr> \<and>
    arrays_ok u \<and> canonical (take n (m_huff_code_sizes d ! t)) (m_huff_codes u ! t)) d"
proof -
  let ?sizes = "m_huff_code_sizes d ! t" and ?codes = "m_huff_codes d ! t"
  have l: "length ?sizes = TDEFL_MAX_HUFF_SYMBOLS" "length ?codes = TDEFL_MAX_HUFF_SYMBOLS" "t < length (m_huff_codes d)"
    using assms(1,2) by (auto simp: arrays_ok_def)
  have "wp (optimize_table (m_huff_count d ! t) ?sizes ?codes n 15 True) (\<lambda>(sizes', codes') u. u = d \<and> sizes' = ?sizes \<and>
      length codes' = length ?codes \<and> canonical (take n ?sizes) codes') d"
    by (intro static_table_is_canonical) (use assms l in simp_all)
  then show ?thesis
    unfolding tdefl_optimize_huffman_table_def wp_bnd_gets id_apply
  proof (rule wp_bndI, clarify)
    fix sizes' codes' assume c: "canonical (take n ?sizes) codes'" "length codes' = length ?codes"
    let ?u = "d\<lparr>m_huff_codes := (m_huff_codes d)[t := codes']\<rparr>"
    have "arrays_ok ?u" using assms(1) c(2) l(2) by (intro arrays_ok_codes) simp_all
    moreover have "canonical (take n ?sizes) (m_huff_codes ?u ! t)" using c(1) l(3) by simp
    ultimately show "wp (modify (\<lambda>e. e\<lparr>m_huff_codes := (m_huff_codes e)[t := codes'], m_huff_code_sizes := (m_huff_code_sizes e)[t := ?sizes]\<rparr>))
        (\<lambda>_ u. \<exists>codes. u = d\<lparr>m_huff_codes := (m_huff_codes d)[t := codes]\<rparr> \<and> arrays_ok u \<and>
          canonical (take n ?sizes) (m_huff_codes u ! t)) d"
      unfolding wp_modify list_update_id by (intro exI [of _ codes']) simp
  qed
qed

text \<open>What the headers of a block leave alone.\<close>

definition same_codes :: "tdefl_compressor \<Rightarrow> tdefl_compressor \<Rightarrow> bool" where
  "same_codes d t \<longleftrightarrow> (m_lz_code_buf t, m_pLZ_code_buf t, m_pOutput_buf_end t) = (m_lz_code_buf d, m_pLZ_code_buf d, m_pOutput_buf_end d)"

lemma wp_start_static:
  assumes "arrays_ok d" and "bits_ok d" and "length (bstream d) + 2 \<le> 8 * m_pOutput_buf_end d"
  shows "wp tdefl_start_static_block (\<lambda>_ u. tables_for static_lit static_dist u \<and> bits_ok u \<and> arrays_ok u \<and> same_codes d u \<and>
    bstream u = bstream d @ [True, False]) d"
proof -
  let ?dist = "replicate 32 5 @ drop 32 (m_huff_code_sizes d ! 1)"
  let ?d = "d\<lparr>m_huff_code_sizes := (m_huff_code_sizes d)[0 := static_lit, 1 := ?dist]\<rparr>"
  have l: "length (m_huff_code_sizes d) = 3" "length (m_huff_codes d) = 3" "length (m_huff_code_sizes d ! 1) = 288"
    using assms(1) by (auto simp: arrays_ok_def)
  have ok: "arrays_ok ?d" using assms(1) by (auto simp: arrays_ok_def nth_list_update less_Suc_eq numeral_3_eq_3)
  have lit: "take 288 (m_huff_code_sizes ?d ! 0) = static_lit" "take 32 (m_huff_code_sizes ?d ! 1) = static_dist"
    using l by (simp_all add: static_dist_def)
  have fit: "fits 15 static_lit" "fits 15 static_dist" using static_lengths by (simp_all add: lengths_ok_def)
  let ?Q = "\<lambda>u. tables_for static_lit static_dist u \<and> bits_ok u \<and> arrays_ok u \<and> same_codes d u \<and> bstream u = bstream d @ [True, False]"
  have put: "wp (TDEFL_PUT_BITS 1 2) (\<lambda>_. ?Q) v"
    if "tables_for static_lit static_dist v" "arrays_ok v" "same_codes d v" "bits_ok v" "bstream v = bstream d" for v
  proof -
    have "wp (TDEFL_PUT_BITS 1 2) (\<lambda>_. emits (bits 1 2) v) v"
      using that assms(3) by (intro wp_PUT_BITS) (auto simp: same_codes_def)
    then show ?thesis
    proof (rule wp_mono)
      fix u assume u: "emits (bits 1 2) v u"
      show "?Q u"
        using that u emits_simps [OF u]
        by (cases u; cases v) (simp add: emits_def tables_for_def arrays_ok_def same_codes_def numeral_2_eq_2)
    qed
  qed
  have second: "wp (seq (tdefl_optimize_huffman_table 1 32 15 True) (TDEFL_PUT_BITS 1 2)) (\<lambda>_. ?Q) u"
    if u: "u = ?d\<lparr>m_huff_codes := (m_huff_codes ?d)[0 := codes]\<rparr>" "arrays_ok u" "canonical static_lit (m_huff_codes u ! 0)" for u codes
    unfolding wp_seq
  proof (rule wp_mono [OF wp_optimize_static])
    show "fits 15 (take 32 (m_huff_code_sizes u ! 1))" using lit(2) fit(2) u(1) by simp
    fix v assume "\<exists>codes. v = u\<lparr>m_huff_codes := (m_huff_codes u)[1 := codes]\<rparr> \<and> arrays_ok v \<and>
        canonical (take 32 (m_huff_code_sizes u ! 1)) (m_huff_codes v ! 1)"
    then obtain codes' where v: "v = u\<lparr>m_huff_codes := (m_huff_codes u)[1 := codes']\<rparr>" "arrays_ok v"
        "canonical (take 32 (m_huff_code_sizes u ! 1)) (m_huff_codes v ! 1)" by blast
    show "wp (TDEFL_PUT_BITS 1 2) (\<lambda>_. ?Q) v"
      using u v lit l assms(2)
      by (intro put) (simp_all add: tables_for_def same_codes_def bits_ok_def bstream_def static_dist_def)
  qed (use u(2) in simp_all)
  have "wp (tdefl_optimize_huffman_table 0 288 15 True) (\<lambda>_ u.
      wp (seq (tdefl_optimize_huffman_table 1 32 15 True) (TDEFL_PUT_BITS 1 2)) (\<lambda>_. ?Q) u) ?d"
  proof (rule wp_mono [OF wp_optimize_static])
    show "fits 15 (take 288 (m_huff_code_sizes ?d ! 0))" using lit(1) fit(1) by simp
    fix u assume "\<exists>codes. u = ?d\<lparr>m_huff_codes := (m_huff_codes ?d)[0 := codes]\<rparr> \<and> arrays_ok u \<and>
        canonical (take 288 (m_huff_code_sizes ?d ! 0)) (m_huff_codes u ! 0)"
    then show "wp (seq (tdefl_optimize_huffman_table 1 32 15 True) (TDEFL_PUT_BITS 1 2)) (\<lambda>_. ?Q) u"
      unfolding lit(1) using second by blast
  qed (use ok in simp_all)
  then show ?thesis by (simp add: tdefl_start_static_block_def static_lit_def)
qed

section \<open>The output buffer is large enough\<close>

lemma static_lengths_le: "s < 288 \<Longrightarrow> static_lit ! s \<le> 9" "256 \<le> s \<Longrightarrow> s < 288 \<Longrightarrow> static_lit ! s \<le> 8" "s < 32 \<Longrightarrow> static_dist ! s = 5"
  by (auto simp: static_lit_def static_dist_def nth_append nth_Cons')

lemma length_encode_static: "code_ok c \<Longrightarrow> 8 * length (encode static_lit static_dist c) \<le> 80 * length (code_bytes c) + 10"
proof (cases c)
  case (Literal x)
  moreover assume "code_ok c"
  ultimately show ?thesis using static_lengths_le(1) [of x] by simp
next
  case (Match m dist)
  moreover assume "code_ok c"
  ultimately have md: "m < 256" "dist < TDEFL_LZ_DICT_SIZE" by simp_all
  show ?thesis
    using static_lengths_le(2) [of "s_tdefl_len_sym ! m"] static_lengths_le(3) [of "dist_sym dist"] len_code [OF md(1)] dist_code [OF md(2)] Match
    by simp
qed

lemma length_encode_all:
  assumes "\<forall>c \<in> set cs. code_ok c" and "code_space cs \<le> TDEFL_LZ_CODE_BUF_SIZE"
  shows "2 + length (encode_all static_lit static_dist cs) < 8 * (TDEFL_OUT_BUF_SIZE - 16)"
proof -
  have "8 * length (concat (map (encode static_lit static_dist) cs)) \<le> 80 * length (codes_bytes cs) + 10 * length cs"
    using assms(1)
  proof (induction cs)
    case (Cons c cs)
    then show ?case using length_encode_static [of c] by simp
  qed simp
  moreover have "length cs \<le> 8 * (length cs div 8) + 7" by presburger
  then have "8 * code_space cs \<ge> 1 + 8 * length (codes_bytes cs) + length cs" by (simp add: code_space_def)
  moreover have "static_lit ! 256 \<le> 9" by (rule static_lengths_le) simp
  ultimately show ?thesis using assms(2) by (simp add: encode_all_def)
qed

section \<open>The round trip\<close>

lemma recorded_init: "arrays_ok d \<Longrightarrow> m_pLZ_code_buf d = 1 \<Longrightarrow> m_pLZ_flags d = 0 \<Longrightarrow> m_num_flags_left d = 8 \<Longrightarrow> recorded d []"
  unfolding recorded_def recorded_as_def using arrays_okD(3) [of d 0] by simp

lemma wp_init:
  assumes "arrays_ok d"
  shows "wp (tdefl_init put_func flags) (\<lambda>_ t. recorded t [] \<and> arrays_ok t \<and> bits_ok t \<and> bstream t = []) d"
proof -
  have "arrays_ok (d\<lparr>m_huff_count := (m_huff_count d)[0 := replicate TDEFL_MAX_HUFF_SYMBOLS_0 0,
      1 := replicate TDEFL_MAX_HUFF_SYMBOLS_1 0 @ drop TDEFL_MAX_HUFF_SYMBOLS_1 (m_huff_count d ! 1)]\<rparr>)"
    using assms by (auto simp: arrays_ok_def nth_list_update)
  then show ?thesis
    by (auto simp: tdefl_init_def bits_ok_def bstream_def stream_def arrays_ok_def intro!: recorded_init)
qed

lemma static_coded: "code_ok c \<Longrightarrow> coded static_lit static_dist c"
proof (cases c)
  case (Match m d)
  moreover assume "code_ok c"
  ultimately show ?thesis using len_code(2) [of m] dist_code(1) [of d] by (simp add: static_all_coded)
qed (simp add: static_all_coded)

lemma wp_code_static:
  assumes "closed d cs e" and "\<forall>c \<in> set cs. code_ok c" and "code_space cs \<le> TDEFL_LZ_CODE_BUF_SIZE" and "bits_ok d"
    and "bstream d = []" and "m_pOutput_buf_end d = TDEFL_OUT_BUF_SIZE - 16" and "m_pLZ_code_buf e \<le> TDEFL_LZ_CODE_BUF_SIZE"
  shows "wp (tdefl_compress_block True) (\<lambda>ok t. ok \<and> bstream t = [True, False] @ encode_all static_lit static_dist cs) e"
proof -
  have e: "bits_ok e" "bstream e = []" "m_pOutput_buf_end e = TDEFL_OUT_BUF_SIZE - 16" "arrays_ok e"
    using assms(1,4-6) by (auto simp: closed_def same_coder_def bits_ok_def bstream_def)
  have coded: "\<forall>c \<in> set cs. code_ok c \<and> coded static_lit static_dist c" using assms(2) static_coded by blast
  have codes: "wp tdefl_compress_lz_codes (\<lambda>ok t. ok \<and> bstream t = [True, False] @ encode_all static_lit static_dist cs) u"
    if u: "tables_for static_lit static_dist u" "bits_ok u" "arrays_ok u" "same_codes e u" "bstream u = bstream e @ [True, False]" for u
  proof -
    note all = encode_all_bits [OF u(1) static_lengths coded static_all_coded(1), simplified]
    have "wp tdefl_compress_lz_codes (\<lambda>ok t. ok \<and> emits (all_bits u cs @ symbol_bits u 0 256) u t) u"
      using assms(1,7) u e all length_encode_all [OF assms(2,3)] tables_forD(1) [OF u(1) static_lengths]
      by (intro codes_are_written)
        (auto simp: closed_def same_codes_def simp flip: all(1))
    then show ?thesis by (rule wp_mono) (auto simp: all e u dest: emits_simps(3))
  qed
  show ?thesis
    unfolding tdefl_compress_block_def wp_seq if_True
    by (rule wp_mono [OF wp_start_static]) (use e codes in simp_all)
qed

text \<open>C20. A static block can be read back: when the literals and matches \<open>cs\<close> have been recorded from the state that
  \<open>tdefl_init\<close> leaves and the flags are closed, \<open>tdefl_compress_block\<close> succeeds, and what it appends to the stream is the type of
  the block and bits that the decoder of RFC 1951 turns into \<open>cs\<close> again, whatever the arrays of the structure held before. All
  that is needed is that the codes fit into \<open>m_lz_code_buf\<close>: their bits always fit into the output buffer.\<close>
theorem static_block_round_trip:
  assumes "arrays_ok d" and "\<forall>c \<in> set cs. code_ok c" and "code_space cs \<le> TDEFL_LZ_CODE_BUF_SIZE"
  shows "wp (seq (tdefl_init put_func flags)
      (seq (modify (\<lambda>d. d\<lparr>m_pOutput_buf_end := TDEFL_OUT_BUF_SIZE - 16\<rparr>))
      (seq (for_each record_code cs) (seq close_codes (tdefl_compress_block True)))))
    (\<lambda>ok t. ok \<and> (\<exists>xs. bstream t = [True, False] @ xs \<and> (\<forall>ys. decode_codes static_lit static_dist (xs @ ys) = Some (cs, ys)))) d"
proof -
  have block: "wp (tdefl_compress_block True) (\<lambda>ok t. ok \<and>
      (\<exists>xs. bstream t = [True, False] @ xs \<and> (\<forall>ys. decode_codes static_lit static_dist (xs @ ys) = Some (cs, ys)))) v"
    if "closed u cs v" "bits_ok u" "bstream u = []" "m_pOutput_buf_end u = TDEFL_OUT_BUF_SIZE - 16" "m_pLZ_code_buf v \<le> TDEFL_LZ_CODE_BUF_SIZE" for u v
  proof -
    have "wp (tdefl_compress_block True) (\<lambda>ok t. ok \<and> bstream t = [True, False] @ encode_all static_lit static_dist cs) v"
      using that assms by (intro wp_code_static)
    then show ?thesis
    proof (rule wp_mono, elim conjE, intro conjI)
      fix ok t assume "bstream t = [True, False] @ encode_all static_lit static_dist cs"
      moreover have "decode_codes static_lit static_dist (encode_all static_lit static_dist cs @ ys) = Some (cs, ys)" for ys
        using static_coded assms(2) by (intro decode_encode_all static_lengths static_all_coded) auto
      ultimately show "\<exists>xs. bstream t = [True, False] @ xs \<and> (\<forall>ys. decode_codes static_lit static_dist (xs @ ys) = Some (cs, ys))"
        by blast
    qed
  qed
  have run: "wp (seq (for_each record_code cs) (seq close_codes (tdefl_compress_block True))) (\<lambda>ok t. ok \<and>
      (\<exists>xs. bstream t = [True, False] @ xs \<and> (\<forall>ys. decode_codes static_lit static_dist (xs @ ys) = Some (cs, ys)))) u"
    if u: "recorded u []" "arrays_ok u" "bits_ok u" "bstream u = []" "m_pOutput_buf_end u = TDEFL_OUT_BUF_SIZE - 16" for u
    unfolding wp_seq
  proof (rule wp_mono [OF wp_record_all [OF u(1,2) assms(2,3)]], rule wp_mono [OF wp_close_codes [where cs = cs]])
    fix v assume v: "records u cs v"
    show "recorded v cs" "arrays_ok v" using v by (simp_all add: records_def)
    show room: "m_pLZ_code_buf v \<le> TDEFL_LZ_CODE_BUF_SIZE" using v recorded_space [of v cs] assms(3) by (simp add: records_def)
    fix w assume w: "closed v cs w"
    have "bits_ok v" "bstream v = []" "m_pOutput_buf_end v = TDEFL_OUT_BUF_SIZE - 16"
      using v u by (auto simp: records_def same_coder_def bits_ok_def bstream_def)
    moreover have "m_pLZ_code_buf w \<le> TDEFL_LZ_CODE_BUF_SIZE" using w room by (simp add: closed_def)
    ultimately show "wp (tdefl_compress_block True) (\<lambda>ok t. ok \<and>
      (\<exists>xs. bstream t = [True, False] @ xs \<and> (\<forall>ys. decode_codes static_lit static_dist (xs @ ys) = Some (cs, ys)))) w"
      by (intro block [OF w])
  qed
  have "wp (seq (modify (\<lambda>d. d\<lparr>m_pOutput_buf_end := TDEFL_OUT_BUF_SIZE - 16\<rparr>))
      (seq (for_each record_code cs) (seq close_codes (tdefl_compress_block True)))) (\<lambda>ok t. ok \<and>
      (\<exists>xs. bstream t = [True, False] @ xs \<and> (\<forall>ys. decode_codes static_lit static_dist (xs @ ys) = Some (cs, ys)))) t"
    if "recorded t [] \<and> arrays_ok t \<and> bits_ok t \<and> bstream t = []" for t
    unfolding wp_seq [of "modify _"] wp_modify
    using that by (intro run) (auto simp: recorded_def recorded_as_def arrays_ok_def bits_ok_def bstream_def)
  then show ?thesis by (subst wp_seq) (rule wp_mono [OF wp_init [OF assms(1)]])
qed

text \<open>One literal, three times: the literal \<open>A\<close> and a match of length 3 at distance 1.\<close>

theorem static_block_round_trip_witness:
  "\<exists>ok t. seq (tdefl_init True 0)
      (seq (modify (\<lambda>d. d\<lparr>m_pOutput_buf_end := TDEFL_OUT_BUF_SIZE - 16\<rparr>))
      (seq (for_each record_code [Literal 65, Match 0 0]) (seq close_codes (tdefl_compress_block True)))) empty_compressor = Inr (ok, t) \<and> ok \<and>
    (\<exists>xs. bstream t = [True, False] @ xs \<and> decode_codes static_lit static_dist (xs @ [True]) = Some ([Literal 65, Match 0 0], [True]))"
proof -
  have "arrays_ok empty_compressor" by (auto simp: arrays_ok_def empty_compressor_def nth_Cons')
  moreover have "code_space [Literal 65, Match 0 0] \<le> TDEFL_LZ_CODE_BUF_SIZE" by (simp add: code_space_def)
  ultimately show ?thesis
    using static_block_round_trip [of empty_compressor "[Literal 65, Match 0 0]" True 0] unfolding wp_iff by auto
qed

end
