(* ===== verification/Spec2Isabelle.thy ===== *)
theory Spec2Isabelle
  imports List_Properties Wire_Properties Server_Properties Peer_Properties Producer_Properties
    Miniz_Checksum Miniz_Reader_Properties Zip_Delete_Facts Zip_Extract Zip_Archive Tdefl_Memory Tdefl_Match Tdefl_Record
begin

text \<open>
  The program is a delivery manager with its producers and clients. Three producers
  (\<open>productores/\<close>) write texts into a POSIX message queue; the delivery manager
  (\<open>server/\<close>) reads the queue, a FIFO fed by a command line process and the sockets of its clients,
  and forwards every message to the clients subscribed to its producer; a client (\<open>client/\<close>) acknowledges
  what it gets, reconnects with the token of its old session and receives the zipped log file over a
  second socket. The archive is made with \<open>zip.c\<close>, which is written on top of \<open>miniz.h\<close>.

  Theories, and what they model (paths are relative to \<open>src/\<close>):

  \<^item> \<open>Prelude\<close>: bytes, little and big endian numbers, C integers, the collections of simplification rules.
    \<open>Computation\<close>: state passing with faults (\<open>fault + 'a \<times> 's\<close>); a fault is undefined behaviour of
    the C code, an error return of the code is an ordinary value. \<open>Weakest_Pre\<close>: weakest preconditions over it.
  \<^item> \<open>Linked_List\<close>: \<open>server/src/list.c\<close> on a heap with null, dangling and uninitialised
    pointers. \<open>List_Spec\<close> says what a list promises as a locale, \<open>List_Refinement\<close> interprets it on the heap
    operations, \<open>List_Properties\<close> holds the theorems.
  \<^item> \<open>OS\<close>: the system calls the processes share. \<open>Protocol\<close>: \<open>common/src/protocol.c\<close>, packets as 112 bytes.
    \<open>Mq_Util\<close>: \<open>common/src/mq_util.c\<close>. \<open>Format\<close>, \<open>CLI\<close>: the \<open>printf\<close> conversions and tokens used and
    \<open>server/src/cli.c\<close>. \<open>Wire_Properties\<close>: round trips over the wire.
  \<^item> \<open>Server_Util\<close>, \<open>Server\<close>, \<open>Server_Actions\<close>: \<open>server/src/srv_util.c\<close> and \<open>server/src/srv.c\<close>, one definition per
    handler and one step \<open>srv_iteration\<close> of the event loop; \<open>Server_Facts\<close>, \<open>Server_Invariant\<close> and
    \<open>Server_Runs\<close> prove the invariant of sessions, rooms and buffer along runs; \<open>Server_Properties\<close> the theorems.
  \<^item> \<open>File_Transfer\<close>, \<open>File_Transfer_Facts\<close>: \<open>handle_loq_req\<close> of the server and \<open>recv_file\<close> of the client.
    \<open>Client\<close>, \<open>Client_Facts\<close>: \<open>client/src/cliente.c\<close>. \<open>Peer_Properties\<close>: theorems about both.
  \<^item> \<open>Producers\<close>, \<open>Producer_Properties\<close>: \<open>productores/src/\<close>.
  \<^item> \<open>Zip_World\<close>: the C library as \<open>zip.c\<close> and \<open>miniz.h\<close> use it (allocation, streams, times), every call
    of which may fail. \<open>Zip_Format\<close>: record layouts of a ZIP file. \<open>Zip_Names\<close>, \<open>Zip_Paths\<close>: the error
    texts of \<open>server/include/zip.h\<close> and the names and paths of \<open>server/src/zip.c\<close>.
  \<^item> \<open>Miniz_Archive\<close>: state of an archive in \<open>server/include/miniz.h\<close>, its growable arrays and its
    read and write functions. \<open>Miniz_Checksum\<close>: CRC-32 and Adler-32. \<open>Miniz_Sorting\<close>, \<open>Miniz_Lookup\<close>: the heap sort of the
    index and the binary search, proved inside the locales \<open>key_order\<close> and \<open>key_compare\<close> and interpreted on
    the names of a central directory. \<open>Miniz_Reader\<close>: opening and querying an archive;
    \<open>Miniz_Reader_Facts\<close>, \<open>Miniz_Open\<close>: what every step of it keeps;
    \<open>Miniz_Reader_Properties\<close> the theorems.
  \<^item> \<open>Miniz_Writer\<close>, \<open>Miniz_Extract\<close>: the writing of archives and the extraction of entries of \<open>miniz.h\<close>;
    \<open>Miniz_Writer_Facts\<close>: what the writer puts where. The compressor is an argument \<open>tdefl\<close> (start, step, state after
    a refused block), the decompressor an argument \<open>tinfl\<close>. \<open>Zip_Entry\<close>, \<open>Zip_Extract\<close>: the calls of \<open>zip.c\<close> for
    opening, writing, closing, reading and extracting entries and whole archives; a handle is a truth value, since
    each caller has at most one. \<open>Zip_Archive\<close>: \<open>zip_log\<close>, the five calls of \<open>handle_loq_req\<close>, and the archive they leave.
  \<^item> \<open>Deflate_Tables\<close>, \<open>Tdefl_Huffman\<close>, \<open>Tdefl_Block\<close>, \<open>Tdefl_Compress\<close>, \<open>Tdefl_Memory\<close>: the compressor of
    \<open>miniz.h\<close>, from its tables and the computation of code lengths over the coding of a block and the two parsing loops to the
    calls of a client, for an x86-64 build (64-bit registers, little endian, unaligned loads); \<open>miniz_deflate\<close>
    makes it an instance of \<open>tdefl\<close>.
  \<^item> \<open>Tdefl_Match\<close>: the search for matches stays in the dictionary and finds real matches. \<open>Bit_Stream\<close>: bytes, bit buffer
    and bits still in it as one string of bits. \<open>Canonical_Codes\<close>: the codes of RFC 1951, that they are prefix free and that
    \<open>give_codes\<close> gives them. \<open>Deflate_Spec\<close>: a decoder of RFC 1951 for the codes of a block. \<open>Tdefl_Codes\<close>: what
    \<open>tdefl_compress_lz_codes\<close> writes. \<open>Tdefl_Record\<close>: what the recording of literals and matches leaves in \<open>m_lz_code_buf\<close>,
    and the round trip of a static block.
  \<^item> \<open>Zip_Delete\<close>: the deletion of entries of \<open>server/src/zip.c\<close>; \<open>Zip_Delete_Facts\<close>: its sort and record lengths are right for entries in
    the order of their data, and three of its faults.

  State. Each process is a record (\<open>srv\<close>, \<open>cli\<close>, \<open>client\<close>, a producer state), with the calls it made in the
  order it made them; the inputs of a loop iteration (what \<open>epoll_wait\<close>, \<open>recv\<close>, \<open>mq_receive\<close>, \<open>accept\<close> answer) are
  arguments, so a theorem over all lists of inputs speaks of every behaviour of the peers. At the level
  of the event loop the lists are lists of values; \<open>list_operations_refine\<close> says that the heap operations
  implement exactly these. The archive code runs on a state of type \<open>'s\<close> extending \<open>world\<close>: the disk, the events
  on the file system and two counters, by which the environment \<open>zenv\<close> decides which allocation and which
  call fails.

  Bounds and fuel. Machine integers are words, or naturals reduced by \<open>u16\<close>, \<open>u32\<close>, \<open>u64\<close> where an operation
  can leave the range. The search for the end record of an archive runs on fuel 18: it steps back 4093 bytes and gives
  up 65557 bytes before the end, so 17 steps are enough, and \<open>any_memory_archive_opens_safely\<close>
  proves that the call returns. The loops of the compressor and of the extraction run on fuel taken
  from the number of bytes or codes they still have to handle, of which every round takes at least one; \<open>codes_are_written\<close> and
  \<open>static_block_round_trip\<close> show that it is enough for the codes of a block, \<open>log_archive_is_complete\<close> that the fuel it
  names is enough for the loop over the file. The loops of the heap sort run on fuel bounded by the number
  of entries. Where a loop of the program may never end (\<open>join_existing_mq\<close>, the reading of a clock) the model runs over the list
  of the answers it gets.

  Parameters. MD5 of openssl, the clock, \<open>localtime\<close> and \<open>mktime\<close>, and what the operating system
  answers are arguments of the definitions; the hypotheses on them (\<open>io_ok\<close>, \<open>clock_ok\<close>, \<open>md5_ok\<close>, \<open>log_ok\<close>,
  \<open>env_ok\<close>) say that calls succeed or that a digest has its length, and each theorem that uses them has a witness at a
  concrete instance.

  Not modelled: the decompressor of \<open>miniz.h\<close> (an argument of the definitions that call it), its zlib-style streams and
  its PNG writer; a null result of \<open>localtime\<close>; a failing allocation inside a list operation of the event loop,
  which is modelled in \<open>Linked_List\<close> only; the
  registration with \<open>epoll\<close>, \<open>mkfifo\<close>, \<open>srand\<close>, \<open>sleep\<close>, \<open>setvbuf\<close> and \<open>signal\<close> calls, which leave no trace in the state
  (the signal handlers themselves are modelled); the interleaving of the transfer threads with the loops of their processes;
  buffering inside \<open>stdio\<close>, a failing \<open>ftell\<close>, overflow of \<open>time_t\<close>, custom allocators of an archive; the
  message that \<open>list_delete\<close> prints; the build files and the shell scripts.
\<close>

section \<open>From the command line to the server\<close>

lemma length_show_c_int: "length (show_int (sint (w :: c_int))) \<le> 11"
proof -
  have b: "- (2 ^ 31) \<le> sint w" "sint w < 2 ^ 31"
    using sint_ge [of w] sint_lt [of w] by simp_all
  have "length (show_nat (nat \<bar>sint w\<bar>)) \<le> 10"
    using b by (intro length_show_nat) auto
  then show ?thesis using b by (auto simp: show_int_def)
qed

lemma show_int_chars: "c \<in> set (show_int i) \<Longrightarrow> c \<noteq> CHR 0x0A \<and> c \<noteq> CHR 0x00"
  using show_nat_digits [of c] by (auto simp: show_int_def is_digit_def split: if_splits)

lemma split_add_line:
  "split_tokens (''add '' @ show_int i @ '' '' @ show_int j @ [CHR 0x0A]) =
    [''add'', show_int i, show_int j @ [CHR 0x0A]]"
proof -
  have a: "no_space ''add''" by (simp add: no_space_def)
  have l: "no_space (show_int j @ [CHR 0x0A])" using show_int_no_space [of j] by (simp add: no_space_def)
  have "''add '' @ show_int i @ '' '' @ show_int j @ [CHR 0x0A] =
      ''add'' @ CHR '' '' # (show_int i @ CHR '' '' # (show_int j @ [CHR 0x0A]))" by simp
  then show ?thesis
    by (simp only: split_tokens_word [OF a] split_tokens_word [OF show_int_no_space] split_tokens_last [OF l])
qed

lemma atoi_show_c_int: "r = [] \<or> r = [CHR 0x0A] \<Longrightarrow> atoi (show_int (sint (w :: c_int)) @ r) = w"
  using atoi_show_int [of "sint w" r] sint_ge [of w] sint_lt [of w] by simp

text \<open>C10. A subscription typed at the command line arrives: the line is parsed, the structure written to the
  FIFO has twelve bytes, and the server that reads them executes exactly that command.\<close>

theorem typed_command_reaches_server:
  assumes "fd \<noteq> -1" and "length j = 12"
    and line: "stdin_left s = ''add '' @ show_int (sint tok) @ '' '' @ show_int (sint pr) @ CHR 0x0A # rest"
  shows "\<exists>t bs. cli_iteration E fd junk s = Inr ((), t) \<and> fifo_fds t = fifo_fds s \<and>
    writes (actions t) = writes (actions s) @ [(fd, bs)] \<and> length bs = 12 \<and>
    handle_cli_event F \<lparr>cev_in = True, cev_read = R_ok bs, cev_junk = j\<rparr> srv =
      do_command F \<lparr>ctype = CMD_ADD, socket = tok, productor = pr\<rparr> srv"
proof -
  let ?line = "''add '' @ show_int (sint tok) @ '' '' @ show_int (sint pr)"
  let ?cmd = "\<lparr>ctype = CMD_ADD, socket = tok, productor = pr\<rparr> :: command_t"
  have chars: "CHR 0x0A \<notin> set ?line" "CHR 0x00 \<notin> set ?line" using show_int_chars by fastforce+
  have len: "length ?line < 79"
    using length_show_c_int [of tok] length_show_c_int [of pr] by simp
  have in1: "stdin_left s = ?line @ CHR 0x0A # rest" using line by simp
  have tw: "takeWhile (\<lambda>c. c \<noteq> CHR 0x0A) (?line @ CHR 0x0A # rest) = ?line"
    using chars(1) by (subst takeWhile_append2) auto
  have f: "fgets 80 (stdin_left s) = (Some (?line @ [CHR 0x0A]), rest)"
    using len unfolding in1 fgets_def tw Let_def by simp
  have z: "takeWhile (\<lambda>c. c \<noteq> CHR 0x00) (?line @ [CHR 0x0A]) = ?line @ [CHR 0x0A]"
    using chars(2) by (auto simp: takeWhile_eq_all_conv)
  have p: "parse_command (?line @ [CHR 0x0A]) junk = (0, ?cmd)"
    using split_add_line [of "sint tok" "sint pr"] atoi_show_c_int [of "[]" tok] atoi_show_c_int [of "[CHR 0x0A]" pr]
    by (cases junk) (simp add: parse_command_tokens)
  have cmd: "command_of (overlay (command_bytes ?cmd) j) = ?cmd"
    using command_of_bytes [of ?cmd "[]"] assms(2) by (simp add: overlay_full)
  have "\<exists>t. cli_iteration E fd junk s = Inr ((), t) \<and> fifo_fds t = fifo_fds s \<and>
      writes (actions t) = writes (actions s) @ [(fd, command_bytes ?cmd)]"
    using assms(1) f z p by (simp add: cli_iteration_def when_do_def seq_def bnd_def emit_def attempt_def)
  then show ?thesis by (auto simp: handle_cli_event_def cmd)
qed

theorem typed_command_reaches_server_witness:
  "\<exists>t bs. cli_iteration env0 5 cmd0 (cli0\<lparr>stdin_left := ''add 12 0'' @ [CHR 0x0A]\<rparr>) = Inr ((), t) \<and>
    writes (actions t) = [(5, bs)] \<and> length bs = 12"
proof -
  have "show_int (sint (12 :: c_int)) = ''12''" "show_int (sint (0 :: c_int)) = ''0''" by code_simp+
  then have l: "stdin_left (cli0\<lparr>stdin_left := ''add 12 0'' @ [CHR 0x0A]\<rparr>) =
      ''add '' @ show_int (sint (12 :: c_int)) @ '' '' @ show_int (sint (0 :: c_int)) @ CHR 0x0A # []"
    by simp
  have "length (replicate 12 0 :: byte list) = 12" "(5 :: int) \<noteq> -1" by simp_all
  from typed_command_reaches_server [OF this(2,1) l, of env0 cmd0 env0 srv0] show ?thesis
    by (auto simp: cli0_def)
qed

section \<open>Between client and server\<close>

text \<open>The check of a packet depends on the digest only; the two processes have environments of their own.\<close>

lemma check_packet_same_md5: "md5 C = md5 E \<Longrightarrow> check_packet_MD5 C p = check_packet_MD5 E p"
  by (simp add: check_packet_MD5_def)

lemma sealed_same_md5: "md5 C = md5 E \<Longrightarrow> sealed C t ty pl = sealed E t ty pl"
  by (simp add: sealed_def)

lemma receive_sealed:
  assumes "md5_ok E" and "length pl \<le> PAYLOAD_SIZE" and "length junk = 112"
  shows "receive_packet E fd (R_ok (packet_bytes (sealed E t ty pl))) junk =
    (if ty = M_TYPE_ACK then handle_ack E (sealed E t ty pl)
     else if ty = M_TYPE_AUTH then handle_auth E fd (sealed E t ty pl) else skip)"
proof -
  have wf: "packet_wf (sealed E t ty pl)" using assms(1,2) by (rule sealed_wf)
  have "packet_of (overlay (packet_bytes (sealed E t ty pl)) junk) = sealed E t ty pl"
    using length_packet_bytes [OF wf] assms(3) packet_of_bytes [OF wf] by (simp add: overlay_full)
  then show ?thesis by (simp add: receive_packet_def)
qed

text \<open>C11. The server understands a client that reconnects: of the two packets it writes in answer to
  CONN_ACCEPTED, the first is handled as an AUTH for the old and the new token on the connection it
  came from, the second as an ACK of the old token.\<close>

theorem reconnection_is_understood:
  assumes C: "clock_ok C" and md5: "md5_ok E" "md5 C = md5 E" and tok: "tflag s" "ctoken s = Some old"
    and len: "length (rcv_buf s) = 112" "length junk = 112"
  shows "\<exists>t bs1 bs2 auth ack.
    client_iteration C (R_ok (packet_bytes (sealed E now M_TYPE_CONN_ACCEPTED (le32 new)))) s = Inr ((), t) \<and>
    writes (actions t) = writes (actions s) @ [(csock s, bs1), (csock s, bs2)] \<and>
    receive_packet E fd (R_ok bs1) junk srv = handle_auth E fd auth srv \<and>
    payload_int auth = old \<and> payload_int2 auth = new \<and>
    receive_packet E fd (R_ok bs2) junk srv' = handle_ack E ack srv' \<and> payload_int ack = old"
proof -
  let ?p = "sealed E now M_TYPE_CONN_ACCEPTED (le32 new)"
  let ?s = "after_recv (R_ok (packet_bytes ?p)) s"
  have wf: "packet_wf ?p" by (rule sealed_wf [OF md5(1)]) simp
  have "buffer_after (R_ok (packet_bytes ?p)) (rcv_buf s) = packet_bytes ?p"
    using length_packet_bytes [OF wf] len(1) by (simp add: buffer_after_def overlay_full)
  then have "client_iteration C (R_ok (packet_bytes ?p)) s = on_conn_accepted C ?p ?s"
    using packet_of_bytes [OF wf] check_packet_same_md5 [OF md5(2), of ?p]
    by (simp add: client_iteration_dispatch dispatch_def)
  moreover have "tflag ?s" "ctoken ?s = Some old" using tok by simp_all
  ultimately obtain t now1 now2 where
    t: "client_iteration C (R_ok (packet_bytes ?p)) s = Inr ((), t)"
    "writes (actions t) = writes (actions s) @
      [(csock s, packet_bytes (sealed E now1 M_TYPE_AUTH (le32 old @ le32 new))),
       (csock s, packet_bytes (sealed E now2 M_TYPE_ACK (le32 old)))]"
    using on_conn_accepted_again [OF C, of ?s old ?p] sealed_same_md5 [OF md5(2)]
    by (auto simp: payload_int_sealed)
  let ?auth = "sealed E now1 M_TYPE_AUTH (le32 old @ le32 new)" and ?ack = "sealed E now2 M_TYPE_ACK (le32 old)"
  have "receive_packet E fd (R_ok (packet_bytes ?auth)) junk srv = handle_auth E fd ?auth srv"
    "receive_packet E fd (R_ok (packet_bytes ?ack)) junk srv' = handle_ack E ?ack srv'"
    by (simp_all add: receive_sealed [OF md5(1) _ len(2)])
  with t show ?thesis
    by (intro exI [of _ t] exI [of _ "packet_bytes ?auth"] exI [of _ "packet_bytes ?ack"]
        exI [of _ ?auth] exI [of _ ?ack]) (simp add: payload_int_sealed payload_ints_sealed)
qed

theorem reconnection_is_understood_witness:
  "\<exists>t bs1 bs2 auth. client_iteration env0 (R_ok (packet_bytes accepted0)) client0 = Inr ((), t) \<and>
    writes (actions t) = [(3, bs1), (3, bs2)] \<and> payload_int auth = 11 \<and> payload_int2 auth = 7 \<and>
    receive_packet env0 6 (R_ok bs1) (replicate 112 0) srv0 = handle_auth env0 6 auth srv0"
proof -
  have len: "length (replicate 112 0 :: byte list) = 112" by simp
  show ?thesis
    using reconnection_is_understood [OF clock_ok_env0 md5_ok_env0 refl, of client0 11 "replicate 112 0" 100 7 6 srv0 srv0]
    unfolding accepted0_def by fastforce
qed

text \<open>C12. A data packet of the server never makes a client that has a token read outside its payload; the
  client acknowledges it exactly when the digest matches, which by then is stale unless server and
  producer read the same second.\<close>

theorem data_packet_at_client:
  assumes E: "env_ok E" and C: "clock_ok C" "md5 C = md5 E" and ok: "mq_ok (Mq_msg m)"
    and run: "handle_mq E (Mq_msg m) srv = Inr ((), srv')" and q: "q = hd (buffer_packets srv')"
    and cl: "length (rcv_buf s) = 112" "ctoken s = Some tok"
  shows "\<exists>t. client_iteration C (R_ok (packet_bytes q)) s = Inr ((), t) \<and>
    writes (actions t) = writes (actions s) @ (if check_packet_MD5 C q = 1
      then [(csock s, packet_bytes (sealed C (clk C (ntime s)) M_TYPE_ACK (le32 tok)))] else [])"
proof -
  obtain body where body: "msg_text m = Inr body" using msg_text_ok [OF ok] by blast
  have lt: "length body < PAYLOAD_SIZE" using msg_text_length [OF _ body] ok by (simp add: mq_ok_def)
  then have len: "length body \<le> PAYLOAD_SIZE" by simp
  have "\<not> bad_productor (mp_id m)" using ok by (simp add: mq_ok_def)
  from handle_producer_msg_run [OF E body len this, of srv] run
  have qs: "q = (sealed E (clk E (Suc (ntime srv))) M_TYPE_DATA body)\<lparr>p_timestamp := mp_timestamp m\<rparr>"
    by (auto simp: handle_mq_def q)
  have md5: "md5_ok E" using E by (simp add: env_ok_def)
  have wf: "packet_wf q" using sealed_wf [OF md5 len] by (simp add: qs packet_wf_def)
  have ty: "p_mtype q = M_TYPE_DATA" by (simp add: qs)
  have "0 \<in> set (p_payload q)" using lt by (simp add: qs pad_to_def zeros_def)
  then obtain str where str: "c_str (p_payload q) = Some str" by (auto simp: c_str_def)
  let ?s = "after_recv (R_ok (packet_bytes q)) s"
  have "buffer_after (R_ok (packet_bytes q)) (rcv_buf s) = packet_bytes q"
    using length_packet_bytes [OF wf] cl(1) by (simp add: buffer_after_def overlay_full)
  then have it: "client_iteration C (R_ok (packet_bytes q)) s = dispatch C q ?s"
    using packet_of_bytes [OF wf] by (simp add: client_iteration_dispatch)
  show ?thesis
  proof (cases "check_packet_MD5 C q = 1")
    case True
    have "ctoken ?s = Some tok" using cl(2) by simp
    from on_data_run [OF C(1) this str] True it ty show ?thesis by (auto simp: dispatch_def)
  next
    case False
    then have "check_packet_MD5 C q = 0" using check_packet_values by metis
    with False it show ?thesis by (simp add: dispatch_def)
  qed
qed

theorem data_packet_at_client_witness:
  "\<exists>srv' t. handle_mq env0 (Mq_msg report0) srv0 = Inr ((), srv') \<and>
    client_iteration env0 (R_ok (packet_bytes (hd (buffer_packets srv')))) client0 = Inr ((), t)"
proof -
  obtain srv' where run: "handle_mq env0 (Mq_msg report0) srv0 = Inr ((), srv')"
    using returns_unit [OF returns_handle_mq [OF env_ok_env0 mq_ok_report0]] by blast
  from data_packet_at_client [OF env_ok_env0 clock_ok_env0 refl mq_ok_report0 run refl, of client0 11] run
  show ?thesis by auto
qed

text \<open>C13. The port of a file transfer survives the trip: the client hands its thread the port in network
  order, and read back it is the one the server listens on.\<close>

theorem transfer_port_agrees:
  assumes io: "io_ok E" and clock: "clock_ok E" and log: "log_ok E" and md5: "md5_ok E" "md5 C = md5 E"
    and ok: "transfer_ok a st_size archive" and clean: "actions s = []"
    and run: "handle_loq_req E a sock_req s = Inr ((), t)" and cl: "length (rcv_buf c) = 112"
  shows "\<exists>bs u. hd (writes (actions t)) = (sock_req, bs) \<and> client_iteration C (R_ok bs) c = Inr ((), u) \<and>
    (\<exists>port. actions u = actions c @ [Thread_recv_file port] \<and> htons port = FT_PORT)"
proof -
  obtain now where w: "writes (actions t) =
      (sock_req, packet_bytes (sealed E now M_TYPE_FT_SETUP (le16 (htons FT_PORT)))) #
      map (Pair (a_accept a)) (archive_packets E st_size archive)"
    using handle_loq_req_run [OF io clock log ok, of sock_req s] run clean by auto
  let ?p = "sealed E now M_TYPE_FT_SETUP (le16 (htons FT_PORT))"
  have wf: "packet_wf ?p" by (rule sealed_wf [OF md5(1)]) simp
  have "buffer_after (R_ok (packet_bytes ?p)) (rcv_buf c) = packet_bytes ?p"
    using length_packet_bytes [OF wf] cl by (simp add: buffer_after_def overlay_full)
  then have "client_iteration C (R_ok (packet_bytes ?p)) c =
      on_ft_setup ?p (after_recv (R_ok (packet_bytes ?p)) c)"
    using packet_of_bytes [OF wf] check_packet_same_md5 [OF md5(2), of ?p]
    by (simp add: client_iteration_dispatch dispatch_def)
  with w show ?thesis
    by (simp add: on_ft_setup_def emit_def after_recv_def payload_short_sealed htons_htons)
qed

theorem transfer_port_agrees_witness:
  "\<exists>t bs u port. handle_loq_req env0 transfer0 6 proc0 = Inr ((), t) \<and> hd (writes (actions t)) = (6, bs) \<and>
    client_iteration env0 (R_ok bs) client0 = Inr ((), u) \<and> actions u = [Thread_recv_file port] \<and>
    htons port = FT_PORT"
proof -
  obtain t where t: "handle_loq_req env0 transfer0 6 proc0 = Inr ((), t)"
    using handle_loq_req_run [OF io_ok_env0 clock_ok_env0 log_ok_env0 transfer_ok0, of 6 proc0] by blast
  from transfer_port_agrees [OF io_ok_env0 clock_ok_env0 log_ok_env0 md5_ok_env0 refl transfer_ok0 _ t, of client0] t
  show ?thesis by auto
qed

end
